(* ===== verification/Prelude.thy ===== *)
theory Prelude
  imports Main "HOL-Library.Word"
begin

unbundle bit_operations_syntax

text \<open>
  Shared vocabulary of the development: the machine types of the Rust sources, the result of
  a fallible Rust function, slices and little-endian integers, and the generic lemmas the
  components use.

  \<^item> Bytes, \<open>u16\<close> and \<open>u32\<close> values whose bits matter are words of that width; lengths and
    indices (\<open>usize\<close>, and the \<open>u32\<close> dimensions a geometry bounds) are natural numbers, with
    the bounds that rule out an overflow proved where they are used.
  \<^item> A Rust function that returns \<open>Result<T, E>\<close> and may also panic is a function into
    \<open>('e, 'a) outcome\<close>. Out-of-range indexing and slicing are \<open>Panic\<close>, so that the absence of
    panics is a theorem and not an artefact of HOL's total functions.
\<close>

section \<open>Machine types\<close>

type_synonym u8 = "8 word"
type_synonym u16 = "16 word"
type_synonym u32 = "32 word"
type_synonym bytes = "u8 list"

abbreviation (input) u16_max :: nat where "u16_max \<equiv> 65535"
abbreviation (input) u32_max :: nat where "u32_max \<equiv> 4294967295"
abbreviation (input) usize_bound :: nat where "usize_bound \<equiv> 18446744073709551616"

section \<open>Outcomes of Rust functions\<close>

datatype ('e, 'a) outcome = Ok 'a | Err 'e | Panic

named_theorems outcome_simps \<open>unfolding of slices and of sequenced outcomes\<close>
named_theorems le_simps \<open>little-endian encodings and their inverses\<close>

fun obind :: "('e, 'a) outcome \<Rightarrow> ('a \<Rightarrow> ('e, 'b) outcome) \<Rightarrow> ('e, 'b) outcome" where
  "obind (Ok x) f = f x"
| "obind (Err e) f = Err e"
| "obind Panic f = Panic"

lemma obind_cong [fundef_cong]:
  "m = m' \<Longrightarrow> (\<And>x. m' = Ok x \<Longrightarrow> f x = g x) \<Longrightarrow> obind m f = obind m' g"
  by (cases m') auto

lemma obind_eq_Ok_iff [simp]:
  "obind m f = Ok y \<longleftrightarrow> (\<exists>x. m = Ok x \<and> f x = Ok y)"
  by (cases m) auto

lemma obind_eq_Err_iff:
  "obind m f = Err e \<longleftrightarrow> m = Err e \<or> (\<exists>x. m = Ok x \<and> f x = Err e)"
  by (cases m) auto

lemma obind_eq_Panic_iff:
  "obind m f = Panic \<longleftrightarrow> m = Panic \<or> (\<exists>x. m = Ok x \<and> f x = Panic)"
  by (cases m) auto

text \<open>\<open>Option::ok_or\<close>.\<close>

fun ok_or :: "'a option \<Rightarrow> 'e \<Rightarrow> ('e, 'a) outcome" where
  "ok_or (Some x) e = Ok x"
| "ok_or None e = Err e"

lemma ok_or_eq_Ok_iff [simp]: "ok_or m e = Ok x \<longleftrightarrow> m = Some x"
  by (cases m) auto

lemma ok_or_not_Panic [simp]: "ok_or m e \<noteq> Panic"
  by (cases m) auto

section \<open>Slices and indices\<close>

text \<open>
  \<open>xs[i]\<close>, \<open>&xs[a..b]\<close> and \<open>&xs[a..]\<close> panic out of range; \<open>xs.get(a..b)\<close> answers \<open>None\<close>.
\<close>

definition index_at :: "'a list \<Rightarrow> nat \<Rightarrow> ('e, 'a) outcome" where
  "index_at xs i = (if i < length xs then Ok (xs ! i) else Panic)"

definition slice :: "'a list \<Rightarrow> nat \<Rightarrow> nat \<Rightarrow> ('e, 'a list) outcome" where
  "slice xs a b = (if a \<le> b \<and> b \<le> length xs then Ok (take (b - a) (drop a xs)) else Panic)"

definition slice_from :: "'a list \<Rightarrow> nat \<Rightarrow> ('e, 'a list) outcome" where
  "slice_from xs a = (if a \<le> length xs then Ok (drop a xs) else Panic)"

definition get_range :: "'a list \<Rightarrow> nat \<Rightarrow> nat \<Rightarrow> 'a list option" where
  "get_range xs a b = (if a \<le> b \<and> b \<le> length xs then Some (take (b - a) (drop a xs)) else None)"

text \<open>\<open>xs[i] = v\<close>, and \<open>xs[a..a + ys.len()].copy_from_slice(ys)\<close>.\<close>

definition store_at :: "'a list \<Rightarrow> nat \<Rightarrow> 'a \<Rightarrow> ('e, 'a list) outcome" where
  "store_at xs i v = (if i < length xs then Ok (xs[i := v]) else Panic)"

definition splice :: "'a list \<Rightarrow> nat \<Rightarrow> 'a list \<Rightarrow> 'a list" where
  "splice xs a ys = take a xs @ ys @ drop (a + length ys) xs"

definition copy_slice :: "'a list \<Rightarrow> nat \<Rightarrow> nat \<Rightarrow> 'a list \<Rightarrow> ('e, 'a list) outcome" where
  "copy_slice xs a b ys =
     (if a \<le> b \<and> b \<le> length xs \<and> length ys = b - a then Ok (splice xs a ys) else Panic)"

lemmas slice_defs = index_at_def slice_def slice_from_def get_range_def store_at_def copy_slice_def

lemma index_at_ok [outcome_simps]: "i < length xs \<Longrightarrow> index_at xs i = Ok (xs ! i)"
  by (simp add: index_at_def)

lemma slice_ok [outcome_simps]:
  "a \<le> b \<Longrightarrow> b \<le> length xs \<Longrightarrow> slice xs a b = Ok (take (b - a) (drop a xs))"
  by (simp add: slice_def)

lemma slice_from_ok [outcome_simps]: "a \<le> length xs \<Longrightarrow> slice_from xs a = Ok (drop a xs)"
  by (simp add: slice_from_def)

lemma slice_from_append [outcome_simps]: "slice_from (xs @ ys) (length xs) = Ok ys"
  by (simp add: slice_from_def)

lemma get_range_append [outcome_simps]:
  "get_range (xs @ ys @ zs) (length xs) (length xs + length ys) = Some ys"
  by (simp add: get_range_def)

lemma length_splice [simp]:
  "a + length ys \<le> length xs \<Longrightarrow> length (splice xs a ys) = length xs"
  by (simp add: splice_def)

lemma nth_splice:
  "a + length ys \<le> length xs \<Longrightarrow> i < length xs \<Longrightarrow>
   splice xs a ys ! i = (if a \<le> i \<and> i < a + length ys then ys ! (i - a) else xs ! i)"
  by (auto simp: splice_def nth_append min_def)

lemma copy_slice_ok [outcome_simps]:
  "a + length ys \<le> length xs \<Longrightarrow> copy_slice xs a (a + length ys) ys = Ok (splice xs a ys)"
  by (simp add: copy_slice_def)

section \<open>Little-endian integers\<close>

definition u16_to_le :: "u16 \<Rightarrow> bytes" where
  "u16_to_le w = [ucast w, ucast (drop_bit 8 w)]"

definition u16_from_le :: "u8 \<Rightarrow> u8 \<Rightarrow> u16" where
  "u16_from_le a b = ucast a OR push_bit 8 (ucast b)"

definition u32_to_le :: "u32 \<Rightarrow> bytes" where
  "u32_to_le w = [ucast w, ucast (drop_bit 8 w), ucast (drop_bit 16 w), ucast (drop_bit 24 w)]"

definition u32_from_le :: "u8 \<Rightarrow> u8 \<Rightarrow> u8 \<Rightarrow> u8 \<Rightarrow> u32" where
  "u32_from_le a b c d =
     ucast a OR push_bit 8 (ucast b) OR push_bit 16 (ucast c) OR push_bit 24 (ucast d)"

lemma length_u16_to_le [simp]: "length (u16_to_le w) = 2"
  by (simp add: u16_to_le_def)

lemma length_u32_to_le [simp]: "length (u32_to_le w) = 4"
  by (simp add: u32_to_le_def)

lemma byte_no_high_bits [simp]:
  "\<not> bit (a :: u8) (8 + n)" "\<not> bit (a :: u8) (16 + n)" "\<not> bit (a :: u8) (24 + n)"
  by (auto dest: bit_imp_le_length)

lemma u16_from_to_le [le_simps, simp]: "u16_from_le (ucast w) (ucast (drop_bit 8 w)) = w"
  unfolding u16_from_le_def by (rule bit_word_eqI) (auto simp: bit_simps)

lemma u32_from_to_le [le_simps, simp]:
  "u32_from_le (ucast w) (ucast (drop_bit 8 w)) (ucast (drop_bit 16 w)) (ucast (drop_bit 24 w)) = w"
proof (rule bit_word_eqI)
  fix n :: nat
  assume "n < LENGTH(32)"
  then consider "n < 8" | "8 \<le> n \<and> n < 16" | "16 \<le> n \<and> n < 24" | "24 \<le> n \<and> n < 32"
    by fastforce
  then show "bit (u32_from_le (ucast w) (ucast (drop_bit 8 w)) (ucast (drop_bit 16 w))
      (ucast (drop_bit 24 w))) n = bit w n"
    unfolding u32_from_le_def by cases (auto simp: bit_simps)
qed

lemma u16_to_from_le [le_simps, simp]: "u16_to_le (u16_from_le a b) = [a, b]"
  unfolding u16_from_le_def u16_to_le_def
  by (auto intro!: bit_word_eqI simp: bit_simps dest: bit_imp_le_length)

lemma u32_to_from_le [le_simps, simp]: "u32_to_le (u32_from_le a b c d) = [a, b, c, d]"
  unfolding u32_from_le_def u32_to_le_def
  by (auto intro!: bit_word_eqI simp: bit_simps dest: bit_imp_le_length)

lemma u32_to_le_inject: "u32_to_le a = u32_to_le b \<longleftrightarrow> a = b"
proof
  assume "u32_to_le a = u32_to_le b"
  then have "(ucast a :: u8) = ucast b" "(ucast (drop_bit 8 a) :: u8) = ucast (drop_bit 8 b)"
    "(ucast (drop_bit 16 a) :: u8) = ucast (drop_bit 16 b)"
    "(ucast (drop_bit 24 a) :: u8) = ucast (drop_bit 24 b)"
    unfolding u32_to_le_def by (simp_all only: list.inject)
  then have "u32_from_le (ucast a) (ucast (drop_bit 8 a)) (ucast (drop_bit 16 a)) (ucast (drop_bit 24 a)) =
      u32_from_le (ucast b) (ucast (drop_bit 8 b)) (ucast (drop_bit 16 b)) (ucast (drop_bit 24 b))"
    by (simp only:)
  then show "a = b" by (simp only: u32_from_to_le)
qed (simp only:)

lemma unat_u32_of_nat: "n \<le> u32_max \<Longrightarrow> unat (of_nat n :: u32) = n"
  by (simp add: unat_of_nat take_bit_nat_eq_self)

lemma u32_of_nat_inject:
  "m \<le> u32_max \<Longrightarrow> n \<le> u32_max \<Longrightarrow> (of_nat m :: u32) = of_nat n \<longleftrightarrow> m = n"
proof
  assume b: "m \<le> u32_max" "n \<le> u32_max" and "(of_nat m :: u32) = of_nat n"
  then have "unat (of_nat m :: u32) = unat (of_nat n :: u32)" by (simp only:)
  then show "m = n" by (simp only: unat_u32_of_nat [OF b(1)] unat_u32_of_nat [OF b(2)])
qed (simp only:)

text \<open>
  Pixels as bytes: \<open>flat_map(u32::to_le_bytes)\<close> and \<open>chunks_exact(4).map(u32::from_le_bytes)\<close>,
  which drops a remainder shorter than a pixel.
\<close>

definition pixels_to_le :: "u32 list \<Rightarrow> bytes" where
  "pixels_to_le ps = concat (map u32_to_le ps)"

fun pixels_from_le :: "bytes \<Rightarrow> u32 list" where
  "pixels_from_le (a # b # c # d # rest) = u32_from_le a b c d # pixels_from_le rest"
| "pixels_from_le _ = []"

lemma pixels_to_le_simps [simp]:
  "pixels_to_le [] = []"
  "pixels_to_le (p # ps) = u32_to_le p @ pixels_to_le ps"
  "pixels_to_le (ps @ qs) = pixels_to_le ps @ pixels_to_le qs"
  by (simp_all add: pixels_to_le_def)

lemma length_pixels_to_le [simp]: "length (pixels_to_le ps) = 4 * length ps"
  by (induction ps) auto

lemma pixels_from_to_le [le_simps, simp]: "pixels_from_le (pixels_to_le ps) = ps"
  by (induction ps) (auto simp: u32_to_le_def)

lemma length_pixels_from_le [simp]: "length (pixels_from_le bs) = length bs div 4"
  by (induction bs rule: pixels_from_le.induct) auto

lemma pixels_to_from_le [le_simps]: "length bs = 4 * n \<Longrightarrow> pixels_to_le (pixels_from_le bs) = bs"
proof (induction bs arbitrary: n rule: pixels_from_le.induct)
  case (1 a b c d rest)
  then have "length rest = 4 * (n - 1)" by simp
  then show ?case using "1.IH" by simp
qed (auto, presburger+)

lemma drop_pixels_to_le [simp]: "drop (4 * n) (pixels_to_le ps) = pixels_to_le (drop n ps)"
  by (induction n arbitrary: ps) (case_tac [2] ps, auto)

lemma take_pixels_to_le [simp]: "take (4 * n) (pixels_to_le ps) = pixels_to_le (take n ps)"
  by (induction n arbitrary: ps) (case_tac [2] ps, auto)

lemma splice_pixels_to_le:
  "splice (pixels_to_le f) (4 * a) (pixels_to_le q) = pixels_to_le (splice f a q)"
  using drop_pixels_to_le [of "a + length q" f] by (simp add: splice_def distrib_left)

lemma slice_pixels_to_le:
  "a + n \<le> length f \<Longrightarrow>
   slice (pixels_to_le f) (4 * a) (4 * a + n * 4) = Ok (pixels_to_le (take n (drop a f)))"
  using drop_pixels_to_le [of a f] take_pixels_to_le [of n "drop a f"]
  by (simp add: slice_def mult.commute)

lemma length_take_drop: "a + n \<le> length xs \<Longrightarrow> length (take n (drop a xs)) = n"
  by simp

section \<open>Generic arithmetic\<close>

definition div_ceil :: "nat \<Rightarrow> nat \<Rightarrow> nat" where
  "div_ceil a b = (a + b - 1) div b"

lemma div_ceil_mult_ge:
  assumes "0 < b"
  shows "a \<le> div_ceil a b * b"
proof -
  have "a + b - 1 = div_ceil a b * b + (a + b - 1) mod b"
    by (simp add: div_ceil_def)
  moreover have "(a + b - 1) mod b < b"
    using assms by simp
  ultimately show ?thesis by linarith
qed

lemma div_ceil_pos: "0 < a \<Longrightarrow> 0 < b \<Longrightarrow> 0 < div_ceil a b"
  using div_ceil_mult_ge [of b a] by (cases "div_ceil a b") auto

lemma div_ceil_le: "0 < b \<Longrightarrow> a \<le> k * b \<Longrightarrow> div_ceil a b \<le> k"
proof -
  assume b: "0 < b" and a: "a \<le> k * b"
  have "a + b - 1 < Suc k * b"
    using a b by simp
  then have "(a + b - 1) div b < Suc k"
    using b by (simp add: less_mult_imp_div_less)
  then show "div_ceil a b \<le> k"
    by (simp add: div_ceil_def)
qed

lemma less_div_ceil_iff: "0 < b \<Longrightarrow> k < div_ceil a b \<longleftrightarrow> k * b < a"
  by (metis (no_types) div_ceil_le div_ceil_mult_ge leD le_less_trans mult_less_cancel2 not_le)


end
