(* ===== verification/Codec_Error.thy ===== *)
theory Codec_Error
  imports Prelude
begin

text \<open>
  What the display codec refuses (\<open>display-codec/src/error.rs\<close>), one constructor per variant
  of the source's enum with the fields it carries.
\<close>

datatype CodecError =
    GeometryError string
  | FrameSize nat nat
  | UnknownVersion u8
  | UnknownMethod u8
  | GridMismatch u16 u16
  | TileIndexOutOfRange u32
  | TileIndexNotIncreasing u32
  | Truncated
  | TrailingBytes
  | RunOverflow
  | NoBase
  | WrongPayloadKind
  | CursorTooLarge

end
