(* ===== verification/Geometry.thy ===== *)
theory Geometry
  imports Codec_Error
begin

text \<open>
  The shape of a stream's frames and the tile grid over them
  (\<open>display-codec/src/geometry.rs\<close>). Dimensions are natural numbers; \<open>geometry_bounds\<close> shows
  that every \<open>u32\<close> and \<open>u16\<close> computation of the source stays in range.
\<close>

section \<open>Definitions\<close>

definition MAX_DIMENSION :: nat where
  "MAX_DIMENSION = 16384"

datatype TileSize = Sixteen | ThirtyTwo | SixtyFour

fun as_pixels :: "TileSize \<Rightarrow> nat" where
  "as_pixels Sixteen = 16"
| "as_pixels ThirtyTwo = 32"
| "as_pixels SixtyFour = 64"

definition from_pixels :: "nat \<Rightarrow> (CodecError, TileSize) outcome" where
  "from_pixels pixels =
     (if pixels = 16 then Ok Sixteen else if pixels = 32 then Ok ThirtyTwo
      else if pixels = 64 then Ok SixtyFour
      else Err (GeometryError ''a tile size other than 16, 32 or 64''))"

datatype PixelFormat = Bgra8888 | Xrgb8888

record rect =
  rect_x :: nat
  rect_y :: nat
  rect_width :: nat
  rect_height :: nat

record geometry =
  geo_width :: nat
  geo_height :: nat
  geo_tile_size :: TileSize
  geo_pixel_format :: PixelFormat
  geo_columns :: nat
  geo_rows :: nat

definition geometry_new ::
  "nat \<Rightarrow> nat \<Rightarrow> TileSize \<Rightarrow> PixelFormat \<Rightarrow> (CodecError, geometry) outcome" where
  "geometry_new width height tile_size pixel_format =
     (if width = 0 \<or> height = 0 then Err (GeometryError ''a zero width or height'')
      else if width > MAX_DIMENSION \<or> height > MAX_DIMENSION
        then Err (GeometryError ''a dimension above the codec's maximum'')
      else let tile = as_pixels tile_size in
        Ok \<lparr>geo_width = width, geo_height = height, geo_tile_size = tile_size,
            geo_pixel_format = pixel_format, geo_columns = div_ceil width tile,
            geo_rows = div_ceil height tile\<rparr>)"

definition tile_count :: "geometry \<Rightarrow> nat" where
  "tile_count g = geo_columns g * geo_rows g"

definition tile :: "geometry \<Rightarrow> nat \<Rightarrow> rect option" where
  "tile g index =
     (if index \<ge> tile_count g then None
      else let edge = as_pixels (geo_tile_size g);
               x = (index mod geo_columns g) * edge;
               y = (index div geo_columns g) * edge in
        Some \<lparr>rect_x = x, rect_y = y, rect_width = min edge (geo_width g - x),
              rect_height = min edge (geo_height g - y)\<rparr>)"

definition pixel_count :: "geometry \<Rightarrow> nat" where
  "pixel_count g = geo_width g * geo_height g"

definition frame_bytes :: "geometry \<Rightarrow> nat" where
  "frame_bytes g = pixel_count g * 4"

text \<open>The invariant \<open>Geometry::new\<close> establishes and nothing changes: its fields are private.\<close>

definition wf_geometry :: "geometry \<Rightarrow> bool" where
  "wf_geometry g \<longleftrightarrow>
     0 < geo_width g \<and> geo_width g \<le> MAX_DIMENSION \<and>
     0 < geo_height g \<and> geo_height g \<le> MAX_DIMENSION \<and>
     geo_columns g = div_ceil (geo_width g) (as_pixels (geo_tile_size g)) \<and>
     geo_rows g = div_ceil (geo_height g) (as_pixels (geo_tile_size g))"

definition in_rect :: "rect \<Rightarrow> nat \<Rightarrow> nat \<Rightarrow> bool" where
  "in_rect r x y \<longleftrightarrow>
     rect_x r \<le> x \<and> x < rect_x r + rect_width r \<and> rect_y r \<le> y \<and> y < rect_y r + rect_height r"

text \<open>The index of the tile a pixel falls in.\<close>

definition tile_of :: "geometry \<Rightarrow> nat \<Rightarrow> nat \<Rightarrow> nat" where
  "tile_of g x y =
     y div as_pixels (geo_tile_size g) * geo_columns g + x div as_pixels (geo_tile_size g)"

section \<open>The grid\<close>

lemma as_pixels_bounds: "16 \<le> as_pixels t" "as_pixels t \<le> 64" "0 < as_pixels t"
  by (cases t; simp)+

lemma from_as_pixels: "from_pixels (as_pixels t) = Ok t"
  by (cases t) (simp_all add: from_pixels_def)

lemma geometry_new_wf: "geometry_new w h t f = Ok g \<Longrightarrow> wf_geometry g"
  by (auto simp: geometry_new_def wf_geometry_def Let_def split: if_splits)

lemma wf_geometry_new:
  "wf_geometry g \<Longrightarrow>
   geometry_new (geo_width g) (geo_height g) (geo_tile_size g) (geo_pixel_format g) = Ok g"
  by (auto simp: geometry_new_def wf_geometry_def Let_def)

lemma wf_grid_pos: "wf_geometry g \<Longrightarrow> 0 < geo_columns g \<and> 0 < geo_rows g"
  by (auto simp: wf_geometry_def as_pixels_bounds intro!: div_ceil_pos)

lemma wf_grid_bounds: "wf_geometry g \<Longrightarrow> geo_columns g \<le> 1024 \<and> geo_rows g \<le> 1024"
  using as_pixels_bounds [of "geo_tile_size g"]
  by (auto simp: wf_geometry_def MAX_DIMENSION_def intro!: div_ceil_le
      intro: order_trans [OF _ mult_le_mono2 [of 16 _ 1024]])

lemma geometry_bounds:
  assumes "wf_geometry g"
  shows "geo_columns g \<le> u16_max" "geo_rows g \<le> u16_max"
    and "0 < tile_count g" "tile_count g \<le> 2 ^ 20"
    and "pixel_count g \<le> 2 ^ 28" "frame_bytes g \<le> 2 ^ 30"
proof -
  show "geo_columns g \<le> u16_max" "geo_rows g \<le> u16_max"
    using wf_grid_bounds [OF assms] by simp_all
  show "0 < tile_count g"
    using wf_grid_pos [OF assms] by (simp add: tile_count_def)
  show "tile_count g \<le> 2 ^ 20"
    using mult_le_mono [of "geo_columns g" 1024 "geo_rows g" 1024] wf_grid_bounds [OF assms]
    by (simp add: tile_count_def)
  show "pixel_count g \<le> 2 ^ 28"
    using mult_le_mono [of "geo_width g" 16384 "geo_height g" 16384] assms
    by (simp add: pixel_count_def wf_geometry_def MAX_DIMENSION_def)
  then show "frame_bytes g \<le> 2 ^ 30"
    by (simp add: frame_bytes_def)
qed

lemma tile_eq_Some_iff: "(\<exists>r. tile g i = Some r) \<longleftrightarrow> i < tile_count g"
  by (auto simp: tile_def Let_def)

lemma tile_None: "tile_count g \<le> i \<Longrightarrow> tile g i = None"
  by (simp add: tile_def)

text \<open>One axis of the grid: a coordinate is in a clipped cell iff dividing by the edge finds it.\<close>

lemma clipped_cell_iff:
  assumes "0 < (t :: nat)" "k * t < w"
  shows "k * t \<le> x \<and> x < k * t + min t (w - k * t) \<longleftrightarrow> x < w \<and> x div t = k"
proof -
  have "k * t \<le> x \<and> x < k * t + t \<longleftrightarrow> x div t = k"
    using assms(1) by (metis div_nat_eqI div_times_less_eq_dividend dividend_less_times_div
        mult.commute mult_Suc_right add.commute)
  then show ?thesis using assms(2) by auto
qed

lemma tile_origin:
  assumes "wf_geometry g" "tile g i = Some r"
  defines "t \<equiv> as_pixels (geo_tile_size g)" and "c \<equiv> geo_columns g"
  shows "i mod c * t < geo_width g" "i div c * t < geo_height g"
    and "r = \<lparr>rect_x = i mod c * t, rect_y = i div c * t,
      rect_width = min t (geo_width g - i mod c * t),
      rect_height = min t (geo_height g - i div c * t)\<rparr>"
proof -
  have t: "0 < t" by (simp add: t_def as_pixels_bounds)
  have c: "0 < c" using wf_grid_pos [OF assms(1)] by (simp add: c_def)
  have i: "i < tile_count g" using assms(2) tile_eq_Some_iff by blast
  show "i mod c * t < geo_width g"
    using assms(1) c t by (simp add: wf_geometry_def t_def c_def flip: less_div_ceil_iff)
  have "i div c < geo_rows g"
    using i c by (simp add: tile_count_def c_def less_mult_imp_div_less mult.commute)
  then show "i div c * t < geo_height g"
    using assms(1) t by (simp add: wf_geometry_def t_def flip: less_div_ceil_iff)
  show "r = \<lparr>rect_x = i mod c * t, rect_y = i div c * t,
      rect_width = min t (geo_width g - i mod c * t),
      rect_height = min t (geo_height g - i div c * t)\<rparr>"
    using assms(2) i by (simp add: tile_def Let_def t_def c_def)
qed

lemma column_of_pixel:
  assumes "wf_geometry g" "x < geo_width g"
  shows "x div as_pixels (geo_tile_size g) < geo_columns g"
  using assms less_div_ceil_iff [OF as_pixels_bounds(3), of "x div as_pixels (geo_tile_size g)"]
  by (auto simp: wf_geometry_def intro: le_less_trans [OF div_times_less_eq_dividend])

lemma row_of_pixel:
  assumes "wf_geometry g" "y < geo_height g"
  shows "y div as_pixels (geo_tile_size g) < geo_rows g"
  using assms less_div_ceil_iff [OF as_pixels_bounds(3), of "y div as_pixels (geo_tile_size g)"]
  by (auto simp: wf_geometry_def intro: le_less_trans [OF div_times_less_eq_dividend])

lemma tile_rectD:
  assumes "wf_geometry g" "tile g i = Some r"
  shows "in_rect r x y \<longleftrightarrow> x < geo_width g \<and> y < geo_height g \<and> tile_of g x y = i"
proof -
  let ?t = "as_pixels (geo_tile_size g)"
  let ?c = "geo_columns g"
  have t: "0 < ?t" by (rule as_pixels_bounds)
  have c: "0 < ?c" using wf_grid_pos [OF assms(1)] by simp
  note o = tile_origin [OF assms]
  have "in_rect r x y \<longleftrightarrow> x < geo_width g \<and> x div ?t = i mod ?c \<and>
      y < geo_height g \<and> y div ?t = i div ?c"
    using clipped_cell_iff [OF t o(1), of x] clipped_cell_iff [OF t o(2), of y]
    by (auto simp: in_rect_def o(3))
  then show ?thesis
    using c column_of_pixel [OF assms(1), of x] by (auto simp: tile_of_def)
qed

lemma tile_of_in_grid:
  assumes "wf_geometry g" "x < geo_width g" "y < geo_height g"
  shows "tile_of g x y < tile_count g"
proof -
  let ?t = "as_pixels (geo_tile_size g)"
  have "y div ?t * geo_columns g + x div ?t < Suc (y div ?t) * geo_columns g"
    using column_of_pixel [OF assms(1,2)] by simp
  also have "\<dots> \<le> geo_rows g * geo_columns g"
    using row_of_pixel [OF assms(1,3)] by (intro mult_le_mono1) simp
  finally show ?thesis
    by (simp only: tile_of_def tile_count_def mult.commute [of "geo_columns g"])
qed

lemma tile_rect_shape:
  assumes "wf_geometry g" "tile g i = Some r"
  shows "0 < rect_width r" "rect_width r \<le> 64" "rect_x r + rect_width r \<le> geo_width g"
    and "0 < rect_height r" "rect_height r \<le> 64" "rect_y r + rect_height r \<le> geo_height g"
  using tile_origin [OF assms] as_pixels_bounds [of "geo_tile_size g"] by auto

end
