(* ===== verification/Container.thy ===== *)
theory Container
  imports Geometry
begin

unbundle bit_operations_syntax

text \<open>
  The header that a keyframe and a tile delta share, and the byte that names a tile's encoding
  (\<open>display-codec/src/container.rs\<close>).
\<close>

section \<open>Definitions\<close>

definition FORMAT_VERSION :: u8 where "FORMAT_VERSION = 1"
definition HEADER_LEN :: nat where "HEADER_LEN = 8"
definition FLAG_KEYFRAME :: u8 where "FLAG_KEYFRAME = 1"

datatype Method = Raw | ZrleMethod | XorZrle

fun method_as_byte :: "Method \<Rightarrow> u8" where
  "method_as_byte Raw = 0"
| "method_as_byte ZrleMethod = 1"
| "method_as_byte XorZrle = 2"

definition method_from_byte :: "u8 \<Rightarrow> (CodecError, Method) outcome" where
  "method_from_byte method =
     (if method = 0 then Ok Raw else if method = 1 then Ok ZrleMethod
      else if method = 2 then Ok XorZrle else Err (UnknownMethod method))"

definition write_header :: "bool \<Rightarrow> geometry \<Rightarrow> bytes" where
  "write_header keyframe g =
     [FORMAT_VERSION, if keyframe then FLAG_KEYFRAME else 0]
       @ u16_to_le (of_nat (geo_columns g)) @ u16_to_le (of_nat (geo_rows g)) @ [0, 0]"

definition read_header :: "bytes \<Rightarrow> geometry \<Rightarrow> (CodecError, bool \<times> bytes) outcome" where
  "read_header bs g =
     obind (ok_or (get_range bs 0 HEADER_LEN) Truncated) (\<lambda>header.
       if header ! 0 \<noteq> FORMAT_VERSION then Err (UnknownVersion (header ! 0))
       else if header ! 6 \<noteq> 0 \<or> header ! 7 \<noteq> 0 then Err TrailingBytes
       else let columns = u16_from_le (header ! 2) (header ! 3);
                rows = u16_from_le (header ! 4) (header ! 5) in
         if unat columns \<noteq> geo_columns g \<or> unat rows \<noteq> geo_rows g
           then Err (GridMismatch columns rows)
         else obind (slice_from bs HEADER_LEN) (\<lambda>body.
           Ok (header ! 1 AND FLAG_KEYFRAME \<noteq> 0, body)))"

section \<open>Headers are read back, and only by their own stream\<close>

lemma method_from_as_byte [simp]: "method_from_byte (method_as_byte m) = Ok m"
  by (cases m) (simp_all add: method_from_byte_def)

lemma method_from_byte_iff: "method_from_byte b = Ok m \<longleftrightarrow> b = method_as_byte m"
  by (cases m) (auto simp: method_from_byte_def)

lemma method_from_byte_not_Panic [simp]: "method_from_byte b \<noteq> Panic"
  by (simp add: method_from_byte_def)

lemma length_write_header [simp]: "length (write_header k g) = HEADER_LEN"
  by (simp add: write_header_def HEADER_LEN_def)

lemma unat_u16_of_nat: "n \<le> u16_max \<Longrightarrow> unat (of_nat n :: u16) = n"
  by (simp add: unat_of_nat take_bit_nat_eq_self)

lemma read_write_header_gen:
  "read_header (write_header k g' @ body) g =
   (if unat (of_nat (geo_columns g') :: u16) \<noteq> geo_columns g
      \<or> unat (of_nat (geo_rows g') :: u16) \<noteq> geo_rows g
    then Err (GridMismatch (of_nat (geo_columns g')) (of_nat (geo_rows g'))) else Ok (k, body))"
  by (simp add: read_header_def write_header_def u16_to_le_def get_range_def HEADER_LEN_def
      slice_from_def FORMAT_VERSION_def FLAG_KEYFRAME_def Let_def)

lemma read_write_header [simp]:
  "wf_geometry g \<Longrightarrow> read_header (write_header k g @ body) g = Ok (k, body)"
  using geometry_bounds(1,2) [of g] by (simp add: read_write_header_gen unat_u16_of_nat)

lemma read_header_other_grid:
  assumes "wf_geometry g'" "geo_columns g' \<noteq> geo_columns g \<or> geo_rows g' \<noteq> geo_rows g"
  shows "read_header (write_header k g' @ body) g =
         Err (GridMismatch (of_nat (geo_columns g')) (of_nat (geo_rows g')))"
  using assms geometry_bounds(1,2) [of g'] by (simp add: read_write_header_gen unat_u16_of_nat)

lemma read_header_not_Panic [simp]: "read_header bs g \<noteq> Panic"
  by (auto simp: read_header_def get_range_def slice_from_def Let_def obind_eq_Panic_iff
      split: if_splits)

end
