(* ===== verification/Prefix_Code.thy ===== *)
theory Prefix_Code
  imports Prelude
begin

text \<open>
  The contract of a self-delimiting wire format. A writer appends the bytes of a value to a
  stream; a reader is handed the stream from that value on and says which value it read and
  how many bytes it took. Three formats of the program keep this contract: the codec's
  varints, the agent protocol's frames and the display protocol's record headers. What follows
  from it (no value can be mistaken for another, a stream of values is read back in order) is
  proved once here.
\<close>

fun read_seq :: "(bytes \<Rightarrow> ('e, 'a \<times> nat) outcome) \<Rightarrow> nat \<Rightarrow> bytes \<Rightarrow> ('e, 'a list \<times> bytes) outcome"
where
  "read_seq dec 0 bs = Ok ([], bs)"
| "read_seq dec (Suc n) bs =
     obind (dec bs) (\<lambda>(x, k). obind (slice_from bs k) (\<lambda>tail.
       obind (read_seq dec n tail) (\<lambda>(xs, rest). Ok (x # xs, rest))))"

locale prefix_code =
  fixes valid :: "'a \<Rightarrow> bool"
    and enc :: "'a \<Rightarrow> bytes"
    and dec :: "bytes \<Rightarrow> ('e, 'a \<times> nat) outcome"
  assumes dec_enc: "valid x \<Longrightarrow> dec (enc x @ rest) = Ok (x, length (enc x))"
begin

lemma enc_append_inject:
  assumes "valid x" "valid y" "enc x @ r = enc y @ s"
  shows "x = y \<and> r = s"
proof -
  have "Ok (x, length (enc x)) = dec (enc y @ s)"
    using dec_enc [OF assms(1), of r] assms(3) by simp
  also have "\<dots> = Ok (y, length (enc y))"
    using assms(2) by (rule dec_enc)
  finally show ?thesis using assms(3) by simp
qed

lemma enc_inject: "valid x \<Longrightarrow> valid y \<Longrightarrow> enc x = enc y \<Longrightarrow> x = y"
  using enc_append_inject [of x y "[]" "[]"] by simp

lemma enc_prefix_free: "valid x \<Longrightarrow> valid y \<Longrightarrow> enc y = enc x @ r \<Longrightarrow> r = []"
  using enc_append_inject [of x y r "[]"] by simp

lemma read_seq_concat:
  "list_all valid xs \<Longrightarrow> read_seq dec (length xs) (concat (map enc xs) @ rest) = Ok (xs, rest)"
  by (induction xs) (auto simp: dec_enc outcome_simps)

end

end
