(* ===== verification/Varint.thy ===== *)
theory Varint
  imports Codec_Error Prefix_Code
begin

unbundle bit_operations_syntax

text \<open>
  LEB128 over \<open>u32\<close> (\<open>display-codec/src/varint.rs\<close>): how the codec writes a tile index, a
  compressed length and a run's control word. The writer appends to a \<open>Vec\<close>; the model is the
  list of bytes it appends.
\<close>

section \<open>Definitions\<close>

function varint_write :: "u32 \<Rightarrow> bytes" where
  "varint_write rest =
     (if 0x80 \<le> rest then (ucast rest OR 0x80) # varint_write (drop_bit 7 rest)
      else [ucast rest])"
  by pat_completeness auto
termination
  by (relation "measure unat") (auto simp: unat_drop_bit_eq drop_bit_eq_div word_le_nat_alt
      unat_div)

declare varint_write.simps [simp del]

text \<open>The reader's loop: the value so far, the shift of the next group, the bytes taken.\<close>

fun varint_read_from :: "u32 \<Rightarrow> nat \<Rightarrow> nat \<Rightarrow> bytes \<Rightarrow> (CodecError, u32 \<times> nat) outcome" where
  "varint_read_from value shift index [] = Err Truncated"
| "varint_read_from value shift index (byte # rest) =
     (if shift = 28 \<and> byte AND 0xF0 \<noteq> 0 then Err Truncated
      else let value' = value OR push_bit shift (ucast (byte AND 0x7F)) in
        if byte AND 0x80 = 0 then Ok (value', index + 1)
        else if shift + 7 > 28 then Err Truncated
        else varint_read_from value' (shift + 7) (index + 1) rest)"

definition varint_read :: "bytes \<Rightarrow> (CodecError, u32 \<times> nat) outcome" where
  "varint_read bs = varint_read_from 0 0 0 bs"

text \<open>\<open>encoder.rs: varint_len\<close>, the length the encoder weighs a tile's encoding by.\<close>

definition varint_len :: "u32 \<Rightarrow> nat" where
  "varint_len v =
     (if v \<le> 0x7F then 1 else if v \<le> 0x3FFF then 2 else if v \<le> 0x1FFFFF then 3
      else if v \<le> 0x0FFFFFFF then 4 else 5)"

section \<open>Reading back what was written\<close>

declare bit_numeral_word_iff [simp del]

lemma bit_0x80 [simp]: "bit (0x80 :: u8) n \<longleftrightarrow> n = 7"
proof -
  have "(0x80 :: u8) = 2 ^ 7" by simp
  then show ?thesis by (simp only: bit_exp_iff) auto
qed

lemma bit_0x7F [simp]: "bit (0x7F :: u8) n \<longleftrightarrow> n < 7"
proof -
  have "(0x7F :: u8) = mask 7" by (simp add: mask_eq_exp_minus_1)
  then show ?thesis by (simp only: bit_mask_iff) auto
qed

lemma bit_0xF0 [simp]: "bit (0xF0 :: u8) n \<longleftrightarrow> 4 \<le> n \<and> n < 8"
proof -
  have "(0xF0 :: u8) = push_bit 4 (mask 4)" by (simp add: mask_eq_exp_minus_1 push_bit_eq_mult)
  then show ?thesis by (simp only: bit_mask_iff bit_push_bit_iff) auto
qed

lemma payload_bits: "((b :: u8) OR 0x80) AND 0x7F = take_bit 7 b"
  by (rule bit_word_eqI) (auto simp: bit_simps)

lemma payload_bits_last: "(b :: u8) AND 0x7F = take_bit 7 b"
  by (rule bit_word_eqI) (auto simp: bit_simps)

lemma continuation_bit: "(b :: u8) AND 0x80 = 0 \<longleftrightarrow> \<not> bit b 7"
proof
  assume *: "b AND 0x80 = 0"
  have "\<not> bit (b AND 0x80) 7" unfolding * by simp
  then show "\<not> bit b 7" by (simp add: bit_and_iff)
next
  assume "\<not> bit b 7"
  then show "b AND 0x80 = 0"
    by (intro bit_word_eqI) (auto simp: bit_and_iff)
qed

lemma append_group:
  fixes v :: u32
  shows "take_bit s v OR push_bit s (ucast (take_bit 7 (ucast (drop_bit s v) :: u8)))
         = take_bit (s + 7) v"
  by (rule bit_word_eqI) (auto simp: bit_simps)

lemma small_group: "(r :: u32) < 0x80 \<Longrightarrow> m < 7 \<or> \<not> bit r m"
proof -
  assume "r < 0x80"
  then have "take_bit 7 (unat r) = unat r"
    by (simp add: take_bit_eq_mod word_less_nat_alt)
  then have "take_bit 7 r = r"
    by (metis unsigned_take_bit_eq word_unat_eq_iff)
  then show ?thesis
    by (metis bit_take_bit_iff)
qed

lemma last_group:
  fixes v :: u32
  assumes "drop_bit s v < 0x80"
  shows "take_bit (s + 7) v = v"
proof (rule bit_word_eqI)
  fix m
  have "m < s + 7 \<or> \<not> bit v m"
    using small_group [OF assms, of "m - s"] by (cases "s \<le> m") (auto simp: bit_simps)
  then show "bit (take_bit (s + 7) v) m = bit v m"
    by (auto simp: bit_simps)
qed

lemma top_group: "drop_bit 28 (v :: u32) < 0x10"
proof -
  have "unat v < 2 ^ LENGTH(32)" by (rule unsigned_less)
  moreover have "unat (drop_bit 28 v) = unat v div 2 ^ 28"
    by (simp only: unat_drop_bit_eq drop_bit_eq_div [of 28 "unat v"])
  ultimately have "unat (drop_bit 28 v) < 16"
    by simp
  then show ?thesis by (simp add: word_less_nat_alt)
qed

lemma top_byte: "(r :: u32) < 0x10 \<Longrightarrow> (ucast r :: u8) AND 0xF0 = 0"
proof -
  assume r: "r < 0x10"
  have "take_bit 4 (unat r) = unat r"
    using r by (simp add: take_bit_eq_mod word_less_nat_alt)
  then have "take_bit 4 r = r"
    by (metis unsigned_take_bit_eq word_unat_eq_iff)
  then have "bit r n \<Longrightarrow> n < 4" for n
    by (metis bit_take_bit_iff)
  then show ?thesis
    by (intro bit_word_eqI) (auto simp: bit_simps not_le [symmetric])
qed

lemma varint_read_from_write:
  assumes "s + 7 * k = 28"
  shows "varint_read_from (take_bit s v) s i (varint_write (drop_bit s v) @ rest)
         = Ok (v, i + length (varint_write (drop_bit s v)))"
  using assms
proof (induction k arbitrary: s i)
  case 0
  then have r: "drop_bit s v < 0x10"
    using top_group [of v] by simp
  then have "\<not> 0x80 \<le> drop_bit s v" "drop_bit s v < 0x80"
    by unat_arith+
  moreover have "s = 28" using 0 by simp
  ultimately show ?case
    using r top_byte [OF r] small_group [of "drop_bit s v" 7] last_group [of 28 v]
    by (simp add: varint_write.simps [of "drop_bit 28 v"] continuation_bit bit_simps
        payload_bits_last append_group last_group)
next
  case (Suc k)
  then have s: "s \<noteq> 28" "s + 7 + 7 * k = 28" by simp_all
  show ?case
  proof (cases "0x80 \<le> drop_bit s v")
    case True
    let ?b = "ucast (drop_bit s v) OR 0x80 :: u8"
    have "?b AND 0x80 \<noteq> 0" by (simp only: continuation_bit bit_or_iff) simp
    with True show ?thesis
      using s Suc.IH [OF s(2), of "Suc i"]
      by (simp add: varint_write.simps [of "drop_bit s v"] payload_bits append_group Let_def
          add.commute [of 7])
  next
    case False
    then have small: "drop_bit s v < 0x80" by simp
    then show ?thesis
      using False s small_group [OF small, of 7]
      by (simp add: varint_write.simps [of "drop_bit s v"] continuation_bit bit_simps
          payload_bits_last append_group last_group)
  qed
qed

lemma varint_read_write [simp]:
  "varint_read (varint_write v @ rest) = Ok (v, length (varint_write v))"
  using varint_read_from_write [of 0 4 v 0 rest] by (simp add: varint_read_def)

interpretation varint: prefix_code "\<lambda>_. True" varint_write varint_read
  by unfold_locales simp

section \<open>Bounds\<close>

lemma varint_read_from_bounds:
  "varint_read_from val s i bs = Ok (v, k) \<Longrightarrow> s + 7 * m = 28 \<Longrightarrow>
   i < k \<and> k \<le> i + length bs \<and> k \<le> i + m + 1"
proof (induction val s i bs arbitrary: m rule: varint_read_from.induct)
  case (2 val shift index byte rest)
  then show ?case
    by (cases m) (fastforce simp: Let_def split: if_splits)+
qed simp

lemma varint_read_bounds:
  "varint_read bs = Ok (v, k) \<Longrightarrow> 0 < k \<and> k \<le> length bs \<and> k \<le> 5"
  using varint_read_from_bounds [of 0 0 0 bs v k 4] by (simp add: varint_read_def)

lemma varint_read_from_not_Panic: "varint_read_from val s i bs \<noteq> Panic"
  by (induction val s i bs rule: varint_read_from.induct) (simp_all add: Let_def)

lemma varint_read_not_Panic [simp]: "varint_read bs \<noteq> Panic"
  by (simp add: varint_read_def varint_read_from_not_Panic)

lemma varint_read_from_only_Truncated: "varint_read_from val s i bs = Err e \<Longrightarrow> e = Truncated"
  by (induction val s i bs rule: varint_read_from.induct) (auto simp: Let_def split: if_splits)

lemma length_varint_write:
  "length (varint_write v) =
   (if unat v < 128 then 1 else Suc (length (varint_write (drop_bit 7 v))))"
  by (subst varint_write.simps) (auto simp: word_le_nat_alt)

lemma length_varint_write_eq: "length (varint_write v) = varint_len v"
proof -
  have d: "unat (drop_bit n v) = unat v div 2 ^ n" for n
    by (simp only: unat_drop_bit_eq drop_bit_eq_div [of n "unat v"])
  have v: "unat v < 4294967296"
    using unsigned_less [of v] by simp
  have "length (varint_write v) =
    (if unat v < 128 then 1 else if unat v div 128 < 128 then 2 else
     if unat v div 16384 < 128 then 3 else if unat v div 2097152 < 128 then 4 else 5)"
    using v
    by (simp add: length_varint_write [of v] length_varint_write [of "drop_bit 7 v"]
        length_varint_write [of "drop_bit 14 v"] length_varint_write [of "drop_bit 21 v"]
        length_varint_write [of "drop_bit 28 v"] d)
  also have "\<dots> = varint_len v"
    using v by (auto simp: varint_len_def word_le_nat_alt div_less_iff_less_mult)
  finally show ?thesis .
qed

end
