(* ===== verification/Zrle.thy ===== *)
theory Zrle
  imports Varint
begin

unbundle bit_operations_syntax

text \<open>
  The run-length coder over 32-bit pixels (\<open>display-codec/src/zrle.rs\<close>). The encoder's loop
  moves an index forward and reads only the pixels from it on, so its model recurses on that
  suffix. The decoder keeps the source's read offset, so that every slice it takes is checked;
  its output buffer is the list of the pixels filled so far, out of \<open>out_len\<close>.
\<close>

section \<open>Definitions\<close>

definition MAX_RUN :: nat where
  "MAX_RUN = 65536"

text \<open>The run of \<open>pixel\<close> at the front of the pixels after it, counted from \<open>run\<close>.\<close>

fun run_length :: "u32 \<Rightarrow> nat \<Rightarrow> u32 list \<Rightarrow> nat" where
  "run_length pixel run [] = run"
| "run_length pixel run (p # ps) =
     (if p = pixel \<and> run < MAX_RUN then run_length pixel (run + 1) ps else run)"

text \<open>The literal: up to the next pixel that repeats, counted from \<open>count\<close>.\<close>

fun literal_length :: "nat \<Rightarrow> u32 list \<Rightarrow> nat" where
  "literal_length count [] = count"
| "literal_length count (p # ps) =
     (if count < MAX_RUN \<and> \<not> (ps \<noteq> [] \<and> p = hd ps) then literal_length (count + 1) ps else count)"

lemma run_length_bounds:
  "run \<le> run_length p run ps \<and> run_length p run ps \<le> run + length ps \<and>
   (run \<le> MAX_RUN \<longrightarrow> run_length p run ps \<le> MAX_RUN)"
  by (induction p run ps rule: run_length.induct) auto

lemma literal_length_bounds:
  "count \<le> literal_length count ps \<and> literal_length count ps \<le> count + length ps \<and>
   (count \<le> MAX_RUN \<longrightarrow> literal_length count ps \<le> MAX_RUN)"
  by (induction count ps rule: literal_length.induct) auto

lemma literal_length_pos:
  "\<not> run_length p 1 ps > 1 \<Longrightarrow> 0 < literal_length 0 (p # ps)"
  using literal_length_bounds [of 1 ps] run_length_bounds [of 2 p "tl ps"]
  by (cases ps) (auto simp: MAX_RUN_def numeral_2_eq_2 split: if_splits)

function (sequential) zrle_encode :: "u32 list \<Rightarrow> bytes" where
  "zrle_encode [] = []"
| "zrle_encode (pixel # rest) =
     (let run = run_length pixel 1 rest in
      if run > 1 then
        varint_write (push_bit 1 (of_nat (run - 1)) OR 1) @ u32_to_le pixel
          @ zrle_encode (drop (run - 1) rest)
      else
        let count = literal_length 0 (pixel # rest) in
        varint_write (push_bit 1 (of_nat (count - 1)))
          @ pixels_to_le (take count (pixel # rest))
          @ zrle_encode (drop count (pixel # rest)))"
  by pat_completeness auto
termination
  using literal_length_pos by (relation "measure length") fastforce+

declare zrle_encode.simps(2) [simp del]

definition pixel_at :: "bytes \<Rightarrow> nat \<Rightarrow> (CodecError, u32) outcome" where
  "pixel_at bs offset =
     (case get_range bs offset (offset + 4) of
        Some [a, b, c, d] \<Rightarrow> Ok (u32_from_le a b c d)
      | _ \<Rightarrow> Err Truncated)"

fun read_literal :: "bytes \<Rightarrow> nat \<Rightarrow> nat \<Rightarrow> (CodecError, u32 list) outcome" where
  "read_literal bs offset 0 = Ok []"
| "read_literal bs offset (Suc n) =
     obind (pixel_at bs offset) (\<lambda>p. obind (read_literal bs (offset + 4) n) (\<lambda>ps. Ok (p # ps)))"

lemma length_read_literal: "read_literal bs offset n = Ok ps \<Longrightarrow> length ps = n"
  by (induction n arbitrary: offset ps) auto

function zrle_decode_from ::
  "bytes \<Rightarrow> nat \<Rightarrow> nat \<Rightarrow> u32 list \<Rightarrow> (CodecError, u32 list) outcome" where
  "zrle_decode_from bs out_len offset filled =
     (if length filled < out_len then
        obind (slice_from bs offset) (\<lambda>tail. obind (varint_read tail) (\<lambda>(control, width).
          let offset' = offset + width; count = unat (drop_bit 1 control) + 1 in
          if count > MAX_RUN \<or> count > out_len - length filled then Err RunOverflow
          else if control AND 1 = 1 then
            obind (pixel_at bs offset') (\<lambda>pixel.
              zrle_decode_from bs out_len (offset' + 4) (filled @ replicate count pixel))
          else
            obind (read_literal bs offset' count) (\<lambda>pixels.
              zrle_decode_from bs out_len (offset' + 4 * count) (filled @ pixels))))
      else if offset = length bs then Ok filled else Err TrailingBytes)"
  by pat_completeness auto
termination
  by (relation "measure (\<lambda>(bs, out_len, offset, filled). out_len - length filled)")
    (auto dest!: length_read_literal)

declare zrle_decode_from.simps [simp del]

definition zrle_decode :: "bytes \<Rightarrow> nat \<Rightarrow> (CodecError, u32 list) outcome" where
  "zrle_decode bs out_len = zrle_decode_from bs out_len 0 []"

section \<open>Round trip\<close>

lemma take_run_length:
  "take (run_length p run ps - run) ps = replicate (run_length p run ps - run) p"
proof (induction p run ps rule: run_length.induct)
  case (2 pixel run q ps)
  show ?case
  proof (cases "q = pixel \<and> run < MAX_RUN")
    case True
    have "run_length pixel (run + 1) ps - run = Suc (run_length pixel (run + 1) ps - (run + 1))"
      using run_length_bounds [of "run + 1" pixel ps] by linarith
    with True "2.IH" show ?thesis by simp
  qed auto
qed simp

lemma pixel_at_append [outcome_simps]: "pixel_at (pre @ u32_to_le p @ post) (length pre) = Ok p"
proof -
  have "get_range (pre @ u32_to_le p @ post) (length pre) (length pre + 4) = Some (u32_to_le p)"
    using get_range_append [of pre "u32_to_le p" post] by simp
  then show ?thesis by (simp add: pixel_at_def u32_to_le_def)
qed

lemma read_literal_append [outcome_simps]:
  "read_literal (pre @ pixels_to_le ps @ post) (length pre) (length ps) = Ok ps"
proof (induction ps arbitrary: pre)
  case (Cons p ps)
  have "pixel_at (pre @ u32_to_le p @ (pixels_to_le ps @ post)) (length pre) = Ok p"
    by (rule pixel_at_append)
  moreover have "read_literal ((pre @ u32_to_le p) @ pixels_to_le ps @ post)
      (length (pre @ u32_to_le p)) (length ps) = Ok ps"
    by (rule Cons.IH)
  ultimately show ?case by simp
qed simp

lemma control_count:
  assumes "n < 65536"
  shows "unat (drop_bit 1 (push_bit 1 (of_nat n :: u32))) = n"
    and "unat (drop_bit 1 (push_bit 1 (of_nat n :: u32) OR 1)) = n"
    and "push_bit 1 (of_nat n :: u32) AND 1 \<noteq> 1"
    and "(push_bit 1 (of_nat n :: u32) OR 1) AND 1 = 1"
proof -
  have half: "unat (drop_bit 1 w) = unat w div 2" for w :: u32
    by (simp only: unat_drop_bit_eq drop_bit_eq_div [of 1 "unat w"]) simp
  have even: "push_bit 1 (of_nat n :: u32) = of_nat (2 * n)"
    by (simp add: push_bit_eq_mult)
  have odd: "push_bit 1 (of_nat n :: u32) OR 1 = of_nat (2 * n + 1)"
    by (simp add: even or_one_eq)
  have "unat (of_nat (2 * n) :: u32) = 2 * n" "unat (of_nat (2 * n + 1) :: u32) = 2 * n + 1"
    using assms by (simp_all only: unat_of_nat take_bit_nat_eq_self_iff) simp_all
  then show "unat (drop_bit 1 (push_bit 1 (of_nat n :: u32))) = n"
    and "unat (drop_bit 1 (push_bit 1 (of_nat n :: u32) OR 1)) = n"
    unfolding odd unfolding even half by simp_all
  show "push_bit 1 (of_nat n :: u32) AND 1 \<noteq> 1"
    unfolding even by (simp add: and_one_eq mod_2_eq_odd)
  show "(push_bit 1 (of_nat n :: u32) OR 1) AND 1 = 1"
    unfolding odd by (simp add: and_one_eq mod_2_eq_odd)
qed

lemma zrle_decode_from_encode:
  "zrle_decode_from (pre @ zrle_encode px) (length filled + length px) (length pre) filled
   = Ok (filled @ px)"
proof (induction px arbitrary: pre filled rule: zrle_encode.induct)
  case 1
  then show ?case by (simp add: zrle_decode_from.simps)
next
  case (2 pixel rest)
  let ?n = "length filled + length (pixel # rest)"
  define run where "run = run_length pixel 1 rest"
  define count where "count = literal_length 0 (pixel # rest)"
  show ?case
  proof (cases "run > 1")
    case True
    let ?ctl = "varint_write (push_bit 1 (of_nat (run - 1)) OR 1)"
    let ?more = "zrle_encode (drop (run - 1) rest)"
    let ?pre = "pre @ ?ctl @ u32_to_le pixel"
    have run: "run \<le> MAX_RUN" "run - 1 \<le> length rest"
      using run_length_bounds [of 1 pixel rest] by (auto simp: run_def MAX_RUN_def)
    have rest: "rest = replicate (run - 1) pixel @ drop (run - 1) rest"
      using take_run_length [of pixel 1 rest] run_def by (metis append_take_drop_id)
    have px: "pixel # rest = replicate run pixel @ drop (run - 1) rest"
      using True by (subst rest) (cases run, auto)
    have n: "?n = length (filled @ replicate run pixel) + length (drop (run - 1) rest)"
      using True run by simp
    have enc: "zrle_encode (pixel # rest) = ?ctl @ u32_to_le pixel @ ?more"
      using True by (simp add: zrle_encode.simps(2) run_def Let_def)
    have pix: "pixel_at (pre @ ?ctl @ u32_to_le pixel @ ?more) (length (pre @ ?ctl)) = Ok pixel"
      using pixel_at_append [of "pre @ ?ctl" pixel ?more] by simp
    have "zrle_decode_from (pre @ zrle_encode (pixel # rest)) ?n (length pre) filled
        = zrle_decode_from (?pre @ ?more) ?n (length ?pre) (filled @ replicate run pixel)"
      using True run pix control_count(2,4) [of "run - 1"]
      by (subst zrle_decode_from.simps) (auto simp: enc outcome_simps MAX_RUN_def Let_def add.assoc)
    also have "\<dots> = Ok ((filled @ replicate run pixel) @ drop (run - 1) rest)"
      unfolding n by (rule "2.IH"(1) [OF run_def True])
    also have "(filled @ replicate run pixel) @ drop (run - 1) rest = filled @ (pixel # rest)"
      by (simp only: px append_assoc)
    finally show ?thesis .
  next
    case False
    let ?ctl = "varint_write (push_bit 1 (of_nat (count - 1)))"
    let ?px = "take count (pixel # rest)"
    let ?more = "zrle_encode (drop count (pixel # rest))"
    let ?pre = "pre @ ?ctl @ pixels_to_le ?px"
    have count: "0 < count" "count \<le> MAX_RUN" "count \<le> length (pixel # rest)"
      using False literal_length_pos [of pixel rest] literal_length_bounds [of 0 "pixel # rest"]
      by (auto simp: run_def count_def MAX_RUN_def simp del: literal_length.simps)
    have n: "?n = length (filled @ ?px) + length (drop count (pixel # rest))"
      using count by simp
    have enc: "zrle_encode (pixel # rest) = ?ctl @ pixels_to_le ?px @ ?more"
      using False by (simp add: zrle_encode.simps(2) run_def count_def Let_def)
    have lit: "read_literal (pre @ ?ctl @ pixels_to_le ?px @ ?more) (length (pre @ ?ctl)) count
        = Ok ?px"
      using read_literal_append [of "pre @ ?ctl" ?px ?more] count(3)
      by (simp add: min_absorb2 del: take_Cons)
    have "zrle_decode_from (pre @ zrle_encode (pixel # rest)) ?n (length pre) filled
        = zrle_decode_from (?pre @ ?more) ?n (length ?pre) (filled @ ?px)"
      using count lit control_count(1,3) [of "count - 1"]
      by (subst zrle_decode_from.simps) (auto simp: enc outcome_simps MAX_RUN_def Let_def add.assoc)
    also have "\<dots> = Ok ((filled @ ?px) @ drop count (pixel # rest))"
      unfolding n by (rule "2.IH"(2) [OF run_def False count_def])
    finally show ?thesis
      by (simp only: append_take_drop_id append_assoc)
  qed
qed

lemma zrle_decode_encode [simp]: "zrle_decode (zrle_encode px) (length px) = Ok px"
  using zrle_decode_from_encode [of "[]" px "[]"] by (simp add: zrle_decode_def)

section \<open>Hostile streams\<close>

lemma pixel_at_in_range: "pixel_at bs offset = Ok p \<Longrightarrow> offset + 4 \<le> length bs"
  by (auto simp: pixel_at_def get_range_def split: option.splits list.splits if_splits)

lemma pixel_at_not_Panic [simp]: "pixel_at bs offset \<noteq> Panic"
  by (auto simp: pixel_at_def split: option.splits list.splits)

lemma read_literal_in_range:
  "read_literal bs offset n = Ok ps \<Longrightarrow> offset \<le> length bs \<Longrightarrow> offset + 4 * n \<le> length bs"
proof (induction n arbitrary: offset ps)
  case (Suc n)
  then obtain p qs where "pixel_at bs offset = Ok p" "read_literal bs (offset + 4) n = Ok qs"
    by auto
  with Suc.IH [of "offset + 4" qs] pixel_at_in_range [of bs offset p] show ?case by simp
qed simp

lemma read_literal_not_Panic [simp]: "read_literal bs offset n \<noteq> Panic"
  by (induction n arbitrary: offset) (auto simp: obind_eq_Panic_iff)

lemma zrle_decode_from_not_Panic:
  "offset \<le> length bs \<Longrightarrow> zrle_decode_from bs out_len offset filled \<noteq> Panic"
proof (induction bs out_len offset filled rule: zrle_decode_from.induct)
  case (1 bs out_len offset filled)
  show ?case
  proof (cases "length filled < out_len")
    case False
    then show ?thesis by (simp add: zrle_decode_from.simps)
  next
    case True
    note step = "1.IH" [OF True]
    show ?thesis
    proof
      assume "zrle_decode_from bs out_len offset filled = Panic"
      then obtain control width where read: "varint_read (drop offset bs) = Ok (control, width)"
        and panic: "(let offset' = offset + width; count = unat (drop_bit 1 control) + 1 in
          if count > MAX_RUN \<or> count > out_len - length filled then Err RunOverflow
          else if control AND 1 = 1 then
            obind (pixel_at bs offset') (\<lambda>pixel.
              zrle_decode_from bs out_len (offset' + 4) (filled @ replicate count pixel))
          else
            obind (read_literal bs offset' count) (\<lambda>pixels.
              zrle_decode_from bs out_len (offset' + 4 * count) (filled @ pixels))) = Panic"
        using True "1.prems"
        by (subst (asm) zrle_decode_from.simps) (auto simp: obind_eq_Panic_iff slice_from_ok)
      have "offset + width \<le> length bs"
        using varint_read_bounds [OF read] "1.prems" by (simp add: le_diff_conv2 add.commute)
      then show False
        using panic step [OF slice_from_ok [OF "1.prems"] read refl refl refl]
          pixel_at_in_range read_literal_in_range
        by (force simp: Let_def obind_eq_Panic_iff split: if_splits)
    qed
  qed
qed

lemma zrle_decode_not_Panic [simp]: "zrle_decode bs n \<noteq> Panic"
  by (simp add: zrle_decode_def zrle_decode_from_not_Panic)

lemma length_zrle_decode_from:
  "zrle_decode_from bs out_len offset filled = Ok px \<Longrightarrow> length filled \<le> out_len \<Longrightarrow>
   length px = out_len"
proof (induction bs out_len offset filled rule: zrle_decode_from.induct)
  case (1 bs out_len offset filled)
  show ?case
  proof (cases "length filled < out_len")
    case False
    with "1.prems" show ?thesis by (simp add: zrle_decode_from.simps split: if_splits)
  next
    case True
    note step = "1.IH" [OF True]
    from "1.prems"(1) True obtain tail control width where
      read: "slice_from bs offset = (Ok tail :: (CodecError, bytes) outcome)"
        "varint_read tail = Ok (control, width)"
      and ok: "(let offset' = offset + width; count = unat (drop_bit 1 control) + 1 in
          if count > MAX_RUN \<or> count > out_len - length filled then Err RunOverflow
          else if control AND 1 = 1 then
            obind (pixel_at bs offset') (\<lambda>pixel.
              zrle_decode_from bs out_len (offset' + 4) (filled @ replicate count pixel))
          else
            obind (read_literal bs offset' count) (\<lambda>pixels.
              zrle_decode_from bs out_len (offset' + 4 * count) (filled @ pixels))) = Ok px"
      by (subst (asm) zrle_decode_from.simps) auto
    from ok step [OF read refl refl refl] True show ?thesis
      by (auto simp: Let_def length_read_literal split: if_splits)
  qed
qed

lemma length_zrle_decode: "zrle_decode bs n = Ok px \<Longrightarrow> length px = n"
  using length_zrle_decode_from [of bs n 0 "[]" px] by (simp add: zrle_decode_def)

section \<open>The contract of a pixel coder\<close>

text \<open>
  What the tile records and the cursor records rely on. A coder may be asked to expand any
  bytes at all; what it compressed itself it gives back.
\<close>

locale pixel_coder =
  fixes compress :: "u32 list \<Rightarrow> bytes"
    and expand :: "bytes \<Rightarrow> nat \<Rightarrow> ('e, u32 list) outcome"
  assumes expand_compress: "expand (compress px) (length px) = Ok px"
    and expand_length: "expand bs n = Ok px \<Longrightarrow> length px = n"
    and expand_not_Panic: "expand bs n \<noteq> Panic"
begin

lemma compress_inject: "length px = length qx \<Longrightarrow> compress px = compress qx \<Longrightarrow> px = qx"
  by (metis expand_compress outcome.inject(1))

text \<open>A difference against a held tile, expanded and applied to that tile, is the tile.\<close>

lemma expand_difference:
  assumes "length tile = length previous"
  shows "\<exists>d. expand (compress (map2 (XOR) tile previous)) (length tile) = Ok d
    \<and> map2 (XOR) d previous = tile"
proof -
  let ?d = "map2 (XOR) tile previous"
  have "expand (compress ?d) (length tile) = Ok ?d"
    using expand_compress [of ?d] assms by simp
  moreover have "map2 (XOR) ?d previous = tile"
    using assms by (induction tile previous rule: list_induct2) (auto simp: xor.assoc)
  ultimately show ?thesis by blast
qed

end

interpretation zrle: pixel_coder zrle_encode zrle_decode
  by unfold_locales (auto simp: length_zrle_decode)

end
