(* ===== verification/Cursor.thy ===== *)
theory Cursor
  imports Zrle
begin

text \<open>
  The cursor's own records (\<open>display-codec/src/cursor.rs\<close>): a bitmap, raw or run-length coded,
  and a six-byte position.
\<close>

section \<open>Definitions\<close>

definition MAX_CURSOR_DIMENSION :: nat where "MAX_CURSOR_DIMENSION = 256"
definition CURSOR_FORMAT_VERSION :: u8 where "CURSOR_FORMAT_VERSION = 1"
definition IMAGE_HEADER_LEN :: nat where "IMAGE_HEADER_LEN = 10"
definition POSITION_LEN :: nat where "POSITION_LEN = 6"

text \<open>\<open>CursorImage\<close> borrows its pixels and \<open>OwnedCursorImage\<close> owns them; as values they agree.\<close>

record cursor_image =
  ci_pixels :: bytes
  ci_width :: nat
  ci_height :: nat
  ci_hotspot_x :: nat
  ci_hotspot_y :: nat

record cursor_position =
  cp_x :: nat
  cp_y :: nat
  cp_visible :: bool

definition write_image :: "cursor_image \<Rightarrow> (CodecError, bytes) outcome" where
  "write_image img =
     (if ci_width img = 0 \<or> ci_height img = 0
         \<or> ci_width img > MAX_CURSOR_DIMENSION \<or> ci_height img > MAX_CURSOR_DIMENSION
         \<or> ci_hotspot_x img \<ge> ci_width img \<or> ci_hotspot_y img \<ge> ci_height img
      then Err CursorTooLarge
      else let expected = ci_width img * ci_height img * 4 in
        if length (ci_pixels img) \<noteq> expected
          then Err (FrameSize expected (length (ci_pixels img)))
        else let compressed = zrle_encode (pixels_from_le (ci_pixels img));
                 raw = length compressed \<ge> expected in
          Ok ([CURSOR_FORMAT_VERSION, if raw then 0 else 1]
            @ u16_to_le (of_nat (ci_width img)) @ u16_to_le (of_nat (ci_height img))
            @ u16_to_le (of_nat (ci_hotspot_x img)) @ u16_to_le (of_nat (ci_hotspot_y img))
            @ (if raw then ci_pixels img else compressed)))"

definition read_image :: "bytes \<Rightarrow> (CodecError, cursor_image) outcome" where
  "read_image payload =
     obind (ok_or (get_range payload 0 IMAGE_HEADER_LEN) Truncated) (\<lambda>header.
       if header ! 0 \<noteq> CURSOR_FORMAT_VERSION then Err (UnknownVersion (header ! 0))
       else let width = unat (u16_from_le (header ! 2) (header ! 3));
                height = unat (u16_from_le (header ! 4) (header ! 5));
                hotspot_x = unat (u16_from_le (header ! 6) (header ! 7));
                hotspot_y = unat (u16_from_le (header ! 8) (header ! 9)) in
         if width = 0 \<or> height = 0 \<or> width > MAX_CURSOR_DIMENSION
            \<or> height > MAX_CURSOR_DIMENSION \<or> hotspot_x \<ge> width \<or> hotspot_y \<ge> height
           then Err CursorTooLarge
         else let count = width * height in
           obind (slice_from payload IMAGE_HEADER_LEN) (\<lambda>body.
             obind (if header ! 1 = 0 then
                      (if length body < count * 4 then Err Truncated
                       else if length body > count * 4 then Err TrailingBytes else Ok body)
                    else if header ! 1 = 1 then
                      obind (zrle_decode body count) (\<lambda>decoded. Ok (pixels_to_le decoded))
                    else Err (UnknownMethod (header ! 1)))
               (\<lambda>pixels. Ok \<lparr>ci_pixels = pixels, ci_width = width, ci_height = height,
                             ci_hotspot_x = hotspot_x, ci_hotspot_y = hotspot_y\<rparr>)))"

definition write_position :: "cursor_position \<Rightarrow> bytes" where
  "write_position position =
     [CURSOR_FORMAT_VERSION, if cp_visible position then 1 else 0]
       @ u16_to_le (of_nat (min (cp_x position) u16_max))
       @ u16_to_le (of_nat (min (cp_y position) u16_max))"

definition read_position :: "bytes \<Rightarrow> (CodecError, cursor_position) outcome" where
  "read_position payload =
     (if length payload < POSITION_LEN then Err Truncated
      else if length payload > POSITION_LEN then Err TrailingBytes
      else if payload ! 0 \<noteq> CURSOR_FORMAT_VERSION then Err (UnknownVersion (payload ! 0))
      else Ok \<lparr>cp_x = unat (u16_from_le (payload ! 2) (payload ! 3)),
              cp_y = unat (u16_from_le (payload ! 4) (payload ! 5)),
              cp_visible = (payload ! 1 \<noteq> 0)\<rparr>)"

section \<open>Round trips\<close>

text \<open>The images \<open>write_image\<close> accepts.\<close>

definition valid_cursor_image :: "cursor_image \<Rightarrow> bool" where
  "valid_cursor_image img \<longleftrightarrow>
     ci_width img \<le> MAX_CURSOR_DIMENSION \<and> ci_height img \<le> MAX_CURSOR_DIMENSION \<and>
     ci_hotspot_x img < ci_width img \<and> ci_hotspot_y img < ci_height img \<and>
     length (ci_pixels img) = ci_width img * ci_height img * 4"

lemma write_image_Ok_iff: "(\<exists>bs. write_image img = Ok bs) \<longleftrightarrow> valid_cursor_image img"
  by (auto simp: write_image_def valid_cursor_image_def Let_def)

lemma unat_cursor_field: "n \<le> 256 \<Longrightarrow> unat (of_nat n :: u16) = n"
  by (simp add: unat_of_nat take_bit_nat_eq_self)

lemma read_write_image:
  assumes "write_image img = Ok bs"
  shows "read_image bs = Ok img"
proof -
  have v: "valid_cursor_image img"
    using assms write_image_Ok_iff by blast
  let ?w = "ci_width img" and ?h = "ci_height img"
  have px: "pixels_to_le (pixels_from_le (ci_pixels img)) = ci_pixels img"
    using v by (intro pixels_to_from_le [of _ "?w * ?h"]) (simp add: valid_cursor_image_def)
  have dec: "zrle_decode (zrle_encode (pixels_from_le (ci_pixels img))) (?w * ?h)
      = Ok (pixels_from_le (ci_pixels img))"
    using v zrle_decode_encode [of "pixels_from_le (ci_pixels img)"]
    by (simp add: valid_cursor_image_def)
  show ?thesis
    using assms v px dec
    by (auto simp: write_image_def read_image_def valid_cursor_image_def Let_def u16_to_le_def
        get_range_def slice_from_def IMAGE_HEADER_LEN_def MAX_CURSOR_DIMENSION_def
        unat_cursor_field split: if_splits)
qed

lemma read_image_valid: "read_image bs = Ok img \<Longrightarrow> valid_cursor_image img"
  by (auto simp: read_image_def valid_cursor_image_def Let_def length_zrle_decode
      split: if_splits)

lemma read_image_not_Panic [simp]: "read_image bs \<noteq> Panic"
  by (auto simp: read_image_def get_range_def slice_from_def Let_def obind_eq_Panic_iff
      split: if_splits)

lemma read_write_position:
  "read_position (write_position p) =
   Ok (p\<lparr>cp_x := min (cp_x p) u16_max, cp_y := min (cp_y p) u16_max\<rparr>)"
  by (simp add: read_position_def write_position_def POSITION_LEN_def u16_to_le_def
      unat_of_nat take_bit_nat_eq_self)

end
