(* ===== verification/Staging.thy ===== *)
theory Staging
  imports Geometry
begin

text \<open>
  What has been captured and not yet encoded (\<open>display-codec/src/queue.rs\<close>). Every slot is
  latest-wins: a frame, a cursor bitmap and a cursor position each displace the one before, and
  a keyframe request is a flag. Only the damage hint accumulates.
\<close>

section \<open>Definitions\<close>

record staging =
  st_frame :: "u32 list"
  st_frame_pending :: bool
  st_hint :: "rect list option"
  st_cursor_image :: bytes
  st_cursor_image_pending :: bool
  st_cursor_position :: bytes
  st_cursor_position_pending :: bool
  st_keyframe_requested :: bool

definition staging_new :: "nat \<Rightarrow> staging" where
  "staging_new pixels =
     \<lparr>st_frame = replicate pixels 0, st_frame_pending = False, st_hint = Some [],
      st_cursor_image = [], st_cursor_image_pending = False,
      st_cursor_position = [], st_cursor_position_pending = False,
      st_keyframe_requested = False\<rparr>"

text \<open>Writing through \<open>frame_mut\<close> replaces the buffer's pixels in place.\<close>

definition set_frame :: "u32 list \<Rightarrow> staging \<Rightarrow> staging" where
  "set_frame pixels s = s\<lparr>st_frame := pixels\<rparr>"

definition stage_frame :: "rect list option \<Rightarrow> staging \<Rightarrow> staging" where
  "stage_frame damage s =
     (case (damage, st_hint s) of
        (Some rects, Some hint) \<Rightarrow> s\<lparr>st_hint := Some (hint @ rects)\<rparr>
      | (Some _, None) \<Rightarrow> s
      | (None, _) \<Rightarrow> s\<lparr>st_hint := None\<rparr>)\<lparr>st_frame_pending := True\<rparr>"

definition take_frame :: "staging \<Rightarrow> rect list option option \<times> staging" where
  "take_frame s =
     (if \<not> st_frame_pending s then (None, s)
      else (Some (st_hint s), s\<lparr>st_frame_pending := False, st_hint := Some []\<rparr>))"

definition set_cursor_image :: "bytes \<Rightarrow> staging \<Rightarrow> staging" where
  "set_cursor_image bs s = s\<lparr>st_cursor_image := bs\<rparr>"

definition stage_cursor_image :: "staging \<Rightarrow> staging" where
  "stage_cursor_image s = s\<lparr>st_cursor_image_pending := True\<rparr>"

definition take_cursor_image :: "staging \<Rightarrow> bool \<times> staging" where
  "take_cursor_image s = (st_cursor_image_pending s, s\<lparr>st_cursor_image_pending := False\<rparr>)"

definition set_cursor_position :: "bytes \<Rightarrow> staging \<Rightarrow> staging" where
  "set_cursor_position bs s = s\<lparr>st_cursor_position := bs\<rparr>"

definition stage_cursor_position :: "staging \<Rightarrow> staging" where
  "stage_cursor_position s = s\<lparr>st_cursor_position_pending := True\<rparr>"

definition take_cursor_position :: "staging \<Rightarrow> bool \<times> staging" where
  "take_cursor_position s =
     (st_cursor_position_pending s, s\<lparr>st_cursor_position_pending := False\<rparr>)"

definition request_keyframe :: "staging \<Rightarrow> staging" where
  "request_keyframe s = s\<lparr>st_keyframe_requested := True\<rparr>"

definition keyframe_sent :: "staging \<Rightarrow> staging" where
  "keyframe_sent s = s\<lparr>st_keyframe_requested := False\<rparr>"

lemmas staging_defs = staging_new_def set_frame_def stage_frame_def take_frame_def
  set_cursor_image_def stage_cursor_image_def take_cursor_image_def set_cursor_position_def
  stage_cursor_position_def take_cursor_position_def request_keyframe_def keyframe_sent_def

section \<open>Latest-wins slots\<close>

text \<open>
  The contract of a slot: staging displaces what was there, taking hands the pending value out
  once, and the value stays readable until it is displaced.
\<close>

locale latest_wins =
  fixes put :: "'v \<Rightarrow> 's \<Rightarrow> 's"
    and take_pending :: "'s \<Rightarrow> bool \<times> 's"
    and held :: "'s \<Rightarrow> 'v"
  assumes put_put: "put w (put v s) = put w s"
    and take_put: "fst (take_pending (put v s))"
    and held_put: "held (put v s) = v"
    and held_take: "held (snd (take_pending s)) = held s"
    and take_take: "\<not> fst (take_pending (snd (take_pending s)))"
begin

text \<open>Of any number of values staged before a take, the last is the one handed out.\<close>

lemma last_put_wins:
  "held (snd (take_pending (fold put (vs @ [v]) s))) = v \<and> fst (take_pending (fold put (vs @ [v]) s))"
  by (simp add: held_take held_put take_put)

lemma puts_collapse: "fold put (vs @ [v]) s = put v s"
proof (induction vs arbitrary: s)
  case (Cons a vs)
  then show ?case by (simp only: append_Cons fold_simps put_put)
qed simp

end

interpretation cursor_image_slot: latest_wins
  "\<lambda>bs s. stage_cursor_image (set_cursor_image bs s)" take_cursor_image st_cursor_image
  by unfold_locales (simp_all add: staging_defs)

interpretation cursor_position_slot: latest_wins
  "\<lambda>bs s. stage_cursor_position (set_cursor_position bs s)" take_cursor_position st_cursor_position
  by unfold_locales (simp_all add: staging_defs)

section \<open>The damage hint\<close>

text \<open>
  A hint covers a set of rectangles, \<open>None\<close> covering everything. Staging several frames between
  two payloads accumulates their hints, so what a displaced frame changed is not forgotten.
\<close>

definition hint_covers :: "rect list option \<Rightarrow> nat \<Rightarrow> nat \<Rightarrow> bool" where
  "hint_covers hint x y \<longleftrightarrow> (case hint of None \<Rightarrow> True | Some rs \<Rightarrow> list_ex (\<lambda>r. in_rect r x y) rs)"

lemma stage_frame_hint:
  "hint_covers (st_hint (stage_frame damage s)) x y \<longleftrightarrow>
   hint_covers damage x y \<or> hint_covers (st_hint s) x y"
  by (auto simp: stage_frame_def hint_covers_def split: option.splits)

lemma staged_hints_accumulate:
  "hint_covers (st_hint (fold stage_frame ds s)) x y \<longleftrightarrow>
   list_ex (\<lambda>d. hint_covers d x y) ds \<or> hint_covers (st_hint s) x y"
  by (induction ds arbitrary: s) (auto simp: stage_frame_hint)

lemma take_frame_pending:
  "st_frame_pending s \<Longrightarrow> take_frame s = (Some (st_hint s), snd (take_frame s))"
  by (simp add: take_frame_def)

end
