(* ===== verification/Frame_Tiles.thy ===== *)
theory Frame_Tiles
  imports Geometry
begin

text \<open>
  Moving a tile's pixels between a frame and a tile buffer: \<open>gather\<close>, \<open>scatter\<close> and
  \<open>differs\<close> of \<open>display-codec/src/encoder.rs\<close>. They are modelled row by row with the slices the
  source takes, each of which panics out of range; \<open>tile_pixels\<close> and \<open>paste\<close> say directly
  which pixel goes where, and the refinement lemmas show that on a tile of the grid the loops
  compute exactly these, without a panic.
\<close>

section \<open>The source's loops\<close>

fun gather_rows :: "u32 list \<Rightarrow> nat \<Rightarrow> rect \<Rightarrow> nat list \<Rightarrow> (CodecError, u32 list) outcome" where
  "gather_rows frame width r [] = Ok []"
| "gather_rows frame width r (y # ys) =
     (let start = y * width + rect_x r in
      obind (slice frame start (start + rect_width r)) (\<lambda>row.
        obind (gather_rows frame width r ys) (\<lambda>rest. Ok (row @ rest))))"

definition gather :: "u32 list \<Rightarrow> geometry \<Rightarrow> rect \<Rightarrow> (CodecError, u32 list) outcome" where
  "gather frame g r =
     gather_rows frame (geo_width g) r [rect_y r ..< rect_y r + rect_height r]"

fun scatter_rows ::
  "u32 list \<Rightarrow> nat \<Rightarrow> rect \<Rightarrow> u32 list \<Rightarrow> nat list \<Rightarrow> (CodecError, u32 list) outcome" where
  "scatter_rows frame width r pixels [] = Ok frame"
| "scatter_rows frame width r pixels (row # rows) =
     (let start = (rect_y r + row) * width + rect_x r in
      obind (slice pixels (row * rect_width r) ((row + 1) * rect_width r)) (\<lambda>source.
        obind (copy_slice frame start (start + rect_width r) source) (\<lambda>frame'.
          scatter_rows frame' width r pixels rows)))"

definition scatter ::
  "u32 list \<Rightarrow> geometry \<Rightarrow> rect \<Rightarrow> u32 list \<Rightarrow> (CodecError, u32 list) outcome" where
  "scatter frame g r pixels = scatter_rows frame (geo_width g) r pixels [0 ..< rect_height r]"

fun differs_rows ::
  "u32 list \<Rightarrow> u32 list \<Rightarrow> nat \<Rightarrow> rect \<Rightarrow> nat list \<Rightarrow> (CodecError, bool) outcome" where
  "differs_rows frame reference width r [] = Ok False"
| "differs_rows frame reference width r (y # ys) =
     (let start = y * width + rect_x r; stop = start + rect_width r in
      obind (slice frame start stop) (\<lambda>current.
        obind (slice reference start stop) (\<lambda>previous.
          if list_ex (\<lambda>(c, p). c \<noteq> p) (zip current previous) then Ok True
          else differs_rows frame reference width r ys)))"

definition differs ::
  "u32 list \<Rightarrow> u32 list \<Rightarrow> geometry \<Rightarrow> rect \<Rightarrow> (CodecError, bool) outcome" where
  "differs frame reference g r =
     differs_rows frame reference (geo_width g) r [rect_y r ..< rect_y r + rect_height r]"

section \<open>Which pixel goes where\<close>

definition tile_pixels :: "u32 list \<Rightarrow> nat \<Rightarrow> rect \<Rightarrow> u32 list" where
  "tile_pixels frame width r =
     map (\<lambda>j. frame ! ((rect_y r + j div rect_width r) * width + rect_x r + j mod rect_width r))
       [0 ..< rect_height r * rect_width r]"

definition paste :: "u32 list \<Rightarrow> nat \<Rightarrow> rect \<Rightarrow> u32 list \<Rightarrow> u32 list" where
  "paste frame width r pixels =
     map (\<lambda>i. if in_rect r (i mod width) (i div width)
              then pixels ! ((i div width - rect_y r) * rect_width r + (i mod width - rect_x r))
              else frame ! i)
       [0 ..< length frame]"

text \<open>A rectangle inside a frame of the given width and height.\<close>

definition rect_fits :: "nat \<Rightarrow> nat \<Rightarrow> rect \<Rightarrow> bool" where
  "rect_fits width height r \<longleftrightarrow>
     0 < rect_width r \<and> rect_x r + rect_width r \<le> width \<and>
     0 < rect_height r \<and> rect_y r + rect_height r \<le> height"

lemma tile_fits:
  "wf_geometry g \<Longrightarrow> tile g i = Some r \<Longrightarrow> rect_fits (geo_width g) (geo_height g) r"
  by (simp add: rect_fits_def tile_rect_shape)

lemma length_tile_pixels [simp]:
  "length (tile_pixels frame width r) = rect_height r * rect_width r"
  by (simp add: tile_pixels_def)

lemma length_paste [simp]: "length (paste frame width r pixels) = length frame"
  by (simp add: paste_def)

lemma row_fits:
  assumes "y < height" "x + n \<le> width" "length frame = width * (height :: nat)"
  shows "y * width + x + n \<le> length frame"
proof -
  have "y * width + (x + n) \<le> Suc y * width"
    using assms(2) by simp
  also have "\<dots> \<le> height * width"
    using assms(1) by (intro mult_le_mono1) simp
  finally show ?thesis using assms(3) by (simp add: mult.commute)
qed

lemma pixel_coordinates:
  assumes "x < (width :: nat)"
  shows "(y * width + x) mod width = x" "(y * width + x) div width = y"
  using assms by simp_all

section \<open>The loops compute exactly that\<close>

lemma gather_rows_snoc:
  "gather_rows frame width r (ys @ [y]) =
   obind (gather_rows frame width r ys) (\<lambda>rows.
     let start = y * width + rect_x r in
     obind (slice frame start (start + rect_width r)) (\<lambda>row. Ok (rows @ row)))"
  by (induction ys)
    (auto simp: Let_def slice_def, (case_tac "gather_rows frame width r ys", auto)+)

lemma map_upt_rows:
  "map f [0 ..< Suc n * k] = map f [0 ..< n * k] @ map (\<lambda>j. f (n * k + j)) [0 ..< k]"
proof -
  have "[0 ..< n * k + k] = [0 ..< n * k] @ map (\<lambda>j. j + n * k) [0 ..< k]"
    by (simp only: upt_add_eq_append [OF le0] map_add_upt add.commute [of k])
  then show ?thesis by (simp add: add.commute)
qed

lemma tile_pixels_Suc:
  "0 < rect_width r \<Longrightarrow> tile_pixels frame width (r\<lparr>rect_height := Suc n\<rparr>) =
   tile_pixels frame width (r\<lparr>rect_height := n\<rparr>) @
   map (\<lambda>j. frame ! ((rect_y r + n) * width + rect_x r + j)) [0 ..< rect_width r]"
  by (simp add: tile_pixels_def map_upt_rows del: mult_Suc)

lemma gather_rows_eq:
  assumes "rect_x r + rect_width r \<le> width" "rect_y r + n \<le> height" "0 < rect_width r"
    and "length frame = width * height"
  shows "gather_rows frame width r [rect_y r ..< rect_y r + n] =
         Ok (tile_pixels frame width (r\<lparr>rect_height := n\<rparr>))"
  using assms(2)
proof (induction n)
  case 0
  then show ?case by (simp add: tile_pixels_def)
next
  case (Suc n)
  let ?start = "(rect_y r + n) * width + rect_x r"
  have "?start + rect_width r \<le> length frame"
    using row_fits [of "rect_y r + n" height "rect_x r" "rect_width r" width frame] Suc.prems assms
    by simp
  moreover from this have "take (rect_width r) (drop ?start frame) =
      map (\<lambda>j. frame ! (?start + j)) [0 ..< rect_width r]"
    by (intro nth_equalityI) auto
  ultimately show ?case
    using Suc assms(3) by (simp add: gather_rows_snoc slice_def Let_def tile_pixels_Suc)
qed

lemma gather_eq:
  assumes "rect_fits (geo_width g) (geo_height g) r" "length frame = pixel_count g"
  shows "gather frame g r = Ok (tile_pixels frame (geo_width g) r)"
  using gather_rows_eq [of r "geo_width g" "rect_height r" "geo_height g" frame] assms
  by (simp add: gather_def rect_fits_def pixel_count_def)

lemma scatter_rows_snoc:
  "scatter_rows frame width r pixels (rows @ [row]) =
   obind (scatter_rows frame width r pixels rows) (\<lambda>frame'.
     scatter_rows frame' width r pixels [row])"
proof (induction rows arbitrary: frame)
  case (Cons a rows)
  then show ?case
    by (simp add: Let_def slice_def copy_slice_def del: scatter_rows.simps(2))
      (simp add: Let_def slice_def copy_slice_def)
qed simp

text \<open>The positions one row of a rectangle occupies.\<close>

lemma row_position_iff:
  assumes "x + n \<le> (width :: nat)" "0 < n"
  shows "y * width + x \<le> i \<and> i < y * width + x + n \<longleftrightarrow>
         i div width = y \<and> x \<le> i mod width \<and> i mod width < x + n"
proof
  assume l: "y * width + x \<le> i \<and> i < y * width + x + n"
  then obtain j where "i = y * width + j" "x \<le> j" "j < x + n"
    by (metis (no_types, lifting) add.assoc le_add_diff_inverse add_le_cancel_left add_leD1
        add_less_cancel_left)
  with assms show "i div width = y \<and> x \<le> i mod width \<and> i mod width < x + n"
    by simp
next
  assume "i div width = y \<and> x \<le> i mod width \<and> i mod width < x + n"
  moreover have "i = i div width * width + i mod width" by simp
  ultimately show "y * width + x \<le> i \<and> i < y * width + x + n"
    by (metis add.assoc add_le_cancel_left add_less_cancel_left)
qed

lemma paste_Suc:
  assumes "rect_x r + rect_width r \<le> width" "0 < rect_width r"
    and "(rect_y r + n) * width + rect_x r + rect_width r \<le> length frame"
    and "Suc n * rect_width r \<le> length pixels"
  shows "paste frame width (r\<lparr>rect_height := Suc n\<rparr>) pixels =
    splice (paste frame width (r\<lparr>rect_height := n\<rparr>) pixels) ((rect_y r + n) * width + rect_x r)
      (take (rect_width r) (drop (n * rect_width r) pixels))"
    (is "?l = splice ?p ?s ?row")
proof (rule nth_equalityI)
  have row: "length ?row = rect_width r"
    using assms(4) by simp
  show "length ?l = length (splice ?p ?s ?row)"
    using assms(3) row by simp
  fix i assume i: "i < length ?l"
  let ?x = "i mod width" and ?y = "i div width"
  show "?l ! i = splice ?p ?s ?row ! i"
  proof (cases "?s \<le> i \<and> i < ?s + rect_width r")
    case True
    then have xy: "?y = rect_y r + n" "rect_x r \<le> ?x" "?x < rect_x r + rect_width r"
      using row_position_iff [OF assms(1,2)] by auto
    moreover from xy have "i - ?s = ?x - rect_x r"
      by (metis add.assoc diff_add_inverse diff_diff_left div_mult_mod_eq)
    ultimately show ?thesis
      using True i row assms(3,4) by (simp add: nth_splice paste_def in_rect_def)
  next
    case False
    then have "\<not> (?y = rect_y r + n \<and> rect_x r \<le> ?x \<and> ?x < rect_x r + rect_width r)"
      using row_position_iff [OF assms(1,2)] by auto
    then show ?thesis
      using False i row assms(3) by (auto simp: nth_splice paste_def in_rect_def)
  qed
qed

lemma scatter_rows_eq:
  assumes "rect_x r + rect_width r \<le> width" "rect_y r + n \<le> height" "0 < rect_width r"
    and "length frame = width * height" "n * rect_width r \<le> length pixels"
  shows "scatter_rows frame width r pixels [0 ..< n] =
         Ok (paste frame width (r\<lparr>rect_height := n\<rparr>) pixels)"
  using assms(2,5)
proof (induction n)
  case 0
  have "paste frame width (r\<lparr>rect_height := 0\<rparr>) pixels = frame"
    by (rule nth_equalityI) (auto simp: paste_def in_rect_def)
  then show ?case by simp
next
  case (Suc n)
  let ?s = "(rect_y r + n) * width + rect_x r"
  have s: "?s + rect_width r \<le> length frame"
    using row_fits [of "rect_y r + n" height "rect_x r" "rect_width r" width frame] Suc.prems assms
    by simp
  have src: "slice pixels (n * rect_width r) (Suc n * rect_width r) =
      (Ok (take (rect_width r) (drop (n * rect_width r) pixels)) :: (CodecError, u32 list) outcome)"
    using Suc.prems(2) by (simp add: slice_def)
  have "copy_slice (paste frame width (r\<lparr>rect_height := n\<rparr>) pixels) ?s (?s + rect_width r)
      (take (rect_width r) (drop (n * rect_width r) pixels)) =
      (Ok (paste frame width (r\<lparr>rect_height := Suc n\<rparr>) pixels) :: (CodecError, u32 list) outcome)"
    using paste_Suc [OF assms(1,3) s Suc.prems(2)] s Suc.prems(2)
    by (simp add: copy_slice_def)
  moreover have "scatter_rows frame width r pixels [0..<n] =
      Ok (paste frame width (r\<lparr>rect_height := n\<rparr>) pixels)"
    using Suc by simp
  ultimately show ?case
    using src by (simp add: scatter_rows_snoc Let_def)
qed

lemma scatter_eq:
  assumes "rect_fits (geo_width g) (geo_height g) r" "length frame = pixel_count g"
    and "length pixels = rect_height r * rect_width r"
  shows "scatter frame g r pixels = Ok (paste frame (geo_width g) r pixels)"
  using scatter_rows_eq [of r "geo_width g" "rect_height r" "geo_height g" frame pixels] assms
  by (simp add: scatter_def rect_fits_def pixel_count_def)

lemma list_ex_zip_neq:
  "length xs = length ys \<Longrightarrow> list_ex (\<lambda>(c, p). c \<noteq> p) (zip xs ys) \<longleftrightarrow> xs \<noteq> ys"
  by (induction xs ys rule: list_induct2) auto

lemma gather_rows_ok:
  assumes "rect_x r + rect_width r \<le> width" "length frame = width * height"
  shows "\<forall>y\<in>set ys. y < height \<Longrightarrow> \<exists>px. gather_rows frame width r ys = Ok px"
proof (induction ys)
  case (Cons y ys)
  then have "y * width + rect_x r + rect_width r \<le> length frame"
    using row_fits [of y height "rect_x r" "rect_width r" width frame] assms by simp
  with Cons show ?case by (auto simp: Let_def slice_def)
qed simp

lemma differs_rows_eq:
  assumes "rect_x r + rect_width r \<le> width"
    and "length frame = width * height" "length reference = width * height"
  shows "\<forall>y\<in>set ys. y < height \<Longrightarrow> differs_rows frame reference width r ys =
    Ok (gather_rows frame width r ys \<noteq> gather_rows reference width r ys)"
proof (induction ys)
  case (Cons y ys)
  have fits: "y * width + rect_x r + rect_width r \<le> length frame"
    "y * width + rect_x r + rect_width r \<le> length reference"
    using row_fits [of y height "rect_x r" "rect_width r" width frame]
      row_fits [of y height "rect_x r" "rect_width r" width reference] Cons.prems assms
    by simp_all
  obtain px qx where "gather_rows frame width r ys = Ok px" "gather_rows reference width r ys = Ok qx"
    using gather_rows_ok [OF assms(1,2)] gather_rows_ok [OF assms(1,3)] Cons.prems
    by (metis list.set_intros(2))
  with Cons fits show ?case
    by (simp add: Let_def slice_def list_ex_zip_neq)
qed simp

lemma differs_eq:
  assumes "rect_fits (geo_width g) (geo_height g) r"
    and "length frame = pixel_count g" "length reference = pixel_count g"
  shows "differs frame reference g r =
    Ok (tile_pixels frame (geo_width g) r \<noteq> tile_pixels reference (geo_width g) r)"
proof -
  have "differs frame reference g r = Ok (gather frame g r \<noteq> gather reference g r)"
    unfolding differs_def gather_def
    using assms by (intro differs_rows_eq [of _ _ _ "geo_height g"])
      (auto simp: rect_fits_def pixel_count_def)
  then show ?thesis
    by (simp add: gather_eq [OF assms(1,2)] gather_eq [OF assms(1,3)])
qed

section \<open>A frame is its tiles\<close>

lemma nth_tile_pixels:
  assumes "in_rect r x y"
  shows "tile_pixels frame width r ! ((y - rect_y r) * rect_width r + (x - rect_x r)) =
         frame ! (y * width + x)"
proof -
  obtain a b where ab: "y = rect_y r + a" "x = rect_x r + b" "a < rect_height r" "b < rect_width r"
    using assms unfolding in_rect_def by (metis add_less_cancel_left le_Suc_ex)
  have "a * rect_width r + b < Suc a * rect_width r"
    using ab by simp
  also have "\<dots> \<le> rect_height r * rect_width r"
    using ab by (intro mult_le_mono1) simp
  finally show ?thesis
    using ab by (simp add: tile_pixels_def add.assoc)
qed

lemma nth_paste:
  "i < length frame \<Longrightarrow> paste frame width r pixels ! i =
   (if in_rect r (i mod width) (i div width)
    then pixels ! ((i div width - rect_y r) * rect_width r + (i mod width - rect_x r))
    else frame ! i)"
  by (simp add: paste_def)

lemma rect_position:
  assumes "rect_fits width height r" "length frame = width * height" "j < rect_height r * rect_width r"
  defines "x \<equiv> rect_x r + j mod rect_width r" and "y \<equiv> rect_y r + j div rect_width r"
  shows "in_rect r x y" "x < width" "y < height" "y * width + x < length frame"
    and "(y - rect_y r) * rect_width r + (x - rect_x r) = j"
proof -
  have w: "0 < rect_width r" using assms(1) by (simp add: rect_fits_def)
  have "j div rect_width r < rect_height r"
    using assms(3) by (simp add: less_mult_imp_div_less)
  moreover have "j mod rect_width r < rect_width r" using w by simp
  ultimately show xy: "in_rect r x y" "x < width" "y < height"
    using assms(1) by (auto simp: in_rect_def rect_fits_def x_def y_def)
  then show "y * width + x < length frame"
    using row_fits [of y height x 1 width frame] assms(2) by simp
  show "(y - rect_y r) * rect_width r + (x - rect_x r) = j"
    by (simp add: x_def y_def)
qed

lemma tile_pixels_paste:
  assumes "rect_fits width height r" "length frame = width * height"
    and "length pixels = rect_height r * rect_width r"
  shows "tile_pixels (paste frame width r pixels) width r = pixels"
proof (rule nth_equalityI)
  fix j assume "j < length (tile_pixels (paste frame width r pixels) width r)"
  then have j: "j < rect_height r * rect_width r" by simp
  note p = rect_position [OF assms(1,2) j]
  show "tile_pixels (paste frame width r pixels) width r ! j = pixels ! j"
    using j p by (simp add: tile_pixels_def nth_paste add.assoc pixel_coordinates)
qed (simp add: assms)

lemma tile_pixels_paste_other:
  assumes "rect_fits width height r'" "length frame = width * height"
    and "\<And>x y. x < width \<Longrightarrow> in_rect r' x y \<Longrightarrow> \<not> in_rect r x y"
  shows "tile_pixels (paste frame width r pixels) width r' = tile_pixels frame width r'"
proof (rule nth_equalityI)
  fix j assume "j < length (tile_pixels (paste frame width r pixels) width r')"
  then have j: "j < rect_height r' * rect_width r'" by simp
  note p = rect_position [OF assms(1,2) j]
  show "tile_pixels (paste frame width r pixels) width r' ! j = tile_pixels frame width r' ! j"
    using j p assms(3) [OF p(2,1)]
    by (simp add: tile_pixels_def nth_paste add.assoc pixel_coordinates)
qed simp

lemma paste_tile_pixels:
  assumes "0 < width"
  shows "paste frame width r (tile_pixels frame width r) = frame"
proof (rule nth_equalityI)
  fix i assume "i < length (paste frame width r (tile_pixels frame width r))"
  then show "paste frame width r (tile_pixels frame width r) ! i = frame ! i"
    using nth_tile_pixels [of r "i mod width" "i div width" frame width] by (simp add: nth_paste)
qed simp

lemma paste_paste:
  "paste (paste frame width r pixels) width r pixels' = paste frame width r pixels'"
  by (rule nth_equalityI) (auto simp: nth_paste)

text \<open>Two frames of a geometry that agree on every tile are the same frame.\<close>

lemma frame_eq_by_tiles:
  assumes "wf_geometry g" "length a = pixel_count g" "length b = pixel_count g"
    and "\<And>i r. tile g i = Some r \<Longrightarrow>
      tile_pixels a (geo_width g) r = tile_pixels b (geo_width g) r"
  shows "a = b"
proof (rule nth_equalityI)
  fix k assume "k < length a"
  then have k: "k < geo_height g * geo_width g"
    using assms(2) by (simp add: pixel_count_def mult.commute)
  let ?x = "k mod geo_width g" and ?y = "k div geo_width g"
  have w: "0 < geo_width g" using assms(1) by (simp add: wf_geometry_def)
  have xy: "?x < geo_width g" "?y < geo_height g"
    using w k by (simp_all add: less_mult_imp_div_less)
  obtain r where r: "tile g (tile_of g ?x ?y) = Some r"
    using tile_of_in_grid [OF assms(1) xy] tile_eq_Some_iff by blast
  then have "in_rect r ?x ?y"
    using tile_rectD [OF assms(1) r] xy by simp
  from nth_tile_pixels [OF this, of a "geo_width g"] nth_tile_pixels [OF this, of b "geo_width g"]
  show "a ! k = b ! k"
    using assms(4) [OF r] by simp
qed (simp add: assms)

lemma tiles_disjoint:
  assumes "wf_geometry g" "tile g i = Some r" "tile g j = Some r'" "i \<noteq> j"
  shows "in_rect r' x y \<Longrightarrow> \<not> in_rect r x y"
  using tile_rectD [OF assms(1,2)] tile_rectD [OF assms(1,3)] assms(4) by auto

end
