(* ===== verification/Encoder.thy ===== *)
theory Encoder
  imports Container Cursor Staging Frame_Tiles
begin

unbundle bit_operations_syntax

text \<open>
  The encoding half of the codec (\<open>display-codec/src/encoder.rs\<close>). The scratch buffers the
  source reuses between tiles (\<open>tile\<close>, \<open>previous_tile\<close>, \<open>scratch\<close>) are cleared before each use
  and carry nothing from one call to the next, so they are local values here. Encoding cannot
  fail, only panic: the functions below return \<open>Ok\<close> or \<open>Panic\<close>.
\<close>

section \<open>Tiles\<close>

fun xor_pixels :: "u32 list \<Rightarrow> u32 list \<Rightarrow> u32 list" where
  "xor_pixels pixels previous = map2 (XOR) pixels previous"

definition write_tile :: "u32 list \<Rightarrow> u32 list option \<Rightarrow> bytes" where
  "write_tile pixels previous =
     (let raw_len = length pixels * 4;
          zrle = zrle_encode pixels;
          zrle_len = length zrle + varint_len (of_nat (length zrle));
          (best, best_len) =
            (if zrle_len < raw_len then (ZrleMethod, zrle_len) else (Raw, raw_len));
          xor_zrle = (case previous of None \<Rightarrow> []
            | Some held \<Rightarrow> zrle_encode (xor_pixels pixels held));
          best = (case previous of None \<Rightarrow> best
            | Some held \<Rightarrow>
                (if length xor_zrle + varint_len (of_nat (length xor_zrle)) < best_len
                 then XorZrle else best)) in
      method_as_byte best #
      (case best of
         Raw \<Rightarrow> pixels_to_le pixels
       | ZrleMethod \<Rightarrow> varint_write (of_nat (length zrle)) @ zrle
       | XorZrle \<Rightarrow> varint_write (of_nat (length xor_zrle)) @ xor_zrle))"

section \<open>State\<close>

record capture =
  cap_pixels :: bytes
  cap_stride :: nat

record encoder_config =
  cfg_geometry :: geometry
  cfg_refresh_interval :: nat

definition encoder_config_new :: "geometry \<Rightarrow> encoder_config" where
  "encoder_config_new g = \<lparr>cfg_geometry = g, cfg_refresh_interval = 300\<rparr>"

datatype payload =
    Keyframe bytes
  | TileDelta bytes
  | CursorImage bytes
  | CursorPosition bytes

record encoder =
  enc_geometry :: geometry
  enc_refresh_interval :: nat
  enc_sweep :: nat
  enc_staging :: staging
  enc_reference :: "u32 list"
  enc_has_reference :: bool
  enc_output :: bytes
  enc_selected :: "bool list"

definition encoder_new :: "encoder_config \<Rightarrow> encoder" where
  "encoder_new config =
     (let pixels = pixel_count (cfg_geometry config) in
      \<lparr>enc_geometry = cfg_geometry config,
       enc_refresh_interval = cfg_refresh_interval config,
       enc_sweep = 0,
       enc_staging = staging_new pixels,
       enc_reference = replicate pixels 0,
       enc_has_reference = False,
       enc_output = [],
       enc_selected = replicate (tile_count (cfg_geometry config)) False\<rparr>)"

section \<open>Submitting captures\<close>

text \<open>
  \<open>usize\<close> arithmetic on the caller's stride: an overflow aborts where overflow checks are on
  and wraps where they are off, and is \<open>Panic\<close> here; \<open>submit_ok\<close> shows when it cannot happen.
\<close>

definition usize :: "nat \<Rightarrow> ('e, nat) outcome" where
  "usize n = (if n < usize_bound then Ok n else Panic)"

fun submit_rows ::
  "u32 list \<Rightarrow> bytes \<Rightarrow> nat \<Rightarrow> nat \<Rightarrow> nat list \<Rightarrow> (CodecError, u32 list) outcome" where
  "submit_rows staged pixels stride width [] = Ok staged"
| "submit_rows staged pixels stride width (y # ys) =
     obind (usize (y * stride + width * 4)) (\<lambda>stop.
       obind (slice pixels (y * stride) stop) (\<lambda>source.
         obind (copy_slice staged (y * width) ((y + 1) * width) (pixels_from_le source))
           (\<lambda>staged'. submit_rows staged' pixels stride width ys)))"

definition submit ::
  "encoder \<Rightarrow> capture \<Rightarrow> rect list option \<Rightarrow> (CodecError, encoder) outcome" where
  "submit e frame damage =
     (let width = geo_width (enc_geometry e);
          height = geo_height (enc_geometry e);
          row = width * 4 in
      obind (if cap_stride frame < row then Ok (usize_bound - 1)
             else usize (cap_stride frame * (height - 1) + row)) (\<lambda>needed.
        if length (cap_pixels frame) < needed
          then Err (FrameSize needed (length (cap_pixels frame)))
        else
          obind (submit_rows (st_frame (enc_staging e)) (cap_pixels frame) (cap_stride frame)
                   width [0 ..< height])
            (\<lambda>staged. Ok (e\<lparr>enc_staging :=
               stage_frame damage (set_frame staged (enc_staging e))\<rparr>))))"

definition submit_cursor_image :: "encoder \<Rightarrow> cursor_image \<Rightarrow> (CodecError, encoder) outcome" where
  "submit_cursor_image e img =
     obind (write_image img) (\<lambda>bs.
       Ok (e\<lparr>enc_staging := stage_cursor_image (set_cursor_image bs (enc_staging e))\<rparr>))"

definition submit_cursor_position :: "encoder \<Rightarrow> cursor_position \<Rightarrow> encoder" where
  "submit_cursor_position e position =
     e\<lparr>enc_staging :=
        stage_cursor_position (set_cursor_position (write_position position) (enc_staging e))\<rparr>"

definition encoder_request_keyframe :: "encoder \<Rightarrow> encoder" where
  "encoder_request_keyframe e = e\<lparr>enc_staging := request_keyframe (enc_staging e)\<rparr>"

section \<open>Choosing tiles\<close>

fun mark_tiles :: "bool list \<Rightarrow> nat list \<Rightarrow> (CodecError, bool list) outcome" where
  "mark_tiles selected [] = Ok selected"
| "mark_tiles selected (i # is) =
     obind (store_at selected i True) (\<lambda>selected'. mark_tiles selected' is)"

text \<open>The tiles one damage rectangle reaches, clipped to the frame, in the source's loop order.\<close>

definition rect_tiles :: "geometry \<Rightarrow> rect \<Rightarrow> nat list" where
  "rect_tiles g r =
     (if rect_width r = 0 \<or> rect_height r = 0
         \<or> rect_x r \<ge> geo_width g \<or> rect_y r \<ge> geo_height g then []
      else let edge = as_pixels (geo_tile_size g);
               right = min (min (rect_x r + rect_width r) u32_max) (geo_width g) - 1;
               bottom = min (min (rect_y r + rect_height r) u32_max) (geo_height g) - 1 in
        concat (map (\<lambda>row. map (\<lambda>column. row * geo_columns g + column)
            [rect_x r div edge ..< right div edge + 1])
          [rect_y r div edge ..< bottom div edge + 1]))"

definition select_tiles ::
  "bool list \<Rightarrow> geometry \<Rightarrow> rect list option \<Rightarrow> (CodecError, bool list) outcome" where
  "select_tiles selected g hint =
     (case hint of
        None \<Rightarrow> Ok (replicate (length selected) True)
      | Some rects \<Rightarrow>
          mark_tiles (replicate (length selected) False) (concat (map (rect_tiles g) rects)))"

definition mark_sweep :: "encoder \<Rightarrow> (CodecError, encoder) outcome" where
  "mark_sweep e =
     (let count = tile_count (enc_geometry e) in
      if enc_refresh_interval e = 0 \<or> count = 0 then Ok e
      else let slice_len = div_ceil count (enc_refresh_interval e) in
        obind (mark_tiles (enc_selected e)
                 (map (\<lambda>step. (enc_sweep e + step) mod count) [0 ..< min slice_len count]))
          (\<lambda>selected. Ok (e\<lparr>enc_selected := selected,
                            enc_sweep := (enc_sweep e + slice_len) mod count\<rparr>)))"

section \<open>Payloads\<close>

definition keyframe_due :: "encoder \<Rightarrow> bool" where
  "keyframe_due e \<longleftrightarrow> \<not> enc_has_reference e \<or> st_keyframe_requested (enc_staging e)"

lemma tile_SomeD: "tile g i = Some r \<Longrightarrow> i < tile_count g"
  using tile_eq_Some_iff by blast

function keyframe_tiles :: "geometry \<Rightarrow> u32 list \<Rightarrow> nat \<Rightarrow> (CodecError, bytes) outcome" where
  "keyframe_tiles g frame index =
     (case tile g index of
        None \<Rightarrow> Ok []
      | Some r \<Rightarrow>
          obind (gather frame g r) (\<lambda>pixels.
            obind (keyframe_tiles g frame (index + 1)) (\<lambda>rest.
              Ok (write_tile pixels None @ rest))))"
  by pat_completeness auto
termination
  by (relation "measure (\<lambda>(g, frame, index). tile_count g - index)") (auto dest: tile_SomeD)

declare keyframe_tiles.simps [simp del]

definition encode_keyframe :: "encoder \<Rightarrow> (CodecError, encoder) outcome" where
  "encode_keyframe e =
     (let frame = st_frame (enc_staging e) in
      obind (keyframe_tiles (enc_geometry e) frame 0) (\<lambda>tiles.
        obind (copy_slice (enc_reference e) 0 (length (enc_reference e)) frame) (\<lambda>reference.
          Ok (e\<lparr>enc_output := write_header True (enc_geometry e) @ tiles,
                enc_reference := reference, enc_has_reference := True, enc_sweep := 0,
                enc_staging := keyframe_sent (enc_staging e)\<rparr>))))"

text \<open>The delta's loop: the bytes appended, the reference as it ends up, whether any tile was written.\<close>

function delta_tiles ::
  "geometry \<Rightarrow> u32 list \<Rightarrow> bool list \<Rightarrow> u32 list \<Rightarrow> nat \<Rightarrow>
   (CodecError, bytes \<times> u32 list \<times> bool) outcome" where
  "delta_tiles g frame selected reference index =
     (case tile g index of
        None \<Rightarrow> Ok ([], reference, False)
      | Some r \<Rightarrow>
          obind (index_at selected index) (\<lambda>chosen.
            if \<not> chosen then delta_tiles g frame selected reference (index + 1)
            else obind (differs frame reference g r) (\<lambda>changed.
              if \<not> changed then delta_tiles g frame selected reference (index + 1)
              else obind (gather frame g r) (\<lambda>pixels.
                obind (gather reference g r) (\<lambda>previous.
                  obind (scatter reference g r pixels) (\<lambda>reference'.
                    obind (delta_tiles g frame selected reference' (index + 1))
                      (\<lambda>(rest, final, _).
                        Ok (varint_write (of_nat index) @ write_tile pixels (Some previous) @ rest,
                            final, True))))))))"
  by pat_completeness auto
termination
  by (relation "measure (\<lambda>(g, frame, selected, reference, index). tile_count g - index)")
    (auto dest: tile_SomeD)

declare delta_tiles.simps [simp del]

definition encode_delta :: "encoder \<Rightarrow> rect list option \<Rightarrow> (CodecError, bool \<times> encoder) outcome" where
  "encode_delta e hint =
     obind (select_tiles (enc_selected e) (enc_geometry e) hint) (\<lambda>selected.
       obind (mark_sweep (e\<lparr>enc_selected := selected\<rparr>)) (\<lambda>e'.
         obind (delta_tiles (enc_geometry e') (st_frame (enc_staging e')) (enc_selected e')
                  (enc_reference e') 0)
           (\<lambda>(tiles, reference, written).
             Ok (written, e'\<lparr>enc_output := write_header False (enc_geometry e') @ tiles,
                             enc_reference := reference\<rparr>))))"

text \<open>The tail of \<open>next_payload\<close>: the cursor bitmap, then the cursor position.\<close>

definition next_cursor_payload :: "encoder \<Rightarrow> payload option \<times> encoder" where
  "next_cursor_payload e =
     (let (img_pending, s) = take_cursor_image (enc_staging e); e' = e\<lparr>enc_staging := s\<rparr> in
      if img_pending then (Some (CursorImage (st_cursor_image s)), e')
      else let (pos_pending, s') = take_cursor_position s; e'' = e'\<lparr>enc_staging := s'\<rparr> in
        if pos_pending then (Some (CursorPosition (st_cursor_position s')), e'')
        else (None, e''))"

definition next_payload :: "encoder \<Rightarrow> (CodecError, payload option \<times> encoder) outcome" where
  "next_payload e =
     (case take_frame (enc_staging e) of
        (Some hint, s) \<Rightarrow>
          let e' = e\<lparr>enc_staging := s\<rparr> in
          if keyframe_due e' then
            obind (encode_keyframe e') (\<lambda>e''. Ok (Some (Keyframe (enc_output e'')), e''))
          else
            obind (encode_delta e' hint) (\<lambda>(written, e'').
              if written then Ok (Some (TileDelta (enc_output e'')), e'')
              else Ok (next_cursor_payload e''))
      | (None, s) \<Rightarrow>
          let e' = e\<lparr>enc_staging := s\<rparr> in
          if st_keyframe_requested s \<and> enc_has_reference e' then
            obind (encode_keyframe e') (\<lambda>e''. Ok (Some (Keyframe (enc_output e'')), e''))
          else Ok (next_cursor_payload e'))"

section \<open>The encoder's invariant\<close>

definition wf_encoder :: "encoder \<Rightarrow> bool" where
  "wf_encoder e \<longleftrightarrow>
     wf_geometry (enc_geometry e) \<and>
     length (st_frame (enc_staging e)) = pixel_count (enc_geometry e) \<and>
     length (enc_reference e) = pixel_count (enc_geometry e) \<and>
     length (enc_selected e) = tile_count (enc_geometry e) \<and>
     enc_sweep e < tile_count (enc_geometry e)"

lemma wf_encoder_new: "wf_geometry (cfg_geometry c) \<Longrightarrow> wf_encoder (encoder_new c)"
  using geometry_bounds(3) by (simp add: wf_encoder_def encoder_new_def staging_new_def Let_def)

section \<open>A capture is copied row by row\<close>

text \<open>The pixels of a captured frame, its padding skipped.\<close>

definition captured_pixels :: "geometry \<Rightarrow> capture \<Rightarrow> u32 list" where
  "captured_pixels g frame =
     concat (map (\<lambda>y. pixels_from_le
         (take (geo_width g * 4) (drop (y * cap_stride frame) (cap_pixels frame))))
       [0 ..< geo_height g])"

definition capture_fits :: "geometry \<Rightarrow> capture \<Rightarrow> bool" where
  "capture_fits g frame \<longleftrightarrow>
     geo_width g * 4 \<le> cap_stride frame \<and>
     cap_stride frame * (geo_height g - 1) + geo_width g * 4 \<le> length (cap_pixels frame)"

lemma submit_rows_snoc:
  "submit_rows staged pixels stride width (ys @ [y]) =
   obind (submit_rows staged pixels stride width ys) (\<lambda>staged'.
     submit_rows staged' pixels stride width [y])"
proof (induction ys arbitrary: staged)
  case (Cons a ys)
  then show ?case
    by (simp add: usize_def slice_def copy_slice_def del: submit_rows.simps(2))
      (simp add: usize_def slice_def copy_slice_def)
qed simp

lemma captured_row_fits:
  assumes "capture_fits g frame" "y < geo_height g"
  shows "y * cap_stride frame + geo_width g * 4 \<le> length (cap_pixels frame)"
proof -
  have "y * cap_stride frame \<le> (geo_height g - 1) * cap_stride frame"
    using assms(2) by (intro mult_le_mono1) simp
  then show ?thesis
    using assms(1) unfolding capture_fits_def mult.commute [of "cap_stride frame"] by linarith
qed

lemma length_captured_rows:
  assumes "\<And>y. y < n \<Longrightarrow> y * stride + width * 4 \<le> length px"
  shows "length (concat (map (\<lambda>y. pixels_from_le (take (width * 4) (drop (y * stride) px)))
    [0 ..< n])) = n * width"
  using assms
proof (induction n)
  case (Suc n)
  have "width * 4 \<le> length px - n * stride"
    using Suc.prems [of n] by simp
  then show ?case using Suc by simp
qed simp

lemma length_captured_pixels:
  "capture_fits g frame \<Longrightarrow> length (captured_pixels g frame) = pixel_count g"
  using length_captured_rows [OF captured_row_fits]
  by (simp add: captured_pixels_def pixel_count_def mult.commute)

lemma submit_rows_eq:
  assumes "\<And>y. y < n \<Longrightarrow> y * stride + width * 4 \<le> length px" "length px < usize_bound"
    and "n * width \<le> length staged"
  shows "submit_rows staged px stride width [0 ..< n] =
    Ok (concat (map (\<lambda>y. pixels_from_le (take (width * 4) (drop (y * stride) px))) [0 ..< n])
        @ drop (n * width) staged)"
  using assms
proof (induction n)
  case (Suc n)
  let ?row = "\<lambda>y. pixels_from_le (take (width * 4) (drop (y * stride) px))"
  let ?done = "concat (map ?row [0 ..< n])"
  have fit: "n * stride + width * 4 \<le> length px" using Suc.prems(1) by simp
  then have row: "length (?row n) = width" by simp
  have len: "length ?done = n * width"
    using Suc.prems(1) by (intro length_captured_rows) simp
  have "copy_slice (?done @ drop (n * width) staged) (n * width) ((n + 1) * width) (?row n) =
      (Ok (?done @ ?row n @ drop (Suc n * width) staged) :: (CodecError, u32 list) outcome)"
    using Suc.prems(3) row len by (simp add: copy_slice_def splice_def)
  moreover have "submit_rows staged px stride width [0 ..< n] =
      Ok (?done @ drop (n * width) staged)"
    using Suc by simp
  ultimately show ?case
    using fit Suc.prems(2)
    by (simp add: submit_rows_snoc usize_def slice_def del: mult_Suc)
qed simp

lemma submit_Ok:
  assumes "wf_encoder e" "capture_fits (enc_geometry e) frame"
    and "length (cap_pixels frame) < usize_bound"
  shows "submit e frame damage = Ok (e\<lparr>enc_staging :=
    stage_frame damage (set_frame (captured_pixels (enc_geometry e) frame) (enc_staging e))\<rparr>)"
proof -
  let ?g = "enc_geometry e"
  have "submit_rows (st_frame (enc_staging e)) (cap_pixels frame) (cap_stride frame)
      (geo_width ?g) [0 ..< geo_height ?g] = Ok (captured_pixels ?g frame)"
    using submit_rows_eq [OF captured_row_fits [OF assms(2)] assms(3), of "geo_height ?g"
        "st_frame (enc_staging e)"] assms(1)
    by (simp add: captured_pixels_def wf_encoder_def pixel_count_def mult.commute)
  then show ?thesis
    using assms(2,3) by (simp add: submit_def capture_fits_def usize_def Let_def)
qed

lemma submit_Err:
  assumes "\<not> capture_fits (enc_geometry e) frame" "length (cap_pixels frame) < usize_bound - 1"
    and "cap_stride frame * (geo_height (enc_geometry e) - 1) + geo_width (enc_geometry e) * 4
      < usize_bound"
  shows "\<exists>needed. submit e frame damage = Err (FrameSize needed (length (cap_pixels frame)))"
  using assms by (auto simp: submit_def capture_fits_def usize_def Let_def)

lemma submit_wf:
  assumes "wf_encoder e" "capture_fits (enc_geometry e) frame"
    and "length (cap_pixels frame) < usize_bound" "submit e frame damage = Ok e'"
  shows "wf_encoder e'"
  using assms submit_Ok [OF assms(1-3), of damage]
  by (auto simp: wf_encoder_def staging_defs length_captured_pixels split: option.splits)

section \<open>Which tiles a delta compares\<close>

lemma mark_tiles_ok:
  "\<forall>i\<in>set is. i < length selected \<Longrightarrow>
   \<exists>selected'. mark_tiles selected is = Ok selected' \<and> length selected' = length selected \<and>
     (\<forall>i<length selected. selected' ! i \<longleftrightarrow> selected ! i \<or> i \<in> set is)"
proof (induction "is" arbitrary: selected)
  case (Cons a "is")
  then obtain selected' where "mark_tiles (selected[a := True]) is = Ok selected'"
    "length selected' = length selected"
    "\<forall>i<length selected. selected' ! i \<longleftrightarrow> selected[a := True] ! i \<or> i \<in> set is"
    using Cons.IH [of "selected[a := True]"] by auto
  then show ?case
    using Cons.prems by (intro exI [of _ selected']) (simp add: store_at_def nth_list_update)
qed simp

text \<open>
  A rectangle reaches exactly the tiles that hold one of its pixels: the clipping and the
  saturating additions lose none and add none.
\<close>

lemma div_interval_iff:
  assumes "0 < (t :: nat)" "a \<le> b"
  shows "a div t \<le> k \<and> k \<le> b div t \<longleftrightarrow> (\<exists>x. a \<le> x \<and> x \<le> b \<and> x div t = k)"
proof
  assume k: "a div t \<le> k \<and> k \<le> b div t"
  then have b: "k * t \<le> b"
    using assms(1) by (simp add: less_eq_div_iff_mult_less_eq)
  show "\<exists>x. a \<le> x \<and> x \<le> b \<and> x div t = k"
  proof (cases "a \<le> k * t")
    case True
    then show ?thesis using b assms(1) by (intro exI [of _ "k * t"]) simp
  next
    case False
    then have "k \<le> a div t" using assms(1) by (simp add: less_eq_div_iff_mult_less_eq)
    then show ?thesis using k assms(2) by (intro exI [of _ a]) simp
  qed
qed (auto intro: div_le_mono)

lemma clipped_interval:
  fixes a :: nat
  assumes "a < n" "0 < w" "n \<le> 16384"
  shows "a \<le> min (min (a + w) u32_max) n - 1"
    and "a \<le> x \<and> x \<le> min (min (a + w) u32_max) n - 1 \<longleftrightarrow> x < n \<and> a \<le> x \<and> x < a + w"
  using assms by (simp_all only: min_def split: if_split) linarith+

lemma set_grid_loop:
  "i \<in> set (concat (map (\<lambda>row. map (\<lambda>column. f row column) [a ..< b + 1]) [c ..< d + 1])) \<longleftrightarrow>
   (\<exists>row column. (c \<le> row \<and> row \<le> d) \<and> (a \<le> column \<and> column \<le> b) \<and> i = f row column)"
proof -
  have "set [c ..< d + 1] = {c .. d}" for c d by auto
  then have "set (concat (map (\<lambda>row. map (\<lambda>column. f row column) [a ..< b + 1]) [c ..< d + 1])) =
      (\<Union>row\<in>{c .. d}. f row ` {a .. b})"
    by (simp only: set_concat set_map image_image)
  then show ?thesis by (simp only: UN_iff image_iff Bex_def atLeastAtMost_iff) metis
qed

lemma set_rect_tiles:
  assumes "wf_geometry g"
  shows "i \<in> set (rect_tiles g r) \<longleftrightarrow>
    (\<exists>x y. x < geo_width g \<and> y < geo_height g \<and> in_rect r x y \<and> tile_of g x y = i)"
proof (cases "rect_width r = 0 \<or> rect_height r = 0 \<or> rect_x r \<ge> geo_width g \<or>
    rect_y r \<ge> geo_height g")
  case True
  then show ?thesis by (auto simp: rect_tiles_def in_rect_def)
next
  case False
  let ?t = "as_pixels (geo_tile_size g)"
  define right where "right = min (min (rect_x r + rect_width r) u32_max) (geo_width g) - 1"
  define bottom where "bottom = min (min (rect_y r + rect_height r) u32_max) (geo_height g) - 1"
  have t: "0 < ?t" by (rule as_pixels_bounds)
  have g: "geo_width g \<le> 16384" "geo_height g \<le> 16384"
    using assms by (simp_all add: wf_geometry_def MAX_DIMENSION_def)
  have x: "rect_x r \<le> right" "\<And>x. rect_x r \<le> x \<and> x \<le> right \<longleftrightarrow>
      x < geo_width g \<and> rect_x r \<le> x \<and> x < rect_x r + rect_width r"
    unfolding right_def using False g by (intro clipped_interval; simp)+
  have y: "rect_y r \<le> bottom" "\<And>y. rect_y r \<le> y \<and> y \<le> bottom \<longleftrightarrow>
      y < geo_height g \<and> rect_y r \<le> y \<and> y < rect_y r + rect_height r"
    unfolding bottom_def using False g by (intro clipped_interval; simp)+
  have "rect_tiles g r = concat (map (\<lambda>row. map (\<lambda>column. row * geo_columns g + column)
      [rect_x r div ?t ..< right div ?t + 1]) [rect_y r div ?t ..< bottom div ?t + 1])"
    using False unfolding rect_tiles_def Let_def right_def bottom_def by (simp only: if_False)
  then have "i \<in> set (rect_tiles g r) \<longleftrightarrow> (\<exists>row column.
      (rect_y r div ?t \<le> row \<and> row \<le> bottom div ?t) \<and>
      (rect_x r div ?t \<le> column \<and> column \<le> right div ?t) \<and> i = row * geo_columns g + column)"
    by (simp only: set_grid_loop)
  also have "\<dots> \<longleftrightarrow> (\<exists>x y. (rect_x r \<le> x \<and> x \<le> right) \<and> (rect_y r \<le> y \<and> y \<le> bottom) \<and>
      tile_of g x y = i)"
    unfolding div_interval_iff [OF t x(1)] div_interval_iff [OF t y(1)] tile_of_def by blast
  also have "\<dots> \<longleftrightarrow>
      (\<exists>x y. x < geo_width g \<and> y < geo_height g \<and> in_rect r x y \<and> tile_of g x y = i)"
    unfolding x(2) y(2) in_rect_def by blast
  finally show ?thesis .
qed

lemma select_tiles_ok:
  assumes "wf_geometry g" "length selected = tile_count g"
  obtains selected' where "select_tiles selected g hint = Ok selected'"
    "length selected' = tile_count g"
    "\<And>i. i < tile_count g \<Longrightarrow> selected' ! i \<longleftrightarrow>
      (hint = None \<or> (\<exists>x y. x < geo_width g \<and> y < geo_height g \<and> hint_covers hint x y
        \<and> tile_of g x y = i))"
proof (cases hint)
  case None
  then show ?thesis
    using assms by (intro that [of "replicate (length selected) True"]) (auto simp: select_tiles_def)
next
  case (Some rects)
  let ?is = "concat (map (rect_tiles g) rects)"
  have set: "i \<in> set ?is \<longleftrightarrow> (\<exists>x y. x < geo_width g \<and> y < geo_height g \<and> hint_covers hint x y
      \<and> tile_of g x y = i)" for i
    unfolding Some hint_covers_def by (auto simp: set_rect_tiles [OF assms(1)] list_ex_iff)
  have "\<forall>i\<in>set ?is. i < length (replicate (length selected) False)"
  proof
    fix i assume "i \<in> set ?is"
    then show "i < length (replicate (length selected) False)"
      using set [of i] tile_of_in_grid [OF assms(1)] assms(2) by (metis length_replicate)
  qed
  from mark_tiles_ok [OF this] obtain selected' where
    "mark_tiles (replicate (length selected) False) ?is = Ok selected'"
    "length selected' = length selected"
    "\<forall>i<length selected. selected' ! i \<longleftrightarrow> i \<in> set ?is"
    by auto
  then show ?thesis
    using set assms(2) Some by (intro that [of selected']) (auto simp: select_tiles_def)
qed

text \<open>The sweep's share of one delta, as a set of tile indices.\<close>

definition sweep_slice :: "encoder \<Rightarrow> nat set" where
  "sweep_slice e =
     (let count = tile_count (enc_geometry e) in
      if enc_refresh_interval e = 0 then {}
      else (\<lambda>step. (enc_sweep e + step) mod count) `
        {..< min (div_ceil count (enc_refresh_interval e)) count})"

lemma sweep_slice_selected [simp]: "sweep_slice (e\<lparr>enc_selected := s\<rparr>) = sweep_slice e"
  by (simp add: sweep_slice_def Let_def)

lemma mark_sweep_ok:
  assumes "wf_encoder e"
  obtains selected' sweep' where
    "mark_sweep e = Ok (e\<lparr>enc_selected := selected', enc_sweep := sweep'\<rparr>)"
    "length selected' = tile_count (enc_geometry e)" "sweep' < tile_count (enc_geometry e)"
    "\<And>i. i < tile_count (enc_geometry e) \<Longrightarrow>
       selected' ! i \<longleftrightarrow> enc_selected e ! i \<or> i \<in> sweep_slice e"
    "0 < enc_refresh_interval e \<Longrightarrow>
       sweep' = (enc_sweep e + div_ceil (tile_count (enc_geometry e)) (enc_refresh_interval e))
         mod tile_count (enc_geometry e)"
proof (cases "enc_refresh_interval e = 0")
  case True
  then show ?thesis
    using assms by (intro that [of "enc_sweep e" "enc_selected e"])
      (auto simp: mark_sweep_def sweep_slice_def wf_encoder_def)
next
  case False
  let ?count = "tile_count (enc_geometry e)"
  let ?slice = "div_ceil ?count (enc_refresh_interval e)"
  let ?is = "map (\<lambda>step. (enc_sweep e + step) mod ?count) [0 ..< min ?slice ?count]"
  have count: "0 < ?count" using assms by (auto simp: wf_encoder_def)
  have "\<forall>i\<in>set ?is. i < length (enc_selected e)"
    using assms count by (auto simp: wf_encoder_def)
  from mark_tiles_ok [OF this] obtain selected' where s:
    "mark_tiles (enc_selected e) ?is = Ok selected'" "length selected' = length (enc_selected e)"
    "\<forall>i<length (enc_selected e). selected' ! i \<longleftrightarrow> enc_selected e ! i \<or> i \<in> set ?is"
    by blast
  have "set ?is = sweep_slice e"
    using False by (simp add: sweep_slice_def Let_def lessThan_atLeast0)
  then show ?thesis
    using s False count assms
    by (intro that [of "(enc_sweep e + ?slice) mod ?count" selected'])
      (simp_all add: mark_sweep_def Let_def wf_encoder_def)
qed

section \<open>What a keyframe and a delta do to the reference\<close>

lemma keyframe_tiles_ok:
  assumes "wf_geometry g" "length frame = pixel_count g"
  shows "\<exists>bs. keyframe_tiles g frame index = Ok bs"
proof (induction "tile_count g - index" arbitrary: index rule: less_induct)
  case less
  show ?case
  proof (cases "tile g index")
    case (Some r)
    have "tile_count g - (index + 1) < tile_count g - index" using tile_SomeD [OF Some] by simp
    from less [OF this] show ?thesis
      using gather_eq [OF tile_fits [OF assms(1) Some] assms(2)] Some
      by (auto simp: keyframe_tiles.simps [of g frame index])
  qed (simp add: keyframe_tiles.simps)
qed

text \<open>
  The tiles a delta compares end up as in the captured frame, the others stay as they were, and
  the delta carries bytes exactly when the reference changes.
\<close>

lemma delta_tiles_ok:
  assumes "wf_geometry g" "length frame = pixel_count g" "length selected = tile_count g"
  shows "length reference = pixel_count g \<Longrightarrow>
    \<exists>bs reference' written. delta_tiles g frame selected reference index =
        Ok (bs, reference', written) \<and>
      length reference' = pixel_count g \<and>
      (written \<longleftrightarrow> reference' \<noteq> reference) \<and> (bs = [] \<longleftrightarrow> \<not> written) \<and>
      (\<forall>j r. tile g j = Some r \<longrightarrow> tile_pixels reference' (geo_width g) r =
         tile_pixels (if index \<le> j \<and> selected ! j then frame else reference) (geo_width g) r)"
proof (induction "tile_count g - index" arbitrary: index reference rule: less_induct)
  case less
  let ?w = "geo_width g"
  show ?case
  proof (cases "tile g index")
    case None
    then have "j < index" if "tile g j = Some r" for j r
      using that tile_SomeD [OF that] tile_eq_Some_iff [of g index] by auto
    with None less.prems show ?thesis
      by (fastforce simp: delta_tiles.simps [of g frame selected reference index])
  next
    case (Some r)
    have i: "index < tile_count g" "tile_count g - (index + 1) < tile_count g - index"
      using tile_SomeD [OF Some] by simp_all
    note fits = tile_fits [OF assms(1) Some]
    note unfold = delta_tiles.simps [of g frame selected reference index]
    note ops = gather_eq [OF fits assms(2)] gather_eq [OF fits less.prems]
      differs_eq [OF fits assms(2) less.prems]
    show ?thesis
    proof (cases "selected ! index \<and> tile_pixels frame ?w r \<noteq> tile_pixels reference ?w r")
      case False
      then have "delta_tiles g frame selected reference index =
          delta_tiles g frame selected reference (index + 1)"
        using Some i assms(3) ops by (auto simp: unfold index_at_def)
      moreover have "tile_pixels (if index \<le> j \<and> selected ! j then frame else reference) ?w q =
          tile_pixels (if index + 1 \<le> j \<and> selected ! j then frame else reference) ?w q"
        if "tile g j = Some q" for j q
        using that Some False by (cases "j = index") auto
      ultimately show ?thesis using less.hyps [OF i(2) less.prems] by simp
    next
      case True
      let ?ref = "paste reference ?w r (tile_pixels frame ?w r)"
      have sc: "scatter reference g r (tile_pixels frame ?w r) = Ok ?ref"
        by (rule scatter_eq [OF fits less.prems]) simp
      have len: "length ?ref = pixel_count g" using less.prems by simp
      have here: "tile_pixels ?ref ?w r = tile_pixels frame ?w r"
        using tile_pixels_paste [OF fits, of reference] less.prems by (simp add: pixel_count_def)
      have other: "tile_pixels ?ref ?w q = tile_pixels reference ?w q"
        if "tile g j = Some q" "j \<noteq> index" for j q
        using tile_pixels_paste_other [OF tile_fits [OF assms(1) that(1)], of reference]
          tiles_disjoint [OF assms(1) Some that(1)] that(2) less.prems
        by (metis pixel_count_def)
      from less.hyps [OF i(2) len] obtain bs ref' w where IH:
        "delta_tiles g frame selected ?ref (index + 1) = Ok (bs, ref', w)"
        "length ref' = pixel_count g"
        "\<And>j q. tile g j = Some q \<Longrightarrow> tile_pixels ref' ?w q =
           tile_pixels (if index + 1 \<le> j \<and> selected ! j then frame else ?ref) ?w q"
        by blast
      have new: "tile_pixels ref' ?w q =
          tile_pixels (if index \<le> j \<and> selected ! j then frame else reference) ?w q"
        if "tile g j = Some q" for j q
        using that IH(3) [OF that] True here other [OF that] Some by (cases "j = index") auto
      moreover have "ref' \<noteq> reference" using new [OF Some] True by auto
      ultimately show ?thesis
        using True Some i assms(3) ops sc IH(1,2)
        by (simp add: unfold index_at_def write_tile_def Let_def split: prod.splits)
    qed
  qed
qed

text \<open>The tiles a delta compares: those with a hinted pixel and the sweep's share.\<close>

definition compared :: "encoder \<Rightarrow> rect list option \<Rightarrow> nat \<Rightarrow> bool" where
  "compared e hint i \<longleftrightarrow>
     hint = None \<or> i \<in> sweep_slice e \<or>
     (\<exists>x<geo_width (enc_geometry e). \<exists>y<geo_height (enc_geometry e).
        hint_covers hint x y \<and> tile_of (enc_geometry e) x y = i)"

lemma encode_keyframe_ok:
  assumes "wf_encoder e"
  obtains bs where "keyframe_tiles (enc_geometry e) (st_frame (enc_staging e)) 0 = Ok bs"
    "encode_keyframe e = Ok (e\<lparr>enc_output := write_header True (enc_geometry e) @ bs,
       enc_reference := st_frame (enc_staging e), enc_has_reference := True, enc_sweep := 0,
       enc_staging := keyframe_sent (enc_staging e)\<rparr>)"
proof -
  obtain bs where "keyframe_tiles (enc_geometry e) (st_frame (enc_staging e)) 0 = Ok bs"
    using keyframe_tiles_ok [of "enc_geometry e" "st_frame (enc_staging e)" 0] assms
    by (auto simp: wf_encoder_def)
  then show ?thesis
    using assms by (intro that [of bs])
      (auto simp: encode_keyframe_def wf_encoder_def copy_slice_def splice_def)
qed

lemma encode_delta_ok:
  assumes "wf_encoder e"
  obtains selected sweep bs reference written where
    "encode_delta e hint = Ok (written,
       e\<lparr>enc_selected := selected, enc_sweep := sweep,
         enc_output := write_header False (enc_geometry e) @ bs, enc_reference := reference\<rparr>)"
    "delta_tiles (enc_geometry e) (st_frame (enc_staging e)) selected (enc_reference e) 0 =
       Ok (bs, reference, written)"
    "length selected = tile_count (enc_geometry e)" "sweep < tile_count (enc_geometry e)"
    "0 < enc_refresh_interval e \<Longrightarrow>
       sweep = (enc_sweep e + div_ceil (tile_count (enc_geometry e)) (enc_refresh_interval e))
         mod tile_count (enc_geometry e)"
    "length reference = pixel_count (enc_geometry e)"
    "written \<longleftrightarrow> reference \<noteq> enc_reference e"
    "\<And>j r. tile (enc_geometry e) j = Some r \<Longrightarrow>
       tile_pixels reference (geo_width (enc_geometry e)) r =
       tile_pixels (if compared e hint j then st_frame (enc_staging e) else enc_reference e)
         (geo_width (enc_geometry e)) r"
proof -
  let ?g = "enc_geometry e" and ?f = "st_frame (enc_staging e)"
  have wf: "wf_geometry ?g" "length ?f = pixel_count ?g" "length (enc_reference e) = pixel_count ?g"
    "length (enc_selected e) = tile_count ?g"
    using assms by (simp_all add: wf_encoder_def)
  obtain sel where sel: "select_tiles (enc_selected e) ?g hint = Ok sel"
    "length sel = tile_count ?g"
    "\<And>i. i < tile_count ?g \<Longrightarrow> sel ! i \<longleftrightarrow> (hint = None \<or> (\<exists>x y. x < geo_width ?g \<and>
        y < geo_height ?g \<and> hint_covers hint x y \<and> tile_of ?g x y = i))"
    using select_tiles_ok [OF wf(1,4)] by metis
  have "wf_encoder (e\<lparr>enc_selected := sel\<rparr>)"
    using assms sel(2) by (simp add: wf_encoder_def)
  note swept = mark_sweep_ok [OF this, simplified]
  obtain sel' sweep where sw:
    "mark_sweep (e\<lparr>enc_selected := sel\<rparr>) = Ok (e\<lparr>enc_selected := sel', enc_sweep := sweep\<rparr>)"
    "length sel' = tile_count ?g" "sweep < tile_count ?g"
    "\<And>i. i < tile_count ?g \<Longrightarrow> sel' ! i \<longleftrightarrow> sel ! i \<or> i \<in> sweep_slice e"
    "0 < enc_refresh_interval e \<Longrightarrow> sweep =
      (enc_sweep e + div_ceil (tile_count ?g) (enc_refresh_interval e)) mod tile_count ?g"
    by (rule swept) (rule that; assumption)
  from delta_tiles_ok [OF wf(1,2) sw(2) wf(3), of 0] obtain bs reference written where d:
    "delta_tiles ?g ?f sel' (enc_reference e) 0 = Ok (bs, reference, written)"
    "length reference = pixel_count ?g" "written \<longleftrightarrow> reference \<noteq> enc_reference e"
    "\<And>j r. tile ?g j = Some r \<Longrightarrow> tile_pixels reference (geo_width ?g) r =
         tile_pixels (if sel' ! j then ?f else enc_reference e) (geo_width ?g) r"
    by auto
  have cmp: "sel' ! j \<longleftrightarrow> compared e hint j" if "tile ?g j = Some r" for j r
    using sel(3) sw(4) tile_SomeD [OF that] by (auto simp: compared_def)
  show ?thesis
  proof (rule that [OF _ d(1) sw(2,3,5) d(2,3)])
    show "encode_delta e hint = Ok (written,
       e\<lparr>enc_selected := sel', enc_sweep := sweep,
         enc_output := write_header False ?g @ bs, enc_reference := reference\<rparr>)"
      using sel(1) sw(1) d(1) by (simp add: encode_delta_def)
  qed (use d(4) cmp in auto)
qed

section \<open>The next payload\<close>

lemma next_cursor_payload_frame:
  assumes "next_cursor_payload e = (p, e')"
  shows "\<exists>img pos. e' = e\<lparr>enc_staging := (enc_staging e)\<lparr>st_cursor_image_pending := img,
      st_cursor_position_pending := pos\<rparr>\<rparr>"
    and "p = None \<or> (\<exists>bs. p = Some (CursorImage bs) \<or> p = Some (CursorPosition bs))"
proof -
  let ?s = "enc_staging e"
  have "e' = e\<lparr>enc_staging := ?s\<lparr>st_cursor_image_pending := False,
      st_cursor_position_pending := st_cursor_position_pending ?s \<and> st_cursor_image_pending ?s\<rparr>\<rparr>"
    using assms by (cases "st_cursor_image_pending ?s"; cases "st_cursor_position_pending ?s")
      (auto simp: next_cursor_payload_def take_cursor_image_def take_cursor_position_def Let_def
        intro!: encoder.equality staging.equality)
  then show "\<exists>img pos. e' = e\<lparr>enc_staging := (enc_staging e)\<lparr>st_cursor_image_pending := img,
      st_cursor_position_pending := pos\<rparr>\<rparr>"
    by blast
  show "p = None \<or> (\<exists>bs. p = Some (CursorImage bs) \<or> p = Some (CursorPosition bs))"
    using assms by (auto simp: next_cursor_payload_def take_cursor_image_def
        take_cursor_position_def Let_def split: if_splits)
qed

text \<open>
  What one call of \<open>next_payload\<close> does, as far as the frame goes: the fields that decide what the
  next payloads are built on. It never panics on an encoder in its invariant.
\<close>

definition frame_step :: "encoder \<Rightarrow> encoder \<Rightarrow> bool" where
  "frame_step e e' \<longleftrightarrow>
     wf_encoder e' \<and> enc_geometry e' = enc_geometry e \<and>
     enc_refresh_interval e' = enc_refresh_interval e \<and>
     st_frame (enc_staging e') = st_frame (enc_staging e) \<and>
     \<not> st_frame_pending (enc_staging e') \<and>
     st_hint (enc_staging e') =
       (if st_frame_pending (enc_staging e) then Some [] else st_hint (enc_staging e))"

definition delta_outcome :: "encoder \<Rightarrow> encoder \<Rightarrow> bool" where
  "delta_outcome e e' \<longleftrightarrow>
     enc_has_reference e' = enc_has_reference e \<and>
     (if st_frame_pending (enc_staging e)
      then enc_has_reference e \<and>
        (0 < enc_refresh_interval e \<longrightarrow> enc_sweep e' =
          (enc_sweep e + div_ceil (tile_count (enc_geometry e)) (enc_refresh_interval e))
            mod tile_count (enc_geometry e)) \<and>
        (\<forall>j r. tile (enc_geometry e) j = Some r \<longrightarrow>
          tile_pixels (enc_reference e') (geo_width (enc_geometry e)) r =
          tile_pixels (if compared e (st_hint (enc_staging e)) j
            then st_frame (enc_staging e) else enc_reference e) (geo_width (enc_geometry e)) r)
      else enc_reference e' = enc_reference e \<and> enc_sweep e' = enc_sweep e)"

lemma compared_staging [simp]: "compared (e\<lparr>enc_staging := s\<rparr>) = compared e"
  by (intro ext) (simp add: compared_def sweep_slice_def Let_def)

text \<open>The encoder once the staged frame is taken.\<close>

definition frame_taken :: "encoder \<Rightarrow> encoder" where
  "frame_taken e = e\<lparr>enc_staging := snd (take_frame (enc_staging e))\<rparr>"

lemma frame_taken_simps [simp]:
  "enc_geometry (frame_taken e) = enc_geometry e" "enc_reference (frame_taken e) = enc_reference e"
  "enc_has_reference (frame_taken e) = enc_has_reference e" "enc_selected (frame_taken e) = enc_selected e"
  "enc_refresh_interval (frame_taken e) = enc_refresh_interval e" "enc_sweep (frame_taken e) = enc_sweep e"
  "compared (frame_taken e) = compared e"
  "st_frame (enc_staging (frame_taken e)) = st_frame (enc_staging e)"
  "\<not> st_frame_pending (enc_staging (frame_taken e))"
  "st_keyframe_requested (enc_staging (frame_taken e)) = st_keyframe_requested (enc_staging e)"
  "st_hint (enc_staging (frame_taken e)) =
     (if st_frame_pending (enc_staging e) then Some [] else st_hint (enc_staging e))"
  by (simp_all add: frame_taken_def take_frame_def)

lemma wf_frame_taken [simp]: "wf_encoder (frame_taken e) = wf_encoder e"
  by (simp add: wf_encoder_def)

lemma next_payload_frame_taken:
  "next_payload e =
     (if st_frame_pending (enc_staging e) then
        if keyframe_due (frame_taken e) then
          obind (encode_keyframe (frame_taken e)) (\<lambda>e'. Ok (Some (Keyframe (enc_output e')), e'))
        else obind (encode_delta (frame_taken e) (st_hint (enc_staging e))) (\<lambda>(written, e').
          if written then Ok (Some (TileDelta (enc_output e')), e')
          else Ok (next_cursor_payload e'))
      else if st_keyframe_requested (enc_staging e) \<and> enc_has_reference e then
        obind (encode_keyframe (frame_taken e)) (\<lambda>e'. Ok (Some (Keyframe (enc_output e')), e'))
      else Ok (next_cursor_payload (frame_taken e)))"
  by (simp add: next_payload_def take_frame_def frame_taken_def Let_def)

definition keyframe_next :: "encoder \<Rightarrow> bool" where
  "keyframe_next e \<longleftrightarrow>
     (if st_frame_pending (enc_staging e)
      then \<not> enc_has_reference e \<or> st_keyframe_requested (enc_staging e)
      else enc_has_reference e \<and> st_keyframe_requested (enc_staging e))"

lemma next_payload_keyframe:
  assumes "wf_encoder e" "keyframe_next e"
  obtains bs e' where
    "next_payload e = Ok (Some (Keyframe (write_header True (enc_geometry e) @ bs)), e')"
    "keyframe_tiles (enc_geometry e) (st_frame (enc_staging e)) 0 = Ok bs"
    "enc_reference e' = st_frame (enc_staging e)" "enc_has_reference e'" "enc_sweep e' = 0"
    "\<not> st_keyframe_requested (enc_staging e')" "frame_step e e'"
proof -
  have "wf_encoder (frame_taken e)" using assms by simp
  then obtain bs where k: "keyframe_tiles (enc_geometry e) (st_frame (enc_staging e)) 0 = Ok bs"
    "encode_keyframe (frame_taken e) = Ok ((frame_taken e)\<lparr>enc_output := write_header True (enc_geometry e) @ bs,
       enc_reference := st_frame (enc_staging e), enc_has_reference := True, enc_sweep := 0,
       enc_staging := keyframe_sent (enc_staging (frame_taken e))\<rparr>)" (is "_ = Ok ?e'")
    by (metis encode_keyframe_ok frame_taken_simps(1,8))
  have "next_payload e = Ok (Some (Keyframe (write_header True (enc_geometry e) @ bs)), ?e')"
    using assms(2) k(2)
    by (cases "st_frame_pending (enc_staging e)")
      (simp_all add: next_payload_frame_taken keyframe_next_def keyframe_due_def)
  moreover have "frame_step e ?e'"
    using assms(1) geometry_bounds(3)
    by (simp add: frame_step_def wf_encoder_def keyframe_sent_def)
  ultimately show ?thesis using k(1) by (rule_tac that) (simp_all add: keyframe_sent_def)
qed

lemma cursor_tail_frame:
  assumes "next_cursor_payload e = (p, e')"
  shows "delta_outcome e0 e \<Longrightarrow> delta_outcome e0 e'" "frame_step e0 e \<Longrightarrow> frame_step e0 e'"
    and "enc_reference e' = enc_reference e" "enc_has_reference e' = enc_has_reference e"
proof -
  obtain img pos where "e' = e\<lparr>enc_staging := (enc_staging e)\<lparr>st_cursor_image_pending := img,
      st_cursor_position_pending := pos\<rparr>\<rparr>"
    using next_cursor_payload_frame(1) [OF assms] by blast
  then show "delta_outcome e0 e \<Longrightarrow> delta_outcome e0 e'" "frame_step e0 e \<Longrightarrow> frame_step e0 e'"
    "enc_reference e' = enc_reference e" "enc_has_reference e' = enc_has_reference e"
    by (auto simp: delta_outcome_def frame_step_def wf_encoder_def)
qed

lemma next_payload_cases:
  assumes "wf_encoder e"
  obtains (keyframe) bs e' where
      "next_payload e = Ok (Some (Keyframe (write_header True (enc_geometry e) @ bs)), e')"
      "keyframe_tiles (enc_geometry e) (st_frame (enc_staging e)) 0 = Ok bs"
      "enc_reference e' = st_frame (enc_staging e)" "enc_has_reference e'" "enc_sweep e' = 0"
      "\<not> st_keyframe_requested (enc_staging e')" "frame_step e e'"
  | (delta) selected bs e' where
      "next_payload e = Ok (Some (TileDelta (write_header False (enc_geometry e) @ bs)), e')"
      "length selected = tile_count (enc_geometry e)"
      "delta_tiles (enc_geometry e) (st_frame (enc_staging e)) selected (enc_reference e) 0 =
         Ok (bs, enc_reference e', True)"
      "enc_has_reference e" "st_frame_pending (enc_staging e)" "frame_step e e'" "delta_outcome e e'"
  | (cursor) p e' where
      "next_payload e = Ok (p, e')"
      "p = None \<or> (\<exists>bs. p = Some (CursorImage bs) \<or> p = Some (CursorPosition bs))"
      "enc_reference e' = enc_reference e" "enc_has_reference e' = enc_has_reference e"
      "frame_step e e'" "delta_outcome e e'"
proof (cases "keyframe_next e")
  case True
  then show ?thesis using next_payload_keyframe [OF assms] keyframe by metis
next
  case nokey: False
  show ?thesis
  proof (cases "st_frame_pending (enc_staging e)")
    case False
    obtain p e' where c: "next_cursor_payload (frame_taken e) = (p, e')" by force
    have "frame_step e (frame_taken e)" "delta_outcome e (frame_taken e)"
      using assms False by (simp_all add: frame_step_def delta_outcome_def)
    moreover have "next_payload e = Ok (p, e')"
      using False nokey c by (auto simp: next_payload_frame_taken keyframe_next_def)
    ultimately show ?thesis
      using cursor_tail_frame [OF c] next_cursor_payload_frame(2) [OF c]
      by (intro cursor [of p e']) simp_all
  next
    case True
    then have ref: "enc_has_reference e" "\<not> keyframe_due (frame_taken e)"
      using nokey by (simp_all add: keyframe_next_def keyframe_due_def)
    have "wf_encoder (frame_taken e)" using assms by simp
    then show ?thesis
    proof (rule encode_delta_ok [of _ "st_hint (enc_staging e)"], unfold frame_taken_simps)
      fix selected sweep bs reference written
      let ?e' = "(frame_taken e)\<lparr>enc_selected := selected, enc_sweep := sweep,
             enc_output := write_header False (enc_geometry e) @ bs, enc_reference := reference\<rparr>"
      assume d: "encode_delta (frame_taken e) (st_hint (enc_staging e)) = Ok (written, ?e')"
        "delta_tiles (enc_geometry e) (st_frame (enc_staging e)) selected (enc_reference e) 0 =
           Ok (bs, reference, written)" "length selected = tile_count (enc_geometry e)"
        and w: "written \<longleftrightarrow> reference \<noteq> enc_reference e"
        and rest: "sweep < tile_count (enc_geometry e)"
        "0 < enc_refresh_interval e \<Longrightarrow>
           sweep = (enc_sweep e + div_ceil (tile_count (enc_geometry e)) (enc_refresh_interval e))
             mod tile_count (enc_geometry e)"
        "length reference = pixel_count (enc_geometry e)"
        "\<And>j r. tile (enc_geometry e) j = Some r \<Longrightarrow>
           tile_pixels reference (geo_width (enc_geometry e)) r =
           tile_pixels (if compared e (st_hint (enc_staging e)) j
             then st_frame (enc_staging e) else enc_reference e) (geo_width (enc_geometry e)) r"
      have step: "frame_step e ?e'" "delta_outcome e ?e'"
        using d(3) rest assms True ref
        by (simp_all add: frame_step_def delta_outcome_def wf_encoder_def)
      show ?thesis
      proof (cases written)
        case yes: True
        then have "next_payload e =
            Ok (Some (TileDelta (write_header False (enc_geometry e) @ bs)), ?e')"
          using True ref d(1) by (simp add: next_payload_frame_taken)
        then show ?thesis using d yes True ref step by (intro delta) simp_all
      next
        case no: False
        obtain p e'' where c: "next_cursor_payload ?e' = (p, e'')" by force
        have "next_payload e = Ok (p, e'')"
          using no True ref d(1) c by (simp add: next_payload_frame_taken)
        then show ?thesis
          using cursor_tail_frame [OF c] next_cursor_payload_frame(2) [OF c] no w step
          by (intro cursor [of p e'']) simp_all
      qed
    qed
  qed
qed

end
