(* ===== verification/Decoder.thy ===== *)
theory Decoder
  imports Container Cursor Frame_Tiles
begin

unbundle bit_operations_syntax

text \<open>
  The decoding half of the codec (\<open>display-codec/src/decoder.rs\<close>). Its input arrives from another
  machine, so the model keeps every offset and every slice of the source. A payload that fails
  half-way leaves the tiles before the failure applied: the loops therefore return the frame and
  the damage list beside their result, also when the result is an error. The tile buffer is
  cleared for each tile and is a local value here.
\<close>

section \<open>Definitions\<close>

record decoder =
  dec_geometry :: geometry
  dec_frame :: bytes
  dec_has_frame :: bool
  dec_damage :: "rect list"

definition decoder_new :: "geometry \<Rightarrow> decoder" where
  "decoder_new g =
     \<lparr>dec_geometry = g, dec_frame = replicate (frame_bytes g) 0, dec_has_frame = False,
      dec_damage = []\<rparr>"

fun decoder_scatter_rows ::
  "bytes \<Rightarrow> nat \<Rightarrow> rect \<Rightarrow> u32 list \<Rightarrow> bool \<Rightarrow> nat list \<Rightarrow> (CodecError, bytes) outcome" where
  "decoder_scatter_rows frame width r pixels diff [] = Ok frame"
| "decoder_scatter_rows frame width r pixels diff (row # rows) =
     (let start = (rect_y r + row) * (width * 4) + rect_x r * 4;
          stop = start + rect_width r * 4 in
      obind (slice frame start stop) (\<lambda>target.
        obind (slice pixels (row * rect_width r) ((row + 1) * rect_width r)) (\<lambda>source.
          obind (copy_slice frame start stop
              (pixels_to_le (if diff then map2 (XOR) source (pixels_from_le target) else source)))
            (\<lambda>frame'. decoder_scatter_rows frame' width r pixels diff rows))))"

definition decoder_scatter ::
  "geometry \<Rightarrow> bytes \<Rightarrow> rect \<Rightarrow> u32 list \<Rightarrow> bool \<Rightarrow> (CodecError, bytes) outcome" where
  "decoder_scatter g frame r pixels diff =
     decoder_scatter_rows frame (geo_width g) r pixels diff [0 ..< rect_height r]"

text \<open>The pixels of one tile record under its method, and the bytes the record took.\<close>

definition tile_body :: "bytes \<Rightarrow> Method \<Rightarrow> nat \<Rightarrow> (CodecError, nat \<times> u32 list) outcome" where
  "tile_body bs method pixels =
     (case method of
        Raw \<Rightarrow>
          obind (ok_or (get_range bs 1 (1 + pixels * 4)) Truncated) (\<lambda>raw.
            Ok (1 + pixels * 4, pixels_from_le raw))
      | _ \<Rightarrow>
          obind (slice_from bs 1) (\<lambda>tail. obind (varint_read tail) (\<lambda>(len, width).
            let start = 1 + width; stop = start + unat len in
            obind (ok_or (get_range bs start stop) Truncated) (\<lambda>stream.
              obind (zrle_decode stream pixels) (\<lambda>px. Ok (stop, px))))))"

text \<open>One tile record: the bytes it took and the frame with the tile written into it.\<close>

definition read_tile ::
  "geometry \<Rightarrow> bytes \<Rightarrow> bytes \<Rightarrow> rect \<Rightarrow> bool \<Rightarrow> (CodecError, nat \<times> bytes) outcome" where
  "read_tile g frame bs r diff =
     obind (ok_or (case bs of [] \<Rightarrow> None | b # _ \<Rightarrow> Some b) Truncated) (\<lambda>first.
       obind (method_from_byte first) (\<lambda>method.
         if method = XorZrle \<and> \<not> diff then Err (UnknownMethod (method_as_byte method))
         else
           obind (tile_body bs method (rect_width r * rect_height r)) (\<lambda>(taken, px).
             obind (decoder_scatter g frame r px (method = XorZrle)) (\<lambda>frame'.
               Ok (taken, frame')))))"

function keyframe_loop ::
  "geometry \<Rightarrow> bytes \<Rightarrow> nat \<Rightarrow> nat \<Rightarrow> bytes \<Rightarrow> rect list \<Rightarrow>
   (CodecError, nat) outcome \<times> bytes \<times> rect list" where
  "keyframe_loop g body offset index frame damage =
     (case tile g index of
        None \<Rightarrow> (Ok offset, frame, damage)
      | Some r \<Rightarrow>
          (case obind (slice_from body offset) (\<lambda>tail. read_tile g frame tail r False) of
             Ok (taken, frame') \<Rightarrow>
               keyframe_loop g body (offset + taken) (index + 1) frame' (damage @ [r])
           | Err err \<Rightarrow> (Err err, frame, damage)
           | Panic \<Rightarrow> (Panic, frame, damage)))"
  by pat_completeness auto
termination
  by (relation "measure (\<lambda>(g, body, offset, index, frame, damage). tile_count g - index)")
    (auto simp: tile_def split: if_splits)

declare keyframe_loop.simps [simp del]

definition apply_keyframe :: "decoder \<Rightarrow> bytes \<Rightarrow> (CodecError, rect list) outcome \<times> decoder" where
  "apply_keyframe d payload =
     (case read_header payload (dec_geometry d) of
        Err err \<Rightarrow> (Err err, d)
      | Panic \<Rightarrow> (Panic, d)
      | Ok (keyframe, body) \<Rightarrow>
          if \<not> keyframe then (Err WrongPayloadKind, d)
          else (case keyframe_loop (dec_geometry d) body 0 0 (dec_frame d) [] of
              (result, frame, damage) \<Rightarrow>
                let d' = d\<lparr>dec_frame := frame, dec_damage := damage\<rparr> in
                (case result of
                   Err err \<Rightarrow> (Err err, d')
                 | Panic \<Rightarrow> (Panic, d')
                 | Ok offset \<Rightarrow>
                     if offset \<noteq> length body then (Err TrailingBytes, d')
                     else (Ok damage, d'\<lparr>dec_has_frame := True\<rparr>))))"

text \<open>One tile of a delta: its index, checked against the grid and the tile before it.\<close>

definition delta_step ::
  "geometry \<Rightarrow> bytes \<Rightarrow> nat \<Rightarrow> u32 option \<Rightarrow> bytes \<Rightarrow>
   (CodecError, nat \<times> u32 \<times> rect \<times> bytes) outcome" where
  "delta_step g body offset previous frame =
     obind (slice_from body offset) (\<lambda>tail. obind (varint_read tail) (\<lambda>(index, width).
       let offset' = offset + width in
       obind (ok_or (tile g (unat index)) (TileIndexOutOfRange index)) (\<lambda>r.
         if (case previous of None \<Rightarrow> False | Some p \<Rightarrow> index \<le> p)
           then Err (TileIndexNotIncreasing index)
         else obind (slice_from body offset') (\<lambda>tail'.
           obind (read_tile g frame tail' r True) (\<lambda>(taken, frame').
             Ok (offset' + taken, index, r, frame'))))))"

lemma delta_step_advances:
  "delta_step g body offset previous frame = Ok (offset', index, r, frame') \<Longrightarrow> offset < offset'"
  by (auto simp: delta_step_def Let_def split: if_splits dest!: varint_read_bounds)

function delta_loop ::
  "geometry \<Rightarrow> bytes \<Rightarrow> nat \<Rightarrow> u32 option \<Rightarrow> bytes \<Rightarrow> rect list \<Rightarrow>
   (CodecError, unit) outcome \<times> bytes \<times> rect list" where
  "delta_loop g body offset previous frame damage =
     (if offset < length body then
        (case delta_step g body offset previous frame of
           Ok (offset', index, r, frame') \<Rightarrow>
             delta_loop g body offset' (Some index) frame' (damage @ [r])
         | Err err \<Rightarrow> (Err err, frame, damage)
         | Panic \<Rightarrow> (Panic, frame, damage))
      else (Ok (), frame, damage))"
  by pat_completeness auto
termination
  by (relation "measure (\<lambda>(g, body, offset, previous, frame, damage). length body - offset)")
    (auto dest: delta_step_advances)

declare delta_loop.simps [simp del]

definition apply_delta :: "decoder \<Rightarrow> bytes \<Rightarrow> (CodecError, rect list) outcome \<times> decoder" where
  "apply_delta d payload =
     (case read_header payload (dec_geometry d) of
        Err err \<Rightarrow> (Err err, d)
      | Panic \<Rightarrow> (Panic, d)
      | Ok (keyframe, body) \<Rightarrow>
          if keyframe then (Err WrongPayloadKind, d)
          else if \<not> dec_has_frame d then (Err NoBase, d)
          else (case delta_loop (dec_geometry d) body 0 None (dec_frame d) [] of
              (result, frame, damage) \<Rightarrow>
                let d' = d\<lparr>dec_frame := frame, dec_damage := damage\<rparr> in
                (case result of
                   Err err \<Rightarrow> (Err err, d')
                 | Panic \<Rightarrow> (Panic, d')
                 | Ok _ \<Rightarrow> (Ok damage, d'))))"

definition decode_cursor_image :: "bytes \<Rightarrow> (CodecError, cursor_image) outcome" where
  "decode_cursor_image payload = read_image payload"

definition decode_cursor_position :: "bytes \<Rightarrow> (CodecError, cursor_position) outcome" where
  "decode_cursor_position payload = read_position payload"

section \<open>The frame as pixels\<close>

text \<open>
  The viewer's frame is bytes; the encoder's is pixels. Writing a tile into the one is writing it
  into the other.
\<close>

lemma decoder_scatter_rows_snoc:
  "decoder_scatter_rows frame width r pixels diff (rows @ [row]) =
   obind (decoder_scatter_rows frame width r pixels diff rows) (\<lambda>frame'.
     decoder_scatter_rows frame' width r pixels diff [row])"
proof (induction rows arbitrary: frame)
  case (Cons a rows)
  then show ?case
    by (simp add: Let_def slice_def copy_slice_def del: decoder_scatter_rows.simps(2))
      (simp add: Let_def slice_def copy_slice_def)
qed simp

text \<open>Rows above the current one do not touch it.\<close>

lemma row_below_paste:
  assumes "rect_x r + rect_width r \<le> width" "0 < rect_width r"
    and "(rect_y r + n) * width + rect_x r + rect_width r \<le> length frame"
  shows "take (rect_width r) (drop ((rect_y r + n) * width + rect_x r)
      (paste frame width (r\<lparr>rect_height := n\<rparr>) pixels)) =
    take (rect_width r) (drop ((rect_y r + n) * width + rect_x r) frame)"
    (is "take ?w (drop ?s ?p) = _")
proof (rule nth_equalityI)
  fix j assume "j < length (take ?w (drop ?s ?p))"
  then have j: "j < ?w" by simp
  then have i: "?s + j < length frame" using assms(3) by simp
  have "?s + j = (rect_y r + n) * width + (rect_x r + j)" by simp
  then have "(?s + j) div width = rect_y r + n"
    using j assms(1) by (simp only:) simp
  then show "take ?w (drop ?s ?p) ! j = take ?w (drop ?s frame) ! j"
    using i j by (simp add: nth_paste in_rect_def)
qed simp

lemma take_drop_map2:
  "take k (drop n (map2 f xs ys)) = map2 f (take k (drop n xs)) (take k (drop n ys))"
  by (simp add: drop_map take_map drop_zip take_zip)

lemma take_drop_tile_pixels:
  assumes "rect_x r + rect_width r \<le> width" "0 < rect_width r" "n < rect_height r"
    and "(rect_y r + n) * width + rect_x r + rect_width r \<le> length frame"
  shows "take (rect_width r) (drop (n * rect_width r) (tile_pixels frame width r)) =
    take (rect_width r) (drop ((rect_y r + n) * width + rect_x r) frame)"
proof (rule nth_equalityI)
  have "Suc n * rect_width r \<le> rect_height r * rect_width r"
    using assms(3) by (intro mult_le_mono1) simp
  then have len: "n * rect_width r + rect_width r \<le> rect_height r * rect_width r" by simp
  then show "length (take (rect_width r) (drop (n * rect_width r) (tile_pixels frame width r))) =
      length (take (rect_width r) (drop ((rect_y r + n) * width + rect_x r) frame))"
    using assms(4) by (simp only: length_take_drop length_tile_pixels)
  fix j assume "j < length (take (rect_width r) (drop (n * rect_width r) (tile_pixels frame width r)))"
  then have j: "j < rect_width r" by simp
  then have "n * rect_width r + j < rect_height r * rect_width r" using len by simp
  then show "take (rect_width r) (drop (n * rect_width r) (tile_pixels frame width r)) ! j =
      take (rect_width r) (drop ((rect_y r + n) * width + rect_x r) frame) ! j"
    using j assms(3,4) by (simp add: tile_pixels_def)
qed

lemma decoder_scatter_rows_eq:
  fixes diff :: bool
  assumes fits: "rect_fits width height r" and len: "length frame = width * height"
    and px: "length pixels = rect_height r * rect_width r"
    and n: "n \<le> rect_height r"
  defines "new \<equiv> if diff then map2 (XOR) pixels (tile_pixels frame width r) else pixels"
  shows "decoder_scatter_rows (pixels_to_le frame) width r pixels diff [0 ..< n] =
    Ok (pixels_to_le (paste frame width (r\<lparr>rect_height := n\<rparr>) new))"
  using n
proof (induction n)
  case 0
  have "paste frame width (r\<lparr>rect_height := 0\<rparr>) new = frame"
    by (rule nth_equalityI) (auto simp: paste_def in_rect_def)
  then show ?case by simp
next
  case (Suc n)
  let ?w = "rect_width r"
  let ?s = "(rect_y r + n) * width + rect_x r"
  let ?f = "paste frame width (r\<lparr>rect_height := n\<rparr>) new"
  have w: "rect_x r + ?w \<le> width" "0 < ?w" and h: "rect_y r + n < height"
    using fits Suc.prems by (auto simp: rect_fits_def)
  have s: "?s + ?w \<le> length frame"
    using row_fits [OF h w(1) len] by simp
  have new: "length new = length pixels"
    using px by (simp add: new_def)
  have "Suc n * ?w \<le> rect_height r * ?w"
    using Suc.prems by (intro mult_le_mono1)
  then have row: "Suc n * ?w \<le> length pixels" "Suc n * ?w \<le> length new"
    using px new by simp_all
  have bytes: "(rect_y r + n) * (width * 4) + rect_x r * 4 = 4 * ?s"
    by (simp add: distrib_left mult.commute mult.left_commute)
  have target: "slice (pixels_to_le ?f) (4 * ?s) (4 * ?s + ?w * 4) =
      (Ok (pixels_to_le (take ?w (drop ?s frame))) :: (CodecError, bytes) outcome)"
    using s row_below_paste [OF w s, of new] slice_pixels_to_le [of ?s ?w ?f] by simp
  have source: "slice pixels (n * ?w) ((n + 1) * ?w) =
      (Ok (take ?w (drop (n * ?w) pixels)) :: (CodecError, u32 list) outcome)"
    using row by (simp add: slice_def)
  have written: "(if diff then map2 (XOR) (take ?w (drop (n * ?w) pixels))
        (pixels_from_le (pixels_to_le (take ?w (drop ?s frame))))
      else take ?w (drop (n * ?w) pixels)) = take ?w (drop (n * ?w) new)"
    using take_drop_tile_pixels [OF w _ s] Suc.prems by (simp add: new_def take_drop_map2)
  have "copy_slice (pixels_to_le ?f) (4 * ?s) (4 * ?s + ?w * 4)
      (pixels_to_le (take ?w (drop (n * ?w) new))) =
      (Ok (pixels_to_le (paste frame width (r\<lparr>rect_height := Suc n\<rparr>) new))
        :: (CodecError, bytes) outcome)"
    using s row paste_Suc [OF w s row(2)]
      splice_pixels_to_le [of ?f ?s "take ?w (drop (n * ?w) new)"]
    by (simp add: copy_slice_def)
  then show ?case
    using Suc target source written
    by (simp add: decoder_scatter_rows_snoc Let_def bytes del: mult_Suc split del: if_split)
qed

lemma decoder_scatter_eq:
  assumes "rect_fits (geo_width g) (geo_height g) r" "length frame = pixel_count g"
    and "length pixels = rect_height r * rect_width r"
  shows "decoder_scatter g (pixels_to_le frame) r pixels diff =
    Ok (pixels_to_le (paste frame (geo_width g) r
      (if diff then map2 (XOR) pixels (tile_pixels frame (geo_width g) r) else pixels)))"
  using decoder_scatter_rows_eq [of "geo_width g" "geo_height g" r frame pixels "rect_height r" diff]
    assms by (simp add: decoder_scatter_def pixel_count_def)

section \<open>No payload can make the decoder panic\<close>

lemma tile_body_Ok:
  assumes "tile_body bs method n = Ok (taken, px)"
  shows "length px = n" "0 < taken" "taken \<le> length bs"
  using assms
  by (auto simp: tile_body_def get_range_def Let_def split: Method.splits if_splits
      dest: length_zrle_decode)

lemma tile_body_not_Panic: "bs \<noteq> [] \<Longrightarrow> tile_body bs method n \<noteq> Panic"
  by (cases bs)
    (auto simp: tile_body_def obind_eq_Panic_iff Let_def slice_from_def split: Method.splits)

lemma read_tile_cases:
  assumes "rect_fits (geo_width g) (geo_height g) r" "length frame = pixel_count g"
  obtains (bad) err where "read_tile g (pixels_to_le frame) bs r diff = Err err"
  | (good) taken px where "0 < taken" "taken \<le> length bs"
      "length px = rect_height r * rect_width r"
      "read_tile g (pixels_to_le frame) bs r diff =
         Ok (taken, pixels_to_le (paste frame (geo_width g) r px))"
proof (cases "read_tile g (pixels_to_le frame) bs r diff")
  case (Ok y)
  then obtain m taken px frame' where
    body: "tile_body bs m (rect_width r * rect_height r) = Ok (taken, px)"
    and sc: "decoder_scatter g (pixels_to_le frame) r px (m = XorZrle) = Ok frame'"
    and y: "y = (taken, frame')"
    by (auto simp: read_tile_def split: if_splits)
  let ?px = "if m = XorZrle then map2 (XOR) px (tile_pixels frame (geo_width g) r) else px"
  show ?thesis
    using tile_body_Ok [OF body] Ok sc y decoder_scatter_eq [OF assms, of px "m = XorZrle"]
    by (intro good [of taken ?px]) (auto simp: mult.commute)
next
  case Panic
  then obtain m px where "decoder_scatter g (pixels_to_le frame) r px (m = XorZrle) = Panic"
    and "length px = rect_height r * rect_width r"
    by (auto simp: read_tile_def obind_eq_Panic_iff tile_body_not_Panic mult.commute
        split: if_splits list.splits dest: tile_body_Ok(1))
  then show ?thesis
    using decoder_scatter_eq [OF assms, of px "m = XorZrle"] by simp
qed (use bad in simp)

text \<open>
  The frame stays a frame of the negotiated size whatever a payload holds: the loops return, never
  panic, and what they leave is \<open>pixels_to_le\<close> of some frame of the same number of pixels.
\<close>

lemma keyframe_loop_safe:
  assumes "wf_geometry g" "length frame = pixel_count g" "offset \<le> length body"
  obtains result frame' damage' where
    "keyframe_loop g body offset index (pixels_to_le frame) damage =
       (result, pixels_to_le frame', damage')"
    "result \<noteq> Panic" "length frame' = pixel_count g"
proof -
  have "\<exists>result frame' damage'. keyframe_loop g body offset index (pixels_to_le frame) damage =
       (result, pixels_to_le frame', damage') \<and> result \<noteq> Panic \<and> length frame' = pixel_count g"
    using assms(2,3)
  proof (induction "tile_count g - index" arbitrary: offset index frame damage
      rule: less_induct)
    case less
    show ?case
    proof (cases "tile g index")
      case None
      then show ?thesis using less.prems by (auto simp: keyframe_loop.simps [of g body offset index])
    next
      case (Some r)
      then have i: "tile_count g - (index + 1) < tile_count g - index"
        using tile_eq_Some_iff [of g index] by auto
      show ?thesis
      proof (rule read_tile_cases [OF tile_fits [OF assms(1) Some] less.prems(1),
            of "drop offset body" False])
        fix err assume "read_tile g (pixels_to_le frame) (drop offset body) r False = Err err"
        then show ?thesis using Some less.prems
          by (auto simp: keyframe_loop.simps [of g body offset index] slice_from_def)
      next
        fix taken px
        assume "taken \<le> length (drop offset body)"
          "read_tile g (pixels_to_le frame) (drop offset body) r False =
             Ok (taken, pixels_to_le (paste frame (geo_width g) r px))"
        then show ?thesis
          using Some less.prems less.hyps [OF i, of "paste frame (geo_width g) r px"
              "offset + taken" "damage @ [r]"]
          by (simp add: keyframe_loop.simps [of g body offset index] slice_from_def)
      qed
    qed
  qed
  then show ?thesis using that by blast
qed

lemma delta_step_cases:
  assumes "wf_geometry g" "length frame = pixel_count g" "offset \<le> length body"
  obtains (bad) err where "delta_step g body offset previous (pixels_to_le frame) = Err err"
  | (good) offset' index r px where "offset < offset'" "offset' \<le> length body"
      "tile g (unat index) = Some r" "length px = rect_height r * rect_width r"
      "delta_step g body offset previous (pixels_to_le frame) =
         Ok (offset', index, r, pixels_to_le (paste frame (geo_width g) r px))"
proof (cases "varint_read (drop offset body)")
  case (Ok iw)
  obtain index width where iw: "iw = (index, width)" by force
  note b = varint_read_bounds [OF Ok [unfolded iw]]
  then have fits: "offset + width \<le> length body" using assms(3) by auto
  show ?thesis
  proof (cases "tile g (unat index)")
    case None
    then show ?thesis using Ok iw assms(3)
      by (intro bad) (simp add: delta_step_def slice_from_def)
  next
    case (Some r)
    show ?thesis
    proof (cases "case previous of None \<Rightarrow> False | Some p \<Rightarrow> index \<le> p")
      case True
      then show ?thesis using Ok iw assms(3) Some
        by (intro bad) (simp add: delta_step_def slice_from_def)
    next
      case False
      then have step: "delta_step g body offset previous (pixels_to_le frame) =
          obind (read_tile g (pixels_to_le frame) (drop (offset + width) body) r True)
            (\<lambda>(taken, frame'). Ok (offset + width + taken, index, r, frame'))"
        using Ok iw assms(3) Some fits by (simp add: delta_step_def slice_from_def Let_def)
      show ?thesis
      proof (rule read_tile_cases [OF tile_fits [OF assms(1) Some] assms(2),
              of "drop (offset + width) body" True])
        fix taken px assume "0 < taken" "taken \<le> length (drop (offset + width) body)"
          "length px = rect_height r * rect_width r"
          "read_tile g (pixels_to_le frame) (drop (offset + width) body) r True =
             Ok (taken, pixels_to_le (paste frame (geo_width g) r px))"
        then show ?thesis
          using step Some fits by (intro good [of "offset + width + taken" index r px]) auto
      qed (use step bad in simp)
    qed
  qed
qed (use assms(3) in \<open>auto intro: bad simp: delta_step_def slice_from_def\<close>)

lemma delta_loop_safe:
  assumes "wf_geometry g" "length frame = pixel_count g" "offset \<le> length body"
  obtains result frame' damage' where
    "delta_loop g body offset previous (pixels_to_le frame) damage =
       (result, pixels_to_le frame', damage')"
    "result \<noteq> Panic" "length frame' = pixel_count g"
proof -
  have "\<exists>result frame' damage'. delta_loop g body offset previous (pixels_to_le frame) damage =
       (result, pixels_to_le frame', damage') \<and> result \<noteq> Panic \<and> length frame' = pixel_count g"
    using assms(2,3)
  proof (induction "length body - offset" arbitrary: offset previous frame damage
      rule: less_induct)
    case less
    show ?case
    proof (rule delta_step_cases [OF assms(1) less.prems, of previous])
      fix err assume "delta_step g body offset previous (pixels_to_le frame) = Err err"
      then show ?thesis using less.prems
        by (auto simp: delta_loop.simps [of g body offset])
    next
      fix offset' index r px
      assume "offset < offset'" "offset' \<le> length body"
        "delta_step g body offset previous (pixels_to_le frame) =
           Ok (offset', index, r, pixels_to_le (paste frame (geo_width g) r px))"
      then show ?thesis
        using less.prems less.hyps [of offset' "paste frame (geo_width g) r px" "Some index"
            "damage @ [r]"]
        by (simp add: delta_loop.simps [of g body offset])
    qed
  qed
  then show ?thesis using that by blast
qed

definition wf_decoder :: "decoder \<Rightarrow> bool" where
  "wf_decoder d \<longleftrightarrow>
     wf_geometry (dec_geometry d) \<and> length (dec_frame d) = frame_bytes (dec_geometry d)"

lemma wf_decoder_frame:
  assumes "wf_decoder d"
  obtains frame where "dec_frame d = pixels_to_le frame" "length frame = pixel_count (dec_geometry d)"
proof (rule that)
  have len: "length (dec_frame d) = 4 * pixel_count (dec_geometry d)"
    using assms by (simp add: wf_decoder_def frame_bytes_def)
  show "dec_frame d = pixels_to_le (pixels_from_le (dec_frame d))"
    using pixels_to_from_le [OF len] by simp
  show "length (pixels_from_le (dec_frame d)) = pixel_count (dec_geometry d)"
    using len by simp
qed

lemma wf_decoder_new: "wf_geometry g \<Longrightarrow> wf_decoder (decoder_new g)"
  by (simp add: wf_decoder_def decoder_new_def)

lemma apply_keyframe_safe:
  assumes "wf_decoder d" "apply_keyframe d payload = (result, d')"
  shows "result \<noteq> Panic" "wf_decoder d'" "dec_geometry d' = dec_geometry d"
proof -
  obtain frame where f: "dec_frame d = pixels_to_le frame"
    "length frame = pixel_count (dec_geometry d)"
    by (rule wf_decoder_frame [OF assms(1)])
  have g: "wf_geometry (dec_geometry d)" using assms(1) by (simp add: wf_decoder_def)
  have "result \<noteq> Panic \<and> wf_decoder d' \<and> dec_geometry d' = dec_geometry d"
  proof (cases "read_header payload (dec_geometry d)")
    case (Ok kb)
    obtain k body where kb: "kb = (k, body)" by force
    obtain res frame' damage' where "keyframe_loop (dec_geometry d) body 0 0 (dec_frame d) [] =
        (res, pixels_to_le frame', damage')" "res \<noteq> Panic"
      "length frame' = pixel_count (dec_geometry d)"
      using keyframe_loop_safe [OF g f(2), of 0 body 0 "[]"] f(1) by auto
    then show ?thesis
      using assms Ok kb
      by (cases res) (auto simp: apply_keyframe_def wf_decoder_def frame_bytes_def Let_def
          split: if_splits)
  qed (use assms in \<open>auto simp: apply_keyframe_def\<close>)
  then show "result \<noteq> Panic" "wf_decoder d'" "dec_geometry d' = dec_geometry d" by auto
qed

lemma apply_delta_safe:
  assumes "wf_decoder d" "apply_delta d payload = (result, d')"
  shows "result \<noteq> Panic" "wf_decoder d'" "dec_geometry d' = dec_geometry d"
proof -
  obtain frame where f: "dec_frame d = pixels_to_le frame"
    "length frame = pixel_count (dec_geometry d)"
    by (rule wf_decoder_frame [OF assms(1)])
  have g: "wf_geometry (dec_geometry d)" using assms(1) by (simp add: wf_decoder_def)
  have "result \<noteq> Panic \<and> wf_decoder d' \<and> dec_geometry d' = dec_geometry d"
  proof (cases "read_header payload (dec_geometry d)")
    case (Ok kb)
    obtain k body where kb: "kb = (k, body)" by force
    obtain res frame' damage' where "delta_loop (dec_geometry d) body 0 None (dec_frame d) [] =
        (res, pixels_to_le frame', damage')" "res \<noteq> Panic"
      "length frame' = pixel_count (dec_geometry d)"
      using delta_loop_safe [OF g f(2), of 0 body None "[]"] f(1) by auto
    then show ?thesis
      using assms Ok kb
      by (cases res) (auto simp: apply_delta_def wf_decoder_def frame_bytes_def Let_def
          split: if_splits)
  qed (use assms in \<open>auto simp: apply_delta_def\<close>)
  then show "result \<noteq> Panic" "wf_decoder d'" "dec_geometry d' = dec_geometry d" by auto
qed

section \<open>The damage list is exact\<close>

text \<open>
  The tiles a delta reports are strictly increasing tiles of the grid, and no pixel outside them
  is touched, whether the payload is applied to the end or refused half-way.
\<close>

lemma delta_step_index:
  "delta_step g body offset previous frame = Ok (offset', index, r, frame') \<Longrightarrow>
   tile g (unat index) = Some r \<and> (\<forall>p. previous = Some p \<longrightarrow> p < index)"
  by (auto simp: delta_step_def Let_def split: if_splits option.splits)

lemma delta_loop_damage:
  assumes "wf_geometry g"
  shows "length frame = pixel_count g \<Longrightarrow> offset \<le> length body \<Longrightarrow>
    delta_loop g body offset previous (pixels_to_le frame) damage =
      (result, pixels_to_le frame', damage') \<Longrightarrow>
    \<exists>is. damage' = damage @ map (\<lambda>i. the (tile g (unat i))) is \<and>
      sorted_wrt (<) (case previous of None \<Rightarrow> is | Some p \<Rightarrow> p # is) \<and>
      (\<forall>i\<in>set is. unat i < tile_count g) \<and>
      (\<forall>k<length frame. frame' ! k \<noteq> frame ! k \<longrightarrow>
         tile_of g (k mod geo_width g) (k div geo_width g) \<in> unat ` set is)"
proof (induction "length body - offset" arbitrary: offset previous frame damage
    rule: less_induct)
  case less
  have inj: "pixels_to_le a = pixels_to_le b \<Longrightarrow> a = b" for a b
    by (metis pixels_from_to_le)
  show ?case
  proof (rule delta_step_cases [OF assms less.prems(1,2), of previous])
    fix err assume "delta_step g body offset previous (pixels_to_le frame) = Err err"
    then show ?thesis using less.prems
      by (auto simp: delta_loop.simps [of g body offset] split: if_splits option.splits dest!: inj
          intro!: exI [of _ "[]"])
  next
    fix offset' index r px
    assume step: "offset < offset'" "offset' \<le> length body" "tile g (unat index) = Some r"
      "delta_step g body offset previous (pixels_to_le frame) =
         Ok (offset', index, r, pixels_to_le (paste frame (geo_width g) r px))"
    let ?f = "paste frame (geo_width g) r px"
    have "delta_loop g body offset' (Some index) (pixels_to_le ?f) (damage @ [r]) =
        (result, pixels_to_le frame', damage')"
      using less.prems step by (simp add: delta_loop.simps [of g body offset])
    moreover have "length body - offset' < length body - offset" using step by simp
    ultimately obtain "is" where
      IH: "damage' = (damage @ [r]) @ map (\<lambda>i. the (tile g (unat i))) is"
        "sorted_wrt (<) (index # is)" "\<forall>i\<in>set is. unat i < tile_count g"
        "\<forall>k<length frame. frame' ! k \<noteq> ?f ! k \<longrightarrow>
          tile_of g (k mod geo_width g) (k div geo_width g) \<in> unat ` set is"
      using less.hyps [of offset' ?f "Some index" "damage @ [r]"] less.prems step by auto
    have same: "tile_of g (k mod geo_width g) (k div geo_width g) \<in> unat ` set (index # is)"
      if "k < length frame" "frame' ! k \<noteq> frame ! k" for k
      using that IH(4) tile_rectD [OF assms step(3), of "k mod geo_width g" "k div geo_width g"]
      by (cases "in_rect r (k mod geo_width g) (k div geo_width g)") (auto simp: nth_paste)
    show ?thesis
      using IH same step(3) delta_step_index [OF step(4)] tile_eq_Some_iff [of g "unat index"]
      by (intro exI [of _ "index # is"]) (auto split: option.splits)
  qed
qed

end
