(* ===== verification/Codec_Stream.thy ===== *)
theory Codec_Stream
  imports Encoder Decoder
begin

unbundle bit_operations_syntax

text \<open>
  The two halves of the codec together. Every payload the encoder hands out is accepted by a
  decoder that applied the ones before it, and leaves the viewer's frame equal, byte for byte, to
  the encoder's reference. The lemmas go up the format: one tile record, the tiles of a
  keyframe, the tiles of a delta, a payload, and a session of any length as a step relation.
\<close>

section \<open>One tile record\<close>

lemma write_tile_cases:
  obtains (raw) "write_tile px previous = method_as_byte Raw # pixels_to_le px"
  | (zrle) z where "z = zrle_encode px" "length z < 4 * length px"
      "write_tile px previous =
         method_as_byte ZrleMethod # varint_write (of_nat (length z)) @ z"
  | (xor) z held where "previous = Some held" "z = zrle_encode (map2 (XOR) px held)"
      "length z < 4 * length px"
      "write_tile px previous = method_as_byte XorZrle # varint_write (of_nat (length z)) @ z"
proof (cases previous)
  case None
  show ?thesis
  proof (cases "length (zrle_encode px) + varint_len (of_nat (length (zrle_encode px)))
      < length px * 4")
    case True
    then show ?thesis using None by (intro zrle [OF refl]) (simp_all add: write_tile_def Let_def)
  next
    case False
    then show ?thesis using None by (intro raw) (simp add: write_tile_def Let_def)
  qed
next
  case (Some held)
  let ?z = "zrle_encode px" and ?x = "zrle_encode (map2 (XOR) px held)"
  let ?zl = "length ?z + varint_len (of_nat (length ?z))"
  let ?xl = "length ?x + varint_len (of_nat (length ?x))"
  consider (x) "?xl < (if ?zl < length px * 4 then ?zl else length px * 4)"
    | (z) "\<not> ?xl < (if ?zl < length px * 4 then ?zl else length px * 4)" "?zl < length px * 4"
    | (r) "\<not> ?xl < (if ?zl < length px * 4 then ?zl else length px * 4)" "\<not> ?zl < length px * 4"
    by blast
  then show ?thesis
  proof cases
    case x
    then show ?thesis
      by (intro xor [OF Some refl]) (auto simp: write_tile_def Let_def Some split: if_splits)
  next
    case z
    then show ?thesis by (intro zrle [OF refl]) (auto simp: write_tile_def Let_def Some)
  next
    case r
    then show ?thesis by (intro raw) (auto simp: write_tile_def Let_def Some)
  qed
qed

lemma tile_body_raw:
  "length px = n \<Longrightarrow> tile_body (b # pixels_to_le px @ rest) Raw n = Ok (1 + n * 4, px)"
  by (auto simp: tile_body_def get_range_def)

lemma tile_body_stream:
  assumes "m \<noteq> Raw" "length z < 4294967296" "zrle_decode z n = Ok px"
  shows "tile_body (b # varint_write (of_nat (length z)) @ z @ rest) m n =
    Ok (length (b # varint_write (of_nat (length z)) @ z), px)"
proof -
  have len: "unat (of_nat (length z) :: u32) = length z"
    using assms(2) by (simp add: unat_of_nat take_bit_nat_eq_self)
  let ?v = "varint_write (of_nat (length z) :: u32)"
  have "get_range ((b # ?v) @ z @ rest) (length (b # ?v)) (length (b # ?v) + length z) = Some z"
    by (rule get_range_append)
  then show ?thesis
    using assms(1,3) len by (cases m) (simp_all add: tile_body_def slice_from_def)
qed

text \<open>
  The record the encoder writes for a tile, read back into a frame whose tile holds what the
  encoder took the difference against.
\<close>

lemma read_tile_body:
  assumes "rect_fits (geo_width g) (geo_height g) r" "length frame = pixel_count g"
    and "tile_body (method_as_byte m # bs) m (length px) = Ok (taken, px)"
    and "length px = rect_height r * rect_width r" "m = XorZrle \<Longrightarrow> diff"
  shows "read_tile g (pixels_to_le frame) (method_as_byte m # bs) r diff =
    Ok (taken, pixels_to_le (paste frame (geo_width g) r
      (if m = XorZrle then map2 (XOR) px (tile_pixels frame (geo_width g) r) else px)))"
proof -
  have "tile_body (method_as_byte m # bs) m (rect_width r * rect_height r) = Ok (taken, px)"
    using assms(3,4) by (simp add: mult.commute)
  then show ?thesis
    using assms(5) decoder_scatter_eq [OF assms(1,2,4), of "m = XorZrle"]
    by (auto simp: read_tile_def simp del: method_as_byte.simps)
qed

lemma read_write_tile:
  assumes "rect_fits (geo_width g) (geo_height g) r" "length frame = pixel_count g"
    and px: "length px = rect_height r * rect_width r" "length px \<le> 4096"
    and held: "\<And>held. previous = Some held \<Longrightarrow> diff \<and> held = tile_pixels frame (geo_width g) r"
  shows "read_tile g (pixels_to_le frame) (write_tile px previous @ rest) r diff =
    Ok (length (write_tile px previous), pixels_to_le (paste frame (geo_width g) r px))"
proof (rule write_tile_cases [of px previous])
  note body = read_tile_body [OF assms(1,2)]
  show ?thesis if "write_tile px previous = method_as_byte Raw # pixels_to_le px"
    using that px(1) body [where m = Raw and px = px and diff = diff, OF tile_body_raw [OF refl]]
    by (simp add: mult.commute del: method_as_byte.simps)
  show ?thesis if z: "z = zrle_encode px" "length z < 4 * length px"
    "write_tile px previous = method_as_byte ZrleMethod # varint_write (of_nat (length z)) @ z" for z
  proof -
    have "zrle_decode z (length px) = Ok px" unfolding z(1) by (rule zrle_decode_encode)
    from body [where diff = diff, OF tile_body_stream [where m = ZrleMethod, OF _ _ this]]
    show ?thesis using z(2,3) px by (simp del: method_as_byte.simps)
  qed
  show ?thesis if x: "previous = Some h" "z = zrle_encode (map2 (XOR) px h)" "length z < 4 * length px"
    "write_tile px previous = method_as_byte XorZrle # varint_write (of_nat (length z)) @ z" for z h
  proof -
    have h: "diff" "h = tile_pixels frame (geo_width g) r" using held [OF x(1)] by simp_all
    then have len: "length h = length px" using px by simp
    have undo: "map2 (XOR) (map2 (XOR) px h) h = px"
      using len by (intro nth_equalityI) (simp_all add: xor.assoc)
    have "zrle_decode z (length (map2 (XOR) px h)) = Ok (map2 (XOR) px h)"
      unfolding x(2) by (rule zrle_decode_encode)
    from body [where diff = diff, OF tile_body_stream [where m = XorZrle, OF _ _ this]]
    show ?thesis
      using x(3,4) px len h undo by (simp del: method_as_byte.simps)
  qed
qed

section \<open>The tiles of a keyframe\<close>

definition tile_rect :: "geometry \<Rightarrow> nat \<Rightarrow> rect" where
  "tile_rect g i = the (tile g i)"

lemma tile_area:
  assumes "wf_geometry g" "tile g i = Some r"
  shows "rect_height r * rect_width r \<le> 4096"
  using mult_le_mono [OF tile_rect_shape(5) [OF assms] tile_rect_shape(2) [OF assms]] by simp

lemma paste_frame_tiles:
  assumes "wf_geometry g" "tile g i = Some r" "length held = pixel_count g"
    and "length px = rect_height r * rect_width r" "tile g j = Some q"
  shows "tile_pixels (paste held (geo_width g) r px) (geo_width g) q =
    (if i = j then px else tile_pixels held (geo_width g) q)"
proof (cases "i = j")
  case True
  then show ?thesis
    using tile_pixels_paste [OF tile_fits [OF assms(1,2)] _ assms(4), of held] assms
    by (simp add: pixel_count_def)
next
  case False
  then show ?thesis
    using tile_pixels_paste_other [OF tile_fits [OF assms(1,5)], of held r px]
      tiles_disjoint [OF assms(1,2,5)] assms(3) by (simp add: pixel_count_def)
qed

lemma keyframe_loop_tiles:
  assumes wf: "wf_geometry g" and frame: "length frame = pixel_count g"
  shows "length held = pixel_count g \<Longrightarrow> keyframe_tiles g frame i = Ok bs \<Longrightarrow>
    \<exists>held'. keyframe_loop g (pre @ bs) (length pre) i (pixels_to_le held) damage =
        (Ok (length (pre @ bs)), pixels_to_le held',
         damage @ map (tile_rect g) [i ..< tile_count g]) \<and>
      length held' = pixel_count g \<and>
      (\<forall>j r. tile g j = Some r \<longrightarrow> tile_pixels held' (geo_width g) r =
         tile_pixels (if i \<le> j then frame else held) (geo_width g) r)"
proof (induction "tile_count g - i" arbitrary: i pre held bs damage rule: less_induct)
  case less
  let ?w = "geo_width g"
  show ?case
  proof (cases "tile g i")
    case None
    then have "tile_count g \<le> i" using tile_eq_Some_iff [of g i] by (simp add: not_le [symmetric])
    then have "\<not> i \<le> j" if "tile g j = Some r" for j r
      using tile_SomeD [OF that] by simp
    then show ?thesis using None less.prems \<open>tile_count g \<le> i\<close>
      by (auto simp: keyframe_tiles.simps [of g frame i] keyframe_loop.simps [of g _ _ i])
  next
    case (Some r)
    have i: "i < tile_count g" "tile_count g - (i + 1) < tile_count g - i"
      using tile_SomeD [OF Some] by simp_all
    note fits = tile_fits [OF wf Some]
    let ?px = "tile_pixels frame ?w r"
    let ?rec = "write_tile ?px None"
    let ?held = "paste held ?w r ?px"
    obtain rest where rest: "keyframe_tiles g frame (i + 1) = Ok rest" "bs = ?rec @ rest"
      using less.prems(2) Some gather_eq [OF fits frame]
      by (auto simp: keyframe_tiles.simps [of g frame i])
    have tile_read: "read_tile g (pixels_to_le held) (?rec @ rest) r False =
        Ok (length ?rec, pixels_to_le ?held)"
      using tile_area [OF wf Some] by (intro read_write_tile [OF fits less.prems(1)]) simp_all
    obtain held' where IH: "keyframe_loop g ((pre @ ?rec) @ rest) (length (pre @ ?rec)) (i + 1)
        (pixels_to_le ?held) (damage @ [r]) = (Ok (length ((pre @ ?rec) @ rest)),
          pixels_to_le held', (damage @ [r]) @ map (tile_rect g) [i + 1 ..< tile_count g])"
      "length held' = pixel_count g"
      "\<And>j q. tile g j = Some q \<Longrightarrow> tile_pixels held' ?w q =
         tile_pixels (if i + 1 \<le> j then frame else ?held) ?w q"
      using less.hyps [OF i(2) _ rest(1), of ?held "pre @ ?rec" "damage @ [r]"] less.prems(1)
      by auto
    have "keyframe_loop g (pre @ bs) (length pre) i (pixels_to_le held) damage =
        (Ok (length (pre @ bs)), pixels_to_le held', damage @ map (tile_rect g) [i ..< tile_count g])"
      using IH(1) tile_read rest(2) Some upt_conv_Cons [OF i(1)]
      by (simp add: keyframe_loop.simps [of g _ _ i] slice_from_def tile_rect_def)
    moreover have "tile_pixels held' ?w q = tile_pixels (if i \<le> j then frame else held) ?w q"
      if "tile g j = Some q" for j q
      using IH(3) [OF that] paste_frame_tiles [OF wf Some less.prems(1) _ that, of ?px] that Some
      by (cases "i = j") auto
    ultimately show ?thesis using IH(2) by blast
  qed
qed

text \<open>A keyframe replaces whatever the decoder holds, on every decoder of the geometry.\<close>

lemma apply_keyframe_payload:
  assumes "wf_decoder d" "length frame = pixel_count (dec_geometry d)"
    and "keyframe_tiles (dec_geometry d) frame 0 = Ok bs"
  shows "apply_keyframe d (write_header True (dec_geometry d) @ bs) =
    (Ok (map (tile_rect (dec_geometry d)) [0 ..< tile_count (dec_geometry d)]),
     d\<lparr>dec_frame := pixels_to_le frame, dec_has_frame := True,
       dec_damage := map (tile_rect (dec_geometry d)) [0 ..< tile_count (dec_geometry d)]\<rparr>)"
proof -
  let ?g = "dec_geometry d"
  have wf: "wf_geometry ?g" using assms(1) by (simp add: wf_decoder_def)
  obtain held where held: "dec_frame d = pixels_to_le held" "length held = pixel_count ?g"
    by (rule wf_decoder_frame [OF assms(1)])
  obtain held' where loop: "keyframe_loop ?g bs 0 0 (pixels_to_le held) [] =
      (Ok (length bs), pixels_to_le held', map (tile_rect ?g) [0 ..< tile_count ?g])"
    "length held' = pixel_count ?g"
    "\<And>j r. tile ?g j = Some r \<Longrightarrow>
      tile_pixels held' (geo_width ?g) r = tile_pixels frame (geo_width ?g) r"
    using keyframe_loop_tiles [OF wf assms(2) held(2) assms(3), of "[]" "[]"] by auto
  have "held' = frame" by (rule frame_eq_by_tiles [OF wf loop(2) assms(2) loop(3)])
  then show ?thesis using loop(1) held(1) wf by (simp add: apply_keyframe_def)
qed

section \<open>The tiles of a delta\<close>

definition tile_changed :: "geometry \<Rightarrow> u32 list \<Rightarrow> u32 list \<Rightarrow> nat \<Rightarrow> bool" where
  "tile_changed g a b i \<longleftrightarrow>
     tile_pixels a (geo_width g) (tile_rect g i) \<noteq> tile_pixels b (geo_width g) (tile_rect g i)"

lemma delta_step_tile:
  assumes wf: "wf_geometry g" and held: "length held = pixel_count g"
    and "tile g i = Some r" "length px = rect_height r * rect_width r"
    and prev: "\<And>p. previous = Some p \<Longrightarrow> unat p < i"
  defines "rec \<equiv> varint_write (of_nat i) @ write_tile px (Some (tile_pixels held (geo_width g) r))"
  shows "delta_step g (pre @ rec @ rest) (length pre) previous (pixels_to_le held) =
    Ok (length (pre @ rec), of_nat i, r, pixels_to_le (paste held (geo_width g) r px))"
proof -
  let ?w = "write_tile px (Some (tile_pixels held (geo_width g) r))"
  have "i < tile_count g" using tile_SomeD assms(3) .
  then have i: "unat (of_nat i :: u32) = i"
    using geometry_bounds(4) [OF wf] by (simp add: unat_of_nat take_bit_nat_eq_self)
  have ord: "\<not> (case previous of None \<Rightarrow> False | Some p \<Rightarrow> of_nat i \<le> p)"
    using prev i by (auto simp: word_le_nat_alt split: option.splits)
  have tile_read: "read_tile g (pixels_to_le held) (?w @ rest) r True =
      Ok (length ?w, pixels_to_le (paste held (geo_width g) r px))"
    using tile_area [OF wf assms(3)] assms(4)
    by (intro read_write_tile [OF tile_fits [OF wf assms(3)] held]) simp_all
  show ?thesis
    using ord tile_read i assms(3)
    by (simp add: delta_step_def rec_def slice_from_def Let_def)
qed

lemma delta_loop_tiles:
  assumes wf: "wf_geometry g" and frame: "length frame = pixel_count g"
    and sel: "length selected = tile_count g"
  shows "length held = pixel_count g \<Longrightarrow> (\<And>p. previous = Some p \<Longrightarrow> unat p < i) \<Longrightarrow>
    delta_tiles g frame selected held i = Ok (bs, held', written) \<Longrightarrow>
    delta_loop g (pre @ bs) (length pre) previous (pixels_to_le held) damage =
      (Ok (), pixels_to_le held',
       damage @ map (tile_rect g) (filter (tile_changed g held' held) [i ..< tile_count g]))"
proof (induction "tile_count g - i" arbitrary: i pre held bs damage previous written rule: less_induct)
  case less
  let ?w = "geo_width g"
  note final = delta_tiles_ok [OF wf frame sel]
  show ?case
  proof (cases "tile g i")
    case None
    then have "tile_count g \<le> i" using tile_eq_Some_iff [of g i] by (simp add: not_le [symmetric])
    then show ?thesis using None less.prems(3)
      by (simp add: delta_tiles.simps [of g frame selected held i] delta_loop.simps)
  next
    case (Some r)
    have i: "i < tile_count g" "tile_count g - (i + 1) < tile_count g - i"
      using tile_SomeD [OF Some] by simp_all
    note fits = tile_fits [OF wf Some]
    note ops = gather_eq [OF fits frame] gather_eq [OF fits less.prems(1)]
      differs_eq [OF fits frame less.prems(1)]
    note unfold = delta_tiles.simps [of g frame selected held i]
    have here: "tile_changed g held' held i \<longleftrightarrow>
        selected ! i \<and> tile_pixels frame ?w r \<noteq> tile_pixels held ?w r"
      using final [OF less.prems(1), of i] less.prems(3) Some
      by (auto simp: tile_changed_def tile_rect_def)
    show ?thesis
    proof (cases "selected ! i \<and> tile_pixels frame ?w r \<noteq> tile_pixels held ?w r")
      case False
      then have "delta_tiles g frame selected held (i + 1) = Ok (bs, held', written)"
        using less.prems(3) Some i sel ops
        by (cases "selected ! i") (auto simp: unfold index_at_def)
      from less.hyps [OF i(2) less.prems(1) _ this, of previous pre damage] less.prems(2)
      show ?thesis using here False upt_conv_Cons [OF i(1)] by force
    next
      case True
      let ?px = "tile_pixels frame ?w r"
      let ?held = "paste held ?w r ?px"
      let ?rec = "varint_write (of_nat i) @ write_tile ?px (Some (tile_pixels held ?w r))"
      have "scatter held g r ?px = Ok ?held" by (rule scatter_eq [OF fits less.prems(1)]) simp
      then obtain rest w where rest: "delta_tiles g frame selected ?held (i + 1) = Ok (rest, held', w)"
        "bs = ?rec @ rest"
        using less.prems(3) Some i sel ops True by (auto simp: unfold index_at_def)
      have idx: "unat (of_nat i :: u32) = i"
        using geometry_bounds(4) [OF wf] i by (simp add: unat_of_nat take_bit_nat_eq_self)
      have IH: "delta_loop g ((pre @ ?rec) @ rest) (length (pre @ ?rec)) (Some (of_nat i))
          (pixels_to_le ?held) (damage @ [r]) = (Ok (), pixels_to_le held', (damage @ [r]) @
            map (tile_rect g) (filter (tile_changed g held' ?held) [i + 1 ..< tile_count g]))"
        by (rule less.hyps [OF i(2) _ _ rest(1)]) (use less.prems(1) idx in simp_all)
      have "tile_changed g held' ?held j \<longleftrightarrow> tile_changed g held' held j"
        if j: "j \<in> set [i + 1 ..< tile_count g]" for j
        using j tile_eq_Some_iff [of g j] paste_frame_tiles [OF wf Some less.prems(1), of ?px j]
        by (auto simp: tile_changed_def tile_rect_def)
      then have "filter (tile_changed g held' ?held) [i + 1 ..< tile_count g] =
          filter (tile_changed g held' held) [i + 1 ..< tile_count g]"
        by (intro filter_cong refl)
      moreover have "delta_step g (pre @ ?rec @ rest) (length pre) previous (pixels_to_le held) =
          Ok (length (pre @ ?rec), of_nat i, r, pixels_to_le ?held)"
        by (rule delta_step_tile [OF wf less.prems(1) Some _ less.prems(2)]) simp_all
      moreover have "length pre < length (pre @ ?rec @ rest)"
        using varint_read_bounds [OF varint_read_write [of "of_nat i" "[]"]] by simp
      ultimately show ?thesis
        using IH here True rest(2) Some upt_conv_Cons [OF i(1)]
        by (simp add: delta_loop.simps [of g _ "length pre"] tile_rect_def)
    qed
  qed
qed

text \<open>
  A delta on a decoder that holds the encoder's reference leaves it holding the new reference, and
  reports exactly the tiles that changed.
\<close>

lemma apply_delta_payload:
  assumes "wf_decoder d" "dec_has_frame d" "dec_frame d = pixels_to_le reference"
    and "length frame = pixel_count (dec_geometry d)"
    and "length selected = tile_count (dec_geometry d)"
    and "delta_tiles (dec_geometry d) frame selected reference 0 = Ok (bs, reference', written)"
  defines "damage \<equiv> map (tile_rect (dec_geometry d))
    (filter (tile_changed (dec_geometry d) reference' reference) [0 ..< tile_count (dec_geometry d)])"
  shows "apply_delta d (write_header False (dec_geometry d) @ bs) =
    (Ok damage, d\<lparr>dec_frame := pixels_to_le reference', dec_damage := damage\<rparr>)"
proof -
  have wf: "wf_geometry (dec_geometry d)" using assms(1) by (simp add: wf_decoder_def)
  have "length reference = pixel_count (dec_geometry d)"
    using assms(1,3) by (simp add: wf_decoder_def frame_bytes_def)
  from delta_loop_tiles [OF wf assms(4,5) this _ assms(6), of None "[]" "[]"]
  show ?thesis using assms(2,3) wf by (simp add: apply_delta_def damage_def)
qed

section \<open>A session\<close>

text \<open>
  What the viewer does with a payload (\<open>display-viewer/src/video.rs\<close>, \<open>apply\<close>, once a stream is
  configured): frames go to the decoder's state, cursors are decoded on their own.
\<close>

fun apply_payload :: "payload \<Rightarrow> decoder \<Rightarrow> (CodecError, rect list) outcome \<times> decoder" where
  "apply_payload (Keyframe bs) d = apply_keyframe d bs"
| "apply_payload (TileDelta bs) d = apply_delta d bs"
| "apply_payload (CursorImage bs) d = (obind (decode_cursor_image bs) (\<lambda>_. Ok []), d)"
| "apply_payload (CursorPosition bs) d = (obind (decode_cursor_position bs) (\<lambda>_. Ok []), d)"

text \<open>
  The steps of an encoder and the decoder at the other end of its stream. Captures, cursors and
  keyframe requests arrive in any order and at any rate; a payload is pulled whenever the socket
  has room and is applied by the viewer. The parameter restricts which captures are considered.
\<close>

inductive codec_step ::
  "(encoder \<Rightarrow> capture \<Rightarrow> rect list option \<Rightarrow> bool) \<Rightarrow>
   encoder \<times> decoder \<Rightarrow> encoder \<times> decoder \<Rightarrow> bool"
  for allowed where
  capture: "allowed e frame damage \<Longrightarrow> length (cap_pixels frame) < usize_bound - 1 \<Longrightarrow>
    submit e frame damage = Ok e' \<Longrightarrow> codec_step allowed (e, d) (e', d)"
| cursor_image: "submit_cursor_image e img = Ok e' \<Longrightarrow> codec_step allowed (e, d) (e', d)"
| cursor_position: "codec_step allowed (e, d) (submit_cursor_position e pos, d)"
| request: "codec_step allowed (e, d) (encoder_request_keyframe e, d)"
| idle: "next_payload e = Ok (None, e') \<Longrightarrow> codec_step allowed (e, d) (e', d)"
| pull: "next_payload e = Ok (Some p, e') \<Longrightarrow> apply_payload p d = (result, d') \<Longrightarrow>
    codec_step allowed (e, d) (e', d')"

inductive_cases codec_stepE: "codec_step allowed (e, d) (e', d')"

definition cursor_staged :: "staging \<Rightarrow> bool" where
  "cursor_staged s \<longleftrightarrow>
     (st_cursor_image_pending s \<longrightarrow> (\<exists>img. write_image img = Ok (st_cursor_image s))) \<and>
     (st_cursor_position_pending s \<longrightarrow> (\<exists>pos. st_cursor_position s = write_position pos))"

definition in_sync :: "encoder \<times> decoder \<Rightarrow> bool" where
  "in_sync = (\<lambda>(e, d). wf_encoder e \<and> wf_decoder d \<and> cursor_staged (enc_staging e) \<and>
     dec_geometry d = enc_geometry e \<and> dec_has_frame d = enc_has_reference e \<and>
     dec_frame d = pixels_to_le (enc_reference e))"

lemma in_sync_new:
  "wf_geometry (cfg_geometry c) \<Longrightarrow> in_sync (encoder_new c, decoder_new (cfg_geometry c))"
proof -
  assume "wf_geometry (cfg_geometry c)"
  moreover have "pixels_to_le (replicate n 0) = replicate (n * 4) 0" for n
    by (induction n) (auto simp: u32_to_le_def eval_nat_numeral)
  ultimately show ?thesis
    using wf_encoder_new [of c] wf_decoder_new [of "cfg_geometry c"]
    by (simp add: in_sync_def cursor_staged_def decoder_new_def encoder_new_def staging_new_def
        frame_bytes_def Let_def)
qed

text \<open>Whatever payload comes next, the viewer accepts it and the two ends stay in step.\<close>

lemma cursor_payload_accepted:
  assumes "cursor_staged (enc_staging e)" "next_cursor_payload e = (p, e')"
  shows "cursor_staged (enc_staging e')"
    "p = Some q \<Longrightarrow> fst (apply_payload q d) = Ok [] \<and> snd (apply_payload q d) = d"
  using assms read_write_image read_write_position
  by (auto simp: next_cursor_payload_def take_cursor_image_def take_cursor_position_def Let_def
      cursor_staged_def decode_cursor_image_def decode_cursor_position_def split: if_splits)

lemma encode_delta_staging: "encode_delta e hint = Ok (w, e') \<Longrightarrow> enc_staging e' = enc_staging e"
  by (auto simp: encode_delta_def mark_sweep_def Let_def split: if_splits)

lemma encode_keyframe_cursor:
  "encode_keyframe e = Ok e' \<Longrightarrow>
   cursor_staged (enc_staging e') = cursor_staged (enc_staging e)"
  by (auto simp: encode_keyframe_def keyframe_sent_def cursor_staged_def Let_def)

lemma frame_taken_cursor [simp]:
  "cursor_staged (enc_staging (frame_taken e)) = cursor_staged (enc_staging e)"
  by (simp add: frame_taken_def take_frame_def cursor_staged_def)

lemma next_payload_cursor:
  assumes "cursor_staged (enc_staging e)" "next_payload e = Ok (p, e')"
  shows "cursor_staged (enc_staging e')"
    and "p = Some q \<Longrightarrow> (\<exists>bs. q = Keyframe bs \<or> q = TileDelta bs) \<or>
      fst (apply_payload q d) = Ok [] \<and> snd (apply_payload q d) = d"
  using assms cursor_payload_accepted [of _ p e']
  by (auto simp: next_payload_frame_taken encode_delta_staging encode_keyframe_cursor
      split: if_splits) (metis encode_delta_staging frame_taken_cursor)+

lemma payload_in_sync:
  assumes sync: "in_sync (e, d)" and pull: "next_payload e = Ok (Some p, e')"
  shows "\<exists>damage d'. apply_payload p d = (Ok damage, d') \<and> in_sync (e', d')"
proof -
  let ?g = "enc_geometry e"
  have wf: "wf_encoder e" "wf_decoder d" and same: "dec_geometry d = ?g"
    "dec_has_frame d = enc_has_reference e" "dec_frame d = pixels_to_le (enc_reference e)"
    and cur: "cursor_staged (enc_staging e)"
    using sync by (auto simp: in_sync_def)
  have frame: "length (st_frame (enc_staging e)) = pixel_count ?g" and g: "wf_geometry ?g"
    using wf(1) by (simp_all add: wf_encoder_def)
  note cursor = next_payload_cursor [OF cur pull]
  have new: "in_sync (e', d')" if "frame_step e e'" "dec_geometry d' = ?g"
    "dec_has_frame d' = enc_has_reference e'" "dec_frame d' = pixels_to_le (enc_reference e')" for d'
    using that cursor(1) by (auto simp: in_sync_def frame_step_def wf_encoder_def wf_decoder_def
        frame_bytes_def)
  show ?thesis
  proof (rule next_payload_cases [OF wf(1)])
    fix bs e'' assume k: "next_payload e = Ok (Some (Keyframe (write_header True ?g @ bs)), e'')"
      "keyframe_tiles ?g (st_frame (enc_staging e)) 0 = Ok bs"
      "enc_reference e'' = st_frame (enc_staging e)" "enc_has_reference e''" "frame_step e e''"
    have eq: "e'' = e'" "p = Keyframe (write_header True ?g @ bs)" using pull k(1) by simp_all
    obtain damage d' where a: "apply_keyframe d (write_header True ?g @ bs) = (Ok damage, d')"
      "dec_geometry d' = ?g" "dec_has_frame d'" "dec_frame d' = pixels_to_le (st_frame (enc_staging e))"
      using apply_keyframe_payload [OF wf(2), of "st_frame (enc_staging e)" bs] frame same(1) k(2)
      by simp
    have "in_sync (e', d')" by (rule new) (use a k(3-5) eq(1) in simp_all)
    then show ?thesis using a(1) eq(2) by auto
  next
    fix selected bs e'' assume k: "next_payload e = Ok (Some (TileDelta (write_header False ?g @ bs)), e'')"
      "length selected = tile_count ?g"
      "delta_tiles ?g (st_frame (enc_staging e)) selected (enc_reference e) 0 =
         Ok (bs, enc_reference e'', True)" "enc_has_reference e" "frame_step e e''" "delta_outcome e e''"
    have eq: "e'' = e'" "p = TileDelta (write_header False ?g @ bs)" using pull k(1) by simp_all
    obtain damage d' where a: "apply_delta d (write_header False ?g @ bs) = (Ok damage, d')"
      "dec_geometry d' = ?g" "dec_has_frame d' = enc_has_reference e"
      "dec_frame d' = pixels_to_le (enc_reference e'')"
      using apply_delta_payload [OF wf(2) _ same(3), of "st_frame (enc_staging e)" selected bs
          "enc_reference e''" True] frame same(1,2) k(2-4)
      by simp
    have "in_sync (e', d')" by (rule new) (use a k(5,6) eq(1) in \<open>simp_all add: delta_outcome_def\<close>)
    then show ?thesis using a(1) eq(2) by auto
  next
    fix q e'' assume k: "next_payload e = Ok (q, e'')"
      "q = None \<or> (\<exists>bs. q = Some (CursorImage bs) \<or> q = Some (CursorPosition bs))"
      "enc_reference e'' = enc_reference e" "enc_has_reference e'' = enc_has_reference e"
      "frame_step e e''"
    then have "fst (apply_payload p d) = Ok []" "snd (apply_payload p d) = d"
      using cursor(2) [OF refl, of d] pull by auto
    moreover have eq: "e'' = e'" using pull k(1) by simp
    moreover have "in_sync (e', d)" by (rule new) (use k(3-5) same eq in simp_all)
    ultimately show ?thesis by (metis prod.collapse)
  qed
qed

lemma idle_in_sync:
  assumes "in_sync (e, d)" "next_payload e = Ok (None, e')"
  shows "in_sync (e', d)"
proof -
  have wf: "wf_encoder e" using assms(1) by (simp add: in_sync_def)
  have "cursor_staged (enc_staging e')"
    using next_payload_cursor(1) [OF _ assms(2)] assms(1) by (simp add: in_sync_def)
  then show ?thesis
    by (rule_tac next_payload_cases [OF wf])
      (use assms in \<open>auto simp: in_sync_def frame_step_def\<close>)
qed

lemma submit_fits:
  assumes "submit e frame damage = Ok e'" "length (cap_pixels frame) < usize_bound - 1"
  shows "capture_fits (enc_geometry e) frame"
  using assms by (auto simp: submit_def capture_fits_def usize_def Let_def split: if_splits)

lemma submit_in_sync:
  assumes "in_sync (e, d)" "submit e frame damage = Ok e'" "length (cap_pixels frame) < usize_bound - 1"
  shows "in_sync (e', d)"
proof -
  have wf: "wf_encoder e" using assms(1) by (simp add: in_sync_def)
  note fits = submit_fits [OF assms(2,3)]
  have len: "length (cap_pixels frame) < usize_bound" using assms(3) by simp
  show ?thesis
    using assms submit_Ok [OF wf fits len, of damage] submit_wf [OF wf fits len assms(2)]
    by (auto simp: in_sync_def cursor_staged_def stage_frame_def set_frame_def split: option.splits)
qed

lemma submit_cursor_image_in_sync:
  "in_sync (e, d) \<Longrightarrow> submit_cursor_image e img = Ok e' \<Longrightarrow> in_sync (e', d)"
  by (auto simp: in_sync_def submit_cursor_image_def set_cursor_image_def stage_cursor_image_def
      wf_encoder_def cursor_staged_def)

lemma submit_cursor_position_in_sync:
  "in_sync (e, d) \<Longrightarrow> in_sync (submit_cursor_position e pos, d)"
  by (auto simp: in_sync_def submit_cursor_position_def set_cursor_position_def
      stage_cursor_position_def wf_encoder_def cursor_staged_def)

lemma request_keyframe_in_sync: "in_sync (e, d) \<Longrightarrow> in_sync (encoder_request_keyframe e, d)"
  by (simp add: in_sync_def encoder_request_keyframe_def request_keyframe_def
      wf_encoder_def cursor_staged_def)

lemma codec_step_in_sync:
  "codec_step allowed s s' \<Longrightarrow> in_sync s \<Longrightarrow> in_sync s'"
proof (induction rule: codec_step.induct)
  case (pull e p e' d result d')
  then show ?case using payload_in_sync [OF pull.prems pull.hyps(1)] by auto
qed (blast intro: submit_in_sync idle_in_sync submit_cursor_image_in_sync
    submit_cursor_position_in_sync request_keyframe_in_sync)+

lemma reachable_in_sync:
  "(codec_step allowed)\<^sup>*\<^sup>* s s' \<Longrightarrow> in_sync s \<Longrightarrow> in_sync s'"
  by (induction rule: rtranclp_induct) (auto intro: codec_step_in_sync)

section \<open>Honest damage hints\<close>

text \<open>
  A hint is honest when every pixel that differs from the frame staged before is covered by it.
  With honest hints the reference, and with it the viewer's frame, is the last capture as soon as
  nothing is pending, however many captures were displaced in between.
\<close>

definition honest_capture :: "encoder \<Rightarrow> capture \<Rightarrow> rect list option \<Rightarrow> bool" where
  "honest_capture e frame damage \<longleftrightarrow>
     (\<forall>k<pixel_count (enc_geometry e).
        captured_pixels (enc_geometry e) frame ! k \<noteq> st_frame (enc_staging e) ! k \<longrightarrow>
        hint_covers damage (k mod geo_width (enc_geometry e)) (k div geo_width (enc_geometry e)))"

definition hint_tracks :: "encoder \<Rightarrow> bool" where
  "hint_tracks e \<longleftrightarrow>
     (\<not> st_frame_pending (enc_staging e) \<longrightarrow> st_hint (enc_staging e) = Some []) \<and>
     (enc_has_reference e \<longrightarrow> (\<forall>k<pixel_count (enc_geometry e).
        enc_reference e ! k \<noteq> st_frame (enc_staging e) ! k \<longrightarrow>
        hint_covers (st_hint (enc_staging e))
          (k mod geo_width (enc_geometry e)) (k div geo_width (enc_geometry e))))"

lemma hint_tracks_new: "hint_tracks (encoder_new c)"
  by (simp add: hint_tracks_def encoder_new_def staging_new_def Let_def)

lemma hint_tracks_idle:
  assumes "wf_encoder e" "hint_tracks e" "enc_has_reference e" "\<not> st_frame_pending (enc_staging e)"
  shows "enc_reference e = st_frame (enc_staging e)"
  using assms by (intro nth_equalityI) (auto simp: hint_tracks_def wf_encoder_def hint_covers_def)

lemma untouched_tile:
  assumes "wf_encoder e" "hint_tracks e" "enc_has_reference e" "tile (enc_geometry e) j = Some r"
    and "\<not> compared e (st_hint (enc_staging e)) j"
  shows "tile_pixels (enc_reference e) (geo_width (enc_geometry e)) r =
    tile_pixels (st_frame (enc_staging e)) (geo_width (enc_geometry e)) r"
proof (rule nth_equalityI)
  let ?g = "enc_geometry e" and ?w = "geo_width (enc_geometry e)"
  fix k assume "k < length (tile_pixels (enc_reference e) ?w r)"
  then have k: "k < rect_height r * rect_width r" by simp
  have g: "wf_geometry ?g" "length (enc_reference e) = ?w * geo_height ?g"
    using assms(1) by (simp_all add: wf_encoder_def pixel_count_def)
  note p = rect_position [OF tile_fits [OF g(1) assms(4)] g(2) k]
  let ?x = "rect_x r + k mod rect_width r" and ?y = "rect_y r + k div rect_width r"
  have "tile_of ?g ?x ?y = j" using tile_rectD [OF g(1) assms(4)] p(1) by blast
  then have "\<not> hint_covers (st_hint (enc_staging e)) ?x ?y"
    using assms(5) p(2,3) by (auto simp: compared_def)
  then have "enc_reference e ! (?y * ?w + ?x) = st_frame (enc_staging e) ! (?y * ?w + ?x)"
    using assms(2,3) p(2,4) g by (auto simp: hint_tracks_def pixel_count_def)
  then show "tile_pixels (enc_reference e) ?w r ! k =
      tile_pixels (st_frame (enc_staging e)) ?w r ! k"
    using k by (simp add: tile_pixels_def add.assoc)
qed simp

lemma delta_reaches_frame:
  assumes "wf_encoder e" "hint_tracks e" "frame_step e e'" "delta_outcome e e'" "enc_has_reference e"
  shows "enc_reference e' = st_frame (enc_staging e)"
proof (cases "st_frame_pending (enc_staging e)")
  case True
  show ?thesis
  proof (rule frame_eq_by_tiles [of "enc_geometry e"])
    fix j r assume t: "tile (enc_geometry e) j = Some r"
    then show "tile_pixels (enc_reference e') (geo_width (enc_geometry e)) r =
        tile_pixels (st_frame (enc_staging e)) (geo_width (enc_geometry e)) r"
      using assms(4) True untouched_tile [OF assms(1,2,5) t] by (auto simp: delta_outcome_def)
  qed (use assms(1,3) in \<open>auto simp: wf_encoder_def frame_step_def\<close>)
next
  case False
  then show ?thesis
    using assms hint_tracks_idle [of e] by (simp add: delta_outcome_def)
qed

lemma hint_tracks_reference:
  assumes "enc_reference e = st_frame (enc_staging e) \<or> \<not> enc_has_reference e"
    and "\<not> st_frame_pending (enc_staging e) \<longrightarrow> st_hint (enc_staging e) = Some []"
  shows "hint_tracks e"
  using assms by (auto simp: hint_tracks_def)

lemma next_payload_hint_tracks:
  assumes "wf_encoder e" "hint_tracks e" "next_payload e = Ok (p, e')"
  shows "hint_tracks e'"
proof (rule next_payload_cases [OF assms(1)])
  have hint: "st_hint (enc_staging e') = Some []" if "frame_step e e'"
    using that assms(2) by (auto simp: frame_step_def hint_tracks_def)
  {
    fix bs e'' assume "next_payload e = Ok (Some (Keyframe (write_header True (enc_geometry e) @ bs)), e'')"
      "enc_reference e'' = st_frame (enc_staging e)" "frame_step e e''"
    then show ?thesis using assms(3) hint
      by (intro hint_tracks_reference) (auto simp: frame_step_def)
  next
    fix bs e'' assume "next_payload e = Ok (Some (TileDelta (write_header False (enc_geometry e) @ bs)), e'')"
      "enc_has_reference e" "frame_step e e''" "delta_outcome e e''"
    then show ?thesis using assms(3) hint delta_reaches_frame [OF assms(1,2)]
      by (intro hint_tracks_reference) (auto simp: frame_step_def)
  next
    fix q e'' assume "next_payload e = Ok (q, e'')" "frame_step e e''" "delta_outcome e e''"
    then show ?thesis using assms(3) hint delta_reaches_frame [OF assms(1,2)]
      by (intro hint_tracks_reference) (auto simp: frame_step_def delta_outcome_def)
  }
qed

lemma submit_hint_tracks:
  assumes "wf_encoder e" "hint_tracks e" "honest_capture e frame damage"
    and "submit e frame damage = Ok e'" "length (cap_pixels frame) < usize_bound - 1"
  shows "hint_tracks e'"
proof -
  let ?g = "enc_geometry e"
  have len: "length (cap_pixels frame) < usize_bound" using assms(5) by simp
  have e': "e' = e\<lparr>enc_staging :=
      stage_frame damage (set_frame (captured_pixels ?g frame) (enc_staging e))\<rparr>"
    using submit_Ok [OF assms(1) submit_fits [OF assms(4,5)] len] assms(4) by simp
  have "st_frame_pending (enc_staging e')" "st_frame (enc_staging e') = captured_pixels ?g frame"
    "enc_has_reference e' = enc_has_reference e" "enc_reference e' = enc_reference e"
    "enc_geometry e' = ?g"
    using e' by (auto simp: stage_frame_def set_frame_def split: option.splits)
  moreover have "hint_covers (st_hint (enc_staging e')) x y \<longleftrightarrow>
      hint_covers damage x y \<or> hint_covers (st_hint (enc_staging e)) x y" for x y
    using e' by (simp add: stage_frame_hint set_frame_def)
  ultimately show ?thesis
    using assms(2,3) unfolding hint_tracks_def honest_capture_def by metis
qed

lemma codec_step_hint_tracks:
  "codec_step honest_capture s s' \<Longrightarrow> in_sync s \<Longrightarrow> hint_tracks (fst s) \<Longrightarrow> hint_tracks (fst s')"
proof (induction rule: codec_step.induct)
  case (capture e frame damage e' d)
  then show ?case using submit_hint_tracks by (auto simp: in_sync_def)
next
  case (pull e p e' d result d')
  then show ?case using next_payload_hint_tracks by (auto simp: in_sync_def)
next
  case (idle e e' d)
  then show ?case using next_payload_hint_tracks by (auto simp: in_sync_def)
qed (auto simp: hint_tracks_def submit_cursor_image_def submit_cursor_position_def
    encoder_request_keyframe_def set_cursor_image_def stage_cursor_image_def
    set_cursor_position_def stage_cursor_position_def request_keyframe_def)

lemma reachable_hint_tracks:
  "(codec_step honest_capture)\<^sup>*\<^sup>* s s' \<Longrightarrow> in_sync s \<Longrightarrow> hint_tracks (fst s) \<Longrightarrow>
   in_sync s' \<and> hint_tracks (fst s')"
  by (induction rule: rtranclp_induct) (auto intro: codec_step_in_sync codec_step_hint_tracks)

section \<open>The protective sweep\<close>

text \<open>One capture and one payload, again and again: what the guest does while the screen is shown.\<close>

fun show_frames ::
  "encoder \<Rightarrow> (capture \<times> rect list option) list \<Rightarrow> (CodecError, encoder) outcome" where
  "show_frames e [] = Ok e"
| "show_frames e ((frame, damage) # rest) =
     obind (submit e frame damage) (\<lambda>e1. obind (next_payload e1) (\<lambda>(_, e2). show_frames e2 rest))"

definition settled :: "encoder \<Rightarrow> u32 list \<Rightarrow> nat \<Rightarrow> bool" where
  "settled e px i \<longleftrightarrow> \<not> tile_changed (enc_geometry e) (enc_reference e) px i"

definition sweep_stride :: "encoder \<Rightarrow> nat" where
  "sweep_stride e = div_ceil (tile_count (enc_geometry e)) (enc_refresh_interval e)"

lemma settled_all:
  assumes "wf_encoder e" "length px = pixel_count (enc_geometry e)"
    and "\<And>i. i < tile_count (enc_geometry e) \<Longrightarrow> settled e px i"
  shows "enc_reference e = px"
proof (rule frame_eq_by_tiles [of "enc_geometry e"])
  fix i r assume "tile (enc_geometry e) i = Some r"
  then show "tile_pixels (enc_reference e) (geo_width (enc_geometry e)) r =
      tile_pixels px (geo_width (enc_geometry e)) r"
    using assms(3) [of i] tile_SomeD [of "enc_geometry e" i r]
    by (simp add: settled_def tile_changed_def tile_rect_def)
qed (use assms in \<open>auto simp: wf_encoder_def\<close>)

lemma sweep_slice_iff:
  assumes "0 < enc_refresh_interval e" "0 < tile_count (enc_geometry e)" "m < sweep_stride e"
  shows "(enc_sweep e + m) mod tile_count (enc_geometry e) \<in> sweep_slice e"
proof -
  let ?n = "tile_count (enc_geometry e)"
  have "m mod ?n < min (sweep_stride e) ?n"
    using assms by (metis le_less_trans min_less_iff_conj mod_less_divisor mod_less_eq_dividend)
  moreover have "(enc_sweep e + m) mod ?n = (enc_sweep e + m mod ?n) mod ?n"
    by (simp add: mod_add_right_eq)
  ultimately show ?thesis
    using assms(1) by (auto simp: sweep_slice_def sweep_stride_def Let_def)
qed

lemma show_frame_step:
  assumes wf: "wf_encoder e" and fits: "capture_fits (enc_geometry e) frame"
    and len: "length (cap_pixels frame) < usize_bound"
    and px: "captured_pixels (enc_geometry e) frame = px" and n: "0 < enc_refresh_interval e"
  obtains e1 p e2 where "submit e frame damage = Ok e1" "next_payload e1 = Ok (p, e2)"
    "wf_encoder e2" "enc_geometry e2 = enc_geometry e"
    "enc_refresh_interval e2 = enc_refresh_interval e"
    "\<And>i. i < tile_count (enc_geometry e) \<Longrightarrow> settled e px i \<Longrightarrow> settled e2 px i"
    "enc_reference e2 = px \<or> (enc_sweep e2 = (enc_sweep e + sweep_stride e) mod
        tile_count (enc_geometry e) \<and> (\<forall>i\<in>sweep_slice e. settled e2 px i))"
proof -
  let ?g = "enc_geometry e"
  define e1 where "e1 = e\<lparr>enc_staging :=
      stage_frame damage (set_frame (captured_pixels ?g frame) (enc_staging e))\<rparr>"
  have sub: "submit e frame damage = Ok e1"
    unfolding e1_def by (rule submit_Ok [OF wf fits len])
  have e1: "wf_encoder e1" "enc_geometry e1 = ?g" "enc_reference e1 = enc_reference e"
    "enc_sweep e1 = enc_sweep e" "enc_refresh_interval e1 = enc_refresh_interval e"
    "st_frame (enc_staging e1) = px" "st_frame_pending (enc_staging e1)"
    "sweep_slice e1 = sweep_slice e"
    using submit_wf [OF wf fits len sub] px
    by (auto simp: e1_def stage_frame_def set_frame_def sweep_slice_def Let_def split: option.splits)
  note goal = that
  have delta: ?thesis if "next_payload e1 = Ok (p, e2)" "frame_step e1 e2" "delta_outcome e1 e2" for p e2
  proof (rule goal [OF sub that(1)])
    have tiles: "tile_pixels (enc_reference e2) (geo_width ?g) r = tile_pixels
        (if compared e1 (st_hint (enc_staging e1)) j then px else enc_reference e) (geo_width ?g) r"
      if "tile ?g j = Some r" for j r
      using \<open>delta_outcome e1 e2\<close> e1 that by (simp add: delta_outcome_def)
    have tile: "\<exists>r. tile ?g j = Some r" if "j < tile_count ?g" for j
      using that tile_eq_Some_iff by blast
    show "settled e2 px i" if "i < tile_count ?g" "settled e px i" for i
      using tile [OF that(1)] that(2) tiles \<open>frame_step e1 e2\<close> e1(2)
      by (auto simp: settled_def tile_changed_def tile_rect_def frame_step_def)
    have "settled e2 px i" if i: "i \<in> sweep_slice e" for i
    proof -
      have "i < tile_count ?g" using i wf by (auto simp: sweep_slice_def wf_encoder_def Let_def split: if_splits)
      then show ?thesis
        using tile [of i] tiles i \<open>frame_step e1 e2\<close> e1(2,8)
        by (auto simp: settled_def tile_changed_def tile_rect_def frame_step_def compared_def)
    qed
    then show "enc_reference e2 = px \<or> (enc_sweep e2 = (enc_sweep e + sweep_stride e) mod
        tile_count ?g \<and> (\<forall>i\<in>sweep_slice e. settled e2 px i))"
      using \<open>delta_outcome e1 e2\<close> e1 n by (simp add: delta_outcome_def sweep_stride_def)
  qed (use \<open>frame_step e1 e2\<close> e1 in \<open>simp_all add: frame_step_def\<close>)
  show ?thesis
  proof (rule next_payload_cases [OF e1(1)])
    fix bs e2 assume "next_payload e1 = Ok (Some (Keyframe (write_header True (enc_geometry e1) @ bs)), e2)"
      "enc_reference e2 = st_frame (enc_staging e1)" "frame_step e1 e2"
    then show ?thesis
      using e1 sub by (intro goal [of e1 _ e2]) (auto simp: frame_step_def settled_def tile_changed_def)
  qed (use delta in blast)+
qed

text \<open>
  However wrong the hints are, a screen that does not change is shown in full after
  \<open>refresh_interval\<close> captures.
\<close>

lemma show_frames_settles:
  assumes "0 < enc_refresh_interval e" "length px = pixel_count (enc_geometry e)"
  shows "wf_encoder e \<Longrightarrow>
    \<forall>(frame, damage)\<in>set fs. capture_fits (enc_geometry e) frame \<and>
      length (cap_pixels frame) < usize_bound \<and> captured_pixels (enc_geometry e) frame = px \<Longrightarrow>
    \<exists>e'. show_frames e fs = Ok e' \<and> wf_encoder e' \<and> enc_geometry e' = enc_geometry e \<and>
      (\<forall>i<tile_count (enc_geometry e). settled e px i \<or>
         (\<exists>m<length fs * sweep_stride e. i = (enc_sweep e + m) mod tile_count (enc_geometry e)) \<longrightarrow>
         settled e' px i)"
  using assms
proof (induction fs arbitrary: e)
  case (Cons fd fs)
  obtain frame damage where fd: "fd = (frame, damage)" by force
  let ?n = "tile_count (enc_geometry e)"
  have n: "0 < ?n" using geometry_bounds(3) Cons.prems(1) by (simp add: wf_encoder_def)
  obtain e1 p e2 where step: "submit e frame damage = Ok e1" "next_payload e1 = Ok (p, e2)"
    "wf_encoder e2" "enc_geometry e2 = enc_geometry e"
    "enc_refresh_interval e2 = enc_refresh_interval e"
    "\<And>i. i < ?n \<Longrightarrow> settled e px i \<Longrightarrow> settled e2 px i"
    "enc_reference e2 = px \<or> (enc_sweep e2 = (enc_sweep e + sweep_stride e) mod ?n \<and>
       (\<forall>i\<in>sweep_slice e. settled e2 px i))"
    using show_frame_step [OF Cons.prems(1), of frame px damage] Cons.prems fd by auto
  have str: "sweep_stride e2 = sweep_stride e" using step by (simp add: sweep_stride_def)
  have rest: "\<forall>(frame, damage)\<in>set fs. capture_fits (enc_geometry e) frame \<and>
      length (cap_pixels frame) < usize_bound \<and> captured_pixels (enc_geometry e) frame = px"
    using Cons.prems(2) by simp
  obtain e' where IH: "show_frames e2 fs = Ok e'" "wf_encoder e'" "enc_geometry e' = enc_geometry e"
    "\<And>i. i < ?n \<Longrightarrow> settled e2 px i \<or> (\<exists>m<length fs * sweep_stride e.
         i = (enc_sweep e2 + m) mod ?n) \<Longrightarrow> settled e' px i"
    using Cons.IH [of e2, unfolded step(4,5) str, OF step(3) rest Cons.prems(3,4)] by blast
  have "settled e' px i" if "i < ?n" "m < length (fd # fs) * sweep_stride e"
    "i = (enc_sweep e + m) mod ?n" for i m
  proof (cases "enc_reference e2 = px")
    case True
    then show ?thesis using IH(4) that(1) by (simp add: settled_def tile_changed_def)
  next
    case False
    then have sw: "enc_sweep e2 = (enc_sweep e + sweep_stride e) mod ?n"
      "\<forall>i\<in>sweep_slice e. settled e2 px i" using step(7) by auto
    show ?thesis
    proof (cases "m < sweep_stride e")
      case True
      then show ?thesis
        using IH(4) [OF that(1)] sw(2) that(3) sweep_slice_iff [OF Cons.prems(3) n True] by simp
    next
      case False
      then obtain k where k: "m = sweep_stride e + k" using le_Suc_ex not_less by blast
      then have "k < length fs * sweep_stride e" using that(2) by simp
      moreover have "i = (enc_sweep e2 + k) mod ?n"
        using that(3) k sw(1) by (simp add: mod_add_left_eq add.assoc)
      ultimately show ?thesis using IH(4) [OF that(1)] by blast
    qed
  qed
  then show ?case
    using step(1,2,6) IH fd by (intro exI [of _ e']) auto
qed auto

lemma sweep_reaches:
  assumes "s < n" "i < (n :: nat)" "n \<le> k"
  shows "\<exists>m<k. i = (s + m) mod n"
proof (intro exI conjI)
  show "(if s \<le> i then i - s else i + n - s) < k" using assms by auto
  show "i = (s + (if s \<le> i then i - s else i + n - s)) mod n" using assms by auto
qed

lemma sweep_repairs_static:
  assumes "wf_encoder e" "0 < enc_refresh_interval e" "length fs = enc_refresh_interval e"
    and "\<forall>(frame, damage)\<in>set fs. capture_fits (enc_geometry e) frame \<and>
      length (cap_pixels frame) < usize_bound \<and> captured_pixels (enc_geometry e) frame = px"
  shows "\<exists>e'. show_frames e fs = Ok e' \<and> enc_reference e' = px"
proof -
  let ?n = "tile_count (enc_geometry e)"
  obtain frame damage where "(frame, damage) \<in> set fs"
    using assms(2,3) by (metis length_greater_0_conv list.set_sel(1) surj_pair)
  then have px: "length px = pixel_count (enc_geometry e)"
    using assms(4) length_captured_pixels by fastforce
  have "?n \<le> length fs * sweep_stride e"
    using div_ceil_mult_ge [OF assms(2), of ?n] assms(3) by (simp add: sweep_stride_def mult.commute)
  then have all: "\<exists>m<length fs * sweep_stride e. i = (enc_sweep e + m) mod ?n" if "i < ?n" for i
    using sweep_reaches [OF _ that] assms(1) by (simp add: wf_encoder_def)
  obtain e' where "show_frames e fs = Ok e'" "wf_encoder e'" "enc_geometry e' = enc_geometry e"
    "\<And>i. i < ?n \<Longrightarrow> settled e' px i"
    using show_frames_settles [OF assms(2) px assms(1,4)] all by auto
  then show ?thesis using settled_all [of e' px] px by auto
qed

section \<open>Recovery\<close>

text \<open>
  Whatever a decoder of the right geometry holds, a requested keyframe brings it back in step.
\<close>

lemma keyframe_recovers:
  assumes "wf_encoder e" "cursor_staged (enc_staging e)" "wf_decoder d"
    and "dec_geometry d = enc_geometry e"
    and "enc_has_reference e \<or> st_frame_pending (enc_staging e)"
  shows "\<exists>bs e' damage d'. next_payload (encoder_request_keyframe e) = Ok (Some (Keyframe bs), e') \<and>
    apply_keyframe d bs = (Ok damage, d') \<and> in_sync (e', d') \<and>
    dec_frame d' = pixels_to_le (st_frame (enc_staging e))"
proof -
  let ?e = "encoder_request_keyframe e" and ?g = "enc_geometry e"
  have r: "wf_encoder ?e" "keyframe_next ?e" "enc_geometry ?e = ?g"
    "st_frame (enc_staging ?e) = st_frame (enc_staging e)" "cursor_staged (enc_staging ?e)"
    using assms by (auto simp: encoder_request_keyframe_def request_keyframe_def wf_encoder_def
        keyframe_next_def cursor_staged_def)
  obtain bs e' where k: "next_payload ?e = Ok (Some (Keyframe (write_header True ?g @ bs)), e')"
    "keyframe_tiles ?g (st_frame (enc_staging e)) 0 = Ok bs"
    "enc_reference e' = st_frame (enc_staging e)" "enc_has_reference e'" "frame_step ?e e'"
    using next_payload_keyframe [OF r(1,2)] r(3,4) by metis
  have frame: "length (st_frame (enc_staging e)) = pixel_count ?g"
    using assms(1) by (simp add: wf_encoder_def)
  obtain damage d' where a: "apply_keyframe d (write_header True ?g @ bs) = (Ok damage, d')"
    "dec_geometry d' = ?g" "dec_has_frame d'" "dec_frame d' = pixels_to_le (st_frame (enc_staging e))"
    using apply_keyframe_payload [OF assms(3), of "st_frame (enc_staging e)" bs] frame assms(4) k(2)
    by simp
  have "wf_decoder d'" using apply_keyframe_safe(2) [OF assms(3) a(1)] .
  then have "in_sync (e', d')"
    using a k r(3) next_payload_cursor(1) [OF r(5) k(1)] by (simp add: in_sync_def frame_step_def)
  then show ?thesis using k(1) a by blast
qed

end
