(* ===== verification/Byte_Stream.thy ===== *)
theory Byte_Stream
  imports Prelude
begin

text \<open>
  The standard library's byte streams as the protocol crates use them. A transport under
  \<open>std::io::Read\<close> is a clock and the list of what its next calls will meet: how long the call
  takes, and a chunk of bytes, which may be split over several reads, or a fault. An exhausted
  list and an empty chunk are an end of stream, which \<open>read\<close> reports as \<open>Ok(0)\<close>. A transport under
  \<open>std::io::Write\<close> is what it has taken so far and the list of how its next calls go: a
  \<open>write_all\<close> that fails may have written any number of bytes first.
\<close>

section \<open>Reading\<close>

datatype io_kind = Interrupted | TimedOut | WouldBlock | UnexpectedEof | OtherIo nat

datatype read_event = Data bytes | Fault io_kind

text \<open>Times are milliseconds.\<close>

record reader =
  rd_clock :: nat
  rd_events :: "(nat \<times> read_event) list"

text \<open>\<open>Read::read\<close> into a buffer of \<open>n\<close> bytes.\<close>

definition reader_read :: "nat \<Rightarrow> reader \<Rightarrow> (io_kind, bytes) outcome \<times> reader" where
  "reader_read n r =
     (case rd_events r of
        [] \<Rightarrow> (Ok [], r)
      | (t, Data bs) # evs \<Rightarrow>
          (Ok (take n bs), r\<lparr>rd_clock := rd_clock r + t,
             rd_events := (if length bs \<le> n then evs else (0, Data (drop n bs)) # evs)\<rparr>)
      | (t, Fault k) # evs \<Rightarrow> (Err k, r\<lparr>rd_clock := rd_clock r + t, rd_events := evs\<rparr>))"

lemma reader_read_progress:
  "reader_read n r = (Ok bs, r') \<Longrightarrow> bs \<noteq> [] \<Longrightarrow>
   length (rd_events r') + (n - length bs) < length (rd_events r) + n"
  by (auto simp: reader_read_def split: list.splits read_event.splits if_splits)

lemma reader_read_fault:
  "reader_read n r = (Err k, r') \<Longrightarrow> length (rd_events r') < length (rd_events r)"
  by (auto simp: reader_read_def split: list.splits read_event.splits)

lemma reader_read_not_Panic [simp]: "reader_read n r \<noteq> (Panic, r')"
  by (auto simp: reader_read_def split: list.splits read_event.splits)

text \<open>\<open>Read::read_exact\<close>: interruptions are retried, an early end of stream is an error.\<close>

function read_exact :: "nat \<Rightarrow> reader \<Rightarrow> (io_kind, bytes) outcome \<times> reader" where
  "read_exact n r =
     (if n = 0 then (Ok [], r)
      else case reader_read n r of
          (Ok bs, r') \<Rightarrow>
            if bs = [] then (Err UnexpectedEof, r')
            else (case read_exact (n - length bs) r' of
                (Ok rest, r'') \<Rightarrow> (Ok (bs @ rest), r'')
              | (Err k, r'') \<Rightarrow> (Err k, r'')
              | (Panic, r'') \<Rightarrow> (Panic, r''))
        | (Err k, r') \<Rightarrow> if k = Interrupted then read_exact n r' else (Err k, r')
        | (Panic, r') \<Rightarrow> (Panic, r'))"
  by pat_completeness auto
termination
  by (relation "measure (\<lambda>(n, r). length (rd_events r) + n)")
    (auto dest: reader_read_progress [OF sym] reader_read_fault [OF sym])

declare read_exact.simps [simp del]

text \<open>
  What a healthy stream delivers, independent of how the transport cuts it into chunks. Its
  faults are the ones the caller retries: interruptions, and expired polls where it waits.
\<close>

fun live :: "io_kind set \<Rightarrow> (nat \<times> read_event) list \<Rightarrow> bool" where
  "live retried [] = True"
| "live retried ((t, Data bs) # evs) = (bs \<noteq> [] \<and> live retried evs)"
| "live retried ((t, Fault k) # evs) = (k \<in> retried \<and> live retried evs)"

fun stream_bytes :: "(nat \<times> read_event) list \<Rightarrow> bytes" where
  "stream_bytes [] = []"
| "stream_bytes ((t, Data bs) # evs) = bs @ stream_bytes evs"
| "stream_bytes ((t, Fault k) # evs) = stream_bytes evs"

definition elapsed :: "(nat \<times> read_event) list \<Rightarrow> nat" where
  "elapsed evs = sum_list (map fst evs)"

text \<open>One read of a healthy stream: a fault to retry, or some of its bytes.\<close>

lemma reader_read_live:
  assumes "live retried (rd_events r)" "0 < n"
  obtains (fault) k r' where "reader_read n r = (Err k, r')" "k \<in> retried"
      "live retried (rd_events r')" "stream_bytes (rd_events r') = stream_bytes (rd_events r)"
      "rd_clock r' + elapsed (rd_events r') = rd_clock r + elapsed (rd_events r)"
      "rd_clock r \<le> rd_clock r'"
  | (eof) "reader_read n r = (Ok [], r)" "stream_bytes (rd_events r) = []"
  | (data) bs r' where "reader_read n r = (Ok bs, r')" "bs \<noteq> []" "length bs \<le> n"
      "live retried (rd_events r')" "stream_bytes (rd_events r) = bs @ stream_bytes (rd_events r')"
      "rd_clock r' + elapsed (rd_events r') = rd_clock r + elapsed (rd_events r)"
      "rd_clock r \<le> rd_clock r'"
proof (cases "rd_events r")
  case Nil
  then show ?thesis by (intro eof) (simp_all add: reader_read_def)
next
  case (Cons ev evs)
  obtain t e where ev: "ev = (t, e)" by force
  show ?thesis
  proof (cases e)
    case (Data bs)
    then show ?thesis
      using assms Cons ev by (intro data [of "take n bs" "snd (reader_read n r)"])
        (auto simp: reader_read_def elapsed_def)
  next
    case (Fault k)
    then show ?thesis
      using assms Cons ev by (intro fault [of k "snd (reader_read n r)"])
        (auto simp: reader_read_def elapsed_def)
  qed
qed

lemma read_exact_live:
  assumes "live {Interrupted} (rd_events r)"
  shows "\<exists>r'. live {Interrupted} (rd_events r') \<and> read_exact n r =
    (if n \<le> length (stream_bytes (rd_events r)) then Ok (take n (stream_bytes (rd_events r)))
     else Err UnexpectedEof, r') \<and>
    (n \<le> length (stream_bytes (rd_events r)) \<longrightarrow>
       stream_bytes (rd_events r') = drop n (stream_bytes (rd_events r)))"
  using assms
proof (induction "length (rd_events r) + n" arbitrary: n r rule: less_induct)
  case less
  show ?case
  proof (cases "n = 0")
    case True
    then have "read_exact n r = (Ok [], r)" by (subst read_exact.simps) simp
    then show ?thesis using less.prems True by simp
  next
    case False
    then have "0 < n" by simp
    with less.prems show ?thesis
    proof (cases rule: reader_read_live)
      case (fault k r')
      have eq: "read_exact n r = read_exact n r'"
        using fault(1,2) False by (subst read_exact.simps) simp
      have "length (rd_events r') + n < length (rd_events r) + n"
        using reader_read_fault [OF fault(1)] by simp
      from less.hyps [OF this fault(3)] show ?thesis unfolding eq fault(4) .
    next
      case eof
      then have "read_exact n r = (Err UnexpectedEof, r)"
        using False by (subst read_exact.simps) simp
      then show ?thesis using less.prems eof(2) False by simp
    next
      case (data bs r')
      have "length (rd_events r') + (n - length bs) < length (rd_events r) + n"
        using reader_read_progress [OF data(1,2)] .
      from less.hyps [OF this data(4)] obtain r'' where IH: "live {Interrupted} (rd_events r'')"
        "read_exact (n - length bs) r' = (if n - length bs \<le> length (stream_bytes (rd_events r'))
           then Ok (take (n - length bs) (stream_bytes (rd_events r'))) else Err UnexpectedEof, r'')"
        "n - length bs \<le> length (stream_bytes (rd_events r')) \<Longrightarrow>
           stream_bytes (rd_events r'') = drop (n - length bs) (stream_bytes (rd_events r'))"
        by blast
      have "read_exact n r = (if n \<le> length (stream_bytes (rd_events r))
          then Ok (take n (stream_bytes (rd_events r))) else Err UnexpectedEof, r'')"
        using data IH(2) False by (subst read_exact.simps) (simp add: le_diff_conv)
      then show ?thesis using IH(1,3) data(3,5) by (auto simp: le_diff_conv)
    qed
  qed
qed

section \<open>Writing\<close>

datatype write_event = Accept | Refuse nat io_kind

record sink =
  sink_taken :: bytes
  sink_script :: "write_event list"

text \<open>\<open>Write::write_all\<close>, and \<open>Write::flush\<close> as a write of nothing.\<close>

fun write_all :: "bytes \<Rightarrow> sink \<Rightarrow> (io_kind, unit) outcome \<times> sink" where
  "write_all bs s =
     (case sink_script s of
        [] \<Rightarrow> (Ok (), s\<lparr>sink_taken := sink_taken s @ bs\<rparr>)
      | Accept # evs \<Rightarrow> (Ok (), s\<lparr>sink_taken := sink_taken s @ bs, sink_script := evs\<rparr>)
      | Refuse n k # evs \<Rightarrow> (Err k, s\<lparr>sink_taken := sink_taken s @ take n bs, sink_script := evs\<rparr>))"

definition flush :: "sink \<Rightarrow> (io_kind, unit) outcome \<times> sink" where
  "flush s = write_all [] s"

lemma write_all_prefix:
  "write_all bs s = (result, s') \<Longrightarrow>
   \<exists>n. sink_taken s' = sink_taken s @ take n bs \<and> (result = Ok () \<longrightarrow> take n bs = bs)"
  by (auto split: list.splits write_event.splits intro: exI [of _ "length bs"])

end
