(* ===== verification/Agent_Frame.thy ===== *)
theory Agent_Frame
  imports Byte_Stream Prefix_Code
begin

text \<open>
  Framing of the agent protocol (\<open>agent-protocol/src/frame.rs\<close>): a four-byte little-endian length
  and the encoded envelope. The Protobuf encoder and decoder are generated code and parameters
  here (\<open>encode_env\<close>, whose length is \<open>encoded_len\<close>, and \<open>decode_env\<close>); framing itself does not
  depend on them, so it is stated on bodies, and envelopes come back where decoding inverts
  encoding. The shapes of \<open>envelope.rs\<close> close the theory.
\<close>

section \<open>Definitions\<close>

definition LENGTH_PREFIX_LEN :: nat where "LENGTH_PREFIX_LEN = 4"
definition MAX_BODY_LEN :: nat where "MAX_BODY_LEN = 1024 * 1024"

datatype 'd FrameError = TooLarge nat | Closed | Idle | Io io_kind | Decode 'd

definition frame_encode :: "('env \<Rightarrow> bytes) \<Rightarrow> 'env \<Rightarrow> ('d FrameError, bytes) outcome" where
  "frame_encode encode_env envelope =
     (let body_len = length (encode_env envelope) in
      obind (ok_or (if body_len \<le> u32_max \<and> body_len \<le> MAX_BODY_LEN
                    then Some (of_nat body_len :: u32) else None) (TooLarge body_len))
        (\<lambda>prefix. Ok (u32_to_le prefix @ encode_env envelope)))"

definition frame_body_len :: "bytes \<Rightarrow> ('d FrameError, nat) outcome" where
  "frame_body_len prefix =
     (let body_len = unat (u32_from_le (prefix ! 0) (prefix ! 1) (prefix ! 2) (prefix ! 3)) in
      if body_len > MAX_BODY_LEN then Err (TooLarge body_len) else Ok body_len)"

definition frame_decode :: "(bytes \<Rightarrow> ('d, 'env) outcome) \<Rightarrow> bytes \<Rightarrow> ('d FrameError, 'env) outcome" where
  "frame_decode decode_env body =
     (case decode_env body of Ok env \<Rightarrow> Ok env | Err err \<Rightarrow> Err (Decode err) | Panic \<Rightarrow> Panic)"

definition frame_write ::
  "('env \<Rightarrow> bytes) \<Rightarrow> 'env \<Rightarrow> sink \<Rightarrow> ('d FrameError, unit) outcome \<times> sink" where
  "frame_write encode_env envelope writer =
     (case frame_encode encode_env envelope of
        Err err \<Rightarrow> (Err err, writer)
      | Panic \<Rightarrow> (Panic, writer)
      | Ok buffer \<Rightarrow>
          (case write_all buffer writer of
             (Err k, writer') \<Rightarrow> (Err (Io k), writer')
           | (Panic, writer') \<Rightarrow> (Panic, writer')
           | (Ok _, writer') \<Rightarrow>
               (case flush writer' of
                  (Err k, writer'') \<Rightarrow> (Err (Io k), writer'')
                | (Panic, writer'') \<Rightarrow> (Panic, writer'')
                | (Ok _, writer'') \<Rightarrow> (Ok (), writer''))))"

text \<open>The prefix, read byte by byte as it comes; \<open>filled\<close> holds what has arrived.\<close>

function read_prefix :: "bytes \<Rightarrow> reader \<Rightarrow> ('d FrameError, bytes) outcome \<times> reader" where
  "read_prefix filled r =
     (if length filled < LENGTH_PREFIX_LEN then
        (case reader_read (LENGTH_PREFIX_LEN - length filled) r of
           (Ok bs, r') \<Rightarrow>
             if bs = [] then (Err (if filled = [] then Closed else Io UnexpectedEof), r')
             else read_prefix (filled @ bs) r'
         | (Err k, r') \<Rightarrow>
             if k = Interrupted then read_prefix filled r'
             else if filled = [] \<and> (k = TimedOut \<or> k = WouldBlock) then (Err Idle, r')
             else (Err (Io k), r')
         | (Panic, r') \<Rightarrow> (Panic, r'))
      else (Ok filled, r))"
  by pat_completeness auto
termination
  by (relation "measure (\<lambda>(filled, r). length (rd_events r) + (LENGTH_PREFIX_LEN - length filled))")
    (auto dest: reader_read_progress [OF sym] reader_read_fault [OF sym])

declare read_prefix.simps [simp del]

definition frame_read_body :: "reader \<Rightarrow> ('d FrameError, bytes) outcome \<times> reader" where
  "frame_read_body r =
     (case read_prefix [] r of
        (Err err, r') \<Rightarrow> (Err err, r')
      | (Panic, r') \<Rightarrow> (Panic, r')
      | (Ok prefix, r') \<Rightarrow>
          (case frame_body_len prefix of
             Err err \<Rightarrow> (Err err, r')
           | Panic \<Rightarrow> (Panic, r')
           | Ok n \<Rightarrow>
               (case read_exact n r' of
                  (Err k, r'') \<Rightarrow> (Err (Io k), r'')
                | (Panic, r'') \<Rightarrow> (Panic, r'')
                | (Ok body, r'') \<Rightarrow> (Ok body, r''))))"

definition frame_read ::
  "(bytes \<Rightarrow> ('d, 'env) outcome) \<Rightarrow> reader \<Rightarrow> ('d FrameError, 'env) outcome \<times> reader" where
  "frame_read decode_env r =
     (case frame_read_body r of
        (Err err, r') \<Rightarrow> (Err err, r')
      | (Panic, r') \<Rightarrow> (Panic, r')
      | (Ok body, r') \<Rightarrow> (frame_decode decode_env body, r'))"

text \<open>\<open>envelope.rs\<close>: a body is always present in an envelope the constructors build.\<close>

datatype ('q, 'r) Body = Request "'q option" | Response "'r option"

record ('q, 'r) Envelope =
  env_request_id :: u32
  env_body :: "('q, 'r) Body option"

definition envelope_request :: "u32 \<Rightarrow> 'q \<Rightarrow> ('q, 'r) Envelope" where
  "envelope_request i kind = \<lparr>env_request_id = i, env_body = Some (Request (Some kind))\<rparr>"

definition envelope_response :: "u32 \<Rightarrow> 'r \<Rightarrow> ('q, 'r) Envelope" where
  "envelope_response i kind = \<lparr>env_request_id = i, env_body = Some (Response (Some kind))\<rparr>"

datatype 'r response_kind = ErrorKind nat string | OtherKind 'r

definition envelope_error :: "u32 \<Rightarrow> nat \<Rightarrow> string \<Rightarrow> ('q, 'r response_kind) Envelope" where
  "envelope_error i code message = envelope_response i (ErrorKind code message)"

section \<open>The prefix arrives whole or not at all\<close>

lemma read_prefix_live:
  assumes "live {Interrupted} (rd_events r)" "length filled \<le> 4"
    and "4 - length filled \<le> length (stream_bytes (rd_events r))"
  shows "\<exists>r'. live {Interrupted} (rd_events r') \<and>
    read_prefix filled r = (Ok (filled @ take (4 - length filled) (stream_bytes (rd_events r)))
      :: ('d FrameError, bytes) outcome, r') \<and>
    stream_bytes (rd_events r') = drop (4 - length filled) (stream_bytes (rd_events r))"
  using assms
proof (induction "length (rd_events r) + (4 - length filled)" arbitrary: filled r rule: less_induct)
  case less
  note L = LENGTH_PREFIX_LEN_def
  show ?case
  proof (cases "length filled = 4")
    case True
    then have "read_prefix filled r = (Ok filled :: ('d FrameError, bytes) outcome, r)" by (subst read_prefix.simps) (simp add: L)
    then show ?thesis using less.prems True by simp
  next
    case False
    then have n: "0 < 4 - length filled" and lt: "length filled < 4" using less.prems(2) by simp_all
    from less.prems(1) n show ?thesis
    proof (cases rule: reader_read_live)
      case (fault k r')
      have eq: "read_prefix filled r = (read_prefix filled r' :: ('d FrameError, bytes) outcome \<times> reader)"
        using fault(1,2) lt by (subst read_prefix.simps) (simp add: L)
      have "length (rd_events r') + (4 - length filled) < length (rd_events r) + (4 - length filled)"
        using reader_read_fault [OF fault(1)] by simp
      from less.hyps [OF this fault(3) less.prems(2)] less.prems(3) show ?thesis
        unfolding eq fault(4) .
    next
      case eof
      then show ?thesis using less.prems(3) n by simp
    next
      case (data bs r')
      have eq: "read_prefix filled r =
          (read_prefix (filled @ bs) r' :: ('d FrameError, bytes) outcome \<times> reader)"
        using data(1,2) lt by (subst read_prefix.simps) (simp add: L)
      have "length (rd_events r') + (4 - length (filled @ bs))
          < length (rd_events r) + (4 - length filled)"
        using reader_read_progress [OF data(1,2)] by simp
      from less.hyps [OF this data(4)] data(3,5) less.prems lt
      show ?thesis unfolding eq by (auto simp: diff_diff_left)
    qed
  qed
qed

lemma frame_body_len_prefix:
  "n \<le> MAX_BODY_LEN \<Longrightarrow> frame_body_len (u32_to_le (of_nat n)) = (Ok n :: ('d FrameError, nat) outcome)"
  by (simp add: frame_body_len_def u32_to_le_def MAX_BODY_LEN_def unat_of_nat take_bit_nat_eq_self)

text \<open>
  A framed body is read back from any chunking of the stream, and what follows it stays to be
  read.
\<close>

lemma frame_read_body_live:
  assumes "live {Interrupted} (rd_events r)" "length body \<le> MAX_BODY_LEN"
    and "stream_bytes (rd_events r) = u32_to_le (of_nat (length body)) @ body @ rest"
  shows "\<exists>r'. frame_read_body r = (Ok body :: ('d FrameError, bytes) outcome, r') \<and> live {Interrupted} (rd_events r') \<and>
    stream_bytes (rd_events r') = rest"
proof -
  obtain r' where r': "live {Interrupted} (rd_events r')"
    "read_prefix [] r = (Ok (u32_to_le (of_nat (length body))) :: ('d FrameError, bytes) outcome, r')"
    "stream_bytes (rd_events r') = body @ rest"
    using read_prefix_live [OF assms(1), of "[]"] assms(3) by auto
  from read_exact_live [OF r'(1), of "length body"] r' show ?thesis
    using frame_body_len_prefix [OF assms(2), where 'd = 'd] by (auto simp: frame_read_body_def)
qed

section \<open>Frames are a prefix code\<close>

definition frame_body :: "bytes \<Rightarrow> bytes" where
  "frame_body body = u32_to_le (of_nat (length body)) @ body"

definition frame_parse :: "bytes \<Rightarrow> ('d FrameError, bytes \<times> nat) outcome" where
  "frame_parse bs =
     obind (fst (frame_read_body \<lparr>rd_clock = 0, rd_events = [(0, Data bs)]\<rparr>)) (\<lambda>body.
       Ok (body, LENGTH_PREFIX_LEN + length body))"

lemma frame_parse_body:
  assumes "length body \<le> MAX_BODY_LEN"
  shows "frame_parse (frame_body body @ rest) =
    (Ok (body, length (frame_body body)) :: ('d FrameError, bytes \<times> nat) outcome)"
proof -
  let ?r = "\<lparr>rd_clock = 0, rd_events = [(0, Data (frame_body body @ rest))]\<rparr>"
  have "live {Interrupted} (rd_events ?r)" by (auto simp: frame_body_def u32_to_le_def)
  moreover have "stream_bytes (rd_events ?r) = u32_to_le (of_nat (length body)) @ body @ rest"
    by (simp add: frame_body_def)
  ultimately obtain r' where "frame_read_body ?r = (Ok body :: ('d FrameError, bytes) outcome, r')"
    using frame_read_body_live [OF _ assms] by blast
  then show ?thesis by (simp add: frame_parse_def frame_body_def LENGTH_PREFIX_LEN_def)
qed

interpretation agent_frame: prefix_code "\<lambda>body. length body \<le> MAX_BODY_LEN" frame_body frame_parse
  by unfold_locales (rule frame_parse_body)

section \<open>Sending and receiving envelopes\<close>

lemma frame_encode_eq:
  "frame_encode encode_env env =
     (if length (encode_env env) \<le> MAX_BODY_LEN then Ok (frame_body (encode_env env))
      else Err (TooLarge (length (encode_env env))))"
  by (simp add: frame_encode_def frame_body_def MAX_BODY_LEN_def Let_def)

lemma frame_write_Ok:
  "frame_write encode_env env s = (Ok (), s') \<Longrightarrow>
   length (encode_env env) \<le> MAX_BODY_LEN \<and> sink_taken s' = sink_taken s @ frame_body (encode_env env)"
  by (auto simp: frame_write_def frame_encode_eq flush_def
      split: if_splits outcome.splits list.splits write_event.splits)

lemma frame_write_TooLarge:
  "MAX_BODY_LEN < length (encode_env env) \<Longrightarrow>
   frame_write encode_env env s = (Err (TooLarge (length (encode_env env))), s)"
  by (simp add: frame_write_def frame_encode_eq)

text \<open>A sender's loop: envelopes until one cannot be sent.\<close>

fun frame_write_many ::
  "('env \<Rightarrow> bytes) \<Rightarrow> 'env list \<Rightarrow> sink \<Rightarrow> ('d FrameError, unit) outcome \<times> sink" where
  "frame_write_many encode_env [] s = (Ok (), s)"
| "frame_write_many encode_env (env # envs) s =
     (case frame_write encode_env env s of
        (Ok _, s') \<Rightarrow> frame_write_many encode_env envs s'
      | (Err err, s') \<Rightarrow> (Err err, s')
      | (Panic, s') \<Rightarrow> (Panic, s'))"

lemma frame_write_many_Ok:
  fixes s :: sink
  assumes "frame_write_many encode_env envs s = (Ok () :: ('d FrameError, unit) outcome, s')"
  shows "(\<forall>env \<in> set envs. length (encode_env env) \<le> MAX_BODY_LEN) \<and>
    sink_taken s' = sink_taken s @ concat (map (\<lambda>env. frame_body (encode_env env)) envs)"
  using assms
proof (induction envs arbitrary: s)
  case (Cons env envs)
  then obtain s1 where "frame_write encode_env env s = (Ok () :: ('d FrameError, unit) outcome, s1)"
    "frame_write_many encode_env envs s1 = (Ok () :: ('d FrameError, unit) outcome, s')"
    by (auto split: prod.splits outcome.splits)
  then show ?case using Cons.IH [of s1] frame_write_Ok [of encode_env env s s1] by auto
qed simp

text \<open>A receiver's loop: envelopes until an error, which ends the connection.\<close>

fun frame_read_many ::
  "nat \<Rightarrow> (bytes \<Rightarrow> ('d, 'env) outcome) \<Rightarrow> reader \<Rightarrow> 'env list \<times> ('d FrameError, unit) outcome" where
  "frame_read_many 0 decode_env r = ([], Ok ())"
| "frame_read_many (Suc n) decode_env r =
     (case frame_read decode_env r of
        (Ok env, r') \<Rightarrow> (case frame_read_many n decode_env r' of (envs, res) \<Rightarrow> (env # envs, res))
      | (Err err, r') \<Rightarrow> ([], Err err)
      | (Panic, r') \<Rightarrow> ([], Panic))"

lemma frame_read_end:
  fixes decode_env :: "bytes \<Rightarrow> ('d, 'env) outcome"
  assumes "live {Interrupted} (rd_events r)" "stream_bytes (rd_events r) = []"
  shows "\<exists>r'. frame_read decode_env r = (Err Closed, r')"
proof -
  have "\<exists>r'. read_prefix [] r = (Err Closed :: ('d FrameError, bytes) outcome, r')"
    using assms
  proof (induction "length (rd_events r)" arbitrary: r rule: less_induct)
    case less
    have "0 < (4 :: nat)" by simp
    with less.prems(1) show ?case
    proof (cases rule: reader_read_live)
      case (fault k r')
      then have "read_prefix [] r = (read_prefix [] r' :: ('d FrameError, bytes) outcome \<times> reader)"
        by (subst read_prefix.simps) (simp add: LENGTH_PREFIX_LEN_def)
      then show ?thesis
        using less.hyps [OF reader_read_fault [OF fault(1)] fault(3)] fault(4) less.prems(2) by metis
    next
      case eof
      then have "read_prefix [] r = (Err Closed :: ('d FrameError, bytes) outcome, r)"
        by (subst read_prefix.simps) (simp add: LENGTH_PREFIX_LEN_def)
      then show ?thesis by blast
    next
      case (data bs r')
      then show ?thesis using less.prems(2) by simp
    qed
  qed
  then show ?thesis by (auto simp: frame_read_def frame_read_body_def)
qed

lemma frame_read_many_live:
  fixes decode_env :: "bytes \<Rightarrow> ('d, 'env) outcome"
  assumes "\<And>env. env \<in> set envs \<Longrightarrow> decode_env (encode_env env) = Ok env"
    and "\<And>env. env \<in> set envs \<Longrightarrow> length (encode_env env) \<le> MAX_BODY_LEN"
    and "live {Interrupted} (rd_events r)"
    and "stream_bytes (rd_events r) = concat (map (\<lambda>env. frame_body (encode_env env)) envs)"
  shows "frame_read_many (Suc (length envs)) decode_env r = (envs, Err Closed)"
  using assms
proof (induction envs arbitrary: r)
  case Nil
  then show ?case using frame_read_end [of r decode_env] by auto
next
  case (Cons env envs)
  let ?rest = "concat (map (\<lambda>env. frame_body (encode_env env)) envs)"
  obtain r' where r': "frame_read_body r = (Ok (encode_env env) :: ('d FrameError, bytes) outcome, r')"
    "live {Interrupted} (rd_events r')" "stream_bytes (rd_events r') = ?rest"
    using frame_read_body_live [OF Cons.prems(3), of "encode_env env" ?rest] Cons.prems(2,4)
    by (auto simp: frame_body_def [of "encode_env env"])
  have "frame_read decode_env r = (Ok env :: ('d FrameError, 'env) outcome, r')"
    using r'(1) Cons.prems(1) by (simp add: frame_read_def frame_decode_def)
  moreover have "frame_read_many (Suc (length envs)) decode_env r' = (envs, Err Closed)"
    using Cons r' by (intro Cons.IH) auto
  ultimately show ?case
    by (simp only: length_Cons frame_read_many.simps(2) [of "Suc (length envs)"]) simp
qed

text \<open>
  A frame whose prefix announces more than the cap is refused from the prefix alone: no byte of
  the body is read or allocated for.
\<close>

lemma frame_read_TooLarge:
  fixes decode_env :: "bytes \<Rightarrow> ('d, 'env) outcome"
  assumes "live {Interrupted} (rd_events r)"
    and "stream_bytes (rd_events r) = u32_to_le n @ rest" "MAX_BODY_LEN < unat n"
  shows "\<exists>r'. frame_read decode_env r = (Err (TooLarge (unat n)), r') \<and>
    stream_bytes (rd_events r') = rest"
proof -
  obtain r' where "read_prefix [] r = (Ok (u32_to_le n) :: ('d FrameError, bytes) outcome, r')"
    "stream_bytes (rd_events r') = rest"
    using read_prefix_live [OF assms(1), of "[]"] assms(2) by auto
  then show ?thesis
    using assms(3) by (simp add: frame_read_def frame_read_body_def frame_body_len_def u32_to_le_def)
qed

end
