(* ===== verification/Negotiation.thy ===== *)
theory Negotiation
  imports Prelude
begin

text \<open>
  What both protocols ask of their opening exchange, as contracts. The responder answers a hello
  with the revision and the capabilities of the session; the initiator, who made the offer,
  checks the answer and there is no third round. The contracts say what makes two independent
  decisions one agreement; the agent and the display protocol each provide an instance.
\<close>

section \<open>Revisions\<close>

record ProtocolVersion =
  ver_major :: nat
  ver_minor :: nat

text \<open>A build of one revision speaks an older minor of its own major.\<close>

definition speaks :: "ProtocolVersion \<Rightarrow> ProtocolVersion \<Rightarrow> bool" where
  "speaks build v \<longleftrightarrow> ver_major v = ver_major build \<and> ver_minor v \<le> ver_minor build"

locale revision_negotiation =
  fixes negotiate :: "ProtocolVersion \<Rightarrow> ProtocolVersion \<Rightarrow> ('e, ProtocolVersion) outcome"
    and confirm :: "ProtocolVersion \<Rightarrow> ProtocolVersion \<Rightarrow> ('e, ProtocolVersion) outcome"
  assumes negotiate_speaks: "negotiate l r = Ok v \<Longrightarrow> speaks l v \<and> speaks r v"
    and negotiate_newest: "speaks l v \<Longrightarrow> speaks r v \<Longrightarrow> \<exists>w. negotiate l r = Ok w \<and> speaks w v"
    and confirm_iff: "confirm l v = Ok w \<longleftrightarrow> w = v \<and> speaks l v"
begin

text \<open>What the responder settles on, the initiator accepts, so both run the same revision.\<close>

lemma initiator_accepts: "negotiate l r = Ok v \<Longrightarrow> confirm r v = Ok v"
  using negotiate_speaks confirm_iff by blast

lemma opens_iff: "(\<exists>v. speaks l v \<and> speaks r v) \<longleftrightarrow> (\<exists>v. negotiate l r = Ok v)"
  using negotiate_speaks negotiate_newest by blast

lemma settles_newest:
  assumes "negotiate l r = Ok v" "speaks l u" "speaks r u"
  shows "speaks v u"
  using negotiate_newest [OF assms(2,3)] assms(1) by auto

lemma negotiate_symmetric:
  assumes "negotiate l r = Ok v"
  shows "negotiate r l = Ok v"
proof -
  have v: "speaks l v" "speaks r v" using negotiate_speaks [OF assms] by simp_all
  obtain w where w: "negotiate r l = Ok w" "speaks w v" using negotiate_newest [OF v(2,1)] by blast
  have "speaks l w" "speaks r w" using negotiate_speaks [OF w(1)] by simp_all
  then obtain u where "negotiate l r = Ok u" "speaks u w" using negotiate_newest by blast
  then have "v = w" using assms w(2) by (simp add: speaks_def)
  then show ?thesis using w(1) by simp
qed

end

section \<open>Capabilities\<close>

locale capability_agreement =
  fixes wire :: "'c \<Rightarrow> int"
    and agreed :: "'c list \<Rightarrow> int list \<Rightarrow> 'c list"
    and confirm :: "'c list \<Rightarrow> int list \<Rightarrow> ('e, 'c list) outcome"
    and optional :: "'c \<Rightarrow> bool"
  assumes agreed_sound: "c \<in> set (agreed local remote) \<Longrightarrow>
      optional c \<and> c \<in> set local \<and> wire c \<in> set remote"
    and wire_inject: "wire c = wire d \<Longrightarrow> c = d"
    and confirm_offered: "set cs \<subseteq> set local \<Longrightarrow> list_all optional cs \<Longrightarrow>
      confirm local (map wire cs) = Ok cs"
    and confirm_sound: "confirm local ws = Ok cs \<Longrightarrow>
      ws = map wire cs \<and> set cs \<subseteq> set local \<and> list_all optional cs"
begin

text \<open>
  The responder's answer is accepted by the initiator who made the offer, and both ends hold the
  same list; a list with anything the initiator did not offer is refused.
\<close>

lemma agreement:
  "confirm offer (map wire (agreed mine (map wire offer))) = Ok (agreed mine (map wire offer))"
proof (rule confirm_offered)
  show "set (agreed mine (map wire offer)) \<subseteq> set offer"
    using agreed_sound wire_inject by fastforce
  show "list_all optional (agreed mine (map wire offer))"
    using agreed_sound by (simp add: list_all_iff)
qed

lemma sublist_confirmed:
  assumes "set cs \<subseteq> set (agreed mine (map wire offer))"
  shows "confirm offer (map wire cs) = Ok cs"
proof (rule confirm_offered)
  show "set cs \<subseteq> set offer" using assms agreed_sound wire_inject by fastforce
  show "list_all optional cs" using assms agreed_sound by (auto simp: list_all_iff)
qed

lemma unoffered_refused:
  assumes "w \<in> set ws" "\<And>c. c \<in> set local \<Longrightarrow> wire c \<noteq> w"
  shows "confirm local ws \<noteq> Ok cs"
  using assms confirm_sound by fastforce

end

end
