(* ===== verification/Agent_Handshake.thy ===== *)
theory Agent_Handshake
  imports Negotiation
begin

text \<open>
  The agent protocol's opening exchange and its retry rhythm
  (\<open>agent-protocol/src/handshake.rs\<close>, \<open>backoff.rs\<close>). Wire values of capabilities are \<open>i32\<close> and kept as
  integers, because an unknown number has to be judged and not dropped.
\<close>

section \<open>Definitions\<close>

definition AGENT_CURRENT_VERSION :: ProtocolVersion where
  "AGENT_CURRENT_VERSION = \<lparr>ver_major = 1, ver_minor = 9\<rparr>"

datatype VersionMismatch = VersionMismatch (mismatch_local: ProtocolVersion) (mismatch_remote: ProtocolVersion)

definition agent_negotiate_version ::
  "ProtocolVersion \<Rightarrow> ProtocolVersion \<Rightarrow> (VersionMismatch, ProtocolVersion) outcome" where
  "agent_negotiate_version local remote =
     (if ver_major local \<noteq> ver_major remote then Err (VersionMismatch local remote)
      else Ok \<lparr>ver_major = ver_major local, ver_minor = min (ver_minor local) (ver_minor remote)\<rparr>)"

datatype agent_capability = AgentUnspecified | AgentGpu | AgentDisplay

text \<open>The numbers of \<open>Capability\<close> in \<open>agent.proto\<close>.\<close>

fun agent_capability_wire :: "agent_capability \<Rightarrow> int" where
  "agent_capability_wire AgentUnspecified = 0"
| "agent_capability_wire AgentGpu = 1"
| "agent_capability_wire AgentDisplay = 2"

definition agent_capability_try_from :: "int \<Rightarrow> agent_capability option" where
  "agent_capability_try_from v =
     (if v = 0 then Some AgentUnspecified else if v = 1 then Some AgentGpu
      else if v = 2 then Some AgentDisplay else None)"

definition agent_agreed_capabilities :: "agent_capability list \<Rightarrow> int list \<Rightarrow> agent_capability list" where
  "agent_agreed_capabilities local remote =
     filter (\<lambda>c. agent_capability_wire c \<in> set remote)
       (filter (\<lambda>c. c \<noteq> AgentUnspecified) local)"

definition agent_confirm_version ::
  "ProtocolVersion \<Rightarrow> ProtocolVersion \<Rightarrow> (VersionMismatch, ProtocolVersion) outcome" where
  "agent_confirm_version local chosen =
     (if ver_major local \<noteq> ver_major chosen \<or> ver_minor chosen > ver_minor local
      then Err (VersionMismatch local chosen) else Ok chosen)"

datatype UnofferedCapability = UnofferedCapability int

fun agent_confirm_capabilities ::
  "agent_capability list \<Rightarrow> int list \<Rightarrow> (UnofferedCapability, agent_capability list) outcome" where
  "agent_confirm_capabilities local [] = Ok []"
| "agent_confirm_capabilities local (v # vs) =
     obind (ok_or (case agent_capability_try_from v of
         None \<Rightarrow> None
       | Some c \<Rightarrow> if c \<noteq> AgentUnspecified \<and> c \<in> set local then Some c else None)
       (UnofferedCapability v))
       (\<lambda>c. obind (agent_confirm_capabilities local vs) (\<lambda>cs. Ok (c # cs)))"

text \<open>\<open>backoff.rs\<close>, with durations in seconds; \<open>Duration\<close> multiplication saturates.\<close>

definition FIRST_DELAY :: nat where "FIRST_DELAY = 1"
definition MAX_DELAY :: nat where "MAX_DELAY = 30"
definition DURATION_MAX :: nat where "DURATION_MAX = 18446744073709551615"

record backoff = bo_next :: nat

definition backoff_new :: backoff where "backoff_new = \<lparr>bo_next = FIRST_DELAY\<rparr>"

definition backoff_after :: "backoff \<Rightarrow> bool \<Rightarrow> nat \<times> backoff" where
  "backoff_after b authenticated =
     (if authenticated then (FIRST_DELAY, b\<lparr>bo_next := FIRST_DELAY\<rparr>)
      else let delay = bo_next b in
        (delay, b\<lparr>bo_next := min (min (delay * 2) DURATION_MAX) MAX_DELAY\<rparr>))"

section \<open>The contracts hold\<close>

interpretation agent_revision: revision_negotiation agent_negotiate_version agent_confirm_version
proof
  fix l r v assume "agent_negotiate_version l r = Ok v"
  then show "speaks l v \<and> speaks r v"
    by (auto simp: agent_negotiate_version_def speaks_def split: if_splits)
next
  fix l v r assume "speaks l v" "speaks r v"
  then show "\<exists>w. agent_negotiate_version l r = Ok w \<and> speaks w v"
    by (auto simp: agent_negotiate_version_def speaks_def)
next
  fix l v w show "agent_confirm_version l v = Ok w \<longleftrightarrow> w = v \<and> speaks l v"
    by (auto simp: agent_confirm_version_def speaks_def)
qed

lemma agent_capability_try_from_wire [simp]:
  "agent_capability_try_from (agent_capability_wire c) = Some c"
  by (cases c) (simp_all add: agent_capability_try_from_def)

lemma agent_capability_try_fromD:
  "agent_capability_try_from v = Some c \<Longrightarrow> v = agent_capability_wire c"
  by (auto simp: agent_capability_try_from_def split: if_splits)

lemma agent_confirm_capabilities_sound:
  "agent_confirm_capabilities local ws = Ok cs \<Longrightarrow>
   ws = map agent_capability_wire cs \<and> set cs \<subseteq> set local \<and>
   list_all (\<lambda>c. c \<noteq> AgentUnspecified) cs"
  by (induction ws arbitrary: cs)
    (auto split: option.splits if_splits dest: agent_capability_try_fromD)

lemma agent_confirm_capabilities_offered:
  "set cs \<subseteq> set local \<Longrightarrow> list_all (\<lambda>c. c \<noteq> AgentUnspecified) cs \<Longrightarrow>
   agent_confirm_capabilities local (map agent_capability_wire cs) = Ok cs"
  by (induction cs) auto

interpretation agent_capabilities: capability_agreement agent_capability_wire
  agent_agreed_capabilities agent_confirm_capabilities "\<lambda>c. c \<noteq> AgentUnspecified"
proof
  fix c and local :: "agent_capability list" and remote
  assume "c \<in> set (agent_agreed_capabilities local remote)"
  then show "c \<noteq> AgentUnspecified \<and> c \<in> set local \<and> agent_capability_wire c \<in> set remote"
    by (simp add: agent_agreed_capabilities_def)
next
  fix c d assume "agent_capability_wire c = agent_capability_wire d"
  then show "c = d" by (metis agent_capability_try_from_wire option.inject)
qed (use agent_confirm_capabilities_sound agent_confirm_capabilities_offered in auto)

section \<open>The retry rhythm\<close>

fun backoff_run :: "backoff \<Rightarrow> bool list \<Rightarrow> nat list" where
  "backoff_run b [] = []"
| "backoff_run b (a # as) = (case backoff_after b a of (d, b') \<Rightarrow> d # backoff_run b' as)"

lemma backoff_failures:
  "bo_next b = min (2 ^ k) MAX_DELAY \<Longrightarrow>
   backoff_run b (replicate n False) = map (\<lambda>i. min (2 ^ (k + i)) MAX_DELAY) [0 ..< n]"
proof (induction n arbitrary: b k)
  case (Suc n)
  have "bo_next (snd (backoff_after b False)) = min (2 ^ Suc k) MAX_DELAY"
    using Suc.prems by (auto simp: backoff_after_def MAX_DELAY_def DURATION_MAX_def min_def Let_def)
  from Suc.IH [OF this] Suc.prems show ?case
    by (simp add: backoff_after_def Let_def map_upt_Suc del: upt_Suc)
qed simp

lemma backoff_bounds:
  "FIRST_DELAY \<le> bo_next b \<Longrightarrow> bo_next b \<le> MAX_DELAY \<Longrightarrow>
   d \<in> set (backoff_run b as) \<Longrightarrow> FIRST_DELAY \<le> d \<and> d \<le> MAX_DELAY"
proof (induction as arbitrary: b)
  case (Cons a as)
  have "FIRST_DELAY \<le> bo_next (snd (backoff_after b a))" "bo_next (snd (backoff_after b a)) \<le> MAX_DELAY"
    using Cons.prems(1,2)
    by (auto simp: backoff_after_def FIRST_DELAY_def MAX_DELAY_def DURATION_MAX_def Let_def)
  from Cons.IH [OF this]
  have "d \<in> set (backoff_run (snd (backoff_after b a)) as) \<Longrightarrow> FIRST_DELAY \<le> d \<and> d \<le> MAX_DELAY" .
  moreover have "FIRST_DELAY \<le> fst (backoff_after b a) \<and> fst (backoff_after b a) \<le> MAX_DELAY"
    using Cons.prems(1,2) by (auto simp: backoff_after_def FIRST_DELAY_def MAX_DELAY_def Let_def)
  ultimately show ?case
    using Cons.prems(3) by (cases "backoff_after b a") auto
qed simp

end
