(* ===== verification/Unicode_Text.thy ===== *)
theory Unicode_Text
  imports Prelude
begin

text \<open>
  Text as the sources use it. A \<open>str\<close> is a list of Unicode scalar values; its length in bytes is
  that of its UTF-8 form. The functions of \<open>str\<close> and \<open>char\<close> that the components call are defined
  here. Unicode's tables of letter cases are data and stay parameters where they are needed.
\<close>

type_synonym utext = "nat list"

definition utext_of :: "string \<Rightarrow> utext" where
  "utext_of s = map of_char s"

lemma length_utext_of [simp]: "length (utext_of s) = length s"
  by (simp add: utext_of_def)

section \<open>Characters\<close>

text \<open>\<open>char::is_whitespace\<close>, \<open>char::is_control\<close> and \<open>char::to_ascii_uppercase\<close>.\<close>

definition is_whitespace :: "nat \<Rightarrow> bool" where
  "is_whitespace c \<longleftrightarrow> 9 \<le> c \<and> c \<le> 13 \<or> c = 0x20 \<or> c = 0x85 \<or> c = 0xA0 \<or> c = 0x1680
     \<or> 0x2000 \<le> c \<and> c \<le> 0x200A \<or> c = 0x2028 \<or> c = 0x2029 \<or> c = 0x202F \<or> c = 0x205F \<or> c = 0x3000"

definition is_control :: "nat \<Rightarrow> bool" where
  "is_control c \<longleftrightarrow> c \<le> 0x1F \<or> 0x7F \<le> c \<and> c \<le> 0x9F"

definition ascii_upper :: "nat \<Rightarrow> nat" where
  "ascii_upper c = (if 97 \<le> c \<and> c \<le> 122 then c - 32 else c)"

text \<open>The bytes of one scalar value in UTF-8.\<close>

definition utf8_width :: "nat \<Rightarrow> nat" where
  "utf8_width c = (if c < 0x80 then 1 else if c < 0x800 then 2 else if c < 0x10000 then 3 else 4)"

lemma utf8_width_pos [simp]: "0 < utf8_width c"
  by (simp add: utf8_width_def)

section \<open>Strings\<close>

definition utf8_len :: "utext \<Rightarrow> nat" where
  "utf8_len t = sum_list (map utf8_width t)"

lemma utf8_len_simps [simp]:
  "utf8_len [] = 0" "utf8_len (c # t) = utf8_width c + utf8_len t"
  "utf8_len (s @ t) = utf8_len s + utf8_len t"
  by (simp_all add: utf8_len_def)

lemma length_le_utf8_len: "length t \<le> utf8_len t"
  by (induction t) (simp_all add: utf8_width_def)

definition trim :: "utext \<Rightarrow> utext" where
  "trim t = rev (dropWhile is_whitespace (rev (dropWhile is_whitespace t)))"

text \<open>\<open>str::split\<close> by one character: never empty, and joining gives the text back.\<close>

fun split_at :: "nat \<Rightarrow> utext \<Rightarrow> utext list" where
  "split_at sep [] = [[]]"
| "split_at sep (c # t) =
     (if c = sep then [] # split_at sep t
      else case split_at sep t of [] \<Rightarrow> [[c]] | p # ps \<Rightarrow> (c # p) # ps)"

fun join_with :: "nat \<Rightarrow> utext list \<Rightarrow> utext" where
  "join_with sep [] = []"
| "join_with sep [p] = p"
| "join_with sep (p # ps) = p @ sep # join_with sep ps"

lemma split_at_nonempty [simp]: "split_at sep t \<noteq> []"
  by (induction t) (auto split: list.splits)

lemma join_with_Cons: "ps \<noteq> [] \<Longrightarrow> join_with sep (p # ps) = p @ sep # join_with sep ps"
  by (cases ps) simp_all

lemma join_split [simp]: "join_with sep (split_at sep t) = t"
proof (induction t)
  case (Cons c t)
  show ?case
  proof (cases "split_at sep t")
    case (Cons p ps)
    then show ?thesis using Cons.IH by (cases ps) auto
  qed simp
qed simp

lemma split_at_no_sep: "p \<in> set (split_at sep t) \<Longrightarrow> sep \<notin> set p"
proof (induction t arbitrary: p)
  case (Cons c t)
  then show ?case by (cases "split_at sep t") (auto split: if_splits)
qed simp

lemma split_at_append:
  "sep \<notin> set p \<Longrightarrow> split_at sep (p @ sep # t) = p # split_at sep t"
  by (induction p) auto

lemma split_at_single: "sep \<notin> set p \<Longrightarrow> split_at sep p = [p]"
  by (induction p) auto

text \<open>Splitting inverts joining when no piece has the separator.\<close>

lemma split_join:
  assumes "ps \<noteq> []" "\<And>p. p \<in> set ps \<Longrightarrow> sep \<notin> set p"
  shows "split_at sep (join_with sep ps) = ps"
  using assms
proof (induction sep ps rule: join_with.induct)
  case (3 sep p q ps)
  have "split_at sep (join_with sep (q # ps)) = q # ps" using 3 by simp
  then show ?case using "3.prems" by (simp add: split_at_append)
qed (simp_all add: split_at_single)

text \<open>\<open>str::split_once\<close>, the part before the first separator, and \<open>str::strip_prefix\<close>.\<close>

fun before :: "nat \<Rightarrow> utext \<Rightarrow> utext" where
  "before sep [] = []"
| "before sep (c # t) = (if c = sep then [] else c # before sep t)"

fun strip_prefix :: "utext \<Rightarrow> utext \<Rightarrow> utext option" where
  "strip_prefix [] t = Some t"
| "strip_prefix (c # cs) [] = None"
| "strip_prefix (c # cs) (d # t) = (if c = d then strip_prefix cs t else None)"

lemma strip_prefix_iff: "strip_prefix p t = Some r \<longleftrightarrow> t = p @ r"
  by (induction p t rule: strip_prefix.induct) auto

definition ends_with :: "nat \<Rightarrow> utext \<Rightarrow> bool" where
  "ends_with c t \<longleftrightarrow> t \<noteq> [] \<and> last t = c"

end
