(* ===== verification/Agent_Auth.thy ===== *)
theory Agent_Auth
  imports Unicode_Text
begin

text \<open>
  The agent's proof of identity (\<open>agent-protocol/src/auth.rs\<close>). HMAC-SHA-256, base64 and the
  random source are library code and parameters: \<open>hmac key message\<close>, \<open>b64_encode\<close>, \<open>b64_decode\<close>, and
  the random bytes as an argument.
\<close>

section \<open>Definitions\<close>

definition AUTH_LEN :: nat where "AUTH_LEN = 32"

text \<open>\<open>b"vmlord.agent.v1.auth"\<close>.\<close>

definition AUTH_DOMAIN :: bytes where
  "AUTH_DOMAIN = map (\<lambda>c. of_nat (of_char c)) ''vmlord.agent.v1.auth''"

datatype Secret = Secret (secret_bytes: bytes)
datatype Nonce = Nonce (nonce_bytes: bytes)
datatype Tag = Tag (tag_bytes: bytes)

datatype SecretError = SecretError
datatype WrongLength = WrongLength string nat

definition secret_generate :: "bytes \<Rightarrow> Secret" where
  "secret_generate random = Secret random"

definition secret_from_base64 ::
  "(utext \<Rightarrow> bytes option) \<Rightarrow> utext \<Rightarrow> (SecretError, Secret) outcome" where
  "secret_from_base64 b64_decode text =
     obind (ok_or (b64_decode (trim text)) SecretError) (\<lambda>bs.
       if length bs = AUTH_LEN then Ok (Secret bs) else Err SecretError)"

definition secret_to_base64 :: "(bytes \<Rightarrow> utext) \<Rightarrow> Secret \<Rightarrow> utext" where
  "secret_to_base64 b64_encode s = b64_encode (secret_bytes s)"

definition nonce_generate :: "bytes \<Rightarrow> Nonce" where
  "nonce_generate random = Nonce random"

definition nonce_from_wire :: "bytes \<Rightarrow> (WrongLength, Nonce) outcome" where
  "nonce_from_wire bs =
     (if length bs = AUTH_LEN then Ok (Nonce bs) else Err (WrongLength ''nonce'' (length bs)))"

definition tag_from_wire :: "bytes \<Rightarrow> (WrongLength, Tag) outcome" where
  "tag_from_wire bs =
     (if length bs = AUTH_LEN then Ok (Tag bs) else Err (WrongLength ''tag'' (length bs)))"

definition auth_tag :: "(bytes \<Rightarrow> bytes \<Rightarrow> bytes) \<Rightarrow> Secret \<Rightarrow> Nonce \<Rightarrow> Tag" where
  "auth_tag hmac secret nonce = Tag (hmac (secret_bytes secret) (AUTH_DOMAIN @ nonce_bytes nonce))"

definition auth_verify :: "(bytes \<Rightarrow> bytes \<Rightarrow> bytes) \<Rightarrow> Secret \<Rightarrow> Nonce \<Rightarrow> Tag \<Rightarrow> bool" where
  "auth_verify hmac secret nonce answer \<longleftrightarrow> tag_bytes (auth_tag hmac secret nonce) = tag_bytes answer"

text \<open>The kinds of \<open>Request\<close> in \<open>agent.proto\<close>.\<close>

datatype RequestKind =
    Hello | Heartbeat | Authenticate | AttachGpuShares | ApplyGpuRecipe | ProbeGpu
  | AttachDisplayPayload | ApplyDisplayRecipe | UpdateDisplayPayload | Reboot

definition allowed_unauthenticated :: "RequestKind \<Rightarrow> bool" where
  "allowed_unauthenticated kind \<longleftrightarrow> (case kind of Hello \<Rightarrow> True | Authenticate \<Rightarrow> True | _ \<Rightarrow> False)"

section \<open>Secrets survive the file they travel in\<close>

lemma dropWhile_all: "list_all P xs \<Longrightarrow> dropWhile P (xs @ ys) = dropWhile P ys"
  by (induction xs) auto

lemma trim_padded:
  assumes "list_all is_whitespace pre" "list_all is_whitespace post"
    and "t \<noteq> []" "\<not> is_whitespace (hd t)" "\<not> is_whitespace (last t)"
  shows "trim (pre @ t @ post) = t"
proof -
  have "dropWhile is_whitespace (pre @ t @ post) = t @ post"
    using assms by (cases t) (simp_all add: dropWhile_all)
  moreover have "dropWhile is_whitespace (rev post @ rev t) = rev t"
    using assms by (cases t rule: rev_cases) (simp_all add: dropWhile_all list_all_iff)
  ultimately show ?thesis by (simp add: trim_def)
qed

lemma secret_base64_padded:
  assumes dec: "b64_decode (b64_encode (secret_bytes s)) = Some (secret_bytes s)"
    and chars: "b64_encode (secret_bytes s) \<noteq> []"
      "list_all (\<lambda>c. \<not> is_whitespace c) (b64_encode (secret_bytes s))"
    and len: "length (secret_bytes s) = AUTH_LEN"
    and pad: "list_all is_whitespace pre" "list_all is_whitespace post"
  shows "secret_from_base64 b64_decode (pre @ secret_to_base64 b64_encode s @ post) = Ok s"
proof -
  have "trim (pre @ b64_encode (secret_bytes s) @ post) = b64_encode (secret_bytes s)"
    using chars by (intro trim_padded [OF pad]) (auto simp: list_all_iff)
  then show ?thesis
    using dec len by (simp add: secret_from_base64_def secret_to_base64_def)
qed

lemma secret_from_base64_length:
  "secret_from_base64 b64_decode text = Ok s \<Longrightarrow> length (secret_bytes s) = AUTH_LEN"
  by (auto simp: secret_from_base64_def split: if_splits)

section \<open>The exchange\<close>

text \<open>The host's challenge, the guest's answer and the host's verdict, as bytes on the wire.\<close>

definition auth_exchange ::
  "(bytes \<Rightarrow> bytes \<Rightarrow> bytes) \<Rightarrow> Secret \<Rightarrow> Secret \<Rightarrow> bytes \<Rightarrow> (WrongLength, bool) outcome" where
  "auth_exchange hmac host_secret guest_secret random =
     obind (nonce_from_wire (nonce_bytes (nonce_generate random))) (\<lambda>nonce.
       obind (tag_from_wire (tag_bytes (auth_tag hmac guest_secret nonce))) (\<lambda>answer.
         Ok (auth_verify hmac host_secret (nonce_generate random) answer)))"

lemma auth_exchange_verdict:
  assumes "length random = AUTH_LEN" "\<And>key msg. length (hmac key msg) = AUTH_LEN"
  shows "auth_exchange hmac host_secret guest_secret random =
    Ok (hmac (secret_bytes host_secret) (AUTH_DOMAIN @ random) =
        hmac (secret_bytes guest_secret) (AUTH_DOMAIN @ random))"
  using assms by (simp add: auth_exchange_def nonce_from_wire_def nonce_generate_def tag_from_wire_def
      auth_tag_def auth_verify_def)

lemma verify_replayed:
  "auth_verify hmac secret n (auth_tag hmac secret m) \<longleftrightarrow>
   hmac (secret_bytes secret) (AUTH_DOMAIN @ nonce_bytes n) =
   hmac (secret_bytes secret) (AUTH_DOMAIN @ nonce_bytes m)"
  by (simp add: auth_verify_def auth_tag_def)

end
