(* ===== verification/Cursor_Plane.thy ===== *)
theory Cursor_Plane
  imports Geometry
begin

text \<open>
  Where a cursor plane lands on a frame and how it is drawn into it
  (\<open>display-services/src/cursor.rs\<close>). Plane positions are \<open>i32\<close> and kept as integers; a computation
  that leaves its type is a panic, as in a build with overflow checks.
\<close>

section \<open>Placing\<close>

record placement =
  pc_x :: nat
  pc_y :: nat
  pc_crop :: rect
  pc_visible :: bool

definition axis :: "int \<Rightarrow> nat \<Rightarrow> nat \<Rightarrow> ('e, nat \<times> nat \<times> nat) outcome" where
  "axis position extent frame =
     (if - min position 0 > 2147483647 then Panic
      else let leading = min (nat (- min position 0)) extent; start = nat (max position 0) in
        if start \<ge> frame then Ok (min start frame, leading, 0)
        else Ok (start, leading, min (extent - leading) (frame - start)))"

definition place :: "int \<Rightarrow> int \<Rightarrow> nat \<Rightarrow> nat \<Rightarrow> nat \<Rightarrow> nat \<Rightarrow> ('e, placement) outcome" where
  "place plane_x plane_y width height frame_width frame_height =
     obind (axis plane_x width frame_width) (\<lambda>(x, crop_x, visible_width).
       obind (axis plane_y height frame_height) (\<lambda>(y, crop_y, visible_height).
         Ok \<lparr>pc_x = x, pc_y = y,
           pc_crop = \<lparr>rect_x = crop_x, rect_y = crop_y, rect_width = visible_width, rect_height = visible_height\<rparr>,
           pc_visible = (visible_width > 0 \<and> visible_height > 0)\<rparr>))"

section \<open>Drawing\<close>

text \<open>\<open>as u8\<close> truncates; \<open>blend_channel_le\<close> shows that there is nothing to cut off.\<close>

definition blend_channel :: "nat \<Rightarrow> u8 \<Rightarrow> u8 \<Rightarrow> nat" where
  "blend_channel alpha over below = (unat over * alpha + unat below * (255 - alpha) + 127) div 255"

definition blend :: "bytes \<Rightarrow> bytes \<Rightarrow> bytes" where
  "blend source destination =
     (let alpha = unat (source ! 3) in
      if alpha = 0 then destination
      else if alpha = 255 then source
      else map (\<lambda>channel. of_nat (blend_channel alpha (source ! channel) (destination ! channel))) [0, 1, 2]
        @ [destination ! 3])"

text \<open>The two loops are one walk over the pairs of a row and a column, which a range outside either buffer ends.\<close>

fun composite_loop :: "bytes \<Rightarrow> nat \<Rightarrow> bytes \<Rightarrow> nat \<Rightarrow> placement \<Rightarrow> (nat \<times> nat) list \<Rightarrow> ('e, bytes) outcome" where
  "composite_loop frame frame_stride cursor cursor_width p [] = Ok frame"
| "composite_loop frame frame_stride cursor cursor_width p ((row, column) # rest) =
     (let source_row = (rect_y (pc_crop p) + row) * cursor_width + rect_x (pc_crop p) in
      if source_row > u32_max \<or> pc_y p + row > u32_max then Panic
      else let source_at = source_row * 4 + column * 4;
               target_at = (pc_y p + row) * frame_stride + pc_x p * 4 + column * 4 in
        (case (get_range cursor source_at (source_at + 4), get_range frame target_at (target_at + 4)) of
           (Some source, Some target) \<Rightarrow>
             composite_loop (splice frame target_at (blend source target)) frame_stride cursor cursor_width p rest
         | _ \<Rightarrow> Ok frame))"

definition composite :: "bytes \<Rightarrow> nat \<Rightarrow> bytes \<Rightarrow> nat \<Rightarrow> placement \<Rightarrow> ('e, bytes) outcome" where
  "composite frame frame_stride cursor cursor_width p =
     (if \<not> pc_visible p then Ok frame
      else composite_loop frame frame_stride cursor cursor_width p
        (List.product [0 ..< rect_height (pc_crop p)] [0 ..< rect_width (pc_crop p)]))"

section \<open>A placement stays on both\<close>

text \<open>The two sides of the origin.\<close>

lemma axis_behind: "n \<le> 2147483647 \<Longrightarrow> axis (- int n) extent frame =
  (if frame = 0 then Ok (0, min n extent, 0) else Ok (0, min n extent, min (extent - min n extent) frame))"
  by (simp add: axis_def Let_def min_def)

lemma axis_ahead: "axis (int n) extent frame =
  (if frame \<le> n then Ok (min n frame, 0, 0) else Ok (n, 0, min extent (frame - n)))"
  by (simp add: axis_def Let_def)

lemma opaque_blend_takes_alpha:
  "source ! 3 = 255 \<Longrightarrow> destination ! 3 \<noteq> 255 \<Longrightarrow> blend source destination ! 3 \<noteq> destination ! 3"
  by (simp add: blend_def)

lemma axis_Panic: "axis position extent frame = (Panic :: ('e, _) outcome) \<longleftrightarrow> position < - 2147483647"
proof (cases "0 \<le> position")
  case True
  then show ?thesis using axis_ahead [of "nat position" extent frame, where ?'a = 'e] by (simp split: if_splits)
next
  case False
  then have "min position 0 = position" by simp
  then show ?thesis by (auto simp: axis_def Let_def)
qed

lemma axis_Ok_cases:
  assumes "axis position extent frame = (Ok r :: ('e, _) outcome)"
  obtains (behind) n where "position = - int n" "n \<le> 2147483647" | (ahead) n where "position = int n"
proof (cases "0 \<le> position")
  case True
  then show ?thesis using ahead [of "nat position"] by simp
next
  case False
  have "- 2147483647 \<le> position" using axis_Panic [of position extent frame, where ?'e = 'e] assms by (simp add: not_less)
  with False show ?thesis using behind [of "nat (- position)"] by simp
qed

lemma axis_inside:
  assumes "axis position extent frame = Ok (start, leading, visible)"
  shows "start + visible \<le> frame \<and> leading + visible \<le> extent"
  using assms by (cases rule: axis_Ok_cases [OF assms(1)]) (auto simp: axis_behind axis_ahead split: if_splits)

text \<open>Exactly the part of the plane that is on the frame shows, where it belongs.\<close>

lemma axis_covers:
  assumes "axis position extent frame = Ok (start, leading, visible)" "k < extent"
  shows "((0 \<le> position + int k \<and> position + int k < int frame) \<longleftrightarrow> leading \<le> k \<and> k < leading + visible) \<and>
    (leading \<le> k \<and> k < leading + visible \<longrightarrow> int (start + (k - leading)) = position + int k)"
  using assms by (cases rule: axis_Ok_cases [OF assms(1)]) (auto simp: axis_behind axis_ahead split: if_splits)

lemma place_inside:
  assumes "place px py w h fw fh = (Ok p :: ('e, _) outcome)"
  shows "pc_x p + rect_width (pc_crop p) \<le> fw \<and> pc_y p + rect_height (pc_crop p) \<le> fh \<and>
    rect_x (pc_crop p) + rect_width (pc_crop p) \<le> w \<and> rect_y (pc_crop p) + rect_height (pc_crop p) \<le> h"
  using assms by (auto simp: place_def dest!: axis_inside)

section \<open>What drawing changes\<close>

lemma blend_channel_le: "alpha \<le> 255 \<Longrightarrow> blend_channel alpha over below \<le> 255"
proof -
  assume a: "alpha \<le> 255"
  have "unat over \<le> 255" "unat below \<le> 255" using unsigned_less [of over, where ?'a = nat] unsigned_less [of below, where ?'a = nat] by simp_all
  then have "unat over * alpha + unat below * (255 - alpha) \<le> 255 * alpha + 255 * (255 - alpha)"
    by (intro add_mono mult_le_mono1)
  also have "\<dots> = 255 * 255" using a by (simp flip: distrib_left)
  finally have "unat over * alpha + unat below * (255 - alpha) + 127 \<le> 255 * 255 + 127" by simp
  then have "blend_channel alpha over below \<le> (255 * 255 + 127) div 255" unfolding blend_channel_def by (rule div_le_mono)
  then show ?thesis by simp
qed

lemma length_blend: "length source = 4 \<Longrightarrow> length destination = 4 \<Longrightarrow> length (blend source destination) = 4"
  by (simp add: blend_def Let_def)

definition window :: "bytes \<Rightarrow> nat \<Rightarrow> bytes" where
  "window b i = take 4 (drop i b)"

definition target_of :: "nat \<Rightarrow> placement \<Rightarrow> nat \<times> nat \<Rightarrow> nat" where
  "target_of stride p rc = (pc_y p + fst rc) * stride + pc_x p * 4 + snd rc * 4"

definition source_of :: "nat \<Rightarrow> placement \<Rightarrow> nat \<times> nat \<Rightarrow> nat" where
  "source_of width p rc = ((rect_y (pc_crop p) + fst rc) * width + rect_x (pc_crop p)) * 4 + snd rc * 4"

lemma length_window: "i + 4 \<le> length b \<Longrightarrow> length (window b i) = 4"
  by (simp add: window_def)

lemma window_cong:
  assumes "length b = length b'" "\<And>k. k < 4 \<Longrightarrow> i + k < length b \<Longrightarrow> b ! (i + k) = b' ! (i + k)"
  shows "window b i = window b' i"
  using assms by (auto simp: window_def intro!: nth_equalityI)

lemma target_disjoint:
  assumes "(pc_x p + cw) * 4 \<le> stride" "snd a < cw" "snd b < cw" "a \<noteq> b"
  shows "target_of stride p a + 4 \<le> target_of stride p b \<or> target_of stride p b + 4 \<le> target_of stride p a"
proof -
  have less: "target_of stride p a + 4 \<le> target_of stride p b" if "snd a < cw" "fst a < fst b" for a b
  proof -
    have "pc_x p * 4 + snd a * 4 + 4 \<le> stride" using assms(1) that(1) by simp
    then have "target_of stride p a + 4 \<le> (pc_y p + Suc (fst a)) * stride" by (simp add: target_of_def)
    also have "\<dots> \<le> (pc_y p + fst b) * stride" using that(2) by (intro mult_le_mono1) simp
    also have "\<dots> \<le> target_of stride p b" by (simp add: target_of_def)
    finally show ?thesis .
  qed
  show ?thesis
  proof (cases "fst a = fst b")
    case True
    then have "snd a \<noteq> snd b" using assms(4) by (simp add: prod_eq_iff)
    with True show ?thesis by (auto simp: target_of_def)
  next
    case False
    then show ?thesis using less [OF assms(2), of b] less [OF assms(3), of a] by linarith
  qed
qed

lemma composite_loop_draws:
  assumes "distinct rcs" "(pc_x p + cw) * 4 \<le> stride"
    and "\<forall>rc \<in> set rcs. snd rc < cw \<and> pc_y p + fst rc \<le> u32_max \<and>
      (rect_y (pc_crop p) + fst rc) * width + rect_x (pc_crop p) \<le> u32_max \<and>
      source_of width p rc + 4 \<le> length cursor \<and> target_of stride p rc + 4 \<le> length frame"
  shows "\<exists>out. composite_loop frame stride cursor width p rcs = (Ok out :: ('e, _) outcome) \<and> length out = length frame \<and>
    (\<forall>rc \<in> set rcs. window out (target_of stride p rc) =
       blend (window cursor (source_of width p rc)) (window frame (target_of stride p rc))) \<and>
    (\<forall>i < length frame. (\<forall>rc \<in> set rcs. i < target_of stride p rc \<or> target_of stride p rc + 4 \<le> i) \<longrightarrow> out ! i = frame ! i)"
  using assms
proof (induction rcs arbitrary: frame)
  case (Cons rc rcs)
  let ?t = "target_of stride p rc" and ?s = "source_of width p rc"
  let ?px = "blend (window cursor ?s) (window frame ?t)"
  let ?f = "splice frame ?t ?px"
  have fits: "?s + 4 \<le> length cursor" "?t + 4 \<le> length frame" using Cons.prems(3) by simp_all
  have px: "length ?px = 4" using fits by (simp add: length_blend length_window)
  have len: "length ?f = length frame" using fits px by simp
  have step: "composite_loop frame stride cursor width p (rc # rcs) = (composite_loop ?f stride cursor width p rcs :: ('e, _) outcome)"
    using Cons.prems(3) fits
    by (cases rc) (simp add: target_of_def source_of_def get_range_def window_def Let_def)
  obtain out where out: "composite_loop ?f stride cursor width p rcs = (Ok out :: ('e, _) outcome)" "length out = length frame"
    "\<forall>rc \<in> set rcs. window out (target_of stride p rc) =
       blend (window cursor (source_of width p rc)) (window ?f (target_of stride p rc))"
    "\<forall>i < length frame. (\<forall>rc \<in> set rcs. i < target_of stride p rc \<or> target_of stride p rc + 4 \<le> i) \<longrightarrow> out ! i = ?f ! i"
    using Cons.IH [of ?f] Cons.prems len by auto
  have apart: "target_of stride p q + 4 \<le> ?t \<or> ?t + 4 \<le> target_of stride p q" if "q \<in> set rcs" for q
    using target_disjoint [OF Cons.prems(2), of q rc] Cons.prems(1,3) that by auto
  have other: "window ?f (target_of stride p q) = window frame (target_of stride p q)" if "q \<in> set rcs" for q
    using apart [OF that] fits px by (intro window_cong) (auto simp: nth_splice)
  have "window out ?t = window ?f ?t"
  proof (rule window_cong)
    fix k :: nat assume k: "k < 4" "?t + k < length out"
    have "\<forall>q \<in> set rcs. ?t + k < target_of stride p q \<or> target_of stride p q + 4 \<le> ?t + k" using apart k(1) by fastforce
    then show "out ! (?t + k) = ?f ! (?t + k)" using out(2,4) k(2) by simp
  qed (use out(2) len in simp)
  also have "window ?f ?t = ?px" using fits px by (simp add: window_def splice_def)
  finally have here: "window out ?t = ?px" .
  have "out ! i = frame ! i"
    if "i < length frame" "\<forall>q \<in> set (rc # rcs). i < target_of stride p q \<or> target_of stride p q + 4 \<le> i" for i
    using out(4) that fits px by (auto simp: nth_splice)
  then show ?case using step out(1,2,3) here other by auto
qed simp

text \<open>Whatever the buffers hold, drawing writes nothing outside the part of the frame the cursor covers.\<close>

lemma composite_loop_outside:
  assumes "composite_loop frame stride cursor width p rcs = (Ok out :: ('e, _) outcome)"
  shows "length out = length frame \<and>
    (\<forall>i < length frame. (\<forall>rc \<in> set rcs. i < target_of stride p rc \<or> target_of stride p rc + 4 \<le> i) \<longrightarrow> out ! i = frame ! i)"
  using assms
proof (induction rcs arbitrary: frame)
  case (Cons rc rcs)
  let ?t = "target_of stride p rc" and ?s = "source_of width p rc"
  show ?case
  proof (cases "?s + 4 \<le> length cursor \<and> ?t + 4 \<le> length frame")
    case True
    let ?px = "blend (window cursor ?s) (window frame ?t)"
    have px: "length ?px = 4" using True by (simp add: length_blend length_window)
    have "composite_loop (splice frame ?t ?px) stride cursor width p rcs = (Ok out :: ('e, _) outcome)"
      using Cons.prems True
      by (cases rc) (auto simp: target_of_def source_of_def get_range_def window_def Let_def split: if_splits)
    from Cons.IH [OF this] show ?thesis using True px by (auto simp: nth_splice)
  next
    case False
    then have "out = frame"
      using Cons.prems
      by (cases rc) (auto simp: target_of_def source_of_def get_range_def Let_def split: if_splits option.splits)
    then show ?thesis by simp
  qed
qed simp

lemma composite_outside:
  assumes "composite frame stride cursor width p = (Ok out :: ('e, _) outcome)" "i < length frame"
    and "\<And>row column. row < rect_height (pc_crop p) \<Longrightarrow> column < rect_width (pc_crop p) \<Longrightarrow>
      i < target_of stride p (row, column) \<or> target_of stride p (row, column) + 4 \<le> i"
  shows "out ! i = frame ! i"
proof (cases "pc_visible p")
  case True
  then have "composite_loop frame stride cursor width p
      (List.product [0..<rect_height (pc_crop p)] [0..<rect_width (pc_crop p)]) = (Ok out :: ('e, _) outcome)"
    using assms(1) by (simp add: composite_def)
  from composite_loop_outside [OF this] show ?thesis using assms(2,3) by auto
qed (use assms(1) in \<open>simp add: composite_def\<close>)

lemma length_composite: "composite frame stride cursor width p = (Ok out :: ('e, _) outcome) \<Longrightarrow> length out = length frame"
  using composite_loop_outside [of frame stride cursor width p _ out] by (auto simp: composite_def split: if_splits)

lemma composite_draws:
  assumes "place px py width height fw fh = (Ok p :: ('e, _) outcome)" "fw * 4 \<le> stride" "stride * fh \<le> length frame"
    and "width * height * 4 \<le> length cursor" "width * height \<le> u32_max" "fh \<le> u32_max"
  shows "\<exists>out. composite frame stride cursor width p = (Ok out :: ('f, _) outcome) \<and> length out = length frame \<and>
    (\<forall>row < rect_height (pc_crop p). \<forall>column < rect_width (pc_crop p).
       window out (target_of stride p (row, column)) =
         blend (window cursor (source_of width p (row, column))) (window frame (target_of stride p (row, column))))"
proof -
  let ?c = "pc_crop p"
  note inside = place_inside [OF assms(1)]
  have "(pc_x p + rect_width ?c) * 4 \<le> fw * 4" using inside by (intro mult_le_mono1) simp
  then have stride: "(pc_x p + rect_width ?c) * 4 \<le> stride" using assms(2) by simp
  have range: "snd rc < rect_width ?c \<and> pc_y p + fst rc \<le> u32_max \<and>
      (rect_y ?c + fst rc) * width + rect_x ?c \<le> u32_max \<and>
      source_of width p rc + 4 \<le> length cursor \<and> target_of stride p rc + 4 \<le> length frame"
    if "fst rc < rect_height ?c" "snd rc < rect_width ?c" for rc
  proof -
    have "(rect_y ?c + fst rc) * width + (rect_x ?c + snd rc + 1) \<le> (rect_y ?c + fst rc) * width + width"
      using inside that by (intro add_left_mono) simp
    also have "\<dots> = (rect_y ?c + fst rc + 1) * width" by simp
    also have "\<dots> \<le> height * width" using inside that by (intro mult_le_mono1) simp
    finally have src: "(rect_y ?c + fst rc) * width + (rect_x ?c + snd rc + 1) \<le> width * height"
      by (simp add: mult.commute)
    have "target_of stride p rc + 4 \<le> (pc_y p + fst rc) * stride + stride"
      using stride that(2) by (simp add: target_of_def)
    also have "\<dots> = (pc_y p + fst rc + 1) * stride" by simp
    also have "\<dots> \<le> fh * stride" using inside that by (intro mult_le_mono1) simp
    finally have "target_of stride p rc + 4 \<le> length frame" using assms(3) by (simp add: mult.commute)
    moreover have "source_of width p rc + 4 \<le> length cursor"
      using mult_le_mono1 [OF src, of 4] assms(4) by (simp add: source_of_def)
    ultimately show ?thesis using src assms(5,6) inside that by simp
  qed
  show ?thesis
  proof (cases "pc_visible p")
    case True
    have "\<forall>rc \<in> set (List.product [0..<rect_height ?c] [0..<rect_width ?c]). snd rc < rect_width ?c \<and> pc_y p + fst rc \<le> u32_max \<and>
      (rect_y ?c + fst rc) * width + rect_x ?c \<le> u32_max \<and>
      source_of width p rc + 4 \<le> length cursor \<and> target_of stride p rc + 4 \<le> length frame"
      using range by (metis atLeastLessThan_iff mem_Times_iff set_product set_upt)
    from composite_loop_draws [OF distinct_product [OF distinct_upt distinct_upt] stride this]
    obtain out where out: "composite_loop frame stride cursor width p
        (List.product [0..<rect_height ?c] [0..<rect_width ?c]) = (Ok out :: ('f, _) outcome)" "length out = length frame"
      "\<forall>rc \<in> set (List.product [0..<rect_height ?c] [0..<rect_width ?c]). window out (target_of stride p rc) =
         blend (window cursor (source_of width p rc)) (window frame (target_of stride p rc))"
      by blast
    then show ?thesis using True by (intro exI [of _ out]) (simp add: composite_def)
  next
    case False
    then have "rect_height ?c = 0 \<or> rect_width ?c = 0" using assms(1) by (auto simp: place_def)
    then show ?thesis using False by (auto simp: composite_def)
  qed
qed

end
