(* ===== verification/Cursor_Theme.thy ===== *)
theory Cursor_Theme
  imports Unicode_Text
begin

text \<open>
  The table of cursor hotspots read out of an Xcursor theme
  (\<open>display-services/src/cursor_theme.rs\<close>). The file system is an argument, \<open>fs\<close>: what a directory of
  icon themes holds under a theme's name. The dconf reader is not modelled.
\<close>

section \<open>Entries\<close>

definition THEME_MAX_DIMENSION :: nat where "THEME_MAX_DIMENSION = 256"
definition CHUNK_BUDGET :: nat where "CHUNK_BUDGET = 128 * 1024"
definition TABLE_BUDGET :: nat where "TABLE_BUDGET = 4 * 1024 * 1024"
definition MAX_THEME_DEPTH :: nat where "MAX_THEME_DEPTH = 32"
definition DEFAULT_THEME :: utext where "DEFAULT_THEME = utext_of ''default''"

record hotspot_entry =
  he_pixels :: bytes
  he_width :: nat
  he_height :: nat
  he_hotspot_x :: nat
  he_hotspot_y :: nat

definition wire_size :: "hotspot_entry \<Rightarrow> nat" where
  "wire_size e = length (he_pixels e) + 32"

definition is_sendable :: "hotspot_entry \<Rightarrow> bool" where
  "is_sendable e \<longleftrightarrow> he_width e > 0 \<and> he_height e > 0 \<and> he_width e \<le> THEME_MAX_DIMENSION \<and>
     he_height e \<le> THEME_MAX_DIMENSION \<and> he_hotspot_x e < he_width e \<and> he_hotspot_y e < he_height e \<and>
     length (he_pixels e) = he_width e * he_height e * 4"

section \<open>Xcursor files\<close>

definition XCURSOR_MAGIC :: u32 where "XCURSOR_MAGIC = 0x72756358"
definition XCURSOR_IMAGE_TYPE :: u32 where "XCURSOR_IMAGE_TYPE = 0xfffd0002"
definition FILE_HEADER_LEN :: nat where "FILE_HEADER_LEN = 16"
definition TOC_ENTRY_LEN :: nat where "TOC_ENTRY_LEN = 12"
definition CHUNK_HEADER_LEN :: nat where "CHUNK_HEADER_LEN = 16"
definition IMAGE_FIELDS_LEN :: nat where "IMAGE_FIELDS_LEN = 20"
definition FORMAT_MAX_DIMENSION :: nat where "FORMAT_MAX_DIMENSION = 0x7fff"

definition read_u32 :: "bytes \<Rightarrow> nat \<Rightarrow> u32 option" where
  "read_u32 bs at =
     Option.bind (get_range bs at (at + 4)) (\<lambda>four. Some (u32_from_le (four ! 0) (four ! 1) (four ! 2) (four ! 3)))"

definition image_at :: "bytes \<Rightarrow> nat \<Rightarrow> hotspot_entry option" where
  "image_at bs position =
     Option.bind (read_u32 bs position) (\<lambda>chunk_len.
     Option.bind (read_u32 bs (position + 4)) (\<lambda>chunk_type.
       if unat chunk_len < CHUNK_HEADER_LEN + IMAGE_FIELDS_LEN \<or> chunk_type \<noteq> XCURSOR_IMAGE_TYPE then None
       else let base = position + CHUNK_HEADER_LEN in
         Option.bind (read_u32 bs base) (\<lambda>w.
         Option.bind (read_u32 bs (base + 4)) (\<lambda>h.
         Option.bind (read_u32 bs (base + 8)) (\<lambda>x.
         Option.bind (read_u32 bs (base + 12)) (\<lambda>y.
         Option.bind (read_u32 bs (base + 16)) (\<lambda>delay.
           let width = unat w; height = unat h; pixels_len = width * height * 4 in
           if pixels_len \<ge> usize_bound then None
           else if width = 0 \<or> height = 0 \<or> width > FORMAT_MAX_DIMENSION \<or> height > FORMAT_MAX_DIMENSION
             \<or> unat x > width \<or> unat y > height then None
           else Option.bind (get_range bs (base + IMAGE_FIELDS_LEN) (base + IMAGE_FIELDS_LEN + pixels_len)) (\<lambda>pixels.
             Some \<lparr>he_pixels = pixels, he_width = width, he_height = height,
               he_hotspot_x = unat x, he_hotspot_y = unat y\<rparr>))))))))"

text \<open>The loop over the table of contents, which ends where an entry is cut off.\<close>

fun toc_loop :: "bytes \<Rightarrow> nat list \<Rightarrow> hotspot_entry list" where
  "toc_loop bs [] = []"
| "toc_loop bs (entry # rest) =
     (let at = FILE_HEADER_LEN + entry * TOC_ENTRY_LEN in
      case (read_u32 bs at, read_u32 bs (at + 8)) of
        (Some chunk_type, Some position) \<Rightarrow>
          if chunk_type \<noteq> XCURSOR_IMAGE_TYPE then toc_loop bs rest
          else (case image_at bs (unat position) of
              Some img \<Rightarrow> img # toc_loop bs rest
            | None \<Rightarrow> toc_loop bs rest)
      | _ \<Rightarrow> [])"

definition images_from_bytes :: "bytes \<Rightarrow> hotspot_entry list" where
  "images_from_bytes bs =
     (case (read_u32 bs 0, read_u32 bs 4, read_u32 bs 8, read_u32 bs 12) of
        (Some magic, Some header_len, Some version, Some ntoc) \<Rightarrow>
          if magic \<noteq> XCURSOR_MAGIC \<or> unat header_len < FILE_HEADER_LEN \<or> version < 1 then []
          else toc_loop bs [0 ..< min (unat ntoc) (length bs div TOC_ENTRY_LEN + 1)]
      | _ \<Rightarrow> [])"

section \<open>Walking a theme\<close>

datatype theme_file = SubDirectory | UnreadableFile | FileBytes bytes

record theme_dir =
  td_cursors :: "theme_file list option"
  td_index :: "utext option"

text \<open>\<open>str::lines\<close> splits at line feeds; a carriage return before one is white space that \<open>trim\<close> removes.\<close>

fun first_inherits :: "utext list \<Rightarrow> utext list" where
  "first_inherits [] = []"
| "first_inherits (line # rest) =
     (case strip_prefix (utext_of ''Inherits='') (trim line) of
        Some names \<Rightarrow>
          filter (\<lambda>name. name \<noteq> [])
            (split_at 44 (map (\<lambda>c. if c \<in> {44, 59, 58, 32, 9} then 44 else c) names))
      | None \<Rightarrow> first_inherits rest)"

definition inherits :: "theme_dir \<Rightarrow> utext list" where
  "inherits d = (case td_index d of None \<Rightarrow> [] | Some text \<Rightarrow> first_inherits (split_at 10 text))"

record theme_walk =
  tw_visited :: "utext set"
  tw_entries :: "hotspot_entry list"
  tw_unreadable :: nat

fun read_theme_file :: "theme_file \<Rightarrow> theme_walk \<Rightarrow> theme_walk" where
  "read_theme_file SubDirectory w = w"
| "read_theme_file UnreadableFile w = w\<lparr>tw_unreadable := tw_unreadable w + 1\<rparr>"
| "read_theme_file (FileBytes bs) w =
     (let parsed = images_from_bytes bs in
      if parsed = [] then w\<lparr>tw_unreadable := tw_unreadable w + 1\<rparr>
      else w\<lparr>tw_entries := tw_entries w @ parsed\<rparr>)"

text \<open>The depth counts down: a walk starts with \<open>MAX_THEME_DEPTH + 1\<close> levels to go.\<close>

primrec walk_theme :: "(utext \<Rightarrow> utext \<Rightarrow> theme_dir option) \<Rightarrow> utext list \<Rightarrow> nat \<Rightarrow> utext \<Rightarrow> theme_walk \<Rightarrow> theme_walk" where
  "walk_theme fs dirs 0 theme w = w"
| "walk_theme fs dirs (Suc levels) theme w =
     (if theme = [] \<or> theme \<in> tw_visited w then w
      else let w1 = w\<lparr>tw_visited := insert theme (tw_visited w)\<rparr> in
        case find (\<lambda>dir. fs dir theme \<noteq> None) dirs of
          None \<Rightarrow> w1
        | Some home \<Rightarrow>
            let d = the (fs home theme);
                w2 = (case td_cursors d of None \<Rightarrow> w1 | Some files \<Rightarrow> fold read_theme_file files w1) in
            fold (walk_theme fs dirs levels) (inherits d) w2)"

fun dedupe_loop :: "hotspot_entry set \<Rightarrow> hotspot_entry list \<Rightarrow> hotspot_entry list" where
  "dedupe_loop seen [] = []"
| "dedupe_loop seen (e # es) =
     (if e \<in> seen then dedupe_loop seen es else e # dedupe_loop (insert e seen) es)"

definition dedupe :: "hotspot_entry list \<Rightarrow> hotspot_entry list" where
  "dedupe entries = dedupe_loop {} entries"

fun trim_loop :: "nat \<Rightarrow> hotspot_entry list \<Rightarrow> hotspot_entry list \<times> nat" where
  "trim_loop used [] = ([], 0)"
| "trim_loop used (e # es) =
     (if used + wire_size e > TABLE_BUDGET then let (kept, dropped) = trim_loop used es in (kept, dropped + 1)
      else let (kept, dropped) = trim_loop (used + wire_size e) es in (e # kept, dropped))"

definition trim_to_budget :: "hotspot_entry list \<Rightarrow> hotspot_entry list \<times> nat" where
  "trim_to_budget entries = trim_loop 0 (sort_key (\<lambda>e. he_width e * he_height e) entries)"

record collection =
  cl_entries :: "hotspot_entry list"
  cl_unreadable :: nat
  cl_dropped :: nat

definition collect_table :: "(utext \<Rightarrow> utext \<Rightarrow> theme_dir option) \<Rightarrow> utext list \<Rightarrow> utext \<Rightarrow> collection" where
  "collect_table fs dirs theme =
     (let w = walk_theme fs dirs (Suc MAX_THEME_DEPTH) theme \<lparr>tw_visited = {}, tw_entries = [], tw_unreadable = 0\<rparr>;
          w' = (if tw_entries w = [] \<and> theme \<noteq> DEFAULT_THEME
                then walk_theme fs dirs (Suc MAX_THEME_DEPTH) DEFAULT_THEME (w\<lparr>tw_visited := {}\<rparr>) else w);
          (kept, dropped) = trim_to_budget (dedupe (filter is_sendable (tw_entries w'))) in
      \<lparr>cl_entries = kept, cl_unreadable = tw_unreadable w', cl_dropped = dropped\<rparr>)"

section \<open>Chunks\<close>

fun chunk_loop :: "nat \<Rightarrow> hotspot_entry list \<Rightarrow> nat \<Rightarrow> hotspot_entry list \<Rightarrow> hotspot_entry list list" where
  "chunk_loop budget chunk held [] = (if chunk = [] then [] else [chunk])"
| "chunk_loop budget chunk held (e # es) =
     (if chunk \<noteq> [] \<and> held + wire_size e > budget then chunk # chunk_loop budget [e] (wire_size e) es
      else chunk_loop budget (chunk @ [e]) (held + wire_size e) es)"

definition chunk_entries_within :: "hotspot_entry list \<Rightarrow> nat \<Rightarrow> hotspot_entry list list" where
  "chunk_entries_within entries budget = chunk_loop budget [] 0 entries"

definition table_size :: "hotspot_entry list \<Rightarrow> nat" where
  "table_size es = sum_list (map wire_size es)"

lemma table_size_simps [simp]: "table_size [] = 0" "table_size (e # es) = wire_size e + table_size es"
  "table_size (es @ fs) = table_size es + table_size fs"
  by (simp_all add: table_size_def)

lemma chunk_loop_concat: "concat (chunk_loop budget chunk held es) = chunk @ es"
  by (induction es arbitrary: chunk held) auto

lemma chunk_loop_bound:
  assumes "held = table_size chunk" "table_size chunk \<le> budget \<or> length chunk \<le> 1"
  shows "\<forall>c \<in> set (chunk_loop budget chunk held es). c \<noteq> [] \<and> (table_size c \<le> budget \<or> length c = 1)"
  using assms
proof (induction es arbitrary: chunk held)
  case Nil
  then show ?case by (cases chunk) auto
next
  case (Cons e es)
  show ?case
  proof (cases "chunk \<noteq> [] \<and> held + wire_size e > budget")
    case True
    then have "table_size chunk \<le> budget \<or> length chunk = 1" using Cons.prems(2) by (cases chunk) auto
    then show ?thesis using True Cons.IH [of "wire_size e" "[e]"] by simp
  next
    case False
    then have "table_size (chunk @ [e]) \<le> budget \<or> length (chunk @ [e]) \<le> 1" using Cons.prems(1) by auto
    then have "\<forall>c \<in> set (chunk_loop budget (chunk @ [e]) (held + wire_size e) es).
        c \<noteq> [] \<and> (table_size c \<le> budget \<or> length c = 1)"
      using Cons.prems(1) by (intro Cons.IH) simp_all
    then show ?thesis using False by auto
  qed
qed

section \<open>The table that is sent\<close>

lemma set_dedupe_loop: "set (dedupe_loop seen es) = set es - seen"
  by (induction es arbitrary: seen) auto

lemma distinct_dedupe: "distinct (dedupe_loop seen es)"
  by (induction es arbitrary: seen) (auto simp: set_dedupe_loop)

lemma trim_loop_kept:
  assumes "trim_loop used es = (kept, dropped)" "used \<le> TABLE_BUDGET"
  shows "used + table_size kept \<le> TABLE_BUDGET \<and> set kept \<subseteq> set es \<and> (distinct es \<longrightarrow> distinct kept) \<and>
    length kept + dropped = length es \<and> (\<forall>e \<in> set es - set kept. used + table_size kept + wire_size e > TABLE_BUDGET)"
  using assms
proof (induction es arbitrary: used kept dropped)
  case (Cons e es)
  show ?case
  proof (cases "used + wire_size e > TABLE_BUDGET")
    case True
    then obtain d where d: "trim_loop used es = (kept, d)" "dropped = d + 1"
      using Cons.prems(1) by (auto split: prod.splits)
    show ?thesis using Cons.IH [OF d(1) Cons.prems(2)] d(2) True by auto
  next
    case False
    then obtain k where k: "trim_loop (used + wire_size e) es = (k, dropped)" "kept = e # k"
      using Cons.prems(1) by (auto split: prod.splits)
    have "used + wire_size e \<le> TABLE_BUDGET" using False by simp
    from Cons.IH [OF k(1) this] show ?thesis unfolding k(2) by (auto simp: add.assoc)
  qed
qed simp

lemma collect_table_entries:
  assumes "collect_table fs dirs theme = c"
  shows "list_all is_sendable (cl_entries c) \<and> distinct (cl_entries c) \<and> table_size (cl_entries c) \<le> TABLE_BUDGET"
proof -
  define w where "w = walk_theme fs dirs (Suc MAX_THEME_DEPTH) theme \<lparr>tw_visited = {}, tw_entries = [], tw_unreadable = 0\<rparr>"
  define w' where "w' = (if tw_entries w = [] \<and> theme \<noteq> DEFAULT_THEME
    then walk_theme fs dirs (Suc MAX_THEME_DEPTH) DEFAULT_THEME (w\<lparr>tw_visited := {}\<rparr>) else w)"
  let ?es = "dedupe (filter is_sendable (tw_entries w'))"
  obtain kept dropped where t: "trim_to_budget ?es = (kept, dropped)" by force
  then have entries: "cl_entries c = kept"
    using assms by (auto simp: collect_table_def w_def w'_def Let_def simp del: walk_theme.simps)
  have "distinct ?es" "set ?es \<subseteq> Collect is_sendable"
    by (auto simp: dedupe_def distinct_dedupe set_dedupe_loop)
  moreover have "table_size kept \<le> TABLE_BUDGET \<and> set kept \<subseteq> set ?es \<and> (distinct ?es \<longrightarrow> distinct kept)"
    using trim_loop_kept [OF t [unfolded trim_to_budget_def]] by simp
  ultimately show ?thesis using entries by (auto simp: list_all_iff)
qed

text \<open>An image read from a file has as many pixels as it says.\<close>

lemma image_at_pixels: "image_at bs position = Some e \<Longrightarrow> length (he_pixels e) = he_width e * he_height e * 4"
  by (auto simp: image_at_def get_range_def bind_eq_Some_conv Let_def split: if_splits)

lemma images_from_bytes_pixels: "e \<in> set (images_from_bytes bs) \<Longrightarrow> length (he_pixels e) = he_width e * he_height e * 4"
proof -
  have "e \<in> set (toc_loop bs is) \<Longrightarrow> length (he_pixels e) = he_width e * he_height e * 4" for "is"
    by (induction "is") (auto simp: Let_def image_at_pixels split: option.splits if_splits)
  then show "e \<in> set (images_from_bytes bs) \<Longrightarrow> length (he_pixels e) = he_width e * he_height e * 4"
    by (auto simp: images_from_bytes_def split: option.splits if_splits)
qed

end
