(* ===== verification/Wire_Record.thy ===== *)
theory Wire_Record
  imports Byte_Stream Prefix_Code
begin

text \<open>
  Records of the display protocol (\<open>display-protocol/src/record.rs\<close>): a 24-byte header, any bytes
  a newer minor appended to it, and the payload. CRC32C is library code and the parameter \<open>crc\<close>.
  Reading works on a transport with a clock, because a record that has begun is waited for only
  as long as \<open>RECORD_COMPLETION\<close>.
\<close>

section \<open>Definitions\<close>

definition RECORD_HEADER_LEN :: nat where "RECORD_HEADER_LEN = 24"

datatype Channel = ChControl | ChFrame | ChInput | ChClipboard | ChAudio

datatype RecordError =
    MalformedHeader u8
  | UnknownChannel u8
  | RecordTooLarge Channel nat nat
  | ChecksumMismatch u32 u32
  | RecordClosed
  | RecordIdle
  | RecordIo io_kind

fun channel_as_wire :: "Channel \<Rightarrow> u8" where
  "channel_as_wire ChControl = 1"
| "channel_as_wire ChFrame = 2"
| "channel_as_wire ChInput = 3"
| "channel_as_wire ChClipboard = 4"
| "channel_as_wire ChAudio = 5"

definition channel_from_wire :: "u8 \<Rightarrow> (RecordError, Channel) outcome" where
  "channel_from_wire v =
     (if v = 1 then Ok ChControl else if v = 2 then Ok ChFrame else if v = 3 then Ok ChInput
      else if v = 4 then Ok ChClipboard else if v = 5 then Ok ChAudio else Err (UnknownChannel v))"

record header =
  hd_channel :: Channel
  hd_message_type :: u16
  hd_length :: u32
  hd_sequence :: u32
  hd_base :: u32
  hd_checksum :: u32
  hd_generation :: u32

definition header_for_payload ::
  "(bytes \<Rightarrow> u32) \<Rightarrow> Channel \<Rightarrow> u16 \<Rightarrow> u32 \<Rightarrow> u32 \<Rightarrow> u32 \<Rightarrow> bytes \<Rightarrow> header" where
  "header_for_payload crc channel message_type sequence base generation payload =
     \<lparr>hd_channel = channel, hd_message_type = message_type,
      hd_length = (if length payload \<le> u32_max then of_nat (length payload) else of_nat u32_max),
      hd_sequence = sequence, hd_base = base, hd_checksum = crc payload,
      hd_generation = generation\<rparr>"

definition header_encode :: "header \<Rightarrow> bytes" where
  "header_encode h =
     [of_nat RECORD_HEADER_LEN, channel_as_wire (hd_channel h)] @ u16_to_le (hd_message_type h)
     @ u32_to_le (hd_length h) @ u32_to_le (hd_sequence h) @ u32_to_le (hd_base h)
     @ u32_to_le (hd_checksum h) @ u32_to_le (hd_generation h)"

definition header_decode :: "bytes \<Rightarrow> (RecordError, header \<times> nat) outcome" where
  "header_decode b =
     (let header_len = b ! 0 in
      if unat header_len < RECORD_HEADER_LEN then Err (MalformedHeader header_len)
      else obind (channel_from_wire (b ! 1)) (\<lambda>channel.
        Ok (\<lparr>hd_channel = channel,
             hd_message_type = u16_from_le (b ! 2) (b ! 3),
             hd_length = u32_from_le (b ! 4) (b ! 5) (b ! 6) (b ! 7),
             hd_sequence = u32_from_le (b ! 8) (b ! 9) (b ! 10) (b ! 11),
             hd_base = u32_from_le (b ! 12) (b ! 13) (b ! 14) (b ! 15),
             hd_checksum = u32_from_le (b ! 16) (b ! 17) (b ! 18) (b ! 19),
             hd_generation = u32_from_le (b ! 20) (b ! 21) (b ! 22) (b ! 23)\<rparr>,
            unat header_len - RECORD_HEADER_LEN)))"

definition CONTROL_MAX_PAYLOAD :: nat where "CONTROL_MAX_PAYLOAD = 64 * 1024"
definition INPUT_MAX_PAYLOAD :: nat where "INPUT_MAX_PAYLOAD = 4 * 1024"
definition CLIPBOARD_MAX_PAYLOAD :: nat where "CLIPBOARD_MAX_PAYLOAD = 64 * 1024"
definition AUDIO_MAX_PAYLOAD :: nat where "AUDIO_MAX_PAYLOAD = 16 * 1024"
definition FRAME_PAYLOAD_CEILING :: nat where "FRAME_PAYLOAD_CEILING = 64 * 1024 * 1024"
definition FRAME_PAYLOAD_SLACK :: nat where "FRAME_PAYLOAD_SLACK = 64 * 1024"

record limits = lim_frame :: nat

text \<open>Saturating \<open>u32\<close> arithmetic.\<close>

definition set_geometry :: "limits \<Rightarrow> nat \<Rightarrow> nat \<Rightarrow> limits" where
  "set_geometry l width height =
     l\<lparr>lim_frame := min (min (min (min (width * height) u32_max * 4) u32_max
        + FRAME_PAYLOAD_SLACK) u32_max) FRAME_PAYLOAD_CEILING\<rparr>"

definition limits_new :: "nat \<Rightarrow> nat \<Rightarrow> limits" where
  "limits_new width height = set_geometry \<lparr>lim_frame = 0\<rparr> width height"

fun for_channel :: "limits \<Rightarrow> Channel \<Rightarrow> nat" where
  "for_channel l ChControl = CONTROL_MAX_PAYLOAD"
| "for_channel l ChFrame = lim_frame l"
| "for_channel l ChInput = INPUT_MAX_PAYLOAD"
| "for_channel l ChClipboard = CLIPBOARD_MAX_PAYLOAD"
| "for_channel l ChAudio = AUDIO_MAX_PAYLOAD"

record record_msg =
  rec_header :: header
  rec_payload :: bytes

definition record_new ::
  "(bytes \<Rightarrow> u32) \<Rightarrow> Channel \<Rightarrow> u16 \<Rightarrow> u32 \<Rightarrow> u32 \<Rightarrow> u32 \<Rightarrow> bytes \<Rightarrow> record_msg" where
  "record_new crc channel message_type sequence base generation payload =
     \<lparr>rec_header = header_for_payload crc channel message_type sequence base generation payload,
      rec_payload = payload\<rparr>"

text \<open>A transport call whose failure ends the operation.\<close>

fun io_then ::
  "(io_kind, unit) outcome \<times> sink \<Rightarrow> (sink \<Rightarrow> (RecordError, unit) outcome \<times> sink)
   \<Rightarrow> (RecordError, unit) outcome \<times> sink" where
  "io_then (Ok _, s) f = f s"
| "io_then (Err k, s) f = (Err (RecordIo k), s)"
| "io_then (Panic, s) f = (Panic, s)"

definition write_payload ::
  "header \<Rightarrow> bytes \<Rightarrow> limits \<Rightarrow> sink \<Rightarrow> (RecordError, unit) outcome \<times> sink" where
  "write_payload h payload l writer =
     (let cap = for_channel l (hd_channel h) in
      if unat (hd_length h) > cap
        then (Err (RecordTooLarge (hd_channel h) (unat (hd_length h)) cap), writer)
      else io_then (write_all (header_encode h) writer) (\<lambda>w1.
        io_then (write_all payload w1) (\<lambda>w2.
          io_then (flush w2) (\<lambda>w3. (Ok (), w3)))))"

definition record_write :: "record_msg \<Rightarrow> limits \<Rightarrow> sink \<Rightarrow> (RecordError, unit) outcome \<times> sink" where
  "record_write m l writer = write_payload (rec_header m) (rec_payload m) l writer"

definition RECORD_COMPLETION :: nat where "RECORD_COMPLETION = 5000"

definition is_idle :: "io_kind \<Rightarrow> bool" where
  "is_idle k \<longleftrightarrow> k = TimedOut \<or> k = WouldBlock"

function fill_until :: "nat \<Rightarrow> nat \<Rightarrow> reader \<Rightarrow> (RecordError, bytes) outcome \<times> reader" where
  "fill_until deadline n r =
     (if n = 0 then (Ok [], r)
      else case reader_read n r of
          (Ok bs, r') \<Rightarrow>
            if bs = [] then (Err (RecordIo UnexpectedEof), r')
            else (case fill_until deadline (n - length bs) r' of
                (Ok rest, r'') \<Rightarrow> (Ok (bs @ rest), r'')
              | (Err err, r'') \<Rightarrow> (Err err, r'')
              | (Panic, r'') \<Rightarrow> (Panic, r''))
        | (Err k, r') \<Rightarrow>
            if k = Interrupted then fill_until deadline n r'
            else if is_idle k then
              if rd_clock r' \<ge> deadline then (Err (RecordIo TimedOut), r')
              else fill_until deadline n r'
            else (Err (RecordIo k), r')
        | (Panic, r') \<Rightarrow> (Panic, r'))"
  by pat_completeness auto
termination
  by (relation "measure (\<lambda>(deadline, n, r). length (rd_events r) + n)")
    (auto dest: reader_read_progress [OF sym] reader_read_fault [OF sym])

declare fill_until.simps [simp del]

definition fill :: "nat \<Rightarrow> reader \<Rightarrow> (RecordError, bytes) outcome \<times> reader" where
  "fill n r = fill_until (rd_clock r + RECORD_COMPLETION) n r"

text \<open>The first bytes of a header: here a quiet connection is idle and a closed one is an end.\<close>

function first_bytes :: "reader \<Rightarrow> (RecordError, bytes) outcome \<times> reader" where
  "first_bytes r =
     (case reader_read RECORD_HEADER_LEN r of
        (Ok bs, r') \<Rightarrow> if bs = [] then (Err RecordClosed, r') else (Ok bs, r')
      | (Err k, r') \<Rightarrow>
          if k = Interrupted then first_bytes r'
          else if is_idle k then (Err RecordIdle, r')
          else (Err (RecordIo k), r')
      | (Panic, r') \<Rightarrow> (Panic, r'))"
  by pat_completeness auto
termination
  by (relation "measure (\<lambda>r. length (rd_events r))") (auto dest: reader_read_fault [OF sym])

declare first_bytes.simps [simp del]

text \<open>Sequencing of reads.\<close>

fun rd_then ::
  "(RecordError, 'a) outcome \<times> reader \<Rightarrow> ('a \<Rightarrow> reader \<Rightarrow> (RecordError, 'b) outcome \<times> reader)
   \<Rightarrow> (RecordError, 'b) outcome \<times> reader" where
  "rd_then (Ok x, r) f = f x r"
| "rd_then (Err err, r) f = (Err err, r)"
| "rd_then (Panic, r) f = (Panic, r)"

definition read_header_bytes :: "reader \<Rightarrow> (RecordError, bytes) outcome \<times> reader" where
  "read_header_bytes r =
     rd_then (first_bytes r) (\<lambda>first r'.
       rd_then (fill (RECORD_HEADER_LEN - length first) r') (\<lambda>rest r''. (Ok (first @ rest), r'')))"

definition record_read ::
  "(bytes \<Rightarrow> u32) \<Rightarrow> limits \<Rightarrow> reader \<Rightarrow> (RecordError, header \<times> bytes) outcome \<times> reader" where
  "record_read crc l r =
     rd_then (read_header_bytes r) (\<lambda>b r1.
       rd_then (header_decode b, r1) (\<lambda>(h, extra) r2.
         let cap = for_channel l (hd_channel h) in
         if unat (hd_length h) > cap
           then (Err (RecordTooLarge (hd_channel h) (unat (hd_length h)) cap), r2)
         else
           rd_then (if extra > 0 then fill extra r2 else (Ok [], r2)) (\<lambda>_ r3.
             rd_then (fill (unat (hd_length h)) r3) (\<lambda>payload r4.
               let found = crc payload in
               if found \<noteq> hd_checksum h then (Err (ChecksumMismatch (hd_checksum h) found), r4)
               else (Ok (h, payload), r4)))))"

section \<open>Headers\<close>

lemma channel_from_as_wire [simp]: "channel_from_wire (channel_as_wire c) = Ok c"
  by (cases c) (simp_all add: channel_from_wire_def)

lemma length_header_encode [simp]: "length (header_encode h) = 24"
  by (simp add: header_encode_def)

text \<open>A header as a newer minor writes it: longer, with fields this build does not know.\<close>

definition extended_header :: "header \<Rightarrow> bytes \<Rightarrow> bytes" where
  "extended_header h extra = (header_encode h)[0 := of_nat (RECORD_HEADER_LEN + length extra)]"

lemma extended_header_nil: "extended_header h [] = header_encode h"
  by (simp add: extended_header_def header_encode_def)

lemma header_decode_extended:
  assumes "length extra \<le> 231"
  shows "header_decode (extended_header h extra) = Ok (h, length extra)"
proof -
  have "unat (of_nat (24 + length extra) :: u8) = 24 + length extra"
    using assms by (subst unat_of_nat) (simp add: take_bit_nat_eq_self)
  then show ?thesis
    unfolding extended_header_def header_encode_def header_decode_def u16_to_le_def u32_to_le_def
    by (simp add: RECORD_HEADER_LEN_def)
qed

lemma header_decode_encode [simp]: "header_decode (header_encode h) = Ok (h, 0)"
  using header_decode_extended [of "[]" h] by (simp add: extended_header_nil)

definition header_parse :: "bytes \<Rightarrow> (RecordError, header \<times> nat) outcome" where
  "header_parse bs =
     obind (slice bs 0 RECORD_HEADER_LEN) (\<lambda>b.
       obind (header_decode b) (\<lambda>(h, extra). Ok (h, RECORD_HEADER_LEN + extra)))"

interpretation record_header: prefix_code "\<lambda>_. True" header_encode header_parse
  by unfold_locales (simp add: header_parse_def slice_def RECORD_HEADER_LEN_def)

section \<open>Reading from a transport that delivers\<close>

text \<open>
  A transport about to deliver \<open>bs\<close>: it may cut the bytes anywhere, be interrupted and let polls
  expire in between (\<open>retried\<close>), as long as it is done before a record's completion time runs out.
\<close>

definition prompt :: "io_kind set \<Rightarrow> reader \<Rightarrow> bytes \<Rightarrow> bool" where
  "prompt retried r bs \<longleftrightarrow> retried \<subseteq> {Interrupted, TimedOut, WouldBlock} \<and>
     live retried (rd_events r) \<and> stream_bytes (rd_events r) = bs \<and>
     elapsed (rd_events r) < RECORD_COMPLETION"

fun begun :: "(nat \<times> read_event) list \<Rightarrow> bool" where
  "begun [] = False"
| "begun ((t, Data bs) # evs) = True"
| "begun ((t, Fault k) # evs) = (k = Interrupted \<and> begun evs)"

lemma begun_steady: "live {Interrupted} evs \<Longrightarrow> stream_bytes evs \<noteq> [] \<Longrightarrow> begun evs"
  by (induction "{Interrupted}" evs rule: live.induct) auto

lemma fill_until_live:
  assumes retried: "retried \<subseteq> {Interrupted, TimedOut, WouldBlock}" and "live retried (rd_events r)"
    and "rd_clock r + elapsed (rd_events r) < deadline" "n \<le> length (stream_bytes (rd_events r))"
  shows "\<exists>r'. fill_until deadline n r = (Ok (take n (stream_bytes (rd_events r))), r') \<and>
    live retried (rd_events r') \<and>
    stream_bytes (rd_events r') = drop n (stream_bytes (rd_events r)) \<and>
    elapsed (rd_events r') \<le> elapsed (rd_events r)"
  using assms(2-)
proof (induction "length (rd_events r) + n" arbitrary: n r rule: less_induct)
  case less
  show ?case
  proof (cases "n = 0")
    case True
    then have "fill_until deadline n r = (Ok [], r)" by (subst fill_until.simps) simp
    then show ?thesis using less.prems True by simp
  next
    case False
    then have "0 < n" by simp
    with less.prems(1) show ?thesis
    proof (cases rule: reader_read_live)
      case (fault k r')
      have "rd_clock r' < deadline" using fault(5) less.prems(2) by linarith
      then have eq: "fill_until deadline n r = fill_until deadline n r'"
        using fault(1,2) False retried by (subst fill_until.simps) (auto simp: is_idle_def)
      have lt: "length (rd_events r') + n < length (rd_events r) + n"
        using reader_read_fault [OF fault(1)] by simp
      have el: "elapsed (rd_events r') \<le> elapsed (rd_events r)" using fault(5,6) by linarith
      from less.hyps [OF lt fault(3)] fault(4,5) less.prems(2,3) el show ?thesis
        unfolding eq by force
    next
      case eof
      then show ?thesis using less.prems(3) False by simp
    next
      case (data bs r')
      have lt: "length (rd_events r') + (n - length bs) < length (rd_events r) + n"
        using reader_read_progress [OF data(1,2)] .
      have el: "elapsed (rd_events r') \<le> elapsed (rd_events r)" using data(6,7) by linarith
      have n': "n - length bs \<le> length (stream_bytes (rd_events r'))"
        using less.prems(3) data(5) by simp
      from less.hyps [OF lt data(4) _ n'] less.prems(2) data(6) obtain r'' where IH:
        "fill_until deadline (n - length bs) r' =
           (Ok (take (n - length bs) (stream_bytes (rd_events r'))), r'')"
        "live retried (rd_events r'')"
        "stream_bytes (rd_events r'') = drop (n - length bs) (stream_bytes (rd_events r'))"
        "elapsed (rd_events r'') \<le> elapsed (rd_events r')"
        by auto
      have "fill_until deadline n r = (Ok (take n (stream_bytes (rd_events r))), r'')"
        using data(1,2,3,5) IH(1) False by (subst fill_until.simps) simp
      then show ?thesis using IH data(3,5) el by auto
    qed
  qed
qed

lemma fill_prompt:
  assumes "prompt retried r bs" "n \<le> length bs"
  obtains r' where "fill n r = (Ok (take n bs), r')" "prompt retried r' (drop n bs)"
  using fill_until_live [of retried r "rd_clock r + RECORD_COMPLETION" n] assms
  by (fastforce simp: prompt_def fill_def)

lemma first_bytes_prompt:
  assumes "prompt retried r bs" "begun (rd_events r)"
  shows "\<exists>k r'. first_bytes r = (Ok (take k bs), r') \<and> k \<le> RECORD_HEADER_LEN \<and> k \<le> length bs \<and>
    prompt retried r' (drop k bs)"
  using assms
proof (induction "length (rd_events r)" arbitrary: r rule: less_induct)
  case less
  obtain t ev evs where evs: "rd_events r = (t, ev) # evs"
    using less.prems(2) by (cases "rd_events r") auto
  show ?case
  proof (cases ev)
    case (Data b)
    let ?k = "min (length b) RECORD_HEADER_LEN"
    define r1 where "r1 = snd (reader_read RECORD_HEADER_LEN r)"
    have b: "b \<noteq> []" "bs = b @ stream_bytes evs" using less.prems(1) evs Data by (auto simp: prompt_def)
    have "reader_read RECORD_HEADER_LEN r = (Ok (take ?k bs), r1)"
      using b evs Data by (simp add: r1_def reader_read_def min_def)
    moreover have "take ?k bs \<noteq> []" using b by (simp add: RECORD_HEADER_LEN_def)
    ultimately have "first_bytes r = (Ok (take ?k bs), r1)" by (subst first_bytes.simps) simp
    moreover have "prompt retried r1 (drop ?k bs)"
      using less.prems(1) evs Data b by (auto simp: r1_def prompt_def reader_read_def elapsed_def min_def)
    ultimately show ?thesis using b by (intro exI [of _ ?k] exI [of _ r1]) simp
  next
    case (Fault k)
    let ?r = "snd (reader_read RECORD_HEADER_LEN r)"
    have k: "k = Interrupted" "begun evs" using less.prems(2) evs Fault by simp_all
    then have "first_bytes r = first_bytes ?r"
      using evs Fault by (subst first_bytes.simps) (simp add: reader_read_def)
    moreover have "prompt retried ?r bs" "begun (rd_events ?r)" "length (rd_events ?r) < length (rd_events r)"
      using less.prems(1) evs Fault k by (auto simp: prompt_def reader_read_def elapsed_def)
    ultimately show ?thesis using less.hyps [of ?r] by simp
  qed
qed

lemma read_header_bytes_prompt:
  assumes "prompt retried r (hdr @ rest)" "begun (rd_events r)" "length hdr = RECORD_HEADER_LEN"
  obtains r' where "read_header_bytes r = (Ok hdr, r')" "prompt retried r' rest"
proof -
  obtain k r1 where k: "first_bytes r = (Ok (take k (hdr @ rest)), r1)" "k \<le> RECORD_HEADER_LEN"
    "prompt retried r1 (drop k (hdr @ rest))"
    using first_bytes_prompt [OF assms(1,2)] by blast
  obtain r2 where "fill (RECORD_HEADER_LEN - k) r1 =
      (Ok (take (RECORD_HEADER_LEN - k) (drop k (hdr @ rest))), r2)"
    "prompt retried r2 (drop (RECORD_HEADER_LEN - k) (drop k (hdr @ rest)))"
    using fill_prompt [OF k(3), of "RECORD_HEADER_LEN - k"] assms(3) by auto
  then show ?thesis
    using k(1,2) assms(3) by (intro that [of r2]) (simp_all add: read_header_bytes_def)
qed

text \<open>
  A record is read back whole from any such transport, with whatever a newer minor appended to the
  header skipped, and the stream is left at the next record.
\<close>

lemma record_read_prompt:
  assumes "prompt retried r (extended_header h extra @ extra @ payload @ rest)" "begun (rd_events r)"
    and "length extra \<le> 231" "unat (hd_length h) = length payload" "hd_checksum h = crc payload"
    and "length payload \<le> for_channel l (hd_channel h)"
  shows "\<exists>r'. record_read crc l r = (Ok (h, payload), r') \<and> prompt retried r' rest"
proof -
  obtain r1 where r1: "read_header_bytes r = (Ok (extended_header h extra), r1)"
    "prompt retried r1 (extra @ payload @ rest)"
    using read_header_bytes_prompt [OF assms(1,2)]
    by (auto simp: extended_header_def RECORD_HEADER_LEN_def)
  obtain r2 where r2: "(if 0 < length extra then fill (length extra) r1 else (Ok [], r1)) =
      (Ok extra, r2)" "prompt retried r2 (payload @ rest)"
  proof (cases "extra = []")
    case False
    then show ?thesis using fill_prompt [OF r1(2), of "length extra"] that by auto
  qed (use r1 that in auto)
  obtain r3 where "fill (length payload) r2 = (Ok payload, r3)" "prompt retried r3 rest"
    using fill_prompt [OF r2(2), of "length payload"] by auto
  then show ?thesis
    using r1(1) r2(1) assms(4-6) header_decode_extended [OF assms(3), of h]
    by (simp add: record_read_def Let_def)
qed

lemma record_read_oversized:
  assumes "prompt retried r (extended_header h extra @ rest)" "begun (rd_events r)"
    and "length extra \<le> 231" "for_channel l (hd_channel h) < unat (hd_length h)"
  shows "\<exists>r'. record_read crc l r =
    (Err (RecordTooLarge (hd_channel h) (unat (hd_length h)) (for_channel l (hd_channel h))), r') \<and>
    prompt retried r' rest"
proof -
  obtain r1 where "read_header_bytes r = (Ok (extended_header h extra), r1)" "prompt retried r1 rest"
    using read_header_bytes_prompt [OF assms(1,2)]
    by (auto simp: extended_header_def RECORD_HEADER_LEN_def)
  then show ?thesis
    using assms(4) header_decode_extended [OF assms(3), of h] by (simp add: record_read_def Let_def)
qed

section \<open>Whatever the transport does\<close>

lemma fill_until_result:
  "fill_until deadline n r = (res, r') \<Longrightarrow>
   res \<noteq> Panic \<and> (\<forall>bs. res = Ok bs \<longrightarrow> length bs = n)"
proof (induction deadline n r arbitrary: res r' rule: fill_until.induct)
  case (1 deadline n r)
  obtain out r1 where rd: "reader_read n r = (out, r1)" by force
  consider (zero) "n = 0" | (data) bs where "n \<noteq> 0" "out = Ok bs" | (fault) k where "n \<noteq> 0" "out = Err k"
    using rd by (cases out) auto
  then show ?case
  proof cases
    case zero
    then show ?thesis using "1.prems" by (subst (asm) fill_until.simps) auto
  next
    case (data bs)
    have len: "length bs \<le> n" using rd data(2)
      by (auto simp: reader_read_def split: list.splits read_event.splits)
    obtain out2 r2 where rest: "fill_until deadline (n - length bs) r1 = (out2, r2)" by force
    have "(res, r') = (if bs = [] then (Err (RecordIo UnexpectedEof), r1)
        else case out2 of Ok rest \<Rightarrow> (Ok (bs @ rest), r2) | Err e \<Rightarrow> (Err e, r2) | Panic \<Rightarrow> (Panic, r2))"
      using "1.prems" rd data rest by (subst (asm) fill_until.simps) (cases "bs = []"; cases out2; auto)
    moreover have "bs \<noteq> [] \<Longrightarrow> out2 \<noteq> Panic \<and> (\<forall>x. out2 = Ok x \<longrightarrow> length x = n - length bs)"
      using "1.IH"(1) [OF data(1) rd [symmetric] data(2) _ rest] by blast
    ultimately show ?thesis using len by (cases out2) (auto split: if_splits)
  next
    case (fault k)
    have "(res, r') = (if k = Interrupted then fill_until deadline n r1
        else if is_idle k then if rd_clock r1 \<ge> deadline then (Err (RecordIo TimedOut), r1)
          else fill_until deadline n r1
        else (Err (RecordIo k), r1))"
      using "1.prems" rd fault by (subst (asm) fill_until.simps) simp
    then show ?thesis
      using "1.IH"(2) [OF fault(1) rd [symmetric] fault(2), of res r']
        "1.IH"(3) [OF fault(1) rd [symmetric] fault(2), of res r']
      by (auto split: if_splits)
  qed
qed

lemma fill_result: "fill n r = (res, r') \<Longrightarrow> res \<noteq> Panic \<and> (\<forall>bs. res = Ok bs \<longrightarrow> length bs = n)"
  unfolding fill_def by (rule fill_until_result)

lemma first_bytes_result: "first_bytes r = (res, r') \<Longrightarrow> res \<noteq> Panic"
proof (induction r arbitrary: res r' rule: first_bytes.induct)
  case (1 r)
  obtain out r1 where rd: "reader_read RECORD_HEADER_LEN r = (out, r1)" by force
  show ?case
  proof (cases out)
    case (Ok bs)
    then show ?thesis using "1.prems" rd by (subst (asm) first_bytes.simps) (auto split: if_splits)
  next
    case (Err k)
    then show ?thesis
      using "1.prems" "1.IH" [OF rd [symmetric] Err] rd
      by (subst (asm) first_bytes.simps) (auto split: if_splits)
  qed (use rd in simp)
qed

lemma rd_then_Ok:
  "rd_then m f = (Ok y, r') \<longleftrightarrow> (\<exists>x r. m = (Ok x, r) \<and> f x r = (Ok y, r'))"
  by (cases "(m, f)" rule: rd_then.cases) auto

lemma rd_then_Panic:
  "rd_then m f = (Panic, r') \<longleftrightarrow> m = (Panic, r') \<or> (\<exists>x r. m = (Ok x, r) \<and> f x r = (Panic, r'))"
  by (cases "(m, f)" rule: rd_then.cases) auto

lemma header_decode_not_Panic [simp]: "header_decode b \<noteq> Panic"
  by (auto simp: header_decode_def channel_from_wire_def Let_def)

text \<open>What is read is what was announced, on every transport and for every peer.\<close>

lemma record_read_sound:
  assumes "record_read crc l r = (Ok (h, payload), r')"
  shows "length payload = unat (hd_length h)" "length payload \<le> for_channel l (hd_channel h)"
    and "crc payload = hd_checksum h"
  using assms
  by (auto simp: record_read_def rd_then_Ok Let_def split: if_splits dest: fill_result)

lemma record_read_not_Panic: "record_read crc l r \<noteq> (Panic, r')"
  by (auto simp: record_read_def read_header_bytes_def rd_then_Panic Let_def split: if_splits
      dest: fill_result first_bytes_result)

text \<open>A peer that stops inside a record is given up on: the poll after the deadline ends it.\<close>

lemma fill_until_stalled:
  assumes "0 < n" "\<And>t ev. (t, ev) \<in> set evs \<Longrightarrow> ev = Fault TimedOut \<and> t \<le> step"
    and "rd_events r = evs" "rd_clock r < deadline" "deadline \<le> rd_clock r + elapsed evs"
  shows "\<exists>r'. fill_until deadline n r = (Err (RecordIo TimedOut), r') \<and>
    rd_clock r' < deadline + step"
  using assms(2-)
proof (induction evs arbitrary: r)
  case Nil
  then show ?case by (simp add: elapsed_def)
next
  case (Cons e evs)
  obtain t ev where e: "e = (t, ev)" by force
  then have ev: "ev = Fault TimedOut" "t \<le> step" using Cons.prems(1) by auto
  let ?r = "r\<lparr>rd_clock := rd_clock r + t, rd_events := evs\<rparr>"
  have rd: "reader_read n r = (Err TimedOut, ?r)" using Cons.prems(2) e ev by (simp add: reader_read_def)
  show ?case
  proof (cases "deadline \<le> rd_clock r + t")
    case True
    then have "fill_until deadline n r = (Err (RecordIo TimedOut), ?r)"
      using rd assms(1) by (subst fill_until.simps) (simp add: is_idle_def)
    then show ?thesis using Cons.prems(3) ev(2) by auto
  next
    case False
    then have eq: "fill_until deadline n r = fill_until deadline n ?r"
      using rd assms(1) by (subst fill_until.simps) (simp add: is_idle_def)
    have "\<exists>r'. fill_until deadline n ?r = (Err (RecordIo TimedOut), r') \<and> rd_clock r' < deadline + step"
      by (rule Cons.IH) (use Cons.prems e False in \<open>auto simp: elapsed_def\<close>)
    then show ?thesis unfolding eq .
  qed
qed

section \<open>Writing\<close>

lemma write_payload_Ok:
  "write_payload h payload l s = (Ok (), s') \<Longrightarrow>
   unat (hd_length h) \<le> for_channel l (hd_channel h) \<and>
   sink_taken s' = sink_taken s @ header_encode h @ payload"
  by (auto simp: write_payload_def flush_def Let_def
      split: if_splits list.splits write_event.splits)

lemma write_payload_oversized:
  "for_channel l (hd_channel h) < unat (hd_length h) \<Longrightarrow>
   write_payload h payload l s =
     (Err (RecordTooLarge (hd_channel h) (unat (hd_length h)) (for_channel l (hd_channel h))), s)"
  by (simp add: write_payload_def)

lemma write_payload_not_Panic: "write_payload h payload l s \<noteq> (Panic, s')"
  by (auto simp: write_payload_def flush_def Let_def
      split: if_splits list.splits write_event.splits)

text \<open>Every cap is below what a header can announce.\<close>

lemma for_channel_bound:
  "lim_frame l \<le> FRAME_PAYLOAD_CEILING \<Longrightarrow> for_channel l c \<le> FRAME_PAYLOAD_CEILING"
  by (cases c) (simp_all add: FRAME_PAYLOAD_CEILING_def CONTROL_MAX_PAYLOAD_def INPUT_MAX_PAYLOAD_def
      CLIPBOARD_MAX_PAYLOAD_def AUDIO_MAX_PAYLOAD_def)

lemma limits_new_bound: "lim_frame (limits_new w h) \<le> FRAME_PAYLOAD_CEILING"
  by (simp add: limits_new_def set_geometry_def)

lemma header_length_exact:
  "length payload \<le> u32_max \<Longrightarrow>
   unat (hd_length (header_for_payload crc c m s b g payload)) = length payload"
  by (simp add: header_for_payload_def unat_of_nat take_bit_nat_eq_self)

lemma header_length_saturates:
  "unat (hd_length (header_for_payload crc c m s b g payload)) = min (length payload) u32_max"
  by (simp add: header_for_payload_def unat_of_nat take_bit_nat_eq_self)

text \<open>What was written under a limit is read back under it.\<close>

lemma written_read_back:
  assumes "write_payload (header_for_payload crc c t n b g payload) payload l s = (Ok (), s')"
    and "lim_frame l \<le> FRAME_PAYLOAD_CEILING" "sink_taken s' = sink_taken s @ written"
    and "prompt retried r (written @ rest)" "begun (rd_events r)"
  shows "\<exists>r'. record_read crc l r = (Ok (header_for_payload crc c t n b g payload, payload), r') \<and> prompt retried r' rest"
proof -
  let ?h = "header_for_payload crc c t n b g payload"
  have w: "unat (hd_length ?h) \<le> for_channel l (hd_channel ?h)" "written = extended_header ?h [] @ [] @ payload"
    using write_payload_Ok [OF assms(1)] assms(3) by (simp_all add: extended_header_nil)
  have "for_channel l c \<le> FRAME_PAYLOAD_CEILING" by (rule for_channel_bound [OF assms(2)])
  then have "unat (hd_length ?h) = length payload"
    using w(1) header_length_saturates [of crc c t n b g payload]
    by (auto simp: FRAME_PAYLOAD_CEILING_def header_for_payload_def min_def split: if_splits)
  then show ?thesis
    using record_read_prompt [of retried r ?h "[]" payload rest crc l] w assms(4,5) by (simp add: header_for_payload_def)
qed

end
