(* ===== verification/Frame_Video.thy ===== *)
theory Frame_Video
  imports Decoder Cursor_Theme Wire_Record
begin

text \<open>
  The viewer's half of the frame channel (\<open>display-viewer/src/video.rs\<close>): records of the channel applied
  to a decoder. The messages \<open>StreamConfig\<close> and \<open>CursorHotspots\<close> are generated code; how they are
  encoded and decoded is the parameter \<open>w\<close>.
\<close>

section \<open>Messages\<close>

definition FRAME_STREAM_CONFIG :: u16 where "FRAME_STREAM_CONFIG = 4"
definition FRAME_KEYFRAME :: u16 where "FRAME_KEYFRAME = 5"
definition FRAME_TILE_DELTA :: u16 where "FRAME_TILE_DELTA = 6"
definition FRAME_CURSOR_IMAGE :: u16 where "FRAME_CURSOR_IMAGE = 7"
definition FRAME_CURSOR_POSITION :: u16 where "FRAME_CURSOR_POSITION = 8"
definition FRAME_CURSOR_HOTSPOTS :: u16 where "FRAME_CURSOR_HOTSPOTS = 10"

lemmas frame_types = FRAME_STREAM_CONFIG_def FRAME_KEYFRAME_def FRAME_TILE_DELTA_def FRAME_CURSOR_IMAGE_def
  FRAME_CURSOR_POSITION_def FRAME_CURSOR_HOTSPOTS_def

record stream_config =
  sc_width :: nat
  sc_height :: nat
  sc_tile_size :: nat
  sc_pixel_format :: int

record frame_wire =
  enc_stream_config :: "stream_config \<Rightarrow> bytes"
  dec_stream_config :: "bytes \<Rightarrow> stream_config option"
  enc_hotspots :: "hotspot_entry list \<times> bool \<Rightarrow> bytes"
  dec_hotspots :: "bytes \<Rightarrow> (hotspot_entry list \<times> bool) option"

datatype frame_update =
    UpdateNothing
  | Configured geometry
  | Damage "rect list"
  | UpdateCursor cursor_image
  | Moved cursor_position
  | UpdateHotspots "cursor_image list"

datatype video_reason =
    UnreadableConfig
  | StreamTileSize CodecError
  | StreamPixelFormat
  | StreamGeometry CodecError
  | MissingBase u32
  | NoStream
  | Undecodable CodecError
  | UnreadableHotspots

datatype VideoError = Rebind video_reason | Fatal video_reason

section \<open>The decode half of a frame channel\<close>

record video =
  vd_decoder :: "decoder option"
  vd_last_frame :: "u32 option"
  vd_hotspot_parts :: "cursor_image list"

definition video_new :: video where
  "video_new = \<lparr>vd_decoder = None, vd_last_frame = None, vd_hotspot_parts = []\<rparr>"

fun map_err :: "('e \<Rightarrow> 'f) \<Rightarrow> ('e, 'a) outcome \<Rightarrow> ('f, 'a) outcome" where
  "map_err f (Ok x) = Ok x"
| "map_err f (Err e) = Err (f e)"
| "map_err f Panic = Panic"

definition pixel_format_from_wire :: "int \<Rightarrow> PixelFormat option" where
  "pixel_format_from_wire v = (if v = 1 then Some Bgra8888 else if v = 2 then Some Xrgb8888 else None)"

definition configure :: "frame_wire \<Rightarrow> video \<Rightarrow> bytes \<Rightarrow> (VideoError, frame_update) outcome \<times> video" where
  "configure w v payload =
     (case obind (ok_or (dec_stream_config w payload) (Rebind UnreadableConfig)) (\<lambda>config.
             obind (map_err (\<lambda>e. Fatal (StreamTileSize e)) (from_pixels (sc_tile_size config))) (\<lambda>tile_size.
               obind (ok_or (pixel_format_from_wire (sc_pixel_format config)) (Fatal StreamPixelFormat)) (\<lambda>format.
                 map_err (\<lambda>e. Fatal (StreamGeometry e))
                   (geometry_new (sc_width config) (sc_height config) tile_size format)))) of
        Ok g \<Rightarrow> (Ok (Configured g), v\<lparr>vd_decoder := Some (decoder_new g), vd_last_frame := None\<rparr>)
      | Err e \<Rightarrow> (Err e, v)
      | Panic \<Rightarrow> (Panic, v))"

text \<open>A payload that the codec refuses may have changed the decoder; a frame number is kept only when it is accepted.\<close>

definition apply_frame ::
  "(decoder \<Rightarrow> bytes \<Rightarrow> (CodecError, rect list) outcome \<times> decoder) \<Rightarrow> video \<Rightarrow> header \<Rightarrow> bytes \<Rightarrow>
   (VideoError, frame_update) outcome \<times> video" where
  "apply_frame f v h payload =
     (case vd_decoder v of
        None \<Rightarrow> (Err (Rebind NoStream), v)
      | Some d \<Rightarrow>
          (case f d payload of
             (Ok damage, d') \<Rightarrow> (Ok (Damage damage), v\<lparr>vd_decoder := Some d', vd_last_frame := Some (hd_sequence h)\<rparr>)
           | (Err e, d') \<Rightarrow> (Err (Rebind (Undecodable e)), v\<lparr>vd_decoder := Some d'\<rparr>)
           | (Panic, d') \<Rightarrow> (Panic, v\<lparr>vd_decoder := Some d'\<rparr>)))"

definition video_keyframe :: "video \<Rightarrow> header \<Rightarrow> bytes \<Rightarrow> (VideoError, frame_update) outcome \<times> video" where
  "video_keyframe v h payload = apply_frame apply_keyframe v h payload"

definition video_delta :: "video \<Rightarrow> header \<Rightarrow> bytes \<Rightarrow> (VideoError, frame_update) outcome \<times> video" where
  "video_delta v h payload =
     (if vd_last_frame v \<noteq> Some (hd_base h) then (Err (Rebind (MissingBase (hd_base h))), v)
      else apply_frame apply_delta v h payload)"

text \<open>\<open>u32::checked_mul\<close> of the three factors.\<close>

definition hotspot_image :: "hotspot_entry \<Rightarrow> cursor_image option" where
  "hotspot_image e =
     (let width = he_width e; height = he_height e; expected = width * height * 4 in
      if width * height > u32_max \<or> expected > u32_max then None
      else if width = 0 \<or> height = 0 \<or> width > MAX_CURSOR_DIMENSION \<or> height > MAX_CURSOR_DIMENSION
        \<or> length (he_pixels e) \<noteq> expected \<or> he_hotspot_x e \<ge> width \<or> he_hotspot_y e \<ge> height then None
      else Some \<lparr>ci_pixels = he_pixels e, ci_width = width, ci_height = height,
        ci_hotspot_x = he_hotspot_x e, ci_hotspot_y = he_hotspot_y e\<rparr>)"

definition video_hotspots :: "frame_wire \<Rightarrow> video \<Rightarrow> bytes \<Rightarrow> (VideoError, frame_update) outcome \<times> video" where
  "video_hotspots w v payload =
     (case dec_hotspots w payload of
        None \<Rightarrow> (Err (Rebind UnreadableHotspots), v)
      | Some (entries, last_part) \<Rightarrow>
          let parts = vd_hotspot_parts v @ List.map_filter hotspot_image entries in
          if last_part then (Ok (UpdateHotspots parts), v\<lparr>vd_hotspot_parts := []\<rparr>)
          else (Ok UpdateNothing, v\<lparr>vd_hotspot_parts := parts\<rparr>))"

definition video_apply :: "frame_wire \<Rightarrow> video \<Rightarrow> header \<Rightarrow> bytes \<Rightarrow> (VideoError, frame_update) outcome \<times> video" where
  "video_apply w v h payload =
     (if hd_message_type h = FRAME_STREAM_CONFIG then configure w v payload
      else if hd_message_type h = FRAME_KEYFRAME then video_keyframe v h payload
      else if hd_message_type h = FRAME_TILE_DELTA then video_delta v h payload
      else if hd_message_type h = FRAME_CURSOR_IMAGE then
        (map_err (\<lambda>e. Rebind (Undecodable e)) (obind (decode_cursor_image payload) (\<lambda>img. Ok (UpdateCursor img))), v)
      else if hd_message_type h = FRAME_CURSOR_POSITION then
        (map_err (\<lambda>e. Rebind (Undecodable e)) (obind (decode_cursor_position payload) (\<lambda>pos. Ok (Moved pos))), v)
      else if hd_message_type h = FRAME_CURSOR_HOTSPOTS then video_hotspots w v payload
      else (Ok UpdateNothing, v))"

section \<open>An icon's pixels\<close>

fun chunks_exact4 :: "bytes \<Rightarrow> bytes list" where
  "chunks_exact4 (a # b # c # d # rest) = [a, b, c, d] # chunks_exact4 rest"
| "chunks_exact4 _ = []"

text \<open>\<open>u8::try_from(..).expect(..)\<close> on each colour channel.\<close>

definition premultiply :: "nat \<Rightarrow> u8 \<Rightarrow> ('e, u8) outcome" where
  "premultiply alpha c = (let v = unat c * alpha div 255 in if v \<le> 255 then Ok (of_nat v) else Panic)"

fun premultiply_pixels :: "bytes list \<Rightarrow> ('e, bytes) outcome" where
  "premultiply_pixels [] = Ok []"
| "premultiply_pixels (px # rest) =
     (let alpha = unat (px ! 3) in
      obind (premultiply alpha (px ! 0)) (\<lambda>b. obind (premultiply alpha (px ! 1)) (\<lambda>g.
        obind (premultiply alpha (px ! 2)) (\<lambda>r. obind (premultiply_pixels rest) (\<lambda>tail.
          Ok ([b, g, r, px ! 3] @ tail))))))"

definition premultiplied :: "cursor_image \<Rightarrow> ('e, bytes) outcome" where
  "premultiplied img =
     (let pixels = ci_width img * ci_height img in
      obind (premultiply_pixels (take pixels (chunks_exact4 (ci_pixels img)))) (\<lambda>out.
        Ok (out @ replicate (pixels * 4 - length out) 0)))"

section \<open>What a viewer holds\<close>

definition wf_video :: "video \<Rightarrow> bool" where
  "wf_video v \<longleftrightarrow> (\<forall>d. vd_decoder v = Some d \<longrightarrow> wf_decoder d) \<and> (vd_decoder v = None \<longrightarrow> vd_last_frame v = None) \<and>
     (\<forall>img \<in> set (vd_hotspot_parts v). length (ci_pixels img) = ci_width img * ci_height img * 4 \<and>
        ci_hotspot_x img < ci_width img \<and> ci_hotspot_y img < ci_height img)"

lemma wf_video_new: "wf_video video_new"
  by (simp add: wf_video_def video_new_def)

lemma map_err_simps [simp]:
  "map_err f m = Ok x \<longleftrightarrow> m = Ok x" "map_err f m = Panic \<longleftrightarrow> m = Panic"
  by (cases m; simp)+

lemma from_pixels_not_Panic [simp]: "from_pixels n \<noteq> Panic"
  by (simp add: from_pixels_def)

lemma geometry_new_not_Panic [simp]: "geometry_new w h t f \<noteq> Panic"
  by (simp add: geometry_new_def Let_def)

lemma configure_safe:
  assumes "wf_video v" "configure w v payload = (result, v')"
  shows "result \<noteq> Panic \<and> wf_video v'"
  using assms geometry_new_wf wf_decoder_new
  by (auto simp: configure_def wf_video_def obind_eq_Panic_iff split: outcome.splits)

lemma apply_frame_safe:
  assumes "wf_video v" "apply_frame f v h payload = (result, v')"
    and "\<And>d out d'. wf_decoder d \<Longrightarrow> f d payload = (out, d') \<Longrightarrow> out \<noteq> Panic \<and> wf_decoder d'"
  shows "result \<noteq> Panic \<and> wf_video v'"
  using assms
  by (auto simp: apply_frame_def wf_video_def split: option.splits prod.splits outcome.splits)

lemma hotspot_image_fits:
  "hotspot_image e = Some img \<Longrightarrow> length (ci_pixels img) = ci_width img * ci_height img * 4 \<and>
     ci_hotspot_x img < ci_width img \<and> ci_hotspot_y img < ci_height img"
  by (auto simp: hotspot_image_def Let_def split: if_splits)

lemma video_hotspots_safe:
  assumes "wf_video v" "video_hotspots w v payload = (result, v')"
  shows "result \<noteq> Panic \<and> wf_video v'"
  using assms hotspot_image_fits
  by (auto simp: video_hotspots_def wf_video_def List.map_filter_def Let_def split: option.splits if_splits)

lemma read_position_not_Panic: "decode_cursor_position payload \<noteq> Panic"
  by (auto simp: decode_cursor_position_def read_position_def get_range_def Let_def obind_eq_Panic_iff)

lemma video_apply_safe:
  assumes "wf_video v" "video_apply w v h payload = (result, v')"
  shows "result \<noteq> Panic \<and> wf_video v'"
proof -
  have key: "result \<noteq> Panic \<and> wf_video v'" if "apply_frame apply_keyframe v h payload = (result, v')"
    using apply_frame_safe [OF assms(1) that] apply_keyframe_safe by blast
  have delta: "result \<noteq> Panic \<and> wf_video v'" if "apply_frame apply_delta v h payload = (result, v')"
    using apply_frame_safe [OF assms(1) that] apply_delta_safe by blast
  have cursor: "decode_cursor_image payload \<noteq> Panic" by (simp add: decode_cursor_image_def)
  show ?thesis
    using assms configure_safe [OF assms(1)] key delta video_hotspots_safe [OF assms(1)] cursor read_position_not_Panic
    by (auto simp: video_apply_def video_keyframe_def video_delta_def obind_eq_Panic_iff split: if_splits)
qed

lemma sendable_is_anchored:
  "is_sendable e \<Longrightarrow> hotspot_image e = Some \<lparr>ci_pixels = he_pixels e, ci_width = he_width e, ci_height = he_height e,
     ci_hotspot_x = he_hotspot_x e, ci_hotspot_y = he_hotspot_y e\<rparr>"
proof -
  assume e: "is_sendable e"
  then have "he_width e * he_height e \<le> 256 * 256"
    by (intro mult_le_mono) (simp_all add: is_sendable_def THEME_MAX_DIMENSION_def)
  then show ?thesis
    using e by (simp add: hotspot_image_def is_sendable_def THEME_MAX_DIMENSION_def MAX_CURSOR_DIMENSION_def Let_def)
qed

lemma premultiply_Ok: "alpha \<le> 255 \<Longrightarrow> \<exists>v. premultiply alpha c = (Ok v :: ('e, _) outcome) \<and> unat v \<le> alpha"
proof -
  assume a: "alpha \<le> 255"
  have "unat c \<le> 255" using unsigned_less [of c, where ?'a = nat] by simp
  then have "unat c * alpha div 255 \<le> 255 * alpha div 255" by (intro div_le_mono mult_le_mono1)
  then have "unat c * alpha div 255 \<le> alpha" by simp
  then show ?thesis using a by (simp add: premultiply_def Let_def unat_of_nat take_bit_nat_eq_self)
qed

lemma premultiply_pixels_Ok: "\<exists>out. premultiply_pixels pxs = (Ok out :: ('e, _) outcome) \<and> length out = 4 * length pxs"
proof (induction pxs)
  case (Cons px pxs)
  let ?a = "unat (px ! 3)"
  have "?a \<le> 255" using unsigned_less [of "px ! 3", where ?'a = nat] by simp
  then have "\<exists>v. premultiply ?a c = (Ok v :: ('e, _) outcome)" for c using premultiply_Ok by blast
  then obtain f where "premultiply ?a c = (Ok (f c) :: ('e, _) outcome)" for c by metis
  then show ?case using Cons by (auto simp: Let_def)
qed simp

lemma premultiplied_Ok:
  "\<exists>out. premultiplied img = (Ok out :: ('e, _) outcome) \<and> length out = ci_width img * ci_height img * 4"
proof -
  let ?n = "ci_width img * ci_height img"
  obtain out where out: "premultiply_pixels (take ?n (chunks_exact4 (ci_pixels img))) = (Ok out :: ('e, _) outcome)"
    "length out = 4 * length (take ?n (chunks_exact4 (ci_pixels img)))"
    using premultiply_pixels_Ok by blast
  have "length out \<le> ?n * 4" using out(2) by simp
  then show ?thesis using out(1) by (simp add: premultiplied_def Let_def)
qed

end
