(* ===== verification/Frame_Pipeline.thy ===== *)
theory Frame_Pipeline
  imports Codec_Stream Cursor_Plane Frame_Video
begin

text \<open>
  The guest's half of the frame channel (\<open>display-services/src/pipeline.rs\<close>): captured frames and
  cursors go into the encoder, and what it hands out goes onto the socket as records. The scratch
  buffers \<open>composite\<close> and \<open>damage\<close> are emptied before every use and are not part of the state here.
\<close>

section \<open>State\<close>

datatype PipelineError = PipelineCodec CodecError | PipelineRecord RecordError

text \<open>The fields of \<open>CapturedFrame\<close> that are read, with the bytes its backing gives.\<close>

record captured_frame =
  cf_height :: nat
  cf_stride :: nat
  cf_damage :: "rect list option"
  cf_pixels :: bytes

record drawn_cursor =
  dr_pixels :: bytes
  dr_width :: nat
  dr_placement :: placement

definition drawn_rect :: "placement \<Rightarrow> rect" where
  "drawn_rect p = \<lparr>rect_x = pc_x p, rect_y = pc_y p, rect_width = rect_width (pc_crop p),
     rect_height = rect_height (pc_crop p)\<rparr>"

record pipeline =
  pl_encoder :: encoder
  pl_generation :: u32
  pl_cursor_stream :: bool
  pl_sequence :: u32
  pl_last_frame_sequence :: u32
  pl_drawn_cursor :: "drawn_cursor option"
  pl_pointer :: "rect option"

definition pipeline_new :: "geometry \<Rightarrow> u32 \<Rightarrow> bool \<Rightarrow> pipeline" where
  "pipeline_new g generation cursor_stream =
     \<lparr>pl_encoder = encoder_new (encoder_config_new g), pl_generation = generation,
      pl_cursor_stream = cursor_stream, pl_sequence = 0, pl_last_frame_sequence = 0,
      pl_drawn_cursor = None, pl_pointer = None\<rparr>"

definition pipeline_request_keyframe :: "pipeline \<Rightarrow> pipeline" where
  "pipeline_request_keyframe p = p\<lparr>pl_encoder := encoder_request_keyframe (pl_encoder p)\<rparr>"

definition reconfigure :: "geometry \<Rightarrow> pipeline \<Rightarrow> pipeline" where
  "reconfigure g p = pipeline_request_keyframe (p\<lparr>pl_encoder := encoder_new (encoder_config_new g),
     pl_drawn_cursor := None, pl_last_frame_sequence := 0\<rparr>)"

section \<open>Frames and cursors\<close>

definition pointer_now :: "pipeline \<Rightarrow> rect option" where
  "pointer_now p =
     (if pl_cursor_stream p then None
      else case pl_drawn_cursor p of
          None \<Rightarrow> None
        | Some c \<Rightarrow> if pc_visible (dr_placement c) then Some (drawn_rect (dr_placement c)) else None)"

definition option_list :: "'a option \<Rightarrow> 'a list" where
  "option_list m = (case m of None \<Rightarrow> [] | Some x \<Rightarrow> [x])"

definition damage_hint :: "pipeline \<Rightarrow> captured_frame \<Rightarrow> rect list option" where
  "damage_hint p frame =
     (case cf_damage frame of
        None \<Rightarrow> None
      | Some rects \<Rightarrow> Some (rects @ option_list (pl_pointer p) @ option_list (pointer_now p)))"

text \<open>The bytes that are submitted: the frame as captured, or a copy with the pointer drawn in.\<close>

definition submitted_bytes :: "pipeline \<Rightarrow> captured_frame \<Rightarrow> (CodecError, bytes) outcome" where
  "submitted_bytes p frame =
     (case (pointer_now p, pl_drawn_cursor p) of
        (Some _, Some cursor) \<Rightarrow>
          composite (take (min (cf_stride frame * cf_height frame) (length (cf_pixels frame))) (cf_pixels frame))
            (cf_stride frame) (dr_pixels cursor) (dr_width cursor) (dr_placement cursor)
      | _ \<Rightarrow> Ok (cf_pixels frame))"

definition submit_frame :: "captured_frame \<Rightarrow> pipeline \<Rightarrow> (CodecError, unit) outcome \<times> pipeline" where
  "submit_frame frame p =
     (let p1 = p\<lparr>pl_pointer := pointer_now p\<rparr> in
      case obind (submitted_bytes p frame) (\<lambda>bs.
             submit (pl_encoder p) \<lparr>cap_pixels = bs, cap_stride = cf_stride frame\<rparr> (damage_hint p frame)) of
        Ok e \<Rightarrow> (Ok (), p1\<lparr>pl_encoder := e\<rparr>)
      | Err err \<Rightarrow> (Err err, p1)
      | Panic \<Rightarrow> (Panic, p1))"

definition submit_cursor ::
  "(bytes \<times> nat \<times> nat) option \<Rightarrow> placement \<Rightarrow> pipeline \<Rightarrow> (CodecError, unit) outcome \<times> pipeline" where
  "submit_cursor img placement p =
     (if pl_cursor_stream p then
        (case (case img of
                 None \<Rightarrow> Ok (pl_encoder p)
               | Some (pixels, width, height) \<Rightarrow>
                   submit_cursor_image (pl_encoder p) \<lparr>ci_pixels = pixels, ci_width = width, ci_height = height,
                     ci_hotspot_x = 0, ci_hotspot_y = 0\<rparr>) of
           Ok e \<Rightarrow> (Ok (), p\<lparr>pl_encoder := submit_cursor_position e
                    \<lparr>cp_x = pc_x placement, cp_y = pc_y placement, cp_visible = pc_visible placement\<rparr>\<rparr>)
         | Err err \<Rightarrow> (Err err, p)
         | Panic \<Rightarrow> (Panic, p))
      else
        let held = (case img of
               Some (pixels, width, height) \<Rightarrow>
                 Some \<lparr>dr_pixels = pixels, dr_width = width, dr_placement = placement\<rparr>
             | None \<Rightarrow> map_option (\<lambda>c. c\<lparr>dr_placement := placement\<rparr>) (pl_drawn_cursor p)) in
        (Ok (), p\<lparr>pl_drawn_cursor := (if pc_visible placement then held else None)\<rparr>))"

section \<open>Records\<close>

definition frame_write_record :: "(bytes \<Rightarrow> u32) \<Rightarrow> limits \<Rightarrow> u32 \<Rightarrow> u32 \<Rightarrow> u16 \<Rightarrow> u32 \<Rightarrow> bytes \<Rightarrow> sink \<Rightarrow>
  (PipelineError, unit) outcome \<times> sink" where
  "frame_write_record crc l generation sequence kind base payload s =
     (case write_payload (header_for_payload crc ChFrame kind sequence base generation payload) payload l s of
        (result, s') \<Rightarrow> (map_err PipelineRecord result, s'))"

fun wire_format :: "PixelFormat \<Rightarrow> int" where
  "wire_format Bgra8888 = 1"
| "wire_format Xrgb8888 = 2"

definition stream_config_of :: "geometry \<Rightarrow> stream_config" where
  "stream_config_of g = \<lparr>sc_width = geo_width g, sc_height = geo_height g,
     sc_tile_size = as_pixels (geo_tile_size g), sc_pixel_format = wire_format (geo_pixel_format g)\<rparr>"

definition write_stream_config :: "(bytes \<Rightarrow> u32) \<Rightarrow> frame_wire \<Rightarrow> limits \<Rightarrow> pipeline \<Rightarrow> sink \<Rightarrow>
  (PipelineError, unit) outcome \<times> pipeline \<times> sink" where
  "write_stream_config crc w l p s =
     (case frame_write_record crc l (pl_generation p) (pl_sequence p) FRAME_STREAM_CONFIG 0
             (enc_stream_config w (stream_config_of (enc_geometry (pl_encoder p)))) s of
        (Ok _, s') \<Rightarrow> (Ok (), p\<lparr>pl_sequence := pl_sequence p + 1\<rparr>, s')
      | (Err err, s') \<Rightarrow> (Err err, p, s')
      | (Panic, s') \<Rightarrow> (Panic, p, s'))"

fun write_hotspot_chunks :: "(bytes \<Rightarrow> u32) \<Rightarrow> frame_wire \<Rightarrow> limits \<Rightarrow> hotspot_entry list list \<Rightarrow> pipeline \<Rightarrow> sink \<Rightarrow>
  (PipelineError, unit) outcome \<times> pipeline \<times> sink" where
  "write_hotspot_chunks crc w l [] p s = (Ok (), p, s)"
| "write_hotspot_chunks crc w l (chunk # chunks) p s =
     (case frame_write_record crc l (pl_generation p) (pl_sequence p) FRAME_CURSOR_HOTSPOTS 0
             (enc_hotspots w (chunk, chunks = [])) s of
        (Ok _, s') \<Rightarrow> write_hotspot_chunks crc w l chunks (p\<lparr>pl_sequence := pl_sequence p + 1\<rparr>) s'
      | (Err err, s') \<Rightarrow> (Err err, p, s')
      | (Panic, s') \<Rightarrow> (Panic, p, s'))"

definition write_cursor_hotspots :: "(bytes \<Rightarrow> u32) \<Rightarrow> frame_wire \<Rightarrow> hotspot_entry list \<Rightarrow> limits \<Rightarrow> pipeline \<Rightarrow> sink \<Rightarrow>
  (PipelineError, unit) outcome \<times> pipeline \<times> sink" where
  "write_cursor_hotspots crc w entries l p s =
     write_hotspot_chunks crc w l (chunk_entries_within entries (min (for_channel l ChFrame) CHUNK_BUDGET)) p s"

fun payload_kind :: "payload \<Rightarrow> u16" where
  "payload_kind (Keyframe bs) = FRAME_KEYFRAME"
| "payload_kind (TileDelta bs) = FRAME_TILE_DELTA"
| "payload_kind (CursorImage bs) = FRAME_CURSOR_IMAGE"
| "payload_kind (CursorPosition bs) = FRAME_CURSOR_POSITION"

fun payload_is_frame :: "payload \<Rightarrow> bool" where
  "payload_is_frame (Keyframe bs) = True"
| "payload_is_frame (TileDelta bs) = True"
| "payload_is_frame (CursorImage bs) = False"
| "payload_is_frame (CursorPosition bs) = False"

fun payload_bytes :: "payload \<Rightarrow> bytes" where
  "payload_bytes (Keyframe bs) = bs"
| "payload_bytes (TileDelta bs) = bs"
| "payload_bytes (CursorImage bs) = bs"
| "payload_bytes (CursorPosition bs) = bs"

definition write_next :: "(bytes \<Rightarrow> u32) \<Rightarrow> limits \<Rightarrow> pipeline \<Rightarrow> sink \<Rightarrow>
  (PipelineError, bool) outcome \<times> pipeline \<times> sink" where
  "write_next crc l p s =
     (case next_payload (pl_encoder p) of
        Panic \<Rightarrow> (Panic, p, s)
      | Err err \<Rightarrow> (Err (PipelineCodec err), p, s)
      | Ok (None, e) \<Rightarrow> (Ok False, p\<lparr>pl_encoder := e\<rparr>, s)
      | Ok (Some payload, e) \<Rightarrow>
          let p1 = p\<lparr>pl_encoder := e\<rparr>; kind = payload_kind payload;
              base = (if kind = FRAME_TILE_DELTA then pl_last_frame_sequence p else 0);
              sequence = pl_sequence p in
          (case frame_write_record crc l (pl_generation p) sequence kind base (payload_bytes payload) s of
             (Ok _, s') \<Rightarrow> (Ok True, p1\<lparr>pl_sequence := sequence + 1,
                 pl_last_frame_sequence := (if payload_is_frame payload then sequence else pl_last_frame_sequence p)\<rparr>, s')
           | (Err err, s') \<Rightarrow> (Err err, p1, s')
           | (Panic, s') \<Rightarrow> (Panic, p1, s')))"

section \<open>A pointer that is drawn in keeps the hints honest\<close>

lemma nth_concat_rows:
  assumes "\<And>y. y < n \<Longrightarrow> length (f y) = w" "k < n * w"
  shows "concat (map f [0 ..< n]) ! k = f (k div w) ! (k mod w)"
  using assms
proof (induction n)
  case (Suc n)
  have len: "length (concat (map f [0 ..< n])) = n * w"
  proof -
    have "m \<le> n \<Longrightarrow> length (concat (map f [0 ..< m])) = m * w" for m by (induction m) (use Suc.prems(1) in auto)
    then show ?thesis by simp
  qed
  show ?case
  proof (cases "k < n * w")
    case True
    then show ?thesis using Suc len by (simp add: nth_append)
  next
    case False
    then have n: "k div w = n" using Suc.prems(2) by (intro div_nat_eqI) (simp_all add: mult.commute)
    then have "k mod w = k - n * w" by (simp add: modulo_nat_def mult.commute)
    with n show ?thesis using False len by (simp add: nth_append)
  qed
qed simp

lemma nth_pixels_from_le:
  "i < length bs div 4 \<Longrightarrow> pixels_from_le bs ! i = u32_from_le (bs ! (4 * i)) (bs ! (4 * i + 1)) (bs ! (4 * i + 2)) (bs ! (4 * i + 3))"
proof (induction bs arbitrary: i rule: pixels_from_le.induct)
  case (1 a b c d rest)
  then show ?case by (cases i) (auto simp: add.commute)
qed auto

definition pixel_at_byte :: "geometry \<Rightarrow> nat \<Rightarrow> nat \<Rightarrow> nat" where
  "pixel_at_byte g stride k = k div geo_width g * stride + k mod geo_width g * 4"

lemma nth_captured:
  assumes "capture_fits g c" "k < pixel_count g"
  defines "i \<equiv> pixel_at_byte g (cap_stride c) k"
  shows "i + 4 \<le> length (cap_pixels c)"
    and "captured_pixels g c ! k = u32_from_le (cap_pixels c ! i) (cap_pixels c ! (i + 1)) (cap_pixels c ! (i + 2)) (cap_pixels c ! (i + 3))"
proof -
  let ?w = "geo_width g" and ?y = "k div geo_width g" and ?x = "k mod geo_width g"
  let ?row = "\<lambda>y. take (?w * 4) (drop (y * cap_stride c) (cap_pixels c))"
  have w: "0 < ?w" using assms(2) by (cases "?w") (simp_all add: pixel_count_def)
  have y: "?y < geo_height g" using assms(2) w by (simp add: pixel_count_def less_mult_imp_div_less mult.commute)
  have x: "?x < ?w" using w by simp
  have len: "length (?row y) = ?w * 4" if "y < geo_height g" for y
    using captured_row_fits [OF assms(1) that] by simp
  then have "captured_pixels g c ! k = pixels_from_le (?row ?y) ! ?x"
    using assms(2) unfolding captured_pixels_def
    by (intro nth_concat_rows) (simp_all add: pixel_count_def mult.commute)
  also have "\<dots> = u32_from_le (?row ?y ! (4 * ?x)) (?row ?y ! (4 * ?x + 1)) (?row ?y ! (4 * ?x + 2)) (?row ?y ! (4 * ?x + 3))"
    using len [OF y] x by (intro nth_pixels_from_le) simp
  also have "\<dots> = u32_from_le (cap_pixels c ! i) (cap_pixels c ! (i + 1)) (cap_pixels c ! (i + 2)) (cap_pixels c ! (i + 3))"
    using captured_row_fits [OF assms(1) y] x by (simp add: i_def pixel_at_byte_def mult.commute add.assoc)
  finally show "captured_pixels g c ! k = u32_from_le (cap_pixels c ! i) (cap_pixels c ! (i + 1)) (cap_pixels c ! (i + 2)) (cap_pixels c ! (i + 3))" .
  have "?x * 4 + 4 \<le> ?w * 4" using x by simp
  then show "i + 4 \<le> length (cap_pixels c)"
    using captured_row_fits [OF assms(1) y] by (simp add: i_def pixel_at_byte_def)
qed

definition placement_fits :: "geometry \<Rightarrow> placement \<Rightarrow> bool" where
  "placement_fits g p \<longleftrightarrow> pc_x p + rect_width (pc_crop p) \<le> geo_width g \<and> pc_y p + rect_height (pc_crop p) \<le> geo_height g"

lemma place_fits: "place px py w h (geo_width g) (geo_height g) = (Ok p :: ('e, _) outcome) \<Longrightarrow> placement_fits g p"
  by (auto simp: placement_fits_def dest: place_inside)

lemma drawn_rect_bytes:
  assumes "placement_fits g p" "geo_width g * 4 \<le> stride" "\<not> in_rect (drawn_rect p) (k mod geo_width g) (k div geo_width g)"
    and "row < rect_height (pc_crop p)" "column < rect_width (pc_crop p)" "j < 4" "0 < geo_width g"
  shows "pixel_at_byte g stride k + j < target_of stride p (row, column) \<or>
    target_of stride p (row, column) + 4 \<le> pixel_at_byte g stride k + j"
proof -
  let ?o = "\<lparr>pc_x = 0, pc_y = 0, pc_crop = drawn_rect p, pc_visible = True\<rparr>"
  let ?a = "(k div geo_width g, k mod geo_width g)" and ?b = "(pc_y p + row, pc_x p + column)"
  have "?a \<noteq> ?b" using assms(3-5) by (auto simp: in_rect_def drawn_rect_def)
  then have "target_of stride ?o ?a + 4 \<le> target_of stride ?o ?b \<or> target_of stride ?o ?b + 4 \<le> target_of stride ?o ?a"
    using assms(1,2,5,7) by (intro target_disjoint [of _ "geo_width g"]) (auto simp: placement_fits_def)
  moreover have "target_of stride ?o ?a = pixel_at_byte g stride k" "target_of stride ?o ?b = target_of stride p (row, column)"
    by (simp_all add: target_of_def pixel_at_byte_def)
  ultimately show ?thesis using assms(6) by linarith
qed

definition frame_capture :: "captured_frame \<Rightarrow> capture" where
  "frame_capture frame = \<lparr>cap_pixels = cf_pixels frame, cap_stride = cf_stride frame\<rparr>"

text \<open>Outside the pointer, what is submitted is what was captured.\<close>

lemma submitted_outside_pointer:
  assumes "submitted_bytes p frame = Ok bs" "capture_fits g \<lparr>cap_pixels = bs, cap_stride = cf_stride frame\<rparr>"
    and "\<And>c. pl_drawn_cursor p = Some c \<Longrightarrow> placement_fits g (dr_placement c)"
    and "k < pixel_count g" "\<And>r. pointer_now p = Some r \<Longrightarrow> \<not> in_rect r (k mod geo_width g) (k div geo_width g)"
  shows "captured_pixels g \<lparr>cap_pixels = bs, cap_stride = cf_stride frame\<rparr> ! k = captured_pixels g (frame_capture frame) ! k"
proof (cases "pointer_now p")
  case None
  then show ?thesis using assms(1) by (auto simp: submitted_bytes_def frame_capture_def split: option.splits)
next
  case (Some r)
  then obtain c where c: "pl_drawn_cursor p = Some c" "r = drawn_rect (dr_placement c)"
    by (auto simp: pointer_now_def split: if_splits option.splits)
  let ?px = "take (min (cf_stride frame * cf_height frame) (length (cf_pixels frame))) (cf_pixels frame)"
  let ?s = "cf_stride frame" and ?b = "\<lparr>cap_pixels = bs, cap_stride = cf_stride frame\<rparr>"
  have comp: "composite ?px ?s (dr_pixels c) (dr_width c) (dr_placement c) = (Ok bs :: (CodecError, _) outcome)"
    using assms(1) Some c by (simp add: submitted_bytes_def)
  have w: "0 < geo_width g" using assms(4) by (cases "geo_width g") (simp_all add: pixel_count_def)
  have stride: "geo_width g * 4 \<le> ?s" using assms(2) by (simp add: capture_fits_def)
  have len: "length bs = length ?px" using length_composite [OF comp] by simp
  let ?i = "pixel_at_byte g ?s k"
  have at: "?i + 4 \<le> length bs" using nth_captured(1) [OF assms(2,4)] by simp
  have same: "bs ! (?i + j) = cf_pixels frame ! (?i + j)" if "j < 4" for j
  proof -
    have "bs ! (?i + j) = ?px ! (?i + j)"
      using at len that drawn_rect_bytes [OF assms(3) [OF c(1)] stride _ _ _ that w] assms(5) [OF Some] c(2)
      by (intro composite_outside [OF comp]) auto
    also have "\<dots> = cf_pixels frame ! (?i + j)" using at len that by simp
    finally show ?thesis .
  qed
  have "capture_fits g (frame_capture frame)" using assms(2) len by (auto simp: capture_fits_def frame_capture_def)
  from nth_captured(2) [OF this assms(4)] nth_captured(2) [OF assms(2,4)] same [of 0] same [of 1] same [of 2] same [of 3]
  show ?thesis by (simp add: frame_capture_def)
qed

text \<open>
  What the primary plane showed when the last frame was captured: the encoder's staged frame, but for where the
  pointer was drawn. Its damage is honest when it covers what changed on the plane.
\<close>

definition plane_tracks :: "pipeline \<Rightarrow> u32 list \<Rightarrow> bool" where
  "plane_tracks p plane \<longleftrightarrow> (let g = enc_geometry (pl_encoder p) in
     \<forall>k < pixel_count g. (\<forall>r. pl_pointer p = Some r \<longrightarrow> \<not> in_rect r (k mod geo_width g) (k div geo_width g)) \<longrightarrow>
       st_frame (enc_staging (pl_encoder p)) ! k = plane ! k)"

definition honest_plane :: "geometry \<Rightarrow> u32 list \<Rightarrow> captured_frame \<Rightarrow> bool" where
  "honest_plane g plane frame \<longleftrightarrow>
     (\<forall>k < pixel_count g. captured_pixels g (frame_capture frame) ! k \<noteq> plane ! k \<longrightarrow>
        hint_covers (cf_damage frame) (k mod geo_width g) (k div geo_width g))"

lemma submit_frame_honest:
  assumes "wf_encoder (pl_encoder p)" "plane_tracks p plane" "honest_plane (enc_geometry (pl_encoder p)) plane frame"
    and "\<And>c. pl_drawn_cursor p = Some c \<Longrightarrow> placement_fits (enc_geometry (pl_encoder p)) (dr_placement c)"
    and "submit_frame frame p = (Ok (), p')" "length (cf_pixels frame) < usize_bound - 1"
  shows "\<exists>bs. submit (pl_encoder p) \<lparr>cap_pixels = bs, cap_stride = cf_stride frame\<rparr> (damage_hint p frame) = Ok (pl_encoder p') \<and>
      length bs < usize_bound - 1 \<and>
      honest_capture (pl_encoder p) \<lparr>cap_pixels = bs, cap_stride = cf_stride frame\<rparr> (damage_hint p frame) \<and>
      plane_tracks p' (captured_pixels (enc_geometry (pl_encoder p)) (frame_capture frame))"
proof -
  let ?e = "pl_encoder p" and ?g = "enc_geometry (pl_encoder p)"
  obtain bs e where bs: "submitted_bytes p frame = Ok bs"
    "submit ?e \<lparr>cap_pixels = bs, cap_stride = cf_stride frame\<rparr> (damage_hint p frame) = Ok e"
    "p' = p\<lparr>pl_pointer := pointer_now p, pl_encoder := e\<rparr>"
    using assms(5) by (auto simp: submit_frame_def Let_def split: outcome.splits)
  let ?b = "\<lparr>cap_pixels = bs, cap_stride = cf_stride frame\<rparr>"
  have "length bs \<le> length (cf_pixels frame)"
    using bs(1) length_composite by (fastforce simp: submitted_bytes_def split: option.splits)
  then have len: "length bs < usize_bound - 1" using assms(6) by simp
  then have fits: "capture_fits ?g ?b" using submit_fits [OF bs(2)] by simp
  have outside: "captured_pixels ?g ?b ! k = captured_pixels ?g (frame_capture frame) ! k"
    if "k < pixel_count ?g" "\<And>r. pointer_now p = Some r \<Longrightarrow> \<not> in_rect r (k mod geo_width ?g) (k div geo_width ?g)" for k
    using bs(1) fits assms(4) that by (rule submitted_outside_pointer)
  have honest: "honest_capture ?e ?b (damage_hint p frame)"
    unfolding honest_capture_def
  proof (intro allI impI)
    fix k assume k: "k < pixel_count ?g" "captured_pixels ?g ?b ! k \<noteq> st_frame (enc_staging ?e) ! k"
    let ?in = "\<lambda>r. in_rect r (k mod geo_width ?g) (k div geo_width ?g)"
    consider (now) r where "pointer_now p = Some r" "?in r" | (old) r where "pl_pointer p = Some r" "?in r"
      | (plane) "\<And>r. pointer_now p = Some r \<Longrightarrow> \<not> ?in r" "\<And>r. pl_pointer p = Some r \<Longrightarrow> \<not> ?in r" by blast
    then show "hint_covers (damage_hint p frame) (k mod geo_width ?g) (k div geo_width ?g)"
    proof cases
      case plane
      have "captured_pixels ?g (frame_capture frame) ! k \<noteq> plane ! k"
        using outside [OF k(1) plane(1)] k assms(2) plane(2) by (auto simp: plane_tracks_def Let_def)
      then show ?thesis using assms(3) k(1) by (auto simp: honest_plane_def damage_hint_def hint_covers_def split: option.splits)
    qed (auto simp: damage_hint_def hint_covers_def option_list_def split: option.splits)
  qed
  have "st_frame (enc_staging e) = captured_pixels ?g ?b" "enc_geometry e = ?g"
    using submit_Ok [OF assms(1) fits, of "damage_hint p frame"] len bs(2)
    by (auto simp: stage_frame_def set_frame_def split: option.splits)
  then have "plane_tracks p' (captured_pixels ?g (frame_capture frame))"
    using bs(3) outside by (simp add: plane_tracks_def Let_def)
  then show ?thesis using bs(2,3) len honest by auto
qed

end
