(* ===== verification/Payload_Size.thy ===== *)
theory Payload_Size
  imports Codec_Stream
begin

text \<open>
  How long the payloads of the encoder can get. A tile that does not compress is sent raw, so a
  payload exceeds the pixels of its frame by a few bytes for each tile at most.
\<close>

section \<open>The area of the tiles\<close>

definition tile_bytes :: "geometry \<Rightarrow> nat \<Rightarrow> nat" where
  "tile_bytes g i = (case tile g i of None \<Rightarrow> 0 | Some r \<Rightarrow> rect_width r * rect_height r)"

lemma sum_clipped: "(\<Sum>c<n. min e (W - c * e)) = min W (n * e)" for e W :: nat
proof (induction n)
  case (Suc n)
  then show ?case by (cases "W \<le> n * e") (auto simp: min_def)
qed simp

lemma sum_grid:
  fixes f h :: "nat \<Rightarrow> nat"
  shows "(\<Sum>i<rows * columns. f (i mod columns) * h (i div columns)) = (\<Sum>c<columns. f c) * (\<Sum>r<rows. h r)"
proof -
  have inner: "(\<Sum>i\<in>{r * columns..<r * columns + columns}. f (i mod columns) * h (i div columns)) = (\<Sum>c<columns. f c) * h r" for r
  proof -
    have "(\<Sum>i\<in>{r * columns..<r * columns + columns}. f (i mod columns) * h (i div columns)) =
        (\<Sum>c<columns. f ((c + r * columns) mod columns) * h ((c + r * columns) div columns))"
      using sum.shift_bounds_nat_ivl [of "\<lambda>i. f (i mod columns) * h (i div columns)" 0 "r * columns" columns]
      by (simp add: atLeast0LessThan add.commute)
    also have "\<dots> = (\<Sum>c<columns. f c * h r)" by (intro sum.cong) auto
    finally show ?thesis by (simp add: sum_distrib_right)
  qed
  have "(\<Sum>i<rows * columns. f (i mod columns) * h (i div columns)) =
      (\<Sum>r<rows. \<Sum>i\<in>{r * columns..<r * columns + columns}. f (i mod columns) * h (i div columns))"
    by (rule sum.nat_group [symmetric])
  then show ?thesis by (simp add: inner sum_distrib_left)
qed

lemma sum_tile_bytes:
  assumes "wf_geometry g"
  shows "(\<Sum>i<tile_count g. tile_bytes g i) = pixel_count g"
proof -
  let ?e = "as_pixels (geo_tile_size g)"
  let ?f = "\<lambda>c. min ?e (geo_width g - c * ?e)" and ?h = "\<lambda>r. min ?e (geo_height g - r * ?e)"
  have e: "0 < ?e" using as_pixels_bounds(3) .
  have "tile_bytes g i = ?f (i mod geo_columns g) * ?h (i div geo_columns g)" if "i < tile_count g" for i
    using that by (simp add: tile_bytes_def tile_def Let_def)
  then have "(\<Sum>i<tile_count g. tile_bytes g i) = (\<Sum>i<geo_rows g * geo_columns g. ?f (i mod geo_columns g) * ?h (i div geo_columns g))"
    by (intro sum.cong) (simp_all add: tile_count_def mult.commute)
  also have "\<dots> = (\<Sum>c<geo_columns g. ?f c) * (\<Sum>r<geo_rows g. ?h r)" by (rule sum_grid)
  also have "\<dots> = geo_width g * geo_height g"
    using assms div_ceil_mult_ge [OF e] by (simp add: sum_clipped wf_geometry_def min_absorb1)
  finally show ?thesis by (simp add: pixel_count_def)
qed

section \<open>Payloads\<close>

lemma length_write_tile: "length (write_tile px previous) \<le> 1 + 4 * length px"
  by (auto simp: write_tile_def length_varint_write_eq Let_def split: option.splits)

lemma gather_tile:
  assumes "wf_geometry g" "tile g i = Some r" "length frame = pixel_count g" "gather frame g r = Ok px"
  shows "length px = tile_bytes g i"
  using gather_eq [OF tile_fits [OF assms(1,2)] assms(3)] assms(2,4) by (simp add: tile_bytes_def mult.commute)

definition tiles_from :: "geometry \<Rightarrow> nat \<Rightarrow> nat \<Rightarrow> nat" where
  "tiles_from g extra index = (\<Sum>i\<in>{index..<tile_count g}. extra + 4 * tile_bytes g i)"

lemma tiles_from_step: "index < tile_count g \<Longrightarrow> tiles_from g extra index = extra + 4 * tile_bytes g index + tiles_from g extra (index + 1)"
  by (simp add: tiles_from_def sum.atLeast_Suc_lessThan)

lemma tiles_from_0: "wf_geometry g \<Longrightarrow> tiles_from g extra 0 = extra * tile_count g + 4 * pixel_count g"
  using sum_tile_bytes [of g]
  by (simp add: tiles_from_def sum.distrib atLeast0LessThan flip: sum_distrib_left)

lemma keyframe_tiles_length:
  "wf_geometry g \<Longrightarrow> length frame = pixel_count g \<Longrightarrow> keyframe_tiles g frame index = Ok bs \<Longrightarrow> length bs \<le> tiles_from g 1 index"
proof (induction g frame index arbitrary: bs rule: keyframe_tiles.induct)
  case (1 g frame index)
  show ?case
  proof (cases "tile g index")
    case None
    then show ?thesis using 1(4) by (subst (asm) keyframe_tiles.simps) simp
  next
    case (Some r)
    then obtain px rest where px: "gather frame g r = Ok px" "keyframe_tiles g frame (index + 1) = Ok rest" "bs = write_tile px None @ rest"
      using 1(4) by (subst (asm) keyframe_tiles.simps) auto
    have "length rest \<le> tiles_from g 1 (index + 1)" using 1(1) [OF Some px(1) 1(2,3) px(2)] .
    then show ?thesis
      using px(3) length_write_tile [of px None] gather_tile [OF 1(2) Some 1(3) px(1)] tiles_from_step [OF tile_SomeD [OF Some], of 1]
      by simp
  qed
qed

lemma index_length: "wf_geometry g \<Longrightarrow> i < tile_count g \<Longrightarrow> length (varint_write (of_nat i)) \<le> 3"
proof -
  assume g: "wf_geometry g" and i: "i < tile_count g"
  have "tile_count g \<le> 1024 * 1024"
    unfolding tile_count_def using wf_grid_bounds [OF g] by (intro mult_le_mono) simp_all
  then have "i < 2097152" using i by simp
  then have "unat (of_nat i :: u32) < 2097152" by (simp add: unat_u32_of_nat)
  then show ?thesis by (auto simp: length_varint_write_eq varint_len_def word_le_nat_alt)
qed

lemma delta_tiles_length:
  "wf_geometry g \<Longrightarrow> length frame = pixel_count g \<Longrightarrow> length reference = pixel_count g \<Longrightarrow>
   delta_tiles g frame selected reference index = Ok (bs, final, written) \<Longrightarrow> length bs \<le> tiles_from g 4 index"
proof (induction g frame selected reference index arbitrary: bs final written rule: delta_tiles.induct)
  case (1 g frame selected reference index)
  note prems = 1(4-7)
  show ?case
  proof (cases "tile g index")
    case None
    then show ?thesis using prems(4) by (subst (asm) delta_tiles.simps) simp
  next
    case (Some r)
    note step = tiles_from_step [OF tile_SomeD [OF Some], of 4]
    from prems(4) Some obtain chosen where chosen: "index_at selected index = (Ok chosen :: (CodecError, _) outcome)"
      by (subst (asm) delta_tiles.simps) auto
    consider (skip) "delta_tiles g frame selected reference (index + 1) = Ok (bs, final, written)"
        "\<not> chosen \<or> chosen \<and> differs frame reference g r = Ok False"
      | (sent) px previous reference' rest more where "chosen" "differs frame reference g r = Ok True" "gather frame g r = Ok px"
          "gather reference g r = Ok previous" "scatter reference g r px = Ok reference'"
          "delta_tiles g frame selected reference' (index + 1) = Ok (rest, final, more)"
          "bs = varint_write (of_nat index) @ write_tile px (Some previous) @ rest"
      using prems(4) Some chosen by (subst (asm) delta_tiles.simps) (auto split: if_splits)
    then show ?thesis
    proof cases
      case skip
      then have "length bs \<le> tiles_from g 4 (index + 1)"
        using 1(1) [OF Some chosen _ prems(1-3)] 1(2) [OF Some chosen _ _ _ prems(1-3)] by auto
      then show ?thesis using step by simp
    next
      case sent
      note fits = tile_fits [OF prems(1) Some]
      have "px = tile_pixels frame (geo_width g) r" using gather_eq [OF fits prems(2)] sent(3) by simp
      then have "length reference' = pixel_count g" using scatter_eq [OF fits prems(3), of px] sent(5) prems(3) by auto
      then have "length rest \<le> tiles_from g 4 (index + 1)"
        using 1(3) [OF Some chosen _ sent(2) _ sent(3,4,5) prems(1,2) _ sent(6)] sent(1) by simp
      then show ?thesis
        using sent(7) length_write_tile [of px "Some previous"] gather_tile [OF prems(1) Some prems(2) sent(3)] step
          index_length [OF prems(1) tile_SomeD [OF Some]] by simp
    qed
  qed
qed

fun bytes_of_payload :: "payload \<Rightarrow> bytes" where
  "bytes_of_payload (Keyframe bs) = bs"
| "bytes_of_payload (TileDelta bs) = bs"
| "bytes_of_payload (CursorImage bs) = bs"
| "bytes_of_payload (CursorPosition bs) = bs"

lemma write_image_length: "write_image img = Ok bs \<Longrightarrow> length bs \<le> 10 + 262144"
proof -
  assume w: "write_image img = Ok bs"
  then have dims: "ci_width img \<le> 256" "ci_height img \<le> 256"
    by (auto simp: write_image_def MAX_CURSOR_DIMENSION_def Let_def split: if_splits)
  have "ci_width img * ci_height img \<le> 256 * 256" "ci_height img * ci_width img \<le> 256 * 256"
    using dims by (simp_all add: mult_le_mono [of _ 256 _ 256, simplified])
  then show ?thesis using w by (auto simp: write_image_def u16_to_le_def Let_def split: if_splits)
qed

lemma cursor_payload_length:
  assumes "cursor_staged (enc_staging e)" "next_cursor_payload e = (Some q, e')"
  shows "length (bytes_of_payload q) \<le> 262154"
proof -
  let ?s = "enc_staging e"
  have pos: "length (write_position pos) \<le> 262154" for pos by (simp add: write_position_def u16_to_le_def)
  show ?thesis
    using assms write_image_length pos
    by (cases "st_cursor_image_pending ?s"; cases "st_cursor_position_pending ?s")
       (fastforce simp: next_cursor_payload_def take_cursor_image_def take_cursor_position_def cursor_staged_def Let_def)+
qed

lemma cursor_payload_source:
  assumes "cursor_staged (enc_staging e)" "next_payload e = Ok (Some q, e')" "\<forall>bs. q \<noteq> Keyframe bs \<and> q \<noteq> TileDelta bs"
  shows "\<exists>e0. cursor_staged (enc_staging e0) \<and> next_cursor_payload e0 = (Some q, e')"
proof (cases "st_frame_pending (enc_staging e)")
  case True
  then have nokey: "\<not> keyframe_due (frame_taken e)" using assms(2,3) by (auto simp: next_payload_frame_taken)
  then obtain written e0 where e0: "encode_delta (frame_taken e) (st_hint (enc_staging e)) = Ok (written, e0)"
    using assms(2) True by (auto simp: next_payload_frame_taken)
  then have "\<not> written" "next_cursor_payload e0 = (Some q, e')"
    using assms(2,3) True nokey by (auto simp: next_payload_frame_taken split: if_splits)
  moreover have "cursor_staged (enc_staging e0)" using encode_delta_staging [OF e0] assms(1) by simp
  ultimately show ?thesis by blast
next
  case False
  then have "next_cursor_payload (frame_taken e) = (Some q, e')"
    using assms(2,3) by (auto simp: next_payload_frame_taken split: if_splits)
  then show ?thesis using assms(1) by (intro exI [of _ "frame_taken e"]) simp
qed

lemma next_payload_length:
  assumes "in_sync (e, d)" "next_payload e = Ok (Some q, e')"
  shows "length (bytes_of_payload q) \<le> max 262154 (8 + 4 * tile_count (enc_geometry e) + 4 * pixel_count (enc_geometry e))"
proof -
  let ?g = "enc_geometry e"
  have wf: "wf_encoder e" and cur: "cursor_staged (enc_staging e)" using assms(1) by (simp_all add: in_sync_def)
  have g: "wf_geometry ?g" "length (st_frame (enc_staging e)) = pixel_count ?g" "length (enc_reference e) = pixel_count ?g"
    using wf by (simp_all add: wf_encoder_def)
  show ?thesis
  proof (rule next_payload_cases [OF wf])
    fix bs e'' assume k: "next_payload e = Ok (Some (Keyframe (write_header True ?g @ bs)), e'')"
      "keyframe_tiles ?g (st_frame (enc_staging e)) 0 = Ok bs"
    have "length bs \<le> tile_count ?g + 4 * pixel_count ?g"
      using keyframe_tiles_length [OF g(1,2) k(2)] tiles_from_0 [OF g(1), of 1] by simp
    then show ?thesis using assms(2) k(1) by (auto simp: HEADER_LEN_def)
  next
    fix selected bs e'' assume k: "next_payload e = Ok (Some (TileDelta (write_header False ?g @ bs)), e'')"
      "delta_tiles ?g (st_frame (enc_staging e)) selected (enc_reference e) 0 = Ok (bs, enc_reference e'', True)"
    have "length bs \<le> 4 * tile_count ?g + 4 * pixel_count ?g"
      using delta_tiles_length [OF g k(2)] tiles_from_0 [OF g(1), of 4] by simp
    then show ?thesis using assms(2) k(1) by (auto simp: HEADER_LEN_def)
  next
    fix p e'' assume k: "next_payload e = Ok (p, e'')"
      "p = None \<or> (\<exists>bs. p = Some (CursorImage bs) \<or> p = Some (CursorPosition bs))"
    have "\<forall>bs. q \<noteq> Keyframe bs \<and> q \<noteq> TileDelta bs" using assms(2) k by auto
    from cursor_payload_source [OF cur assms(2) this]
    have "\<exists>e0. cursor_staged (enc_staging e0) \<and> next_cursor_payload e0 = (Some q, e')" .
    then show ?thesis using cursor_payload_length by fastforce
  qed
qed

end
