(* ===== verification/Frame_Channel.thy ===== *)
theory Frame_Channel
  imports Frame_Pipeline Payload_Size
begin

text \<open>
  The two halves of a frame channel together: what the guest's pipeline writes is read record by record and applied
  by the viewer's \<open>Video\<close>.
\<close>

section \<open>In step\<close>

definition channel_in_step :: "pipeline \<times> video \<Rightarrow> bool" where
  "channel_in_step = (\<lambda>(p, v). \<exists>d. vd_decoder v = Some d \<and> in_sync (pl_encoder p, d) \<and>
     (enc_has_reference (pl_encoder p) \<longrightarrow> vd_last_frame v = Some (pl_last_frame_sequence p)))"

text \<open>One record: read off a transport that delivers what was written, and applied.\<close>

definition hears :: "(bytes \<Rightarrow> u32) \<Rightarrow> frame_wire \<Rightarrow> limits \<Rightarrow> sink \<Rightarrow> video \<Rightarrow> frame_update \<Rightarrow> video \<Rightarrow> bool" where
  "hears crc w l s v update v' \<longleftrightarrow>
     (\<forall>retried r rest. prompt retried r (sink_taken s @ rest) \<longrightarrow> begun (rd_events r) \<longrightarrow>
        (\<exists>h payload r'. record_read crc l r = (Ok (h, payload), r') \<and> prompt retried r' rest \<and>
           video_apply w v h payload = (Ok update, v')))"

lemma hearsD:
  assumes "hears crc w l s v update v'" "prompt retried r (sink_taken s @ rest)" "begun (rd_events r)"
  obtains h payload r' where "record_read crc l r = (Ok (h, payload), r')" "video_apply w v h payload = (Ok update, v')"
  using assms unfolding hears_def by blast

abbreviation empty_sink :: sink where "empty_sink \<equiv> \<lparr>sink_taken = [], sink_script = []\<rparr>"

lemma frame_write_record_heard:
  assumes "frame_write_record crc l g n kind base payload empty_sink = (Ok (), s)" "lim_frame l \<le> FRAME_PAYLOAD_CEILING"
    and "video_apply w v (header_for_payload crc ChFrame kind n base g payload) payload = (Ok update, v')"
  shows "hears crc w l s v update v'"
proof -
  let ?h = "header_for_payload crc ChFrame kind n base g payload"
  have "write_payload ?h payload l empty_sink = (Ok (), s)"
    using assms(1) by (auto simp: frame_write_record_def split: prod.splits)
  from written_read_back [OF this assms(2), of "sink_taken s"] show ?thesis
    using assms(3) by (fastforce simp: hears_def)
qed

lemma header_for_payload_simps [simp]:
  "hd_message_type (header_for_payload crc c t n b g payload) = t"
  "hd_sequence (header_for_payload crc c t n b g payload) = n"
  "hd_base (header_for_payload crc c t n b g payload) = b"
  by (simp_all add: header_for_payload_def)

lemma next_payload_reference:
  assumes "wf_encoder e" "next_payload e = Ok (Some q, e')"
  shows "case q of TileDelta bs \<Rightarrow> enc_has_reference e | Keyframe bs \<Rightarrow> True
    | _ \<Rightarrow> enc_has_reference e' = enc_has_reference e"
  by (rule next_payload_cases [OF assms(1)]) (use assms(2) in auto)

lemma write_next_in_step:
  assumes "channel_in_step (p, v)" "write_next crc l p empty_sink = (Ok True, p', s)"
    and "lim_frame l \<le> FRAME_PAYLOAD_CEILING"
  shows "\<exists>update v'. hears crc w l s v update v' \<and> channel_in_step (p', v')"
proof -
  obtain d where d: "vd_decoder v = Some d" "in_sync (pl_encoder p, d)"
    "enc_has_reference (pl_encoder p) \<longrightarrow> vd_last_frame v = Some (pl_last_frame_sequence p)"
    using assms(1) by (auto simp: channel_in_step_def)
  obtain q e where q: "next_payload (pl_encoder p) = Ok (Some q, e)"
    using assms(2) by (auto simp: write_next_def split: outcome.splits option.splits)
  let ?base = "if payload_kind q = FRAME_TILE_DELTA then pl_last_frame_sequence p else 0"
  let ?p' = "p\<lparr>pl_encoder := e, pl_sequence := pl_sequence p + 1,
    pl_last_frame_sequence := (if payload_is_frame q then pl_sequence p else pl_last_frame_sequence p)\<rparr>"
  have w: "frame_write_record crc l (pl_generation p) (pl_sequence p) (payload_kind q) ?base (payload_bytes q) empty_sink = (Ok (), s)"
    and p': "p' = ?p'"
    using assms(2) q by (auto simp: write_next_def Let_def split: outcome.splits prod.splits)
  obtain damage d' where a: "apply_payload q d = (Ok damage, d')" "in_sync (e, d')"
    using payload_in_sync [OF d(2) q] by blast
  note ref = next_payload_reference [OF _ q]
  have wf: "wf_encoder (pl_encoder p)" using d(2) by (simp add: in_sync_def)
  let ?h = "header_for_payload crc ChFrame (payload_kind q) (pl_sequence p) ?base (pl_generation p) (payload_bytes q)"
  have "\<exists>update v'. video_apply w v ?h (payload_bytes q) = (Ok update, v') \<and> channel_in_step (?p', v')"
  proof (cases q)
    case (Keyframe bs)
    then show ?thesis
      using a d(1) by (simp add: video_apply_def frame_types video_keyframe_def apply_frame_def channel_in_step_def)
  next
    case (TileDelta bs)
    then have "vd_last_frame v = Some (pl_last_frame_sequence p)" using ref wf d(3) by simp
    then show ?thesis
      using TileDelta a d(1) by (simp add: video_apply_def frame_types video_delta_def apply_frame_def channel_in_step_def)
  next
    case (CursorImage bs)
    then show ?thesis
      using a d ref wf by (auto simp: video_apply_def frame_types channel_in_step_def)
  next
    case (CursorPosition bs)
    then show ?thesis
      using a d ref wf by (auto simp: video_apply_def frame_types channel_in_step_def)
  qed
  then show ?thesis using frame_write_record_heard [OF w assms(3)] p' by blast
qed

text \<open>A stream that is opened, or opened again at another geometry.\<close>

lemma configured_in_step:
  assumes "wf_geometry g" "enc_geometry (pl_encoder p) = g" "pl_encoder p = encoder_new (encoder_config_new g) \<or>
      pl_encoder p = encoder_request_keyframe (encoder_new (encoder_config_new g))"
    and "dec_stream_config w (enc_stream_config w (stream_config_of g)) = Some (stream_config_of g)"
    and "write_stream_config crc w l p empty_sink = (Ok (), p', s)" "lim_frame l \<le> FRAME_PAYLOAD_CEILING"
  shows "\<exists>v'. hears crc w l s v (Configured g) v' \<and> channel_in_step (p', v')"
proof -
  let ?v' = "v\<lparr>vd_decoder := Some (decoder_new g), vd_last_frame := None\<rparr>"
  let ?payload = "enc_stream_config w (stream_config_of g)"
  have w: "frame_write_record crc l (pl_generation p) (pl_sequence p) FRAME_STREAM_CONFIG 0 ?payload empty_sink = (Ok (), s)"
    and p': "p' = p\<lparr>pl_sequence := pl_sequence p + 1\<rparr>"
    using assms(2,5) by (auto simp: write_stream_config_def split: outcome.splits prod.splits)
  have "geometry_new (geo_width g) (geo_height g) (geo_tile_size g) (geo_pixel_format g) = Ok g"
    by (rule wf_geometry_new [OF assms(1)])
  moreover have "pixel_format_from_wire (wire_format f) = Some f" for f
    by (cases f) (simp_all add: pixel_format_from_wire_def)
  ultimately have applied: "video_apply w v (header_for_payload crc ChFrame FRAME_STREAM_CONFIG (pl_sequence p) 0 (pl_generation p) ?payload)
      ?payload = (Ok (Configured g), ?v')"
    using assms(4) by (simp add: video_apply_def frame_types configure_def stream_config_of_def from_as_pixels)
  have "in_sync (encoder_new (encoder_config_new g), decoder_new g)"
    using in_sync_new [of "encoder_config_new g"] assms(1) by (simp add: encoder_config_new_def)
  then have "in_sync (pl_encoder p, decoder_new g)" using assms(3) request_keyframe_in_sync by metis
  moreover have "\<not> enc_has_reference (pl_encoder p)"
    using assms(3) by (auto simp: encoder_new_def encoder_request_keyframe_def Let_def)
  ultimately have "channel_in_step (p', ?v')" using p' by (simp add: channel_in_step_def)
  then show ?thesis using frame_write_record_heard [OF w assms(6) applied] by blast
qed

lemma submit_frame_in_step:
  assumes "channel_in_step (p, v)" "submit_frame frame p = (Ok (), p')" "length (cf_pixels frame) < usize_bound - 1"
  shows "channel_in_step (p', v)"
proof -
  obtain bs e where bs: "submitted_bytes p frame = Ok bs"
    "submit (pl_encoder p) \<lparr>cap_pixels = bs, cap_stride = cf_stride frame\<rparr> (damage_hint p frame) = Ok e"
    "p' = p\<lparr>pl_pointer := pointer_now p, pl_encoder := e\<rparr>"
    using assms(2) by (auto simp: submit_frame_def Let_def split: outcome.splits)
  have "length bs \<le> length (cf_pixels frame)"
    using bs(1) length_composite by (fastforce simp: submitted_bytes_def split: option.splits)
  then have len: "length (cap_pixels \<lparr>cap_pixels = bs, cap_stride = cf_stride frame\<rparr>) < usize_bound - 1" using assms(3) by simp
  obtain d where d: "vd_decoder v = Some d" "in_sync (pl_encoder p, d)"
    "enc_has_reference (pl_encoder p) \<longrightarrow> vd_last_frame v = Some (pl_last_frame_sequence p)"
    using assms(1) by (auto simp: channel_in_step_def)
  have "in_sync (e, d)" by (rule submit_in_sync [OF d(2) bs(2) len])
  moreover have "enc_has_reference e = enc_has_reference (pl_encoder p)"
    using bs(2) by (auto simp: submit_def Let_def split: if_splits)
  ultimately show ?thesis using bs(3) d by (auto simp: channel_in_step_def)
qed

lemma submit_cursor_in_step:
  assumes "channel_in_step (p, v)" "submit_cursor img pl p = (Ok (), p')"
  shows "channel_in_step (p', v)"
proof -
  obtain d where d: "vd_decoder v = Some d" "in_sync (pl_encoder p, d)"
    "enc_has_reference (pl_encoder p) \<longrightarrow> vd_last_frame v = Some (pl_last_frame_sequence p)"
    using assms(1) by (auto simp: channel_in_step_def)
  have has: "enc_has_reference e = enc_has_reference (pl_encoder p)" if "submit_cursor_image (pl_encoder p) im = Ok e" for im e
    using that by (auto simp: submit_cursor_image_def)
  have pos: "enc_has_reference (submit_cursor_position e pos) = enc_has_reference e"
    "pl_last_frame_sequence (p\<lparr>pl_encoder := e\<rparr>) = pl_last_frame_sequence p" for e pos
    by (simp_all add: submit_cursor_position_def)
  show ?thesis
  proof (cases "pl_cursor_stream p")
    case True
    then obtain e pos where e: "p' = p\<lparr>pl_encoder := submit_cursor_position e pos\<rparr>"
      "e = pl_encoder p \<or> (\<exists>im. submit_cursor_image (pl_encoder p) im = Ok e)"
      using assms(2) by (auto simp: submit_cursor_def split: option.splits outcome.splits)
    then have "in_sync (e, d)" using d(2) submit_cursor_image_in_sync by blast
    then show ?thesis using e has pos d submit_cursor_position_in_sync by (auto simp: channel_in_step_def)
  next
    case False
    then have "pl_encoder p' = pl_encoder p \<and> pl_last_frame_sequence p' = pl_last_frame_sequence p"
      using assms(2) by (auto simp: submit_cursor_def Let_def)
    then show ?thesis using d by (simp add: channel_in_step_def)
  qed
qed

section \<open>A channel in any order\<close>

text \<open>
  The steps of a channel. Captures, cursors and requests come in any order and at any rate; a record is written
  whenever there is room and heard before the next one; the stream may be opened again at
  another geometry, and a part of a hotspot table may go in between.
\<close>

inductive channel_step :: "(bytes \<Rightarrow> u32) \<Rightarrow> frame_wire \<Rightarrow> pipeline \<times> video \<Rightarrow> pipeline \<times> video \<Rightarrow> bool" for crc w where
  capture: "submit_frame frame p = (Ok (), p') \<Longrightarrow> length (cf_pixels frame) < usize_bound - 1 \<Longrightarrow>
    channel_step crc w (p, v) (p', v)"
| cursor: "submit_cursor img pl p = (Ok (), p') \<Longrightarrow> channel_step crc w (p, v) (p', v)"
| request: "channel_step crc w (p, v) (pipeline_request_keyframe p, v)"
| idle: "write_next crc l p empty_sink = (Ok False, p', s) \<Longrightarrow> channel_step crc w (p, v) (p', v)"
| pull: "write_next crc l p empty_sink = (Ok True, p', s) \<Longrightarrow> lim_frame l \<le> FRAME_PAYLOAD_CEILING \<Longrightarrow>
    hears crc w l s v update v' \<Longrightarrow> channel_step crc w (p, v) (p', v')"
| reopen: "geometry_new width height t f = Ok g \<Longrightarrow>
    write_stream_config crc w l (reconfigure g p) empty_sink = (Ok (), p', s) \<Longrightarrow>
    lim_frame l \<le> FRAME_PAYLOAD_CEILING \<Longrightarrow> hears crc w l s v update v' \<Longrightarrow> channel_step crc w (p, v) (p', v')"
| hotspots: "write_hotspot_chunks crc w l [chunk] p empty_sink = (Ok (), p', s) \<Longrightarrow>
    lim_frame l \<le> FRAME_PAYLOAD_CEILING \<Longrightarrow> hears crc w l s v update v' \<Longrightarrow> channel_step crc w (p, v) (p', v')"

lemma write_payload_nonempty: "write_payload h payload l s = (Ok (), s') \<Longrightarrow> sink_taken s' \<noteq> []"
  using write_payload_Ok [of h payload l s s'] length_header_encode [of h] by (auto simp del: length_header_encode)

lemma frame_write_record_nonempty:
  "frame_write_record crc l g n kind base payload s = (Ok (), s') \<Longrightarrow> sink_taken s' \<noteq> []"
  using write_payload_nonempty by (auto simp: frame_write_record_def split: prod.splits)

text \<open>What is heard is determined by what was written.\<close>

lemma hears_unique:
  assumes "hears crc w l s v update v'" "hears crc w l s v update2 v2" "sink_taken s \<noteq> []"
  shows "v' = v2"
proof -
  let ?r = "\<lparr>rd_clock = 0, rd_events = [(0, Data (sink_taken s))]\<rparr>"
  have r: "prompt {} ?r (sink_taken s @ [])" "begun (rd_events ?r)"
    using assms(3) by (simp_all add: prompt_def elapsed_def RECORD_COMPLETION_def)
  obtain h payload r' where first: "record_read crc l ?r = (Ok (h, payload), r')" "video_apply w v h payload = (Ok update, v')"
    by (rule hearsD [OF assms(1) r])
  obtain h2 payload2 r2 where "record_read crc l ?r = (Ok (h2, payload2), r2)" "video_apply w v h2 payload2 = (Ok update2, v2)"
    by (rule hearsD [OF assms(2) r])
  with first show ?thesis by simp
qed

lemma write_next_nonempty: "write_next crc l p empty_sink = (Ok True, p', s) \<Longrightarrow> sink_taken s \<noteq> []"
  using frame_write_record_nonempty
  by (auto simp: write_next_def Let_def split: outcome.splits option.splits prod.splits)

lemma hotspots_keep_the_frame:
  assumes "channel_in_step (p, v)" "write_hotspot_chunks crc w l [chunk] p empty_sink = (Ok (), p', s)"
    and "lim_frame l \<le> FRAME_PAYLOAD_CEILING" "hears crc w l s v update v'"
  shows "channel_in_step (p', v')"
proof -
  let ?payload = "enc_hotspots w (chunk, True)"
  let ?h = "header_for_payload crc ChFrame FRAME_CURSOR_HOTSPOTS (pl_sequence p) 0 (pl_generation p) ?payload"
  have wr: "frame_write_record crc l (pl_generation p) (pl_sequence p) FRAME_CURSOR_HOTSPOTS 0 ?payload empty_sink = (Ok (), s)"
    and p': "p' = p\<lparr>pl_sequence := pl_sequence p + 1\<rparr>"
    using assms(2) by (auto split: outcome.splits prod.splits)
  have wp: "write_payload ?h ?payload l empty_sink = (Ok (), s)"
    using wr by (auto simp: frame_write_record_def split: prod.splits)
  let ?r = "\<lparr>rd_clock = 0, rd_events = [(0, Data (sink_taken s))]\<rparr>"
  have r: "prompt {} ?r (sink_taken s @ [])" "begun (rd_events ?r)"
    using frame_write_record_nonempty [OF wr] by (simp_all add: prompt_def elapsed_def RECORD_COMPLETION_def)
  obtain r' where "record_read crc l ?r = (Ok (?h, ?payload), r')"
    using written_read_back [OF wp assms(3) _ r] by auto
  then have "video_apply w v ?h ?payload = (Ok update, v')"
    by (rule_tac hearsD [OF assms(4) r]) auto
  then have "vd_decoder v' = vd_decoder v" "vd_last_frame v' = vd_last_frame v"
    by (auto simp: video_apply_def frame_types video_hotspots_def Let_def split: option.splits if_splits)
  then show ?thesis using assms(1) p' by (simp add: channel_in_step_def)
qed

lemma reconfigure_encoder:
  "pl_encoder (reconfigure g p) = encoder_request_keyframe (encoder_new (encoder_config_new g))"
  "enc_geometry (encoder_request_keyframe (encoder_new (encoder_config_new g))) = g"
  by (simp_all add: reconfigure_def pipeline_request_keyframe_def encoder_request_keyframe_def encoder_new_def
      encoder_config_new_def Let_def)

lemma channel_step_in_step:
  assumes "channel_step crc w a b" "channel_in_step a"
    and codec: "\<And>g. wf_geometry g \<Longrightarrow> dec_stream_config w (enc_stream_config w (stream_config_of g)) = Some (stream_config_of g)"
  shows "channel_in_step b"
  using assms(1,2)
proof (induction rule: channel_step.induct)
  case (idle l p p' s v)
  then obtain e where e: "next_payload (pl_encoder p) = Ok (None, e)" "p' = p\<lparr>pl_encoder := e\<rparr>"
    by (auto simp: write_next_def Let_def split: outcome.splits option.splits prod.splits)
  obtain d where d: "vd_decoder v = Some d" "in_sync (pl_encoder p, d)"
    "enc_has_reference (pl_encoder p) \<longrightarrow> vd_last_frame v = Some (pl_last_frame_sequence p)"
    using idle.prems by (auto simp: channel_in_step_def)
  have "wf_encoder (pl_encoder p)" using d(2) by (simp add: in_sync_def)
  then have "enc_has_reference e = enc_has_reference (pl_encoder p)" by (rule next_payload_cases) (use e(1) in auto)
  then show ?case using idle_in_sync [OF d(2) e(1)] d e(2) by (simp add: channel_in_step_def)
next
  case (pull l p p' s v update v')
  obtain update2 v2 where "hears crc w l s v update2 v2" "channel_in_step (p', v2)"
    using write_next_in_step [OF pull.prems pull.hyps(1,2)] by blast
  then show ?case using hears_unique [OF pull.hyps(3) _ write_next_nonempty [OF pull.hyps(1)]] by blast
next
  case (reopen width height t f g l p p' s v update v')
  have wf: "wf_geometry g" using geometry_new_wf [OF reopen.hyps(1)] .
  have geo: "enc_geometry (pl_encoder (reconfigure g p)) = g"
    and enc: "pl_encoder (reconfigure g p) = encoder_new (encoder_config_new g) \<or>
      pl_encoder (reconfigure g p) = encoder_request_keyframe (encoder_new (encoder_config_new g))"
    by (simp_all add: reconfigure_encoder)
  obtain v2 where v2: "hears crc w l s v (Configured g) v2" "channel_in_step (p', v2)"
    using configured_in_step [OF wf geo enc codec [OF wf] reopen.hyps(2,3)] by blast
  have "sink_taken s \<noteq> []"
    using reopen.hyps(2) frame_write_record_nonempty
    by (auto simp: write_stream_config_def split: outcome.splits prod.splits)
  then show ?case using hears_unique [OF reopen.hyps(4) v2(1)] v2(2) by blast
next
  case (request p v)
  then show ?case
    using request_keyframe_in_sync
    by (auto simp: channel_in_step_def pipeline_request_keyframe_def encoder_request_keyframe_def)
qed (auto intro: submit_frame_in_step submit_cursor_in_step hotspots_keep_the_frame)

lemma reachable_in_step:
  assumes "(channel_step crc w)\<^sup>*\<^sup>* a b" "channel_in_step a"
    and "\<And>g. wf_geometry g \<Longrightarrow> dec_stream_config w (enc_stream_config w (stream_config_of g)) = Some (stream_config_of g)"
  shows "channel_in_step b"
  using assms(1,2) by (induction rule: rtranclp_induct) (auto intro: channel_step_in_step [OF _ _ assms(3)])

section \<open>The channel's own records fit\<close>

text \<open>The geometries at which the slack of a record's cap holds what the tiles add.\<close>

definition roomy :: "geometry \<Rightarrow> bool" where
  "roomy g \<longleftrightarrow> 4 * tile_count g + 8 \<le> FRAME_PAYLOAD_SLACK \<and> 4 * pixel_count g + FRAME_PAYLOAD_SLACK \<le> FRAME_PAYLOAD_CEILING \<and>
     262154 \<le> 4 * pixel_count g + FRAME_PAYLOAD_SLACK"

lemma roomy_cap:
  assumes "roomy g"
  shows "for_channel (limits_new (geo_width g) (geo_height g)) ChFrame = 4 * pixel_count g + FRAME_PAYLOAD_SLACK"
proof -
  have "geo_width g * geo_height g \<le> 16760832"
    using assms by (simp add: roomy_def pixel_count_def FRAME_PAYLOAD_CEILING_def FRAME_PAYLOAD_SLACK_def mult.commute)
  then show ?thesis
    by (simp add: limits_new_def set_geometry_def pixel_count_def FRAME_PAYLOAD_CEILING_def FRAME_PAYLOAD_SLACK_def min_absorb1)
qed

lemma payload_bytes_eq: "payload_bytes q = bytes_of_payload q"
  by (cases q) simp_all

lemma write_next_total:
  assumes "channel_in_step (p, v)" "roomy (enc_geometry (pl_encoder p))"
  shows "\<exists>wrote p' s. write_next crc (limits_new (geo_width (enc_geometry (pl_encoder p))) (geo_height (enc_geometry (pl_encoder p)))) p
    empty_sink = (Ok wrote, p', s)"
proof -
  let ?g = "enc_geometry (pl_encoder p)"
  let ?l = "limits_new (geo_width ?g) (geo_height ?g)"
  obtain d where d: "in_sync (pl_encoder p, d)" using assms(1) by (auto simp: channel_in_step_def)
  then have "wf_encoder (pl_encoder p)" by (simp add: in_sync_def)
  then obtain q e where q: "next_payload (pl_encoder p) = Ok (q, e)" by (rule next_payload_cases) auto
  show ?thesis
  proof (cases q)
    case None
    then show ?thesis using q by (auto simp: write_next_def)
  next
    case (Some payload)
    have "length (payload_bytes payload) \<le> for_channel ?l ChFrame"
      using next_payload_length [OF d] q Some assms(2) roomy_cap [OF assms(2)]
      by (auto simp: payload_bytes_eq roomy_def)
    then have "unat (hd_length (header_for_payload crc ChFrame k n b gen (payload_bytes payload))) \<le> for_channel ?l ChFrame" for k n b gen
      by (simp add: header_length_saturates min_le_iff_disj)
    then have "\<exists>s. frame_write_record crc ?l gen n k b (payload_bytes payload) empty_sink = (Ok (), s)" for gen n k b
      by (simp add: frame_write_record_def write_payload_def flush_def header_for_payload_def Let_def)
    then obtain s where "frame_write_record crc ?l (pl_generation p) (pl_sequence p) (payload_kind payload)
        (if payload_kind payload = FRAME_TILE_DELTA then pl_last_frame_sequence p else 0) (payload_bytes payload) empty_sink = (Ok (), s)"
      by blast
    then show ?thesis using q Some by (auto simp: write_next_def Let_def)
  qed
qed

end
