(* ===== verification/Clipboard_Exchange.thy ===== *)
theory Clipboard_Exchange
  imports Unicode_Text
begin

text \<open>
  The clipboard's exchange of selections (\<open>display-protocol/src/clipboard.rs\<close>), which both ends run. A
  call returns the list of operations its owner must carry out, beside the exchange it leaves.
  An \<open>Instant\<close> is a number of milliseconds, and \<open>duration_since\<close> the truncated difference. Mime
  types are text; transfer ids and serials are \<open>u32\<close> words and wrap.
\<close>

section \<open>What may be copied\<close>

datatype Kind = Text | Html | Bmp | Png

definition TEXT_MIME :: utext where "TEXT_MIME = utext_of ''text/plain;charset=utf-8''"
definition HTML_MIME :: utext where "HTML_MIME = utext_of ''text/html''"
definition BMP_MIME :: utext where "BMP_MIME = utext_of ''image/bmp''"
definition PNG_MIME :: utext where "PNG_MIME = utext_of ''image/png''"

definition MAX_MIME_TYPES :: nat where "MAX_MIME_TYPES = 16"
definition MAX_TEXT_TRANSFER :: nat where "MAX_TEXT_TRANSFER = 8 * 1024 * 1024"
definition MAX_IMAGE_TRANSFER :: nat where "MAX_IMAGE_TRANSFER = 32 * 1024 * 1024"
definition CHUNK :: nat where "CHUNK = 60 * 1024"
definition IDLE :: nat where "IDLE = 5000"

definition ORDER :: "Kind list" where "ORDER = [Text, Html, Bmp, Png]"

definition kind_from_mime :: "utext \<Rightarrow> Kind option" where
  "kind_from_mime mime =
     (if mime = TEXT_MIME then Some Text else if mime = HTML_MIME then Some Html
      else if mime = BMP_MIME then Some Bmp else if mime = PNG_MIME then Some Png else None)"

fun kind_mime :: "Kind \<Rightarrow> utext" where
  "kind_mime Text = TEXT_MIME"
| "kind_mime Html = HTML_MIME"
| "kind_mime Bmp = BMP_MIME"
| "kind_mime Png = PNG_MIME"

fun kind_cap :: "Kind \<Rightarrow> nat" where
  "kind_cap Text = MAX_TEXT_TRANSFER"
| "kind_cap Html = MAX_TEXT_TRANSFER"
| "kind_cap Bmp = MAX_IMAGE_TRANSFER"
| "kind_cap Png = MAX_IMAGE_TRANSFER"

record piece =
  pc_kind :: Kind
  pc_bytes :: bytes

text \<open>\<open>CancelReason\<close> of \<open>display.proto\<close>.\<close>

datatype CancelReason =
  CancelUnspecified | Superseded | TooLargeTransfer | Unavailable | TimedOutTransfer | FocusLost

datatype clip_message =
    ClipOffer u32 "utext list"
  | ClipRequest u32 utext u32
  | ClipData u32 bytes bool
  | ClipCancel u32 CancelReason

datatype clip_op = ClipSend clip_message | ClipProduce Kind u32 | ClipApply "piece list"

definition ordered :: "Kind list \<Rightarrow> Kind list" where
  "ordered kinds = filter (\<lambda>kind. kind \<in> set kinds) ORDER"

section \<open>The exchange\<close>

record clip_outgoing =
  co_serial :: u32
  co_transfer :: "(u32 \<times> Kind) option"
  co_since :: "nat option"

record clip_incoming =
  ci_serial :: "u32 option"
  ci_queue :: "Kind list"
  ci_transfer :: "(u32 \<times> Kind) option"
  ci_buffer :: bytes
  ci_pieces :: "piece list"
  ci_since :: "nat option"

record clip_exchange =
  cx_outgoing :: clip_outgoing
  cx_incoming :: clip_incoming
  cx_next_transfer :: u32

definition clip_incoming_empty :: clip_incoming where
  "clip_incoming_empty = \<lparr>ci_serial = None, ci_queue = [], ci_transfer = None, ci_buffer = [],
     ci_pieces = [], ci_since = None\<rparr>"

definition clip_new :: clip_exchange where
  "clip_new = \<lparr>cx_outgoing = \<lparr>co_serial = 0, co_transfer = None, co_since = None\<rparr>,
     cx_incoming = clip_incoming_empty, cx_next_transfer = 1\<rparr>"

definition clip_cancel_outgoing :: "CancelReason \<Rightarrow> clip_exchange \<Rightarrow> clip_op list \<times> clip_exchange" where
  "clip_cancel_outgoing reason x =
     (case co_transfer (cx_outgoing x) of
        Some (transfer, _) \<Rightarrow>
          ([ClipSend (ClipCancel transfer reason)],
           x\<lparr>cx_outgoing := (cx_outgoing x)\<lparr>co_transfer := None, co_since := None\<rparr>\<rparr>)
      | None \<Rightarrow> ([], x))"

definition clip_cancel_incoming :: "CancelReason \<Rightarrow> clip_exchange \<Rightarrow> clip_op list \<times> clip_exchange" where
  "clip_cancel_incoming reason x =
     (case ci_transfer (cx_incoming x) of
        Some (transfer, _) \<Rightarrow>
          ([ClipSend (ClipCancel transfer reason)],
           x\<lparr>cx_incoming := (cx_incoming x)\<lparr>ci_transfer := None, ci_since := None\<rparr>\<rparr>)
      | None \<Rightarrow> ([], x))"

definition clip_forget_incoming :: "clip_exchange \<Rightarrow> clip_exchange" where
  "clip_forget_incoming x = x\<lparr>cx_incoming := clip_incoming_empty\<rparr>"

definition clip_request_next :: "nat \<Rightarrow> clip_exchange \<Rightarrow> clip_op list \<times> clip_exchange" where
  "clip_request_next now x =
     (case ci_serial (cx_incoming x) of
        None \<Rightarrow> ([], x)
      | Some serial \<Rightarrow>
          (case ci_queue (cx_incoming x) of
             [] \<Rightarrow> ([], x)
           | kind # queue \<Rightarrow>
               let transfer = cx_next_transfer x in
               ([ClipSend (ClipRequest serial (kind_mime kind) transfer)],
                x\<lparr>cx_next_transfer := transfer + 1,
                  cx_incoming := (cx_incoming x)\<lparr>ci_queue := queue, ci_transfer := Some (transfer, kind),
                    ci_buffer := [], ci_since := Some now\<rparr>\<rparr>)))"

definition clip_local_offer :: "Kind list \<Rightarrow> nat \<Rightarrow> clip_exchange \<Rightarrow> clip_op list \<times> clip_exchange" where
  "clip_local_offer kinds now x =
     (let (ops, x1) = clip_cancel_outgoing Superseded x;
          serial = co_serial (cx_outgoing x1) + 1 in
      (ops @ [ClipSend (ClipOffer serial (map kind_mime (ordered kinds)))],
       x1\<lparr>cx_outgoing := (cx_outgoing x1)\<lparr>co_serial := serial, co_since := Some now\<rparr>\<rparr>))"

definition clip_peer_request ::
  "u32 \<Rightarrow> utext \<Rightarrow> u32 \<Rightarrow> nat \<Rightarrow> clip_exchange \<Rightarrow> clip_op list \<times> clip_exchange" where
  "clip_peer_request serial mime_type transfer now x =
     (if serial \<noteq> co_serial (cx_outgoing x) then ([ClipSend (ClipCancel transfer Superseded)], x)
      else case kind_from_mime mime_type of
          None \<Rightarrow> ([ClipSend (ClipCancel transfer Unavailable)], x)
        | Some kind \<Rightarrow>
            let (ops, x1) = clip_cancel_outgoing Superseded x in
            (ops @ [ClipProduce kind transfer],
             x1\<lparr>cx_outgoing := (cx_outgoing x1)\<lparr>co_transfer := Some (transfer, kind),
               co_since := Some now\<rparr>\<rparr>))"

text \<open>The loop of \<open>produced\<close>: at least one chunk, the last one marked.\<close>

function clip_chunks :: "u32 \<Rightarrow> bytes \<Rightarrow> clip_op list" where
  "clip_chunks transfer rest =
     (let n = min (length rest) CHUNK; tail = drop n rest in
      ClipSend (ClipData transfer (take n rest) (tail = [])) #
      (if tail = [] then [] else clip_chunks transfer tail))"
  by pat_completeness auto
termination
  by (relation "measure (\<lambda>(transfer, rest). length rest)") (auto simp: CHUNK_def)

declare clip_chunks.simps [simp del]

definition clip_produced :: "u32 \<Rightarrow> bytes \<Rightarrow> nat \<Rightarrow> clip_exchange \<Rightarrow> clip_op list \<times> clip_exchange" where
  "clip_produced transfer bs now x =
     (case co_transfer (cx_outgoing x) of
        None \<Rightarrow> ([], x)
      | Some (current, kind) \<Rightarrow>
          if current \<noteq> transfer then ([], x)
          else if length bs > kind_cap kind then
            ([ClipSend (ClipCancel transfer TooLargeTransfer)],
             x\<lparr>cx_outgoing := (cx_outgoing x)\<lparr>co_transfer := None, co_since := None\<rparr>\<rparr>)
          else (clip_chunks transfer bs,
                x\<lparr>cx_outgoing := (cx_outgoing x)\<lparr>co_transfer := None, co_since := Some now\<rparr>\<rparr>))"

definition clip_unavailable :: "u32 \<Rightarrow> clip_exchange \<Rightarrow> clip_op list \<times> clip_exchange" where
  "clip_unavailable transfer x =
     (case co_transfer (cx_outgoing x) of
        None \<Rightarrow> ([], x)
      | Some (current, _) \<Rightarrow>
          if current = transfer then
            ([ClipSend (ClipCancel transfer Unavailable)],
             x\<lparr>cx_outgoing := (cx_outgoing x)\<lparr>co_transfer := None, co_since := None\<rparr>\<rparr>)
          else ([], x))"

definition clip_peer_offer :: "u32 \<Rightarrow> utext list \<Rightarrow> nat \<Rightarrow> clip_exchange \<Rightarrow> clip_op list \<times> clip_exchange" where
  "clip_peer_offer serial mime_types now x =
     (let kinds = List.map_filter kind_from_mime (take MAX_MIME_TYPES mime_types);
          all = ordered kinds;
          wanted = (if Bmp \<in> set all then filter (\<lambda>kind. kind \<noteq> Png) all else all);
          (ops, x1) = clip_cancel_incoming Superseded x;
          x2 = clip_forget_incoming x1 in
      if wanted = [] then (ops, x2)
      else let x3 = x2\<lparr>cx_incoming := (cx_incoming x2)\<lparr>ci_serial := Some serial, ci_queue := wanted\<rparr>\<rparr>;
               (more, x4) = clip_request_next now x3 in
        (ops @ more, x4))"

definition clip_peer_data :: "u32 \<Rightarrow> bytes \<Rightarrow> bool \<Rightarrow> nat \<Rightarrow> clip_exchange \<Rightarrow> clip_op list \<times> clip_exchange" where
  "clip_peer_data transfer chunk final now x =
     (case ci_transfer (cx_incoming x) of
        None \<Rightarrow> ([], x)
      | Some (current, kind) \<Rightarrow>
          if current \<noteq> transfer then ([], x)
          else if length (ci_buffer (cx_incoming x)) + length chunk > kind_cap kind then
            let (ops, x1) = clip_cancel_incoming TooLargeTransfer x in (ops, clip_forget_incoming x1)
          else
            let x1 = x\<lparr>cx_incoming := (cx_incoming x)\<lparr>ci_buffer := ci_buffer (cx_incoming x) @ chunk,
                   ci_since := Some now\<rparr>\<rparr> in
            if \<not> final then ([], x1)
            else
              let x2 = x1\<lparr>cx_incoming := (cx_incoming x1)\<lparr>ci_buffer := [],
                     ci_pieces := ci_pieces (cx_incoming x1) @
                       [\<lparr>pc_kind = kind, pc_bytes = ci_buffer (cx_incoming x1)\<rparr>],
                     ci_transfer := None, ci_since := None\<rparr>\<rparr>;
                  (ops, x3) = clip_request_next now x2 in
              if ops \<noteq> [] then (ops, x3)
              else ([ClipApply (ci_pieces (cx_incoming x3))],
                    x3\<lparr>cx_incoming := (cx_incoming x3)\<lparr>ci_pieces := [], ci_serial := None\<rparr>\<rparr>))"

definition clip_peer_cancel :: "u32 \<Rightarrow> clip_exchange \<Rightarrow> clip_op list \<times> clip_exchange" where
  "clip_peer_cancel transfer x =
     (if map_option fst (ci_transfer (cx_incoming x)) = Some transfer then ([], clip_forget_incoming x)
      else if map_option fst (co_transfer (cx_outgoing x)) = Some transfer then
        ([], x\<lparr>cx_outgoing := (cx_outgoing x)\<lparr>co_transfer := None, co_since := None\<rparr>\<rparr>)
      else ([], x))"

definition clip_focus_lost :: "clip_exchange \<Rightarrow> clip_op list \<times> clip_exchange" where
  "clip_focus_lost x =
     (let (ops, x1) = clip_cancel_outgoing FocusLost x;
          (more, x2) = clip_cancel_incoming FocusLost x1 in
      (ops @ more, clip_forget_incoming x2))"

text \<open>Whether a transfer that moved at \<open>since\<close> has been quiet for longer than it may.\<close>

definition quiet :: "nat option \<Rightarrow> nat \<Rightarrow> bool" where
  "quiet since now \<longleftrightarrow> (case since of None \<Rightarrow> False | Some t \<Rightarrow> now - t > IDLE)"

definition clip_tick :: "nat \<Rightarrow> clip_exchange \<Rightarrow> clip_op list \<times> clip_exchange" where
  "clip_tick now x =
     (let (ops, x1) =
            (if co_transfer (cx_outgoing x) \<noteq> None \<and> quiet (co_since (cx_outgoing x)) now
             then clip_cancel_outgoing TimedOutTransfer x else ([], x));
          (more, x2) =
            (if ci_transfer (cx_incoming x1) \<noteq> None \<and> quiet (ci_since (cx_incoming x1)) now
             then let (ops', y) = clip_cancel_incoming TimedOutTransfer x1 in (ops', clip_forget_incoming y)
             else ([], x1)) in
      (ops @ more, x2))"

section \<open>Calls in any order\<close>

datatype clip_call =
    CallLocalOffer "Kind list" nat
  | CallPeerRequest u32 utext u32 nat
  | CallProduced u32 bytes nat
  | CallUnavailable u32
  | CallPeerOffer u32 "utext list" nat
  | CallPeerData u32 bytes bool nat
  | CallPeerCancel u32
  | CallFocusLost
  | CallTick nat

fun clip_perform :: "clip_call \<Rightarrow> clip_exchange \<Rightarrow> clip_op list \<times> clip_exchange" where
  "clip_perform (CallLocalOffer kinds now) x = clip_local_offer kinds now x"
| "clip_perform (CallPeerRequest serial mime transfer now) x = clip_peer_request serial mime transfer now x"
| "clip_perform (CallProduced transfer bs now) x = clip_produced transfer bs now x"
| "clip_perform (CallUnavailable transfer) x = clip_unavailable transfer x"
| "clip_perform (CallPeerOffer serial mimes now) x = clip_peer_offer serial mimes now x"
| "clip_perform (CallPeerData transfer chunk final now) x = clip_peer_data transfer chunk final now x"
| "clip_perform (CallPeerCancel transfer) x = clip_peer_cancel transfer x"
| "clip_perform CallFocusLost x = clip_focus_lost x"
| "clip_perform (CallTick now) x = clip_tick now x"

fun clip_run :: "clip_call list \<Rightarrow> clip_exchange \<Rightarrow> clip_op list \<times> clip_exchange" where
  "clip_run [] x = ([], x)"
| "clip_run (call # calls) x =
     (let (ops, x1) = clip_perform call x; (more, x2) = clip_run calls x1 in (ops @ more, x2))"

section \<open>What is held is bounded\<close>

lemma kind_from_mime_mime [simp]: "kind_from_mime (kind_mime k) = Some k"
  by (cases k) (simp_all add: kind_from_mime_def TEXT_MIME_def HTML_MIME_def BMP_MIME_def PNG_MIME_def
      utext_of_def)

text \<open>What one selection is pulled as: in order, each kind once, and one picture.\<close>

definition wanted :: "Kind list \<Rightarrow> Kind list" where
  "wanted kinds = (if Bmp \<in> set kinds then filter (\<lambda>k. k \<noteq> Png) (ordered kinds) else ordered kinds)"

definition selection :: "Kind list \<Rightarrow> bool" where
  "selection ks \<longleftrightarrow> wanted ks = ks"

lemma set_ordered [simp]: "set (ordered ks) = set ks"
proof -
  have "k \<in> set ORDER" for k by (cases k) (simp_all add: ORDER_def)
  then show ?thesis by (auto simp: ordered_def)
qed

lemma ordered_cong: "set ks = set ls \<Longrightarrow> ordered ks = ordered ls"
  by (simp add: ordered_def)

lemma set_wanted: "set (wanted ks) = (if Bmp \<in> set ks then set ks - {Png} else set ks)"
  by (auto simp: wanted_def)

lemma selection_wanted [simp]: "selection (wanted ks)"
proof (cases "Bmp \<in> set ks")
  case True
  have "filter (\<lambda>k. k \<noteq> Png) (ordered (wanted ks)) = filter (\<lambda>k. k \<noteq> Png) (ordered ks)"
    using True by (auto simp: ordered_def set_wanted intro: filter_cong)
  then show ?thesis using True by (simp add: selection_def wanted_def [of "wanted ks"] set_wanted) (simp add: wanted_def)
next
  case False
  then have "ordered (wanted ks) = ordered ks" by (intro ordered_cong) (simp add: set_wanted)
  then show ?thesis using False by (simp add: selection_def wanted_def [of "wanted ks"] set_wanted) (simp add: wanted_def)
qed

lemma selection_cases:
  assumes "selection ks"
  shows "ks \<in> {[], [Text], [Html], [Bmp], [Png], [Text, Html], [Text, Bmp], [Text, Png], [Html, Bmp],
    [Html, Png], [Text, Html, Bmp], [Text, Html, Png]}"
proof -
  have "ks = wanted ks" using assms by (simp add: selection_def)
  also have "\<dots> \<in> {[], [Text], [Html], [Bmp], [Png], [Text, Html], [Text, Bmp], [Text, Png], [Html, Bmp],
    [Html, Png], [Text, Html, Bmp], [Text, Html, Png]}"
    by (simp add: wanted_def ordered_def ORDER_def)
  finally show ?thesis .
qed

lemma selection_cost:
  assumes "selection ks"
  shows "sum_list (map kind_cap ks) \<le> 48 * 1024 * 1024"
  using selection_cases [OF assms] by (auto simp: MAX_TEXT_TRANSFER_def MAX_IMAGE_TRANSFER_def)

definition pieces_fit :: "piece list \<Rightarrow> bool" where
  "pieces_fit ps \<longleftrightarrow> (\<forall>p \<in> set ps. length (pc_bytes p) \<le> kind_cap (pc_kind p))"

definition held_bytes :: "clip_exchange \<Rightarrow> nat" where
  "held_bytes x = length (ci_buffer (cx_incoming x)) +
     sum_list (map (\<lambda>p. length (pc_bytes p)) (ci_pieces (cx_incoming x)))"

definition wf_incoming :: "clip_incoming \<Rightarrow> bool" where
  "wf_incoming i \<longleftrightarrow>
     (case ci_transfer i of
        None \<Rightarrow> i = clip_incoming_empty
      | Some (transfer, kind) \<Rightarrow> ci_serial i \<noteq> None \<and> ci_since i \<noteq> None \<and>
          selection (map pc_kind (ci_pieces i) @ kind # ci_queue i) \<and>
          length (ci_buffer i) \<le> kind_cap kind \<and> pieces_fit (ci_pieces i))"

definition wf_clip :: "clip_exchange \<Rightarrow> bool" where
  "wf_clip x \<longleftrightarrow> wf_incoming (cx_incoming x) \<and>
     (co_transfer (cx_outgoing x) \<noteq> None \<longrightarrow> co_since (cx_outgoing x) \<noteq> None)"

fun op_ok :: "clip_op \<Rightarrow> bool" where
  "op_ok (ClipApply ps) \<longleftrightarrow> ps \<noteq> [] \<and> selection (map pc_kind ps) \<and> pieces_fit ps"
| "op_ok (ClipSend (ClipData transfer chunk final)) \<longleftrightarrow> length chunk \<le> CHUNK"
| "op_ok (ClipSend (ClipOffer serial mimes)) \<longleftrightarrow> set mimes \<subseteq> range kind_mime"
| "op_ok _ \<longleftrightarrow> True"

definition clip_kept :: "clip_op list \<times> clip_exchange \<Rightarrow> bool" where
  "clip_kept p \<longleftrightarrow> wf_clip (snd p) \<and> list_all op_ok (fst p)"

lemma wf_incoming_empty [simp]: "wf_incoming clip_incoming_empty"
  by (simp add: wf_incoming_def clip_incoming_empty_def)

lemma wf_clip_new: "wf_clip clip_new"
  by (simp add: wf_clip_def clip_new_def)

lemma held_bytes_bound:
  assumes "wf_clip x"
  shows "held_bytes x \<le> 48 * 1024 * 1024"
proof (cases "ci_transfer (cx_incoming x)")
  case None
  then show ?thesis using assms by (simp add: wf_clip_def wf_incoming_def held_bytes_def clip_incoming_empty_def)
next
  case (Some tk)
  obtain transfer kind where tk: "tk = (transfer, kind)" by force
  let ?i = "cx_incoming x"
  have i: "selection (map pc_kind (ci_pieces ?i) @ kind # ci_queue ?i)" "length (ci_buffer ?i) \<le> kind_cap kind"
    "pieces_fit (ci_pieces ?i)"
    using assms Some tk by (simp_all add: wf_clip_def wf_incoming_def)
  have "sum_list (map (\<lambda>p. length (pc_bytes p)) (ci_pieces ?i)) \<le> sum_list (map (\<lambda>p. kind_cap (pc_kind p)) (ci_pieces ?i))"
    using i(3) by (intro sum_list_mono) (simp add: pieces_fit_def)
  also have "\<dots> + kind_cap kind \<le> sum_list (map kind_cap (map pc_kind (ci_pieces ?i) @ kind # ci_queue ?i))"
    by (simp add: comp_def)
  finally show ?thesis using selection_cost [OF i(1)] i(2) by (simp add: held_bytes_def)
qed

text \<open>Every call keeps the exchange well formed and asks only for what is allowed.\<close>

lemma kept_cancel_outgoing: "wf_clip x \<Longrightarrow> clip_kept (clip_cancel_outgoing reason x)"
  by (auto simp: clip_kept_def clip_cancel_outgoing_def wf_clip_def split: option.splits)

lemma wf_clip_forget: "wf_clip x \<Longrightarrow> wf_clip (clip_forget_incoming x)"
  by (simp add: wf_clip_def clip_forget_incoming_def)

lemma forget_cancel_incoming:
  "clip_forget_incoming (snd (clip_cancel_incoming reason x)) = clip_forget_incoming x"
  by (simp add: clip_cancel_incoming_def clip_forget_incoming_def split: option.split)

lemma ops_cancel_incoming: "list_all op_ok (fst (clip_cancel_incoming reason x))"
  by (simp add: clip_cancel_incoming_def split: option.split)

lemma kept_forget_cancel:
  assumes "wf_clip x"
  shows "clip_kept (case clip_cancel_incoming reason x of (ops, x1) \<Rightarrow> (ops, clip_forget_incoming x1))"
  using forget_cancel_incoming [of reason x] ops_cancel_incoming [of reason x] wf_clip_forget [OF assms]
  by (cases "clip_cancel_incoming reason x") (simp add: clip_kept_def)

lemma kept_local_offer:
  assumes "wf_clip x"
  shows "clip_kept (clip_local_offer kinds now x)"
proof -
  obtain ops x1 where x1: "clip_cancel_outgoing Superseded x = (ops, x1)" by force
  then have "wf_clip x1" "list_all op_ok ops" using kept_cancel_outgoing [OF assms, of Superseded] by (simp_all add: clip_kept_def)
  then show ?thesis using x1 by (auto simp: clip_local_offer_def clip_kept_def wf_clip_def Let_def list_all_iff)
qed

lemma kept_peer_request:
  assumes "wf_clip x"
  shows "clip_kept (clip_peer_request serial mime transfer now x)"
proof -
  obtain ops x1 where x1: "clip_cancel_outgoing Superseded x = (ops, x1)" by force
  then have "wf_clip x1" "list_all op_ok ops" using kept_cancel_outgoing [OF assms, of Superseded] by (simp_all add: clip_kept_def)
  then show ?thesis
    using x1 assms by (auto simp: clip_peer_request_def clip_kept_def wf_clip_def split: option.splits)
qed

lemma ops_clip_chunks: "list_all op_ok (clip_chunks transfer bs)"
  by (induction transfer bs rule: clip_chunks.induct) (subst clip_chunks.simps, auto simp: Let_def)

lemma kept_produced:
  assumes "wf_clip x"
  shows "clip_kept (clip_produced transfer bs now x)"
  using assms ops_clip_chunks by (auto simp: clip_produced_def clip_kept_def wf_clip_def split: option.splits)

lemma kept_unavailable:
  assumes "wf_clip x"
  shows "clip_kept (clip_unavailable transfer x)"
  using assms by (auto simp: clip_unavailable_def clip_kept_def wf_clip_def split: option.splits)

lemma kept_request_next:
  assumes "selection (map pc_kind (ci_pieces (cx_incoming x)) @ ci_queue (cx_incoming x))"
    and "pieces_fit (ci_pieces (cx_incoming x))" "ci_queue (cx_incoming x) \<noteq> []" "ci_serial (cx_incoming x) \<noteq> None"
    and "co_transfer (cx_outgoing x) \<noteq> None \<longrightarrow> co_since (cx_outgoing x) \<noteq> None"
  shows "clip_kept (clip_request_next now x)"
  using assms
  by (cases "ci_queue (cx_incoming x)")
     (auto simp: clip_request_next_def clip_kept_def wf_clip_def wf_incoming_def Let_def)

lemma peer_offer_eq:
  "clip_peer_offer serial mimes now x =
     (let ks = wanted (List.map_filter kind_from_mime (take MAX_MIME_TYPES mimes));
          ops = fst (clip_cancel_incoming Superseded x); x2 = clip_forget_incoming x in
      if ks = [] then (ops, x2)
      else let (more, x4) = clip_request_next now
             (x2\<lparr>cx_incoming := (cx_incoming x2)\<lparr>ci_serial := Some serial, ci_queue := ks\<rparr>\<rparr>) in
        (ops @ more, x4))"
  using forget_cancel_incoming [of Superseded x]
  by (cases "clip_cancel_incoming Superseded x") (simp add: clip_peer_offer_def wanted_def Let_def)

lemma kept_peer_offer:
  assumes "wf_clip x"
  shows "clip_kept (clip_peer_offer serial mimes now x)"
proof -
  let ?ks = "wanted (List.map_filter kind_from_mime (take MAX_MIME_TYPES mimes))"
  let ?x2 = "clip_forget_incoming x"
  let ?x3 = "?x2\<lparr>cx_incoming := (cx_incoming ?x2)\<lparr>ci_serial := Some serial, ci_queue := ?ks\<rparr>\<rparr>"
  have "clip_kept (clip_request_next now ?x3)" if "?ks \<noteq> []"
    using that assms
    by (intro kept_request_next)
       (simp_all add: clip_forget_incoming_def clip_incoming_empty_def wf_clip_def pieces_fit_def)
  then show ?thesis
    using wf_clip_forget [OF assms] ops_cancel_incoming [of Superseded x]
    by (auto simp: peer_offer_eq clip_kept_def Let_def split: prod.splits)
qed

lemma kept_peer_data:
  assumes "wf_clip x"
  shows "clip_kept (clip_peer_data transfer chunk final now x)"
proof (cases "ci_transfer (cx_incoming x)")
  case None
  then show ?thesis using assms by (simp add: clip_peer_data_def clip_kept_def)
next
  case (Some tk)
  obtain current kind where tk: "tk = (current, kind)" by force
  let ?i = "cx_incoming x"
  consider (other) "current \<noteq> transfer" | (large) "current = transfer" "kind_cap kind < length (ci_buffer ?i) + length chunk"
    | (fits) "current = transfer" "length (ci_buffer ?i) + length chunk \<le> kind_cap kind" by linarith
  then show ?thesis
  proof cases
    case other
    then show ?thesis using assms Some tk by (simp add: clip_peer_data_def clip_kept_def)
  next
    case large
    then show ?thesis using Some tk kept_forget_cancel [OF assms, of TooLargeTransfer] by (simp add: clip_peer_data_def)
  next
    case fits
    let ?x2 = "x\<lparr>cx_incoming := ?i\<lparr>ci_buffer := [], ci_pieces := ci_pieces ?i @
      [\<lparr>pc_kind = kind, pc_bytes = ci_buffer ?i @ chunk\<rparr>], ci_transfer := None, ci_since := None\<rparr>\<rparr>"
    have i: "selection (map pc_kind (ci_pieces ?i) @ kind # ci_queue ?i)" "pieces_fit (ci_pieces ?i)"
      "ci_serial ?i \<noteq> None" "co_transfer (cx_outgoing x) \<noteq> None \<longrightarrow> co_since (cx_outgoing x) \<noteq> None"
      using assms Some tk by (simp_all add: wf_clip_def wf_incoming_def)
    have fit: "pieces_fit (ci_pieces ?i @ [\<lparr>pc_kind = kind, pc_bytes = ci_buffer ?i @ chunk\<rparr>])"
      using i(2) fits(2) by (simp add: pieces_fit_def)
    show ?thesis
    proof (cases "ci_queue ?i")
      case Nil
      then show ?thesis
        using fits i fit Some tk assms
        by (auto simp: clip_peer_data_def clip_request_next_def clip_kept_def wf_clip_def wf_incoming_def
            clip_incoming_empty_def Let_def)
    next
      case (Cons k queue)
      have "clip_kept (clip_request_next now ?x2)"
        using i fit Cons by (intro kept_request_next) simp_all
      moreover have "clip_kept ([], x\<lparr>cx_incoming := ?i\<lparr>ci_buffer := ci_buffer ?i @ chunk, ci_since := Some now\<rparr>\<rparr>)"
        using i fits Some tk by (simp add: clip_kept_def wf_clip_def wf_incoming_def)
      ultimately show ?thesis
        using Cons fits i(3) Some tk
        by (auto simp: clip_peer_data_def clip_request_next_def Let_def)
    qed
  qed
qed

lemma kept_peer_cancel:
  assumes "wf_clip x"
  shows "clip_kept (clip_peer_cancel transfer x)"
  using assms wf_clip_forget [OF assms] by (simp add: clip_peer_cancel_def clip_kept_def wf_clip_def)

lemma kept_focus_lost:
  assumes "wf_clip x"
  shows "clip_kept (clip_focus_lost x)"
proof -
  obtain ops x1 where x1: "clip_cancel_outgoing FocusLost x = (ops, x1)" by force
  then have "wf_clip x1" "list_all op_ok ops" using kept_cancel_outgoing [OF assms, of FocusLost] by (simp_all add: clip_kept_def)
  then show ?thesis using kept_forget_cancel [of x1 FocusLost] x1
    by (auto simp: clip_focus_lost_def clip_kept_def split: prod.splits)
qed

lemma kept_tick:
  assumes "wf_clip x"
  shows "clip_kept (clip_tick now x)"
proof -
  obtain ops x1 where x1: "(if co_transfer (cx_outgoing x) \<noteq> None \<and> quiet (co_since (cx_outgoing x)) now
             then clip_cancel_outgoing TimedOutTransfer x else ([], x)) = (ops, x1)" by force
  then have "wf_clip x1" "list_all op_ok ops"
    using kept_cancel_outgoing [OF assms, of TimedOutTransfer] assms by (auto simp: clip_kept_def split: if_splits)
  then show ?thesis using kept_forget_cancel [of x1 TimedOutTransfer] x1
    by (auto simp: clip_tick_def clip_kept_def Let_def split: prod.splits)
qed

lemma kept_perform: "wf_clip x \<Longrightarrow> clip_kept (clip_perform call x)"
  by (cases call)
     (simp_all add: kept_local_offer kept_peer_request kept_produced kept_unavailable kept_peer_offer
       kept_peer_data kept_peer_cancel kept_focus_lost kept_tick)

lemma kept_run: "wf_clip x \<Longrightarrow> clip_kept (clip_run calls x)"
proof (induction calls arbitrary: x)
  case (Cons call calls)
  obtain ops x1 where x1: "clip_perform call x = (ops, x1)" by force
  then have "wf_clip x1" "list_all op_ok ops" using kept_perform [OF Cons.prems, of call] by (simp_all add: clip_kept_def)
  then show ?case using Cons.IH [of x1] x1 by (auto simp: clip_kept_def split: prod.splits)
qed (simp add: clip_kept_def)

section \<open>A selection crosses\<close>

text \<open>The chunks of one transfer, read by the side that asked for them.\<close>

fun clip_feed :: "nat \<Rightarrow> clip_op list \<Rightarrow> clip_exchange \<Rightarrow> clip_op list \<times> clip_exchange" where
  "clip_feed now [] x = ([], x)"
| "clip_feed now (ClipSend (ClipData transfer chunk final) # ops) x =
     (let (out, x1) = clip_peer_data transfer chunk final now x; (more, x2) = clip_feed now ops x1 in
      (out @ more, x2))"
| "clip_feed now (_ # ops) x = clip_feed now ops x"

text \<open>Cut into chunks or whole, a transfer arrives as the same thing.\<close>

lemma clip_feed_chunks:
  assumes "ci_transfer (cx_incoming x) = Some (transfer, kind)"
    and "length (ci_buffer (cx_incoming x)) + length bs \<le> kind_cap kind"
  shows "clip_feed now (clip_chunks transfer bs) x = clip_peer_data transfer bs True now x"
  using assms
proof (induction transfer bs arbitrary: x rule: clip_chunks.induct)
  case (1 transfer bs)
  show ?case
  proof (cases "length bs \<le> CHUNK")
    case True
    then show ?thesis by (subst clip_chunks.simps) (simp split: prod.split)
  next
    case False
    let ?n = "min (length bs) CHUNK"
    let ?i = "cx_incoming x"
    let ?x1 = "x\<lparr>cx_incoming := ?i\<lparr>ci_buffer := ci_buffer ?i @ take CHUNK bs, ci_since := Some now\<rparr>\<rparr>"
    have n: "?n = CHUNK" "drop CHUNK bs \<noteq> []" using False by auto
    have "\<not> kind_cap kind < length (ci_buffer ?i) + min (length bs) CHUNK" using "1.prems"(2) by linarith
    then have step: "clip_peer_data transfer (take CHUNK bs) False now x = ([], ?x1)"
      using "1.prems" by (simp add: clip_peer_data_def)
    have "clip_feed now (clip_chunks transfer bs) x = clip_feed now (clip_chunks transfer (drop CHUNK bs)) ?x1"
      using n step by (subst clip_chunks.simps) (simp add: Let_def split: prod.split)
    also have "\<dots> = clip_peer_data transfer (drop CHUNK bs) True now ?x1"
      using "1.IH" [OF refl, of "drop CHUNK bs"] "1.prems" n False by (simp add: min_def)
    also have "\<dots> = clip_peer_data transfer bs True now x"
    proof -
      have "length (ci_buffer ?i) + length (take CHUNK bs) + length (drop CHUNK bs) \<le> kind_cap kind"
        using "1.prems"(2) False by simp
      then show ?thesis
        using "1.prems" by (simp add: clip_peer_data_def clip_request_next_def)
    qed
    finally show ?thesis .
  qed
qed

text \<open>
  The rounds of one paste: each request is put to the side that made the offer, which fetches
  what its selection holds; what it sends is read, and that gives the next request or the end.
  A selection has at most three rounds and one end.
\<close>

fun clip_pull ::
  "(Kind \<Rightarrow> bytes) \<Rightarrow> nat \<Rightarrow> nat \<Rightarrow> clip_exchange \<Rightarrow> clip_exchange \<Rightarrow> clip_op list \<Rightarrow> piece list option" where
  "clip_pull contents now 0 a b ops = None"
| "clip_pull contents now (Suc n) a b ops =
     (case ops of
        [ClipApply pieces] \<Rightarrow> Some pieces
      | [ClipSend (ClipRequest serial mime transfer)] \<Rightarrow>
          (case clip_peer_request serial mime transfer now a of
             ([ClipProduce kind t], a1) \<Rightarrow>
               let (data, a2) = clip_produced t (contents kind) now a1; (ops', b1) = clip_feed now data b in
               clip_pull contents now n a2 b1 ops'
           | _ \<Rightarrow> None)
      | _ \<Rightarrow> None)"

lemma clip_pull_rounds:
  assumes "\<And>k. length (contents k) \<le> kind_cap k"
    and "co_transfer (cx_outgoing a) = None" "co_serial (cx_outgoing a) = serial"
    and "ci_transfer (cx_incoming b) = Some (transfer, kind)" "ci_serial (cx_incoming b) = Some serial"
    and "ci_queue (cx_incoming b) = queue" "ci_buffer (cx_incoming b) = []"
    and "ci_pieces (cx_incoming b) = map (\<lambda>k. \<lparr>pc_kind = k, pc_bytes = contents k\<rparr>) pulled"
  shows "clip_pull contents now (Suc (Suc (length queue))) a b [ClipSend (ClipRequest serial (kind_mime kind) transfer)] =
    Some (map (\<lambda>k. \<lparr>pc_kind = k, pc_bytes = contents k\<rparr>) (pulled @ kind # queue))"
  using assms(2-)
proof (induction queue arbitrary: a b transfer kind pulled)
  case Nil
  let ?a1 = "a\<lparr>cx_outgoing := (cx_outgoing a)\<lparr>co_transfer := Some (transfer, kind), co_since := Some now\<rparr>\<rparr>"
  let ?a2 = "a\<lparr>cx_outgoing := (cx_outgoing a)\<lparr>co_transfer := None, co_since := Some now\<rparr>\<rparr>"
  have r: "clip_peer_request serial (kind_mime kind) transfer now a = ([ClipProduce kind transfer], ?a1)"
    using Nil by (simp add: clip_peer_request_def clip_cancel_outgoing_def)
  have p: "clip_produced transfer (contents kind) now ?a1 = (clip_chunks transfer (contents kind), ?a2)"
    using assms(1) [of kind] by (simp add: clip_produced_def)
  have f: "clip_feed now (clip_chunks transfer (contents kind)) b = clip_peer_data transfer (contents kind) True now b"
    using Nil assms(1) [of kind] by (intro clip_feed_chunks) simp_all
  show ?case
    using Nil assms(1) [of kind] by (simp add: r p f clip_peer_data_def clip_request_next_def)
next
  case (Cons k queue)
  let ?a1 = "a\<lparr>cx_outgoing := (cx_outgoing a)\<lparr>co_transfer := Some (transfer, kind), co_since := Some now\<rparr>\<rparr>"
  let ?a2 = "a\<lparr>cx_outgoing := (cx_outgoing a)\<lparr>co_transfer := None, co_since := Some now\<rparr>\<rparr>"
  let ?b1 = "b\<lparr>cx_next_transfer := cx_next_transfer b + 1, cx_incoming := (cx_incoming b)\<lparr>ci_buffer := [],
    ci_pieces := map (\<lambda>k. \<lparr>pc_kind = k, pc_bytes = contents k\<rparr>) (pulled @ [kind]), ci_queue := queue,
    ci_transfer := Some (cx_next_transfer b, k), ci_since := Some now\<rparr>\<rparr>"
  have r: "clip_peer_request serial (kind_mime kind) transfer now a = ([ClipProduce kind transfer], ?a1)"
    using Cons.prems by (simp add: clip_peer_request_def clip_cancel_outgoing_def)
  have p: "clip_produced transfer (contents kind) now ?a1 = (clip_chunks transfer (contents kind), ?a2)"
    using assms(1) [of kind] by (simp add: clip_produced_def)
  have f: "clip_feed now (clip_chunks transfer (contents kind)) b =
      ([ClipSend (ClipRequest serial (kind_mime k) (cx_next_transfer b))], ?b1)"
    using Cons.prems assms(1) [of kind]
    by (subst clip_feed_chunks) (simp_all add: clip_peer_data_def clip_request_next_def Let_def)
  have "clip_pull contents now (Suc (Suc (length queue))) ?a2 ?b1
      [ClipSend (ClipRequest serial (kind_mime k) (cx_next_transfer b))] =
      Some (map (\<lambda>k. \<lparr>pc_kind = k, pc_bytes = contents k\<rparr>) ((pulled @ [kind]) @ k # queue))"
    using Cons.prems by (intro Cons.IH) simp_all
  then show ?case by (simp add: r p f)
qed

text \<open>An offer of one side, answered by the other, ends with the selection on its clipboard.\<close>

lemma length_wanted: "length (wanted ks) \<le> 3"
  using selection_cases [OF selection_wanted [of ks]] by auto

lemma map_filter_mimes: "List.map_filter kind_from_mime (map kind_mime ks) = ks"
  by (induction ks) (simp_all add: List.map_filter_simps)

lemma length_ordered: "length (ordered ks) \<le> 4"
  unfolding ordered_def using length_filter_le [of _ ORDER] by (simp add: ORDER_def)

lemma wanted_ordered: "wanted (ordered ks) = wanted ks"
proof -
  have "ordered (ordered ks) = ordered ks" by (rule ordered_cong) simp
  then show ?thesis by (simp add: wanted_def)
qed

lemma clip_pull_mono:
  "clip_pull contents now n a b ops = Some ps \<Longrightarrow> n \<le> m \<Longrightarrow> clip_pull contents now m a b ops = Some ps"
proof (induction n arbitrary: m a b ops)
  case (Suc n)
  then obtain m' where m: "m = Suc m'" "n \<le> m'" by (cases m) auto
  show ?case
    using Suc.prems(1) Suc.IH m
    by (auto simp: m(1) Let_def split: list.splits clip_op.splits clip_message.splits prod.splits)
qed simp

lemma wanted_nonempty: "kinds \<noteq> [] \<Longrightarrow> wanted kinds \<noteq> []"
proof
  assume "kinds \<noteq> []" "wanted kinds = []"
  then have "(if Bmp \<in> set kinds then set kinds - {Png} else set kinds) = {}"
    using set_wanted [of kinds] by simp
  with \<open>kinds \<noteq> []\<close> show False by (cases "Bmp \<in> set kinds") auto
qed

lemma clip_selection_crosses:
  assumes "\<And>k. length (contents k) \<le> kind_cap k" "kinds \<noteq> []"
    and "clip_local_offer kinds now a = (ops, a1)"
  shows "\<exists>serial mimes. last ops = ClipSend (ClipOffer serial mimes) \<and>
    (let (out, b1) = clip_peer_offer serial mimes now b in
     clip_pull contents now 4 a1 b1 [last out] =
       Some (map (\<lambda>k. \<lparr>pc_kind = k, pc_bytes = contents k\<rparr>) (wanted kinds)))"
proof -
  obtain ops0 a0 where a0: "clip_cancel_outgoing Superseded a = (ops0, a0)" by force
  have none: "co_transfer (cx_outgoing a0) = None"
    using a0 by (auto simp: clip_cancel_outgoing_def split: option.splits)
  let ?serial = "co_serial (cx_outgoing a0) + 1"
  let ?mimes = "map kind_mime (ordered kinds)"
  have a1: "a1 = a0\<lparr>cx_outgoing := (cx_outgoing a0)\<lparr>co_serial := ?serial, co_since := Some now\<rparr>\<rparr>"
    and last: "last ops = ClipSend (ClipOffer ?serial ?mimes)"
    using assms(3) a0 by (auto simp: clip_local_offer_def Let_def)
  have ks: "wanted (List.map_filter kind_from_mime (take MAX_MIME_TYPES ?mimes)) = wanted kinds"
    using length_ordered [of kinds] by (simp add: MAX_MIME_TYPES_def map_filter_mimes wanted_ordered)
  have "wanted kinds \<noteq> []" by (rule wanted_nonempty [OF assms(2)])
  then obtain kind queue where kq: "wanted kinds = kind # queue" by (cases "wanted kinds") auto
  let ?b1 = "(clip_forget_incoming b)\<lparr>cx_next_transfer := cx_next_transfer b + 1,
    cx_incoming := clip_incoming_empty\<lparr>ci_serial := Some ?serial, ci_queue := queue,
      ci_transfer := Some (cx_next_transfer b, kind), ci_since := Some now\<rparr>\<rparr>"
  have offered: "clip_peer_offer ?serial ?mimes now b = (fst (clip_cancel_incoming Superseded b) @
      [ClipSend (ClipRequest ?serial (kind_mime kind) (cx_next_transfer b))], ?b1)"
    using ks kq by (simp add: peer_offer_eq clip_request_next_def clip_forget_incoming_def
        clip_incoming_empty_def Let_def)
  have rounds: "clip_pull contents now (Suc (Suc (length queue))) a1 ?b1
      [ClipSend (ClipRequest ?serial (kind_mime kind) (cx_next_transfer b))] =
      Some (map (\<lambda>k. \<lparr>pc_kind = k, pc_bytes = contents k\<rparr>) ([] @ kind # queue))"
    using none by (intro clip_pull_rounds [OF assms(1)]) (simp_all add: a1 clip_incoming_empty_def)
  have "Suc (Suc (length queue)) \<le> 4" using length_wanted [of kinds] kq by simp
  then have "clip_pull contents now 4 a1 ?b1 [ClipSend (ClipRequest ?serial (kind_mime kind) (cx_next_transfer b))] =
      Some (map (\<lambda>k. \<lparr>pc_kind = k, pc_bytes = contents k\<rparr>) (wanted kinds))"
    using clip_pull_mono [OF rounds] kq by simp
  then show ?thesis using last offered by auto
qed

section \<open>Transfers that end early\<close>

definition idle_exchange :: "clip_exchange \<Rightarrow> bool" where
  "idle_exchange x \<longleftrightarrow> co_transfer (cx_outgoing x) = None \<and> cx_incoming x = clip_incoming_empty"

lemma clip_focus_lost_idle: "idle_exchange (snd (clip_focus_lost x))"
proof -
  obtain ops x1 where x1: "clip_cancel_outgoing FocusLost x = (ops, x1)" by force
  have "co_transfer (cx_outgoing x1) = None"
    using x1 by (auto simp: clip_cancel_outgoing_def split: option.splits)
  moreover have "snd (clip_focus_lost x) = clip_forget_incoming x1"
    using x1 forget_cancel_incoming [of FocusLost x1]
    by (cases "clip_cancel_incoming FocusLost x1") (simp add: clip_focus_lost_def)
  ultimately show ?thesis by (simp add: idle_exchange_def clip_forget_incoming_def)
qed

text \<open>After a tick nothing in flight has been quiet for longer than it may.\<close>

lemma clip_tick_quiet:
  assumes "clip_tick now x = (ops, x')"
  shows "(co_transfer (cx_outgoing x') \<noteq> None \<longrightarrow> \<not> quiet (co_since (cx_outgoing x')) now) \<and>
    (ci_transfer (cx_incoming x') \<noteq> None \<longrightarrow> \<not> quiet (ci_since (cx_incoming x')) now)"
proof -
  let ?first = "if co_transfer (cx_outgoing x) \<noteq> None \<and> quiet (co_since (cx_outgoing x)) now
    then clip_cancel_outgoing TimedOutTransfer x else ([], x)"
  obtain ops1 x1 where x1: "?first = (ops1, x1)" by force
  then have out: "co_transfer (cx_outgoing x1) \<noteq> None \<longrightarrow> \<not> quiet (co_since (cx_outgoing x1)) now"
    by (auto simp: clip_cancel_outgoing_def split: if_splits option.splits)
  let ?second = "if ci_transfer (cx_incoming x1) \<noteq> None \<and> quiet (ci_since (cx_incoming x1)) now
    then clip_forget_incoming (snd (clip_cancel_incoming TimedOutTransfer x1)) else x1"
  have "x' = ?second" using assms x1 by (auto simp: clip_tick_def Let_def split: if_splits prod.splits)
  then show ?thesis
    using out unfolding forget_cancel_incoming by (simp add: clip_forget_incoming_def clip_incoming_empty_def)
qed

text \<open>
  Each side numbers the transfers it asks for, both from one, and \<open>peer_cancel\<close> looks at the
  incoming transfer first: when a transfer of either direction has the number, the cancellation
  of the one being served ends the one being pulled.
\<close>

lemma clip_cancel_collision:
  assumes "ci_transfer (cx_incoming x) = Some (transfer, kind)" "co_transfer (cx_outgoing x) = Some (transfer, kind')"
  shows "clip_peer_cancel transfer x = ([], clip_forget_incoming x) \<and>
    co_transfer (cx_outgoing (clip_forget_incoming x)) = Some (transfer, kind')"
  using assms by (simp add: clip_peer_cancel_def clip_forget_incoming_def)

end
