(* ===== verification/Wire_Path.thy ===== *)
theory Wire_Path
  imports Unicode_Text
begin

text \<open>
  Whether a path from a peer may become a path here
  (\<open>display-protocol/src/clipboard/path.rs\<close>). \<open>str::to_lowercase\<close> is Unicode's table of cases and a
  parameter, \<open>lower\<close>.
\<close>

section \<open>Definitions\<close>

definition MAX_PATH_BYTES :: nat where "MAX_PATH_BYTES = 1024"
definition MAX_DEPTH :: nat where "MAX_DEPTH = 64"

definition RESERVED :: "utext list" where
  "RESERVED = map utext_of [''CON'', ''PRN'', ''AUX'', ''NUL'']"

definition RESERVED_NUMBERED :: "utext list" where
  "RESERVED_NUMBERED = map utext_of [''COM'', ''LPT'']"

text \<open>The characters \<open><\<close>, \<open>>\<close>, the double quote, the bar and the asterisk.\<close>

definition FORBIDDEN :: "nat list" where
  "FORBIDDEN = [60, 62, 34, 124, 42]"

datatype PathError =
    PathEmpty
  | PathTooLong nat nat
  | PathTooDeep nat nat
  | PathAbsolute
  | PathTraversal
  | PathDot
  | PathEmptyComponent
  | PathNul
  | PathControl
  | PathSeparator
  | PathColon
  | PathForbidden
  | PathTrailingDotOrSpace
  | PathReserved

definition check_character :: "nat \<Rightarrow> PathError option" where
  "check_character c =
     (if c = 0 then Some PathNul
      else if c = 92 then Some PathSeparator
      else if c = 58 then Some PathColon
      else if is_control c then Some PathControl
      else if c = 63 then Some PathForbidden
      else if c \<in> set FORBIDDEN then Some PathForbidden
      else None)"

fun check_characters :: "utext \<Rightarrow> (PathError, unit) outcome" where
  "check_characters [] = Ok ()"
| "check_characters (c # cs) =
     (case check_character c of Some err \<Rightarrow> Err err | None \<Rightarrow> check_characters cs)"

definition is_reserved :: "utext \<Rightarrow> bool" where
  "is_reserved component =
     (let stem = map ascii_upper (before 46 component) in
      stem \<in> set RESERVED \<or>
      (\<exists>family \<in> set RESERVED_NUMBERED.
         case strip_prefix family stem of
           None \<Rightarrow> False
         | Some rest \<Rightarrow> rest \<in> set (map utext_of [''1'', ''2'', ''3'', ''4'', ''5'', ''6'', ''7'', ''8'', ''9''])))"

definition check_component :: "utext \<Rightarrow> (PathError, unit) outcome" where
  "check_component component =
     obind (check_characters component) (\<lambda>_.
       if component = [] then Err PathEmptyComponent
       else if component = utext_of ''.'' then Err PathDot
       else if component = utext_of ''..'' then Err PathTraversal
       else if ends_with 46 component \<or> ends_with 32 component then Err PathTrailingDotOrSpace
       else if is_reserved component then Err PathReserved
       else Ok ())"

fun check_components :: "utext list \<Rightarrow> (PathError, unit) outcome" where
  "check_components [] = Ok ()"
| "check_components (c # cs) = obind (check_component c) (\<lambda>_. check_components cs)"

record validated_path =
  vp_path :: utext
  vp_key :: utext

definition path_parse :: "(utext \<Rightarrow> utext) \<Rightarrow> utext \<Rightarrow> (PathError, validated_path) outcome" where
  "path_parse lower path =
     (if path = [] then Err PathEmpty
      else if utf8_len path > MAX_PATH_BYTES then Err (PathTooLong (utf8_len path) MAX_PATH_BYTES)
      else if hd path = 47 then Err PathAbsolute
      else let components = split_at 47 path in
        if length components > MAX_DEPTH then Err (PathTooDeep (length components) MAX_DEPTH)
        else obind (check_components components) (\<lambda>_.
          Ok \<lparr>vp_path = path, vp_key = join_with 47 (map lower components)\<rparr>))"

definition path_components :: "validated_path \<Rightarrow> utext list" where
  "path_components v = split_at 47 (vp_path v)"

definition path_depth :: "validated_path \<Rightarrow> nat" where
  "path_depth v = length (split_at 47 (vp_path v))"

section \<open>What a checked component is\<close>

text \<open>A name Windows resolves to a device, in any case and with any extension.\<close>

definition device_name :: "utext \<Rightarrow> bool" where
  "device_name name \<longleftrightarrow> (\<exists>stem extension. (name = stem \<or> name = stem @ 46 # extension) \<and>
     (map ascii_upper stem \<in> set RESERVED \<or>
      (\<exists>family \<in> set RESERVED_NUMBERED. \<exists>digit \<in> {49 .. 57}. map ascii_upper stem = family @ [digit])))"

definition safe_component :: "utext \<Rightarrow> bool" where
  "safe_component c \<longleftrightarrow> c \<noteq> [] \<and> c \<noteq> utext_of ''.'' \<and> c \<noteq> utext_of ''..'' \<and>
     (\<forall>x \<in> set c. x \<noteq> 92 \<and> x \<noteq> 58 \<and> x \<noteq> 63 \<and> \<not> is_control x \<and> x \<notin> set FORBIDDEN) \<and>
     last c \<noteq> 46 \<and> last c \<noteq> 32 \<and> \<not> device_name c"

lemma check_character_None:
  "check_character c = None \<longleftrightarrow>
     c \<noteq> 92 \<and> c \<noteq> 58 \<and> c \<noteq> 63 \<and> \<not> is_control c \<and> c \<notin> set FORBIDDEN"
  by (auto simp: check_character_def is_control_def)

lemma check_characters_Ok: "check_characters cs = Ok () \<longleftrightarrow> (\<forall>c \<in> set cs. check_character c = None)"
  by (induction cs) (auto split: option.splits)

lemma before_eq: "(\<exists>rest. t = s \<and> sep \<notin> set s \<or> t = s @ sep # rest \<and> sep \<notin> set s) \<longleftrightarrow> s = before sep t"
proof (induction t arbitrary: s)
  case Nil
  then show ?case by auto
next
  case (Cons c t)
  show ?case
  proof (cases s)
    case Nil
    then show ?thesis by auto
  next
    case (Cons d s')
    then show ?thesis using Cons.IH [of s'] by auto
  qed
qed

lemma ascii_upper_dot: "ascii_upper c = 46 \<longleftrightarrow> c = 46"
  by (auto simp: ascii_upper_def)

lemma reserved_stem_no_dot:
  assumes "map ascii_upper stem \<in> set RESERVED \<or>
    (\<exists>family \<in> set RESERVED_NUMBERED. \<exists>digit \<in> {49 .. 57}. map ascii_upper stem = family @ [digit])"
  shows "46 \<notin> set stem"
proof
  assume "46 \<in> set stem"
  then have "46 \<in> set (map ascii_upper stem)" using ascii_upper_dot by force
  then show False
    using assms by (auto simp: RESERVED_def RESERVED_NUMBERED_def utext_of_def)
qed

lemma digit_strings:
  "rest \<in> set (map utext_of [''1'', ''2'', ''3'', ''4'', ''5'', ''6'', ''7'', ''8'', ''9'']) \<longleftrightarrow>
   (\<exists>digit \<in> {49 .. 57}. rest = [digit])"
proof -
  have "{49 .. 57 :: nat} = {49, 50, 51, 52, 53, 54, 55, 56, 57}" by auto
  then show ?thesis by (auto simp: utext_of_def)
qed

lemma is_reserved_iff: "is_reserved c \<longleftrightarrow> device_name c"
proof -
  let ?R = "\<lambda>stem. map ascii_upper stem \<in> set RESERVED \<or>
    (\<exists>family \<in> set RESERVED_NUMBERED. \<exists>digit \<in> {49 .. 57}. map ascii_upper stem = family @ [digit])"
  have "is_reserved c \<longleftrightarrow> ?R (before 46 c)"
    unfolding is_reserved_def Let_def digit_strings
    by (auto simp: strip_prefix_iff split: option.splits)
  also have "\<dots> \<longleftrightarrow> device_name c"
    unfolding device_name_def using before_eq [of c _ 46] reserved_stem_no_dot by metis
  finally show ?thesis .
qed

lemma check_component_Ok: "check_component c = Ok () \<longleftrightarrow> safe_component c"
  by (auto simp: check_component_def safe_component_def check_characters_Ok check_character_None
      is_reserved_iff ends_with_def)

lemma check_components_Ok: "check_components cs = Ok () \<longleftrightarrow> list_all safe_component cs"
  by (induction cs) (auto simp: check_component_Ok)

text \<open>The checks accept exactly the paths the rules describe.\<close>

lemma path_parse_Ok:
  "path_parse lower path = Ok v \<longleftrightarrow>
     path \<noteq> [] \<and> utf8_len path \<le> MAX_PATH_BYTES \<and> hd path \<noteq> 47 \<and>
     length (split_at 47 path) \<le> MAX_DEPTH \<and> list_all safe_component (split_at 47 path) \<and>
     v = \<lparr>vp_path = path, vp_key = join_with 47 (map lower (split_at 47 path))\<rparr>"
  by (auto simp: path_parse_def check_components_Ok Let_def)

definition acceptable_path :: "utext \<Rightarrow> bool" where
  "acceptable_path path \<longleftrightarrow> path \<noteq> [] \<and> hd path \<noteq> 47 \<and> utf8_len path \<le> MAX_PATH_BYTES \<and>
     length (split_at 47 path) \<le> MAX_DEPTH \<and> list_all safe_component (split_at 47 path)"

lemma check_characters_not_Panic [simp]: "check_characters cs \<noteq> Panic"
  by (induction cs) (auto split: option.splits)

lemma check_component_not_Panic [simp]: "check_component c \<noteq> Panic"
  by (auto simp: check_component_def obind_eq_Panic_iff)

lemma check_components_not_Panic [simp]: "check_components cs \<noteq> Panic"
  by (induction cs) (auto simp: obind_eq_Panic_iff)

lemma path_parse_not_Panic [simp]: "path_parse lower path \<noteq> Panic"
  by (auto simp: path_parse_def obind_eq_Panic_iff Let_def)

section \<open>Where a checked path leads\<close>

text \<open>
  Opening a path's components one after the other, as a file system reads them: an empty
  component and a dot stay, two dots go up, and anything else goes down. A directory is the
  list of names from the root of the file system.
\<close>

fun walk :: "utext list \<Rightarrow> utext list \<Rightarrow> utext list" where
  "walk dir [] = dir"
| "walk dir (c # cs) =
     walk (if c = [] \<or> c = utext_of ''.'' then dir
           else if c = utext_of ''..'' then butlast dir else dir @ [c]) cs"

lemma walk_safe: "list_all safe_component cs \<Longrightarrow> walk dir cs = dir @ cs"
  by (induction cs arbitrary: dir) (auto simp: safe_component_def)

end
