(* ===== verification/Clipboard_Files.thy ===== *)
theory Clipboard_Files
  imports Wire_Path Clipboard_Exchange
begin

text \<open>
  The exchange of file trees (\<open>display-protocol/src/clipboard/files.rs\<close>), which both ends run. As in
  \<open>Clipboard_Exchange\<close>, a call returns the operations its owner must carry out and the exchange it
  leaves. Sizes are \<open>u64\<close> and kept as numbers, with \<open>checked_add\<close> written out; \<open>lower\<close> is the case
  table that \<open>ValidatedPath::parse\<close> uses.
\<close>

section \<open>Limits, messages and operations\<close>

definition MAX_ENTRIES :: nat where "MAX_ENTRIES = 4096"
definition DEFAULT_MAX_FILE_BYTES :: nat where "DEFAULT_MAX_FILE_BYTES = 1024 * 1024 * 1024"
definition DEFAULT_MAX_TRANSFER_BYTES :: nat where "DEFAULT_MAX_TRANSFER_BYTES = 4 * 1024 * 1024 * 1024"
definition DEFAULT_RETENTION_SECONDS :: nat where "DEFAULT_RETENTION_SECONDS = 24 * 60 * 60"

datatype EntryKind = File | Directory

text \<open>The values of \<open>FileEntryKind\<close> in \<open>display.proto\<close>.\<close>

definition entry_kind_from_wire :: "int \<Rightarrow> EntryKind option" where
  "entry_kind_from_wire value = (if value = 1 then Some File else if value = 2 then Some Directory else None)"

fun entry_kind_as_wire :: "EntryKind \<Rightarrow> int" where
  "entry_kind_as_wire File = 1"
| "entry_kind_as_wire Directory = 2"

datatype FileCancelReason =
    FileUnspecified | FileSuperseded | FileTooLarge | FileFocusLost | FileUnavailable | FileTimedOut
  | FileUnsafeEntry | FileInvalidPath | FileIoFailed | FilePolicyRejected

record files_policy =
  max_file_bytes :: nat
  max_transfer_bytes :: nat
  retention_seconds :: nat

definition files_policy_default :: files_policy where
  "files_policy_default = \<lparr>max_file_bytes = DEFAULT_MAX_FILE_BYTES,
     max_transfer_bytes = DEFAULT_MAX_TRANSFER_BYTES, retention_seconds = DEFAULT_RETENTION_SECONDS\<rparr>"

definition narrowed :: "files_policy \<Rightarrow> files_policy \<Rightarrow> files_policy" where
  "narrowed p q = \<lparr>max_file_bytes = min (max_file_bytes p) (max_file_bytes q),
     max_transfer_bytes = min (max_transfer_bytes p) (max_transfer_bytes q),
     retention_seconds = min (retention_seconds p) (retention_seconds q)\<rparr>"

datatype files_message =
    FilePolicy files_policy
  | FileOffer u32
  | FileRequest u32 u32
  | FileEntry u32 utext EntryKind nat
  | FileChunk u32 bytes
  | FileComplete u32
  | FileCancel u32 FileCancelReason

datatype files_op =
    FilesSend files_message
  | Enumerate u32
  | CreateEntry u32 validated_path EntryKind nat
  | WriteChunk u32 bytes
  | Commit u32
  | Abort u32

section \<open>What a transfer has accounted for\<close>

record files_open =
  fo_declared :: nat
  fo_written :: nat

record files_tree =
  ft_entries :: nat
  ft_total :: nat
  ft_open :: "files_open option"
  ft_keys :: "utext set"

definition files_tree_empty :: files_tree where
  "files_tree_empty = \<lparr>ft_entries = 0, ft_total = 0, ft_open = None, ft_keys = {}\<rparr>"

definition checked_add_u64 :: "nat \<Rightarrow> nat \<Rightarrow> nat option" where
  "checked_add_u64 a b = (if a + b < 2 ^ 64 then Some (a + b) else None)"

definition tree_admit :: "(utext \<Rightarrow> utext) \<Rightarrow> utext \<Rightarrow> EntryKind \<Rightarrow> nat \<Rightarrow> files_policy \<Rightarrow> files_tree \<Rightarrow>
  (FileCancelReason, validated_path \<times> files_tree) outcome" where
  "tree_admit lower path kind sz policy tree =
     (if ft_open tree \<noteq> None then Err FileIoFailed
      else case path_parse lower path of
          Panic \<Rightarrow> Panic
        | Err _ \<Rightarrow> Err FileInvalidPath
        | Ok parsed \<Rightarrow>
            if kind = Directory \<and> sz \<noteq> 0 then Err FileUnsafeEntry
            else if ft_entries tree \<ge> MAX_ENTRIES then Err FileTooLarge
            else if sz > max_file_bytes policy then Err FileTooLarge
            else obind (ok_or (checked_add_u64 (ft_total tree) sz) FileTooLarge) (\<lambda>total.
              if total > max_transfer_bytes policy then Err FileTooLarge
              else if vp_key parsed \<in> ft_keys tree then Err FileUnsafeEntry
              else Ok (parsed, tree\<lparr>ft_keys := insert (vp_key parsed) (ft_keys tree),
                ft_entries := ft_entries tree + 1, ft_total := total,
                ft_open := (if kind = File \<and> sz > 0
                  then Some \<lparr>fo_declared = sz, fo_written = 0\<rparr> else ft_open tree)\<rparr>)))"

text \<open>A refusal ends the transfer, and the tree with it.\<close>

definition tree_wrote :: "nat \<Rightarrow> files_tree \<Rightarrow> (FileCancelReason, files_tree) outcome" where
  "tree_wrote len tree =
     (case ft_open tree of
        None \<Rightarrow> Err FileIoFailed
      | Some opened \<Rightarrow>
          obind (ok_or (checked_add_u64 (fo_written opened) len) FileIoFailed) (\<lambda>written.
            if written > fo_declared opened then Err FileIoFailed
            else if written = fo_declared opened then Ok (tree\<lparr>ft_open := None\<rparr>)
            else Ok (tree\<lparr>ft_open := Some (opened\<lparr>fo_written := written\<rparr>)\<rparr>)))"

definition tree_settled :: "files_tree \<Rightarrow> bool" where
  "tree_settled tree \<longleftrightarrow> ft_open tree = None"

section \<open>The exchange\<close>

record files_outgoing =
  fu_serial :: u32
  fu_transfer :: "u32 option"
  fu_since :: "nat option"
  fu_tree :: files_tree

record files_incoming =
  fi_transfer :: "u32 option"
  fi_since :: "nat option"
  fi_tree :: files_tree

record files_exchange =
  fx_policy :: files_policy
  fx_announced :: bool
  fx_heard :: bool
  fx_outgoing :: files_outgoing
  fx_incoming :: files_incoming
  fx_next_transfer :: u32

definition files_new :: "files_policy \<Rightarrow> nat \<Rightarrow> files_exchange" where
  "files_new policy now = \<lparr>fx_policy = policy, fx_announced = False, fx_heard = False,
     fx_outgoing = \<lparr>fu_serial = 0, fu_transfer = None, fu_since = Some now, fu_tree = files_tree_empty\<rparr>,
     fx_incoming = \<lparr>fi_transfer = None, fi_since = Some now, fi_tree = files_tree_empty\<rparr>,
     fx_next_transfer = 1\<rparr>"

definition files_forget_outgoing :: "files_exchange \<Rightarrow> files_exchange" where
  "files_forget_outgoing x = x\<lparr>fx_outgoing := (fx_outgoing x)\<lparr>fu_transfer := None, fu_since := None,
     fu_tree := files_tree_empty\<rparr>\<rparr>"

definition files_forget_incoming :: "files_exchange \<Rightarrow> files_exchange" where
  "files_forget_incoming x = x\<lparr>fx_incoming := (fx_incoming x)\<lparr>fi_transfer := None, fi_since := None,
     fi_tree := files_tree_empty\<rparr>\<rparr>"

definition files_cancel_outgoing ::
  "FileCancelReason \<Rightarrow> files_exchange \<Rightarrow> files_op list \<times> files_exchange" where
  "files_cancel_outgoing reason x =
     (case fu_transfer (fx_outgoing x) of
        Some transfer \<Rightarrow> ([FilesSend (FileCancel transfer reason)], files_forget_outgoing x)
      | None \<Rightarrow> ([], x))"

definition files_cancel_incoming ::
  "FileCancelReason \<Rightarrow> files_exchange \<Rightarrow> files_op list \<times> files_exchange" where
  "files_cancel_incoming reason x =
     (case fi_transfer (fx_incoming x) of
        Some transfer \<Rightarrow>
          ([FilesSend (FileCancel transfer reason), Abort transfer], files_forget_incoming x)
      | None \<Rightarrow> ([], x))"

definition files_peer_policy :: "files_policy \<Rightarrow> files_exchange \<Rightarrow> files_exchange" where
  "files_peer_policy policy x = x\<lparr>fx_policy := narrowed (fx_policy x) policy, fx_heard := True\<rparr>"

definition files_announce :: "files_exchange \<Rightarrow> files_op list \<times> files_exchange" where
  "files_announce x =
     (if fx_announced x then ([], x)
      else ([FilesSend (FilePolicy (fx_policy x))], x\<lparr>fx_announced := True\<rparr>))"

definition files_local_offer :: "nat \<Rightarrow> files_exchange \<Rightarrow> files_op list \<times> files_exchange" where
  "files_local_offer now x =
     (let (stated, x1) =
            (if \<not> fx_announced x then ([FilesSend (FilePolicy (fx_policy x))], x\<lparr>fx_announced := True\<rparr>)
             else ([], x));
          (cancelled, x2) = files_cancel_outgoing FileSuperseded x1;
          serial = fu_serial (fx_outgoing x2) + 1 in
      (stated @ cancelled @ [FilesSend (FileOffer serial)],
       x2\<lparr>fx_outgoing := (fx_outgoing x2)\<lparr>fu_serial := serial, fu_since := Some now\<rparr>\<rparr>))"

definition files_peer_offer :: "u32 \<Rightarrow> nat \<Rightarrow> files_exchange \<Rightarrow> files_op list \<times> files_exchange" where
  "files_peer_offer serial now x =
     (if \<not> fx_heard x then ([], x)
      else let (ops, x1) = files_cancel_incoming FileSuperseded x; transfer = fx_next_transfer x1 in
        (ops @ [FilesSend (FileRequest serial transfer)],
         x1\<lparr>fx_next_transfer := transfer + 1,
           fx_incoming := \<lparr>fi_transfer = Some transfer, fi_since = Some now, fi_tree = files_tree_empty\<rparr>\<rparr>))"

definition files_peer_request :: "u32 \<Rightarrow> u32 \<Rightarrow> nat \<Rightarrow> files_exchange \<Rightarrow> files_op list \<times> files_exchange" where
  "files_peer_request serial transfer now x =
     (if serial \<noteq> fu_serial (fx_outgoing x) then ([FilesSend (FileCancel transfer FileSuperseded)], x)
      else let (ops, x1) = files_cancel_outgoing FileSuperseded x in
        (ops @ [Enumerate transfer],
         x1\<lparr>fx_outgoing := (fx_outgoing x1)\<lparr>fu_transfer := Some transfer, fu_since := Some now,
           fu_tree := files_tree_empty\<rparr>\<rparr>))"

text \<open>A panic of the path check would end the process; \<open>path_parse_not_Panic\<close> excludes it.\<close>

definition files_produced_entry :: "(utext \<Rightarrow> utext) \<Rightarrow> u32 \<Rightarrow> utext \<Rightarrow> EntryKind \<Rightarrow> nat \<Rightarrow> nat \<Rightarrow>
  files_exchange \<Rightarrow> files_op list \<times> files_exchange" where
  "files_produced_entry lower transfer path kind sz now x =
     (if fu_transfer (fx_outgoing x) \<noteq> Some transfer then ([], x)
      else case tree_admit lower path kind sz (fx_policy x) (fu_tree (fx_outgoing x)) of
          Ok (parsed, tree) \<Rightarrow>
            ([FilesSend (FileEntry transfer (vp_path parsed) kind sz)],
             x\<lparr>fx_outgoing := (fx_outgoing x)\<lparr>fu_tree := tree, fu_since := Some now\<rparr>\<rparr>)
        | Err reason \<Rightarrow> files_cancel_outgoing reason x
        | Panic \<Rightarrow> ([], x))"

definition files_produced_chunk :: "u32 \<Rightarrow> bytes \<Rightarrow> nat \<Rightarrow> files_exchange \<Rightarrow> files_op list \<times> files_exchange" where
  "files_produced_chunk transfer chunk now x =
     (if fu_transfer (fx_outgoing x) \<noteq> Some transfer then ([], x)
      else if length chunk > CHUNK then files_cancel_outgoing FileTooLarge x
      else case tree_wrote (length chunk) (fu_tree (fx_outgoing x)) of
          Ok tree \<Rightarrow>
            ([FilesSend (FileChunk transfer chunk)],
             x\<lparr>fx_outgoing := (fx_outgoing x)\<lparr>fu_tree := tree, fu_since := Some now\<rparr>\<rparr>)
        | Err reason \<Rightarrow> files_cancel_outgoing reason x
        | Panic \<Rightarrow> ([], x))"

definition files_produced_complete :: "u32 \<Rightarrow> nat \<Rightarrow> files_exchange \<Rightarrow> files_op list \<times> files_exchange" where
  "files_produced_complete transfer now x =
     (if fu_transfer (fx_outgoing x) \<noteq> Some transfer then ([], x)
      else if \<not> tree_settled (fu_tree (fx_outgoing x)) then files_cancel_outgoing FileIoFailed x
      else ([FilesSend (FileComplete transfer)],
            x\<lparr>fx_outgoing := (fx_outgoing x)\<lparr>fu_transfer := None, fu_since := Some now,
              fu_tree := files_tree_empty\<rparr>\<rparr>))"

definition files_produced_failed ::
  "u32 \<Rightarrow> FileCancelReason \<Rightarrow> files_exchange \<Rightarrow> files_op list \<times> files_exchange" where
  "files_produced_failed transfer reason x =
     (if fu_transfer (fx_outgoing x) \<noteq> Some transfer then ([], x) else files_cancel_outgoing reason x)"

definition files_staging_failed ::
  "u32 \<Rightarrow> FileCancelReason \<Rightarrow> files_exchange \<Rightarrow> files_op list \<times> files_exchange" where
  "files_staging_failed transfer reason x =
     (if fi_transfer (fx_incoming x) \<noteq> Some transfer then ([], x) else files_cancel_incoming reason x)"

definition files_peer_entry :: "(utext \<Rightarrow> utext) \<Rightarrow> u32 \<Rightarrow> utext \<Rightarrow> EntryKind \<Rightarrow> nat \<Rightarrow> nat \<Rightarrow>
  files_exchange \<Rightarrow> files_op list \<times> files_exchange" where
  "files_peer_entry lower transfer path kind sz now x =
     (if fi_transfer (fx_incoming x) \<noteq> Some transfer then ([], x)
      else case tree_admit lower path kind sz (fx_policy x) (fi_tree (fx_incoming x)) of
          Ok (parsed, tree) \<Rightarrow>
            ([CreateEntry transfer parsed kind sz],
             x\<lparr>fx_incoming := (fx_incoming x)\<lparr>fi_tree := tree, fi_since := Some now\<rparr>\<rparr>)
        | Err reason \<Rightarrow> files_cancel_incoming reason x
        | Panic \<Rightarrow> ([], x))"

definition files_peer_chunk :: "u32 \<Rightarrow> bytes \<Rightarrow> nat \<Rightarrow> files_exchange \<Rightarrow> files_op list \<times> files_exchange" where
  "files_peer_chunk transfer chunk now x =
     (if fi_transfer (fx_incoming x) \<noteq> Some transfer then ([], x)
      else case tree_wrote (length chunk) (fi_tree (fx_incoming x)) of
          Ok tree \<Rightarrow>
            ([WriteChunk transfer chunk],
             x\<lparr>fx_incoming := (fx_incoming x)\<lparr>fi_tree := tree, fi_since := Some now\<rparr>\<rparr>)
        | Err reason \<Rightarrow> files_cancel_incoming reason x
        | Panic \<Rightarrow> ([], x))"

definition files_peer_complete :: "u32 \<Rightarrow> nat \<Rightarrow> files_exchange \<Rightarrow> files_op list \<times> files_exchange" where
  "files_peer_complete transfer now x =
     (if fi_transfer (fx_incoming x) \<noteq> Some transfer then ([], x)
      else if \<not> tree_settled (fi_tree (fx_incoming x)) then files_cancel_incoming FileIoFailed x
      else ([Commit transfer],
            x\<lparr>fx_incoming := \<lparr>fi_transfer = None, fi_since = Some now, fi_tree = files_tree_empty\<rparr>\<rparr>))"

definition files_peer_cancel :: "u32 \<Rightarrow> files_exchange \<Rightarrow> files_op list \<times> files_exchange" where
  "files_peer_cancel transfer x =
     (if fi_transfer (fx_incoming x) = Some transfer then ([Abort transfer], files_forget_incoming x)
      else if fu_transfer (fx_outgoing x) = Some transfer then ([], files_forget_outgoing x)
      else ([], x))"

definition files_focus_lost :: "files_exchange \<Rightarrow> files_op list \<times> files_exchange" where
  "files_focus_lost x =
     (let (ops, x1) = files_cancel_outgoing FileFocusLost x;
          (more, x2) = files_cancel_incoming FileFocusLost x1 in (ops @ more, x2))"

definition files_tick :: "nat \<Rightarrow> files_exchange \<Rightarrow> files_op list \<times> files_exchange" where
  "files_tick now x =
     (let (ops, x1) =
            (if fu_transfer (fx_outgoing x) \<noteq> None \<and> quiet (fu_since (fx_outgoing x)) now
             then files_cancel_outgoing FileTimedOut x else ([], x));
          (more, x2) =
            (if fi_transfer (fx_incoming x1) \<noteq> None \<and> quiet (fi_since (fx_incoming x1)) now
             then files_cancel_incoming FileTimedOut x1 else ([], x1)) in
      (ops @ more, x2))"

section \<open>Calls in any order\<close>

datatype files_call =
    DoPeerPolicy files_policy
  | DoAnnounce
  | DoLocalOffer nat
  | DoPeerOffer u32 nat
  | DoPeerRequest u32 u32 nat
  | DoProducedEntry u32 utext EntryKind nat nat
  | DoProducedChunk u32 bytes nat
  | DoProducedComplete u32 nat
  | DoProducedFailed u32 FileCancelReason
  | DoStagingFailed u32 FileCancelReason
  | DoPeerEntry u32 utext EntryKind nat nat
  | DoPeerChunk u32 bytes nat
  | DoPeerComplete u32 nat
  | DoPeerCancel u32
  | DoFocusLost
  | DoTick nat

fun files_perform :: "(utext \<Rightarrow> utext) \<Rightarrow> files_call \<Rightarrow> files_exchange \<Rightarrow> files_op list \<times> files_exchange" where
  "files_perform lower (DoPeerPolicy policy) x = ([], files_peer_policy policy x)"
| "files_perform lower DoAnnounce x = files_announce x"
| "files_perform lower (DoLocalOffer now) x = files_local_offer now x"
| "files_perform lower (DoPeerOffer serial now) x = files_peer_offer serial now x"
| "files_perform lower (DoPeerRequest serial transfer now) x = files_peer_request serial transfer now x"
| "files_perform lower (DoProducedEntry transfer path kind sz now) x =
     files_produced_entry lower transfer path kind sz now x"
| "files_perform lower (DoProducedChunk transfer chunk now) x = files_produced_chunk transfer chunk now x"
| "files_perform lower (DoProducedComplete transfer now) x = files_produced_complete transfer now x"
| "files_perform lower (DoProducedFailed transfer reason) x = files_produced_failed transfer reason x"
| "files_perform lower (DoStagingFailed transfer reason) x = files_staging_failed transfer reason x"
| "files_perform lower (DoPeerEntry transfer path kind sz now) x =
     files_peer_entry lower transfer path kind sz now x"
| "files_perform lower (DoPeerChunk transfer chunk now) x = files_peer_chunk transfer chunk now x"
| "files_perform lower (DoPeerComplete transfer now) x = files_peer_complete transfer now x"
| "files_perform lower (DoPeerCancel transfer) x = files_peer_cancel transfer x"
| "files_perform lower DoFocusLost x = files_focus_lost x"
| "files_perform lower (DoTick now) x = files_tick now x"

fun files_run :: "(utext \<Rightarrow> utext) \<Rightarrow> files_call list \<Rightarrow> files_exchange \<Rightarrow> files_op list \<times> files_exchange" where
  "files_run lower [] x = ([], x)"
| "files_run lower (call # calls) x =
     (let (ops, x1) = files_perform lower call x; (more, x2) = files_run lower calls x1 in (ops @ more, x2))"

section \<open>What is staged and what is published\<close>

text \<open>
  What an owner that carries out the operations holds: an entry is created, the bytes of a chunk
  are appended to the entry that was created last, a commit publishes the tree and an abort deletes it.
\<close>

record staged =
  sg_path :: validated_path
  sg_kind :: EntryKind
  sg_size :: nat
  sg_bytes :: bytes

record files_staging =
  sg_trees :: "u32 \<Rightarrow> staged list option"
  sg_published :: "staged list list"

definition nothing_staged :: files_staging where
  "nothing_staged = \<lparr>sg_trees = Map.empty, sg_published = []\<rparr>"

definition tree_at :: "files_staging \<Rightarrow> u32 \<Rightarrow> staged list" where
  "tree_at st transfer = (case sg_trees st transfer of None \<Rightarrow> [] | Some es \<Rightarrow> es)"

fun append_last :: "bytes \<Rightarrow> staged list \<Rightarrow> staged list" where
  "append_last bs [] = []"
| "append_last bs [e] = [e\<lparr>sg_bytes := sg_bytes e @ bs\<rparr>]"
| "append_last bs (e # es) = e # append_last bs es"

fun stage_op :: "files_op \<Rightarrow> files_staging \<Rightarrow> files_staging" where
  "stage_op (CreateEntry t path kind sz) st = st\<lparr>sg_trees := (sg_trees st)(t \<mapsto> tree_at st t @
     [\<lparr>sg_path = path, sg_kind = kind, sg_size = sz, sg_bytes = []\<rparr>])\<rparr>"
| "stage_op (WriteChunk t bs) st = st\<lparr>sg_trees := (sg_trees st)(t := map_option (append_last bs) (sg_trees st t))\<rparr>"
| "stage_op (Commit t) st = st\<lparr>sg_trees := (sg_trees st)(t := None), sg_published := sg_published st @ [tree_at st t]\<rparr>"
| "stage_op (Abort t) st = st\<lparr>sg_trees := (sg_trees st)(t := None)\<rparr>"
| "stage_op (FilesSend m) st = st"
| "stage_op (Enumerate t) st = st"

definition stage_ops :: "files_op list \<Rightarrow> files_staging \<Rightarrow> files_staging" where
  "stage_ops ops st = fold stage_op ops st"

lemma stage_ops_simps [simp]:
  "stage_ops [] st = st" "stage_ops (op # ops) st = stage_ops ops (stage_op op st)"
  "stage_ops (ops @ rest) st = stage_ops rest (stage_ops ops st)"
  by (simp_all add: stage_ops_def)

text \<open>An entry may be there under a policy, and is all there.\<close>

definition entry_allowed :: "(utext \<Rightarrow> utext) \<Rightarrow> files_policy \<Rightarrow> staged \<Rightarrow> bool" where
  "entry_allowed lower p e \<longleftrightarrow> path_parse lower (vp_path (sg_path e)) = Ok (sg_path e) \<and>
     sg_size e \<le> max_file_bytes p \<and> (sg_kind e = Directory \<longrightarrow> sg_size e = 0)"

definition entry_whole :: "staged \<Rightarrow> bool" where
  "entry_whole e \<longleftrightarrow> length (sg_bytes e) = sg_size e"

definition tree_allowed :: "(utext \<Rightarrow> utext) \<Rightarrow> files_policy \<Rightarrow> staged list \<Rightarrow> bool" where
  "tree_allowed lower p es \<longleftrightarrow> length es \<le> MAX_ENTRIES \<and> sum_list (map sg_size es) \<le> max_transfer_bytes p \<and>
     distinct (map (\<lambda>e. vp_key (sg_path e)) es) \<and> list_all (entry_allowed lower p) es"

definition publishable :: "(utext \<Rightarrow> utext) \<Rightarrow> files_policy \<Rightarrow> staged list \<Rightarrow> bool" where
  "publishable lower p es \<longleftrightarrow> tree_allowed lower p es \<and> list_all entry_whole es"

text \<open>How the account of a transfer matches what is staged for it.\<close>

definition open_matches :: "files_open option \<Rightarrow> staged list \<Rightarrow> bool" where
  "open_matches opened es \<longleftrightarrow>
     (case opened of
        None \<Rightarrow> list_all entry_whole es
      | Some f \<Rightarrow> \<exists>full e. es = full @ [e] \<and> list_all entry_whole full \<and> sg_kind e = File \<and>
          fo_declared f = sg_size e \<and> fo_written f = length (sg_bytes e) \<and> fo_written f < fo_declared f)"

definition tree_matches :: "(utext \<Rightarrow> utext) \<Rightarrow> files_policy \<Rightarrow> files_tree \<Rightarrow> staged list \<Rightarrow> bool" where
  "tree_matches lower p tree es \<longleftrightarrow> tree_allowed lower p es \<and> ft_entries tree = length es \<and>
     ft_total tree = sum_list (map sg_size es) \<and> ft_keys tree = set (map (\<lambda>e. vp_key (sg_path e)) es) \<and>
     open_matches (ft_open tree) es"

definition policy_within :: "files_policy \<Rightarrow> files_policy \<Rightarrow> bool" where
  "policy_within p q \<longleftrightarrow> max_file_bytes p \<le> max_file_bytes q \<and> max_transfer_bytes p \<le> max_transfer_bytes q"

definition incoming_inv :: "(utext \<Rightarrow> utext) \<Rightarrow> files_policy \<Rightarrow> files_incoming \<Rightarrow> files_staging \<Rightarrow> bool" where
  "incoming_inv lower p i st \<longleftrightarrow>
     (case fi_transfer i of
        None \<Rightarrow> sg_trees st = Map.empty
      | Some t \<Rightarrow> dom (sg_trees st) \<subseteq> {t} \<and> tree_matches lower p (fi_tree i) (tree_at st t))"

definition files_inv :: "(utext \<Rightarrow> utext) \<Rightarrow> files_policy \<Rightarrow> files_exchange \<Rightarrow> files_staging \<Rightarrow> bool" where
  "files_inv lower p x st \<longleftrightarrow> policy_within (fx_policy x) p \<and> list_all (publishable lower p) (sg_published st) \<and>
     incoming_inv lower p (fx_incoming x) st"

lemma incoming_inv_simps [simp]:
  "fi_transfer i = None \<Longrightarrow> incoming_inv lower p i st \<longleftrightarrow> sg_trees st = Map.empty"
  "fi_transfer i = Some t \<Longrightarrow> incoming_inv lower p i st \<longleftrightarrow>
     dom (sg_trees st) \<subseteq> {t} \<and> tree_matches lower p (fi_tree i) (tree_at st t)"
  by (simp_all add: incoming_inv_def)

lemma files_inv_new: "files_inv lower p (files_new p now) nothing_staged"
  by (simp add: files_inv_def files_new_def nothing_staged_def policy_within_def)

lemma tree_matches_empty [simp]: "tree_matches lower p files_tree_empty []"
  by (simp add: tree_matches_def files_tree_empty_def tree_allowed_def open_matches_def)

lemma append_last_snoc [simp]: "append_last bs (es @ [e]) = es @ [e\<lparr>sg_bytes := sg_bytes e @ bs\<rparr>]"
proof (induction es)
  case (Cons a es)
  then show ?case by (cases "es @ [e]") auto
qed simp

lemma admit_matches:
  assumes "tree_admit lower path kind sz q tree = Ok (parsed, tree')" "policy_within q p" "tree_matches lower p tree es"
  shows "tree_matches lower p tree' (es @ [\<lparr>sg_path = parsed, sg_kind = kind, sg_size = sz, sg_bytes = []\<rparr>]) \<and>
    vp_path parsed = path"
proof -
  have parsed: "path_parse lower path = Ok parsed" "vp_path parsed = path"
    using assms(1) by (auto simp: tree_admit_def path_parse_Ok split: if_splits outcome.splits)
  then show ?thesis
    using assms
    by (cases kind) (auto simp: tree_admit_def tree_matches_def tree_allowed_def entry_allowed_def
        policy_within_def open_matches_def entry_whole_def checked_add_u64_def split: if_splits)
qed

lemma wrote_matches:
  assumes "tree_wrote (length bs) tree = Ok tree'" "tree_matches lower p tree es"
  shows "es \<noteq> [] \<and> tree_matches lower p tree' (append_last bs es)"
proof -
  obtain f where f: "ft_open tree = Some f" using assms(1) by (cases "ft_open tree") (simp_all add: tree_wrote_def)
  then obtain full e where e: "es = full @ [e]" "list_all entry_whole full" "sg_kind e = File"
    "fo_declared f = sg_size e" "fo_written f = length (sg_bytes e)"
    using assms(2) by (auto simp: tree_matches_def open_matches_def)
  have "fo_written f + length bs \<le> fo_declared f"
    and tree': "tree' = (if fo_written f + length bs = fo_declared f then tree\<lparr>ft_open := None\<rparr>
      else tree\<lparr>ft_open := Some (f\<lparr>fo_written := fo_written f + length bs\<rparr>)\<rparr>)"
    using assms(1) f by (auto simp: tree_wrote_def checked_add_u64_def split: if_splits)
  then show ?thesis
    using assms(2) e by (auto simp: tree_matches_def tree_allowed_def entry_allowed_def open_matches_def entry_whole_def)
qed

text \<open>A call that leaves the incoming side alone and stages nothing keeps the invariant.\<close>

fun inert :: "files_op \<Rightarrow> bool" where
  "inert (FilesSend m) \<longleftrightarrow> True"
| "inert (Enumerate t) \<longleftrightarrow> True"
| "inert op \<longleftrightarrow> False"

lemma stage_ops_inert: "list_all inert ops \<Longrightarrow> stage_ops ops st = st"
proof (induction ops)
  case (Cons op ops)
  then show ?case by (cases op) simp_all
qed simp

definition outgoing_only :: "files_exchange \<Rightarrow> files_op list \<times> files_exchange \<Rightarrow> bool" where
  "outgoing_only x r \<longleftrightarrow> list_all inert (fst r) \<and> fx_incoming (snd r) = fx_incoming x \<and> fx_policy (snd r) = fx_policy x"

definition files_kept :: "(utext \<Rightarrow> utext) \<Rightarrow> files_policy \<Rightarrow> files_staging \<Rightarrow> files_op list \<times> files_exchange \<Rightarrow> bool" where
  "files_kept lower p st r \<longleftrightarrow> files_inv lower p (snd r) (stage_ops (fst r) st)"

lemma files_kept_outgoing_only: "files_inv lower p x st \<Longrightarrow> outgoing_only x r \<Longrightarrow> files_kept lower p st r"
  by (simp add: files_kept_def outgoing_only_def files_inv_def stage_ops_inert)

lemma outgoing_only_cancel: "outgoing_only x (files_cancel_outgoing reason x)"
  by (simp add: outgoing_only_def files_cancel_outgoing_def files_forget_outgoing_def split: option.split)

lemma outgoing_only_calls:
  "outgoing_only x (files_announce x)"
  "outgoing_only x (files_local_offer now x)"
  "outgoing_only x (files_peer_request serial transfer now x)"
  "outgoing_only x (files_produced_entry lower transfer path kind sz now x)"
  "outgoing_only x (files_produced_chunk transfer chunk now x)"
  "outgoing_only x (files_produced_complete transfer now x)"
  "outgoing_only x (files_produced_failed transfer reason x)"
  using outgoing_only_cancel
  by (auto simp: files_announce_def files_local_offer_def files_peer_request_def files_produced_entry_def
      files_produced_chunk_def files_produced_complete_def files_produced_failed_def outgoing_only_def
      files_cancel_outgoing_def files_forget_outgoing_def Let_def split: option.splits outcome.splits)

lemma files_kept_cancel_incoming:
  assumes "files_inv lower p x st"
  shows "files_kept lower p st (files_cancel_incoming reason x) \<and>
    fi_transfer (fx_incoming (snd (files_cancel_incoming reason x))) = None"
  using assms
  by (auto simp: files_kept_def files_inv_def incoming_inv_def files_cancel_incoming_def files_forget_incoming_def
      dom_def fun_eq_iff split: option.splits)

lemma files_kept_peer_policy: "files_inv lower p x st \<Longrightarrow> files_kept lower p st ([], files_peer_policy q x)"
  by (auto simp: files_kept_def files_inv_def files_peer_policy_def policy_within_def narrowed_def split: option.splits)

lemma files_kept_peer_offer:
  assumes "files_inv lower p x st"
  shows "files_kept lower p st (files_peer_offer serial now x)"
proof -
  obtain ops x1 where x1: "files_cancel_incoming FileSuperseded x = (ops, x1)" by force
  have "files_inv lower p x1 (stage_ops ops st)" "sg_trees (stage_ops ops st) = Map.empty"
    using files_kept_cancel_incoming [OF assms, of FileSuperseded] x1
    by (auto simp: files_kept_def files_inv_def)
  then show ?thesis
    using x1 assms by (auto simp: files_peer_offer_def files_kept_def files_inv_def tree_at_def Let_def)
qed

lemma files_kept_peer_entry:
  assumes "files_inv lower p x st"
  shows "files_kept lower p st (files_peer_entry lower transfer path kind sz now x)"
proof (cases "fi_transfer (fx_incoming x) = Some transfer")
  case True
  show ?thesis
  proof (cases "tree_admit lower path kind sz (fx_policy x) (fi_tree (fx_incoming x))")
    case (Ok r)
    obtain parsed tree where r: "r = (parsed, tree)" by force
    have "tree_matches lower p tree (tree_at st transfer @
        [\<lparr>sg_path = parsed, sg_kind = kind, sg_size = sz, sg_bytes = []\<rparr>])"
      using admit_matches [of lower path kind sz "fx_policy x" "fi_tree (fx_incoming x)" parsed tree p] Ok r assms True
      by (simp add: files_inv_def)
    then show ?thesis
      using True Ok r assms
      by (auto simp: files_peer_entry_def files_kept_def files_inv_def tree_at_def)
  qed (use True assms files_kept_cancel_incoming in \<open>auto simp: files_peer_entry_def files_kept_def\<close>)
qed (use assms in \<open>simp add: files_peer_entry_def files_kept_def\<close>)

lemma files_kept_peer_chunk:
  assumes "files_inv lower p x st"
  shows "files_kept lower p st (files_peer_chunk transfer chunk now x)"
proof (cases "fi_transfer (fx_incoming x) = Some transfer")
  case True
  show ?thesis
  proof (cases "tree_wrote (length chunk) (fi_tree (fx_incoming x))")
    case (Ok tree)
    have "tree_at st transfer \<noteq> [] \<and> tree_matches lower p tree (append_last chunk (tree_at st transfer))"
      using wrote_matches [OF Ok, of lower p "tree_at st transfer"] assms True
      by (simp add: files_inv_def)
    then show ?thesis
      using True Ok assms
      by (auto simp: files_peer_chunk_def files_kept_def files_inv_def tree_at_def split: option.splits)
  qed (use True assms files_kept_cancel_incoming in \<open>auto simp: files_peer_chunk_def files_kept_def\<close>)
qed (use assms in \<open>simp add: files_peer_chunk_def files_kept_def\<close>)

lemma files_kept_peer_complete:
  assumes "files_inv lower p x st"
  shows "files_kept lower p st (files_peer_complete transfer now x)"
proof -
  have "publishable lower p (tree_at st transfer)"
    if "fi_transfer (fx_incoming x) = Some transfer" "tree_settled (fi_tree (fx_incoming x))"
    using that assms
    by (simp add: files_inv_def publishable_def tree_matches_def tree_settled_def open_matches_def)
  moreover have "(sg_trees st)(transfer := None) = Map.empty" if "fi_transfer (fx_incoming x) = Some transfer"
    using that assms by (auto simp: files_inv_def dom_def fun_eq_iff)
  ultimately show ?thesis
    using assms files_kept_cancel_incoming [OF assms, of FileIoFailed]
    by (auto simp: files_kept_def files_inv_def files_peer_complete_def)
qed

lemma files_kept_peer_cancel:
  assumes "files_inv lower p x st"
  shows "files_kept lower p st (files_peer_cancel transfer x)"
proof -
  have "(sg_trees st)(transfer := None) = Map.empty" if "fi_transfer (fx_incoming x) = Some transfer"
    using that assms by (auto simp: files_inv_def dom_def fun_eq_iff)
  then show ?thesis
    using assms
    by (auto simp: files_peer_cancel_def files_kept_def files_inv_def files_forget_incoming_def files_forget_outgoing_def)
qed

text \<open>Two cancellations one after the other, of which \<open>focus_lost\<close> and \<open>tick\<close> are made.\<close>

lemma files_kept_both:
  assumes "files_inv lower p x st" "outgoing_only x (ops, x1)"
    and "(rest, x2) = ([], x1) \<or> (rest, x2) = files_cancel_incoming reason x1"
  shows "files_kept lower p st (ops @ rest, x2)"
proof -
  have "files_inv lower p x1 (stage_ops ops st)"
    using files_kept_outgoing_only [OF assms(1,2)] by (simp add: files_kept_def)
  then show ?thesis using assms(3) files_kept_cancel_incoming [of lower p x1 "stage_ops ops st" reason]
    by (cases "files_cancel_incoming reason x1") (auto simp: files_kept_def)
qed

lemma files_kept_focus_lost:
  assumes "files_inv lower p x st"
  shows "files_kept lower p st (files_focus_lost x)"
proof -
  obtain ops x1 where x1: "files_cancel_outgoing FileFocusLost x = (ops, x1)" by force
  obtain rest x2 where x2: "files_cancel_incoming FileFocusLost x1 = (rest, x2)" by force
  show ?thesis
    using files_kept_both [OF assms, of ops x1 rest x2 FileFocusLost] outgoing_only_cancel [of x FileFocusLost] x1 x2
    by (simp add: files_focus_lost_def)
qed

lemma files_kept_tick:
  assumes "files_inv lower p x st"
  shows "files_kept lower p st (files_tick now x)"
proof -
  let ?first = "if fu_transfer (fx_outgoing x) \<noteq> None \<and> quiet (fu_since (fx_outgoing x)) now
    then files_cancel_outgoing FileTimedOut x else ([], x)"
  obtain ops x1 where x1: "?first = (ops, x1)" by (cases ?first) blast
  let ?second = "if fi_transfer (fx_incoming x1) \<noteq> None \<and> quiet (fi_since (fx_incoming x1)) now
    then files_cancel_incoming FileTimedOut x1 else ([], x1)"
  obtain rest x2 where x2: "?second = (rest, x2)" by (cases ?second) blast
  have "outgoing_only x (ops, x1)"
    using x1 outgoing_only_cancel [of x FileTimedOut] by (auto simp: outgoing_only_def split: if_splits)
  moreover have "(rest, x2) = ([], x1) \<or> (rest, x2) = files_cancel_incoming FileTimedOut x1"
    using x2 by (auto split: if_splits)
  moreover have "files_tick now x = (ops @ rest, x2)"
    unfolding files_tick_def x1 prod.case Let_def x2 ..
  ultimately show ?thesis using files_kept_both [OF assms] by simp
qed

lemma files_kept_staging_failed:
  assumes "files_inv lower p x st"
  shows "files_kept lower p st (files_staging_failed transfer reason x)"
  using assms files_kept_cancel_incoming [OF assms, of reason] by (simp add: files_staging_failed_def files_kept_def)

lemmas files_kept_calls = files_kept_peer_policy files_kept_peer_offer files_kept_peer_entry files_kept_peer_chunk files_kept_peer_complete
  files_kept_peer_cancel files_kept_focus_lost files_kept_tick files_kept_staging_failed

lemma files_kept_perform: "files_inv lower p x st \<Longrightarrow> files_kept lower p st (files_perform lower call x)"
  by (cases call) (simp_all add: files_kept_calls files_kept_outgoing_only [OF _ outgoing_only_calls(1)]
      files_kept_outgoing_only [OF _ outgoing_only_calls(2)] files_kept_outgoing_only [OF _ outgoing_only_calls(3)]
      files_kept_outgoing_only [OF _ outgoing_only_calls(4)] files_kept_outgoing_only [OF _ outgoing_only_calls(5)]
      files_kept_outgoing_only [OF _ outgoing_only_calls(6)] files_kept_outgoing_only [OF _ outgoing_only_calls(7)])

lemma files_kept_run:
  assumes "files_inv lower p x st"
  shows "files_kept lower p st (files_run lower calls x)"
  using assms
proof (induction calls arbitrary: x st)
  case (Cons call calls)
  obtain ops x1 where x1: "files_perform lower call x = (ops, x1)" by force
  then have "files_inv lower p x1 (stage_ops ops st)" using files_kept_perform [OF Cons.prems, of call] by (simp add: files_kept_def)
  from Cons.IH [OF this] show ?case using x1 by (cases "files_run lower calls x1") (simp add: files_kept_def)
qed (simp add: files_kept_def)

section \<open>A tree crosses\<close>

text \<open>
  One entry of a local walk: its path, its kind and the pieces its bytes are read in. \<open>walk_calls\<close> is
  what the walk reports to the sending exchange, and \<open>delivered\<close> the call that a message of the peer
  becomes.
\<close>

record walked =
  wk_path :: utext
  wk_kind :: EntryKind
  wk_chunks :: "bytes list"

definition wk_size :: "walked \<Rightarrow> nat" where
  "wk_size e = length (concat (wk_chunks e))"

definition wk_parsed :: "(utext \<Rightarrow> utext) \<Rightarrow> walked \<Rightarrow> validated_path" where
  "wk_parsed lower e = \<lparr>vp_path = wk_path e, vp_key = join_with 47 (map lower (split_at 47 (wk_path e)))\<rparr>"

definition entry_calls :: "u32 \<Rightarrow> nat \<Rightarrow> walked \<Rightarrow> files_call list" where
  "entry_calls t now e = DoProducedEntry t (wk_path e) (wk_kind e) (wk_size e) now #
     map (\<lambda>c. DoProducedChunk t c now) (wk_chunks e)"

definition walk_calls :: "u32 \<Rightarrow> nat \<Rightarrow> walked list \<Rightarrow> files_call list" where
  "walk_calls t now es = concat (map (entry_calls t now) es) @ [DoProducedComplete t now]"

fun delivered :: "nat \<Rightarrow> files_message \<Rightarrow> files_call" where
  "delivered now (FilePolicy policy) = DoPeerPolicy policy"
| "delivered now (FileOffer serial) = DoPeerOffer serial now"
| "delivered now (FileRequest serial t) = DoPeerRequest serial t now"
| "delivered now (FileEntry t path kind sz) = DoPeerEntry t path kind sz now"
| "delivered now (FileChunk t chunk) = DoPeerChunk t chunk now"
| "delivered now (FileComplete t) = DoPeerComplete t now"
| "delivered now (FileCancel t reason) = DoPeerCancel t"

definition entry_messages :: "u32 \<Rightarrow> walked \<Rightarrow> files_message list" where
  "entry_messages t e = FileEntry t (wk_path e) (wk_kind e) (wk_size e) # map (FileChunk t) (wk_chunks e)"

definition entry_ops :: "(utext \<Rightarrow> utext) \<Rightarrow> u32 \<Rightarrow> walked \<Rightarrow> files_op list" where
  "entry_ops lower t e = CreateEntry t (wk_parsed lower e) (wk_kind e) (wk_size e) # map (WriteChunk t) (wk_chunks e)"

definition staged_of :: "(utext \<Rightarrow> utext) \<Rightarrow> walked \<Rightarrow> staged" where
  "staged_of lower e = \<lparr>sg_path = wk_parsed lower e, sg_kind = wk_kind e, sg_size = wk_size e,
     sg_bytes = concat (wk_chunks e)\<rparr>"

text \<open>What a walk has to stay within.\<close>

definition walked_ok :: "(utext \<Rightarrow> utext) \<Rightarrow> files_policy \<Rightarrow> walked \<Rightarrow> bool" where
  "walked_ok lower p e \<longleftrightarrow> path_parse lower (wk_path e) = Ok (wk_parsed lower e) \<and> wk_size e \<le> max_file_bytes p \<and>
     (wk_kind e = Directory \<longrightarrow> wk_chunks e = []) \<and> list_all (\<lambda>c. c \<noteq> [] \<and> length c \<le> CHUNK) (wk_chunks e)"

definition walk_fits :: "(utext \<Rightarrow> utext) \<Rightarrow> files_policy \<Rightarrow> files_tree \<Rightarrow> walked list \<Rightarrow> bool" where
  "walk_fits lower p tree es \<longleftrightarrow> ft_open tree = None \<and> ft_entries tree + length es \<le> MAX_ENTRIES \<and>
     ft_total tree + sum_list (map wk_size es) \<le> max_transfer_bytes p \<and>
     ft_total tree + sum_list (map wk_size es) < 2 ^ 64 \<and>
     distinct (map (\<lambda>e. vp_key (wk_parsed lower e)) es) \<and>
     (\<forall>e \<in> set es. vp_key (wk_parsed lower e) \<notin> ft_keys tree \<and> walked_ok lower p e)"

definition tree_with :: "(utext \<Rightarrow> utext) \<Rightarrow> walked \<Rightarrow> files_tree \<Rightarrow> files_tree" where
  "tree_with lower e tree = tree\<lparr>ft_keys := insert (vp_key (wk_parsed lower e)) (ft_keys tree),
     ft_entries := ft_entries tree + 1, ft_total := ft_total tree + wk_size e\<rparr>"

lemma walk_fits_Cons:
  assumes "walk_fits lower p tree (e # es)"
  shows "tree_admit lower (wk_path e) (wk_kind e) (wk_size e) p tree = Ok (wk_parsed lower e,
      (tree_with lower e tree)\<lparr>ft_open := (if wk_chunks e = [] then None
        else Some \<lparr>fo_declared = wk_size e, fo_written = 0\<rparr>)\<rparr>)"
    and "walk_fits lower p (tree_with lower e tree) es" "walked_ok lower p e" "wk_size e < 2 ^ 64"
proof -
  have "wk_size e = 0 \<longleftrightarrow> wk_chunks e = []"
    using assms by (cases "wk_chunks e") (auto simp: walk_fits_def walked_ok_def wk_size_def)
  then show "tree_admit lower (wk_path e) (wk_kind e) (wk_size e) p tree = Ok (wk_parsed lower e,
      (tree_with lower e tree)\<lparr>ft_open := (if wk_chunks e = [] then None
        else Some \<lparr>fo_declared = wk_size e, fo_written = 0\<rparr>)\<rparr>)"
    using assms
    by (cases "wk_kind e") (auto simp: walk_fits_def walked_ok_def tree_admit_def checked_add_u64_def tree_with_def)
qed (use assms in \<open>auto simp: walk_fits_def tree_with_def image_iff\<close>)

text \<open>The chunks of one file, on either side.\<close>

definition tree_open_at :: "files_tree \<Rightarrow> nat \<Rightarrow> nat \<Rightarrow> files_tree" where
  "tree_open_at tree declared written = tree\<lparr>ft_open := (if written = declared then None
     else Some \<lparr>fo_declared = declared, fo_written = written\<rparr>)\<rparr>"

lemma wrote_open_at:
  assumes "chunk \<noteq> []" "written + length chunk \<le> declared" "declared < 2 ^ 64"
  shows "tree_wrote (length chunk) (tree_open_at tree declared written) =
    Ok (tree_open_at tree declared (written + length chunk))"
  using assms by (auto simp: tree_wrote_def tree_open_at_def checked_add_u64_def)

lemma files_run_append:
  "files_run lower (xs @ ys) x =
     (let (ops, x1) = files_run lower xs x; (rest, x2) = files_run lower ys x1 in (ops @ rest, x2))"
  by (induction xs arbitrary: x) (auto split: prod.split)

lemma sender_chunks:
  assumes "fu_transfer (fx_outgoing a) = Some t" "fu_tree (fx_outgoing a) = tree_open_at tree declared written"
    and "list_all (\<lambda>c. c \<noteq> [] \<and> length c \<le> CHUNK) cs" "written + length (concat cs) = declared" "declared < 2 ^ 64"
  shows "\<exists>a'. files_run lower (map (\<lambda>c. DoProducedChunk t c now) cs) a = (map (\<lambda>c. FilesSend (FileChunk t c)) cs, a') \<and>
    fu_transfer (fx_outgoing a') = Some t \<and> fu_tree (fx_outgoing a') = tree_open_at tree declared declared \<and>
    fx_policy a' = fx_policy a"
  using assms
proof (induction cs arbitrary: a written)
  case (Cons c cs)
  let ?a1 = "a\<lparr>fx_outgoing := (fx_outgoing a)\<lparr>fu_tree := tree_open_at tree declared (written + length c),
    fu_since := Some now\<rparr>\<rparr>"
  have "files_produced_chunk t c now a = ([FilesSend (FileChunk t c)], ?a1)"
    using Cons.prems wrote_open_at [of c written declared tree] by (simp add: files_produced_chunk_def)
  moreover obtain a' where "files_run lower (map (\<lambda>c. DoProducedChunk t c now) cs) ?a1 =
      (map (\<lambda>c. FilesSend (FileChunk t c)) cs, a')" "fu_transfer (fx_outgoing a') = Some t"
      "fu_tree (fx_outgoing a') = tree_open_at tree declared declared" "fx_policy a' = fx_policy a"
    using Cons.IH [of ?a1 "written + length c"] Cons.prems by auto
  ultimately show ?case by simp
qed simp

lemma receiver_chunks:
  assumes "fi_transfer (fx_incoming b) = Some t" "fi_tree (fx_incoming b) = tree_open_at tree declared written"
    and "list_all (\<lambda>c. c \<noteq> []) cs" "written + length (concat cs) = declared" "declared < 2 ^ 64"
  shows "\<exists>b'. files_run lower (map (\<lambda>c. DoPeerChunk t c now) cs) b = (map (WriteChunk t) cs, b') \<and>
    fi_transfer (fx_incoming b') = Some t \<and> fi_tree (fx_incoming b') = tree_open_at tree declared declared \<and>
    fx_policy b' = fx_policy b"
  using assms
proof (induction cs arbitrary: b written)
  case (Cons c cs)
  let ?b1 = "b\<lparr>fx_incoming := (fx_incoming b)\<lparr>fi_tree := tree_open_at tree declared (written + length c),
    fi_since := Some now\<rparr>\<rparr>"
  have "files_peer_chunk t c now b = ([WriteChunk t c], ?b1)"
    using Cons.prems wrote_open_at [of c written declared tree] by (simp add: files_peer_chunk_def)
  moreover obtain b' where "files_run lower (map (\<lambda>c. DoPeerChunk t c now) cs) ?b1 = (map (WriteChunk t) cs, b')"
      "fi_transfer (fx_incoming b') = Some t"
      "fi_tree (fx_incoming b') = tree_open_at tree declared declared" "fx_policy b' = fx_policy b"
    using Cons.IH [of ?b1 "written + length c"] Cons.prems by auto
  ultimately show ?case by simp
qed simp

text \<open>A whole walk, on either side.\<close>

lemma tree_open_at_0: "ft_open tree = None \<Longrightarrow> list_all (\<lambda>c. c \<noteq> []) (wk_chunks e) \<Longrightarrow>
  tree\<lparr>ft_open := (if wk_chunks e = [] then None else Some \<lparr>fo_declared = wk_size e, fo_written = 0\<rparr>)\<rparr> =
  tree_open_at tree (wk_size e) 0"
  by (cases "wk_chunks e") (auto simp: tree_open_at_def wk_size_def)

lemma tree_open_at_whole: "ft_open tree = None \<Longrightarrow> tree_open_at tree declared declared = tree"
  by (simp add: tree_open_at_def)

lemma walked_ok_chunks: "walked_ok lower p e \<Longrightarrow> list_all (\<lambda>c. c \<noteq> []) (wk_chunks e)"
  by (auto simp: walked_ok_def list_all_iff)

lemma admit_open_at:
  assumes "walk_fits lower p tree (e # es)"
  shows "tree_admit lower (wk_path e) (wk_kind e) (wk_size e) p tree =
    Ok (wk_parsed lower e, tree_open_at (tree_with lower e tree) (wk_size e) 0)"
proof -
  have "ft_open (tree_with lower e tree) = None" using assms by (simp add: tree_with_def walk_fits_def)
  then show ?thesis
    using walk_fits_Cons(1) [OF assms] tree_open_at_0 walked_ok_chunks [OF walk_fits_Cons(3) [OF assms]] by simp
qed

lemma sender_entry:
  assumes "fu_transfer (fx_outgoing a) = Some t" "walk_fits lower (fx_policy a) (fu_tree (fx_outgoing a)) (e # es)"
  shows "\<exists>a'. files_run lower (entry_calls t now e) a = (map FilesSend (entry_messages t e), a') \<and>
    fu_transfer (fx_outgoing a') = Some t \<and> fu_tree (fx_outgoing a') = tree_with lower e (fu_tree (fx_outgoing a)) \<and>
    fx_policy a' = fx_policy a"
proof -
  let ?tree = "tree_with lower e (fu_tree (fx_outgoing a))"
  let ?a1 = "a\<lparr>fx_outgoing := (fx_outgoing a)\<lparr>fu_tree := tree_open_at ?tree (wk_size e) 0, fu_since := Some now\<rparr>\<rparr>"
  have none: "ft_open ?tree = None" using assms(2) by (simp add: tree_with_def walk_fits_def)
  have "files_produced_entry lower t (wk_path e) (wk_kind e) (wk_size e) now a =
      ([FilesSend (FileEntry t (wk_path e) (wk_kind e) (wk_size e))], ?a1)"
    using assms(1) admit_open_at [OF assms(2)] by (simp add: files_produced_entry_def wk_parsed_def)
  moreover obtain a' where "files_run lower (map (\<lambda>c. DoProducedChunk t c now) (wk_chunks e)) ?a1 =
      (map (\<lambda>c. FilesSend (FileChunk t c)) (wk_chunks e), a')" "fu_transfer (fx_outgoing a') = Some t"
      "fu_tree (fx_outgoing a') = ?tree" "fx_policy a' = fx_policy a"
    using sender_chunks [of ?a1 t ?tree "wk_size e" 0 "wk_chunks e"] walk_fits_Cons(3,4) [OF assms(2)] assms(1)
    by (auto simp: walked_ok_def wk_size_def tree_open_at_whole [OF none])
  ultimately show ?thesis by (simp add: entry_calls_def entry_messages_def comp_def)
qed

lemma receiver_entry:
  assumes "fi_transfer (fx_incoming b) = Some t" "walk_fits lower (fx_policy b) (fi_tree (fx_incoming b)) (e # es)"
  shows "\<exists>b'. files_run lower (map (delivered now) (entry_messages t e)) b = (entry_ops lower t e, b') \<and>
    fi_transfer (fx_incoming b') = Some t \<and> fi_tree (fx_incoming b') = tree_with lower e (fi_tree (fx_incoming b)) \<and>
    fx_policy b' = fx_policy b"
proof -
  let ?tree = "tree_with lower e (fi_tree (fx_incoming b))"
  let ?b1 = "b\<lparr>fx_incoming := (fx_incoming b)\<lparr>fi_tree := tree_open_at ?tree (wk_size e) 0, fi_since := Some now\<rparr>\<rparr>"
  have none: "ft_open ?tree = None" using assms(2) by (simp add: tree_with_def walk_fits_def)
  have "files_peer_entry lower t (wk_path e) (wk_kind e) (wk_size e) now b =
      ([CreateEntry t (wk_parsed lower e) (wk_kind e) (wk_size e)], ?b1)"
    using assms(1) admit_open_at [OF assms(2)] by (simp add: files_peer_entry_def)
  moreover obtain b' where "files_run lower (map (\<lambda>c. DoPeerChunk t c now) (wk_chunks e)) ?b1 =
      (map (WriteChunk t) (wk_chunks e), b')" "fi_transfer (fx_incoming b') = Some t"
      "fi_tree (fx_incoming b') = ?tree" "fx_policy b' = fx_policy b"
    using receiver_chunks [of ?b1 t ?tree "wk_size e" 0 "wk_chunks e"] walk_fits_Cons(3,4) [OF assms(2)] assms(1)
    by (auto simp: walked_ok_chunks wk_size_def tree_open_at_whole [OF none])
  ultimately show ?thesis by (simp add: entry_messages_def entry_ops_def comp_def)
qed

lemma sender_walk:
  assumes "fu_transfer (fx_outgoing a) = Some t" "walk_fits lower (fx_policy a) (fu_tree (fx_outgoing a)) es"
  shows "\<exists>a'. files_run lower (walk_calls t now es) a =
    (map FilesSend (concat (map (entry_messages t) es) @ [FileComplete t]), a') \<and> fu_transfer (fx_outgoing a') = None"
  using assms
proof (induction es arbitrary: a)
  case Nil
  then show ?case by (simp add: walk_calls_def files_produced_complete_def walk_fits_def tree_settled_def)
next
  case (Cons e es)
  obtain a1 where a1: "files_run lower (entry_calls t now e) a = (map FilesSend (entry_messages t e), a1)"
    "fu_transfer (fx_outgoing a1) = Some t" "fu_tree (fx_outgoing a1) = tree_with lower e (fu_tree (fx_outgoing a))"
    "fx_policy a1 = fx_policy a"
    using sender_entry [OF Cons.prems] by blast
  then obtain a' where "files_run lower (walk_calls t now es) a1 =
      (map FilesSend (concat (map (entry_messages t) es) @ [FileComplete t]), a')" "fu_transfer (fx_outgoing a') = None"
    using Cons.IH [of a1] walk_fits_Cons(2) [OF Cons.prems(2)] by auto
  then show ?case using a1(1) by (simp add: walk_calls_def files_run_append Let_def)
qed

lemma receiver_walk:
  assumes "fi_transfer (fx_incoming b) = Some t" "walk_fits lower (fx_policy b) (fi_tree (fx_incoming b)) es"
  shows "\<exists>b'. files_run lower (map (delivered now) (concat (map (entry_messages t) es) @ [FileComplete t])) b =
    (concat (map (entry_ops lower t) es) @ [Commit t], b') \<and> fi_transfer (fx_incoming b') = None"
  using assms
proof (induction es arbitrary: b)
  case Nil
  then show ?case by (simp add: files_peer_complete_def walk_fits_def tree_settled_def)
next
  case (Cons e es)
  obtain b1 where b1: "files_run lower (map (delivered now) (entry_messages t e)) b = (entry_ops lower t e, b1)"
    "fi_transfer (fx_incoming b1) = Some t" "fi_tree (fx_incoming b1) = tree_with lower e (fi_tree (fx_incoming b))"
    "fx_policy b1 = fx_policy b"
    using receiver_entry [OF Cons.prems] by blast
  then obtain b' where "files_run lower (map (delivered now) (concat (map (entry_messages t) es) @ [FileComplete t])) b1 =
      (concat (map (entry_ops lower t) es) @ [Commit t], b')" "fi_transfer (fx_incoming b') = None"
    using Cons.IH [of b1] walk_fits_Cons(2) [OF Cons.prems(2)] by auto
  then show ?case using b1(1) by (simp add: files_run_append Let_def)
qed

lemma stage_chunks:
  "sg_trees st t = Some (es @ [e]) \<Longrightarrow>
   stage_ops (map (WriteChunk t) cs) st = st\<lparr>sg_trees := (sg_trees st)(t \<mapsto> es @ [e\<lparr>sg_bytes := sg_bytes e @ concat cs\<rparr>])\<rparr>"
  by (induction cs arbitrary: st e) (simp_all add: fun_upd_idem)

lemma stage_entry:
  "stage_ops (entry_ops lower t e) st = st\<lparr>sg_trees := (sg_trees st)(t \<mapsto> tree_at st t @ [staged_of lower e])\<rparr>"
  by (simp add: entry_ops_def stage_chunks staged_of_def)

lemma stage_walk:
  "stage_ops (concat (map (entry_ops lower t) es) @ [Commit t]) st =
   st\<lparr>sg_trees := (sg_trees st)(t := None), sg_published := sg_published st @ [tree_at st t @ map (staged_of lower) es]\<rparr>"
  by (induction es arbitrary: st) (simp_all add: stage_entry tree_at_def)

end
