(* ===== verification/Audio_Stream.thy ===== *)
theory Audio_Stream
  imports Wire_Record
begin

text \<open>
  The guest's sound on its way to the host's endpoint: the stream both ends agree about
  (\<open>display-protocol/src/audio.rs\<close>), the daemon's loop (\<open>display-services/src/audio_main.rs\<close>), and what
  the viewer makes of a record (\<open>display-viewer/src/audio/mod.rs\<close> and \<open>windows/audio.rs\<close>). The capture
  device and the endpoint are arguments: the list of what the next reads give, and how many frames
  an endpoint's buffer has and how many of them are taken. The decoder of \<open>AudioFormat\<close> messages
  is generated code and the parameter \<open>dec\<close>.
\<close>

section \<open>The stream\<close>

definition SILENT_PERIODS_BEFORE_SUPPRESSION :: nat where "SILENT_PERIODS_BEFORE_SUPPRESSION = 10"
definition RING_PERIODS :: nat where "RING_PERIODS = 20"

datatype SampleFormat = S16Le | S32Le | FloatLe

fun sample_bytes :: "SampleFormat \<Rightarrow> nat" where
  "sample_bytes S16Le = 2"
| "sample_bytes S32Le = 4"
| "sample_bytes FloatLe = 4"

record audio_format =
  af_sample_rate :: nat
  af_channels :: nat
  af_sample_format :: SampleFormat
  af_frames_per_period :: nat

definition bytes_per_frame :: "audio_format \<Rightarrow> nat" where
  "bytes_per_frame f = sample_bytes (af_sample_format f) * af_channels f"

definition period_bytes :: "audio_format \<Rightarrow> nat" where
  "period_bytes f = bytes_per_frame f * af_frames_per_period f"

record sent =
  sn_position :: u32
  sn_bytes :: bytes

record audio_stream =
  au_format :: audio_format
  au_position :: u32
  au_silent_periods :: nat
  au_waiting :: "sent list"

definition stream_new :: "audio_format \<Rightarrow> audio_stream" where
  "stream_new f = \<lparr>au_format = f, au_position = 0, au_silent_periods = 0, au_waiting = []\<rparr>"

text \<open>\<open>u32::try_from(len / width).unwrap_or(0)\<close>, and its panic for a width of zero.\<close>

definition frames_in :: "audio_format \<Rightarrow> bytes \<Rightarrow> ('e, u32) outcome" where
  "frames_in f period =
     (if bytes_per_frame f = 0 then Panic
      else let n = length period div bytes_per_frame f in Ok (if n \<le> u32_max then of_nat n else 0))"

definition stream_captured :: "bytes \<Rightarrow> audio_stream \<Rightarrow> ('e, sent option \<times> audio_stream) outcome" where
  "stream_captured period s =
     obind (frames_in (au_format s) period) (\<lambda>frames.
       let position = au_position s; s1 = s\<lparr>au_position := au_position s + frames\<rparr>;
           sent = \<lparr>sn_position = position, sn_bytes = period\<rparr> in
       if list_all (\<lambda>byte. byte = 0) period then
         let silent = min (au_silent_periods s + 1) u32_max; s2 = s1\<lparr>au_silent_periods := silent\<rparr> in
         if silent > SILENT_PERIODS_BEFORE_SUPPRESSION then Ok (None, s2) else Ok (Some sent, s2)
       else Ok (Some sent, s1\<lparr>au_silent_periods := 0\<rparr>))"

definition stream_queue :: "sent \<Rightarrow> audio_stream \<Rightarrow> audio_stream" where
  "stream_queue sent s =
     s\<lparr>au_waiting := (if length (au_waiting s) = RING_PERIODS then tl (au_waiting s) else au_waiting s) @ [sent]\<rparr>"

definition stream_take :: "audio_stream \<Rightarrow> sent option \<times> audio_stream" where
  "stream_take s =
     (case au_waiting s of [] \<Rightarrow> (None, s) | sent # rest \<Rightarrow> (Some sent, s\<lparr>au_waiting := rest\<rparr>))"

definition frames_between :: "u32 \<Rightarrow> u32 \<Rightarrow> u32" where
  "frames_between earlier later = later - earlier"

section \<open>The daemon's loop\<close>

definition AUDIO_FORMAT :: u16 where "AUDIO_FORMAT = 4"
definition AUDIO_DATA :: u16 where "AUDIO_DATA = 5"
definition AUDIO_ERROR :: u16 where "AUDIO_ERROR = 6"

text \<open>The generation that a hello has to exceed.\<close>

definition bind_guard :: "(bytes \<times> u32) option \<Rightarrow> bytes \<Rightarrow> u32 option" where
  "bind_guard last_bound session_id =
     (case last_bound of
        None \<Rightarrow> None
      | Some (bound, generation) \<Rightarrow> if bound = session_id then Some generation else None)"

definition timed_out :: "io_kind \<Rightarrow> bool" where
  "timed_out k \<longleftrightarrow> k = WouldBlock \<or> k = TimedOut"

datatype write_result = Wrote | TooSlow | Lost RecordError

definition audio_write_record :: "limits \<Rightarrow> record_msg \<Rightarrow> sink \<Rightarrow> write_result \<times> sink" where
  "audio_write_record l m s =
     (case record_write m l s of
        (Ok _, s') \<Rightarrow> (Wrote, s')
      | (Err (RecordIo k), s') \<Rightarrow> (if timed_out k then TooSlow else Lost (RecordIo k), s')
      | (Err err, s') \<Rightarrow> (Lost err, s')
      | (Panic, s') \<Rightarrow> (Lost RecordClosed, s'))"

definition data_record :: "(bytes \<Rightarrow> u32) \<Rightarrow> sent \<Rightarrow> u32 \<Rightarrow> u32 \<Rightarrow> record_msg" where
  "data_record crc sent sequence generation =
     record_new crc ChAudio AUDIO_DATA sequence (sn_position sent) generation (sn_bytes sent)"

record pump_state =
  pm_stream :: audio_stream
  pm_sequence :: u32
  pm_dropped :: nat
  pm_sink :: sink

text \<open>\<open>while let Some(sent) = stream_state.take()\<close>.\<close>

function audio_drain :: "(bytes \<Rightarrow> u32) \<Rightarrow> u32 \<Rightarrow> pump_state \<Rightarrow> RecordError option \<times> pump_state" where
  "audio_drain crc generation p =
     (case stream_take (pm_stream p) of
        (None, _) \<Rightarrow> (None, p)
      | (Some sent, s) \<Rightarrow>
          let (result, w) = audio_write_record (limits_new 0 0) (data_record crc sent (pm_sequence p) generation)
                (pm_sink p);
              p1 = p\<lparr>pm_stream := s, pm_sequence := pm_sequence p + 1, pm_sink := w\<rparr> in
          (case result of
             Wrote \<Rightarrow> audio_drain crc generation (p1\<lparr>pm_dropped := 0\<rparr>)
           | TooSlow \<Rightarrow> audio_drain crc generation (p1\<lparr>pm_dropped := pm_dropped p + 1\<rparr>)
           | Lost err \<Rightarrow> (Some err, p1)))"
  by pat_completeness auto
termination
  by (relation "measure (\<lambda>(crc, generation, p). length (au_waiting (pm_stream p)))")
    (auto simp: stream_take_def split: list.splits)

declare audio_drain.simps [simp del]

text \<open>What a read of the capture device gives: whole frames, an xrun, or an error that ends the loop.\<close>

datatype capture_event = Captured bytes | Xrun | CaptureFailed

datatype pump_end = PumpWaiting | PumpFormatNotTaken | PumpCaptureFailed | PumpLost RecordError

fun audio_loop :: "(bytes \<Rightarrow> u32) \<Rightarrow> u32 \<Rightarrow> capture_event list \<Rightarrow> pump_state \<Rightarrow> ('e, pump_end \<times> pump_state) outcome" where
  "audio_loop crc generation [] p = Ok (PumpWaiting, p)"
| "audio_loop crc generation (CaptureFailed # evs) p = Ok (PumpCaptureFailed, p)"
| "audio_loop crc generation (Xrun # evs) p = audio_loop crc generation evs p"
| "audio_loop crc generation (Captured period # evs) p =
     (if period = [] then audio_loop crc generation evs p
      else obind (stream_captured period (pm_stream p)) (\<lambda>(sent, s).
        case sent of
          None \<Rightarrow> audio_loop crc generation evs (p\<lparr>pm_stream := s\<rparr>)
        | Some sent \<Rightarrow>
            (case audio_drain crc generation (p\<lparr>pm_stream := stream_queue sent s\<rparr>) of
               (None, p1) \<Rightarrow> audio_loop crc generation evs p1
             | (Some err, p1) \<Rightarrow> Ok (PumpLost err, p1))))"

text \<open>The format record comes first, and a host that does not take it in time loses the channel.\<close>

definition audio_pump :: "(bytes \<Rightarrow> u32) \<Rightarrow> (audio_format \<Rightarrow> bytes) \<Rightarrow> audio_format \<Rightarrow> u32 \<Rightarrow> u32 \<Rightarrow> capture_event list \<Rightarrow>
  sink \<Rightarrow> ('e, pump_end \<times> pump_state) outcome" where
  "audio_pump crc enc f sequence generation evs w =
     (let (result, w1) = audio_write_record (limits_new 0 0)
            (record_new crc ChAudio AUDIO_FORMAT sequence 0 generation (enc f)) w;
          p = \<lparr>pm_stream = stream_new f, pm_sequence = sequence + 1, pm_dropped = 0, pm_sink = w1\<rparr> in
      (case result of
         Wrote \<Rightarrow> audio_loop crc generation evs p
       | TooSlow \<Rightarrow> Ok (PumpFormatNotTaken, p)
       | Lost err \<Rightarrow> Ok (PumpLost err, p)))"

section \<open>The viewer's side\<close>

record wave_format =
  wv_channels :: nat
  wv_samples_per_sec :: nat
  wv_avg_bytes_per_sec :: nat
  wv_block_align :: nat
  wv_bits :: nat

text \<open>The products are \<open>u16\<close> and \<open>u32\<close>; a build with overflow checks panics where they do not fit.\<close>

definition wave_format_of :: "audio_format \<Rightarrow> ('e, wave_format) outcome" where
  "wave_format_of f =
     (let bits = sample_bytes (af_sample_format f) * 8;
          channels = (if af_channels f \<le> u16_max then af_channels f else 2) in
      if channels * bits > u16_max then Panic
      else let block_align = channels * bits div 8 in
        if af_sample_rate f * block_align > u32_max then Panic
        else Ok \<lparr>wv_channels = channels, wv_samples_per_sec = af_sample_rate f,
          wv_avg_bytes_per_sec = af_sample_rate f * block_align, wv_block_align = block_align, wv_bits = bits\<rparr>)"

record wire_audio_format =
  wa_sample_rate :: nat
  wa_channels :: nat
  wa_sample_format :: int
  wa_frames_per_period :: nat

definition wire_sample_format :: "int \<Rightarrow> SampleFormat option" where
  "wire_sample_format v = (if v = 1 then Some S16Le else if v = 2 then Some S32Le else if v = 3 then Some FloatLe else None)"

definition format_of :: "wire_audio_format \<Rightarrow> audio_format option" where
  "format_of m =
     (case wire_sample_format (wa_sample_format m) of
        None \<Rightarrow> None
      | Some sample_format \<Rightarrow>
          if wa_sample_rate m = 0 \<or> wa_channels m = 0 \<or> wa_frames_per_period m = 0 then None
          else Some \<lparr>af_sample_rate = wa_sample_rate m, af_channels = wa_channels m,
            af_sample_format = sample_format, af_frames_per_period = wa_frames_per_period m\<rparr>)"

definition format_message :: "audio_format \<Rightarrow> wire_audio_format" where
  "format_message f = \<lparr>wa_sample_rate = af_sample_rate f, wa_channels = af_channels f,
     wa_sample_format = (case af_sample_format f of S16Le \<Rightarrow> 1 | S32Le \<Rightarrow> 2 | FloatLe \<Rightarrow> 3),
     wa_frames_per_period = af_frames_per_period f\<rparr>"

record renderer =
  rn_format :: audio_format
  rn_wave :: wave_format
  rn_muted :: bool
  rn_last_position :: "u32 option"

text \<open>
  What one call of \<open>play\<close> does to the endpoint: nothing, or a copy of so many bytes into a buffer of
  so many bytes, which is the width of a block for each frame asked for.
\<close>

datatype play_result = PlayedNothing | PlayedInto nat nat

definition renderer_new :: "audio_format \<Rightarrow> ('e, renderer) outcome" where
  "renderer_new f = obind (wave_format_of f) (\<lambda>wave.
     Ok \<lparr>rn_format = f, rn_wave = wave, rn_muted = False, rn_last_position = None\<rparr>)"

definition renderer_set_format :: "audio_format \<Rightarrow> renderer \<Rightarrow> ('e, renderer) outcome" where
  "renderer_set_format f r =
     (if f = rn_format r then Ok r
      else obind (wave_format_of f) (\<lambda>wave. Ok (r\<lparr>rn_format := f, rn_wave := wave, rn_last_position := None\<rparr>)))"

definition renderer_play ::
  "(nat \<times> nat) option \<Rightarrow> u32 \<Rightarrow> bytes \<Rightarrow> renderer \<Rightarrow> ('e, play_result \<times> renderer) outcome" where
  "renderer_play endpoint position pcm r =
     obind (frames_in (rn_format r) pcm) (\<lambda>frames.
       let r1 = r\<lparr>rn_last_position := Some (position + frames)\<rparr> in
       if rn_muted r then Ok (PlayedNothing, r1)
       else case endpoint of
           None \<Rightarrow> Ok (PlayedNothing, r1)
         | Some (buffer_size, padding) \<Rightarrow>
             if frames = 0 \<or> buffer_size - padding < unat frames then Ok (PlayedNothing, r1)
             else Ok (PlayedInto (length pcm) (unat frames * wv_block_align (rn_wave r)), r1))"

text \<open>\<open>handle\<close>; \<open>built\<close> says whether COM gives an enumerator for a new renderer.\<close>

definition audio_handle :: "(bytes \<Rightarrow> wire_audio_format option) \<Rightarrow> bool \<Rightarrow> (nat \<times> nat) option \<Rightarrow> header \<Rightarrow> bytes \<Rightarrow> bool \<Rightarrow>
  renderer option \<Rightarrow> ('e, play_result \<times> renderer option) outcome" where
  "audio_handle dec built endpoint h payload muted renderer =
     (if hd_message_type h = AUDIO_FORMAT then
        (case dec payload of
           None \<Rightarrow> Ok (PlayedNothing, renderer)
         | Some message \<Rightarrow>
             (case format_of message of
                None \<Rightarrow> Ok (PlayedNothing, renderer)
              | Some f \<Rightarrow>
                  (case renderer of
                     Some r \<Rightarrow> obind (renderer_set_format f r) (\<lambda>r1. Ok (PlayedNothing, Some r1))
                   | None \<Rightarrow>
                       if built then obind (renderer_new f) (\<lambda>r1. Ok (PlayedNothing, Some (r1\<lparr>rn_muted := muted\<rparr>)))
                       else Ok (PlayedNothing, None))))
      else if hd_message_type h = AUDIO_DATA then
        (case renderer of
           None \<Rightarrow> Ok (PlayedNothing, None)
         | Some r \<Rightarrow> obind (renderer_play endpoint (hd_base h) payload r) (\<lambda>(played, r1). Ok (played, Some r1)))
      else Ok (PlayedNothing, renderer))"

section \<open>What is not sent can be made up for\<close>

text \<open>
  The host's view of the stream: each record is put where its position says, with silence in between,
  and silence up to the position \<open>stop\<close> after the last one.
\<close>

fun rebuild :: "nat \<Rightarrow> u32 \<Rightarrow> sent list \<Rightarrow> u32 \<Rightarrow> bytes" where
  "rebuild w pos [] stop = replicate (w * unat (frames_between pos stop)) 0"
| "rebuild w pos (s # ss) stop = replicate (w * unat (frames_between pos (sn_position s))) 0 @ sn_bytes s @
     rebuild w (sn_position s + of_nat (length (sn_bytes s) div w)) ss stop"

fun captured_all :: "bytes list \<Rightarrow> audio_stream \<Rightarrow> ('e, sent list \<times> audio_stream) outcome" where
  "captured_all [] s = Ok ([], s)"
| "captured_all (period # periods) s =
     obind (stream_captured period s) (\<lambda>(sent, s1).
       obind (captured_all periods s1) (\<lambda>(sents, s2).
         Ok (case sent of None \<Rightarrow> (sents, s2) | Some x \<Rightarrow> (x # sents, s2))))"

definition whole_frames :: "audio_format \<Rightarrow> bytes \<Rightarrow> bool" where
  "whole_frames f period \<longleftrightarrow> bytes_per_frame f dvd length period"

lemma frames_in_Ok: "bytes_per_frame f \<noteq> 0 \<Longrightarrow> length period div bytes_per_frame f < 2 ^ 32 \<Longrightarrow>
  frames_in f period = Ok (of_nat (length period div bytes_per_frame f))"
  by (simp add: frames_in_def)

lemma stream_captured_Ok:
  assumes "bytes_per_frame (au_format s) \<noteq> 0" "length period div bytes_per_frame (au_format s) < 2 ^ 32"
  shows "\<exists>sent s1. stream_captured period s = Ok (sent, s1) \<and> au_format s1 = au_format s \<and>
    au_waiting s1 = au_waiting s \<and>
    au_position s1 = au_position s + of_nat (length period div bytes_per_frame (au_format s)) \<and>
    (sent = Some \<lparr>sn_position = au_position s, sn_bytes = period\<rparr> \<or> sent = None \<and> list_all (\<lambda>b. b = 0) period)"
  using assms by (simp add: stream_captured_def frames_in_Ok Let_def)

lemma all_zero_replicate: "list_all (\<lambda>b. b = 0) bs \<Longrightarrow> bs = replicate (length bs) 0"
  by (induction bs) auto

lemma captured_rebuild:
  assumes "0 < bytes_per_frame (au_format s)" "list_all (whole_frames (au_format s)) periods"
    and "unat (frames_between pos (au_position s)) + length (concat periods) div bytes_per_frame (au_format s) < 2 ^ 32"
  shows "\<exists>sents s'. captured_all periods s = (Ok (sents, s') :: ('e, _) outcome) \<and>
    rebuild (bytes_per_frame (au_format s)) pos sents (au_position s') =
      replicate (bytes_per_frame (au_format s) * unat (frames_between pos (au_position s))) 0 @ concat periods"
  using assms
proof (induction periods arbitrary: s pos)
  case Nil
  then show ?case by simp
next
  case (Cons period periods)
  let ?w = "bytes_per_frame (au_format s)"
  let ?n = "length period div ?w"
  have w: "?w \<noteq> 0" using Cons.prems(1) by simp
  have len: "length period = ?w * ?n" using Cons.prems(2) by (simp add: whole_frames_def)
  have total: "length (concat (period # periods)) div ?w = ?n + length (concat periods) div ?w"
    using len w by (metis concat.simps(2) div_mult_self1_is_m div_plus_div_distrib_dvd_left dvd_triv_left gr_zeroI length_append)
  have small: "?n < 2 ^ 32" using Cons.prems(3) total by simp
  obtain sent s1 where s1: "stream_captured period s = (Ok (sent, s1) :: ('e, _) outcome)" "au_format s1 = au_format s"
    "au_position s1 = au_position s + of_nat ?n"
    and sent: "sent = Some \<lparr>sn_position = au_position s, sn_bytes = period\<rparr> \<or> sent = None \<and> list_all (\<lambda>b. b = 0) period"
    using stream_captured_Ok [OF w small] by blast
  from sent show ?case
  proof
    assume sent: "sent = Some \<lparr>sn_position = au_position s, sn_bytes = period\<rparr>"
    have "unat (frames_between (au_position s1) (au_position s1)) + length (concat periods) div ?w < 2 ^ 32"
      using Cons.prems(3) total by (simp add: frames_between_def)
    then obtain sents s' where IH: "captured_all periods s1 = (Ok (sents, s') :: ('e, _) outcome)"
      "rebuild ?w (au_position s1) sents (au_position s') = concat periods"
      using Cons.IH [of s1 "au_position s1"] Cons.prems s1(2) by (auto simp: frames_between_def)
    then show ?thesis using sent s1 by simp
  next
    assume silent: "sent = None \<and> list_all (\<lambda>b. b = 0) period"
    have gap: "unat (frames_between pos (au_position s1)) = unat (frames_between pos (au_position s)) + ?n"
    proof -
      have "frames_between pos (au_position s1) = frames_between pos (au_position s) + of_nat ?n"
        using s1(3) by (simp add: frames_between_def)
      moreover have "unat (of_nat ?n :: u32) = ?n" using small by (simp add: unat_of_nat take_bit_nat_eq_self)
      ultimately show ?thesis
        using Cons.prems(3) total unat_add_lem [of "frames_between pos (au_position s)" "of_nat ?n :: u32"] by simp
    qed
    obtain sents s' where IH: "captured_all periods s1 = (Ok (sents, s') :: ('e, _) outcome)"
      "rebuild ?w pos sents (au_position s') =
         replicate (?w * (unat (frames_between pos (au_position s)) + ?n)) 0 @ concat periods"
      using Cons.IH [of s1 pos] Cons.prems s1(2) gap total by auto
    have "period = replicate (?w * ?n) 0" using all_zero_replicate [of period] silent len by simp
    then show ?thesis using silent s1(1) IH by (auto simp: replicate_add algebra_simps)
  qed
qed

section \<open>The ring\<close>

lemma stream_queue_waiting:
  "length (au_waiting s) \<le> RING_PERIODS \<Longrightarrow>
   au_waiting (fold stream_queue xs s) = drop (length (au_waiting s @ xs) - RING_PERIODS) (au_waiting s @ xs)"
proof (induction xs arbitrary: s)
  case (Cons x xs)
  let ?ws = "au_waiting s"
  have next_ws: "au_waiting (stream_queue x s) = drop (Suc (length ?ws) - RING_PERIODS) (?ws @ [x])"
    using Cons.prems by (auto simp: stream_queue_def RING_PERIODS_def drop_Suc)
  then have "length (au_waiting (stream_queue x s)) \<le> RING_PERIODS" by simp
  from Cons.IH [OF this] show ?case
    using Cons.prems unfolding next_ws by (cases "length ?ws < RING_PERIODS") (auto simp: RING_PERIODS_def)
qed simp

section \<open>The loop and the wire\<close>

text \<open>The records of what was sent, one after the other, numbered from \<open>q\<close>.\<close>

fun wire_of :: "(bytes \<Rightarrow> u32) \<Rightarrow> u32 \<Rightarrow> u32 \<Rightarrow> sent list \<Rightarrow> bytes" where
  "wire_of crc generation q [] = []"
| "wire_of crc generation q (s # ss) =
     header_encode (rec_header (data_record crc s q generation)) @ sn_bytes s @ wire_of crc generation (q + 1) ss"

fun periods_of :: "capture_event list \<Rightarrow> bytes list" where
  "periods_of [] = []"
| "periods_of (Captured period # evs) = (if period = [] then periods_of evs else period # periods_of evs)"
| "periods_of (Xrun # evs) = periods_of evs"
| "periods_of (CaptureFailed # evs) = []"

lemma data_record_simps [simp]:
  "rec_payload (data_record crc s q g) = sn_bytes s"
  "hd_base (rec_header (data_record crc s q g)) = sn_position s"
  "hd_channel (rec_header (data_record crc s q g)) = ChAudio"
  by (simp_all add: data_record_def record_new_def header_for_payload_def)

lemma data_record_length:
  "length (sn_bytes s) \<le> AUDIO_MAX_PAYLOAD \<Longrightarrow> unat (hd_length (rec_header (data_record crc s q g))) = length (sn_bytes s)"
  by (simp add: data_record_def record_new_def header_length_exact AUDIO_MAX_PAYLOAD_def)

lemma audio_write_healthy:
  assumes "sink_script w = []" "length (sn_bytes s) \<le> AUDIO_MAX_PAYLOAD"
  shows "audio_write_record l (data_record crc s q g) w = (Wrote, w\<lparr>sink_taken := sink_taken w @
    header_encode (rec_header (data_record crc s q g)) @ sn_bytes s\<rparr>)"
  using assms data_record_length [OF assms(2), of crc q g]
  by (simp add: audio_write_record_def record_write_def write_payload_def flush_def Let_def)

lemma audio_drain_one:
  assumes "au_waiting (pm_stream p) = [sent]"
  shows "audio_drain crc g p =
    (let (result, w) = audio_write_record (limits_new 0 0) (data_record crc sent (pm_sequence p) g) (pm_sink p);
         p1 = p\<lparr>pm_stream := (pm_stream p)\<lparr>au_waiting := []\<rparr>, pm_sequence := pm_sequence p + 1, pm_sink := w\<rparr> in
     case result of
       Wrote \<Rightarrow> (None, p1\<lparr>pm_dropped := 0\<rparr>)
     | TooSlow \<Rightarrow> (None, p1\<lparr>pm_dropped := pm_dropped p + 1\<rparr>)
     | Lost err \<Rightarrow> (Some err, p1))"
proof -
  have empty: "audio_drain crc g q = (None, q)" if "au_waiting (pm_stream q) = []" for q
    using that by (subst audio_drain.simps) (simp add: stream_take_def)
  show ?thesis
    using assms by (subst audio_drain.simps) (simp add: stream_take_def empty Let_def split: prod.split write_result.split)
qed

text \<open>With a host that takes everything, the records of the stream are on the wire, in order.\<close>

lemma audio_loop_healthy:
  assumes "captured_all (periods_of evs) (pm_stream p) = (Ok (sents, s') :: ('e, _) outcome)"
    and "sink_script (pm_sink p) = []" "au_waiting (pm_stream p) = []" "CaptureFailed \<notin> set evs"
    and "bytes_per_frame (au_format (pm_stream p)) \<noteq> 0"
    and "\<forall>period \<in> set (periods_of evs). length period \<le> AUDIO_MAX_PAYLOAD"
  shows "\<exists>p'. audio_loop crc g evs p = (Ok (PumpWaiting, p') :: ('e, _) outcome) \<and>
    sink_taken (pm_sink p') = sink_taken (pm_sink p) @ wire_of crc g (pm_sequence p) sents \<and> pm_stream p' = s'"
  using assms
proof (induction evs arbitrary: p sents)
  case Nil
  then show ?case by simp
next
  case (Cons ev evs)
  show ?case
  proof (cases ev)
    case (Captured period)
    show ?thesis
    proof (cases "period = []")
      case False
      let ?w = "bytes_per_frame (au_format (pm_stream p))"
      have "length period < 2 ^ 32" using Cons.prems(6) Captured False by (simp add: AUDIO_MAX_PAYLOAD_def)
      then have small: "length period div ?w < 2 ^ 32" by (rule le_less_trans [OF div_le_dividend])
      obtain sent s1 where s1: "stream_captured period (pm_stream p) = (Ok (sent, s1) :: ('e, _) outcome)"
        "au_format s1 = au_format (pm_stream p)" "au_waiting s1 = []"
        and sent: "sent = Some \<lparr>sn_position = au_position (pm_stream p), sn_bytes = period\<rparr> \<or> sent = None"
        using stream_captured_Ok [OF Cons.prems(5) small] Cons.prems(3) by auto
      obtain sents1 where sents: "captured_all (periods_of evs) s1 = (Ok (sents1, s') :: ('e, _) outcome)"
        "sents = (case sent of None \<Rightarrow> sents1 | Some x \<Rightarrow> x # sents1)"
        using Cons.prems(1) Captured False s1(1) by (auto split: option.splits)
      show ?thesis
      proof (cases sent)
        case None
        then show ?thesis
          using Cons.IH [of "p\<lparr>pm_stream := s1\<rparr>" sents1] Cons.prems sents s1 Captured False by simp
      next
        case (Some x)
        then have x: "x = \<lparr>sn_position = au_position (pm_stream p), sn_bytes = period\<rparr>" using sent by simp
        have idem: "s1\<lparr>au_waiting := []\<rparr> = s1" using s1(3) by simp
        let ?p1 = "p\<lparr>pm_stream := s1, pm_sequence := pm_sequence p + 1,
          pm_sink := (pm_sink p)\<lparr>sink_taken := sink_taken (pm_sink p) @
            header_encode (rec_header (data_record crc x (pm_sequence p) g)) @ sn_bytes x\<rparr>, pm_dropped := 0\<rparr>"
        have "length (sn_bytes x) \<le> AUDIO_MAX_PAYLOAD" using x Cons.prems(6) Captured False by simp
        then have drained: "audio_drain crc g (p\<lparr>pm_stream := stream_queue x s1\<rparr>) = (None, ?p1)"
          using s1(3) Cons.prems(2) idem
          by (subst audio_drain_one [of _ x]) (simp_all add: stream_queue_def RING_PERIODS_def audio_write_healthy)
        obtain p' where "audio_loop crc g evs ?p1 = (Ok (PumpWaiting, p') :: ('e, _) outcome)"
          "sink_taken (pm_sink p') = sink_taken (pm_sink ?p1) @ wire_of crc g (pm_sequence p + 1) sents1" "pm_stream p' = s'"
          using Cons.IH [of ?p1 sents1] Cons.prems sents(1) s1 Captured False by auto
        then show ?thesis using Captured False s1(1) Some drained sents(2) by simp
      qed
    qed (use Cons Captured in auto)
  qed (use Cons in auto)
qed

lemma audio_loop_xrun: "audio_loop crc g evs p = audio_loop crc g (filter (\<lambda>ev. ev \<noteq> Xrun) evs) p"
proof (induction evs arbitrary: p)
  case (Cons ev evs)
  then show ?case by (cases ev) (simp_all cong: option.case_cong prod.case_cong)
qed simp

text \<open>
  A write that the timeout cuts off inside a header leaves the piece on the wire, and the next record
  follows it: the host reads the two as one header.
\<close>

lemma torn_header:
  assumes "prompt retried r (24 # header_encode h @ rest)" "begun (rd_events r)"
  shows "\<exists>r'. record_read crc l r = (Err (UnknownChannel 24), r')"
proof -
  let ?b = "24 # butlast (header_encode h)"
  have enc: "header_encode h \<noteq> []" "header_encode h ! 0 = 24"
    by (simp_all add: header_encode_def RECORD_HEADER_LEN_def)
  have eq: "24 # header_encode h @ rest = ?b @ last (header_encode h) # rest"
    using append_butlast_last_id [OF enc(1)] by (metis append_Cons append_Nil append_assoc)
  obtain r1 where "read_header_bytes r = (Ok ?b, r1)"
    using read_header_bytes_prompt [OF assms(1) [unfolded eq] assms(2)] by (auto simp: RECORD_HEADER_LEN_def)
  moreover have "header_decode ?b = Err (UnknownChannel 24)"
    using enc by (simp add: header_decode_def RECORD_HEADER_LEN_def nth_butlast channel_from_wire_def)
  ultimately show ?thesis by (simp add: record_read_def)
qed

lemma captured_sound:
  assumes "bytes_per_frame (au_format s) \<noteq> 0" "length period \<le> AUDIO_MAX_PAYLOAD" "\<not> list_all (\<lambda>b. b = 0) period"
  obtains s1 where "stream_captured period s = (Ok (Some \<lparr>sn_position = au_position s, sn_bytes = period\<rparr>, s1) :: ('e, _) outcome)"
    "au_format s1 = au_format s" "au_waiting s1 = au_waiting s"
proof -
  have "length period < 2 ^ 32" using assms(2) by (simp add: AUDIO_MAX_PAYLOAD_def)
  then have "length period div bytes_per_frame (au_format s) < 2 ^ 32" by (rule le_less_trans [OF div_le_dividend])
  from stream_captured_Ok [OF assms(1) this] show ?thesis using assms(3) that by (auto split: option.splits)
qed

lemma torn_write:
  assumes "sink_script w = Refuse n WouldBlock # evs" "length (sn_bytes s) \<le> AUDIO_MAX_PAYLOAD"
  shows "audio_write_record l (data_record crc s q g) w = (TooSlow, w\<lparr>sink_taken := sink_taken w @
    take n (header_encode (rec_header (data_record crc s q g))), sink_script := evs\<rparr>)"
  using assms data_record_length [OF assms(2), of crc q g]
  by (simp add: audio_write_record_def record_write_def write_payload_def timed_out_def Let_def)

lemma torn_record:
  assumes "bytes_per_frame (au_format (pm_stream p)) \<noteq> 0" "au_waiting (pm_stream p) = []"
    and "pm_sink p = \<lparr>sink_taken = [], sink_script = [Refuse 1 WouldBlock]\<rparr>"
    and "length a \<le> AUDIO_MAX_PAYLOAD" "length b \<le> AUDIO_MAX_PAYLOAD"
    and "\<not> list_all (\<lambda>x. x = 0) a" "\<not> list_all (\<lambda>x. x = 0) b"
  shows "\<exists>p' h. audio_loop crc g [Captured a, Captured b] p = (Ok (PumpWaiting, p') :: ('e, _) outcome) \<and>
    sink_taken (pm_sink p') = 24 # header_encode h @ b"
proof -
  obtain s1 where s1: "stream_captured a (pm_stream p) =
      (Ok (Some \<lparr>sn_position = au_position (pm_stream p), sn_bytes = a\<rparr>, s1) :: ('e, _) outcome)"
    "au_format s1 = au_format (pm_stream p)" "au_waiting s1 = []"
    using captured_sound [OF assms(1,4,6)] assms(2) by metis
  let ?x = "\<lparr>sn_position = au_position (pm_stream p), sn_bytes = a\<rparr>"
  let ?p1 = "p\<lparr>pm_stream := s1, pm_sequence := pm_sequence p + 1,
    pm_sink := \<lparr>sink_taken = [24], sink_script = []\<rparr>, pm_dropped := pm_dropped p + 1\<rparr>"
  have idem: "s\<lparr>au_waiting := []\<rparr> = s" if "au_waiting s = []" for s :: audio_stream using that by simp
  have "take 1 (header_encode h) = [24]" for h by (simp add: header_encode_def RECORD_HEADER_LEN_def)
  then have first: "audio_drain crc g (p\<lparr>pm_stream := stream_queue ?x s1\<rparr>) = (None, ?p1)"
    using s1(3) assms(3,4) idem [OF s1(3)]
    by (subst audio_drain_one [of _ ?x]) (simp_all add: stream_queue_def RING_PERIODS_def torn_write)
  have "bytes_per_frame (au_format s1) \<noteq> 0" using assms(1) s1(2) by simp
  from captured_sound [OF this assms(5,7)] obtain s2 where s2: "stream_captured b s1 =
      (Ok (Some \<lparr>sn_position = au_position s1, sn_bytes = b\<rparr>, s2) :: ('e, _) outcome)" "au_waiting s2 = []"
    using s1(3) by metis
  let ?y = "\<lparr>sn_position = au_position s1, sn_bytes = b\<rparr>"
  let ?h = "rec_header (data_record crc ?y (pm_sequence p + 1) g)"
  let ?p2 = "?p1\<lparr>pm_stream := s2, pm_sequence := pm_sequence p + 1 + 1,
    pm_sink := \<lparr>sink_taken = 24 # header_encode ?h @ b, sink_script = []\<rparr>, pm_dropped := 0\<rparr>"
  have second: "audio_drain crc g (?p1\<lparr>pm_stream := stream_queue ?y s2\<rparr>) = (None, ?p2)"
    using s2(2) assms(5) idem [OF s2(2)]
    by (subst audio_drain_one [of _ ?y]) (simp_all add: stream_queue_def RING_PERIODS_def audio_write_healthy)
  have "a \<noteq> []" "b \<noteq> []" using assms(6,7) by auto
  then have "audio_loop crc g [Captured a, Captured b] p = (Ok (PumpWaiting, ?p2) :: ('e, _) outcome)"
    using s1(1) first s2(1) second by simp
  then show ?thesis by (intro exI [of _ ?p2] exI [of _ ?h]) simp
qed

section \<open>Playing\<close>

lemma format_round_trip:
  "af_sample_rate f \<noteq> 0 \<Longrightarrow> af_channels f \<noteq> 0 \<Longrightarrow> af_frames_per_period f \<noteq> 0 \<Longrightarrow> format_of (format_message f) = Some f"
  by (cases "af_sample_format f") (simp_all add: format_of_def format_message_def wire_sample_format_def)

lemma format_of_width: "format_of m = Some f \<Longrightarrow> bytes_per_frame f \<noteq> 0"
  by (cases "af_sample_format f") (auto simp: format_of_def bytes_per_frame_def split: option.splits if_splits)

lemma wave_format_of_Panic:
  "wave_format_of f = Panic \<longleftrightarrow>
     (let width = sample_bytes (af_sample_format f) * (if af_channels f \<le> u16_max then af_channels f else 2) in
      u16_max < 8 * width \<or> u32_max < af_sample_rate f * width)"
  by (cases "af_sample_format f") (auto simp: wave_format_of_def Let_def)

lemma wave_format_of_block:
  "wave_format_of f = Ok wave \<Longrightarrow> af_channels f \<le> u16_max \<Longrightarrow> wv_block_align wave = bytes_per_frame f"
  by (cases "af_sample_format f") (auto simp: wave_format_of_def bytes_per_frame_def Let_def split: if_splits)

text \<open>A renderer that was built for its format.\<close>

definition renderer_fits :: "renderer \<Rightarrow> bool" where
  "renderer_fits r \<longleftrightarrow> wave_format_of (rn_format r) = (Ok (rn_wave r) :: (unit, _) outcome) \<and> bytes_per_frame (rn_format r) \<noteq> 0"

lemma wave_format_of_poly: "wave_format_of f = (Ok wave :: ('e, _) outcome) \<longleftrightarrow> wave_format_of f = (Ok wave :: ('f, _) outcome)"
  by (auto simp: wave_format_of_def Let_def)

lemma audio_handle_fits:
  assumes "audio_handle dec built endpoint h payload muted renderer = (Ok (played, Some r) :: ('e, _) outcome)"
    and "\<And>r. renderer = Some r \<Longrightarrow> renderer_fits r"
  shows "renderer_fits r"
proof -
  have new: "renderer_fits r1" if "renderer_new f = (Ok r1 :: ('e, _) outcome)" "format_of m = Some f" for r1 f m
    using that wave_format_of_poly format_of_width by (fastforce simp: renderer_new_def renderer_fits_def)
  have set: "renderer_fits r1"
    if "renderer_set_format f r0 = (Ok r1 :: ('e, _) outcome)" "format_of m = Some f" "renderer_fits r0" for r0 r1 f m
    using that wave_format_of_poly format_of_width
    by (fastforce simp: renderer_set_format_def renderer_fits_def split: if_splits)
  have play: "renderer_fits r1"
    if "renderer_play endpoint position pcm r0 = (Ok (played, r1) :: ('e, _) outcome)" "renderer_fits r0" for position pcm r0 r1 played
    using that by (auto simp: renderer_play_def renderer_fits_def Let_def split: if_splits option.splits)
  show ?thesis
    using assms new set play
    by (auto simp: audio_handle_def renderer_fits_def split: if_splits option.splits)
qed

lemma renderer_play_overrun:
  assumes "renderer_fits r" "af_channels (rn_format r) \<le> u16_max" "length pcm \<le> AUDIO_MAX_PAYLOAD"
    and "renderer_play endpoint position pcm r = (Ok (PlayedInto copied capacity, r') :: ('e, _) outcome)"
  shows "capacity = length pcm - length pcm mod bytes_per_frame (rn_format r) \<and> copied = length pcm"
proof -
  let ?w = "bytes_per_frame (rn_format r)"
  have w: "?w \<noteq> 0" "wv_block_align (rn_wave r) = ?w"
    using assms(1,2) wave_format_of_block by (auto simp: renderer_fits_def)
  have "length pcm < 2 ^ 32" using assms(3) by (simp add: AUDIO_MAX_PAYLOAD_def)
  then have small: "length pcm div ?w < 2 ^ 32" by (rule le_less_trans [OF div_le_dividend])
  then have "unat (of_nat (length pcm div ?w) :: u32) = length pcm div ?w" by (simp add: unat_of_nat take_bit_nat_eq_self)
  then show ?thesis
    using assms(4) w small minus_mod_eq_div_mult [of "length pcm" ?w]
    by (auto simp: renderer_play_def frames_in_Ok Let_def split: if_splits option.splits)
qed

end
