(* ===== verification/Worker_Registry.thy ===== *)
theory Worker_Registry
  imports Prelude "HOL-Library.Multiset"
begin

text \<open>
  The threads that work for the host's repository and what becomes of their results: VMs being
  started (\<open>platform/src/start_registry.rs\<close>), VMs being created (\<open>build.rs\<close>), updates of the display
  payload (\<open>display_updates.rs\<close>), and the requests to shut down, stop and reboot
  (\<open>shutdown_workers.rs\<close>, \<open>force_stop_workers.rs\<close>, \<open>reboot_workers.rs\<close>).

  A thread is the three moments of it that others can see: it works, it has parked its result, it
  has raised its flag and is gone. What its closure goes on to return is part of the thread; a
  closure that panics returns nothing. A \<open>HashMap\<close> is walked in an order of its own, which is an
  argument of the operations that walk one.
\<close>

section \<open>A thread and the cell it shares\<close>

datatype 'v thread = Working "'v option" | Leaving | Left

record ('a, 'v) job =
  jb_about :: 'a
  jb_finished :: bool
  jb_outcome :: "'v option"
  jb_thread :: "'v thread"

definition job_new :: "'a \<Rightarrow> 'v option \<Rightarrow> ('a, 'v) job" where
  "job_new about result = \<lparr>jb_about = about, jb_finished = False, jb_outcome = None, jb_thread = Working result\<rparr>"

text \<open>The outcome is stored before \<open>Finish\<close> is dropped.\<close>

definition job_step :: "('a, 'v) job \<Rightarrow> ('a, 'v) job" where
  "job_step j =
     (case jb_thread j of
        Working (Some v) \<Rightarrow> j\<lparr>jb_outcome := Some v, jb_thread := Leaving\<rparr>
      | Working None \<Rightarrow> j\<lparr>jb_thread := Leaving\<rparr>
      | Leaving \<Rightarrow> j\<lparr>jb_finished := True, jb_thread := Left\<rparr>
      | Left \<Rightarrow> j)"

definition job_join :: "('a, 'v) job \<Rightarrow> ('a, 'v) job" where
  "job_join j = job_step (job_step j)"

text \<open>What a job has parked or will park.\<close>

definition eventual :: "('a, 'v) job \<Rightarrow> 'v option" where
  "eventual j = (case jb_thread j of Working result \<Rightarrow> result | _ \<Rightarrow> jb_outcome j)"

definition wf_job :: "('a, 'v) job \<Rightarrow> bool" where
  "wf_job j \<longleftrightarrow> (jb_finished j \<longleftrightarrow> jb_thread j = Left) \<and> (\<forall>r. jb_thread j = Working r \<longrightarrow> jb_outcome j = None)"

lemma wf_job_new [simp]: "wf_job (job_new about result)"
  by (simp add: wf_job_def job_new_def)

lemma eventual_job_new [simp]: "eventual (job_new about result) = result"
  by (simp add: eventual_def job_new_def)

lemma job_step_kept [simp]:
  "wf_job j \<Longrightarrow> wf_job (job_step j)" "wf_job j \<Longrightarrow> eventual (job_step j) = eventual j" "jb_about (job_step j) = jb_about j"
  by (auto simp: wf_job_def job_step_def eventual_def split: thread.splits option.splits)

lemma job_join_done:
  assumes "wf_job j"
  shows "jb_finished (job_join j)" "jb_outcome (job_join j) = eventual j"
  using assms
  by (auto simp: job_join_def job_step_def wf_job_def eventual_def split: thread.splits option.splits)

lemma finished_outcome: "wf_job j \<Longrightarrow> jb_finished j \<Longrightarrow> jb_outcome j = eventual j"
  by (simp add: wf_job_def eventual_def)

section \<open>Registries by name\<close>

datatype registry_error = AlreadyInFlight | SpawnFailed | StillBusy | NotInFlight | EndedWithoutAnswer | Refused string

record ('a, 'v) registry =
  rg_jobs :: "string \<rightharpoonup> ('a, 'v) job"
  rg_started :: "'v list"

definition registry_new :: "('a, 'v) registry" where
  "registry_new = \<lparr>rg_jobs = Map.empty, rg_started = []\<rparr>"

text \<open>\<open>collect_into\<close>: what a job has parked by now.\<close>

definition parked :: "('a, 'v) job \<Rightarrow> 'v list" where
  "parked j = (case jb_outcome j of None \<Rightarrow> [] | Some v \<Rightarrow> [v])"

definition collect_into :: "'v list \<Rightarrow> ('a, 'v) job \<Rightarrow> 'v list" where
  "collect_into started j = started @ parked j"

definition registry_drop :: "string \<Rightarrow> ('a, 'v) registry \<Rightarrow> ('a, 'v) registry" where
  "registry_drop name r =
     (case rg_jobs r name of
        None \<Rightarrow> r
      | Some j \<Rightarrow> r\<lparr>rg_jobs := (rg_jobs r)(name := None), rg_started := collect_into (rg_started r) j\<rparr>)"

definition job_over :: "('a, 'v) registry \<Rightarrow> string \<Rightarrow> bool" where
  "job_over r name = (case rg_jobs r name of None \<Rightarrow> False | Some j \<Rightarrow> jb_finished j)"

definition reap :: "string list \<Rightarrow> ('a, 'v) registry \<Rightarrow> ('a, 'v) registry" where
  "reap order r = fold registry_drop (filter (job_over r) order) r"

definition registry_contains :: "string list \<Rightarrow> string \<Rightarrow> ('a, 'v) registry \<Rightarrow> bool \<times> ('a, 'v) registry" where
  "registry_contains order name r = (let r1 = reap order r in (rg_jobs r1 name \<noteq> None, r1))"

text \<open>\<open>spawned\<close> is whether the system gives a thread.\<close>

definition registry_start ::
    "bool \<Rightarrow> string \<Rightarrow> 'a \<Rightarrow> 'v option \<Rightarrow> ('a, 'v) registry \<Rightarrow> (registry_error, unit) outcome \<times> ('a, 'v) registry" where
  "registry_start spawned name about result r =
     (if rg_jobs r name \<noteq> None then (Err AlreadyInFlight, r)
      else if \<not> spawned then (Err SpawnFailed, r)
      else (Ok (), r\<lparr>rg_jobs := (rg_jobs r)(name \<mapsto> job_new about result)\<rparr>))"

definition refuse_if_starting ::
    "string list \<Rightarrow> string \<Rightarrow> ('a, 'v) registry \<Rightarrow> (registry_error, unit) outcome \<times> ('a, 'v) registry" where
  "refuse_if_starting order name r =
     (case registry_contains order name r of (busy, r1) \<Rightarrow> (if busy then Err StillBusy else Ok (), r1))"

definition take_started :: "string list \<Rightarrow> ('a, 'v) registry \<Rightarrow> 'v list \<times> ('a, 'v) registry" where
  "take_started order r = (let r1 = reap order r in (rg_started r1, r1\<lparr>rg_started := []\<rparr>))"

text \<open>
  The shutdown: each job's outcome is looked at before its thread is waited for. How far a thread
  has come by then is \<open>late\<close>, for other threads go on while one is waited for.
\<close>

definition join_one :: "(string \<Rightarrow> nat) \<Rightarrow> string \<Rightarrow> ('a, 'v) registry \<Rightarrow> ('a, 'v) registry" where
  "join_one late name r =
     (case rg_jobs r name of
        None \<Rightarrow> r
      | Some j \<Rightarrow> r\<lparr>rg_jobs := (rg_jobs r)(name := None),
          rg_started := collect_into (rg_started r) ((job_step ^^ late name) j)\<rparr>)"

definition join_all :: "string list \<Rightarrow> (string \<Rightarrow> nat) \<Rightarrow> ('a, 'v) registry \<Rightarrow> ('a, 'v) registry" where
  "join_all order late r = (fold (join_one late) order r)\<lparr>rg_jobs := Map.empty\<rparr>"

text \<open>The build registry's jobs carry the flag their monitor is cancelled by.\<close>

definition build_cancel :: "string \<Rightarrow> (bool, 'v) registry \<Rightarrow> (registry_error, unit) outcome \<times> (bool, 'v) registry" where
  "build_cancel name r =
     (case rg_jobs r name of
        None \<Rightarrow> (Err NotInFlight, r)
      | Some j \<Rightarrow> (Ok (), r\<lparr>rg_jobs := (rg_jobs r)(name \<mapsto> j\<lparr>jb_about := True\<rparr>)\<rparr>))"

definition cancel_all_and_join :: "string list \<Rightarrow> (string \<Rightarrow> nat) \<Rightarrow> (bool, 'v) registry \<Rightarrow> (bool, 'v) registry" where
  "cancel_all_and_join order late r =
     join_all order late (r\<lparr>rg_jobs := (\<lambda>n. map_option (jb_about_update (\<lambda>_. True)) (rg_jobs r n))\<rparr>)"

text \<open>An update of the display payload reaps before it is refused.\<close>

definition update_start ::
    "string list \<Rightarrow> bool \<Rightarrow> string \<Rightarrow> (unit, unit) registry \<Rightarrow> (registry_error, unit) outcome \<times> (unit, unit) registry" where
  "update_start order spawned name r = registry_start spawned name () None (reap order r)"

section \<open>Requests by VM\<close>

type_synonym uuid = "128 word"
type_synonym answer = "(registry_error, unit) outcome"

record worker =
  wk_vm_id :: uuid
  wk_vm_name :: string
  wk_job :: "(unit, answer) job"

record finished_request =
  fr_vm_id :: uuid
  fr_vm_name :: string
  fr_result :: answer

definition worker_start ::
    "bool \<Rightarrow> uuid \<Rightarrow> string \<Rightarrow> answer option \<Rightarrow> worker list \<Rightarrow> (registry_error, unit) outcome \<times> worker list" where
  "worker_start spawned vm_id vm_name result ws =
     (if list_ex (\<lambda>w. wk_vm_id w = vm_id) ws then (Err AlreadyInFlight, ws)
      else if \<not> spawned then (Err SpawnFailed, ws)
      else (Ok (), ws @ [\<lparr>wk_vm_id = vm_id, wk_vm_name = vm_name, wk_job = job_new () result\<rparr>]))"

definition worker_collect :: "worker \<Rightarrow> finished_request" where
  "worker_collect w =
     \<lparr>fr_vm_id = wk_vm_id w, fr_vm_name = wk_vm_name w,
      fr_result = (case jb_outcome (job_join (wk_job w)) of Some r \<Rightarrow> r | None \<Rightarrow> Err EndedWithoutAnswer)\<rparr>"

primrec take_finished :: "worker list \<Rightarrow> finished_request list \<times> worker list" where
  "take_finished [] = ([], [])"
| "take_finished (w # ws) =
     (case take_finished ws of (done_, busy) \<Rightarrow>
        if jb_finished (wk_job w) then (worker_collect w # done_, busy) else (done_, w # busy))"

text \<open>Waiting for all of them; the answers that are refusals are only logged.\<close>

definition workers_join_all :: "worker list \<Rightarrow> finished_request list \<times> worker list" where
  "workers_join_all ws = (map worker_collect ws, [])"

section \<open>The contract of a hand-over\<close>

text \<open>
  What the repository relies on, whichever way the results are kept: for every interleaving of
  launches, of the threads' steps and of collections, each result is handed over once.
\<close>

datatype ('k, 'v, 'o) turn = Launch 'k "'v option" | Progress 'k | Collect 'o

fun handover_run ::
    "('k \<Rightarrow> 'v option \<Rightarrow> 's \<Rightarrow> 's option) \<Rightarrow> ('k \<Rightarrow> 's \<Rightarrow> 's) \<Rightarrow> ('o \<Rightarrow> 's \<Rightarrow> 'u list \<times> 's) \<Rightarrow>
     ('k, 'v, 'o) turn list \<Rightarrow> 's \<Rightarrow> ('k \<times> 'v option) list \<times> 'u list \<times> 's" where
  "handover_run launch progress collect [] s = ([], [], s)"
| "handover_run launch progress collect (Launch k r # ts) s =
     (case launch k r s of
        None \<Rightarrow> handover_run launch progress collect ts s
      | Some s1 \<Rightarrow> (case handover_run launch progress collect ts s1 of (ls, us, s2) \<Rightarrow> ((k, r) # ls, us, s2)))"
| "handover_run launch progress collect (Progress k # ts) s = handover_run launch progress collect ts (progress k s)"
| "handover_run launch progress collect (Collect q # ts) s =
     (case collect q s of (vs, s1) \<Rightarrow>
        (case handover_run launch progress collect ts s1 of (ls, us, s2) \<Rightarrow> (ls, vs @ us, s2)))"

locale handover =
  fixes inv :: "'s \<Rightarrow> bool"
    and pending :: "'s \<Rightarrow> 'u multiset"
    and promise :: "'k \<Rightarrow> 'v option \<Rightarrow> 'u multiset"
    and launch :: "'k \<Rightarrow> 'v option \<Rightarrow> 's \<Rightarrow> 's option"
    and progress :: "'k \<Rightarrow> 's \<Rightarrow> 's"
    and collect :: "'o \<Rightarrow> 's \<Rightarrow> 'u list \<times> 's"
  assumes launch_law: "inv s \<Longrightarrow> launch k r s = Some s1 \<Longrightarrow> inv s1 \<and> pending s1 = pending s + promise k r"
    and progress_law: "inv s \<Longrightarrow> inv (progress k s) \<and> pending (progress k s) = pending s"
    and collect_law: "inv s \<Longrightarrow> collect q s = (us, s1) \<Longrightarrow> inv s1 \<and> pending s = mset us + pending s1"
begin

lemma run_law:
  "inv s \<Longrightarrow> handover_run launch progress collect ts s = (ls, us, s2) \<Longrightarrow>
     inv s2 \<and> pending s + (\<Sum>(k, r) \<leftarrow> ls. promise k r) = mset us + pending s2"
proof (induction ts arbitrary: s ls us s2)
  case (Cons t ts)
  show ?case
  proof (cases t)
    case (Launch k r)
    show ?thesis
    proof (cases "launch k r s")
      case None
      then show ?thesis using Cons Launch by auto
    next
      case (Some s1)
      obtain ls1 us1 s3 where run: "handover_run launch progress collect ts s1 = (ls1, us1, s3)"
        by (cases "handover_run launch progress collect ts s1")
      with Cons.prems Launch Some have "ls = (k, r) # ls1" "us = us1" "s2 = s3" by auto
      with Cons.IH [OF _ run] launch_law [OF Cons.prems(1) Some] show ?thesis by (simp add: ac_simps)
    qed
  next
    case (Progress k)
    then show ?thesis using Cons.IH [of "progress k s" ls us s2] Cons.prems progress_law [of s k] by simp
  next
    case (Collect q)
    obtain vs s1 where c: "collect q s = (vs, s1)" by (cases "collect q s")
    obtain ls1 us1 s3 where run: "handover_run launch progress collect ts s1 = (ls1, us1, s3)"
      by (cases "handover_run launch progress collect ts s1")
    with Cons.prems Collect c have "ls = ls1" "us = vs @ us1" "s2 = s3" by auto
    with Cons.IH [OF _ run] collect_law [OF Cons.prems(1) c] show ?thesis by (simp add: ac_simps)
  qed
qed simp

end

section \<open>The registries keep the contract\<close>

definition pending_of :: "('a, 'v) job \<Rightarrow> 'v multiset" where
  "pending_of j = (case eventual j of None \<Rightarrow> {#} | Some v \<Rightarrow> {#v#})"

definition registry_pending :: "('a, 'v) registry \<Rightarrow> 'v multiset" where
  "registry_pending r = mset (rg_started r) + (\<Sum>n \<in> dom (rg_jobs r). pending_of (the (rg_jobs r n)))"

definition wf_registry :: "('a, 'v) registry \<Rightarrow> bool" where
  "wf_registry r \<longleftrightarrow> finite (dom (rg_jobs r)) \<and> (\<forall>n j. rg_jobs r n = Some j \<longrightarrow> wf_job j)"

definition result_promise :: "string \<Rightarrow> 'v option \<Rightarrow> 'v multiset" where
  "result_promise name result = (case result of None \<Rightarrow> {#} | Some v \<Rightarrow> {#v#})"

datatype query = Ask "string list" string | Take "string list"

definition registry_launch :: "string \<Rightarrow> 'v option \<Rightarrow> (unit, 'v) registry \<Rightarrow> (unit, 'v) registry option" where
  "registry_launch name result r =
     (case registry_start True name () result r of (Ok _, r1) \<Rightarrow> Some r1 | _ \<Rightarrow> None)"

definition registry_progress :: "string \<Rightarrow> ('a, 'v) registry \<Rightarrow> ('a, 'v) registry" where
  "registry_progress name r = r\<lparr>rg_jobs := (\<lambda>n. if n = name then map_option job_step (rg_jobs r n) else rg_jobs r n)\<rparr>"

fun registry_collect :: "query \<Rightarrow> ('a, 'v) registry \<Rightarrow> 'v list \<times> ('a, 'v) registry" where
  "registry_collect (Ask order name) r = ([], snd (registry_contains order name r))"
| "registry_collect (Take order) r = take_started order r"

lemma wf_registry_new [simp]: "wf_registry registry_new"
  by (simp add: wf_registry_def registry_new_def)

lemma registry_pending_new [simp]: "registry_pending registry_new = {#}"
  by (simp add: registry_pending_def registry_new_def)

lemma pending_drop:
  assumes "wf_registry r" "rg_jobs r name = Some j" "jb_outcome j' = eventual j"
  shows "registry_pending (r\<lparr>rg_jobs := (rg_jobs r)(name := None), rg_started := collect_into (rg_started r) j'\<rparr>) = registry_pending r"
proof -
  have "(\<Sum>n \<in> dom (rg_jobs r). pending_of (the (rg_jobs r n))) =
    pending_of j + (\<Sum>n \<in> dom (rg_jobs r) - {name}. pending_of (the (rg_jobs r n)))"
    using assms by (subst sum.remove [of _ name]) (auto simp: wf_registry_def)
  then show ?thesis using assms
    by (auto simp: registry_pending_def collect_into_def parked_def pending_of_def split: option.splits)
qed

lemma registry_drop_kept:
  assumes "wf_registry r" "job_over r name"
  shows "wf_registry (registry_drop name r)" "registry_pending (registry_drop name r) = registry_pending r"
    "job_over (registry_drop name r) n \<longleftrightarrow> job_over r n \<and> n \<noteq> name"
  using assms pending_drop [of r name "the (rg_jobs r name)" "the (rg_jobs r name)"] finished_outcome
  by (auto simp: registry_drop_def job_over_def wf_registry_def split: option.splits if_splits)

lemma registry_drops_kept:
  "wf_registry r \<Longrightarrow> \<forall>n \<in> set ns. rg_jobs r n = None \<or> job_over r n \<Longrightarrow>
     wf_registry (fold registry_drop ns r) \<and> registry_pending (fold registry_drop ns r) = registry_pending r"
proof (induction ns arbitrary: r)
  case (Cons n ns)
  have "wf_registry (registry_drop n r) \<and> registry_pending (registry_drop n r) = registry_pending r"
    using Cons.prems registry_drop_kept [of r n] by (cases "job_over r n") (auto simp: registry_drop_def)
  moreover have "\<forall>m \<in> set ns. rg_jobs (registry_drop n r) m = None \<or> job_over (registry_drop n r) m"
    using Cons.prems(2) by (auto simp: registry_drop_def job_over_def split: option.splits)
  ultimately show ?case using Cons.IH [of "registry_drop n r"] by simp
qed simp

lemma reap_kept:
  assumes "wf_registry r"
  shows "wf_registry (reap order r)" "registry_pending (reap order r) = registry_pending r"
  using registry_drops_kept [of r "filter (job_over r) order"] assms by (auto simp: reap_def)

interpretation starts: handover wf_registry registry_pending result_promise registry_launch registry_progress registry_collect
proof
  fix r r1 :: "(unit, 'v) registry" and name result
  assume wf: "wf_registry r" and "registry_launch name result r = Some r1"
  then have "rg_jobs r name = None" and r1: "r1 = r\<lparr>rg_jobs := (rg_jobs r)(name \<mapsto> job_new () result)\<rparr>"
    by (auto simp: registry_launch_def registry_start_def split: if_splits)
  then have "registry_pending r1 = registry_pending r + result_promise name result"
    using wf by (auto simp: registry_pending_def wf_registry_def pending_of_def result_promise_def domIff
        intro!: sum.cong split: option.splits)
  with wf r1 show "wf_registry r1 \<and> registry_pending r1 = registry_pending r + result_promise name result"
    by (auto simp: wf_registry_def)
next
  fix r :: "(unit, 'v) registry" and name
  assume wf: "wf_registry r"
  have "pending_of (the (rg_jobs (registry_progress name r) n)) = pending_of (the (rg_jobs r n))" if "n \<in> dom (rg_jobs r)" for n
    using that wf by (auto simp: registry_progress_def pending_of_def wf_registry_def)
  moreover have "dom (rg_jobs (registry_progress name r)) = dom (rg_jobs r)" by (auto simp: registry_progress_def dom_def split: if_splits)
  ultimately show "wf_registry (registry_progress name r) \<and> registry_pending (registry_progress name r) = registry_pending r"
    using wf by (auto simp: registry_pending_def wf_registry_def registry_progress_def cong: sum.cong split: if_splits)
next
  fix r r1 :: "(unit, 'v) registry" and q us
  assume "wf_registry r" "registry_collect q r = (us, r1)"
  then show "wf_registry r1 \<and> registry_pending r = mset us + registry_pending r1"
    using reap_kept [of r] by (cases q) (auto simp: registry_contains_def take_started_def Let_def wf_registry_def registry_pending_def)
qed

lemma fold_registry_drop_jobs:
  "rg_jobs (fold registry_drop ns r) n = (if n \<in> set ns then None else rg_jobs r n)"
  by (induction ns arbitrary: r) (auto simp: registry_drop_def split: option.splits)

lemma reap_jobs: "rg_jobs (reap order r) n = (if n \<in> set order \<and> job_over r n then None else rg_jobs r n)"
  by (simp add: reap_def fold_registry_drop_jobs)

text \<open>A walk over all names leaves the jobs that are still at work.\<close>

lemma reap_complete:
  assumes "dom (rg_jobs r) \<subseteq> set order"
  shows "rg_jobs (reap order r) n = (case rg_jobs r n of Some j \<Rightarrow> if jb_finished j then None else Some j | None \<Rightarrow> None)"
  using assms by (auto simp: reap_jobs job_over_def split: option.splits)

section \<open>The requests keep the contract\<close>

definition wf_workers :: "worker list \<Rightarrow> bool" where
  "wf_workers ws \<longleftrightarrow> distinct (map wk_vm_id ws) \<and> list_all (\<lambda>w. wf_job (wk_job w)) ws"

definition workers_pending :: "worker list \<Rightarrow> finished_request multiset" where
  "workers_pending ws = mset (map worker_collect ws)"

definition answer_promise :: "uuid \<times> string \<Rightarrow> answer option \<Rightarrow> finished_request multiset" where
  "answer_promise vm result =
     {#\<lparr>fr_vm_id = fst vm, fr_vm_name = snd vm,
        fr_result = (case result of Some r \<Rightarrow> r | None \<Rightarrow> Err EndedWithoutAnswer)\<rparr>#}"

definition workers_launch :: "uuid \<times> string \<Rightarrow> answer option \<Rightarrow> worker list \<Rightarrow> worker list option" where
  "workers_launch vm result ws =
     (case worker_start True (fst vm) (snd vm) result ws of (Ok _, ws1) \<Rightarrow> Some ws1 | _ \<Rightarrow> None)"

definition worker_step :: "uuid \<Rightarrow> worker \<Rightarrow> worker" where
  "worker_step vm_id w = (if wk_vm_id w = vm_id then w\<lparr>wk_job := job_step (wk_job w)\<rparr> else w)"

definition workers_progress :: "uuid \<times> string \<Rightarrow> worker list \<Rightarrow> worker list" where
  "workers_progress vm ws = map (worker_step (fst vm)) ws"

definition workers_collect :: "unit \<Rightarrow> worker list \<Rightarrow> finished_request list \<times> worker list" where
  "workers_collect _ ws = take_finished ws"

lemma worker_collect_wf:
  "wf_job (wk_job w) \<Longrightarrow> worker_collect w =
     \<lparr>fr_vm_id = wk_vm_id w, fr_vm_name = wk_vm_name w,
      fr_result = (case eventual (wk_job w) of Some r \<Rightarrow> r | None \<Rightarrow> Err EndedWithoutAnswer)\<rparr>"
  by (simp add: worker_collect_def job_join_done)

lemma worker_step_kept:
  "wf_job (wk_job w) \<Longrightarrow> wf_job (wk_job (worker_step vm w)) \<and> worker_collect (worker_step vm w) = worker_collect w"
  "wk_vm_id (worker_step vm w) = wk_vm_id w"
  by (simp_all add: worker_collect_wf worker_step_def)

lemma take_finished_parts:
  "take_finished ws = (map worker_collect (filter (\<lambda>w. jb_finished (wk_job w)) ws), filter (\<lambda>w. \<not> jb_finished (wk_job w)) ws)"
  by (induction ws) auto

interpretation requests: handover wf_workers workers_pending answer_promise workers_launch workers_progress workers_collect
proof
  fix ws ws1 :: "worker list" and vm result
  assume "wf_workers ws" "workers_launch vm result ws = Some ws1"
  then show "wf_workers ws1 \<and> workers_pending ws1 = workers_pending ws + answer_promise vm result"
    by (auto simp: workers_launch_def worker_start_def wf_workers_def workers_pending_def answer_promise_def worker_collect_wf
        list_ex_iff split: if_splits) blast
next
  fix ws :: "worker list" and vm
  assume "wf_workers ws"
  then show "wf_workers (workers_progress vm ws) \<and> workers_pending (workers_progress vm ws) = workers_pending ws"
    by (auto simp: workers_progress_def wf_workers_def workers_pending_def worker_step_kept list_all_iff comp_def
        intro!: arg_cong [where f = mset] map_cong cong: map_cong)
next
  fix ws ws1 us and q :: unit
  assume "wf_workers ws" "workers_collect q ws = (us, ws1)"
  moreover have "mset (map worker_collect ws) =
    mset (map worker_collect (filter (\<lambda>w. jb_finished (wk_job w)) ws)) + mset (map worker_collect (filter (\<lambda>w. \<not> jb_finished (wk_job w)) ws))"
    by (induction ws) auto
  ultimately show "wf_workers ws1 \<and> workers_pending ws = mset us + workers_pending ws1"
    by (auto simp: workers_collect_def take_finished_parts wf_workers_def workers_pending_def distinct_map_filter list_all_iff)
qed

section \<open>What a shutdown collects\<close>

lemma join_loop_started:
  assumes "distinct ns" "set ns \<subseteq> dom (rg_jobs r)"
  shows "rg_started (fold (join_one late) ns r) = rg_started r @ concat (map (\<lambda>n. parked ((job_step ^^ late n) (the (rg_jobs r n)))) ns)"
  using assms
proof (induction ns arbitrary: r)
  case (Cons n ns)
  then obtain j where j: "rg_jobs r n = Some j" by auto
  have "set ns \<subseteq> dom (rg_jobs (join_one late n r))" using Cons.prems j by (auto simp: join_one_def)
  with Cons have "rg_started (fold (join_one late) (n # ns) r) = rg_started (join_one late n r) @
      concat (map (\<lambda>m. parked ((job_step ^^ late m) (the (rg_jobs (join_one late n r) m)))) ns)" by simp
  also have "map (\<lambda>m. parked ((job_step ^^ late m) (the (rg_jobs (join_one late n r) m)))) ns =
      map (\<lambda>m. parked ((job_step ^^ late m) (the (rg_jobs r m)))) ns"
    using Cons.prems j by (intro map_cong) (auto simp: join_one_def)
  finally show ?case using j by (simp add: join_one_def collect_into_def)
qed simp

lemma join_all_started:
  assumes "distinct order" "set order = dom (rg_jobs r)"
  shows "rg_started (join_all order late r) = rg_started r @ concat (map (\<lambda>n. parked ((job_step ^^ late n) (the (rg_jobs r n)))) order)"
  using join_loop_started [of order r late] assms by (simp add: join_all_def)

end
