(* ===== verification/Vm_Watch.thy ===== *)
theory Vm_Watch
  imports Worker_Registry
begin

text \<open>
  The compute systems the host holds and the events it hears about them: the queue a watch writes
  into and what a drain makes of it (\<open>platform/src/watch.rs\<close>), and the handles with the generations of
  their watches (\<open>platform/src/reconnect.rs\<close>). The numbers of the event types, what opening a compute
  system gives and whether a callback can be registered belong to Windows and are arguments.
\<close>

type_synonym u64 = "64 word"

section \<open>The event queue\<close>

datatype HcsEventKind = Exited | CrashInitiated | CrashReport | ServiceDisconnect | Ignored int

record hcs_event_types =
  et_exited :: int
  et_crash_initiated :: int
  et_crash_report :: int
  et_service_disconnect :: int

definition classify :: "hcs_event_types \<Rightarrow> int \<Rightarrow> HcsEventKind" where
  "classify t v =
     (if v = et_exited t then Exited
      else if v = et_crash_initiated t then CrashInitiated
      else if v = et_crash_report t then CrashReport
      else if v = et_service_disconnect t then ServiceDisconnect
      else Ignored v)"

record hcs_vm_event =
  ev_vm_id :: uuid
  ev_vm_name :: string
  ev_generation :: u64
  ev_kind :: HcsEventKind
  ev_details :: "string option"

definition EVENT_CAPACITY :: nat where "EVENT_CAPACITY = 256"

record event_sink =
  sk_events :: "hcs_vm_event list"
  sk_dropped :: nat
  sk_next_generation :: u64

definition sink_new :: event_sink where
  "sink_new = \<lparr>sk_events = [], sk_dropped = 0, sk_next_generation = 0\<rparr>"

definition sink_push :: "hcs_vm_event \<Rightarrow> event_sink \<Rightarrow> event_sink" where
  "sink_push event s =
     (let s1 = (if length (sk_events s) = EVENT_CAPACITY
                then s\<lparr>sk_events := tl (sk_events s), sk_dropped := sk_dropped s + 1\<rparr> else s) in
      s1\<lparr>sk_events := sk_events s1 @ [event]\<rparr>)"

definition sink_drain :: "event_sink \<Rightarrow> (hcs_vm_event list \<times> nat) \<times> event_sink" where
  "sink_drain s = ((sk_events s, sk_dropped s), s\<lparr>sk_events := [], sk_dropped := 0\<rparr>)"

definition sink_take_generation :: "event_sink \<Rightarrow> u64 \<times> event_sink" where
  "sink_take_generation s = (sk_next_generation s, s\<lparr>sk_next_generation := sk_next_generation s + 1\<rparr>)"

definition releases_handle :: "HcsEventKind \<Rightarrow> bool" where
  "releases_handle k \<longleftrightarrow> k = Exited \<or> k = ServiceDisconnect"

record drained_events =
  dn_released :: "uuid list"
  dn_stopped :: "uuid list"
  dn_service_disconnected :: bool

definition drain_one :: "(uuid \<Rightarrow> u64 \<Rightarrow> bool) \<Rightarrow> hcs_vm_event \<Rightarrow> drained_events \<Rightarrow> drained_events" where
  "drain_one superseded event d =
     (if superseded (ev_vm_id event) (ev_generation event) then d
      else d\<lparr>dn_released := dn_released d @ (if releases_handle (ev_kind event) then [ev_vm_id event] else []),
             dn_stopped := dn_stopped d @ (if ev_kind event = Exited then [ev_vm_id event] else []),
             dn_service_disconnected := dn_service_disconnected d \<or> ev_kind event = ServiceDisconnect\<rparr>)"

definition drain_events :: "(uuid \<Rightarrow> u64 \<Rightarrow> bool) \<Rightarrow> event_sink \<Rightarrow> drained_events \<times> event_sink" where
  "drain_events superseded s =
     (case sink_drain s of ((events, dropped), s1) \<Rightarrow>
        (fold (drain_one superseded) events \<lparr>dn_released = [], dn_stopped = [], dn_service_disconnected = False\<rparr>, s1))"

section \<open>The handles that are held\<close>

record watched_system =
  ws_watched :: bool
  ws_generation :: u64

type_synonym vm_connections = "uuid \<rightharpoonup> watched_system"

definition supersedes :: "u64 option \<Rightarrow> u64 \<Rightarrow> bool" where
  "supersedes held event = (case held of None \<Rightarrow> False | Some g \<Rightarrow> g \<noteq> event)"

definition is_superseded :: "vm_connections \<Rightarrow> uuid \<Rightarrow> u64 \<Rightarrow> bool" where
  "is_superseded c vm_id g = supersedes (map_option ws_generation (c vm_id)) g"

definition conn_insert :: "bool \<Rightarrow> uuid \<Rightarrow> vm_connections \<times> event_sink \<Rightarrow> (string, unit) outcome \<times> vm_connections \<times> event_sink" where
  "conn_insert registered vm_id cs =
     (case cs of (c, s) \<Rightarrow> case sink_take_generation s of (g, s1) \<Rightarrow>
        (if registered then Ok () else Err ''held but unwatched'',
         (c(vm_id := None))(vm_id \<mapsto> \<lparr>ws_watched = registered, ws_generation = g\<rparr>), s1))"

definition conn_remove :: "uuid \<Rightarrow> vm_connections \<Rightarrow> vm_connections" where
  "conn_remove vm_id c = c(vm_id := None)"

definition is_connected :: "uuid \<Rightarrow> vm_connections \<Rightarrow> bool" where
  "is_connected vm_id c \<longleftrightarrow> c vm_id \<noteq> None"

section \<open>Reconnecting after a restart\<close>

datatype ReconnectOutcome = Reconnected | Absent | ReconnectFailed string

text \<open>What HCS says when a system is to be opened: it is there, it is not, or it will not open.\<close>

datatype open_result = Opened | NotPresent | OpenFailed string

record vm_mapping =
  mp_vm_id :: uuid
  mp_vm_name :: string
  mp_system_id :: string

fun reconnect_loop ::
    "(vm_mapping \<Rightarrow> open_result) \<Rightarrow> (vm_mapping \<Rightarrow> bool) \<Rightarrow> vm_mapping list \<Rightarrow> vm_connections \<times> event_sink \<Rightarrow>
     (vm_mapping \<times> ReconnectOutcome) list \<times> vm_connections \<times> event_sink" where
  "reconnect_loop open_system registers [] cs = ([], cs)"
| "reconnect_loop open_system registers (m # ms) cs =
     (case open_system m of
        Opened \<Rightarrow>
          (case reconnect_loop open_system registers ms (snd (conn_insert (registers m) (mp_vm_id m) cs)) of
             (rest, cs1) \<Rightarrow> ((m, Reconnected) # rest, cs1))
      | NotPresent \<Rightarrow> (case reconnect_loop open_system registers ms cs of (rest, cs1) \<Rightarrow> ((m, Absent) # rest, cs1))
      | OpenFailed e \<Rightarrow> (case reconnect_loop open_system registers ms cs of (rest, cs1) \<Rightarrow> ((m, ReconnectFailed e) # rest, cs1)))"

definition reconnect_with ::
    "(string, vm_mapping list) outcome \<Rightarrow> (vm_mapping \<Rightarrow> open_result) \<Rightarrow> (vm_mapping \<Rightarrow> bool) \<Rightarrow> event_sink \<Rightarrow>
     (string, (vm_mapping \<times> ReconnectOutcome) list \<times> vm_connections) outcome \<times> event_sink" where
  "reconnect_with known open_system registers s =
     (case known of
        Ok ms \<Rightarrow> (case reconnect_loop open_system registers ms (Map.empty, s) of (rs, c, s1) \<Rightarrow> (Ok (rs, c), s1))
      | Err e \<Rightarrow> (Err e, s)
      | Panic \<Rightarrow> (Panic, s))"

section \<open>The queue keeps the newest events\<close>

definition sink_holds :: "hcs_vm_event list \<Rightarrow> event_sink \<Rightarrow> bool" where
  "sink_holds pushed s \<longleftrightarrow>
     sk_events s = drop (length pushed - EVENT_CAPACITY) pushed \<and> sk_dropped s = length pushed - EVENT_CAPACITY"

lemma sink_holds_push: "sink_holds pushed s \<Longrightarrow> sink_holds (pushed @ [event]) (sink_push event s)"
proof -
  assume h: "sink_holds pushed s"
  show ?thesis
  proof (cases "length pushed < EVENT_CAPACITY")
    case True
    with h show ?thesis by (simp add: sink_holds_def sink_push_def Let_def)
  next
    case False
    then have "length (sk_events s) = EVENT_CAPACITY" using h by (simp add: sink_holds_def)
    moreover from False obtain n where n: "length pushed = n + EVENT_CAPACITY" using le_Suc_ex not_less add.commute by metis
    then have "tl (drop n pushed) = drop (Suc n) pushed" by (simp add: tl_drop drop_Suc)
    moreover have "Suc n \<le> length pushed" using n by (simp add: EVENT_CAPACITY_def)
    ultimately show ?thesis using h n by (simp add: sink_holds_def sink_push_def Let_def)
  qed
qed

lemma sink_holds_pushes: "sink_holds pushed s \<Longrightarrow> sink_holds (pushed @ events) (fold sink_push events s)"
proof (induction events arbitrary: pushed s)
  case (Cons e events)
  from Cons.IH [OF sink_holds_push [OF Cons.prems, of e]] show ?case by simp
qed simp

lemma sink_push_generation [simp]: "sk_next_generation (sink_push e s) = sk_next_generation s"
  by (simp add: sink_push_def Let_def)

lemma sink_push_events: "set (sk_events (sink_push e s)) \<subseteq> insert e (set (sk_events s))"
  by (cases "sk_events s") (auto simp: sink_push_def Let_def)

section \<open>What a drain passes on\<close>

lemma drain_fold:
  "dn_released (fold (drain_one f) es d) = dn_released d @
     map ev_vm_id (filter (\<lambda>e. \<not> f (ev_vm_id e) (ev_generation e) \<and> releases_handle (ev_kind e)) es)"
  "dn_stopped (fold (drain_one f) es d) = dn_stopped d @
     map ev_vm_id (filter (\<lambda>e. \<not> f (ev_vm_id e) (ev_generation e) \<and> ev_kind e = Exited) es)"
  "dn_service_disconnected (fold (drain_one f) es d) \<longleftrightarrow> dn_service_disconnected d \<or>
     (\<exists>e \<in> set es. \<not> f (ev_vm_id e) (ev_generation e) \<and> ev_kind e = ServiceDisconnect)"
  by (induction es arbitrary: d) (auto simp: drain_one_def)

lemma drain_events_released:
  "set (dn_released (fst (drain_events f s))) =
     ev_vm_id ` {e \<in> set (sk_events s). \<not> f (ev_vm_id e) (ev_generation e) \<and> releases_handle (ev_kind e)}"
  "set (dn_stopped (fst (drain_events f s))) =
     ev_vm_id ` {e \<in> set (sk_events s). \<not> f (ev_vm_id e) (ev_generation e) \<and> ev_kind e = Exited}"
  "snd (drain_events f s) = s\<lparr>sk_events := [], sk_dropped := 0\<rparr>"
  by (auto simp: drain_events_def sink_drain_def drain_fold)

section \<open>Generations tell the runs of a VM apart\<close>

text \<open>
  Registrations, removals, drains, and HCS reporting through any watch that was ever registered, at any
  time. The list of registrations is kept beside the state to say which one an event came from.
\<close>

type_synonym watch_state = "vm_connections \<times> event_sink \<times> (uuid \<times> u64) list"

inductive watch_step :: "watch_state \<Rightarrow> watch_state \<Rightarrow> bool" where
  inserts: "conn_insert registered vm_id (c, s) = (result, c1, s1) \<Longrightarrow>
    watch_step (c, s, log) (c1, s1, log @ [(vm_id, sk_next_generation s)])"
| removes: "watch_step (c, s, log) (conn_remove vm_id c, s, log)"
| reports: "(ev_vm_id event, ev_generation event) \<in> set log \<Longrightarrow> watch_step (c, s, log) (c, sink_push event s, log)"
| drains: "watch_step (c, s, log) (fold conn_remove (dn_released (fst (drain_events (is_superseded c) s))) c,
    snd (drain_events (is_superseded c) s), log)"

inductive_cases watch_stepE: "watch_step st st1"

definition last_of :: "uuid \<Rightarrow> (uuid \<times> u64) list \<Rightarrow> u64 option" where
  "last_of vm_id log = map_of (rev log) vm_id"

definition watch_inv :: "watch_state \<Rightarrow> bool" where
  "watch_inv st = (case st of (c, s, log) \<Rightarrow>
     sk_next_generation s = of_nat (length log) \<and>
     (\<forall>i < length log. snd (log ! i) = of_nat i) \<and>
     (\<forall>vm w. c vm = Some w \<longrightarrow> last_of vm log = Some (ws_generation w)) \<and>
     (\<forall>e \<in> set (sk_events s). (ev_vm_id e, ev_generation e) \<in> set log))"

lemma fold_conn_remove: "fold conn_remove vms c vm = (if vm \<in> set vms then None else c vm)"
  by (induction vms arbitrary: c) (auto simp: conn_remove_def)

lemma watch_inv_step: "watch_step st st1 \<Longrightarrow> watch_inv st \<Longrightarrow> watch_inv st1"
proof (induction rule: watch_step.induct)
  case (inserts registered vm_id c s result c1 s1 log)
  then have "c1 = c(vm_id \<mapsto> \<lparr>ws_watched = registered, ws_generation = sk_next_generation s\<rparr>)"
    "s1 = s\<lparr>sk_next_generation := sk_next_generation s + 1\<rparr>"
    by (simp_all add: conn_insert_def sink_take_generation_def)
  with inserts show ?case by (auto simp: watch_inv_def last_of_def nth_append less_Suc_eq)
next
  case (removes c s log vm_id)
  then show ?case by (auto simp: watch_inv_def conn_remove_def)
next
  case (reports event log c s)
  then show ?case using sink_push_events [of event s] by (auto simp: watch_inv_def)
next
  case (drains c s log)
  then show ?case by (auto simp: watch_inv_def fold_conn_remove drain_events_released split: if_splits)
qed

lemma watch_inv_reachable:
  assumes "watch_step\<^sup>*\<^sup>* (Map.empty, sink_new, []) st"
  shows "watch_inv st"
  using assms
proof (induction rule: rtranclp_induct)
  case base
  show ?case by (simp add: watch_inv_def sink_new_def)
next
  case (step y z)
  then show ?case by (blast intro: watch_inv_step)
qed

text \<open>Below a whole turn of the counter no generation is given twice.\<close>

lemma watch_inv_distinct:
  assumes "watch_inv (c, s, log)" "length log \<le> 18446744073709551616"
  shows "distinct (map snd log)"
proof -
  have "(of_nat i :: u64) \<noteq> of_nat j" if "i < length log" "j < length log" "i \<noteq> j" for i j
  proof -
    have "unat (of_nat i :: u64) = i" "unat (of_nat j :: u64) = j"
      using that assms(2) by (simp_all add: unat_of_nat)
    with that show ?thesis by metis
  qed
  with assms show ?thesis by (simp add: distinct_conv_nth watch_inv_def)
qed

end
