(* ===== verification/Vm_Facts.thy ===== *)
theory Vm_Facts
  imports Worker_Registry
begin

text \<open>
  What is known of a VM's GPU and display while it runs, and what a person is told about it: the facts
  and their codes (\<open>core/src/gpu.rs\<close>, \<open>core/src/display.rs\<close>), the two maps that hold them per run
  (\<open>platform/src/gpu_runs.rs\<close>, \<open>display_runs.rs\<close>), the statuses derived from them (\<open>app/src/gpu.rs\<close>,
  \<open>app/src/display.rs\<close>), and what \<open>open_display_in_state\<close> of \<open>platform/src/repository.rs\<close> lets through. A
  \<open>SystemTime\<close> is a number and the clock an argument. Messages that carry no fact are left out of
  the statuses.
\<close>

section \<open>GPU facts\<close>

datatype GpuMode = GpuNone | GpuDefault | GpuMirror | GpuModeUnknown int

datatype GpuStatusCode =
    ModeDisabled | GpuVmNotRunning | ModeUnsupported | AssignmentPending | AssignmentUnknown | GpuGuestPending
  | AssignmentFailed | AssignmentPartial | GuestDevicePresent | GpuGuestReady | GpuGuestFailed | HostNoAdapter
  | HostServiceUnavailable | HostDriverStoreMissing | HostLinuxPayloadMissing

record gpu_failure =
  gf_code :: GpuStatusCode
  gf_message :: string

record native_gpu_detail =
  ng_adapter :: "string option"
  ng_adapters :: nat

record guest_gpu_detail =
  gg_driver :: "string option"
  gg_render_node :: "string option"

datatype GpuAssignment =
    UnknownAssignment
  | Complete native_gpu_detail
  | Partial native_gpu_detail gpu_failure
  | FailedAssignment gpu_failure

datatype GuestGpuReport = DevicePresent guest_gpu_detail | GpuReady guest_gpu_detail | GpuFailed gpu_failure

record vm_gpu_facts =
  gv_assignment :: "GpuAssignment option"
  gv_guest :: "GuestGpuReport option"
  gv_observed_at :: "nat option"

datatype GpuShareRole = GpuPayload | WslLib | DriverPackage string | WslD3d12

record gpu_share =
  gs_name :: string
  gs_role :: GpuShareRole

record gpu_run =
  gr_facts :: vm_gpu_facts
  gr_shares :: "gpu_share list option"

definition gpu_run_default :: gpu_run where
  "gpu_run_default = \<lparr>gr_facts = \<lparr>gv_assignment = None, gv_guest = None, gv_observed_at = None\<rparr>, gr_shares = None\<rparr>"

type_synonym gpu_runs = "uuid \<rightharpoonup> gpu_run"

text \<open>\<open>entry(vm_id).or_default()\<close>.\<close>

definition run_entry :: "'r \<Rightarrow> (uuid \<rightharpoonup> 'r) \<Rightarrow> uuid \<Rightarrow> 'r" where
  "run_entry none runs vm_id = (case runs vm_id of None \<Rightarrow> none | Some r \<Rightarrow> r)"

definition gpu_record_assignment :: "nat \<Rightarrow> uuid \<Rightarrow> GpuAssignment \<Rightarrow> gpu_runs \<Rightarrow> gpu_runs" where
  "gpu_record_assignment now vm_id a runs =
     (let r = run_entry gpu_run_default runs vm_id in
      runs(vm_id \<mapsto> r\<lparr>gr_facts := (gr_facts r)\<lparr>gv_assignment := Some a, gv_observed_at := Some now\<rparr>\<rparr>))"

definition gpu_record_guest :: "nat \<Rightarrow> uuid \<Rightarrow> GuestGpuReport \<Rightarrow> gpu_runs \<Rightarrow> gpu_runs" where
  "gpu_record_guest now vm_id report runs =
     (let r = run_entry gpu_run_default runs vm_id in
      runs(vm_id \<mapsto> r\<lparr>gr_facts := (gr_facts r)\<lparr>gv_guest := Some report, gv_observed_at := Some now\<rparr>\<rparr>))"

definition gpu_record_shares :: "uuid \<Rightarrow> gpu_share list \<Rightarrow> gpu_runs \<Rightarrow> gpu_runs" where
  "gpu_record_shares vm_id shares runs = runs(vm_id \<mapsto> (run_entry gpu_run_default runs vm_id)\<lparr>gr_shares := Some shares\<rparr>)"

definition gpu_shares :: "uuid \<Rightarrow> gpu_runs \<Rightarrow> gpu_share list option" where
  "gpu_shares vm_id runs = Option.bind (runs vm_id) gr_shares"

definition gpu_snapshot :: "uuid \<Rightarrow> gpu_runs \<Rightarrow> vm_gpu_facts" where
  "gpu_snapshot vm_id runs = gr_facts (run_entry gpu_run_default runs vm_id)"

definition runs_forget :: "uuid \<Rightarrow> (uuid \<rightharpoonup> 'r) \<Rightarrow> (uuid \<rightharpoonup> 'r)" where
  "runs_forget vm_id runs = runs(vm_id := None)"

section \<open>Display facts\<close>

datatype DesktopProfile = Headless | Gnome | Hyprland

definition wants_desktop :: "DesktopProfile \<Rightarrow> bool" where
  "wants_desktop p \<longleftrightarrow> p \<noteq> Headless"

datatype DisplayStage = StageIdle | StageProvisioning | StageGuest | StagePayload

datatype DisplayStatusCode =
    ProfileHeadless | VmNotRunning | ProvisioningPending | PackageDownloadFailed | PackageInstallFailed
  | ProvisioningTimeout | ProfileUnsupported | GuestPending | GuestReady | GuestServicesFailed | PayloadMissing
  | PayloadInvalid | PayloadDependenciesFailed | PayloadBuildFailed | PayloadModuleNotLoaded
  | PayloadModuleSignatureRejected | PayloadNoDevice | PayloadUpdateRolledBack | PayloadUpdateRebootRequired
  | PayloadUpdateFailed

definition is_retryable :: "DisplayStatusCode \<Rightarrow> bool" where
  "is_retryable c \<longleftrightarrow> c \<in> {PackageDownloadFailed, PackageInstallFailed, ProvisioningTimeout, GuestServicesFailed,
     PayloadDependenciesFailed, PayloadBuildFailed, PayloadModuleNotLoaded, PayloadNoDevice, PayloadUpdateRolledBack,
     PayloadUpdateFailed}"

record display_failure =
  df_stage :: DisplayStage
  df_code :: DisplayStatusCode
  df_message :: string

datatype DisplayProvisioning = NotRequested | ProvisionPending | ProvisionReady | ProvisionDegraded display_failure

fun can_retry :: "DisplayProvisioning \<Rightarrow> bool" where
  "can_retry (ProvisionDegraded f) = is_retryable (df_code f)"
| "can_retry _ = False"

definition retried :: "DisplayProvisioning \<Rightarrow> DisplayProvisioning option" where
  "retried p = (if can_retry p then Some ProvisionPending else None)"

record guest_desktop =
  gd_session :: "string option"
  gd_session_type :: "string option"
  gd_display_manager :: "string option"

record guest_display_detail =
  gdd_compositor :: "string option"
  gdd_output :: "string option"

datatype GuestDisplayReport = ServicesPending | DisplayReady guest_display_detail | DisplayFailed display_failure

record display_payload_facts =
  pf_installed :: "string option"
  pf_previous :: "string option"
  pf_loaded :: "string option"
  pf_available :: "string option"

definition update_available :: "display_payload_facts \<Rightarrow> bool" where
  "update_available p =
     (case (pf_installed p, pf_available p) of (Some i, Some a) \<Rightarrow> i \<noteq> a | _ \<Rightarrow> False)"

record vm_display_facts =
  vf_guest :: "GuestDisplayReport option"
  vf_payload :: display_payload_facts
  vf_failure :: "display_failure option"
  vf_observed_at :: "nat option"
  vf_update_in_flight :: bool
  vf_desktop :: "guest_desktop option"

record display_run =
  dr_facts :: vm_display_facts
  dr_share :: "string option"

definition display_facts_default :: vm_display_facts where
  "display_facts_default = \<lparr>vf_guest = None,
     vf_payload = \<lparr>pf_installed = None, pf_previous = None, pf_loaded = None, pf_available = None\<rparr>,
     vf_failure = None, vf_observed_at = None, vf_update_in_flight = False, vf_desktop = None\<rparr>"

definition display_run_default :: display_run where
  "display_run_default = \<lparr>dr_facts = display_facts_default, dr_share = None\<rparr>"

type_synonym display_runs = "uuid \<rightharpoonup> display_run"

definition display_record :: "(vm_display_facts \<Rightarrow> vm_display_facts) \<Rightarrow> nat \<Rightarrow> uuid \<Rightarrow> display_runs \<Rightarrow> display_runs" where
  "display_record f now vm_id runs =
     (let r = run_entry display_run_default runs vm_id in
      runs(vm_id \<mapsto> r\<lparr>dr_facts := (f (dr_facts r))\<lparr>vf_observed_at := Some now\<rparr>\<rparr>))"

definition record_host :: "nat \<Rightarrow> uuid \<Rightarrow> string option \<Rightarrow> display_failure option \<Rightarrow> display_runs \<Rightarrow> display_runs" where
  "record_host now vm_id available failure =
     display_record (\<lambda>d. d\<lparr>vf_payload := (vf_payload d)\<lparr>pf_available := available\<rparr>, vf_failure := failure\<rparr>) now vm_id"

definition record_guest_display :: "nat \<Rightarrow> uuid \<Rightarrow> GuestDisplayReport \<Rightarrow> display_runs \<Rightarrow> display_runs" where
  "record_guest_display now vm_id report = display_record (\<lambda>d. d\<lparr>vf_guest := Some report\<rparr>) now vm_id"

definition record_guest_desktop :: "nat \<Rightarrow> uuid \<Rightarrow> guest_desktop \<Rightarrow> display_runs \<Rightarrow> display_runs" where
  "record_guest_desktop now vm_id desktop = display_record (\<lambda>d. d\<lparr>vf_desktop := Some desktop\<rparr>) now vm_id"

definition record_guest_payload ::
    "nat \<Rightarrow> uuid \<Rightarrow> string option \<Rightarrow> string option \<Rightarrow> string option \<Rightarrow> display_failure option \<Rightarrow> display_runs \<Rightarrow> display_runs" where
  "record_guest_payload now vm_id installed previous loaded failure =
     display_record (\<lambda>d. d\<lparr>vf_payload := \<lparr>pf_installed = installed, pf_previous = previous, pf_loaded = loaded,
       pf_available = pf_available (vf_payload d)\<rparr>, vf_failure := failure\<rparr>) now vm_id"

definition record_share :: "uuid \<Rightarrow> string \<Rightarrow> display_runs \<Rightarrow> display_runs" where
  "record_share vm_id share runs = runs(vm_id \<mapsto> (run_entry display_run_default runs vm_id)\<lparr>dr_share := Some share\<rparr>)"

definition display_snapshot :: "uuid \<Rightarrow> display_runs \<Rightarrow> vm_display_facts" where
  "display_snapshot vm_id runs = dr_facts (run_entry display_run_default runs vm_id)"

section \<open>What a person reads\<close>

datatype AgentStatus = Offline | Online | AgentUnknown
datatype VmState = Stopped | Building | Starting | Running AgentStatus

definition is_up :: "VmState \<Rightarrow> bool" where
  "is_up s \<longleftrightarrow> (case s of Starting \<Rightarrow> True | Running _ \<Rightarrow> True | _ \<Rightarrow> False)"

datatype GpuState = GpuDisabled | GpuWaiting | Assigned | GuestRenders | GpuDegraded | GpuStateFailed
datatype GpuStage = GpuIdle | GpuAssigning | GpuGuest

record vm_gpu_status =
  gu_state :: GpuState
  gu_stage :: GpuStage
  gu_code :: GpuStatusCode
  gu_native :: "native_gpu_detail option"
  gu_guest :: "guest_gpu_detail option"
  gu_observed_at :: nat

definition native_detail :: "vm_gpu_facts \<Rightarrow> native_gpu_detail option" where
  "native_detail facts =
     (case gv_assignment facts of Some (Complete d) \<Rightarrow> Some d | Some (Partial d _) \<Rightarrow> Some d | _ \<Rightarrow> None)"

definition gpu_guest_detail :: "vm_gpu_facts \<Rightarrow> guest_gpu_detail option" where
  "gpu_guest_detail facts =
     (case gv_guest facts of Some (DevicePresent d) \<Rightarrow> Some d | Some (GpuReady d) \<Rightarrow> Some d | _ \<Rightarrow> None)"

definition gpu_status :: "vm_gpu_facts \<Rightarrow> nat \<Rightarrow> GpuState \<Rightarrow> GpuStage \<Rightarrow> GpuStatusCode \<Rightarrow> vm_gpu_status" where
  "gpu_status facts now state stage code =
     \<lparr>gu_state = state, gu_stage = stage, gu_code = code, gu_native = native_detail facts, gu_guest = gpu_guest_detail facts,
      gu_observed_at = (case gv_observed_at facts of None \<Rightarrow> now | Some t \<Rightarrow> t)\<rparr>"

definition gpu_derive_status :: "GpuMode \<Rightarrow> VmState \<Rightarrow> vm_gpu_facts \<Rightarrow> nat \<Rightarrow> vm_gpu_status" where
  "gpu_derive_status mode state facts now =
     (let status = gpu_status facts now;
          guest_status = (\<lambda>partial.
            case gv_guest facts of
              None \<Rightarrow> status GpuWaiting GpuGuest (if partial then AssignmentPartial else GpuGuestPending)
            | Some (GpuFailed reason) \<Rightarrow> status GpuStateFailed GpuGuest (gf_code reason)
            | Some (DevicePresent _) \<Rightarrow> status Assigned GpuGuest GuestDevicePresent
            | Some (GpuReady _) \<Rightarrow>
                if partial then status GpuDegraded GpuGuest AssignmentPartial
                else status GuestRenders GpuGuest GpuGuestReady) in
      case mode of
        GpuNone \<Rightarrow> status GpuDisabled GpuIdle ModeDisabled
      | GpuModeUnknown _ \<Rightarrow> status GpuStateFailed GpuIdle ModeUnsupported
      | _ \<Rightarrow>
          if \<not> is_up state then status GpuDisabled GpuIdle GpuVmNotRunning
          else case gv_assignment facts of
              None \<Rightarrow> status GpuWaiting GpuAssigning AssignmentPending
            | Some (FailedAssignment reason) \<Rightarrow> status GpuStateFailed GpuAssigning (gf_code reason)
            | Some UnknownAssignment \<Rightarrow>
                if gv_guest facts = None then status GpuWaiting GpuGuest AssignmentUnknown else guest_status False
            | Some (Partial _ _) \<Rightarrow> guest_status True
            | Some (Complete _) \<Rightarrow> guest_status False)"

datatype DisplayState = DisplayDisabled | Provisioning | WaitingForGuest | Ready | Degraded

record vm_display_status =
  vs_state :: DisplayState
  vs_stage :: DisplayStage
  vs_code :: DisplayStatusCode
  vs_running_version :: "string option"
  vs_available_version :: "string option"
  vs_guest :: "guest_display_detail option"
  vs_desktop :: "guest_desktop option"
  vs_can_retry :: bool
  vs_updating :: bool
  vs_observed_at :: nat

definition display_guest_detail :: "vm_display_facts \<Rightarrow> guest_display_detail option" where
  "display_guest_detail facts = (case vf_guest facts of Some (DisplayReady d) \<Rightarrow> Some d | _ \<Rightarrow> None)"

definition display_status ::
    "vm_display_facts \<Rightarrow> nat \<Rightarrow> DisplayState \<Rightarrow> DisplayStage \<Rightarrow> DisplayStatusCode \<Rightarrow> bool \<Rightarrow> vm_display_status" where
  "display_status facts now state stage code retry =
     \<lparr>vs_state = state, vs_stage = stage, vs_code = code,
      vs_running_version = (case pf_loaded (vf_payload facts) of None \<Rightarrow> pf_installed (vf_payload facts) | v \<Rightarrow> v),
      vs_available_version = (if update_available (vf_payload facts) then pf_available (vf_payload facts) else None),
      vs_guest = display_guest_detail facts, vs_desktop = vf_desktop facts, vs_can_retry = retry,
      vs_updating = vf_update_in_flight facts,
      vs_observed_at = (case vf_observed_at facts of None \<Rightarrow> now | Some t \<Rightarrow> t)\<rparr>"

definition display_derive_status ::
    "DesktopProfile \<Rightarrow> DisplayProvisioning \<Rightarrow> VmState \<Rightarrow> vm_display_facts \<Rightarrow> nat \<Rightarrow> vm_display_status" where
  "display_derive_status profile provisioning state facts now =
     (let status = display_status facts now in
      if \<not> wants_desktop profile then status DisplayDisabled StageIdle ProfileHeadless False
      else case provisioning of
          ProvisionDegraded failure \<Rightarrow> status Degraded (df_stage failure) (df_code failure) (can_retry provisioning)
        | ProvisionReady \<Rightarrow>
            if \<not> is_up state then status DisplayDisabled StageIdle VmNotRunning False
            else (case vf_failure facts of
                Some failure \<Rightarrow>
                  status (if df_code failure = PayloadUpdateRolledBack then Ready else Degraded)
                    (df_stage failure) (df_code failure) (is_retryable (df_code failure))
              | None \<Rightarrow>
                  (case vf_guest facts of
                     None \<Rightarrow> status WaitingForGuest StageGuest GuestPending False
                   | Some ServicesPending \<Rightarrow> status WaitingForGuest StageGuest GuestPending False
                   | Some (DisplayReady _) \<Rightarrow> status Ready StageGuest GuestReady False
                   | Some (DisplayFailed failure) \<Rightarrow>
                       status Degraded (df_stage failure) (df_code failure) (is_retryable (df_code failure))))
        | _ \<Rightarrow> status Provisioning StageProvisioning ProvisioningPending False)"

definition is_connectable :: "vm_display_status \<Rightarrow> bool" where
  "is_connectable s \<longleftrightarrow> vs_state s = Ready"

section \<open>Opening a display\<close>

datatype HcsSystemState = SystemRunning | SystemStopped | SystemCreated | SystemPaused | SystemOther string

datatype display_refusal =
    NoDesktop
  | NotInstalled display_failure
  | StillInstalling
  | NotRunning "HcsSystemState option"
  | NotWorking display_failure
  | CannotOffer display_failure
  | NotOffered

text \<open>What is refused before a viewer is launched; the launch itself asks the system for more.\<close>

definition open_display_preflight ::
    "DesktopProfile \<Rightarrow> DisplayProvisioning \<Rightarrow> HcsSystemState option \<Rightarrow> vm_display_facts \<Rightarrow> (display_refusal, unit) outcome" where
  "open_display_preflight profile provisioning state facts =
     (if \<not> wants_desktop profile then Err NoDesktop
      else case provisioning of
          ProvisionDegraded failure \<Rightarrow> Err (NotInstalled failure)
        | ProvisionReady \<Rightarrow>
            if state \<noteq> Some SystemRunning then Err (NotRunning state)
            else (case vf_failure facts of
                Some failure \<Rightarrow> Err (NotWorking failure)
              | None \<Rightarrow>
                  (case vf_guest facts of
                     Some (DisplayReady _) \<Rightarrow> Ok ()
                   | Some (DisplayFailed failure) \<Rightarrow> Err (CannotOffer failure)
                   | _ \<Rightarrow> Err NotOffered))
        | _ \<Rightarrow> Err StillInstalling)"

section \<open>The two readings compared\<close>

lemma connectable_iff:
  "is_connectable (display_derive_status profile provisioning state facts now) \<longleftrightarrow>
     wants_desktop profile \<and> provisioning = ProvisionReady \<and> is_up state \<and>
     (case vf_failure facts of
        Some failure \<Rightarrow> df_code failure = PayloadUpdateRolledBack
      | None \<Rightarrow> \<exists>d. vf_guest facts = Some (DisplayReady d))"
  by (auto simp: is_connectable_def display_derive_status_def display_status_def Let_def
      split: DisplayProvisioning.splits option.splits GuestDisplayReport.splits)

lemma preflight_iff:
  "open_display_preflight profile provisioning state facts = Ok () \<longleftrightarrow>
     wants_desktop profile \<and> provisioning = ProvisionReady \<and> state = Some SystemRunning \<and>
     vf_failure facts = None \<and> (\<exists>d. vf_guest facts = Some (DisplayReady d))"
  by (auto simp: open_display_preflight_def split: DisplayProvisioning.splits option.splits GuestDisplayReport.splits)

lemma gpu_renders_iff:
  "gu_state (gpu_derive_status mode state facts now) = GuestRenders \<longleftrightarrow>
     (mode = GpuDefault \<or> mode = GpuMirror) \<and> is_up state \<and> (\<exists>d. gv_guest facts = Some (GpuReady d)) \<and>
     (gv_assignment facts = Some UnknownAssignment \<or> (\<exists>d. gv_assignment facts = Some (Complete d)))"
  by (auto simp: gpu_derive_status_def gpu_status_def Let_def
      split: GpuMode.splits option.splits GpuAssignment.splits GuestGpuReport.splits)

lemma retry_starts_over: "retried p = Some q \<Longrightarrow> q = ProvisionPending \<and> \<not> can_retry q"
  by (auto simp: retried_def split: if_splits)

end
