(* ===== verification/Vm_Runs.thy ===== *)
theory Vm_Runs
  imports Vm_Watch Vm_Facts
begin

text \<open>
  What the repository holds for the runs of its VMs and how a refresh brings it up to date
  (\<open>refresh\<close>, \<open>adopt_started\<close>, \<open>hold_started_system\<close>, \<open>listen_for_agent\<close>, \<open>record_installed_desktops\<close> and the
  collections of \<open>platform/src/repository.rs\<close>). Console sessions and agent connections are numbers; what
  HCS, the store and the sockets answer is the environment \<open>env\<close>. The SSH sessions that a refresh also
  reports have no part in a run.
\<close>

record run_mapping = vm_mapping +
  mp_gpu_mode :: GpuMode
  mp_profile :: DesktopProfile
  mp_provisioning :: DisplayProvisioning

record started_vm =
  sv_mapping :: run_mapping
  sv_session :: nat

record host_runs =
  hr_connections :: vm_connections
  hr_events :: event_sink
  hr_consoles :: "uuid \<rightharpoonup> nat"
  hr_agents :: "uuid \<rightharpoonup> nat"
  hr_gpu :: gpu_runs
  hr_display :: display_runs
  hr_windows_closed :: "uuid list"
  hr_store :: "run_mapping list"
  hr_builds :: "(bool, started_vm) registry"
  hr_starts :: "(unit, started_vm) registry"
  hr_shutdowns :: "worker list"
  hr_force_stops :: "worker list"
  hr_reboots :: "worker list"
  hr_disconnect_reported :: bool

record run_env =
  en_now :: nat
  en_open :: "uuid \<Rightarrow> open_result"
  en_registers :: "uuid \<Rightarrow> bool"
  en_partition :: "uuid \<Rightarrow> bool"
  en_directory :: "uuid \<Rightarrow> bool"
  en_agent :: "uuid \<Rightarrow> nat option"
  en_store_reads :: bool
  en_store_writes :: "uuid \<Rightarrow> bool"
  en_reader_exited :: "uuid \<Rightarrow> bool"
  en_build_order :: "string list"
  en_start_order :: "string list"

section \<open>Taking a started VM over\<close>

definition listen_for_agent :: "run_env \<Rightarrow> run_mapping \<Rightarrow> host_runs \<Rightarrow> host_runs" where
  "listen_for_agent env m r =
     (let v = mp_vm_id m in
      if \<not> en_partition env v \<or> \<not> en_directory env v then r
      else
        let r1 = (if mp_gpu_mode m \<noteq> GpuNone \<and> gv_assignment (gpu_snapshot v (hr_gpu r)) = None
                  then r\<lparr>hr_gpu := gpu_record_assignment (en_now env) v UnknownAssignment (hr_gpu r)\<rparr> else r);
            r2 = r1\<lparr>hr_agents := (hr_agents r1)(v := None)\<rparr> in
        (case en_agent env v of
           None \<Rightarrow> r2
         | Some connection \<Rightarrow> r2\<lparr>hr_agents := (hr_agents r2)(v \<mapsto> connection)\<rparr>))"

definition hold_started_system :: "run_env \<Rightarrow> run_mapping \<Rightarrow> host_runs \<Rightarrow> host_runs" where
  "hold_started_system env m r =
     listen_for_agent env m
       (case en_open env (mp_vm_id m) of
          Opened \<Rightarrow>
            (case conn_insert (en_registers env (mp_vm_id m)) (mp_vm_id m) (hr_connections r, hr_events r) of
               (_, c, s) \<Rightarrow> r\<lparr>hr_connections := c, hr_events := s\<rparr>)
        | _ \<Rightarrow> r)"

definition adopt_one :: "run_env \<Rightarrow> started_vm \<Rightarrow> host_runs \<Rightarrow> host_runs" where
  "adopt_one env sv r =
     hold_started_system env (sv_mapping sv) (r\<lparr>hr_consoles := (hr_consoles r)(mp_vm_id (sv_mapping sv) \<mapsto> sv_session sv)\<rparr>)"

definition adopt_started :: "run_env \<Rightarrow> started_vm list \<Rightarrow> host_runs \<Rightarrow> host_runs" where
  "adopt_started env started r = fold (adopt_one env) started r"

section \<open>Writing an installation down\<close>

definition offers_desktop :: "host_runs \<Rightarrow> uuid \<Rightarrow> bool" where
  "offers_desktop r v =
     (case vf_guest (display_snapshot v (hr_display r)) of Some (DisplayReady _) \<Rightarrow> True | _ \<Rightarrow> False)"

definition record_installed_desktops :: "run_env \<Rightarrow> host_runs \<Rightarrow> host_runs" where
  "record_installed_desktops env r =
     (if \<not> en_store_reads env then r
      else r\<lparr>hr_store := map (\<lambda>m.
        if \<not> wants_desktop (mp_profile m) \<or> mp_provisioning m = ProvisionReady \<or> \<not> offers_desktop r (mp_vm_id m)
           \<or> \<not> en_store_writes env (mp_vm_id m)
        then m else m\<lparr>mp_provisioning := ProvisionReady\<rparr>) (hr_store r)\<rparr>)"

section \<open>Collecting the answers\<close>

definition shutdown_one :: "finished_request \<Rightarrow> host_runs \<Rightarrow> host_runs" where
  "shutdown_one f r =
     (case fr_result f of
        Ok _ \<Rightarrow> r\<lparr>hr_agents := (hr_agents r)(fr_vm_id f := None), hr_gpu := runs_forget (fr_vm_id f) (hr_gpu r),
                  hr_display := runs_forget (fr_vm_id f) (hr_display r),
                  hr_connections := conn_remove (fr_vm_id f) (hr_connections r)\<rparr>
      | _ \<Rightarrow> r)"

definition finish_shutdowns :: "host_runs \<Rightarrow> host_runs" where
  "finish_shutdowns r =
     (case take_finished (hr_shutdowns r) of (finished, busy) \<Rightarrow> fold shutdown_one finished (r\<lparr>hr_shutdowns := busy\<rparr>))"

definition force_stop_one :: "finished_request \<Rightarrow> host_runs \<Rightarrow> host_runs" where
  "force_stop_one f r =
     (case fr_result f of
        Ok _ \<Rightarrow> r\<lparr>hr_consoles := (hr_consoles r)(fr_vm_id f := None), hr_agents := (hr_agents r)(fr_vm_id f := None),
                  hr_gpu := runs_forget (fr_vm_id f) (hr_gpu r), hr_display := runs_forget (fr_vm_id f) (hr_display r),
                  hr_windows_closed := hr_windows_closed r @ [fr_vm_id f],
                  hr_connections := conn_remove (fr_vm_id f) (hr_connections r)\<rparr>
      | _ \<Rightarrow> r)"

definition finish_force_stops :: "host_runs \<Rightarrow> host_runs" where
  "finish_force_stops r =
     (case take_finished (hr_force_stops r) of (finished, busy) \<Rightarrow> fold force_stop_one finished (r\<lparr>hr_force_stops := busy\<rparr>))"

definition finish_reboots :: "host_runs \<Rightarrow> host_runs" where
  "finish_reboots r = r\<lparr>hr_reboots := snd (take_finished (hr_reboots r))\<rparr>"

definition release_one :: "uuid \<Rightarrow> host_runs \<Rightarrow> host_runs" where
  "release_one v r =
     r\<lparr>hr_consoles := (hr_consoles r)(v := None), hr_agents := (hr_agents r)(v := None),
       hr_gpu := runs_forget v (hr_gpu r), hr_connections := conn_remove v (hr_connections r)\<rparr>"

definition drain_watches :: "host_runs \<Rightarrow> host_runs" where
  "drain_watches r =
     (case drain_events (is_superseded (hr_connections r)) (hr_events r) of (drained, s) \<Rightarrow>
        let r1 = fold release_one (dn_released drained) (r\<lparr>hr_events := s\<rparr>) in
        r1\<lparr>hr_windows_closed := hr_windows_closed r1 @ dn_stopped drained,
           hr_disconnect_reported := hr_disconnect_reported r1 \<or> dn_service_disconnected drained\<rparr>)"

definition reap_consoles :: "run_env \<Rightarrow> host_runs \<Rightarrow> host_runs" where
  "reap_consoles env r = r\<lparr>hr_consoles := (\<lambda>v. if en_reader_exited env v then None else hr_consoles r v)\<rparr>"

definition adopt_builds :: "run_env \<Rightarrow> host_runs \<Rightarrow> host_runs" where
  "adopt_builds env r =
     (case take_started (en_build_order env) (hr_builds r) of (started, b) \<Rightarrow> adopt_started env started (r\<lparr>hr_builds := b\<rparr>))"

definition adopt_starts :: "run_env \<Rightarrow> host_runs \<Rightarrow> host_runs" where
  "adopt_starts env r =
     (case take_started (en_start_order env) (hr_starts r) of (started, b) \<Rightarrow> adopt_started env started (r\<lparr>hr_starts := b\<rparr>))"

definition refresh :: "run_env \<Rightarrow> host_runs \<Rightarrow> host_runs" where
  "refresh env r =
     reap_consoles env (drain_watches (finish_reboots (finish_force_stops (finish_shutdowns
       (record_installed_desktops env (adopt_starts env (adopt_builds env r)))))))"

section \<open>What each step leaves alone\<close>

definition answered :: "worker list \<Rightarrow> uuid set" where
  "answered ws = {fr_vm_id f | f. f \<in> set (fst (take_finished ws)) \<and> fr_result f = Ok ()}"

lemma adopted_kept:
  "hr_shutdowns (adopt_started env svs r) = hr_shutdowns r" "hr_force_stops (adopt_started env svs r) = hr_force_stops r"
  "hr_display (adopt_started env svs r) = hr_display r"
proof -
  have "hr_shutdowns (adopt_one env sv q) = hr_shutdowns q \<and> hr_force_stops (adopt_one env sv q) = hr_force_stops q \<and>
      hr_display (adopt_one env sv q) = hr_display q" for sv q
    by (simp add: adopt_one_def hold_started_system_def listen_for_agent_def Let_def split: open_result.split option.split prod.split)
  then show "hr_shutdowns (adopt_started env svs r) = hr_shutdowns r" "hr_force_stops (adopt_started env svs r) = hr_force_stops r"
    "hr_display (adopt_started env svs r) = hr_display r"
    unfolding adopt_started_def by (induction svs arbitrary: r) simp_all
qed

lemma fold_shutdown:
  "hr_connections (fold shutdown_one fs r) v = (if \<exists>f \<in> set fs. fr_vm_id f = v \<and> fr_result f = Ok () then None else hr_connections r v)"
  "hr_agents (fold shutdown_one fs r) v = (if \<exists>f \<in> set fs. fr_vm_id f = v \<and> fr_result f = Ok () then None else hr_agents r v)"
  "hr_gpu (fold shutdown_one fs r) v = (if \<exists>f \<in> set fs. fr_vm_id f = v \<and> fr_result f = Ok () then None else hr_gpu r v)"
  "hr_display (fold shutdown_one fs r) v = (if \<exists>f \<in> set fs. fr_vm_id f = v \<and> fr_result f = Ok () then None else hr_display r v)"
  "hr_consoles (fold shutdown_one fs r) = hr_consoles r"
  "hr_events (fold shutdown_one fs r) = hr_events r"
  "hr_force_stops (fold shutdown_one fs r) = hr_force_stops r"
  by (induction fs arbitrary: r) (auto simp: shutdown_one_def runs_forget_def conn_remove_def split: outcome.splits)

lemma fold_force_stop:
  "hr_connections (fold force_stop_one fs r) v = (if \<exists>f \<in> set fs. fr_vm_id f = v \<and> fr_result f = Ok () then None else hr_connections r v)"
  "hr_agents (fold force_stop_one fs r) v = (if \<exists>f \<in> set fs. fr_vm_id f = v \<and> fr_result f = Ok () then None else hr_agents r v)"
  "hr_gpu (fold force_stop_one fs r) v = (if \<exists>f \<in> set fs. fr_vm_id f = v \<and> fr_result f = Ok () then None else hr_gpu r v)"
  "hr_display (fold force_stop_one fs r) v = (if \<exists>f \<in> set fs. fr_vm_id f = v \<and> fr_result f = Ok () then None else hr_display r v)"
  "hr_events (fold force_stop_one fs r) = hr_events r"
  by (induction fs arbitrary: r) (auto simp: force_stop_one_def runs_forget_def conn_remove_def split: outcome.splits)

lemma fold_release:
  "hr_connections (fold release_one vs r) v = (if v \<in> set vs then None else hr_connections r v)"
  "hr_agents (fold release_one vs r) v = (if v \<in> set vs then None else hr_agents r v)"
  "hr_gpu (fold release_one vs r) v = (if v \<in> set vs then None else hr_gpu r v)"
  "hr_display (fold release_one vs r) = hr_display r"
  by (induction vs arbitrary: r) (auto simp: release_one_def runs_forget_def conn_remove_def)

lemma answered_iff: "v \<in> answered ws \<longleftrightarrow> (\<exists>f \<in> set (fst (take_finished ws)). fr_vm_id f = v \<and> fr_result f = Ok ())"
  by (auto simp: answered_def)

section \<open>A refresh as a whole\<close>

definition before_drain :: "run_env \<Rightarrow> host_runs \<Rightarrow> host_runs" where
  "before_drain env r = finish_force_stops (finish_shutdowns (record_installed_desktops env (adopt_starts env (adopt_builds env r))))"

definition given_up :: "host_runs \<Rightarrow> uuid set" where
  "given_up r = answered (hr_shutdowns r) \<union> answered (hr_force_stops r)"

definition released_in :: "host_runs \<Rightarrow> uuid set" where
  "released_in r = set (dn_released (fst (drain_events (is_superseded (hr_connections r)) (hr_events r))))"

definition adopted :: "run_env \<Rightarrow> host_runs \<Rightarrow> host_runs" where
  "adopted env r = record_installed_desktops env (adopt_starts env (adopt_builds env r))"

lemma adopted_fields:
  "hr_shutdowns (adopted env r) = hr_shutdowns r" "hr_force_stops (adopted env r) = hr_force_stops r"
  "hr_display (adopted env r) = hr_display r"
  by (simp_all add: adopted_def record_installed_desktops_def adopt_starts_def adopt_builds_def adopted_kept split: prod.split)

lemma before_drain_fields:
  "hr_connections (before_drain env r) v = (if v \<in> given_up r then None else hr_connections (adopted env r) v)"
  "hr_agents (before_drain env r) v = (if v \<in> given_up r then None else hr_agents (adopted env r) v)"
  "hr_gpu (before_drain env r) v = (if v \<in> given_up r then None else hr_gpu (adopted env r) v)"
  "hr_display (before_drain env r) v = (if v \<in> given_up r then None else hr_display r v)"
  using adopted_fields [of env r]
  by (auto simp: before_drain_def adopted_def [symmetric] finish_force_stops_def finish_shutdowns_def fold_shutdown fold_force_stop
      given_up_def answered_iff split: prod.split)

lemma refresh_fields:
  "hr_connections (refresh env r) v = (if v \<in> released_in (before_drain env r) then None else hr_connections (before_drain env r) v)"
  "hr_agents (refresh env r) v = (if v \<in> released_in (before_drain env r) then None else hr_agents (before_drain env r) v)"
  "hr_gpu (refresh env r) v = (if v \<in> released_in (before_drain env r) then None else hr_gpu (before_drain env r) v)"
  "hr_display (refresh env r) = hr_display (before_drain env r)"
  by (simp_all add: refresh_def before_drain_def [symmetric] reap_consoles_def drain_watches_def finish_reboots_def released_in_def Let_def
      fold_release split: prod.split)

lemma refresh_starts: "hr_starts (refresh env r) = snd (take_started (en_start_order env) (hr_starts r))"
proof -
  have adopted: "hr_starts (adopt_started env svs q) = hr_starts q" for svs q
  proof -
    have "hr_starts (adopt_one env sv q) = hr_starts q" for sv q
      by (simp add: adopt_one_def hold_started_system_def listen_for_agent_def Let_def split: open_result.split option.split prod.split)
    then show ?thesis unfolding adopt_started_def by (induction svs arbitrary: q) simp_all
  qed
  have shut: "hr_starts (fold shutdown_one fs q) = hr_starts q" for fs q
    by (induction fs arbitrary: q) (simp_all add: shutdown_one_def split: outcome.split)
  have forced: "hr_starts (fold force_stop_one fs q) = hr_starts q" for fs q
    by (induction fs arbitrary: q) (simp_all add: force_stop_one_def split: outcome.split)
  have released: "hr_starts (fold release_one vs q) = hr_starts q" for vs q
    by (induction vs arbitrary: q) (simp_all add: release_one_def)
  show ?thesis
    by (simp add: refresh_def reap_consoles_def drain_watches_def finish_reboots_def finish_force_stops_def finish_shutdowns_def
        record_installed_desktops_def adopt_starts_def adopt_builds_def adopted shut forced released Let_def split: prod.split)
qed

end
