(* ===== verification/Nat_Network.thy ===== *)
theory Nat_Network
  imports Prelude
begin

text \<open>
  The addresses of the shared NAT network: the subnet that is chosen (\<open>platform/src/subnet.rs\<close>), the
  resolvers a guest is offered (\<open>platform/src/host_dns.rs\<close>), and the reservations of the DHCP server
  (\<open>State\<close> of \<open>platform/src/dhcp.rs\<close>). An \<open>Ipv4Addr\<close> is its 32-bit number. The server that speaks DHCP is
  another package; its operations are arguments, with \<open>None\<close> where it panics.
\<close>

type_synonym ipv4 = u32
type_synonym mac = "u8 list"

definition ip :: "u8 \<Rightarrow> u8 \<Rightarrow> u8 \<Rightarrow> u8 \<Rightarrow> ipv4" where
  "ip a b c d = (push_bit 24 (ucast a) OR push_bit 16 (ucast b)) OR (push_bit 8 (ucast c) OR ucast d)"

section \<open>Subnets\<close>

record ipv4_subnet =
  sn_address :: ipv4
  sn_prefix_length :: nat

definition subnet_new :: "ipv4 \<Rightarrow> nat \<Rightarrow> ipv4_subnet" where
  "subnet_new address prefix_length =
     \<lparr>sn_address = address, sn_prefix_length = (if prefix_length > 32 then 32 else prefix_length)\<rparr>"

text \<open>\<open>u32::MAX << (32 - length)\<close>, which no length from 1 to 32 overflows.\<close>

definition prefix_mask :: "nat \<Rightarrow> u32" where
  "prefix_mask prefix_length = (if prefix_length = 0 then 0 else push_bit (32 - min prefix_length 32) (- 1))"

definition network_address :: "ipv4_subnet \<Rightarrow> ipv4" where
  "network_address s = sn_address s AND prefix_mask (sn_prefix_length s)"

definition gateway :: "ipv4_subnet \<Rightarrow> ('e, ipv4) outcome" where
  "gateway s = (if network_address s = - 1 then Panic else Ok (network_address s + 1))"

definition overlaps :: "ipv4_subnet \<Rightarrow> ipv4_subnet \<Rightarrow> bool" where
  "overlaps a b \<longleftrightarrow> (sn_address a XOR sn_address b) AND prefix_mask (min (sn_prefix_length a) (sn_prefix_length b)) = 0"

definition CANDIDATE_SUBNETS :: "ipv4_subnet list" where
  "CANDIDATE_SUBNETS = [subnet_new (ip 172 22 42 0) 24, subnet_new (ip 172 22 142 0) 24]"

definition choose_subnet :: "ipv4_subnet list \<Rightarrow> ipv4_subnet" where
  "choose_subnet occupied =
     (case List.find (\<lambda>candidate. List.find (overlaps candidate) occupied = None) CANDIDATE_SUBNETS of
        Some candidate \<Rightarrow> candidate
      | None \<Rightarrow> CANDIDATE_SUBNETS ! 0)"

section \<open>Resolvers\<close>

definition FALLBACK_DNS :: "ipv4 list" where
  "FALLBACK_DNS = [ip 1 1 1 1, ip 8 8 8 8]"

text \<open>\<open>is_loopback\<close>, \<open>is_link_local\<close> and \<open>is_unspecified\<close> of \<open>Ipv4Addr\<close>.\<close>

definition is_loopback :: "ipv4 \<Rightarrow> bool" where "is_loopback a \<longleftrightarrow> drop_bit 24 a = 127"
definition is_link_local :: "ipv4 \<Rightarrow> bool" where "is_link_local a \<longleftrightarrow> drop_bit 16 a = 43518"
definition is_unspecified :: "ipv4 \<Rightarrow> bool" where "is_unspecified a \<longleftrightarrow> a = 0"

definition unreachable_resolver :: "ipv4_subnet \<Rightarrow> ipv4 \<Rightarrow> bool" where
  "unreachable_resolver subnet server \<longleftrightarrow>
     is_loopback server \<or> is_link_local server \<or> is_unspecified server \<or> overlaps (subnet_new server 32) subnet"

fun usable_loop :: "ipv4_subnet \<Rightarrow> ipv4 list \<Rightarrow> ipv4 list \<Rightarrow> ipv4 list" where
  "usable_loop subnet [] servers = servers"
| "usable_loop subnet (server # rest) servers =
     (if unreachable_resolver subnet server then usable_loop subnet rest servers
      else usable_loop subnet rest (if server \<in> set servers then servers else servers @ [server]))"

definition usable :: "ipv4 list \<Rightarrow> ipv4_subnet \<Rightarrow> ipv4 list" where
  "usable configured subnet =
     (let servers = usable_loop subnet configured [] in if servers = [] then FALLBACK_DNS else servers)"

section \<open>Reservations\<close>

record 'srv dhcp_ops =
  op_pool_start :: "'srv \<Rightarrow> ipv4"
  op_pool_end :: "'srv \<Rightarrow> ipv4"
  op_reserve_ip :: "mac \<Rightarrow> ipv4 \<Rightarrow> 'srv \<Rightarrow> 'srv option"
  op_remove_reservation :: "mac \<Rightarrow> 'srv \<Rightarrow> 'srv"
  op_handle_packet :: "bytes \<Rightarrow> 'srv \<Rightarrow> (string, bytes option) outcome \<times> 'srv"

record 'srv dhcp_state =
  dh_server :: 'srv
  dh_reserved :: "mac \<rightharpoonup> ipv4"

definition dhcp_new :: "'srv \<Rightarrow> 'srv dhcp_state" where
  "dhcp_new server = \<lparr>dh_server = server, dh_reserved = Map.empty\<rparr>"

datatype dhcp_error = OutsidePool

definition dhcp_unreserve :: "'srv dhcp_ops \<Rightarrow> mac \<Rightarrow> 'srv dhcp_state \<Rightarrow> 'srv dhcp_state" where
  "dhcp_unreserve ops m st =
     st\<lparr>dh_reserved := (dh_reserved st)(m := None), dh_server := op_remove_reservation ops m (dh_server st)\<rparr>"

text \<open>
  The address leaves whoever had it, and the client whatever it had. \<open>find_holder\<close> is the walk over the map for
  a holder of the address: some entry that has it, if any has.
\<close>

definition dhcp_freed ::
    "'srv dhcp_ops \<Rightarrow> ((mac \<rightharpoonup> ipv4) \<Rightarrow> ipv4 \<Rightarrow> mac option) \<Rightarrow> mac \<Rightarrow> ipv4 \<Rightarrow> 'srv dhcp_state \<Rightarrow> 'srv dhcp_state" where
  "dhcp_freed ops find_holder m a st =
     (let st1 = (if dh_reserved st m \<noteq> None then dhcp_unreserve ops m st else st) in
      case find_holder (dh_reserved st1) a of None \<Rightarrow> st1 | Some holder \<Rightarrow> dhcp_unreserve ops holder st1)"

definition dhcp_reserve ::
    "'srv dhcp_ops \<Rightarrow> ((mac \<rightharpoonup> ipv4) \<Rightarrow> ipv4 \<Rightarrow> mac option) \<Rightarrow> mac \<Rightarrow> ipv4 \<Rightarrow> 'srv dhcp_state \<Rightarrow>
     (dhcp_error, unit) outcome \<times> 'srv dhcp_state" where
  "dhcp_reserve ops find_holder m a st =
     (if \<not> (op_pool_start ops (dh_server st) \<le> a \<and> a \<le> op_pool_end ops (dh_server st)) then (Err OutsidePool, st)
      else if dh_reserved st m = Some a then (Ok (), st)
      else
        let st2 = dhcp_freed ops find_holder m a st in
        (case op_reserve_ip ops m a (dh_server st2) of
           None \<Rightarrow> (Panic, st2)
         | Some server \<Rightarrow> (Ok (), st2\<lparr>dh_server := server, dh_reserved := (dh_reserved st2)(m \<mapsto> a)\<rparr>)))"

record dhcp_packet =
  pk_client_mac :: mac
  pk_ciaddr :: ipv4

definition DHCP_BROADCAST :: ipv4 where "DHCP_BROADCAST = - 1"

definition reply_target :: "dhcp_packet \<Rightarrow> ipv4" where
  "reply_target p = (if is_unspecified (pk_ciaddr p) then DHCP_BROADCAST else pk_ciaddr p)"

definition dhcp_handle ::
    "'srv dhcp_ops \<Rightarrow> (bytes \<Rightarrow> dhcp_packet option) \<Rightarrow> bytes \<Rightarrow> 'srv dhcp_state \<Rightarrow> (bytes \<times> ipv4) option \<times> 'srv dhcp_state" where
  "dhcp_handle ops parse datagram st =
     (case parse datagram of
        None \<Rightarrow> (None, st)
      | Some packet \<Rightarrow>
          if dh_reserved st (pk_client_mac packet) = None then (None, st)
          else (case op_handle_packet ops datagram (dh_server st) of
                  (Ok (Some reply), server) \<Rightarrow> (Some (reply, reply_target packet), st\<lparr>dh_server := server\<rparr>)
                | (_, server) \<Rightarrow> (None, st\<lparr>dh_server := server\<rparr>)))"

section \<open>Masks and members\<close>

lemma bit_prefix_mask: "bit (prefix_mask l :: u32) i \<longleftrightarrow> i < 32 \<and> 32 \<le> i + l"
  by (auto simp: prefix_mask_def bit_simps not_le)

text \<open>The addresses of a subnet: those that agree with it on its prefix.\<close>

definition member :: "ipv4 \<Rightarrow> ipv4_subnet \<Rightarrow> bool" where
  "member a s \<longleftrightarrow> a AND prefix_mask (sn_prefix_length s) = network_address s"

lemma member_bits: "member a s \<longleftrightarrow> (\<forall>i. i < 32 \<and> 32 \<le> i + sn_prefix_length s \<longrightarrow> bit a i = bit (sn_address s) i)"
  by (auto simp: member_def network_address_def bit_eq_iff bit_and_iff bit_prefix_mask)

lemma overlaps_bits:
  "overlaps a b \<longleftrightarrow> (\<forall>i. i < 32 \<and> 32 \<le> i + min (sn_prefix_length a) (sn_prefix_length b) \<longrightarrow> bit (sn_address a) i = bit (sn_address b) i)"
  by (auto simp: overlaps_def bit_eq_iff bit_and_iff bit_xor_iff bit_prefix_mask)

lemma overlaps_iff_shared: "overlaps a b \<longleftrightarrow> (\<exists>x. member x a \<and> member x b)"
proof
  assume o: "overlaps a b"
  show "\<exists>x. member x a \<and> member x b"
  proof (cases "sn_prefix_length a \<le> sn_prefix_length b")
    case True
    with o have "member (sn_address b) a \<and> member (sn_address b) b" by (auto simp: member_bits overlaps_bits)
    then show ?thesis by blast
  next
    case False
    with o have "member (sn_address a) a \<and> member (sn_address a) b" by (auto simp: member_bits overlaps_bits)
    then show ?thesis by blast
  qed
qed (auto simp: member_bits overlaps_bits)

lemma choose_subnet_free:
  "(\<exists>c \<in> set CANDIDATE_SUBNETS. \<forall>s \<in> set occupied. \<not> overlaps c s) \<Longrightarrow> s \<in> set occupied \<Longrightarrow> \<not> overlaps (choose_subnet occupied) s"
  by (auto simp: choose_subnet_def find_None_iff CANDIDATE_SUBNETS_def split: option.splits)

lemma choose_subnet_candidate: "choose_subnet occupied \<in> set CANDIDATE_SUBNETS"
  by (auto simp: choose_subnet_def CANDIDATE_SUBNETS_def split: option.splits)

lemma gateway_Panic: "gateway s = (Panic :: ('e, ipv4) outcome) \<longleftrightarrow> network_address s = - 1"
  by (simp add: gateway_def)

lemma gateway_member:
  assumes "gateway s = Ok g" "sn_prefix_length s < 32"
  shows "member g s"
proof -
  have "\<not> bit (network_address s) 0" using assms(2) by (auto simp: network_address_def bit_and_iff bit_prefix_mask)
  moreover from assms(1) have "g = network_address s + 1" by (simp add: gateway_def split: if_splits)
  moreover have "network_address s AND 1 = 0" using calculation(1) by (simp add: and_one_eq bit_0 even_iff_mod_2_eq_zero)
  ultimately have "g = network_address s OR 1" by (simp add: disjunctive_add_eq_or)
  then show ?thesis using assms(2) by (auto simp: member_bits network_address_def bit_or_iff bit_and_iff bit_prefix_mask bit_1_iff)
qed

section \<open>Resolvers that are offered\<close>

lemma usable_loop_spec:
  "set (usable_loop subnet configured servers) = set servers \<union> {s \<in> set configured. \<not> unreachable_resolver subnet s}"
  "distinct servers \<Longrightarrow> distinct (usable_loop subnet configured servers)"
  by (induction subnet configured servers rule: usable_loop.induct) auto

section \<open>Reservations are one to one\<close>

text \<open>What the package documents of its reservations, with \<open>held\<close> the ones a server has.\<close>

definition dhcp_documented :: "'srv dhcp_ops \<Rightarrow> ('srv \<Rightarrow> mac \<rightharpoonup> ipv4) \<Rightarrow> bool" where
  "dhcp_documented ops held \<longleftrightarrow>
     (\<forall>m a s. op_pool_start ops s \<le> a \<longrightarrow> a \<le> op_pool_end ops s \<longrightarrow> a \<notin> ran (held s) \<longrightarrow>
        (\<exists>s'. op_reserve_ip ops m a s = Some s')) \<and>
     (\<forall>m a s s'. op_reserve_ip ops m a s = Some s' \<longrightarrow> held s' = (held s)(m \<mapsto> a) \<and>
        op_pool_start ops s' = op_pool_start ops s \<and> op_pool_end ops s' = op_pool_end ops s) \<and>
     (\<forall>m s. held (op_remove_reservation ops m s) = (held s)(m := None) \<and>
        op_pool_start ops (op_remove_reservation ops m s) = op_pool_start ops s \<and>
        op_pool_end ops (op_remove_reservation ops m s) = op_pool_end ops s) \<and>
     (\<forall>d s. held (snd (op_handle_packet ops d s)) = held s \<and>
        op_pool_start ops (snd (op_handle_packet ops d s)) = op_pool_start ops s \<and>
        op_pool_end ops (snd (op_handle_packet ops d s)) = op_pool_end ops s)"

lemma dhcp_documentedD:
  assumes "dhcp_documented ops held"
  shows "op_pool_start ops s \<le> a \<Longrightarrow> a \<le> op_pool_end ops s \<Longrightarrow> a \<notin> ran (held s) \<Longrightarrow> \<exists>s'. op_reserve_ip ops m a s = Some s'"
    and "op_reserve_ip ops m a s = Some s' \<Longrightarrow> held s' = (held s)(m \<mapsto> a)"
  using assms by (simp_all add: dhcp_documented_def)

definition finds_holder :: "((mac \<rightharpoonup> ipv4) \<Rightarrow> ipv4 \<Rightarrow> mac option) \<Rightarrow> bool" where
  "finds_holder find_holder \<longleftrightarrow>
     (\<forall>r a. case find_holder r a of None \<Rightarrow> a \<notin> ran r | Some m \<Rightarrow> r m = Some a)"

lemma finds_holderD:
  "finds_holder f \<Longrightarrow> f r a = None \<Longrightarrow> a \<notin> ran r" "finds_holder f \<Longrightarrow> f r a = Some h \<Longrightarrow> r h = Some a"
  unfolding finds_holder_def by (erule allE [of _ r], erule allE [of _ a], simp)+

definition wf_dhcp :: "('srv \<Rightarrow> mac \<rightharpoonup> ipv4) \<Rightarrow> 'srv dhcp_state \<Rightarrow> bool" where
  "wf_dhcp held st \<longleftrightarrow> held (dh_server st) = dh_reserved st \<and> inj_on (dh_reserved st) (dom (dh_reserved st))"

lemma wf_dhcp_unique:
  "wf_dhcp held st \<Longrightarrow> dh_reserved st k = Some a \<Longrightarrow> dh_reserved st m = Some a \<Longrightarrow> k = m"
  by (rule inj_onD [of "dh_reserved st" "dom (dh_reserved st)"]) (auto simp: wf_dhcp_def)

lemma inj_on_map_upd_None: "inj_on r (dom r) \<Longrightarrow> inj_on (r(m := None)) (dom r - {m})"
  by (auto simp: inj_on_def)

lemma inj_on_map_upd_Some:
  assumes "inj_on r (dom r)" "a \<notin> ran r"
  shows "inj_on (r(m \<mapsto> a)) (dom (r(m \<mapsto> a)))"
proof (rule inj_onI)
  fix x y
  assume "x \<in> dom (r(m \<mapsto> a))" "y \<in> dom (r(m \<mapsto> a))" "(r(m \<mapsto> a)) x = (r(m \<mapsto> a)) y"
  with assms show "x = y" using inj_onD [OF assms(1), of x y] by (auto simp: ran_def split: if_splits)
qed

lemma wf_dhcp_unreserve:
  "dhcp_documented ops held \<Longrightarrow> wf_dhcp held st \<Longrightarrow> wf_dhcp held (dhcp_unreserve ops m st)"
  by (simp add: dhcp_documented_def wf_dhcp_def dhcp_unreserve_def inj_on_map_upd_None)

lemma pool_unreserve:
  "dhcp_documented ops held \<Longrightarrow> op_pool_start ops (dh_server (dhcp_unreserve ops m st)) = op_pool_start ops (dh_server st)"
  "dhcp_documented ops held \<Longrightarrow> op_pool_end ops (dh_server (dhcp_unreserve ops m st)) = op_pool_end ops (dh_server st)"
  by (simp_all add: dhcp_documented_def dhcp_unreserve_def)

text \<open>The address goes to its new owner and to nobody else.\<close>

definition reserved_after :: "mac \<Rightarrow> ipv4 \<Rightarrow> (mac \<rightharpoonup> ipv4) \<Rightarrow> (mac \<rightharpoonup> ipv4)" where
  "reserved_after m a r = (\<lambda>k. if k = m then Some a else if r k = Some a then None else r k)"

lemma dhcp_freed_ok:
  fixes m :: mac and a :: ipv4
  assumes doc: "dhcp_documented ops held" and fh: "finds_holder find_holder" and wf: "wf_dhcp held st"
  defines "st2 \<equiv> dhcp_freed ops find_holder m a st"
  shows "wf_dhcp held st2" "a \<notin> ran (dh_reserved st2)" "(dh_reserved st2)(m \<mapsto> a) = reserved_after m a (dh_reserved st)"
    "op_pool_start ops (dh_server st2) = op_pool_start ops (dh_server st)" "op_pool_end ops (dh_server st2) = op_pool_end ops (dh_server st)"
proof -
  define st1 where "st1 = (if dh_reserved st m \<noteq> None then dhcp_unreserve ops m st else st)"
  have st2: "st2 = (case find_holder (dh_reserved st1) a of None \<Rightarrow> st1 | Some holder \<Rightarrow> dhcp_unreserve ops holder st1)"
    by (simp only: st2_def st1_def dhcp_freed_def Let_def)
  have wf1: "wf_dhcp held st1" using wf doc by (simp add: st1_def wf_dhcp_unreserve)
  have r1: "dh_reserved st1 = (dh_reserved st)(m := None)" by (auto simp: st1_def dhcp_unreserve_def)
  have r2: "dh_reserved st2 = (\<lambda>k. if dh_reserved st1 k = Some a then None else dh_reserved st1 k)"
  proof (cases "find_holder (dh_reserved st1) a")
    case None
    then have "a \<notin> ran (dh_reserved st1)" using finds_holderD(1) [OF fh] by simp
    then show ?thesis using None by (auto simp: st2 ran_def)
  next
    case (Some h)
    then have h: "dh_reserved st1 h = Some a" using finds_holderD(2) [OF fh] by simp
    then have "dh_reserved st2 k = (if dh_reserved st1 k = Some a then None else dh_reserved st1 k)" for k
      using Some h by (cases "k = h") (auto simp: st2 dhcp_unreserve_def dest: wf_dhcp_unique [OF wf1 _ h])
    then show ?thesis by (rule ext)
  qed
  show "wf_dhcp held st2" using wf1 doc by (simp add: st2 wf_dhcp_unreserve split: option.split)
  show "a \<notin> ran (dh_reserved st2)" by (auto simp: r2 ran_def)
  show "(dh_reserved st2)(m \<mapsto> a) = reserved_after m a (dh_reserved st)" by (auto simp: r2 r1 reserved_after_def)
  show "op_pool_start ops (dh_server st2) = op_pool_start ops (dh_server st)" "op_pool_end ops (dh_server st2) = op_pool_end ops (dh_server st)"
    using doc by (simp_all add: st1_def st2 pool_unreserve split: option.split)
qed

lemma dhcp_reserve_ok:
  assumes doc: "dhcp_documented ops held" and fh: "finds_holder find_holder" and wf: "wf_dhcp held st"
    and pool: "op_pool_start ops (dh_server st) \<le> a" "a \<le> op_pool_end ops (dh_server st)"
  shows "\<exists>st'. dhcp_reserve ops find_holder m a st = (Ok (), st') \<and> wf_dhcp held st' \<and>
    dh_reserved st' = reserved_after m a (dh_reserved st)"
proof (cases "dh_reserved st m = Some a")
  case True
  have "reserved_after m a (dh_reserved st) k = dh_reserved st k" for k
    using True by (cases "k = m") (auto simp: reserved_after_def dest: wf_dhcp_unique [OF wf _ True])
  then have "reserved_after m a (dh_reserved st) = dh_reserved st" by (rule ext)
  with True wf pool show ?thesis by (simp add: dhcp_reserve_def)
next
  case False
  note freed = dhcp_freed_ok [OF doc fh wf, where m = m and a = a]
  let ?st2 = "dhcp_freed ops find_holder m a st"
  obtain s' where s': "op_reserve_ip ops m a (dh_server ?st2) = Some s'"
    using dhcp_documentedD(1) [OF doc, of "dh_server ?st2" a m] freed pool by (auto simp: wf_dhcp_def)
  then have "held s' = (dh_reserved ?st2)(m \<mapsto> a)"
    using dhcp_documentedD(2) [OF doc s'] freed(1) by (simp add: wf_dhcp_def)
  moreover have "inj_on ((dh_reserved ?st2)(m \<mapsto> a)) (dom ((dh_reserved ?st2)(m \<mapsto> a)))"
    by (rule inj_on_map_upd_Some) (use freed(1,2) in \<open>simp_all add: wf_dhcp_def\<close>)
  ultimately have "wf_dhcp held (?st2\<lparr>dh_server := s', dh_reserved := (dh_reserved ?st2)(m \<mapsto> a)\<rparr>)" by (simp add: wf_dhcp_def)
  moreover have "dhcp_reserve ops find_holder m a st = (Ok (), ?st2\<lparr>dh_server := s', dh_reserved := (dh_reserved ?st2)(m \<mapsto> a)\<rparr>)"
    using False pool s' by (simp add: dhcp_reserve_def Let_def)
  ultimately show ?thesis using freed(3) by simp
qed

datatype dhcp_call = Reserve mac ipv4 | Datagram bytes

fun dhcp_perform ::
    "'srv dhcp_ops \<Rightarrow> ((mac \<rightharpoonup> ipv4) \<Rightarrow> ipv4 \<Rightarrow> mac option) \<Rightarrow> (bytes \<Rightarrow> dhcp_packet option) \<Rightarrow> dhcp_call \<Rightarrow> 'srv dhcp_state \<Rightarrow>
     (dhcp_error, (bytes \<times> ipv4) option) outcome \<times> 'srv dhcp_state" where
  "dhcp_perform ops find_holder parse (Reserve m a) st =
     (case dhcp_reserve ops find_holder m a st of
        (Ok _, st') \<Rightarrow> (Ok None, st') | (Err e, st') \<Rightarrow> (Err e, st') | (Panic, st') \<Rightarrow> (Panic, st'))"
| "dhcp_perform ops find_holder parse (Datagram d) st = (case dhcp_handle ops parse d st of (reply, st') \<Rightarrow> (Ok reply, st'))"

lemma dhcp_handle_kept:
  assumes "dhcp_documented ops held" "wf_dhcp held st"
  shows "wf_dhcp held (snd (dhcp_handle ops parse d st))" "dh_reserved (snd (dhcp_handle ops parse d st)) = dh_reserved st"
  using assms
  by (auto simp: dhcp_handle_def wf_dhcp_def dhcp_documented_def split: option.splits prod.splits outcome.splits)
    (metis snd_conv)+

lemma dhcp_perform_kept:
  assumes "dhcp_documented ops held" "finds_holder find_holder" "wf_dhcp held st"
  shows "fst (dhcp_perform ops find_holder parse c st) \<noteq> Panic" "wf_dhcp held (snd (dhcp_perform ops find_holder parse c st))"
proof -
  have "fst (dhcp_perform ops find_holder parse c st) \<noteq> Panic \<and> wf_dhcp held (snd (dhcp_perform ops find_holder parse c st))"
  proof (cases c)
    case (Reserve m a)
    show ?thesis
    proof (cases "op_pool_start ops (dh_server st) \<le> a \<and> a \<le> op_pool_end ops (dh_server st)")
      case True
      then show ?thesis using dhcp_reserve_ok [OF assms, of a m] Reserve by auto
    next
      case False
      then show ?thesis using Reserve assms(3) by (simp add: dhcp_reserve_def)
    qed
  next
    case (Datagram d)
    then show ?thesis using dhcp_handle_kept [OF assms(1,3), of parse d] by (cases "dhcp_handle ops parse d st") simp
  qed
  then show "fst (dhcp_perform ops find_holder parse c st) \<noteq> Panic" "wf_dhcp held (snd (dhcp_perform ops find_holder parse c st))"
    by simp_all
qed

lemma dhcp_run_kept:
  assumes "dhcp_documented ops held" "finds_holder find_holder" "wf_dhcp held st"
  shows "wf_dhcp held (fold (\<lambda>c st. snd (dhcp_perform ops find_holder parse c st)) calls st)"
  using assms(3)
proof (induction calls arbitrary: st)
  case (Cons c calls)
  then show ?case using dhcp_perform_kept [OF assms(1,2), of st parse c] by simp
qed simp

end
