(* ===== verification/Ssh_Port.thy ===== *)
theory Ssh_Port
  imports Prelude
begin

text \<open>
  Moving the SSH port of a running guest (\<open>platform/src/ssh_port.rs\<close>): the two commands the guest's
  shell is given, and the order in which a move asks, checks and reports. To say what a
  shell makes of the commands there is a reader of the part of the POSIX shell's language that they use;
  an unquoted character that a shell gives another meaning to is outside that part. What the ssh
  client, HNS and the probes answer are arguments.
\<close>

section \<open>The commands\<close>

datatype SshUnits = Service string | SocketActivated string string string

record ssh_daemon =
  sd_units :: SshUnits
  sd_config_drop_in :: string

fun escape_quotes :: "string \<Rightarrow> string" where
  "escape_quotes [] = []"
| "escape_quotes (c # cs) =
     (if c = CHR 0x27 then [CHR 0x27, CHR 0x5C, CHR 0x27, CHR 0x27] @ escape_quotes cs else c # escape_quotes cs)"

definition sh_quote :: "string \<Rightarrow> string" where
  "sh_quote word = [CHR 0x27] @ escape_quotes word @ [CHR 0x27]"

definition privileged :: "string \<Rightarrow> string" where
  "privileged script = ''sudo -n /bin/sh -c '' @ sh_quote script"

fun join_words :: "string list \<Rightarrow> string" where
  "join_words [] = []"
| "join_words [w] = w"
| "join_words (w # ws) = w @ '' '' @ join_words ws"

definition newline :: string where "newline = [CHR 0x0A]"

definition write_file :: "string \<Rightarrow> string list \<Rightarrow> string" where
  "write_file path lines =
     ''install -D -m 0644 /dev/null '' @ sh_quote path @ newline @
     ''printf '' @ [CHR 0x27] @ ''%s'' @ [CHR 0x5C, CHR 0x6E, CHR 0x27] @ '' '' @ join_words (map sh_quote lines) @ '' > '' @ sh_quote path @ newline"

fun decimal :: "nat \<Rightarrow> string" where
  "decimal n = (if n < 10 then [char_of (48 + n)] else decimal (n div 10) @ [char_of (48 + n mod 10)])"

declare decimal.simps [simp del]

definition socket_lines :: "nat \<Rightarrow> string list" where
  "socket_lines port =
     [''[Socket]'', ''ListenStream='', ''ListenStream=0.0.0.0:'' @ decimal port, ''ListenStream=[::]:'' @ decimal port]"

definition write_script :: "ssh_daemon \<Rightarrow> nat \<Rightarrow> string" where
  "write_script d port =
     ''set -e'' @ newline @ write_file (sd_config_drop_in d) [''Port '' @ decimal port] @
     (case sd_units d of
        SocketActivated _ drop_in _ \<Rightarrow> write_file drop_in (socket_lines port)
      | Service _ \<Rightarrow> []) @
     ''systemctl daemon-reload'' @ newline"

definition write_command :: "ssh_daemon \<Rightarrow> nat \<Rightarrow> string" where
  "write_command d port = privileged (write_script d port)"

definition restart_decision :: "ssh_daemon \<Rightarrow> string" where
  "restart_decision d =
     (case sd_units d of
        Service unit \<Rightarrow> ''systemctl try-restart '' @ unit
      | SocketActivated socket _ service \<Rightarrow>
          ''if systemctl is-active --quiet '' @ socket @ ''; then systemctl stop '' @ service @
          ''; systemctl restart '' @ socket @ ''; else systemctl try-restart '' @ service @ ''; fi'')"

definition restart_command :: "ssh_daemon \<Rightarrow> string" where
  "restart_command d =
     privileged (''systemd-run --collect --no-block /bin/sh -c '' @ sh_quote (restart_decision d) @ newline)"

section \<open>A move\<close>

record remote_run =
  rr_code :: "int option"
  rr_transcript_tail :: string

datatype PortMove = Applied | RestartNeeded string

datatype PortMoveFailure =
    NoSshClient | Disabled | UnknownDaemon | PasswordMode | Unusable string | NoAddress
  | Refused "int option" string | RefusedToRun string

record port_mapping =
  pm_ssh :: "bool option"
  pm_ssh_daemon :: "ssh_daemon option"

record mover_env =
  mv_client :: bool
  mv_address :: "(string, u32 option) outcome"
  mv_endpoint :: "(string, unit) outcome"
  mv_run :: "string \<Rightarrow> (string, remote_run) outcome"
  mv_probe :: "nat \<Rightarrow> (string, unit) outcome"

datatype move_event = RanCommand string | Slept | Probed nat

definition PROBE_ATTEMPTS :: nat where "PROBE_ATTEMPTS = 10"

text \<open>The attempts left and the number of the next one.\<close>

fun verify_loop :: "mover_env \<Rightarrow> nat \<Rightarrow> nat \<Rightarrow> string \<Rightarrow> PortMove \<times> move_event list" where
  "verify_loop env 0 attempt last_error = (RestartNeeded last_error, [])"
| "verify_loop env (Suc left) attempt last_error =
     (let slept = (if attempt > 0 then [Slept] else []) in
      case mv_probe env attempt of
        Err e \<Rightarrow> (case verify_loop env left (attempt + 1) e of (m, evs) \<Rightarrow> (m, slept @ Probed attempt # evs))
      | _ \<Rightarrow> (Applied, slept @ [Probed attempt]))"

definition verify_port :: "mover_env \<Rightarrow> PortMove \<times> move_event list" where
  "verify_port env = verify_loop env PROBE_ATTEMPTS 0 []"

text \<open>\<open>pm_ssh\<close> is whether the configuration logs in with VMLord's own key.\<close>

definition move_port :: "mover_env \<Rightarrow> port_mapping \<Rightarrow> nat \<Rightarrow> (PortMoveFailure, PortMove) outcome \<times> move_event list" where
  "move_port env m port =
     (if \<not> mv_client env then (Err NoSshClient, [])
      else case pm_ssh m of
          None \<Rightarrow> (Err Disabled, [])
        | Some own_key \<Rightarrow>
            (case pm_ssh_daemon m of
               None \<Rightarrow> (Err UnknownDaemon, [])
             | Some daemon \<Rightarrow>
                 if \<not> own_key then (Err PasswordMode, [])
                 else (case mv_address env of
                     Ok (Some address) \<Rightarrow>
                       (case mv_endpoint env of
                          Ok _ \<Rightarrow>
                            (let write = write_command daemon port in
                             case mv_run env write of
                               Ok run \<Rightarrow>
                                 if rr_code run \<noteq> Some 0
                                 then (Err (Refused (rr_code run) (rr_transcript_tail run)), [RanCommand write])
                                 else (case verify_port env of (result, evs) \<Rightarrow>
                                         (Ok result, RanCommand write # RanCommand (restart_command daemon) # evs))
                             | Err e \<Rightarrow> (Err (RefusedToRun e), [RanCommand write])
                             | Panic \<Rightarrow> (Panic, [RanCommand write]))
                        | Err e \<Rightarrow> (Err (Unusable e), [])
                        | Panic \<Rightarrow> (Panic, []))
                   | Panic \<Rightarrow> (Panic, [])
                   | _ \<Rightarrow> (Err NoAddress, []))))"

section \<open>A shell's reading\<close>

datatype sh_token = Word string | Op char

definition sh_special :: "char set" where
  "sh_special = set ''$`*?[]#~=&|<(){}!'' \<union> {CHR 0x22}"

definition sh_end :: "string option \<Rightarrow> sh_token list \<Rightarrow> sh_token list" where
  "sh_end current ts = (case current of None \<Rightarrow> ts | Some w \<Rightarrow> Word w # ts)"

definition sh_grow :: "string option \<Rightarrow> char \<Rightarrow> string option" where
  "sh_grow current c = Some ((case current of None \<Rightarrow> [] | Some w \<Rightarrow> w) @ [c])"

text \<open>The flag says whether the reader is between single quotes, where only the closing quote means anything.\<close>

fun sh_lex :: "string \<Rightarrow> bool \<Rightarrow> string option \<Rightarrow> sh_token list option" where
  "sh_lex [] quoted current = (if quoted then None else Some (sh_end current []))"
| "sh_lex (c # cs) True current =
     (if c = CHR 0x27 then sh_lex cs False current else sh_lex cs True (sh_grow current c))"
| "sh_lex (c # cs) False current =
     (if c = CHR 0x27 then sh_lex cs True (Some (case current of None \<Rightarrow> [] | Some w \<Rightarrow> w))
      else if c = CHR 0x5C then (case cs of [] \<Rightarrow> None | d # ds \<Rightarrow> if d = CHR 0x0A then None else sh_lex ds False (sh_grow current d))
      else if c = CHR 0x20 then map_option (sh_end current) (sh_lex cs False None)
      else if c \<in> {CHR 0x0A, CHR 0x3B, CHR 0x3E} then map_option (\<lambda>ts. sh_end current (Op c # ts)) (sh_lex cs False None)
      else if c \<in> sh_special then None
      else sh_lex cs False (sh_grow current c))"

definition sh_read :: "string \<Rightarrow> sh_token list option" where
  "sh_read text = sh_lex text False None"

section \<open>What is quoted is one word\<close>

lemma sh_lex_escaped:
  "sh_lex (escape_quotes w @ CHR 0x27 # rest) True (Some acc) = sh_lex rest False (Some (acc @ w))"
  by (induction w arbitrary: acc) (auto simp: sh_grow_def)

lemma sh_lex_quote [simp]:
  "sh_lex (sh_quote w @ rest) False current = sh_lex rest False (Some ((case current of None \<Rightarrow> [] | Some v \<Rightarrow> v) @ w))"
  using sh_lex_escaped [of w rest "case current of None \<Rightarrow> [] | Some v \<Rightarrow> v"] by (simp add: sh_quote_def)

lemma sh_lex_quote_end: "sh_lex (sh_quote w) False None = Some [Word w]"
  using sh_lex_quote [of w "[]" None] by (simp add: sh_end_def)

definition sh_plain :: "string \<Rightarrow> bool" where
  "sh_plain w \<longleftrightarrow> list_all (\<lambda>c. c \<noteq> CHR 0x27 \<and> c \<noteq> CHR 0x5C \<and> c \<noteq> CHR 0x20 \<and> c \<notin> {CHR 0x0A, CHR 0x3B, CHR 0x3E} \<and> c \<notin> sh_special) w"

lemma sh_lex_plain:
  "sh_plain w \<Longrightarrow> w \<noteq> [] \<Longrightarrow> sh_lex (w @ rest) False current = sh_lex rest False (Some ((case current of None \<Rightarrow> [] | Some v \<Rightarrow> v) @ w))"
proof (induction w arbitrary: current)
  case (Cons c w)
  then show ?case by (cases "w = []") (auto simp: sh_plain_def sh_grow_def)
qed simp

section \<open>What the guest's shells read\<close>

text \<open>The commands that the first script is, and the tokens each is written with.\<close>

datatype guest_command = SetE | Install string | Printf "string list" string | DaemonReload

definition NL :: sh_token where "NL = Op (CHR 0x0A)"

fun command_tokens :: "guest_command \<Rightarrow> sh_token list" where
  "command_tokens SetE = [Word ''set'', Word ''-e'', NL]"
| "command_tokens (Install path) =
     [Word ''install'', Word ''-D'', Word ''-m'', Word ''0644'', Word ''/dev/null'', Word path, NL]"
| "command_tokens (Printf lines path) =
     [Word ''printf'', Word (''%s'' @ [CHR 0x5C, CHR 0x6E])] @ map Word lines @ [Op (CHR 0x3E), Word path, NL]"
| "command_tokens DaemonReload = [Word ''systemctl'', Word ''daemon-reload'', NL]"

definition script_commands :: "ssh_daemon \<Rightarrow> nat \<Rightarrow> guest_command list" where
  "script_commands d port =
     [SetE, Install (sd_config_drop_in d), Printf [''Port '' @ decimal port] (sd_config_drop_in d)] @
     (case sd_units d of
        SocketActivated _ drop_in _ \<Rightarrow> [Install drop_in, Printf (socket_lines port) drop_in]
      | Service _ \<Rightarrow> []) @
     [DaemonReload]"

lemma sh_lex_join_quoted:
  "lines \<noteq> [] \<Longrightarrow> sh_lex (join_words (map sh_quote lines) @ CHR 0x20 # rest) False None =
     map_option (append (map Word lines)) (sh_lex rest False None)"
proof (induction lines rule: join_words.induct)
  case (2 w)
  then show ?case by (simp add: sh_end_def cong: map_option_cong)
next
  case (3 w v vs)
  then show ?case by (simp add: sh_end_def option.map_comp comp_def)
qed simp

lemma sh_lex_write_file:
  assumes "lines \<noteq> []"
  shows "sh_lex (write_file path lines @ rest) False None =
    map_option (append (command_tokens (Install path) @ command_tokens (Printf lines path))) (sh_lex rest False None)"
proof -
  have joined: "join_words (map sh_quote lines) @ '' > '' @ more = join_words (map sh_quote lines) @ CHR 0x20 # ''> '' @ more" for more
    by simp
  show ?thesis
    unfolding write_file_def newline_def append.assoc joined
    by (simp add: sh_lex_join_quoted [OF assms] sh_end_def sh_grow_def sh_special_def option.map_comp comp_def NL_def)
qed

lemma write_script_read:
  "sh_read (write_script d port) = Some (concat (map command_tokens (script_commands d port)))"
  by (cases "sd_units d")
    (simp_all add: sh_read_def write_script_def script_commands_def newline_def sh_lex_write_file socket_lines_def
      sh_end_def sh_grow_def sh_special_def NL_def option.map_comp comp_def)

lemma privileged_read:
  "sh_read (privileged script) = Some [Word ''sudo'', Word ''-n'', Word ''/bin/sh'', Word ''-c'', Word script]"
  by (simp add: sh_read_def privileged_def sh_lex_quote_end sh_end_def sh_grow_def sh_special_def)

lemma restart_command_read:
  "\<exists>script. sh_read (restart_command d) = Some [Word ''sudo'', Word ''-n'', Word ''/bin/sh'', Word ''-c'', Word script] \<and>
     sh_read script = Some [Word ''systemd-run'', Word ''--collect'', Word ''--no-block'', Word ''/bin/sh'', Word ''-c'',
       Word (restart_decision d), NL]"
  unfolding restart_command_def
  by (intro exI conjI, rule privileged_read) (simp add: sh_read_def newline_def sh_end_def sh_grow_def sh_special_def NL_def)

text \<open>A unit's name is not quoted in the text that the innermost shell reads.\<close>

lemma restart_decision_plain:
  "sd_units d = Service unit \<Longrightarrow> sh_plain unit \<Longrightarrow> unit \<noteq> [] \<Longrightarrow>
     sh_read (restart_decision d) = Some [Word ''systemctl'', Word ''try-restart'', Word unit]"
  using sh_lex_plain [of unit "[]" None]
  by (simp add: sh_read_def restart_decision_def sh_end_def sh_grow_def sh_special_def)

lemma unit_name_is_read_as_a_command:
  "sd_units d = Service ''ssh; reboot'' \<Longrightarrow>
     sh_read (restart_decision d) = Some [Word ''systemctl'', Word ''try-restart'', Word ''ssh'', Op (CHR 0x3B), Word ''reboot'']"
  by (simp add: sh_read_def restart_decision_def sh_end_def sh_grow_def sh_special_def)

section \<open>What a script that stops has done\<close>

text \<open>The guest's files under \<open>set -e\<close>: the first command that fails ends the script.\<close>

fun guest_apply :: "guest_command \<Rightarrow> (string \<rightharpoonup> string list) \<Rightarrow> (string \<rightharpoonup> string list)" where
  "guest_apply (Install path) files = files(path \<mapsto> [])"
| "guest_apply (Printf lines path) files = files(path \<mapsto> lines)"
| "guest_apply _ files = files"

fun guest_run :: "(guest_command \<Rightarrow> bool) \<Rightarrow> guest_command list \<Rightarrow> (string \<rightharpoonup> string list) \<Rightarrow> int \<times> (string \<rightharpoonup> string list)" where
  "guest_run fails [] files = (0, files)"
| "guest_run fails (c # cs) files = (if fails c then (1, files) else guest_run fails cs (guest_apply c files))"

lemma script_stopped_late:
  "guest_run (\<lambda>c. c = DaemonReload) (script_commands d port) files = (1, fold guest_apply (script_commands d port) files)"
  by (cases "sd_units d") (simp_all add: script_commands_def)

lemma guest_run_done:
  "(\<And>c. \<not> fails c) \<Longrightarrow> guest_run fails cs files = (0, fold guest_apply cs files)"
  by (induction cs arbitrary: files) simp_all

lemma script_files:
  "fold guest_apply (script_commands d port) files =
     (case sd_units d of
        SocketActivated _ drop_in _ \<Rightarrow> files(sd_config_drop_in d \<mapsto> [''Port '' @ decimal port], drop_in \<mapsto> socket_lines port)
      | Service _ \<Rightarrow> files(sd_config_drop_in d \<mapsto> [''Port '' @ decimal port]))"
  by (cases "sd_units d") (simp_all add: script_commands_def)

section \<open>A move's report\<close>

definition probes :: "move_event list \<Rightarrow> nat list" where
  "probes evs = concat (map (\<lambda>e. case e of Probed n \<Rightarrow> [n] | _ \<Rightarrow> []) evs)"

definition commands :: "move_event list \<Rightarrow> string list" where
  "commands evs = concat (map (\<lambda>e. case e of RanCommand c \<Rightarrow> [c] | _ \<Rightarrow> []) evs)"

definition probe_answers :: "mover_env \<Rightarrow> nat \<Rightarrow> bool" where
  "probe_answers env k = (case mv_probe env k of Err _ \<Rightarrow> False | _ \<Rightarrow> True)"

lemma event_lists [simp]:
  "probes [] = []" "probes (Probed n # evs) = n # probes evs" "probes (Slept # evs) = probes evs"
  "probes (RanCommand c # evs) = probes evs"
  "commands [] = []" "commands (Probed n # evs) = commands evs" "commands (Slept # evs) = commands evs"
  "commands (RanCommand c # evs) = c # commands evs"
  by (simp_all add: probes_def commands_def)

text \<open>The probes are the numbers up to the first that answers, or all that were left.\<close>

lemma verify_loop_report:
  "case verify_loop env n attempt e of (m, evs) \<Rightarrow>
     commands evs = [] \<and>
     (m = Applied \<longleftrightarrow> (\<exists>k \<in> set [attempt ..< attempt + n]. probe_answers env k)) \<and>
     probes evs = (case find (probe_answers env) [attempt ..< attempt + n] of
        Some k \<Rightarrow> [attempt ..< Suc k] | None \<Rightarrow> [attempt ..< attempt + n])"
proof (induction n arbitrary: attempt e)
  case (Suc n)
  have upto: "[attempt ..< attempt + Suc n] = attempt # [Suc attempt ..< Suc attempt + n]"
    by (simp add: upt_conv_Cons)
  show ?case
  proof (cases "probe_answers env attempt")
    case True
    then show ?thesis
      unfolding upto by (auto simp: probe_answers_def Let_def split: outcome.splits)
  next
    case False
    then obtain err where err: "mv_probe env attempt = Err err"
      by (auto simp: probe_answers_def split: outcome.splits)
    obtain m evs where rest: "verify_loop env n (Suc attempt) err = (m, evs)" by (rule prod.exhaust)
    have later: "attempt # [Suc attempt ..< Suc k] = [attempt ..< Suc k]"
      if "find (probe_answers env) [Suc attempt ..< Suc attempt + n] = Some k" for k
    proof -
      have "k \<in> set [Suc attempt ..< Suc attempt + n]" using that by (metis find_Some_iff nth_mem)
      then show ?thesis by (auto simp: upt_conv_Cons)
    qed
    show ?thesis
      using Suc.IH [where attempt = "Suc attempt" and e = err] False err rest later
      unfolding upto by (auto simp: Let_def split: option.splits simp del: upt_Suc)
  qed
qed simp

lemmas move_port_defs = move_port_def verify_port_def Let_def

lemma move_port_ok:
  assumes "move_port env m port = (Ok result, evs)"
  obtains daemon run where "pm_ssh m = Some True" "pm_ssh_daemon m = Some daemon"
    "mv_run env (write_command daemon port) = Ok run" "rr_code run = Some 0"
    "commands evs = [write_command daemon port, restart_command daemon]"
    "result = fst (verify_port env)" "probes evs = probes (snd (verify_port env))"
  using assms verify_loop_report [where env = env and n = PROBE_ATTEMPTS and attempt = 0 and e = "[]"]
  by (auto simp: move_port_defs split: if_splits option.splits outcome.splits prod.splits)

lemma move_port_failed:
  assumes "move_port env m port = (Err failure, evs)"
  shows "probes evs = []"
    and "evs \<noteq> [] \<Longrightarrow> \<exists>daemon. pm_ssh_daemon m = Some daemon \<and> commands evs = [write_command daemon port] \<and>
           (\<forall>run. mv_run env (write_command daemon port) = Ok run \<longrightarrow> rr_code run \<noteq> Some 0)"
  using assms
  by (auto simp: move_port_defs split: if_splits option.splits outcome.splits prod.splits)

end
