(* ===== verification/Import_Plan.thy ===== *)
theory Import_Plan
  imports Prelude
begin

text \<open>
  Splitting an image into chunks (\<open>platform/src/import/plan.rs\<close>), and the contract of the stream the chunks are
  filled from: what a \<open>Read\<close> hands out is a prefix of what is left of one sequence of bytes. The reader of an image is an
  instance (\<open>Qcow_Image\<close>); the copy onto a disk relies on the contract alone (\<open>Disk_Import\<close>).
\<close>

section \<open>Chunks\<close>

definition CHUNK_BYTES :: nat where "CHUNK_BYTES = 1024 * 1024"
definition SECTOR_ALIGNMENT :: nat where "SECTOR_ALIGNMENT = 4096"

text \<open>\<open>room\<close> is what is left of the buffer, and what is returned the bytes that were put there.\<close>

function fill_chunk :: "(nat \<Rightarrow> 's \<Rightarrow> ('e, bytes) outcome \<times> 's) \<Rightarrow> nat \<Rightarrow> 's \<Rightarrow> ('e, bytes) outcome \<times> 's" where
  "fill_chunk rd room s =
     (if room = 0 then (Ok [], s)
      else case rd room s of
          (Ok bs, s1) \<Rightarrow>
            if bs = [] then (Ok [], s1)
            else (case fill_chunk rd (room - length bs) s1 of
                (Ok more, s2) \<Rightarrow> (Ok (bs @ more), s2)
              | failed \<Rightarrow> failed)
        | (Err e, s1) \<Rightarrow> (Err e, s1)
        | (Panic, s1) \<Rightarrow> (Panic, s1))"
  by pat_completeness auto
termination by (relation "measure (\<lambda>(rd, room, s). room)") auto

declare fill_chunk.simps [simp del]

fun chunks_exact_8 :: "bytes \<Rightarrow> bytes list \<times> bytes" where
  "chunks_exact_8 (a # b # c # d # e # f # g # h # rest) =
     (case chunks_exact_8 rest of (words, tail) \<Rightarrow> ([a, b, c, d, e, f, g, h] # words, tail))"
| "chunks_exact_8 tail = ([], tail)"

definition is_zero :: "bytes \<Rightarrow> bool" where
  "is_zero chunk =
     (case chunks_exact_8 chunk of (words, tail) \<Rightarrow>
        list_all (\<lambda>word. word = replicate 8 0) words \<and> list_all (\<lambda>byte. byte = 0) tail)"

definition padded_length :: "nat \<Rightarrow> nat \<Rightarrow> nat" where
  "padded_length used alignment = div_ceil used alignment * alignment"

definition digest :: "bytes \<Rightarrow> 64 word" where
  "digest chunk = fold (\<lambda>byte hash. (hash XOR ucast byte) * 0x100000001b3) chunk 0xcbf29ce484222325"

text \<open>The words taken eight bytes at a time say what the bytes say.\<close>

lemma chunks_exact_8_all:
  "list_all (\<lambda>word. word = replicate 8 0) (fst (chunks_exact_8 bs)) \<and> list_all (\<lambda>byte. byte = 0) (snd (chunks_exact_8 bs)) \<longleftrightarrow>
     (\<forall>byte \<in> set bs. byte = 0)"
  by (induction bs rule: chunks_exact_8.induct) (auto simp: numeral_eq_Suc split: prod.splits)

lemma is_zero_iff: "is_zero bs \<longleftrightarrow> bs = replicate (length bs) 0"
proof -
  have "(\<forall>byte \<in> set bs. byte = 0) \<longleftrightarrow> bs = replicate (length bs) 0"
    by (metis in_set_replicate replicate_eqI)
  then show ?thesis using chunks_exact_8_all [of bs] by (cases "chunks_exact_8 bs") (simp add: is_zero_def)
qed

lemma padded_length_ge: "0 < alignment \<Longrightarrow> used \<le> padded_length used alignment"
  unfolding padded_length_def by (rule div_ceil_mult_ge)

lemma padded_length_aligned [simp]: "alignment dvd padded_length used alignment"
  by (simp add: padded_length_def)

lemma padded_length_multiple: "0 < alignment \<Longrightarrow> alignment dvd used \<Longrightarrow> padded_length used alignment = used"
proof -
  assume a: "0 < alignment" "alignment dvd used"
  then obtain k where k: "used = k * alignment" by (auto simp: mult.commute)
  have "div_ceil used alignment \<le> k" by (rule div_ceil_le [OF a(1)]) (simp add: k)
  moreover have "k * alignment \<le> div_ceil used alignment * alignment" using div_ceil_mult_ge [OF a(1), of used] k by simp
  then have "k \<le> div_ceil used alignment" using a(1) by simp
  ultimately show ?thesis by (simp add: padded_length_def k)
qed

lemma padded_length_least: "0 < alignment \<Longrightarrow> alignment dvd extent \<Longrightarrow> used \<le> extent \<Longrightarrow> padded_length used alignment \<le> extent"
proof -
  assume a: "0 < alignment" "alignment dvd extent" "used \<le> extent"
  then obtain k where k: "extent = k * alignment" by (auto simp: mult.commute)
  then have "div_ceil used alignment \<le> k" using a by (intro div_ceil_le) simp_all
  then show ?thesis using k by (simp add: padded_length_def)
qed

section \<open>Streams\<close>

locale read_stream =
  fixes inv :: "'s \<Rightarrow> bool"
    and remaining :: "'s \<Rightarrow> bytes"
    and rd :: "nat \<Rightarrow> 's \<Rightarrow> ('e, bytes) outcome \<times> 's"
  assumes read_law: "inv s \<Longrightarrow> \<exists>bs s'. rd n s = (Ok bs, s') \<and> inv s' \<and> length bs \<le> n \<and> remaining s = bs @ remaining s' \<and>
      (bs = [] \<longrightarrow> n = 0 \<or> remaining s = [])"
begin

lemma fill_law:
  "inv s \<Longrightarrow> \<exists>s'. fill_chunk rd room s = (Ok (take room (remaining s)), s') \<and> inv s' \<and> remaining s' = drop room (remaining s)"
proof (induction room arbitrary: s rule: less_induct)
  case (less room)
  obtain bs s1 where read: "rd room s = (Ok bs, s1)" "inv s1" "length bs \<le> room" "remaining s = bs @ remaining s1"
    "bs = [] \<longrightarrow> room = 0 \<or> remaining s = []"
    using read_law [OF less.prems, of room] by blast
  show ?case
  proof (cases "room = 0 \<or> bs = []")
    case True
    then show ?thesis using read less.prems by (subst fill_chunk.simps) auto
  next
    case False
    then have "room - length bs < room" by (cases bs) auto
    from less.IH [OF this read(2)] False read show ?thesis by (subst fill_chunk.simps) (auto split: prod.splits)
  qed
qed

end

end
