(* ===== verification/Qcow_Image.thy ===== *)
theory Qcow_Image
  imports Import_Plan
begin

text \<open>
  The disk inside a qcow2 image (\<open>image/src/qcow2.rs\<close>, \<open>image/src/qcow2/header.rs\<close>): the checks of a header before the
  parser sees the file, and the reader that serves the guest's disk through two caches. The file is
  what reads of it return, at any offset and for any length; the \<open>qcow\<close> package, which parses the header and the tables and
  decompresses clusters, is a parameter. The abstract disk is given by tables alone; the lemmas show that the reader is it.
\<close>

section \<open>The header\<close>

datatype read_failure = UnexpectedEof | OtherFailure

datatype Compression = Zlib | Zstd

datatype malformation =
    ShortHeader | HeaderUnreadable | BadMagic | ZeroDisk | L1TooSmall | L1TooLarge | L1Misaligned | L1PastEnd
  | Unreadable string | HeaderLength nat | CompressionDisagrees nat | ExtensionTooLong nat | ExtensionPastEnd | TooManyExtensions
  | L1EntryMissing nat | L2Misaligned nat | L2Unreadable nat | ClusterUnreadable nat | SpanPastEnd string nat
  | ParserDisagrees | L1Short nat | Unparsable

datatype Qcow2Error =
    Qcow2Io string | NotQcow2 | UnsupportedVersion nat | UnsupportedFeatures "64 word" | UnsupportedCompression nat
  | Encrypted nat | BackingFile | Snapshots nat | UnsupportedClusterSize nat | TooLarge nat nat | Malformed malformation

record header_facts =
  hf_version :: nat
  hf_virtual_size :: nat
  hf_cluster_size :: nat
  hf_l1_size :: nat
  hf_l1_table_offset :: nat
  hf_compression :: Compression

type_synonym file_reader = "nat \<Rightarrow> nat \<Rightarrow> (read_failure, bytes) outcome"

definition V2_HEADER_LENGTH :: nat where "V2_HEADER_LENGTH = 72"
definition V3_MIN_HEADER_LENGTH :: nat where "V3_MIN_HEADER_LENGTH = 104"
definition MAX_HEADER_LENGTH :: nat where "MAX_HEADER_LENGTH = 4096"
definition MIN_CLUSTER_BITS :: nat where "MIN_CLUSTER_BITS = 9"
definition MAX_CLUSTER_BITS :: nat where "MAX_CLUSTER_BITS = 21"
definition MAX_L1_ENTRIES :: nat where "MAX_L1_ENTRIES = 4 * 1024 * 1024"
definition MAX_HEADER_EXTENSIONS :: nat where "MAX_HEADER_EXTENSIONS = 32"
definition MAX_HEADER_EXTENSION_LENGTH :: nat where "MAX_HEADER_EXTENSION_LENGTH = 64 * 1024"
definition INCOMPATIBLE_COMPRESSION_TYPE :: "64 word" where "INCOMPATIBLE_COMPRESSION_TYPE = push_bit 3 1"
definition QCOW_MAGIC :: bytes where "QCOW_MAGIC = [0x51, 0x46, 0x49, 0xFB]"

text \<open>The value of big-endian bytes; every field lies inside the array it is read from.\<close>

definition be_value :: "bytes \<Rightarrow> nat" where
  "be_value bs = foldl (\<lambda>a b. a * 256 + unat b) 0 bs"

definition be_u32 :: "bytes \<Rightarrow> nat \<Rightarrow> nat" where "be_u32 bs at = be_value (take 4 (drop at bs))"
definition be_u64 :: "bytes \<Rightarrow> nat \<Rightarrow> nat" where "be_u64 bs at = be_value (take 8 (drop at bs))"

definition saturating_add :: "nat \<Rightarrow> nat \<Rightarrow> nat" where
  "saturating_add a b = min (a + b) (usize_bound - 1)"

definition check_l1_table :: "nat \<Rightarrow> nat \<Rightarrow> nat \<Rightarrow> nat \<Rightarrow> nat \<Rightarrow> (Qcow2Error, unit) outcome" where
  "check_l1_table l1_size l1_table_offset virtual_size cluster_size file_length =
     (let entries_per_l2 = cluster_size div 8;
          clusters = div_ceil virtual_size cluster_size;
          needed = div_ceil clusters entries_per_l2 in
      if l1_size < needed then Err (Malformed L1TooSmall)
      else if l1_size > MAX_L1_ENTRIES then Err (Malformed L1TooLarge)
      else if l1_table_offset = 0 \<or> \<not> cluster_size dvd l1_table_offset then Err (Malformed L1Misaligned)
      else if saturating_add l1_table_offset (l1_size * 8) > file_length then Err (Malformed L1PastEnd)
      else Ok ())"

definition read_at :: "file_reader \<Rightarrow> nat \<Rightarrow> nat \<Rightarrow> string \<Rightarrow> (Qcow2Error, bytes) outcome" where
  "read_at rd offset n what = (case rd offset n of Ok bs \<Rightarrow> Ok bs | Err _ \<Rightarrow> Err (Malformed (Unreadable what)) | Panic \<Rightarrow> Panic)"

definition compression_of :: "bool \<Rightarrow> nat \<Rightarrow> (Qcow2Error, Compression) outcome" where
  "compression_of declared compression_type =
     (if declared then (if compression_type = 1 then Ok Zstd else Err (UnsupportedCompression compression_type))
      else if compression_type = 0 then Ok Zlib else Err (Malformed (CompressionDisagrees compression_type)))"

definition check_version3 :: "file_reader \<Rightarrow> (Qcow2Error, Compression \<times> nat) outcome" where
  "check_version3 rd =
     obind (read_at rd V2_HEADER_LENGTH (V3_MIN_HEADER_LENGTH - V2_HEADER_LENGTH) ''the version 3 header'') (\<lambda>tail.
     let incompatible = of_nat (be_u64 tail 0) :: 64 word;
         unsupported = incompatible AND NOT INCOMPATIBLE_COMPRESSION_TYPE;
         header_length = be_u32 tail 28 in
     if unsupported \<noteq> 0 then Err (UnsupportedFeatures unsupported)
     else if header_length < V3_MIN_HEADER_LENGTH \<or> MAX_HEADER_LENGTH < header_length then Err (Malformed (HeaderLength header_length))
     else if \<not> 8 dvd header_length then Err (Malformed (HeaderLength header_length))
     else
       obind (if header_length > V3_MIN_HEADER_LENGTH
              then obind (read_at rd V3_MIN_HEADER_LENGTH 1 ''the compression type'') (\<lambda>byte. Ok (be_value byte)) else Ok 0)
         (\<lambda>compression_type.
       obind (compression_of (incompatible AND INCOMPATIBLE_COMPRESSION_TYPE \<noteq> 0) compression_type) (\<lambda>compression.
       Ok (compression, header_length))))"

fun extensions_loop :: "file_reader \<Rightarrow> nat \<Rightarrow> nat \<Rightarrow> nat \<Rightarrow> (Qcow2Error, unit) outcome" where
  "extensions_loop rd file_length 0 offset = Err (Malformed TooManyExtensions)"
| "extensions_loop rd file_length (Suc left) offset =
     obind (read_at rd offset 8 ''a header extension'') (\<lambda>rec.
     let kind = be_u32 rec 0; len = be_u32 rec 4; next = offset + (8 + div_ceil len 8 * 8) in
     if kind = 0 then Ok ()
     else if len > MAX_HEADER_EXTENSION_LENGTH then Err (Malformed (ExtensionTooLong len))
     else if usize_bound \<le> next \<or> file_length < next then Err (Malformed ExtensionPastEnd)
     else extensions_loop rd file_length left next)"

definition check_extensions :: "file_reader \<Rightarrow> nat \<Rightarrow> nat \<Rightarrow> (Qcow2Error, unit) outcome" where
  "check_extensions rd offset file_length = extensions_loop rd file_length MAX_HEADER_EXTENSIONS offset"

definition inspect :: "file_reader \<Rightarrow> nat \<Rightarrow> nat \<Rightarrow> (Qcow2Error, header_facts) outcome" where
  "inspect rd file_length capacity =
     (case rd 0 V2_HEADER_LENGTH of
        Err UnexpectedEof \<Rightarrow> Err (Malformed ShortHeader)
      | Err OtherFailure \<Rightarrow> Err (Malformed HeaderUnreadable)
      | Panic \<Rightarrow> Panic
      | Ok header \<Rightarrow>
          if take 4 header \<noteq> QCOW_MAGIC then Err (Malformed BadMagic)
          else let version = be_u32 header 4 in
          if version \<noteq> 2 \<and> version \<noteq> 3 then Err (UnsupportedVersion version)
          else if be_u64 header 8 \<noteq> 0 \<or> be_u32 header 16 \<noteq> 0 then Err BackingFile
          else let cluster_bits = be_u32 header 20 in
          if cluster_bits < MIN_CLUSTER_BITS \<or> MAX_CLUSTER_BITS < cluster_bits then Err (UnsupportedClusterSize cluster_bits)
          else let cluster_size = 2 ^ cluster_bits; virtual_size = be_u64 header 24 in
          if virtual_size = 0 then Err (Malformed ZeroDisk)
          else if virtual_size > capacity then Err (TooLarge virtual_size capacity)
          else if be_u32 header 32 \<noteq> 0 then Err (Encrypted (be_u32 header 32))
          else let l1_size = be_u32 header 36; l1_table_offset = be_u64 header 40 in
          obind (check_l1_table l1_size l1_table_offset virtual_size cluster_size file_length) (\<lambda>_.
          if be_u32 header 60 \<noteq> 0 then Err (Snapshots (be_u32 header 60))
          else
          obind (if version = 3 then check_version3 rd else Ok (Zlib, V2_HEADER_LENGTH)) (\<lambda>(compression, extensions_offset).
          obind (check_extensions rd extensions_offset file_length) (\<lambda>_.
          Ok \<lparr>hf_version = version, hf_virtual_size = virtual_size, hf_cluster_size = cluster_size, hf_l1_size = l1_size,
              hf_l1_table_offset = l1_table_offset, hf_compression = compression\<rparr>))))"

section \<open>The reader\<close>

text \<open>What the package makes of the tables.\<close>

datatype ClusterDescriptor = Standard bool nat | Compressed nat

record parsed_qcow =
  pq_version :: nat
  pq_size :: nat
  pq_cluster_size :: nat
  pq_l1_size :: nat
  pq_l1_table_offset :: nat
  pq_has_backing_file :: bool
  pq_snapshots :: nat
  pq_l1_table :: "nat list"

datatype dynamic_qcow = Qcow1 nat | Qcow2 parsed_qcow

text \<open>
  The file and the package on it: reads, whether it can be rewound, what \<open>load\<close> parses, \<open>read_l2\<close> at an offset for a
  cluster of so many bits, and \<open>read_contents\<close>, which says whether it succeeded and leaves the buffer it was given filled, or
  half filled.
\<close>

record image_file =
  fl_opens :: bool
  fl_length :: "nat option"
  fl_read :: file_reader
  fl_rewinds :: bool
  fl_load :: "dynamic_qcow option"
  fl_read_l2 :: "nat \<Rightarrow> nat \<Rightarrow> ClusterDescriptor list option"
  fl_read_contents :: "ClusterDescriptor \<Rightarrow> Compression \<Rightarrow> bytes \<Rightarrow> bool \<times> bytes"

record qcow_image =
  im_file_length :: nat
  im_l1_table :: "nat list"
  im_virtual_size :: nat
  im_cluster_size :: nat
  im_entries_per_l2 :: nat
  im_compression :: Compression
  im_position :: nat
  im_cluster :: bytes
  im_cluster_index :: "nat option"
  im_l2_table :: "ClusterDescriptor list"
  im_l1_index :: "nat option"

definition load_qcow :: "image_file \<Rightarrow> (Qcow2Error, parsed_qcow) outcome" where
  "load_qcow f =
     (if \<not> fl_rewinds f then Err (Qcow2Io ''rewind the image'')
      else case fl_load f of
          Some (Qcow2 q) \<Rightarrow> Ok q
        | Some (Qcow1 version) \<Rightarrow> Err (UnsupportedVersion version)
        | None \<Rightarrow> Err (Malformed Unparsable))"

definition check_agreement :: "parsed_qcow \<Rightarrow> header_facts \<Rightarrow> (Qcow2Error, unit) outcome" where
  "check_agreement q facts =
     (if (pq_version q, pq_size q, pq_cluster_size q, pq_l1_size q, pq_l1_table_offset q, pq_has_backing_file q, pq_snapshots q) \<noteq>
         (hf_version facts, hf_virtual_size facts, hf_cluster_size facts, hf_l1_size facts, hf_l1_table_offset facts, False, 0)
      then Err (Malformed ParserDisagrees)
      else if length (pq_l1_table q) \<noteq> hf_l1_size facts then Err (Malformed (L1Short (length (pq_l1_table q))))
      else Ok ())"

definition image_open :: "image_file \<Rightarrow> nat \<Rightarrow> (Qcow2Error, qcow_image) outcome" where
  "image_open f capacity =
     (if \<not> fl_opens f then Err (Qcow2Io ''open the image'')
      else obind (ok_or (fl_length f) (Qcow2Io ''measure the image'')) (\<lambda>file_length.
      obind (let result = inspect (fl_read f) file_length capacity in
             if result = Err (Malformed BadMagic) then Err NotQcow2 else result) (\<lambda>facts.
      obind (load_qcow f) (\<lambda>q.
      obind (check_agreement q facts) (\<lambda>_.
      Ok \<lparr>im_file_length = file_length, im_l1_table = pq_l1_table q, im_virtual_size = hf_virtual_size facts,
          im_cluster_size = hf_cluster_size facts, im_entries_per_l2 = hf_cluster_size facts div 8,
          im_compression = hf_compression facts, im_position = 0, im_cluster = replicate (hf_cluster_size facts) 0,
          im_cluster_index = None, im_l2_table = [], im_l1_index = None\<rparr>)))))"

definition check_span :: "qcow_image \<Rightarrow> nat \<Rightarrow> nat \<Rightarrow> string \<Rightarrow> (Qcow2Error, unit) outcome" where
  "check_span im offset len what =
     (if saturating_add offset len > im_file_length im then Err (Malformed (SpanPastEnd what offset)) else Ok ())"

fun trailing_zeros :: "nat \<Rightarrow> nat" where
  "trailing_zeros n = (if n = 0 then 64 else if odd n then 0 else Suc (trailing_zeros (n div 2)))"

declare trailing_zeros.simps [simp del]

definition load_l2_table :: "image_file \<Rightarrow> nat \<Rightarrow> nat \<Rightarrow> qcow_image \<Rightarrow> (Qcow2Error, unit) outcome \<times> qcow_image" where
  "load_l2_table f l1_index l2_offset im =
     (if im_l1_index im = Some l1_index then (Ok (), im)
      else case check_span im l2_offset (im_cluster_size im) ''an L2 table'' of
          Ok _ \<Rightarrow>
            if \<not> im_cluster_size im dvd l2_offset then (Err (Malformed (L2Misaligned l2_offset)), im)
            else (case fl_read_l2 f l2_offset (trailing_zeros (im_cluster_size im)) of
                None \<Rightarrow> (Err (Malformed (L2Unreadable l2_offset)), im)
              | Some table \<Rightarrow> (Ok (), im\<lparr>im_l2_table := table, im_l1_index := Some l1_index\<rparr>))
        | failed \<Rightarrow> (failed, im))"

text \<open>\<open>None\<close> where the cluster is a hole.\<close>

definition contents_span :: "qcow_image \<Rightarrow> ClusterDescriptor \<Rightarrow> (Qcow2Error, unit) outcome option" where
  "contents_span im entry =
     (case entry of
        Standard all_zeroes host_cluster_offset \<Rightarrow>
          if all_zeroes \<or> host_cluster_offset = 0 then None
          else Some (check_span im host_cluster_offset (im_cluster_size im) ''a cluster'')
      | Compressed host_cluster_offset \<Rightarrow> Some (check_span im host_cluster_offset 1 ''a compressed cluster''))"

definition read_cluster_contents ::
    "image_file \<Rightarrow> nat \<Rightarrow> ClusterDescriptor \<Rightarrow> qcow_image \<Rightarrow> (Qcow2Error, unit) outcome \<times> qcow_image" where
  "read_cluster_contents f index entry im =
     (case contents_span im entry of
        None \<Rightarrow> (Ok (), im)
      | Some (Ok _) \<Rightarrow>
          (case fl_read_contents f entry (im_compression im) (im_cluster im) of
             (True, buffer) \<Rightarrow> (Ok (), im\<lparr>im_cluster := buffer\<rparr>)
           | (False, buffer) \<Rightarrow> (Err (Malformed (ClusterUnreadable index)), im\<lparr>im_cluster := buffer\<rparr>))
      | Some failed \<Rightarrow> (failed, im))"

definition load_cluster :: "image_file \<Rightarrow> nat \<Rightarrow> qcow_image \<Rightarrow> (Qcow2Error, unit) outcome \<times> qcow_image" where
  "load_cluster f index im =
     (if im_cluster_index im = Some index then (Ok (), im)
      else
        let l1_index = index div im_entries_per_l2 im; l2_index = index mod im_entries_per_l2 im in
        if length (im_l1_table im) \<le> l1_index then (Err (Malformed (L1EntryMissing index)), im)
        else
          let l2_offset = im_l1_table im ! l1_index;
              im1 = im\<lparr>im_cluster_index := None, im_cluster := replicate (length (im_cluster im)) 0\<rparr> in
          if l2_offset = 0 then (Ok (), im1\<lparr>im_cluster_index := Some index\<rparr>)
          else (case load_l2_table f l1_index l2_offset im1 of
              (Ok _, im2) \<Rightarrow>
                if length (im_l2_table im2) \<le> l2_index then (Panic, im2)
                else (case read_cluster_contents f index (im_l2_table im2 ! l2_index) im2 of
                    (Ok _, im3) \<Rightarrow> (Ok (), im3\<lparr>im_cluster_index := Some index\<rparr>)
                  | failed \<Rightarrow> failed)
            | failed \<Rightarrow> failed))"

text \<open>\<open>read\<close> into a buffer of \<open>n\<close> bytes; the bytes are what it is filled with.\<close>

definition image_read :: "image_file \<Rightarrow> nat \<Rightarrow> qcow_image \<Rightarrow> (Qcow2Error, bytes) outcome \<times> qcow_image" where
  "image_read f n im =
     (if im_virtual_size im \<le> im_position im \<or> n = 0 then (Ok [], im)
      else
        let index = im_position im div im_cluster_size im;
            offset_in_cluster = im_position im mod im_cluster_size im;
            wanted = min (min n (length (im_cluster im) - offset_in_cluster)) (im_virtual_size im - im_position im) in
        (case load_cluster f index im of
           (Ok _, im1) \<Rightarrow>
             (case slice (im_cluster im1) offset_in_cluster (offset_in_cluster + wanted) of
                Ok bs \<Rightarrow> (Ok bs, im1\<lparr>im_position := im_position im1 + wanted\<rparr>)
              | Err e \<Rightarrow> (Err e, im1)
              | Panic \<Rightarrow> (Panic, im1))
         | (Err e, im1) \<Rightarrow> (Err e, im1)
         | (Panic, im1) \<Rightarrow> (Panic, im1)))"

datatype seek_from = SeekStart nat | SeekCurrent int | SeekEnd int

definition checked_add_signed :: "nat \<Rightarrow> int \<Rightarrow> nat option" where
  "checked_add_signed base offset =
     (if 0 \<le> int base + offset \<and> int base + offset < int usize_bound then Some (nat (int base + offset)) else None)"

fun image_seek :: "seek_from \<Rightarrow> qcow_image \<Rightarrow> (unit, nat) outcome \<times> qcow_image" where
  "image_seek (SeekStart position) im = (Ok position, im\<lparr>im_position := position\<rparr>)"
| "image_seek (SeekCurrent offset) im =
     (case checked_add_signed (im_position im) offset of
        Some p \<Rightarrow> (Ok p, im\<lparr>im_position := p\<rparr>) | None \<Rightarrow> (Err (), im))"
| "image_seek (SeekEnd offset) im =
     (case checked_add_signed (im_virtual_size im) offset of
        Some p \<Rightarrow> (Ok p, im\<lparr>im_position := p\<rparr>) | None \<Rightarrow> (Err (), im))"

section \<open>What an accepted header says\<close>

text \<open>What the package and the system document: reads never panic, a table fills a cluster, a decoded cluster fills its buffer.\<close>

definition file_documented :: "image_file \<Rightarrow> bool" where
  "file_documented f \<longleftrightarrow>
     (\<forall>offset n. fl_read f offset n \<noteq> Panic) \<and>
     (\<forall>offset bits table. fl_read_l2 f offset bits = Some table \<longrightarrow> length table = 2 ^ bits div 8) \<and>
     (\<forall>entry c buffer. length (snd (fl_read_contents f entry c buffer)) = length buffer)"

definition good_clusters :: "nat \<Rightarrow> bool" where
  "good_clusters cluster_size \<longleftrightarrow> (\<exists>bits. 9 \<le> bits \<and> bits \<le> 21 \<and> cluster_size = 2 ^ bits)"

lemma good_clusters_facts:
  assumes "good_clusters c"
  shows "0 < c" "0 < c div 8" "8 dvd c" "2 ^ trailing_zeros c = c"
proof -
  obtain bits where b: "9 \<le> bits" "c = 2 ^ bits" using assms by (auto simp: good_clusters_def)
  have "trailing_zeros (2 ^ n) = n" for n by (induction n) (simp_all add: trailing_zeros.simps)
  then show "2 ^ trailing_zeros c = c" by (simp add: b)
  obtain k where "bits = 3 + k" using b(1) le_Suc_ex [of 3 bits] by auto
  then have "c = 8 * 2 ^ k" using b(2) by (simp add: power_add)
  then show "0 < c" "0 < c div 8" "8 dvd c" by simp_all
qed

lemma check_l1_table_Ok:
  "check_l1_table l1_size offset vs cs len = Ok () \<Longrightarrow> div_ceil (div_ceil vs cs) (cs div 8) \<le> l1_size"
  by (auto simp: check_l1_table_def Let_def split: if_splits)

lemma inspect_Ok:
  assumes "inspect rd file_length capacity = Ok facts"
  shows "good_clusters (hf_cluster_size facts)" "0 < hf_virtual_size facts" "hf_virtual_size facts \<le> capacity"
    "div_ceil (div_ceil (hf_virtual_size facts) (hf_cluster_size facts)) (hf_cluster_size facts div 8) \<le> hf_l1_size facts"
proof -
  have "good_clusters (hf_cluster_size facts) \<and> 0 < hf_virtual_size facts \<and> hf_virtual_size facts \<le> capacity \<and>
    div_ceil (div_ceil (hf_virtual_size facts) (hf_cluster_size facts)) (hf_cluster_size facts div 8) \<le> hf_l1_size facts"
    using assms
    by (auto simp: inspect_def Let_def good_clusters_def MIN_CLUSTER_BITS_def MAX_CLUSTER_BITS_def not_less
        split: outcome.splits read_failure.splits if_splits dest!: check_l1_table_Ok)
  then show "good_clusters (hf_cluster_size facts)" "0 < hf_virtual_size facts" "hf_virtual_size facts \<le> capacity"
    "div_ceil (div_ceil (hf_virtual_size facts) (hf_cluster_size facts)) (hf_cluster_size facts div 8) \<le> hf_l1_size facts"
    by simp_all
qed

lemma extensions_loop_total: "(\<And>offset n. rd offset n \<noteq> Panic) \<Longrightarrow> extensions_loop rd file_length left offset \<noteq> Panic"
  by (induction left arbitrary: offset) (auto simp: obind_eq_Panic_iff read_at_def Let_def split: outcome.splits)

lemma inspect_total:
  assumes "\<And>offset n. rd offset n \<noteq> Panic"
  shows "inspect rd file_length capacity \<noteq> Panic"
  using assms extensions_loop_total [OF assms]
  by (auto simp: inspect_def Let_def obind_eq_Panic_iff check_extensions_def check_version3_def check_l1_table_def read_at_def
      compression_of_def split: outcome.splits read_failure.splits if_splits)

section \<open>The disk the tables describe\<close>

definition l2_of :: "image_file \<Rightarrow> qcow_image \<Rightarrow> nat \<Rightarrow> (Qcow2Error, ClusterDescriptor list) outcome" where
  "l2_of f im l2_offset =
     obind (check_span im l2_offset (im_cluster_size im) ''an L2 table'') (\<lambda>_.
     if \<not> im_cluster_size im dvd l2_offset then Err (Malformed (L2Misaligned l2_offset))
     else ok_or (fl_read_l2 f l2_offset (trailing_zeros (im_cluster_size im))) (Malformed (L2Unreadable l2_offset)))"

definition contents_of :: "image_file \<Rightarrow> qcow_image \<Rightarrow> nat \<Rightarrow> ClusterDescriptor \<Rightarrow> (Qcow2Error, bytes) outcome" where
  "contents_of f im index entry =
     (let zeros = replicate (im_cluster_size im) 0 in
      case contents_span im entry of
        None \<Rightarrow> Ok zeros
      | Some r \<Rightarrow> obind r (\<lambda>_.
          case fl_read_contents f entry (im_compression im) zeros of
            (True, buffer) \<Rightarrow> Ok buffer
          | (False, _) \<Rightarrow> Err (Malformed (ClusterUnreadable index))))"

definition disk_cluster :: "image_file \<Rightarrow> qcow_image \<Rightarrow> nat \<Rightarrow> (Qcow2Error, bytes) outcome" where
  "disk_cluster f im index =
     (let l1_index = index div im_entries_per_l2 im in
      if length (im_l1_table im) \<le> l1_index then Err (Malformed (L1EntryMissing index))
      else if im_l1_table im ! l1_index = 0 then Ok (replicate (im_cluster_size im) 0)
      else obind (l2_of f im (im_l1_table im ! l1_index)) (\<lambda>table.
           obind (index_at table (index mod im_entries_per_l2 im)) (contents_of f im index)))"

definition disk_read :: "image_file \<Rightarrow> qcow_image \<Rightarrow> nat \<Rightarrow> nat \<Rightarrow> (Qcow2Error, bytes) outcome \<times> nat" where
  "disk_read f im n p =
     (if im_virtual_size im \<le> p \<or> n = 0 then (Ok [], p)
      else case disk_cluster f im (p div im_cluster_size im) of
          Ok c \<Rightarrow> (let bs = take (min n (im_virtual_size im - p)) (drop (p mod im_cluster_size im) c) in (Ok bs, p + length bs))
        | Err e \<Rightarrow> (Err e, p)
        | Panic \<Rightarrow> (Panic, p))"

text \<open>What no call changes.\<close>

definition im_fixed :: "qcow_image \<Rightarrow> qcow_image" where
  "im_fixed im = im\<lparr>im_position := 0, im_cluster := [], im_cluster_index := None, im_l2_table := [], im_l1_index := None\<rparr>"

lemma fixed_fields:
  assumes "im_fixed im' = im_fixed im"
  shows "im_file_length im' = im_file_length im" "im_l1_table im' = im_l1_table im" "im_virtual_size im' = im_virtual_size im"
    "im_cluster_size im' = im_cluster_size im" "im_entries_per_l2 im' = im_entries_per_l2 im" "im_compression im' = im_compression im"
proof -
  have fields: "im_file_length (im_fixed i) = im_file_length i" "im_l1_table (im_fixed i) = im_l1_table i"
    "im_virtual_size (im_fixed i) = im_virtual_size i" "im_cluster_size (im_fixed i) = im_cluster_size i"
    "im_entries_per_l2 (im_fixed i) = im_entries_per_l2 i" "im_compression (im_fixed i) = im_compression i" for i
    by (simp_all add: im_fixed_def)
  show "im_file_length im' = im_file_length im" "im_l1_table im' = im_l1_table im" "im_virtual_size im' = im_virtual_size im"
    "im_cluster_size im' = im_cluster_size im" "im_entries_per_l2 im' = im_entries_per_l2 im" "im_compression im' = im_compression im"
    using fields [of im] fields [of im'] assms by simp_all
qed

lemma disk_fixed:
  assumes "im_fixed im' = im_fixed im"
  shows "l2_of f im' = l2_of f im" "contents_span im' = contents_span im" "contents_of f im' = contents_of f im"
    "disk_cluster f im' = disk_cluster f im" "disk_read f im' = disk_read f im"
proof -
  note same = fixed_fields [OF assms]
  show l2: "l2_of f im' = l2_of f im" by (rule ext) (simp add: l2_of_def check_span_def same)
  show span: "contents_span im' = contents_span im"
    by (rule ext) (simp add: contents_span_def check_span_def same split: ClusterDescriptor.split)
  show contents: "contents_of f im' = contents_of f im" by (intro ext) (simp only: contents_of_def span same)
  show cluster: "disk_cluster f im' = disk_cluster f im" by (rule ext) (simp only: disk_cluster_def same l2 contents)
  show "disk_read f im' = disk_read f im" by (intro ext) (simp only: disk_read_def cluster same)
qed

section \<open>The reader is the disk\<close>

definition coherent :: "image_file \<Rightarrow> qcow_image \<Rightarrow> bool" where
  "coherent f im \<longleftrightarrow>
     good_clusters (im_cluster_size im) \<and> im_entries_per_l2 im = im_cluster_size im div 8 \<and> length (im_cluster im) = im_cluster_size im \<and>
     div_ceil (div_ceil (im_virtual_size im) (im_cluster_size im)) (im_cluster_size im div 8) \<le> length (im_l1_table im) \<and>
     (\<forall>i. im_cluster_index im = Some i \<longrightarrow> disk_cluster f im i = Ok (im_cluster im)) \<and>
     (\<forall>k. im_l1_index im = Some k \<longrightarrow> k < length (im_l1_table im) \<and> l2_of f im (im_l1_table im ! k) = Ok (im_l2_table im))"

lemma image_open_coherent:
  assumes "image_open f capacity = Ok im"
  shows "coherent f im" "im_position im = 0" "im_virtual_size im \<le> capacity" "0 < im_virtual_size im"
proof -
  obtain file_length facts q where inspected: "inspect (fl_read f) file_length capacity = Ok facts"
    and agrees: "check_agreement q facts = Ok ()"
    and im: "im = \<lparr>im_file_length = file_length, im_l1_table = pq_l1_table q, im_virtual_size = hf_virtual_size facts,
          im_cluster_size = hf_cluster_size facts, im_entries_per_l2 = hf_cluster_size facts div 8,
          im_compression = hf_compression facts, im_position = 0, im_cluster = replicate (hf_cluster_size facts) 0,
          im_cluster_index = None, im_l2_table = [], im_l1_index = None\<rparr>"
    using assms by (auto simp: image_open_def Let_def split: if_splits)
  have "length (pq_l1_table q) = hf_l1_size facts" using agrees by (simp add: check_agreement_def split: if_splits)
  then show "coherent f im" "im_position im = 0" "im_virtual_size im \<le> capacity" "0 < im_virtual_size im"
    using inspect_Ok [OF inspected] by (simp_all add: im coherent_def)
qed

lemma load_l2_table_spec:
  assumes "coherent f im" "im_l1_index im = None \<or> im_cluster_index im = None"
    and "load_l2_table f k (im_l1_table im ! k) im = (r, im')" "k < length (im_l1_table im)"
  shows "im_fixed im' = im_fixed im" "im_position im' = im_position im" "im_cluster im' = im_cluster im"
    "im_cluster_index im' = im_cluster_index im"
    "coherent f im'" "l2_of f im (im_l1_table im ! k) = obind r (\<lambda>_. Ok (im_l2_table im'))"
proof -
  have "im_fixed im' = im_fixed im \<and> im_position im' = im_position im \<and> im_cluster im' = im_cluster im \<and>
    im_cluster_index im' = im_cluster_index im \<and> l2_of f im (im_l1_table im ! k) = obind r (\<lambda>_. Ok (im_l2_table im')) \<and>
    (im_l1_index im' = Some k \<and> r = Ok () \<or> im_l1_index im' = im_l1_index im \<and> im_l2_table im' = im_l2_table im)"
  proof (cases "im_l1_index im = Some k")
    case True
    then show ?thesis using assms(1,3) by (auto simp: load_l2_table_def coherent_def)
  next
    case False
    then show ?thesis using assms(3)
      by (auto simp: load_l2_table_def l2_of_def check_span_def im_fixed_def split: if_splits option.splits)
  qed
  then have fixed: "im_fixed im' = im_fixed im" and rest: "im_position im' = im_position im" "im_cluster im' = im_cluster im"
    "im_cluster_index im' = im_cluster_index im" and l2: "l2_of f im (im_l1_table im ! k) = obind r (\<lambda>_. Ok (im_l2_table im'))"
    and cache: "im_l1_index im' = Some k \<and> r = Ok () \<or> im_l1_index im' = im_l1_index im \<and> im_l2_table im' = im_l2_table im"
    by simp_all
  have "coherent f im'"
    using assms(1,4) cache l2 unfolding coherent_def fixed_fields [OF fixed] disk_fixed [OF fixed] rest
    by auto
  with fixed rest l2 show "im_fixed im' = im_fixed im" "im_position im' = im_position im" "im_cluster im' = im_cluster im"
    "im_cluster_index im' = im_cluster_index im" "coherent f im'"
    "l2_of f im (im_l1_table im ! k) = obind r (\<lambda>_. Ok (im_l2_table im'))"
    by simp_all
qed

lemma read_cluster_contents_spec:
  assumes "read_cluster_contents f index entry im = (r, im')" "im_cluster im = replicate (im_cluster_size im) 0"
  shows "im_fixed im' = im_fixed im" "im_position im' = im_position im" "im_cluster_index im' = im_cluster_index im"
    "im_l1_index im' = im_l1_index im" "im_l2_table im' = im_l2_table im"
    "contents_of f im index entry = obind r (\<lambda>_. Ok (im_cluster im'))"
  using assms
  by (auto simp: read_cluster_contents_def contents_of_def im_fixed_def Let_def split: option.splits outcome.splits prod.splits bool.splits)

lemma read_cluster_contents_length:
  assumes "file_documented f" "read_cluster_contents f index entry im = (r, im')"
  shows "length (im_cluster im') = length (im_cluster im)"
  using assms by (auto simp: read_cluster_contents_def file_documented_def split: option.splits outcome.splits prod.splits bool.splits)
    (metis snd_conv)+

text \<open>A load leaves the caches true, whether it succeeds or not, and its result is the disk's.\<close>

lemma load_cluster_spec:
  assumes doc: "file_documented f" and co: "coherent f im" and load: "load_cluster f index im = (r, im')"
  shows "im_fixed im' = im_fixed im \<and> im_position im' = im_position im \<and> coherent f im' \<and>
    disk_cluster f im index = obind r (\<lambda>_. Ok (im_cluster im'))"
proof (cases "im_cluster_index im = Some index")
  case True
  then show ?thesis using co load by (auto simp: load_cluster_def coherent_def)
next
  case False
  define k where "k = index div im_entries_per_l2 im"
  define im1 where "im1 = im\<lparr>im_cluster_index := None, im_cluster := replicate (length (im_cluster im)) 0\<rparr>"
  have fixed1: "im_fixed im1 = im_fixed im" "im_position im1 = im_position im" by (simp_all add: im1_def im_fixed_def)
  have zeros: "im_cluster im1 = replicate (im_cluster_size im) 0" using co by (simp add: im1_def coherent_def)
  have co1: "coherent f im1"
    using co unfolding coherent_def fixed_fields [OF fixed1(1)] disk_fixed [OF fixed1(1)] by (auto simp: im1_def)
  show ?thesis
  proof (cases "length (im_l1_table im) \<le> k")
    case True
    then show ?thesis using False load co by (auto simp: load_cluster_def disk_cluster_def k_def Let_def)
  next
    case inside: False
    show ?thesis
    proof (cases "im_l1_table im ! k = 0")
      case True
      then have cluster: "disk_cluster f im index = Ok (replicate (im_cluster_size im) 0)"
        using inside by (simp add: disk_cluster_def k_def [symmetric])
      have im': "im' = im1\<lparr>im_cluster_index := Some index\<rparr>" "r = Ok ()"
        using True False inside load by (simp_all add: load_cluster_def k_def [symmetric] im1_def Let_def)
      have fixed: "im_fixed im' = im_fixed im" using fixed1 by (simp add: im' im_fixed_def)
      have "coherent f im'"
        using co1 cluster zeros unfolding coherent_def fixed_fields [OF fixed] disk_fixed [OF fixed] fixed_fields [OF fixed1(1)]
          disk_fixed [OF fixed1(1)] by (auto simp: im')
      then show ?thesis using fixed fixed1 cluster zeros by (simp add: im')
    next
      case False': False
      obtain r2 im2 where l2: "load_l2_table f k (im_l1_table im ! k) im1 = (r2, im2)" by (rule prod.exhaust)
      have l1: "im_l1_table im1 = im_l1_table im" "im_entries_per_l2 im1 = im_entries_per_l2 im" by (simp_all add: im1_def)
      note s2 = load_l2_table_spec [OF co1 _ l2 [folded l1]]
      have s2: "im_fixed im2 = im_fixed im1" "im_position im2 = im_position im1" "im_cluster im2 = im_cluster im1"
        "im_cluster_index im2 = None" "coherent f im2" "l2_of f im (im_l1_table im ! k) = obind r2 (\<lambda>_. Ok (im_l2_table im2))"
        using s2 inside by (simp_all add: im1_def not_le disk_fixed [OF fixed1(1), unfolded im1_def])
      have fixed2: "im_fixed im2 = im_fixed im" using s2 fixed1 by simp
      have disk: "disk_cluster f im index = obind r2 (\<lambda>_.
          obind (index_at (im_l2_table im2) (index mod im_entries_per_l2 im)) (contents_of f im index))"
        using inside False' s2(6) by (cases r2) (simp_all add: disk_cluster_def k_def [symmetric])
      show ?thesis
      proof (cases "r2 = Ok () \<and> index mod im_entries_per_l2 im < length (im_l2_table im2)")
        case True
        define entry where "entry = im_l2_table im2 ! (index mod im_entries_per_l2 im)"
        obtain r3 im3 where contents: "read_cluster_contents f index entry im2 = (r3, im3)" by (rule prod.exhaust)
        have "im_cluster im2 = replicate (im_cluster_size im2) 0" using s2(3) zeros fixed_fields [OF fixed2] by simp
        note s3 = read_cluster_contents_spec [OF contents this] read_cluster_contents_length [OF doc contents]
        have fixed3: "im_fixed im3 = im_fixed im" using s3(1) fixed2 by simp
        have co3: "coherent f im3"
          using s2(5) s3(3,4,5,7) s2(4) unfolding coherent_def fixed_fields [OF fixed3] disk_fixed [OF fixed3]
            fixed_fields [OF fixed2] disk_fixed [OF fixed2] by auto
        have cluster: "disk_cluster f im index = obind r3 (\<lambda>_. Ok (im_cluster im3))"
          using disk True s3(6) by (simp add: index_at_def entry_def disk_fixed [OF fixed2])
        have result: "(r, im') = (case r3 of Ok _ \<Rightarrow> (Ok (), im3\<lparr>im_cluster_index := Some index\<rparr>) | _ \<Rightarrow> (r3, im3))"
          using load False inside False' l2 True contents
          by (auto simp: load_cluster_def k_def [symmetric] im1_def [symmetric] Let_def entry_def not_le split: outcome.splits)
        show ?thesis
        proof (cases r3)
          case (Ok u)
          then have im': "r = outcome.Ok ()" "im' = im3\<lparr>im_cluster_index := Some index\<rparr>" using result by simp_all
          have fixed: "im_fixed im' = im_fixed im" using fixed3 by (simp add: im' im_fixed_def)
          have "coherent f im'"
            using co3 cluster Ok unfolding coherent_def fixed_fields [OF fixed] disk_fixed [OF fixed] fixed_fields [OF fixed3]
              disk_fixed [OF fixed3] by (auto simp: im')
          then show ?thesis using fixed cluster Ok s3(2) s2(2) fixed1 by (simp add: im')
        qed (use result co3 fixed3 cluster s3(2) s2(2) fixed1 in simp_all)
      next
        case stop: False
        then have "(r, im') = (case r2 of Ok _ \<Rightarrow> (Panic, im2) | _ \<Rightarrow> (r2, im2))"
          using load False inside False' l2
          by (auto simp: load_cluster_def k_def [symmetric] im1_def [symmetric] Let_def not_less split: outcome.splits)
        then show ?thesis using disk stop s2 fixed1 by (cases r2) (simp_all add: index_at_def)
      qed
    qed
  qed
qed

lemma image_read_spec:
  assumes doc: "file_documented f" and co: "coherent f im" and read: "image_read f n im = (r, im')"
  shows "im_fixed im' = im_fixed im \<and> coherent f im' \<and> disk_read f im n (im_position im) = (r, im_position im')"
proof (cases "im_virtual_size im \<le> im_position im \<or> n = 0")
  case True
  then show ?thesis using read co by (auto simp: image_read_def disk_read_def)
next
  case False
  define index where "index = im_position im div im_cluster_size im"
  define off where "off = im_position im mod im_cluster_size im"
  obtain r1 im1 where load: "load_cluster f index im = (r1, im1)" by (rule prod.exhaust)
  note spec = load_cluster_spec [OF doc co load]
  then have fixed1: "im_fixed im1 = im_fixed im" by simp
  have off: "off < im_cluster_size im" using co good_clusters_facts(1) by (simp add: off_def coherent_def)
  have len: "length (im_cluster im1) = im_cluster_size im" "length (im_cluster im) = im_cluster_size im"
    using spec co fixed_fields(4) [OF fixed1] by (simp_all add: coherent_def)
  define wanted where "wanted = min (min n (im_cluster_size im - off)) (im_virtual_size im - im_position im)"
  have took: "take (min n (im_virtual_size im - im_position im)) (drop off (im_cluster im1)) = take wanted (drop off (im_cluster im1))"
    "length (take wanted (drop off (im_cluster im1))) = wanted" "off + wanted \<le> im_cluster_size im"
    using off len by (auto simp: wanted_def min_def)
  have step: "image_read f n im = (case (r1, im1) of
      (Ok _, im1) \<Rightarrow> (Ok (take wanted (drop off (im_cluster im1))), im1\<lparr>im_position := im_position im1 + wanted\<rparr>)
    | (Err e, im1) \<Rightarrow> (Err e, im1) | (Panic, im1) \<Rightarrow> (Panic, im1))"
    using False load len took(3)
    by (auto simp: image_read_def index_def [symmetric] off_def [symmetric] wanted_def [symmetric] Let_def slice_def split: outcome.split)
  show ?thesis
  proof (cases r1)
    case (Ok u)
    have moved: "im_fixed (im1\<lparr>im_position := p\<rparr>) = im_fixed im" for p using fixed1 by (simp add: im_fixed_def)
    have "coherent f (im1\<lparr>im_position := p\<rparr>)" for p
      using spec unfolding coherent_def fixed_fields [OF moved] disk_fixed [OF moved] fixed_fields [OF fixed1] disk_fixed [OF fixed1] by simp
    then show ?thesis
      using step read Ok spec moved False took(1,2) by (auto simp: disk_read_def index_def [symmetric] off_def [symmetric] Let_def)
  next
    case (Err e)
    then show ?thesis using step read spec False by (auto simp: disk_read_def index_def [symmetric])
  next
    case Panic
    then show ?thesis using step read spec False by (auto simp: disk_read_def index_def [symmetric])
  qed
qed

text \<open>A run of reads and seeks, on the reader and on the abstract disk with a position.\<close>

datatype image_call = ReadCall nat | SeekCall seek_from

datatype image_answer = ReadAnswer "(Qcow2Error, bytes) outcome" | SeekAnswer "(unit, nat) outcome"

fun image_perform :: "image_file \<Rightarrow> image_call \<Rightarrow> qcow_image \<Rightarrow> image_answer \<times> qcow_image" where
  "image_perform f (ReadCall n) im = (case image_read f n im of (r, im') \<Rightarrow> (ReadAnswer r, im'))"
| "image_perform f (SeekCall to) im = (case image_seek to im of (r, im') \<Rightarrow> (SeekAnswer r, im'))"

fun disk_seek :: "nat \<Rightarrow> seek_from \<Rightarrow> nat \<Rightarrow> (unit, nat) outcome" where
  "disk_seek extent (SeekStart p) position = Ok p"
| "disk_seek extent (SeekCurrent offset) position = ok_or (checked_add_signed position offset) ()"
| "disk_seek extent (SeekEnd offset) position = ok_or (checked_add_signed extent offset) ()"

fun disk_perform :: "image_file \<Rightarrow> qcow_image \<Rightarrow> image_call \<Rightarrow> nat \<Rightarrow> image_answer \<times> nat" where
  "disk_perform f im (ReadCall n) p = (case disk_read f im n p of (r, p') \<Rightarrow> (ReadAnswer r, p'))"
| "disk_perform f im (SeekCall to) p =
     (let r = disk_seek (im_virtual_size im) to p in (SeekAnswer r, case r of Ok q \<Rightarrow> q | _ \<Rightarrow> p))"

fun answers_of :: "('c \<Rightarrow> 's \<Rightarrow> 'a \<times> 's) \<Rightarrow> 'c list \<Rightarrow> 's \<Rightarrow> 'a list" where
  "answers_of step [] s = []"
| "answers_of step (c # cs) s = (case step c s of (a, s') \<Rightarrow> a # answers_of step cs s')"

lemma image_perform_spec:
  assumes "file_documented f" "coherent f im" "image_perform f c im = (a, im')"
  shows "im_fixed im' = im_fixed im \<and> coherent f im' \<and> disk_perform f im c (im_position im) = (a, im_position im')"
proof (cases c)
  case (ReadCall n)
  then show ?thesis using image_read_spec [OF assms(1,2), of n] assms(3) by (auto split: prod.splits)
next
  case (SeekCall to)
  have moved: "im_fixed (im\<lparr>im_position := p\<rparr>) = im_fixed im" for p by (simp add: im_fixed_def)
  have "coherent f (im\<lparr>im_position := p\<rparr>)" for p
    using assms(2) unfolding coherent_def fixed_fields [OF moved] disk_fixed [OF moved] by simp
  then show ?thesis using SeekCall assms(2,3) moved by (cases to) (auto split: option.splits)
qed

lemma image_refines:
  assumes "file_documented f" "coherent f im"
  shows "answers_of (image_perform f) calls im = answers_of (disk_perform f im) calls (im_position im)"
  using assms(2)
proof (induction calls arbitrary: im)
  case (Cons c calls)
  obtain a im' where step: "image_perform f c im = (a, im')" by (rule prod.exhaust)
  note spec = image_perform_spec [OF assms(1) Cons.prems step]
  have "disk_perform f im' = disk_perform f im"
  proof (intro ext)
    fix c p
    show "disk_perform f im' c p = disk_perform f im c p"
      using spec disk_fixed(5) [of im' im f] fixed_fields(3) [of im' im] by (cases c) simp_all
  qed
  then show ?case using step spec Cons.IH [of im'] by simp
qed simp

section \<open>The whole disk\<close>

definition clusters :: "qcow_image \<Rightarrow> nat" where
  "clusters im = div_ceil (im_virtual_size im) (im_cluster_size im)"

lemma l1_covers:
  assumes "coherent f im" "index < clusters im"
  shows "index div im_entries_per_l2 im < length (im_l1_table im)"
proof -
  have pos: "0 < im_entries_per_l2 im" using assms(1) good_clusters_facts(2) by (simp add: coherent_def)
  have "index div im_entries_per_l2 im * im_entries_per_l2 im \<le> index" by simp
  then have "index div im_entries_per_l2 im * im_entries_per_l2 im < clusters im" using assms(2) by (rule le_less_trans)
  then have "index div im_entries_per_l2 im < div_ceil (clusters im) (im_entries_per_l2 im)" by (simp add: less_div_ceil_iff [OF pos])
  then show ?thesis using assms(1) by (simp add: coherent_def clusters_def)
qed

lemma ok_or_eq_Err_iff [simp]: "ok_or m e = Err e' \<longleftrightarrow> m = None \<and> e' = e"
  by (cases m) auto

lemma disk_cluster_in_range:
  assumes "file_documented f" "coherent f im" "index < clusters im"
  shows "disk_cluster f im index \<noteq> Panic" "disk_cluster f im index \<noteq> Err (Malformed (L1EntryMissing index'))"
    "disk_cluster f im index = Ok c \<Longrightarrow> length c = im_cluster_size im"
proof -
  note l1 = l1_covers [OF assms(2,3)]
  have good: "good_clusters (im_cluster_size im)" "im_entries_per_l2 im = im_cluster_size im div 8" using assms(2) by (simp_all add: coherent_def)
  note g = good_clusters_facts [OF good(1)]
  have table: "index mod im_entries_per_l2 im < length table" if "fl_read_l2 f l2 (trailing_zeros (im_cluster_size im)) = Some table" for l2 table
  proof -
    have "length table = im_entries_per_l2 im" using that assms(1) g good(2) by (simp add: file_documented_def)
    then show ?thesis using g good(2) by simp
  qed
  have contents: "contents_of f im index entry \<noteq> Panic \<and> contents_of f im index entry \<noteq> Err (Malformed (L1EntryMissing index')) \<and>
      (contents_of f im index entry = Ok c \<longrightarrow> length c = im_cluster_size im)" for entry
  proof -
    have "length buffer = im_cluster_size im"
      if "fl_read_contents f entry (im_compression im) (replicate (im_cluster_size im) 0) = (b, buffer)" for b buffer
      using assms(1) that unfolding file_documented_def by (metis length_replicate snd_conv)
    then show ?thesis
      by (auto simp: contents_of_def contents_span_def check_span_def split: ClusterDescriptor.splits prod.splits bool.splits if_splits)
  qed
  show "disk_cluster f im index \<noteq> Panic" "disk_cluster f im index \<noteq> Err (Malformed (L1EntryMissing index'))"
    "disk_cluster f im index = Ok c \<Longrightarrow> length c = im_cluster_size im"
    using l1 table contents
    by (auto simp: disk_cluster_def l2_of_def check_span_def index_at_def obind_eq_Panic_iff obind_eq_Err_iff Let_def not_le
        split: if_splits option.splits dest!: ok_or_eq_Ok_iff [THEN iffD1])
qed

definition readable :: "image_file \<Rightarrow> qcow_image \<Rightarrow> bool" where
  "readable f im \<longleftrightarrow> (\<forall>index < clusters im. \<exists>c. disk_cluster f im index = Ok c)"

definition cluster_bytes :: "image_file \<Rightarrow> qcow_image \<Rightarrow> nat \<Rightarrow> bytes" where
  "cluster_bytes f im index = (case disk_cluster f im index of Ok c \<Rightarrow> c | _ \<Rightarrow> [])"

definition guest_disk :: "image_file \<Rightarrow> qcow_image \<Rightarrow> bytes" where
  "guest_disk f im = take (im_virtual_size im) (concat (map (cluster_bytes f im) [0 ..< clusters im]))"

lemma drop_concat_uniform:
  "(\<And>i. i < k \<Longrightarrow> length (g i) = n) \<Longrightarrow> i \<le> k \<Longrightarrow> drop (i * n) (concat (map g [0 ..< k])) = concat (map g [i ..< k])"
proof (induction i)
  case (Suc i)
  then have "concat (map g [i ..< k]) = g i @ concat (map g [Suc i ..< k])" by (simp add: upt_conv_Cons)
  moreover have "drop (Suc i * n) (concat (map g [0 ..< k])) = drop n (drop (i * n) (concat (map g [0 ..< k])))" by (simp add: add.commute)
  ultimately show ?case using Suc by simp
qed simp

lemma length_concat_uniform: "(\<And>i. i < k \<Longrightarrow> length (g i) = n) \<Longrightarrow> length (concat (map g [0 ..< k])) = k * n"
  by (induction k) simp_all

lemma cluster_bytes_ok: "readable f im \<Longrightarrow> index < clusters im \<Longrightarrow> disk_cluster f im index = Ok (cluster_bytes f im index)"
  by (auto simp: readable_def cluster_bytes_def)

lemma length_cluster_bytes:
  "file_documented f \<Longrightarrow> coherent f im \<Longrightarrow> readable f im \<Longrightarrow> index < clusters im \<Longrightarrow> length (cluster_bytes f im index) = im_cluster_size im"
  using disk_cluster_in_range(3) [of f im index] cluster_bytes_ok by blast

lemma length_guest_disk:
  assumes "file_documented f" "coherent f im" "readable f im"
  shows "length (guest_disk f im) = im_virtual_size im"
proof -
  have "length (concat (map (cluster_bytes f im) [0 ..< clusters im])) = clusters im * im_cluster_size im"
    by (rule length_concat_uniform) (rule length_cluster_bytes [OF assms])
  moreover have "im_virtual_size im \<le> clusters im * im_cluster_size im"
    unfolding clusters_def by (rule div_ceil_mult_ge) (use assms good_clusters_facts(1) in \<open>simp add: coherent_def\<close>)
  ultimately show ?thesis by (simp add: guest_disk_def)
qed

lemma disk_read_prefix:
  assumes doc: "file_documented f" and co: "coherent f im" and rd: "readable f im" and read: "disk_read f im n p = (r, p')"
  shows "\<exists>bs. r = Ok bs \<and> length bs \<le> n \<and> p' = p + length bs \<and> drop p (guest_disk f im) = bs @ drop p' (guest_disk f im) \<and>
    (bs = [] \<longrightarrow> n = 0 \<or> drop p (guest_disk f im) = [])"
proof (cases "im_virtual_size im \<le> p \<or> n = 0")
  case True
  then show ?thesis using read length_guest_disk [OF doc co rd] by (auto simp: disk_read_def)
next
  case False
  let ?cs = "im_cluster_size im"
  let ?all = "concat (map (cluster_bytes f im) [0 ..< clusters im])"
  have cs: "0 < ?cs" using co good_clusters_facts(1) by (simp add: coherent_def)
  have "p div ?cs * ?cs \<le> p" by simp
  then have "p div ?cs * ?cs < im_virtual_size im" using False by linarith
  then have inside: "p div ?cs < clusters im" by (simp add: clusters_def less_div_ceil_iff [OF cs])
  define c where "c = cluster_bytes f im (p div ?cs)"
  have len: "length c = ?cs" unfolding c_def by (rule length_cluster_bytes [OF doc co rd inside])
  have "drop (p div ?cs * ?cs) ?all = concat (map (cluster_bytes f im) [p div ?cs ..< clusters im])"
    by (rule drop_concat_uniform) (use inside length_cluster_bytes [OF doc co rd] in auto)
  also have "\<dots> = c @ concat (map (cluster_bytes f im) [Suc (p div ?cs) ..< clusters im])" using inside by (simp add: upt_conv_Cons c_def)
  finally have "drop (p mod ?cs) (drop (p div ?cs * ?cs) ?all) =
      drop (p mod ?cs) c @ concat (map (cluster_bytes f im) [Suc (p div ?cs) ..< clusters im])" using cs len by simp
  then have all: "drop p ?all = drop (p mod ?cs) c @ concat (map (cluster_bytes f im) [Suc (p div ?cs) ..< clusters im])" by simp
  define bs where "bs = take (min n (im_virtual_size im - p)) (drop (p mod ?cs) c)"
  have result: "r = Ok bs" "p' = p + length bs"
    using read False cluster_bytes_ok [OF rd inside] by (auto simp: disk_read_def c_def bs_def Let_def)
  have disk: "drop p (guest_disk f im) = take (im_virtual_size im - p) (drop p ?all)" by (simp add: guest_disk_def drop_take)
  have "take (length bs) (drop p (guest_disk f im)) = bs"
    unfolding disk all bs_def by (auto simp: min_def)
  then have "drop p (guest_disk f im) = bs @ drop (length bs) (drop p (guest_disk f im))" by (metis append_take_drop_id)
  then have "drop p (guest_disk f im) = bs @ drop p' (guest_disk f im)" by (simp add: result(2) add.commute)
  moreover have "bs \<noteq> []"
  proof -
    have "p mod ?cs < length c" using cs len by simp
    then show ?thesis using False by (auto simp: bs_def)
  qed
  ultimately show ?thesis using result by (auto simp: bs_def)
qed

section \<open>The image as a stream\<close>

text \<open>The file goes with the image, for the contract is about one state.\<close>

definition stream_read :: "nat \<Rightarrow> image_file \<times> qcow_image \<Rightarrow> (Qcow2Error, bytes) outcome \<times> (image_file \<times> qcow_image)" where
  "stream_read n s = (case s of (f, im) \<Rightarrow> case image_read f n im of (r, im') \<Rightarrow> (r, f, im'))"

definition stream_inv :: "image_file \<times> qcow_image \<Rightarrow> bool" where
  "stream_inv s = (case s of (f, im) \<Rightarrow> file_documented f \<and> coherent f im \<and> readable f im)"

definition stream_remaining :: "image_file \<times> qcow_image \<Rightarrow> bytes" where
  "stream_remaining s = (case s of (f, im) \<Rightarrow> drop (im_position im) (guest_disk f im))"

interpretation qcow: read_stream stream_inv stream_remaining stream_read
proof
  fix s n
  assume "stream_inv s"
  then obtain f im where s: "s = (f, im)" and doc: "file_documented f" and co: "coherent f im" and rd: "readable f im"
    by (auto simp: stream_inv_def)
  obtain r im' where read: "image_read f n im = (r, im')" by (rule prod.exhaust)
  have fixed: "im_fixed im' = im_fixed im" and co': "coherent f im'" and disk: "disk_read f im n (im_position im) = (r, im_position im')"
    using image_read_spec [OF doc co read] by simp_all
  have "cluster_bytes f im' = cluster_bytes f im" by (rule ext) (simp add: cluster_bytes_def disk_fixed [OF fixed])
  then have same: "guest_disk f im' = guest_disk f im" "readable f im' = readable f im"
    by (simp_all add: clusters_def guest_disk_def readable_def fixed_fields [OF fixed] disk_fixed [OF fixed])
  show "\<exists>bs s'. stream_read n s = (Ok bs, s') \<and> stream_inv s' \<and> length bs \<le> n \<and>
      stream_remaining s = bs @ stream_remaining s' \<and> (bs = [] \<longrightarrow> n = 0 \<or> stream_remaining s = [])"
    using disk_read_prefix [OF doc co rd disk] read same doc co' rd by (auto simp: s stream_read_def stream_inv_def stream_remaining_def)
qed

end
