(* ===== verification/Disk_Import.thy ===== *)
theory Disk_Import
  imports Qcow_Image
begin

text \<open>
  Writing an image into a disk: the copy with its holes, its first chunk held back and its reading
  back (\<open>platform/src/import/copy.rs\<close>), the unbuffered drive it goes through (\<open>import/drive.rs\<close>) and the import
  around both (\<open>import.rs\<close>). What the system does with a write is a parameter; the copy is proved against the contract of a
  disk, which the drive fulfils on a system that does what it documents.
\<close>

section \<open>The copy\<close>

record 'd disk_ops =
  dk_write :: "nat \<Rightarrow> bytes \<Rightarrow> 'd \<Rightarrow> (string, unit) outcome \<times> 'd"
  dk_read :: "nat \<Rightarrow> nat \<Rightarrow> 'd \<Rightarrow> (string, bytes) outcome \<times> 'd"
  dk_flush :: "'d \<Rightarrow> (string, unit) outcome \<times> 'd"

record import_summary =
  su_image_bytes :: nat
  su_written_bytes :: nat
  su_skipped_bytes :: nat
  su_verified_bytes :: nat

record written_chunk =
  wr_offset :: nat
  wr_length :: nat
  wr_digest :: "64 word"

datatype 'e copy_error = CopyCancelled | ReadingFailed 'e | DoesNotFit nat | DiskFailed string | DidNotReadBack nat

text \<open>\<open>cp_first\<close> is the used part of the chunk that is held back; \<open>cp_polls\<close> counts the looks at the cancellation.\<close>

record ('s, 'd) copy_state =
  cp_source :: 's
  cp_disk :: 'd
  cp_first :: bytes
  cp_written :: "written_chunk list"
  cp_summary :: import_summary
  cp_offset :: nat
  cp_polls :: nat

definition written_record :: "nat \<Rightarrow> bytes \<Rightarrow> written_chunk" where
  "written_record offset bs = \<lparr>wr_offset = offset, wr_length = length bs, wr_digest = digest bs\<rparr>"

definition count_written :: "nat \<Rightarrow> import_summary \<Rightarrow> import_summary" where
  "count_written n s = s\<lparr>su_written_bytes := su_written_bytes s + n\<rparr>"

definition count_skipped :: "nat \<Rightarrow> import_summary \<Rightarrow> import_summary" where
  "count_skipped n s = s\<lparr>su_skipped_bytes := su_skipped_bytes s + n\<rparr>"

text \<open>A chunk that is not held back goes to the disk, unless it is a hole.\<close>

definition put_chunk :: "'d disk_ops \<Rightarrow> nat \<Rightarrow> bytes \<Rightarrow> ('s, 'd) copy_state \<Rightarrow> ('e copy_error, unit) outcome \<times> ('s, 'd) copy_state" where
  "put_chunk dk offset bs st =
     (if is_zero bs then (Ok (), st\<lparr>cp_summary := count_skipped (length bs) (cp_summary st)\<rparr>)
      else case dk_write dk offset bs (cp_disk st) of
          (Ok _, d) \<Rightarrow> (Ok (), st\<lparr>cp_disk := d, cp_written := cp_written st @ [written_record offset bs],
                          cp_summary := count_written (length bs) (cp_summary st)\<rparr>)
        | (Err e, d) \<Rightarrow> (Err (DiskFailed e), st\<lparr>cp_disk := d\<rparr>)
        | (Panic, d) \<Rightarrow> (Panic, st\<lparr>cp_disk := d\<rparr>))"

text \<open>One turn of the loop; \<open>Ok True\<close> goes on.\<close>

definition copy_step ::
    "(nat \<Rightarrow> 's \<Rightarrow> ('e, bytes) outcome \<times> 's) \<Rightarrow> 'd disk_ops \<Rightarrow> nat \<Rightarrow> nat \<Rightarrow> (nat \<Rightarrow> bool) \<Rightarrow>
     ('s, 'd) copy_state \<Rightarrow> ('e copy_error, bool) outcome \<times> ('s, 'd) copy_state" where
  "copy_step rd dk capacity chunk_bytes cancel st =
     (if cancel (cp_polls st) then (Err CopyCancelled, st)
      else case fill_chunk rd chunk_bytes (cp_source st) of
          (Err e, s) \<Rightarrow> (Err (ReadingFailed e), st\<lparr>cp_source := s\<rparr>)
        | (Panic, s) \<Rightarrow> (Panic, st\<lparr>cp_source := s\<rparr>)
        | (Ok bs, s) \<Rightarrow>
            let st1 = st\<lparr>cp_source := s, cp_polls := Suc (cp_polls st)\<rparr>; offset = cp_offset st; stop = offset + length bs in
            if bs = [] then (Ok False, st1)
            else if usize_bound \<le> stop then (Panic, st1)
            else if stop > capacity then (Err (DoesNotFit stop), st1)
            else
              let st2 = st1\<lparr>cp_summary := (cp_summary st1)\<lparr>su_image_bytes := stop\<rparr>\<rparr> in
              if offset = 0 then (Ok True, st2\<lparr>cp_first := bs, cp_offset := stop\<rparr>)
              else (case put_chunk dk offset bs st2 of
                  (Ok _, st3) \<Rightarrow> (Ok True, st3\<lparr>cp_offset := stop\<rparr>)
                | (Err e, st3) \<Rightarrow> (Err e, st3)
                | (Panic, st3) \<Rightarrow> (Panic, st3)))"

lemma put_chunk_offset: "cp_offset (snd (put_chunk dk offset bs st)) = cp_offset st"
  by (simp add: put_chunk_def split: prod.split outcome.split)

lemma copy_step_advances:
  "copy_step rd dk capacity chunk_bytes cancel st = (Ok True, st') \<Longrightarrow> cp_offset st < cp_offset st' \<and> cp_offset st' \<le> capacity"
  by (auto simp: copy_step_def Let_def split: if_splits prod.splits outcome.splits)

function copy_loop ::
    "(nat \<Rightarrow> 's \<Rightarrow> ('e, bytes) outcome \<times> 's) \<Rightarrow> 'd disk_ops \<Rightarrow> nat \<Rightarrow> nat \<Rightarrow> (nat \<Rightarrow> bool) \<Rightarrow>
     ('s, 'd) copy_state \<Rightarrow> ('e copy_error, unit) outcome \<times> ('s, 'd) copy_state" where
  "copy_loop rd dk capacity chunk_bytes cancel st =
     (case copy_step rd dk capacity chunk_bytes cancel st of
        (Ok True, st') \<Rightarrow> copy_loop rd dk capacity chunk_bytes cancel st'
      | (Ok False, st') \<Rightarrow> (Ok (), st')
      | (Err e, st') \<Rightarrow> (Err e, st')
      | (Panic, st') \<Rightarrow> (Panic, st'))"
  by pat_completeness auto
termination
proof (relation "measure (\<lambda>(rd, dk, capacity, chunk_bytes, cancel, st). capacity - cp_offset st)", goal_cases)
  case 1
  then show ?case by simp
next
  case (2 rd dk capacity chunk_bytes cancel st r st' b)
  then show ?case using copy_step_advances [of rd dk capacity chunk_bytes cancel st st'] by auto
qed

declare copy_loop.simps [simp del]

fun verify :: "'d disk_ops \<Rightarrow> written_chunk list \<Rightarrow> 'd \<Rightarrow> ('e copy_error, nat) outcome \<times> 'd" where
  "verify dk [] d = (Ok 0, d)"
| "verify dk (w # ws) d =
     (case dk_read dk (wr_offset w) (wr_length w) d of
        (Ok bs, d1) \<Rightarrow>
          if digest bs \<noteq> wr_digest w then (Err (DidNotReadBack (wr_offset w)), d1)
          else (case verify dk ws d1 of
              (Ok n, d2) \<Rightarrow> (Ok (wr_length w + n), d2)
            | failed \<Rightarrow> failed)
      | (Err e, d1) \<Rightarrow> (Err (DiskFailed e), d1)
      | (Panic, d1) \<Rightarrow> (Panic, d1))"

definition copy_start :: "'s \<Rightarrow> 'd \<Rightarrow> ('s, 'd) copy_state" where
  "copy_start s d = \<lparr>cp_source = s, cp_disk = d, cp_first = [], cp_written = [],
     cp_summary = \<lparr>su_image_bytes = 0, su_written_bytes = 0, su_skipped_bytes = 0, su_verified_bytes = 0\<rparr>, cp_offset = 0, cp_polls = 0\<rparr>"

text \<open>The chunk that was held back, when there is one.\<close>

definition put_first :: "'d disk_ops \<Rightarrow> ('s, 'd) copy_state \<Rightarrow> ('e copy_error, unit) outcome \<times> ('s, 'd) copy_state" where
  "put_first dk st = (if cp_first st = [] then (Ok (), st) else put_chunk dk 0 (cp_first st) st)"

definition copy_image ::
    "(nat \<Rightarrow> 's \<Rightarrow> ('e, bytes) outcome \<times> 's) \<Rightarrow> 'd disk_ops \<Rightarrow> nat \<Rightarrow> nat \<Rightarrow> (nat \<Rightarrow> bool) \<Rightarrow>
     's \<Rightarrow> 'd \<Rightarrow> ('e copy_error, import_summary) outcome \<times> 's \<times> 'd" where
  "copy_image rd dk capacity chunk_bytes cancel s d =
     (case copy_loop rd dk capacity chunk_bytes cancel (copy_start s d) of
        (Err e, st) \<Rightarrow> (Err e, cp_source st, cp_disk st)
      | (Panic, st) \<Rightarrow> (Panic, cp_source st, cp_disk st)
      | (Ok _, st) \<Rightarrow>
          (case put_first dk st of
             (Err e, st1) \<Rightarrow> (Err e, cp_source st1, cp_disk st1)
           | (Panic, st1) \<Rightarrow> (Panic, cp_source st1, cp_disk st1)
           | (Ok _, st1) \<Rightarrow>
               (case dk_flush dk (cp_disk st1) of
                  (Err e, d1) \<Rightarrow> (Err (DiskFailed e), cp_source st1, d1)
                | (Panic, d1) \<Rightarrow> (Panic, cp_source st1, d1)
                | (Ok _, d1) \<Rightarrow>
                    (case verify dk (cp_written st1) d1 of
                       (Ok n, d2) \<Rightarrow> (Ok ((cp_summary st1)\<lparr>su_verified_bytes := n\<rparr>), cp_source st1, d2)
                     | (Err e, d2) \<Rightarrow> (Err e, cp_source st1, d2)
                     | (Panic, d2) \<Rightarrow> (Panic, cp_source st1, d2)))))"

section \<open>The drive\<close>

text \<open>
  What the system does on the device: the bytes a write moved, if it succeeded, and what is on the device
  afterwards; what a read returns; whether a seek or a flush succeeds.
\<close>

record device_os =
  os_seek :: "nat \<Rightarrow> bool"
  os_write :: "nat \<Rightarrow> bytes \<Rightarrow> bytes \<Rightarrow> nat option \<times> bytes"
  os_read :: "nat \<Rightarrow> nat \<Rightarrow> bytes \<Rightarrow> bytes option"
  os_flush :: "bytes \<Rightarrow> bool \<times> bytes"

record physical_drive =
  pd_os :: device_os
  pd_device :: bytes
  pd_scratch :: nat

definition drive_open :: "device_os \<Rightarrow> bytes \<Rightarrow> nat \<Rightarrow> physical_drive" where
  "drive_open os device chunk_bytes =
     \<lparr>pd_os = os, pd_device = device, pd_scratch = max (padded_length chunk_bytes SECTOR_ALIGNMENT) SECTOR_ALIGNMENT\<rparr>"

definition scratch_check :: "nat \<Rightarrow> physical_drive \<Rightarrow> (string, unit) outcome" where
  "scratch_check n d = (if n > pd_scratch d then Err ''does not fit the buffer'' else Ok ())"

definition drive_seek :: "nat \<Rightarrow> physical_drive \<Rightarrow> (string, unit) outcome" where
  "drive_seek offset d =
     (if 9223372036854775808 \<le> offset then Err ''past the end of any disk''
      else if os_seek (pd_os d) offset then Ok () else Err ''seek on physical drive'')"

definition drive_write :: "nat \<Rightarrow> bytes \<Rightarrow> physical_drive \<Rightarrow> (string, unit) outcome \<times> physical_drive" where
  "drive_write offset bs d =
     (let len = padded_length (length bs) SECTOR_ALIGNMENT in
      case obind (scratch_check len d) (\<lambda>_. drive_seek offset d) of
        Ok _ \<Rightarrow>
          (case os_write (pd_os d) offset (bs @ replicate (len - length bs) 0) (pd_device d) of
             (None, device) \<Rightarrow> (Err ''write to physical drive'', d\<lparr>pd_device := device\<rparr>)
           | (Some written, device) \<Rightarrow>
               (if written \<noteq> len then Err ''moved fewer bytes'' else Ok (), d\<lparr>pd_device := device\<rparr>))
      | Err e \<Rightarrow> (Err e, d)
      | Panic \<Rightarrow> (Panic, d))"

definition drive_read :: "nat \<Rightarrow> nat \<Rightarrow> physical_drive \<Rightarrow> (string, bytes) outcome \<times> physical_drive" where
  "drive_read offset n d =
     (let len = padded_length n SECTOR_ALIGNMENT in
      case obind (drive_seek offset d) (\<lambda>_. scratch_check len d) of
        Ok _ \<Rightarrow>
          (case os_read (pd_os d) offset len (pd_device d) of
             None \<Rightarrow> (Err ''read from physical drive'', d)
           | Some bs \<Rightarrow> if length bs < n then (Err ''came back short'', d) else (Ok (take n bs), d))
      | Err e \<Rightarrow> (Err e, d)
      | Panic \<Rightarrow> (Panic, d))"

definition drive_flush :: "physical_drive \<Rightarrow> (string, unit) outcome \<times> physical_drive" where
  "drive_flush d =
     (case os_flush (pd_os d) (pd_device d) of (ok, device) \<Rightarrow>
        (if ok then Ok () else Err ''flush physical drive'', d\<lparr>pd_device := device\<rparr>))"

definition drive_ops :: "physical_drive disk_ops" where
  "drive_ops = \<lparr>dk_write = drive_write, dk_read = drive_read, dk_flush = drive_flush\<rparr>"

section \<open>The contract of a disk\<close>

text \<open>
  A disk takes transfers of up to \<open>limit\<close> bytes at offsets that are multiples of a sector; a write is padded with zeros to whole sectors.
\<close>

locale disk_blocks =
  fixes dinv :: "'d \<Rightarrow> bool"
    and content :: "'d \<Rightarrow> bytes"
    and dk :: "'d disk_ops"
    and sector :: nat
    and limit :: nat
  assumes sector_pos: "0 < sector"
    and limit_law: "sector dvd limit"
    and extent_law: "dinv d \<Longrightarrow> sector dvd length (content d)"
    and write_law: "dinv d \<Longrightarrow> sector dvd offset \<Longrightarrow> length bs \<le> limit \<Longrightarrow> offset + length bs \<le> length (content d) \<Longrightarrow>
      \<exists>d'. dk_write dk offset bs d = (Ok (), d') \<and> dinv d' \<and>
        content d' = splice (content d) offset (bs @ replicate (padded_length (length bs) sector - length bs) 0)"
    and read_law: "dinv d \<Longrightarrow> sector dvd offset \<Longrightarrow> n \<le> limit \<Longrightarrow> offset + n \<le> length (content d) \<Longrightarrow>
      \<exists>d'. dk_read dk offset n d = (Ok (take n (drop offset (content d))), d') \<and> dinv d' \<and> content d' = content d"
    and flush_law: "dinv d \<Longrightarrow> \<exists>d'. dk_flush dk d = (Ok (), d') \<and> dinv d' \<and> content d' = content d"
begin

text \<open>A padded write into a stretch of zeros adds its bytes and nothing else.\<close>

lemma write_into_zeros:
  assumes "dinv d" "content d = past @ replicate n 0 @ rest" "sector dvd length past" "length bs \<le> limit" "padded_length (length bs) sector \<le> n"
  shows "\<exists>d'. dk_write dk (length past) bs d = (Ok (), d') \<and> dinv d' \<and> content d' = past @ bs @ replicate (n - length bs) 0 @ rest"
proof -
  let ?p = "padded_length (length bs) sector"
  have ge: "length bs \<le> ?p" by (rule padded_length_ge [OF sector_pos])
  obtain d' where d': "dk_write dk (length past) bs d = (Ok (), d')" "dinv d'"
    "content d' = splice (content d) (length past) (bs @ replicate (?p - length bs) 0)"
    using write_law [OF assms(1,3,4)] assms(2,5) ge by auto
  have zeros: "replicate (?p - length bs) (0 :: u8) @ replicate (n - ?p) 0 = replicate (n - length bs) 0"
    using assms(5) ge by (simp add: replicate_add [symmetric])
  have "content d' = past @ bs @ (replicate (?p - length bs) 0 @ replicate (n - ?p) 0) @ rest"
    using d'(3) assms(2,5) ge by (simp add: splice_def)
  then have "content d' = past @ bs @ replicate (n - length bs) 0 @ rest" by (simp only: zeros)
  with d' show ?thesis by blast
qed

lemma padding_fits:
  assumes "dinv d" "content d = past @ replicate n 0" "sector dvd length past" "length bs \<le> n"
  shows "padded_length (length bs) sector \<le> n"
proof -
  have "sector dvd n" using extent_law [OF assms(1)] assms(2,3) by (simp add: dvd_add_right_iff)
  then show ?thesis using padded_length_least [OF sector_pos _ assms(4)] by simp
qed

end

text \<open>The system as documented: aligned transfers inside the device succeed and do what they say.\<close>

definition os_documented :: "device_os \<Rightarrow> bool" where
  "os_documented os \<longleftrightarrow>
     (\<forall>offset. os_seek os offset) \<and>
     (\<forall>offset bs device. SECTOR_ALIGNMENT dvd offset \<longrightarrow> SECTOR_ALIGNMENT dvd length bs \<longrightarrow> offset + length bs \<le> length device \<longrightarrow>
        os_write os offset bs device = (Some (length bs), splice device offset bs)) \<and>
     (\<forall>offset n device. SECTOR_ALIGNMENT dvd offset \<longrightarrow> SECTOR_ALIGNMENT dvd n \<longrightarrow> offset + n \<le> length device \<longrightarrow>
        os_read os offset n device = Some (take n (drop offset device))) \<and>
     (\<forall>device. os_flush os device = (True, device))"

definition drive_inv :: "physical_drive \<Rightarrow> bool" where
  "drive_inv d \<longleftrightarrow> os_documented (pd_os d) \<and> CHUNK_BYTES \<le> pd_scratch d \<and> SECTOR_ALIGNMENT dvd length (pd_device d) \<and>
     length (pd_device d) < 9223372036854775808"

lemma sector_divides_chunk: "SECTOR_ALIGNMENT dvd CHUNK_BYTES" "0 < SECTOR_ALIGNMENT"
  by (simp_all add: SECTOR_ALIGNMENT_def CHUNK_BYTES_def)

lemma drive_transfer:
  assumes "drive_inv d" "SECTOR_ALIGNMENT dvd offset" "n \<le> CHUNK_BYTES" "offset + n \<le> length (pd_device d)"
  shows "scratch_check (padded_length n SECTOR_ALIGNMENT) d = Ok ()" "drive_seek offset d = Ok ()"
    "offset + padded_length n SECTOR_ALIGNMENT \<le> length (pd_device d)"
proof -
  have "padded_length n SECTOR_ALIGNMENT \<le> CHUNK_BYTES"
    using padded_length_least [OF sector_divides_chunk(2,1) assms(3)] .
  then show "scratch_check (padded_length n SECTOR_ALIGNMENT) d = Ok ()" using assms(1) by (simp add: scratch_check_def drive_inv_def)
  show "drive_seek offset d = Ok ()" using assms(1,4) by (simp add: drive_seek_def drive_inv_def os_documented_def)
  have "SECTOR_ALIGNMENT dvd length (pd_device d) - offset" using assms(1,2) by (simp add: drive_inv_def dvd_diff_nat)
  then have "padded_length n SECTOR_ALIGNMENT \<le> length (pd_device d) - offset"
    using padded_length_least [OF sector_divides_chunk(2)] assms(4) by simp
  then show "offset + padded_length n SECTOR_ALIGNMENT \<le> length (pd_device d)" using assms(4) by linarith
qed

interpretation drive: disk_blocks drive_inv pd_device drive_ops SECTOR_ALIGNMENT CHUNK_BYTES
proof
  show "0 < SECTOR_ALIGNMENT" "SECTOR_ALIGNMENT dvd CHUNK_BYTES" by (rule sector_divides_chunk)+
next
  fix d
  assume "drive_inv d"
  then show "SECTOR_ALIGNMENT dvd length (pd_device d)" by (simp add: drive_inv_def)
next
  fix d offset and bs :: bytes
  assume d: "drive_inv d" and args: "SECTOR_ALIGNMENT dvd offset" "length bs \<le> CHUNK_BYTES" "offset + length bs \<le> length (pd_device d)"
  let ?bs = "bs @ replicate (padded_length (length bs) SECTOR_ALIGNMENT - length bs) 0"
  note t = drive_transfer [OF d args]
  have len: "length ?bs = padded_length (length bs) SECTOR_ALIGNMENT" using padded_length_ge [OF sector_divides_chunk(2), of "length bs"] by simp
  then have "os_write (pd_os d) offset ?bs (pd_device d) = (Some (length ?bs), splice (pd_device d) offset ?bs)"
    using d args(1) t(3) by (simp add: drive_inv_def os_documented_def del: length_append)
  moreover have "length (splice (pd_device d) offset ?bs) = length (pd_device d)" using t(3) len by (intro length_splice) simp
  ultimately show "\<exists>d'. dk_write drive_ops offset bs d = (Ok (), d') \<and> drive_inv d' \<and> pd_device d' = splice (pd_device d) offset ?bs"
    using d t len by (auto simp: drive_ops_def drive_write_def drive_inv_def Let_def)
next
  fix d offset n
  assume d: "drive_inv d" and args: "SECTOR_ALIGNMENT dvd offset" "n \<le> CHUNK_BYTES" "offset + n \<le> length (pd_device d)"
  note t = drive_transfer [OF d args]
  have "os_read (pd_os d) offset (padded_length n SECTOR_ALIGNMENT) (pd_device d) =
      Some (take (padded_length n SECTOR_ALIGNMENT) (drop offset (pd_device d)))"
    using d args(1) t(3) by (simp add: drive_inv_def os_documented_def)
  then show "\<exists>d'. dk_read drive_ops offset n d = (Ok (take n (drop offset (pd_device d))), d') \<and> drive_inv d' \<and> pd_device d' = pd_device d"
    using d t args(3) padded_length_ge [OF sector_divides_chunk(2), of n]
    by (auto simp: drive_ops_def drive_read_def Let_def min_def)
next
  fix d
  assume "drive_inv d"
  then show "\<exists>d'. dk_flush drive_ops d = (Ok (), d') \<and> drive_inv d' \<and> pd_device d' = pd_device d"
    by (auto simp: drive_ops_def drive_flush_def drive_inv_def os_documented_def)
qed

section \<open>A copy of a stream onto a disk\<close>

text \<open>The disk while the first chunk is held back, and what is known of the chunks that were written.\<close>

definition half_copied :: "bytes \<Rightarrow> nat \<Rightarrow> nat \<Rightarrow> nat \<Rightarrow> bytes" where
  "half_copied img chunk extent offset = replicate (min chunk offset) 0 @ drop chunk (take offset img) @ replicate (extent - offset) 0"

definition true_records :: "nat \<Rightarrow> nat \<Rightarrow> bytes \<Rightarrow> written_chunk list \<Rightarrow> bool" where
  "true_records sector limit img ws \<longleftrightarrow>
     (\<forall>w \<in> set ws. sector dvd wr_offset w \<and> wr_length w \<le> limit \<and> wr_offset w + wr_length w \<le> length img \<and>
        wr_digest w = digest (take (wr_length w) (drop (wr_offset w) img)))"

definition written_total :: "written_chunk list \<Rightarrow> nat" where
  "written_total ws = sum_list (map wr_length ws)"

definition true_summary :: "('s, 'd) copy_state \<Rightarrow> nat \<Rightarrow> bool" where
  "true_summary st held \<longleftrightarrow>
     su_image_bytes (cp_summary st) = cp_offset st \<and> su_written_bytes (cp_summary st) = written_total (cp_written st) \<and>
     su_written_bytes (cp_summary st) + su_skipped_bytes (cp_summary st) + held = cp_offset st"

lemma true_records_append:
  "true_records sector limit img (ws @ [written_record offset bs]) \<longleftrightarrow> true_records sector limit img ws \<and>
     sector dvd offset \<and> length bs \<le> limit \<and> offset + length bs \<le> length img \<and> digest bs = digest (take (length bs) (drop offset img))"
  by (auto simp: true_records_def written_record_def)

lemma take_length_take: "take (length (take n xs)) xs = take n xs"
  by (metis append_eq_conv_conj append_take_drop_id)

locale image_copy =
  source: read_stream sinv remaining rd +
  target: disk_blocks dinv content dk sector limit
  for sinv :: "'s \<Rightarrow> bool" and remaining and rd :: "nat \<Rightarrow> 's \<Rightarrow> ('e, bytes) outcome \<times> 's"
    and dinv :: "'d \<Rightarrow> bool" and content dk sector limit +
  assumes limit_pos: "0 < limit"
begin

text \<open>A chunk of the image put where it belongs, with zeros from there on.\<close>

lemma put_chunk_law:
  assumes "dinv (cp_disk st)" "content (cp_disk st) = past @ replicate n 0 @ rest" "sector dvd length past" "length bs \<le> limit"
    and "padded_length (length bs) sector \<le> n"
    and "length past + length bs \<le> length img" "take (length bs) (drop (length past) img) = bs" "true_records sector limit img (cp_written st)"
  shows "\<exists>st'. put_chunk dk (length past) bs st = (Ok () :: ('x copy_error, unit) outcome, st') \<and> dinv (cp_disk st') \<and>
    content (cp_disk st') = past @ bs @ replicate (n - length bs) 0 @ rest \<and> true_records sector limit img (cp_written st') \<and>
    cp_source st' = cp_source st \<and> cp_first st' = cp_first st \<and> cp_offset st' = cp_offset st \<and> cp_polls st' = cp_polls st \<and>
    su_image_bytes (cp_summary st') = su_image_bytes (cp_summary st) \<and>
    su_written_bytes (cp_summary st') + su_skipped_bytes (cp_summary st') =
      su_written_bytes (cp_summary st) + su_skipped_bytes (cp_summary st) + length bs \<and>
    su_written_bytes (cp_summary st') + written_total (cp_written st) = su_written_bytes (cp_summary st) + written_total (cp_written st')"
proof (cases "is_zero bs")
  case True
  moreover have "length bs \<le> n" using assms(5) padded_length_ge [OF target.sector_pos, of "length bs"] by simp
  ultimately have "past @ bs @ replicate (n - length bs) 0 @ rest = past @ replicate n 0 @ rest"
    by (metis append_assoc is_zero_iff le_add_diff_inverse replicate_add)
  then show ?thesis using True assms by (simp add: put_chunk_def count_skipped_def)
next
  case False
  obtain d' where d': "dk_write dk (length past) bs (cp_disk st) = (Ok (), d')" "dinv d'"
    "content d' = past @ bs @ replicate (n - length bs) 0 @ rest"
    using target.write_into_zeros [OF assms(1-5)] by blast
  then show ?thesis using False assms
    by (simp add: put_chunk_def count_written_def true_records_append written_total_def) (simp add: written_record_def)
qed

definition copying :: "bytes \<Rightarrow> nat \<Rightarrow> ('s, 'd) copy_state \<Rightarrow> bool" where
  "copying img extent st \<longleftrightarrow>
     sinv (cp_source st) \<and> remaining (cp_source st) = drop (cp_offset st) img \<and> (\<exists>k. cp_offset st = min (k * limit) (length img)) \<and>
     cp_first st = (if cp_offset st = 0 then [] else take limit img) \<and>
     dinv (cp_disk st) \<and> content (cp_disk st) = half_copied img limit extent (cp_offset st) \<and>
     true_records sector limit img (cp_written st) \<and> true_summary st (length (cp_first st))"

lemma next_chunk:
  assumes "copying img extent st" "cp_offset st < length img"
  obtains s bs where "fill_chunk rd limit (cp_source st) = (Ok bs, s)" "sinv s" "remaining s = drop (cp_offset st + length bs) img"
    "bs \<noteq> []" "length bs \<le> limit" "cp_offset st + length bs \<le> length img" "take (length bs) (drop (cp_offset st) img) = bs"
    "\<exists>k. cp_offset st + length bs = min (k * limit) (length img)" "sector dvd cp_offset st"
    "cp_offset st = 0 \<longrightarrow> bs = take limit img" "cp_offset st \<noteq> 0 \<longrightarrow> limit \<le> cp_offset st"
proof -
  let ?o = "cp_offset st"
  define bs where "bs = take limit (drop ?o img)"
  obtain s where fill: "fill_chunk rd limit (cp_source st) = (Ok bs, s)" "sinv s" "remaining s = drop limit (drop ?o img)"
    using source.fill_law [of "cp_source st" limit] assms(1) by (auto simp: copying_def bs_def)
  obtain k where "?o = min (k * limit) (length img)" using assms(1) by (auto simp: copying_def)
  then have o: "?o = k * limit" using assms(2) by (simp add: min_def split: if_splits)
  have "?o + length bs = min (Suc k * limit) (length img)" using o assms(2) by (auto simp: bs_def min_def)
  then have whole: "\<exists>k. ?o + length bs = min (k * limit) (length img)" by blast
  have rest: "remaining s = drop (?o + length bs) img"
    using fill(3) by (cases "limit \<le> length img - ?o") (simp_all add: bs_def add.commute)
  have part: "take (length bs) (drop ?o img) = bs" unfolding bs_def by (rule take_length_take)
  have bounds: "bs \<noteq> []" "length bs \<le> limit" "?o + length bs \<le> length img" using assms(2) limit_pos by (auto simp: bs_def)
  have aligned: "sector dvd ?o" "?o = 0 \<longrightarrow> bs = take limit img" using o target.limit_law by (simp_all add: bs_def)
  have "?o \<noteq> 0 \<longrightarrow> limit \<le> ?o" unfolding o by (cases k) auto
  then show thesis by (rule that [OF fill(1,2) rest bounds part whole aligned])
qed

lemma copy_first_law:
  assumes co: "copying img extent st" and none: "\<forall>n. \<not> cancel n" and fits: "length img \<le> capacity" "capacity < usize_bound" "length img \<le> extent"
    and "cp_offset st < length img" "cp_offset st = 0"
  shows "\<exists>st'. copy_step rd dk capacity limit cancel st = (Ok True, st') \<and> copying img extent st'"
proof -
  obtain s bs where c: "fill_chunk rd limit (cp_source st) = (Ok bs, s)" "sinv s" "remaining s = drop (length bs) img" "bs \<noteq> []"
    "length bs \<le> length img" "bs = take limit img" "\<exists>k. length bs = min (k * limit) (length img)"
    by (rule next_chunk [OF co assms(6)]) (use assms(7) in auto)
  define st' where "st' = st\<lparr>cp_source := s, cp_polls := Suc (cp_polls st), cp_summary := (cp_summary st)\<lparr>su_image_bytes := length bs\<rparr>,
    cp_first := bs, cp_offset := length bs\<rparr>"
  have "half_copied img limit extent (length bs) = half_copied img limit extent 0"
    using c(5,6) fits(3) by (auto simp: half_copied_def min_def replicate_add [symmetric] simp flip: append_assoc)
  then have "copying img extent st'" using co c assms(7) by (auto simp: copying_def st'_def true_summary_def)
  moreover have "copy_step rd dk capacity limit cancel st = (Ok True, st')"
    using c fits none assms(7) by (simp add: copy_step_def Let_def st'_def)
  ultimately show ?thesis by blast
qed

lemma copy_next_law:
  assumes co: "copying img extent st" and none: "\<forall>n. \<not> cancel n" and fits: "length img \<le> capacity" "capacity < usize_bound" "length img \<le> extent"
    and "cp_offset st < length img" "cp_offset st \<noteq> 0"
  shows "\<exists>st'. copy_step rd dk capacity limit cancel st = (Ok True, st') \<and> copying img extent st'"
proof -
  let ?o = "cp_offset st"
  obtain s bs where c: "fill_chunk rd limit (cp_source st) = (Ok bs, s)" "sinv s" "remaining s = drop (?o + length bs) img" "bs \<noteq> []"
    "length bs \<le> limit" "?o + length bs \<le> length img" "take (length bs) (drop ?o img) = bs"
    "\<exists>k. ?o + length bs = min (k * limit) (length img)" "sector dvd ?o" "limit \<le> ?o"
    by (rule next_chunk [OF co assms(6)]) (use assms(7) in auto)
  define st2 where "st2 = st\<lparr>cp_source := s, cp_polls := Suc (cp_polls st), cp_summary := (cp_summary st)\<lparr>su_image_bytes := ?o + length bs\<rparr>\<rparr>"
  define past where "past = replicate limit 0 @ drop limit (take ?o img)"
  have past: "length past = ?o" "min limit ?o = limit" using c(6,10) by (simp_all add: past_def)
  have "take (?o + length bs) img = take ?o img @ bs" using c(7) by (simp add: take_add)
  then have half: "half_copied img limit extent (?o + length bs) = past @ bs @ replicate (extent - ?o - length bs) 0"
    using c(6,10) by (simp add: half_copied_def past_def)
  have "\<exists>st3. put_chunk dk (length past) bs st2 = (Ok () :: ('e copy_error, unit) outcome, st3) \<and> dinv (cp_disk st3) \<and>
      content (cp_disk st3) = past @ bs @ replicate (extent - ?o - length bs) 0 \<and> true_records sector limit img (cp_written st3) \<and>
      cp_source st3 = cp_source st2 \<and> cp_first st3 = cp_first st2 \<and> cp_offset st3 = cp_offset st2 \<and> cp_polls st3 = cp_polls st2 \<and>
      su_image_bytes (cp_summary st3) = su_image_bytes (cp_summary st2) \<and>
      su_written_bytes (cp_summary st3) + su_skipped_bytes (cp_summary st3) =
        su_written_bytes (cp_summary st2) + su_skipped_bytes (cp_summary st2) + length bs \<and>
      su_written_bytes (cp_summary st3) + written_total (cp_written st2) = su_written_bytes (cp_summary st2) + written_total (cp_written st3)"
  proof -
    have st2: "dinv (cp_disk st2)" "content (cp_disk st2) = past @ replicate (extent - ?o) 0" "true_records sector limit img (cp_written st2)"
      using co past(2) by (simp_all add: copying_def half_copied_def past_def st2_def)
    then have "padded_length (length bs) sector \<le> extent - ?o" using c fits past(1) by (intro target.padding_fits [OF st2(1,2)]) simp_all
    from put_chunk_law [of st2 past "extent - ?o" "[]" bs img, where 'x = 'e, OF st2(1) _ _ c(5) this _ _ st2(3)] st2(2) c(6,7,9) past(1)
    show ?thesis by simp
  qed
  then obtain st3 where put: "put_chunk dk ?o bs st2 = (Ok () :: ('e copy_error, unit) outcome, st3)"
    and moved: "copying img extent (st3\<lparr>cp_offset := ?o + length bs\<rparr>)"
    using co c past(1) half assms(7) unfolding copying_def true_summary_def st2_def by auto
  then have "copy_step rd dk capacity limit cancel st = (Ok True, st3\<lparr>cp_offset := ?o + length bs\<rparr>)"
    using c(1,4,6) fits none assms(7) by (simp add: copy_step_def Let_def st2_def)
  with moved show ?thesis by blast
qed

lemma copy_last_law:
  assumes "copying img extent st" "\<forall>n. \<not> cancel n" "\<not> cp_offset st < length img"
  shows "\<exists>st'. copy_step rd dk capacity limit cancel st = (Ok False, st') \<and> copying img extent st' \<and> cp_offset st' = length img"
proof -
  have o: "cp_offset st = length img" using assms(1,3) by (auto simp: copying_def)
  then obtain s where fill: "fill_chunk rd limit (cp_source st) = (Ok [], s)" "sinv s" "remaining s = []"
    using source.fill_law [of "cp_source st" limit] assms(1) by (auto simp: copying_def)
  then show ?thesis using assms(1,2) o by (auto simp: copy_step_def Let_def copying_def true_summary_def)
qed

lemma copy_loop_law:
  assumes "copying img extent st" "\<forall>n. \<not> cancel n" "length img \<le> capacity" "capacity < usize_bound" "length img \<le> extent"
  shows "\<exists>st'. copy_loop rd dk capacity limit cancel st = (Ok (), st') \<and> copying img extent st' \<and> cp_offset st' = length img"
  using assms(1)
proof (induction "length img - cp_offset st" arbitrary: st rule: less_induct)
  case less
  show ?case
  proof (cases "cp_offset st < length img")
    case True
    then obtain st' where st': "copy_step rd dk capacity limit cancel st = (Ok True, st')" "copying img extent st'"
      using copy_first_law [OF less.prems assms(2-5)] copy_next_law [OF less.prems assms(2-5)] by blast
    have "length img - cp_offset st' < length img - cp_offset st" using copy_step_advances [OF st'(1)] True by (simp add: diff_less_mono2)
    from less.hyps [OF this st'(2)] st'(1) show ?thesis by (subst copy_loop.simps) simp
  next
    case False
    from copy_last_law [OF less.prems assms(2) False, of capacity] show ?thesis by (subst copy_loop.simps) auto
  qed
qed

lemma verify_law:
  assumes "true_records sector limit img ws" "content d = img @ rest" "dinv d"
  shows "\<exists>d'. verify dk ws d = (Ok (written_total ws), d') \<and> dinv d' \<and> content d' = content d"
  using assms
proof (induction ws arbitrary: d)
  case (Cons w ws)
  have w: "sector dvd wr_offset w" "wr_length w \<le> limit" "wr_offset w + wr_length w \<le> length (content d)"
    "take (wr_length w) (drop (wr_offset w) (content d)) = take (wr_length w) (drop (wr_offset w) img)"
    "wr_digest w = digest (take (wr_length w) (drop (wr_offset w) img))"
    using Cons.prems(1,2) by (auto simp: true_records_def)
  obtain d1 where d1: "dk_read dk (wr_offset w) (wr_length w) d = (Ok (take (wr_length w) (drop (wr_offset w) (content d))), d1)"
    "dinv d1" "content d1 = content d"
    using target.read_law [OF Cons.prems(3) w(1,2,3)] by blast
  have "true_records sector limit img ws" using Cons.prems(1) by (simp add: true_records_def)
  with Cons.IH [of d1] d1 Cons.prems(2) w(4,5) show ?case by (auto simp: written_total_def)
qed (simp add: written_total_def)

text \<open>The chunk that was held back is written into the zeros it left, whether it is a whole one or all there is.\<close>

lemma put_first_law:
  assumes co: "copying img extent st" and o: "cp_offset st = length img" and fits: "length img \<le> extent"
  shows "\<exists>st1. put_first dk st = (Ok () :: ('e copy_error, unit) outcome, st1) \<and>
      dinv (cp_disk st1) \<and> content (cp_disk st1) = img @ replicate (extent - length img) 0 \<and> true_records sector limit img (cp_written st1) \<and>
      su_image_bytes (cp_summary st1) = length img \<and> su_written_bytes (cp_summary st1) = written_total (cp_written st1) \<and>
      su_written_bytes (cp_summary st1) + su_skipped_bytes (cp_summary st1) = length img"
proof (cases "img = []")
  case True
  then show ?thesis using co o by (auto simp: copying_def half_copied_def true_summary_def put_first_def)
next
  case False
  then have first: "cp_first st = take limit img" "cp_first st \<noteq> []" using co o limit_pos by (auto simp: copying_def)
  have disk: "dinv (cp_disk st)" "content (cp_disk st) = replicate (min limit (length img)) 0 @ drop limit img @ replicate (extent - length img) 0"
    "true_records sector limit img (cp_written st)"
    using co o by (simp_all add: copying_def half_copied_def)
  obtain n rest where n: "content (cp_disk st) = [] @ replicate n 0 @ rest" "padded_length (length (cp_first st)) sector \<le> n"
    "take limit img @ replicate (n - length (cp_first st)) 0 @ rest = img @ replicate (extent - length img) 0"
  proof (cases "limit \<le> length img")
    case True
    then show thesis using that [of limit "drop limit img @ replicate (extent - length img) 0"] disk(2) first(1)
        padded_length_multiple [OF target.sector_pos target.limit_law] by (simp add: min_def flip: append_assoc)
  next
    case short: False
    then have "content (cp_disk st) = [] @ replicate extent 0" using disk(2) fits by (simp add: min_def replicate_add [symmetric])
    then show thesis using that [of extent "[]"] target.padding_fits [OF disk(1), of "[]" extent "cp_first st"] short first(1) fits by simp
  qed
  have "length (cp_first st) \<le> limit" "length ([] :: bytes) + length (cp_first st) \<le> length img"
    "take (length (cp_first st)) (drop (length ([] :: bytes)) img) = cp_first st"
    using first(1) take_length_take [of limit img] by simp_all
  from put_chunk_law [where 'x = 'e, OF disk(1) n(1) _ this(1) n(2) this(2,3) disk(3)]
  show ?thesis using co o n(3) first by (auto simp: copying_def true_summary_def put_first_def)
qed

text \<open>All of it: the disk is the image and zeros, and the summary adds up.\<close>

lemma copy_image_law:
  assumes "sinv s" "dinv d" "content d = replicate extent 0" "\<forall>n. \<not> cancel n"
    and "length (remaining s) \<le> capacity" "capacity < usize_bound" "length (remaining s) \<le> extent"
  shows "\<exists>summary s' d'. copy_image rd dk capacity limit cancel s d = (Ok summary, s', d') \<and> dinv d' \<and>
    content d' = remaining s @ replicate (extent - length (remaining s)) 0 \<and>
    su_image_bytes summary = length (remaining s) \<and> su_verified_bytes summary = su_written_bytes summary \<and>
    su_written_bytes summary + su_skipped_bytes summary = su_image_bytes summary"
proof -
  let ?img = "remaining s"
  have "\<exists>k. 0 = min (k * limit) (length ?img)" by (rule exI [of _ 0]) simp
  then have "copying ?img extent (copy_start s d)"
    using assms(1,2,3) by (auto simp: copying_def copy_start_def half_copied_def true_records_def true_summary_def written_total_def)
  from copy_loop_law [OF this assms(4-7)] obtain st where loop: "copy_loop rd dk capacity limit cancel (copy_start s d) = (Ok (), st)"
    and co: "copying ?img extent st" and o: "cp_offset st = length ?img" by blast
  have first: "cp_first st = take limit ?img" "cp_first st = [] \<longleftrightarrow> ?img = []"
    using co o limit_pos by (auto simp: copying_def)
  have "\<exists>st1. put_first dk st = (Ok () :: ('e copy_error, unit) outcome, st1) \<and>
      dinv (cp_disk st1) \<and> content (cp_disk st1) = ?img @ replicate (extent - length ?img) 0 \<and> true_records sector limit ?img (cp_written st1) \<and>
      su_image_bytes (cp_summary st1) = length ?img \<and> su_written_bytes (cp_summary st1) = written_total (cp_written st1) \<and>
      su_written_bytes (cp_summary st1) + su_skipped_bytes (cp_summary st1) = length ?img"
    by (rule put_first_law [OF co o assms(7)])
  then obtain st1 where st1: "put_first dk st = (Ok () :: ('e copy_error, unit) outcome, st1)"
    "dinv (cp_disk st1)" "content (cp_disk st1) = ?img @ replicate (extent - length ?img) 0" "true_records sector limit ?img (cp_written st1)"
    "su_image_bytes (cp_summary st1) = length ?img" "su_written_bytes (cp_summary st1) = written_total (cp_written st1)"
    "su_written_bytes (cp_summary st1) + su_skipped_bytes (cp_summary st1) = length ?img" by blast
  obtain d1 where d1: "dk_flush dk (cp_disk st1) = (Ok (), d1)" "dinv d1" "content d1 = content (cp_disk st1)"
    using target.flush_law [OF st1(2)] by blast
  obtain d2 where "verify dk (cp_written st1) d1 = (Ok (written_total (cp_written st1)) :: ('e copy_error, nat) outcome, d2)"
    "dinv d2" "content d2 = content d1"
    using verify_law [OF st1(4) _ d1(2), where rest = "replicate (extent - length ?img) 0" and 'a = "'e"] d1(3) st1(3) by auto
  with loop st1 d1 show ?thesis by (simp add: copy_image_def)
qed

end

interpretation import: image_copy stream_inv stream_remaining stream_read drive_inv pd_device drive_ops SECTOR_ALIGNMENT CHUNK_BYTES
  by unfold_locales (simp add: CHUNK_BYTES_def)

section \<open>The order of the writes\<close>

text \<open>Any disk, with the offsets it was asked to write at.\<close>

definition logged :: "'d disk_ops \<Rightarrow> ('d \<times> nat list) disk_ops" where
  "logged dk = \<lparr>dk_write = (\<lambda>offset bs (d, log). case dk_write dk offset bs d of (r, d') \<Rightarrow> (r, d', log @ [offset])),
     dk_read = (\<lambda>offset n (d, log). case dk_read dk offset n d of (r, d') \<Rightarrow> (r, d', log)),
     dk_flush = (\<lambda>(d, log). case dk_flush dk d of (r, d') \<Rightarrow> (r, d', log))\<rparr>"

lemma put_chunk_log:
  "put_chunk (logged dk) offset bs st = (r, st') \<Longrightarrow> snd (cp_disk st') = snd (cp_disk st) \<or> snd (cp_disk st') = snd (cp_disk st) @ [offset]"
  by (auto simp: put_chunk_def logged_def split: if_splits prod.splits outcome.splits)

lemma copy_step_log:
  "copy_step rd (logged dk) capacity chunk cancel st = (r, st') \<Longrightarrow> list_all ((<) 0) (snd (cp_disk st)) \<Longrightarrow> list_all ((<) 0) (snd (cp_disk st'))"
  by (auto simp: copy_step_def Let_def split: if_splits prod.splits outcome.splits dest!: put_chunk_log)

lemma copy_loop_log:
  "list_all ((<) 0) (snd (cp_disk st)) \<Longrightarrow> list_all ((<) 0) (snd (cp_disk (snd (copy_loop rd (logged dk) capacity chunk cancel st))))"
proof (induction rd "logged dk" capacity chunk cancel st rule: copy_loop.induct)
  case (1 rd capacity chunk cancel st)
  obtain r st' where step: "copy_step rd (logged dk) capacity chunk cancel st = (r, st')" by (rule prod.exhaust)
  from copy_step_log [OF this "1.prems"] have later: "list_all ((<) 0) (snd (cp_disk st'))" .
  show ?case
  proof (cases "r = Ok True")
    case True
    then show ?thesis using "1.hyps" [OF step [symmetric] _ refl] later step by (subst copy_loop.simps) simp
  next
    case False
    then show ?thesis using later step by (subst copy_loop.simps) (auto split: outcome.splits bool.splits)
  qed
qed

lemma verify_log: "snd (snd (verify (logged dk) ws d)) = snd d"
proof (induction ws arbitrary: d)
  case (Cons w ws)
  obtain r d' where "dk_read (logged dk) (wr_offset w) (wr_length w) d = (r, d')" by (rule prod.exhaust)
  moreover from this have "snd d' = snd d" by (auto simp: logged_def split: prod.splits)
  ultimately show ?case using Cons [of d'] by (auto split: outcome.splits prod.splits)
qed simp

lemma flush_log: "dk_flush (logged dk) d = (r, d') \<Longrightarrow> snd d' = snd d"
  by (auto simp: logged_def split: prod.splits)

lemma copy_image_log:
  fixes rd :: "nat \<Rightarrow> 's \<Rightarrow> ('e, bytes) outcome \<times> 's"
  shows "\<exists>later. list_all ((<) 0) later \<and>
     snd (snd (snd (copy_image rd (logged dk) capacity chunk cancel s (d, [])))) \<in> {later, later @ [0]}"
proof -
  obtain r st where loop: "copy_loop rd (logged dk) capacity chunk cancel (copy_start s (d, [])) = (r, st)" by (rule prod.exhaust)
  have later: "list_all ((<) 0) (snd (cp_disk st))"
    using copy_loop_log [of "copy_start s (d, [])" rd dk capacity chunk cancel] loop by (simp add: copy_start_def)
  obtain r1 st1 where first: "put_first (logged dk) st = (r1 :: ('e copy_error, unit) outcome, st1)" by (rule prod.exhaust)
  then have "snd (cp_disk st1) = snd (cp_disk st) \<or> snd (cp_disk st1) = snd (cp_disk st) @ [0]"
    using put_chunk_log [of dk 0 "cp_first st" st r1 st1] by (cases "cp_first st = []") (auto simp: put_first_def)
  moreover obtain r2 d1 where flush: "dk_flush (logged dk) (cp_disk st1) = (r2, d1)" by (rule prod.exhaust)
  moreover obtain r3 d2 where check: "verify (logged dk) (cp_written st1) d1 = (r3 :: ('e copy_error, nat) outcome, d2)" by (rule prod.exhaust)
  have "snd d1 = snd (cp_disk st1)" "snd d2 = snd (cp_disk st1)"
    using flush_log [OF flush] verify_log [of dk "cp_written st1" d1, where 'b = 'e] check by simp_all
  then have "snd (snd (snd (copy_image rd (logged dk) capacity chunk cancel s (d, [])))) \<in> {snd (cp_disk st), snd (cp_disk st1)}"
    unfolding copy_image_def loop prod.case first flush check by (cases r; cases r1; cases r2; cases r3) simp_all
  ultimately show ?thesis using later by auto
qed

section \<open>The import\<close>

datatype remove_result = Removed | RemoveNotFound | RemoveFailed

datatype 'e import_error =
    CreateFailed | AttachFailed | OpenDriveFailed | CopyFailed "'e copy_error" | DetachFailed | CopyAndDetachFailed "'e copy_error"
  | NotRemoved "'e import_error"

text \<open>What the host answers, and what was asked of it in which order.\<close>

record import_host =
  ih_create :: bool
  ih_attach :: bool
  ih_drive :: bool
  ih_detach :: bool
  ih_remove :: remove_result

datatype import_event = DiskCreated | DiskAttached | DiskCopied | DiskDetached bool | RemoveAsked

definition write_into ::
    "import_host \<Rightarrow> ('e copy_error, import_summary) outcome \<Rightarrow> ('e import_error, import_summary) outcome \<times> import_event list" where
  "write_into h copied =
     (if \<not> ih_attach h then (Err AttachFailed, [])
      else if \<not> ih_drive h then (Err OpenDriveFailed, [DiskAttached, DiskDetached (ih_detach h)])
      else (case copied of
          Panic \<Rightarrow> Panic
        | Ok summary \<Rightarrow> if ih_detach h then Ok summary else Err DetachFailed
        | Err e \<Rightarrow> if ih_detach h then Err (CopyFailed e) else Err (CopyAndDetachFailed e),
        [DiskAttached, DiskCopied, DiskDetached (ih_detach h)]))"

definition discard :: "import_host \<Rightarrow> 'e import_error \<Rightarrow> 'e import_error" where
  "discard h e = (case ih_remove h of RemoveFailed \<Rightarrow> NotRemoved e | _ \<Rightarrow> e)"

definition import_image ::
    "import_host \<Rightarrow> ('e copy_error, import_summary) outcome \<Rightarrow> ('e import_error, import_summary) outcome \<times> import_event list" where
  "import_image h copied =
     (if \<not> ih_create h then (Err CreateFailed, [])
      else case write_into h copied of
          (Ok summary, evs) \<Rightarrow> (Ok summary, DiskCreated # evs)
        | (Err e, evs) \<Rightarrow> (Err (discard h e), DiskCreated # evs @ [RemoveAsked])
        | (Panic, evs) \<Rightarrow> (Panic, DiskCreated # evs))"

text \<open>A failed import asks for the file to go, after the disk was detached; a finished one leaves it detached.\<close>

lemma import_image_events:
  assumes "import_image h copied = (r, evs)"
  shows "r = Ok summary \<Longrightarrow> copied = Ok summary \<and> evs = [DiskCreated, DiskAttached, DiskCopied, DiskDetached True]"
    and "r = Err e \<Longrightarrow> evs = [] \<or> (\<exists>mid. evs = DiskCreated # mid @ [RemoveAsked] \<and> RemoveAsked \<notin> set mid \<and>
      (DiskAttached \<in> set mid \<longrightarrow> last mid = DiskDetached (ih_detach h)))"
  using assms by (auto simp: import_image_def write_into_def split: if_splits outcome.splits)

end
