(* ===== verification/Display_Keys.thy ===== *)
theory Display_Keys
  imports Wire_Record
begin

text \<open>
  Keys and proofs of a display session (\<open>display-protocol/src/keys.rs\<close>). HKDF, HMAC, SHA-256 and
  CRC32C are library code; they are the fields of \<open>crypto\<close> and every definition takes them as an
  argument. A SHA-256 in progress is the bytes fed to it so far, which is what its result
  depends on.
\<close>

section \<open>Definitions\<close>

record crypto =
  hkdf :: "bytes \<Rightarrow> bytes \<Rightarrow> bytes \<Rightarrow> bytes"
  hkdf_expand :: "bytes \<Rightarrow> bytes \<Rightarrow> bytes"
  hmac :: "bytes \<Rightarrow> bytes \<Rightarrow> bytes"
  sha256 :: "bytes \<Rightarrow> bytes"
  crc32c :: "bytes \<Rightarrow> u32"

definition ascii :: "string \<Rightarrow> bytes" where
  "ascii s = map (\<lambda>c. of_nat (of_char c)) s"

definition SECRET_LEN :: nat where "SECRET_LEN = 32"
definition NONCE_LEN :: nat where "NONCE_LEN = 32"
definition SESSION_ID_LEN :: nat where "SESSION_ID_LEN = 16"
definition TAG_LEN :: nat where "TAG_LEN = 32"

definition SESSION_DOMAIN :: bytes where "SESSION_DOMAIN = ascii ''vmlord.display.v1.session''"
definition TRANSCRIPT_DOMAIN :: bytes where "TRANSCRIPT_DOMAIN = ascii ''vmlord.display.v1.transcript''"
definition CHANNEL_DOMAIN :: bytes where "CHANNEL_DOMAIN = ascii ''vmlord.display.v1.channel''"

datatype Role = Host | Guest

fun role_label :: "Role \<Rightarrow> bytes" where
  "role_label Host = ascii ''client''"
| "role_label Guest = ascii ''server''"

definition session_key :: "crypto \<Rightarrow> bytes \<Rightarrow> bytes \<Rightarrow> bytes \<Rightarrow> bytes \<Rightarrow> bytes" where
  "session_key cr secret session_id host_nonce guest_nonce =
     hkdf cr (host_nonce @ guest_nonce) secret (SESSION_DOMAIN @ session_id)"

definition transcript_new :: bytes where
  "transcript_new = TRANSCRIPT_DOMAIN"

definition transcript_record :: "bytes \<Rightarrow> bytes \<Rightarrow> bytes" where
  "transcript_record t payload =
     t @ u32_to_le (if length payload \<le> u32_max then of_nat (length payload) else of_nat u32_max)
       @ payload"

definition transcript_finish :: "crypto \<Rightarrow> bytes \<Rightarrow> bytes" where
  "transcript_finish cr t = sha256 cr t"

definition channel_key :: "crypto \<Rightarrow> bytes \<Rightarrow> bytes \<Rightarrow> Channel \<Rightarrow> bytes" where
  "channel_key cr session transcript channel =
     hkdf_expand cr session (CHANNEL_DOMAIN @ transcript @ [channel_as_wire channel])"

datatype WrongWidth = WrongWidth string nat

definition display_tag_from_wire :: "bytes \<Rightarrow> (WrongWidth, bytes) outcome" where
  "display_tag_from_wire bs =
     (if length bs = TAG_LEN then Ok bs else Err (WrongWidth ''tag'' (length bs)))"

definition control_tag :: "crypto \<Rightarrow> bytes \<Rightarrow> Role \<Rightarrow> bytes \<Rightarrow> bytes" where
  "control_tag cr session role transcript = hmac cr session (role_label role @ transcript)"

definition channel_tag ::
  "crypto \<Rightarrow> bytes \<Rightarrow> Role \<Rightarrow> Channel \<Rightarrow> bytes \<Rightarrow> bytes \<Rightarrow> bytes" where
  "channel_tag cr key role channel host_nonce guest_nonce =
     hmac cr key (role_label role @ [channel_as_wire channel] @ host_nonce @ guest_nonce)"

definition verify_tag :: "bytes \<Rightarrow> bytes \<Rightarrow> bool" where
  "verify_tag expected offered \<longleftrightarrow> expected = offered"

section \<open>What is signed determines what was said\<close>

lemma role_label_inject:
  "role_label a @ x = role_label b @ y \<longleftrightarrow> a = b \<and> x = y"
  by (cases a; cases b) (auto simp: ascii_def)

text \<open>The lengths in the transcript keep two payloads from sliding into each other.\<close>

lemma transcript_record_inject:
  assumes "length p \<le> u32_max" "length q \<le> u32_max" "t = t'"
    and "transcript_record t p @ x = transcript_record t' q @ y"
  shows "p = q \<and> x = y"
proof -
  have eq: "u32_to_le (of_nat (length p)) @ p @ x = u32_to_le (of_nat (length q)) @ q @ y"
    using assms by (simp add: transcript_record_def)
  then have "u32_to_le (of_nat (length p)) = u32_to_le (of_nat (length q))"
    and rest: "p @ x = q @ y"
    by (simp_all add: append_eq_append_conv)
  then have "length p = length q"
    using assms(1,2) by (simp add: u32_to_le_inject u32_of_nat_inject)
  then show ?thesis using rest by simp
qed

lemma two_payload_transcript:
  assumes "length p \<le> u32_max" "length q \<le> u32_max" "length p' \<le> u32_max" "length q' \<le> u32_max"
    and "transcript_record (transcript_record transcript_new p) q =
         transcript_record (transcript_record transcript_new p') q'"
  shows "p = p' \<and> q = q'"
proof -
  let ?l = "\<lambda>q. u32_to_le (of_nat (length q)) @ q"
  have "transcript_record transcript_new p @ ?l q = transcript_record transcript_new p' @ ?l q'"
    using assms(2,4,5) by (simp add: transcript_record_def [of "transcript_record transcript_new _"])
  from transcript_record_inject [OF assms(1,3) refl this] have "p = p'" "?l q = ?l q'" by simp_all
  then have "transcript_record [] q @ [] = transcript_record [] q' @ []"
    using assms(2,4) by (simp add: transcript_record_def)
  from transcript_record_inject [OF assms(2,4) refl this] \<open>p = p'\<close> show ?thesis by simp
qed

lemma channel_as_wire_inject: "channel_as_wire a = channel_as_wire b \<longleftrightarrow> a = b"
  by (metis channel_from_as_wire outcome.inject(1))

text \<open>The inputs two channels' keys are derived from, and two roles' tags are made over, differ.\<close>

lemma channel_info_inject:
  "CHANNEL_DOMAIN @ t @ [channel_as_wire a] = CHANNEL_DOMAIN @ t' @ [channel_as_wire b] \<longleftrightarrow>
   t = t' \<and> a = b"
  by (auto simp: channel_as_wire_inject)

lemma channel_tag_input_inject:
  assumes "length h = NONCE_LEN" "length h' = NONCE_LEN"
  shows "role_label r @ [channel_as_wire c] @ h @ g = role_label r' @ [channel_as_wire c'] @ h' @ g' \<longleftrightarrow>
    r = r' \<and> c = c' \<and> h = h' \<and> g = g'"
  using assms by (auto simp: role_label_inject channel_as_wire_inject)

end
