(* ===== verification/Display_Handshake.thy ===== *)
theory Display_Handshake
  imports Negotiation
begin

text \<open>
  The display protocol's opening agreement (\<open>display-protocol/src/handshake.rs\<close>): the agent
  protocol's rules, versioned apart from them, with two additions. A file clipboard needs a
  clipboard, and a capability introduced by a later minor is not agreed in an older session.
\<close>

section \<open>Definitions\<close>

definition DISPLAY_CURRENT_VERSION :: ProtocolVersion where
  "DISPLAY_CURRENT_VERSION = \<lparr>ver_major = 1, ver_minor = 5\<rparr>"

datatype display_mismatch =
  DisplayMismatch (display_mismatch_local: ProtocolVersion) (display_mismatch_remote: ProtocolVersion)

definition display_negotiate_version ::
  "ProtocolVersion \<Rightarrow> ProtocolVersion \<Rightarrow> (display_mismatch, ProtocolVersion) outcome" where
  "display_negotiate_version local remote =
     (if ver_major local \<noteq> ver_major remote then Err (DisplayMismatch local remote)
      else Ok \<lparr>ver_major = ver_major local, ver_minor = min (ver_minor local) (ver_minor remote)\<rparr>)"

definition display_confirm_version ::
  "ProtocolVersion \<Rightarrow> ProtocolVersion \<Rightarrow> (display_mismatch, ProtocolVersion) outcome" where
  "display_confirm_version local chosen =
     (if ver_major local \<noteq> ver_major chosen \<or> ver_minor chosen > ver_minor local
      then Err (DisplayMismatch local chosen) else Ok chosen)"

datatype Capability =
    Unspecified | CursorStream | DynamicResolution | Clipboard | FileClipboard
  | HostDisplayModes | Audio | CursorHotspots

text \<open>The numbers of \<open>Capability\<close> in \<open>display.proto\<close>.\<close>

fun capability_wire :: "Capability \<Rightarrow> int" where
  "capability_wire Unspecified = 0"
| "capability_wire CursorStream = 1"
| "capability_wire DynamicResolution = 2"
| "capability_wire Clipboard = 3"
| "capability_wire FileClipboard = 4"
| "capability_wire HostDisplayModes = 5"
| "capability_wire Audio = 6"
| "capability_wire CursorHotspots = 7"

definition capability_try_from :: "int \<Rightarrow> Capability option" where
  "capability_try_from v =
     (if v = 0 then Some Unspecified else if v = 1 then Some CursorStream
      else if v = 2 then Some DynamicResolution else if v = 3 then Some Clipboard
      else if v = 4 then Some FileClipboard else if v = 5 then Some HostDisplayModes
      else if v = 6 then Some Audio else if v = 7 then Some CursorHotspots else None)"

definition display_agreed_capabilities :: "Capability list \<Rightarrow> int list \<Rightarrow> Capability list" where
  "display_agreed_capabilities local remote =
     (let agreed = filter (\<lambda>c. capability_wire c \<in> set remote) (filter (\<lambda>c. c \<noteq> Unspecified) local) in
      if Clipboard \<notin> set agreed then filter (\<lambda>c. c \<noteq> FileClipboard) agreed else agreed)"

definition capabilities_at :: "ProtocolVersion \<Rightarrow> Capability list \<Rightarrow> Capability list" where
  "capabilities_at version capabilities =
     (let c1 = (if ver_major version \<noteq> 1 \<or> ver_minor version < 3
                then filter (\<lambda>c. c \<noteq> FileClipboard) capabilities else capabilities);
          c2 = (if ver_major version \<noteq> 1 \<or> ver_minor version < 4
                then filter (\<lambda>c. c \<noteq> HostDisplayModes) c1 else c1) in
      if ver_major version \<noteq> 1 \<or> ver_minor version < 5
      then filter (\<lambda>c. c \<noteq> CursorHotspots) c2 else c2)"

datatype display_unoffered = DisplayUnoffered int

fun display_confirm_capabilities ::
  "Capability list \<Rightarrow> int list \<Rightarrow> (display_unoffered, Capability list) outcome" where
  "display_confirm_capabilities local [] = Ok []"
| "display_confirm_capabilities local (v # vs) =
     obind (ok_or (case capability_try_from v of
         None \<Rightarrow> None
       | Some c \<Rightarrow> if c \<noteq> Unspecified \<and> c \<in> set local then Some c else None)
       (DisplayUnoffered v))
       (\<lambda>c. obind (display_confirm_capabilities local vs) (\<lambda>cs. Ok (c # cs)))"

section \<open>The contracts hold\<close>

interpretation display_revision: revision_negotiation display_negotiate_version display_confirm_version
proof
  fix l r v assume "display_negotiate_version l r = Ok v"
  then show "speaks l v \<and> speaks r v"
    by (auto simp: display_negotiate_version_def speaks_def split: if_splits)
next
  fix l v r assume "speaks l v" "speaks r v"
  then show "\<exists>w. display_negotiate_version l r = Ok w \<and> speaks w v"
    by (auto simp: display_negotiate_version_def speaks_def)
next
  fix l v w show "display_confirm_version l v = Ok w \<longleftrightarrow> w = v \<and> speaks l v"
    by (auto simp: display_confirm_version_def speaks_def)
qed

lemma capability_try_from_wire [simp]: "capability_try_from (capability_wire c) = Some c"
  by (cases c) (simp_all add: capability_try_from_def)

lemma capability_try_fromD: "capability_try_from v = Some c \<Longrightarrow> v = capability_wire c"
  by (auto simp: capability_try_from_def split: if_splits)

lemma display_confirm_capabilities_sound:
  "display_confirm_capabilities local ws = Ok cs \<Longrightarrow>
   ws = map capability_wire cs \<and> set cs \<subseteq> set local \<and> list_all (\<lambda>c. c \<noteq> Unspecified) cs"
  by (induction ws arbitrary: cs) (auto split: option.splits if_splits dest: capability_try_fromD)

lemma display_confirm_capabilities_offered:
  "set cs \<subseteq> set local \<Longrightarrow> list_all (\<lambda>c. c \<noteq> Unspecified) cs \<Longrightarrow>
   display_confirm_capabilities local (map capability_wire cs) = Ok cs"
  by (induction cs) auto

interpretation display_capabilities: capability_agreement capability_wire
  display_agreed_capabilities display_confirm_capabilities "\<lambda>c. c \<noteq> Unspecified"
proof
  fix c and local :: "Capability list" and remote
  assume "c \<in> set (display_agreed_capabilities local remote)"
  then show "c \<noteq> Unspecified \<and> c \<in> set local \<and> capability_wire c \<in> set remote"
    by (auto simp: display_agreed_capabilities_def Let_def split: if_splits)
next
  fix c d assume "capability_wire c = capability_wire d"
  then show "c = d" by (metis capability_try_from_wire option.inject)
qed (use display_confirm_capabilities_sound display_confirm_capabilities_offered in auto)

section \<open>The two additions\<close>

lemma set_capabilities_at_subset: "set (capabilities_at v cs) \<subseteq> set cs"
  by (auto simp: capabilities_at_def Let_def split: if_splits)

text \<open>The minor of major 1 that introduced a capability.\<close>

fun introduced_in :: "Capability \<Rightarrow> nat" where
  "introduced_in FileClipboard = 3"
| "introduced_in HostDisplayModes = 4"
| "introduced_in CursorHotspots = 5"
| "introduced_in _ = 0"

lemma set_capabilities_at:
  "ver_major v = 1 \<Longrightarrow> c \<in> set (capabilities_at v cs) \<longleftrightarrow> c \<in> set cs \<and> introduced_in c \<le> ver_minor v"
  by (cases c) (auto simp: capabilities_at_def Let_def)

lemma file_clipboard_needs_clipboard:
  "FileClipboard \<in> set (capabilities_at v (display_agreed_capabilities mine offer)) \<Longrightarrow>
   Clipboard \<in> set (capabilities_at v (display_agreed_capabilities mine offer))"
  by (auto simp: capabilities_at_def display_agreed_capabilities_def Let_def split: if_splits)

end
