(* ===== verification/Display_Session.thy ===== *)
theory Display_Session
  imports Display_Keys Display_Handshake
begin

text \<open>
  The state machine of a display session (\<open>display-protocol/src/session.rs\<close>), both roles. The
  Protobuf codec is generated code and a parameter, one field of \<open>wire\<close> per message; random
  nonces are arguments. An operation returns its result beside the session it leaves, because a
  record that is refused may already have changed fields. An \<open>expect\<close> of the source is a branch
  into \<open>Panic\<close>. Sequence numbers and generations are \<open>u32\<close> words and wrap.
\<close>

section \<open>Messages and settings\<close>

datatype Mode = ModeUnspecified | Auto | Desktop | Motion

fun mode_wire :: "Mode \<Rightarrow> int" where
  "mode_wire ModeUnspecified = 0"
| "mode_wire Auto = 1"
| "mode_wire Desktop = 2"
| "mode_wire Motion = 3"

definition mode_try_from :: "int \<Rightarrow> Mode option" where
  "mode_try_from v =
     (if v = 0 then Some ModeUnspecified else if v = 1 then Some Auto
      else if v = 2 then Some Desktop else if v = 3 then Some Motion else None)"

record client_hello =
  ch_version :: "ProtocolVersion option"
  ch_capabilities :: "int list"
  ch_session_id :: bytes
  ch_host_nonce :: bytes
  ch_mode :: int
  ch_width :: nat
  ch_height :: nat
  ch_tile_size :: nat

record server_hello =
  sh_version :: "ProtocolVersion option"
  sh_capabilities :: "int list"
  sh_guest_nonce :: bytes
  sh_modes :: "int list"
  sh_tile_sizes :: "nat list"
  sh_width :: nat
  sh_height :: nat

record channel_hello =
  chh_session_id :: bytes
  chh_channel :: nat
  chh_generation :: u32
  chh_nonce :: bytes

record channel_ack =
  ack_nonce :: bytes
  ack_tag :: bytes

text \<open>\<open>ServerAuth\<close>, \<open>ClientAuth\<close> and \<open>ChannelAuth\<close> carry one field, the tag.\<close>

record wire =
  enc_client_hello :: "client_hello \<Rightarrow> bytes"
  dec_client_hello :: "bytes \<Rightarrow> client_hello option"
  enc_server_hello :: "server_hello \<Rightarrow> bytes"
  dec_server_hello :: "bytes \<Rightarrow> server_hello option"
  enc_auth :: "bytes \<Rightarrow> bytes"
  dec_auth :: "bytes \<Rightarrow> bytes option"
  enc_channel_hello :: "channel_hello \<Rightarrow> bytes"
  dec_channel_hello :: "bytes \<Rightarrow> channel_hello option"
  enc_channel_ack :: "channel_ack \<Rightarrow> bytes"
  dec_channel_ack :: "bytes \<Rightarrow> channel_ack option"

definition CLIENT_HELLO :: u16 where "CLIENT_HELLO = 1"
definition SERVER_HELLO :: u16 where "SERVER_HELLO = 2"
definition SERVER_AUTH :: u16 where "SERVER_AUTH = 3"
definition CLIENT_AUTH :: u16 where "CLIENT_AUTH = 4"
definition CHANNEL_HELLO :: u16 where "CHANNEL_HELLO = 1"
definition CHANNEL_ACK :: u16 where "CHANNEL_ACK = 2"
definition CHANNEL_AUTH :: u16 where "CHANNEL_AUTH = 3"

record offer =
  of_capabilities :: "Capability list"
  of_mode :: Mode
  of_width :: nat
  of_height :: nat
  of_tile_size :: nat

record support =
  su_capabilities :: "Capability list"
  su_modes :: "Mode list"
  su_tile_sizes :: "nat list"
  su_width :: nat
  su_height :: nat

record negotiated =
  ng_version :: ProtocolVersion
  ng_capabilities :: "Capability list"
  ng_mode :: Mode
  ng_width :: nat
  ng_height :: nat
  ng_tile_size :: nat

datatype Event = Continue | ControlEstablished | ChannelBound Channel

record reply_outcome =
  out_reply :: "record_msg option"
  out_event :: Event

datatype SessionState =
    AwaitingClientHello
  | AwaitingServerHello
  | AwaitingServerAuth
  | AwaitingClientAuth
  | Established

datatype SessionError =
    SVersion display_mismatch
  | SCapability display_unoffered
  | SField WrongWidth
  | SDecode
  | SUnexpected Channel u16
  | SBadTag
  | SUnsupportedMode Mode
  | SNoCommonTileSize
  | SUnknownSession
  | SStaleGeneration Channel u32 u32
  | SNotEstablished

datatype ErrorCode =
    UnsupportedVersion | MalformedRecord | Unauthenticated | UnsupportedMode
  | ResolutionRejected | UnknownSession | ChannelBindingFailed

fun error_code :: "SessionError \<Rightarrow> ErrorCode" where
  "error_code (SVersion _) = UnsupportedVersion"
| "error_code (SCapability _) = MalformedRecord"
| "error_code (SField _) = MalformedRecord"
| "error_code SDecode = MalformedRecord"
| "error_code (SUnexpected _ _) = MalformedRecord"
| "error_code SBadTag = Unauthenticated"
| "error_code (SUnsupportedMode _) = UnsupportedMode"
| "error_code SNoCommonTileSize = ResolutionRejected"
| "error_code SUnknownSession = UnknownSession"
| "error_code (SStaleGeneration _ _ _) = ChannelBindingFailed"
| "error_code SNotEstablished = Unauthenticated"

record channel_state =
  cs_generation :: u32
  cs_host_nonce :: "bytes option"
  cs_guest_nonce :: "bytes option"
  cs_key :: "bytes option"
  cs_sequence :: u32

definition channel_state_default :: channel_state where
  "channel_state_default =
     \<lparr>cs_generation = 0, cs_host_nonce = None, cs_guest_nonce = None, cs_key = None, cs_sequence = 0\<rparr>"

record session =
  ss_role :: Role
  ss_state :: SessionState
  ss_secret :: "bytes option"
  ss_offer :: "offer option"
  ss_support :: "support option"
  ss_session_id :: bytes
  ss_host_nonce :: "bytes option"
  ss_guest_nonce :: "bytes option"
  ss_transcript :: bytes
  ss_transcript_hash :: "bytes option"
  ss_session_key :: "bytes option"
  ss_negotiated :: "negotiated option"
  ss_pending :: "negotiated option"
  ss_pending_auth :: "record_msg option"
  ss_control_sequence :: u32
  ss_channels :: "channel_state list"
  ss_handover_keys :: "bytes option list"

record handed_over =
  ho_session_id :: bytes
  ho_negotiated :: negotiated
  ho_frame_key :: bytes
  ho_input_key :: bytes
  ho_clipboard_key :: bytes
  ho_audio_key :: bytes
  ho_control_sequence :: u32

section \<open>Sequencing\<close>

text \<open>\<open>?\<close> and \<open>expect\<close> inside an operation on a session.\<close>

fun attempt :: "('e, 'a) outcome \<Rightarrow> 's \<Rightarrow> ('a \<Rightarrow> ('e, 'b) outcome \<times> 's) \<Rightarrow> ('e, 'b) outcome \<times> 's" where
  "attempt (Ok x) s f = f x"
| "attempt (Err err) s f = (Err err, s)"
| "attempt Panic s f = (Panic, s)"

fun expect :: "'a option \<Rightarrow> ('e, 'a) outcome" where
  "expect (Some x) = Ok x"
| "expect None = Panic"

fun map_err :: "('e \<Rightarrow> 'f) \<Rightarrow> ('e, 'a) outcome \<Rightarrow> ('f, 'a) outcome" where
  "map_err f (Ok x) = Ok x"
| "map_err f (Err err) = Err (f err)"
| "map_err f Panic = Panic"

section \<open>Small decisions\<close>

definition resolve_mode :: "Mode \<Rightarrow> Mode list \<Rightarrow> (SessionError, Mode) outcome" where
  "resolve_mode wanted supported =
     (case supported of
        [] \<Rightarrow> Err (SUnsupportedMode wanted)
      | first # _ \<Rightarrow>
          if wanted = Auto then Ok first
          else if wanted \<in> set supported then Ok wanted
          else Err (SUnsupportedMode wanted))"

definition resolve_tile_size :: "nat \<Rightarrow> nat list \<Rightarrow> (SessionError, nat) outcome" where
  "resolve_tile_size wanted supported =
     (if wanted \<in> set supported then Ok wanted
      else let smaller = filter (\<lambda>size. size < wanted) supported in
        if smaller \<noteq> [] then Ok (foldr max smaller 0)
        else (case supported of
            [] \<Rightarrow> Err SNoCommonTileSize
          | first # rest \<Rightarrow> Ok (foldr min rest first)))"

definition session_id_from_wire :: "bytes \<Rightarrow> (SessionError, bytes) outcome" where
  "session_id_from_wire bs =
     (if length bs = SESSION_ID_LEN then Ok bs
      else Err (SField (WrongWidth ''session id'' (length bs))))"

definition session_nonce_from_wire :: "bytes \<Rightarrow> (SessionError, bytes) outcome" where
  "session_nonce_from_wire bs =
     (if length bs = NONCE_LEN then Ok bs else Err (SField (WrongWidth ''nonce'' (length bs))))"

fun channel_index :: "Channel \<Rightarrow> (SessionError, nat) outcome" where
  "channel_index ChFrame = Ok 0"
| "channel_index ChInput = Ok 1"
| "channel_index ChClipboard = Ok 2"
| "channel_index ChAudio = Ok 3"
| "channel_index ChControl = Err (SUnexpected ChControl 0)"

section \<open>Opening a session\<close>

definition control_record :: "crypto \<Rightarrow> session \<Rightarrow> u16 \<Rightarrow> bytes \<Rightarrow> record_msg \<times> session" where
  "control_record cr s message_type payload =
     (record_new (crc32c cr) ChControl message_type (ss_control_sequence s) 0 0 payload,
      s\<lparr>ss_control_sequence := ss_control_sequence s + 1\<rparr>)"

definition offer_hello :: "offer \<Rightarrow> bytes \<Rightarrow> bytes \<Rightarrow> client_hello" where
  "offer_hello offer session_id nonce =
     \<lparr>ch_version = Some DISPLAY_CURRENT_VERSION,
      ch_capabilities = map capability_wire (of_capabilities offer),
      ch_session_id = session_id, ch_host_nonce = nonce, ch_mode = mode_wire (of_mode offer),
      ch_width = of_width offer, ch_height = of_height offer, ch_tile_size = of_tile_size offer\<rparr>"

definition session_host ::
  "crypto \<Rightarrow> wire \<Rightarrow> bytes \<Rightarrow> offer \<Rightarrow> bytes \<Rightarrow> bytes \<Rightarrow> session \<times> record_msg" where
  "session_host cr w secret offer session_id nonce =
     (let payload = enc_client_hello w (offer_hello offer session_id nonce);
          s = \<lparr>ss_role = Host, ss_state = AwaitingServerHello, ss_secret = Some secret,
               ss_offer = Some offer, ss_support = None, ss_session_id = session_id,
               ss_host_nonce = Some nonce, ss_guest_nonce = None,
               ss_transcript = transcript_record transcript_new payload,
               ss_transcript_hash = None, ss_session_key = None, ss_negotiated = None,
               ss_pending = None, ss_pending_auth = None, ss_control_sequence = 0,
               ss_channels = replicate 4 channel_state_default,
               ss_handover_keys = replicate 4 None\<rparr>;
          (record, s') = control_record cr s CLIENT_HELLO payload in
      (s', record))"

definition session_guest :: "bytes \<Rightarrow> support \<Rightarrow> bytes \<Rightarrow> session" where
  "session_guest secret support nonce =
     \<lparr>ss_role = Guest, ss_state = AwaitingClientHello, ss_secret = Some secret,
      ss_offer = None, ss_support = Some support, ss_session_id = replicate SESSION_ID_LEN 0,
      ss_host_nonce = None, ss_guest_nonce = Some nonce, ss_transcript = transcript_new,
      ss_transcript_hash = None, ss_session_key = None, ss_negotiated = None,
      ss_pending = None, ss_pending_auth = None, ss_control_sequence = 0,
      ss_channels = replicate 4 channel_state_default, ss_handover_keys = replicate 4 None\<rparr>"

definition established_host :: "handed_over \<Rightarrow> session" where
  "established_host h =
     \<lparr>ss_role = Host, ss_state = Established, ss_secret = None, ss_offer = None,
      ss_support = None, ss_session_id = ho_session_id h, ss_host_nonce = None,
      ss_guest_nonce = None, ss_transcript = transcript_new, ss_transcript_hash = None,
      ss_session_key = None, ss_negotiated = Some (ho_negotiated h), ss_pending = None,
      ss_pending_auth = None, ss_control_sequence = ho_control_sequence h,
      ss_channels = replicate 4 channel_state_default,
      ss_handover_keys = [Some (ho_frame_key h), Some (ho_input_key h),
        Some (ho_clipboard_key h), Some (ho_audio_key h)]\<rparr>"

definition take_control_sequence :: "session \<Rightarrow> u32 \<times> session" where
  "take_control_sequence s =
     (ss_control_sequence s, s\<lparr>ss_control_sequence := ss_control_sequence s + 1\<rparr>)"

text \<open>One channel's state, read and changed at its index.\<close>

definition update_channel :: "nat \<Rightarrow> (channel_state \<Rightarrow> channel_state) \<Rightarrow> session \<Rightarrow> session" where
  "update_channel i f s = s\<lparr>ss_channels := (ss_channels s)[i := f (ss_channels s ! i)]\<rparr>"

definition take_channel_sequence :: "session \<Rightarrow> Channel \<Rightarrow> (SessionError, u32) outcome \<times> session" where
  "take_channel_sequence s channel =
     attempt (channel_index channel) s (\<lambda>i.
       (Ok (cs_sequence (ss_channels s ! i)),
        update_channel i (\<lambda>c. c\<lparr>cs_sequence := cs_sequence c + 1\<rparr>) s))"

definition pending_auth :: "session \<Rightarrow> record_msg option \<times> session" where
  "pending_auth s = (ss_pending_auth s, s\<lparr>ss_pending_auth := None\<rparr>)"

definition derive_session_key :: "crypto \<Rightarrow> session \<Rightarrow> (SessionError, session) outcome" where
  "derive_session_key cr s =
     obind (expect (ss_secret s)) (\<lambda>secret.
       obind (expect (ss_host_nonce s)) (\<lambda>host_nonce.
         obind (expect (ss_guest_nonce s)) (\<lambda>guest_nonce.
           Ok (s\<lparr>ss_transcript_hash := Some (transcript_finish cr (ss_transcript s)),
                 ss_session_key :=
                   Some (session_key cr secret (ss_session_id s) host_nonce guest_nonce)\<rparr>))))"

section \<open>The control handshake\<close>

definition version_or_default :: "ProtocolVersion option \<Rightarrow> ProtocolVersion" where
  "version_or_default v = (case v of None \<Rightarrow> \<lparr>ver_major = 0, ver_minor = 0\<rparr> | Some x \<Rightarrow> x)"

definition mode_or_default :: "int \<Rightarrow> Mode" where
  "mode_or_default v = (case mode_try_from v of None \<Rightarrow> ModeUnspecified | Some m \<Rightarrow> m)"

definition guest_answer ::
  "support \<Rightarrow> ProtocolVersion \<Rightarrow> Capability list \<Rightarrow> bytes \<Rightarrow> server_hello" where
  "guest_answer support version capabilities guest_nonce =
     \<lparr>sh_version = Some version, sh_capabilities = map capability_wire capabilities,
      sh_guest_nonce = guest_nonce, sh_modes = map mode_wire (su_modes support),
      sh_tile_sizes = su_tile_sizes support, sh_width = su_width support,
      sh_height = su_height support\<rparr>"

definition on_client_hello ::
  "crypto \<Rightarrow> wire \<Rightarrow> session \<Rightarrow> bytes \<Rightarrow> (SessionError, reply_outcome) outcome \<times> session" where
  "on_client_hello cr w s payload =
     attempt (ok_or (dec_client_hello w payload) SDecode) s (\<lambda>hello.
     attempt (expect (ss_support s)) s (\<lambda>support.
     attempt (map_err SVersion (display_negotiate_version DISPLAY_CURRENT_VERSION
         (version_or_default (ch_version hello)))) s (\<lambda>version.
     let capabilities = capabilities_at version
           (display_agreed_capabilities (su_capabilities support) (ch_capabilities hello)) in
     attempt (resolve_mode (mode_or_default (ch_mode hello)) (su_modes support)) s (\<lambda>mode.
     attempt (resolve_tile_size (ch_tile_size hello) (su_tile_sizes support)) s (\<lambda>tile_size.
     attempt (session_id_from_wire (ch_session_id hello)) s (\<lambda>session_id.
     let s1 = s\<lparr>ss_session_id := session_id\<rparr> in
     attempt (session_nonce_from_wire (ch_host_nonce hello)) s1 (\<lambda>host_nonce.
     let s2 = s1\<lparr>ss_host_nonce := Some host_nonce,
                 ss_transcript := transcript_record (ss_transcript s1) payload\<rparr> in
     attempt (expect (ss_guest_nonce s2)) s2 (\<lambda>guest_nonce.
     let answer_payload = enc_server_hello w (guest_answer support version capabilities guest_nonce);
         s3 = s2\<lparr>ss_transcript := transcript_record (ss_transcript s2) answer_payload\<rparr> in
     attempt (derive_session_key cr s3) s3 (\<lambda>s4.
     attempt (expect (ss_transcript_hash s4)) s4 (\<lambda>hash.
     attempt (expect (ss_session_key s4)) s4 (\<lambda>key.
     let proof_payload = enc_auth w (control_tag cr key Guest hash);
         s5 = s4\<lparr>ss_pending := Some \<lparr>ng_version = version, ng_capabilities = capabilities,
               ng_mode = mode, ng_width = su_width support, ng_height = su_height support,
               ng_tile_size = tile_size\<rparr>\<rparr>;
         (hello_record, s6) = control_record cr s5 SERVER_HELLO answer_payload;
         (proof_record, s7) = control_record cr s6 SERVER_AUTH proof_payload in
     (Ok \<lparr>out_reply = Some hello_record, out_event = Continue\<rparr>,
      s7\<lparr>ss_pending_auth := Some proof_record, ss_state := AwaitingClientAuth\<rparr>))))))))))))"

definition on_server_hello ::
  "crypto \<Rightarrow> wire \<Rightarrow> session \<Rightarrow> bytes \<Rightarrow> (SessionError, reply_outcome) outcome \<times> session" where
  "on_server_hello cr w s payload =
     attempt (ok_or (dec_server_hello w payload) SDecode) s (\<lambda>answer.
     attempt (expect (ss_offer s)) s (\<lambda>offer.
     attempt (map_err SVersion (display_confirm_version DISPLAY_CURRENT_VERSION
         (version_or_default (sh_version answer)))) s (\<lambda>version.
     attempt (map_err SCapability (display_confirm_capabilities (of_capabilities offer)
         (sh_capabilities answer))) s (\<lambda>confirmed.
     let capabilities = capabilities_at version confirmed;
         modes = List.map_filter mode_try_from (sh_modes answer) in
     attempt (resolve_mode (of_mode offer) modes) s (\<lambda>mode.
     attempt (resolve_tile_size (of_tile_size offer) (sh_tile_sizes answer)) s (\<lambda>tile_size.
     attempt (session_nonce_from_wire (sh_guest_nonce answer)) s (\<lambda>guest_nonce.
     let s1 = s\<lparr>ss_guest_nonce := Some guest_nonce,
                ss_transcript := transcript_record (ss_transcript s) payload\<rparr> in
     attempt (derive_session_key cr s1) s1 (\<lambda>s2.
     (Ok \<lparr>out_reply = None, out_event = Continue\<rparr>,
      s2\<lparr>ss_pending := Some \<lparr>ng_version = version, ng_capabilities = capabilities,
            ng_mode = mode, ng_width = sh_width answer, ng_height = sh_height answer,
            ng_tile_size = tile_size\<rparr>,
         ss_state := AwaitingServerAuth\<rparr>)))))))))"

definition on_server_auth ::
  "crypto \<Rightarrow> wire \<Rightarrow> session \<Rightarrow> bytes \<Rightarrow> (SessionError, reply_outcome) outcome \<times> session" where
  "on_server_auth cr w s payload =
     attempt (ok_or (dec_auth w payload) SDecode) s (\<lambda>tag.
     attempt (map_err SField (display_tag_from_wire tag)) s (\<lambda>offered.
     attempt (expect (ss_transcript_hash s)) s (\<lambda>hash.
     attempt (expect (ss_session_key s)) s (\<lambda>key.
     if \<not> verify_tag (control_tag cr key Guest hash) offered then (Err SBadTag, s)
     else let (record, s1) = control_record cr s CLIENT_AUTH (enc_auth w (control_tag cr key Host hash)) in
       (Ok \<lparr>out_reply = Some record, out_event = ControlEstablished\<rparr>,
        s1\<lparr>ss_negotiated := ss_pending s1, ss_state := Established\<rparr>)))))"

definition on_client_auth ::
  "crypto \<Rightarrow> wire \<Rightarrow> session \<Rightarrow> bytes \<Rightarrow> (SessionError, reply_outcome) outcome \<times> session" where
  "on_client_auth cr w s payload =
     attempt (ok_or (dec_auth w payload) SDecode) s (\<lambda>tag.
     attempt (map_err SField (display_tag_from_wire tag)) s (\<lambda>offered.
     attempt (expect (ss_transcript_hash s)) s (\<lambda>hash.
     attempt (expect (ss_session_key s)) s (\<lambda>key.
     if \<not> verify_tag (control_tag cr key Host hash) offered then (Err SBadTag, s)
     else (Ok \<lparr>out_reply = None, out_event = ControlEstablished\<rparr>,
           s\<lparr>ss_negotiated := ss_pending s, ss_state := Established\<rparr>)))))"

section \<open>Binding channels\<close>

definition channel_record ::
  "crypto \<Rightarrow> session \<Rightarrow> nat \<Rightarrow> Channel \<Rightarrow> u16 \<Rightarrow> bytes \<Rightarrow> record_msg \<times> session" where
  "channel_record cr s i channel message_type payload =
     (let c = ss_channels s ! i in
      (record_new (crc32c cr) channel message_type (cs_sequence c) 0 (cs_generation c) payload,
       update_channel i (\<lambda>c. c\<lparr>cs_sequence := cs_sequence c + 1\<rparr>) s))"

definition channel_hello_record ::
  "crypto \<Rightarrow> wire \<Rightarrow> bytes \<Rightarrow> session \<Rightarrow> Channel \<Rightarrow> (SessionError, record_msg) outcome \<times> session" where
  "channel_hello_record cr w nonce s channel =
     attempt (channel_index channel) s (\<lambda>i.
       if ss_negotiated s = None \<or> ss_role s \<noteq> Host then (Err SNotEstablished, s)
       else let s1 = update_channel i (\<lambda>c. c\<lparr>cs_host_nonce := Some nonce\<rparr>) s;
                hello = \<lparr>chh_session_id = ss_session_id s1,
                  chh_channel = unat (channel_as_wire channel),
                  chh_generation = cs_generation (ss_channels s1 ! i), chh_nonce = nonce\<rparr>;
                (record, s2) = channel_record cr s1 i channel CHANNEL_HELLO (enc_channel_hello w hello) in
         (Ok record, s2))"

definition open_channel ::
  "crypto \<Rightarrow> wire \<Rightarrow> bytes \<Rightarrow> session \<Rightarrow> Channel \<Rightarrow> (SessionError, record_msg) outcome \<times> session" where
  "open_channel cr w nonce s channel = channel_hello_record cr w nonce s channel"

definition reconnect_channel ::
  "crypto \<Rightarrow> wire \<Rightarrow> bytes \<Rightarrow> session \<Rightarrow> Channel \<Rightarrow> (SessionError, record_msg) outcome \<times> session" where
  "reconnect_channel cr w nonce s channel =
     attempt (channel_index channel) s (\<lambda>i.
       channel_hello_record cr w nonce
         (update_channel i (\<lambda>c. c\<lparr>cs_generation := cs_generation c + 1, cs_sequence := 0,
            cs_key := None\<rparr>) s) channel)"

definition generation :: "session \<Rightarrow> Channel \<Rightarrow> u32" where
  "generation s channel =
     (case channel_index channel of Ok i \<Rightarrow> cs_generation (ss_channels s ! i) | _ \<Rightarrow> 0)"

definition session_accept :: "session \<Rightarrow> header \<Rightarrow> (SessionError, unit) outcome" where
  "session_accept s h =
     (case channel_index (hd_channel h) of
        Ok i \<Rightarrow>
          let expected = cs_generation (ss_channels s ! i) in
          if hd_generation h \<noteq> expected
          then Err (SStaleGeneration (hd_channel h) expected (hd_generation h)) else Ok ()
      | _ \<Rightarrow> Ok ())"

definition bound_channel_key :: "session \<Rightarrow> Channel \<Rightarrow> bytes option" where
  "bound_channel_key s channel =
     (case channel_index channel of Ok i \<Rightarrow> cs_key (ss_channels s ! i) | _ \<Rightarrow> None)"

definition derive_channel_key :: "crypto \<Rightarrow> session \<Rightarrow> Channel \<Rightarrow> bytes option" where
  "derive_channel_key cr s channel =
     (case channel_index channel of
        Ok _ \<Rightarrow>
          (case (ss_session_key s, ss_transcript_hash s) of
             (Some key, Some hash) \<Rightarrow> Some (channel_key cr key hash channel)
           | _ \<Rightarrow> None)
      | _ \<Rightarrow> None)"

definition established_channel_key :: "crypto \<Rightarrow> session \<Rightarrow> nat \<Rightarrow> Channel \<Rightarrow> (SessionError, bytes) outcome" where
  "established_channel_key cr s i channel =
     (case ss_handover_keys s ! i of
        Some key \<Rightarrow> Ok key
      | None \<Rightarrow>
          obind (expect (ss_session_key s)) (\<lambda>key.
            obind (expect (ss_transcript_hash s)) (\<lambda>hash.
              Ok (channel_key cr key hash channel))))"

definition on_channel_hello ::
  "crypto \<Rightarrow> wire \<Rightarrow> bytes \<Rightarrow> session \<Rightarrow> Channel \<Rightarrow> bytes
   \<Rightarrow> (SessionError, reply_outcome) outcome \<times> session" where
  "on_channel_hello cr w guest_nonce s channel payload =
     attempt (channel_index channel) s (\<lambda>i.
     attempt (ok_or (dec_channel_hello w payload) SDecode) s (\<lambda>hello.
     attempt (session_id_from_wire (chh_session_id hello)) s (\<lambda>session_id.
     if session_id \<noteq> ss_session_id s then (Err SUnknownSession, s)
     else if chh_channel hello \<noteq> unat (channel_as_wire channel)
       then (Err (SUnexpected channel CHANNEL_HELLO), s)
     else
     attempt (session_nonce_from_wire (chh_nonce hello)) s (\<lambda>host_nonce.
     attempt (established_channel_key cr s i channel) s (\<lambda>key.
     let tag = channel_tag cr key Guest channel host_nonce guest_nonce;
         s1 = update_channel i (\<lambda>c. c\<lparr>cs_generation := chh_generation hello,
           cs_host_nonce := Some host_nonce, cs_guest_nonce := Some guest_nonce,
           cs_key := Some key\<rparr>) s;
         (record, s2) = channel_record cr s1 i channel CHANNEL_ACK
           (enc_channel_ack w \<lparr>ack_nonce = guest_nonce, ack_tag = tag\<rparr>) in
     (Ok \<lparr>out_reply = Some record, out_event = Continue\<rparr>, s2))))))"

definition on_channel_ack ::
  "crypto \<Rightarrow> wire \<Rightarrow> session \<Rightarrow> Channel \<Rightarrow> bytes \<Rightarrow> (SessionError, reply_outcome) outcome \<times> session" where
  "on_channel_ack cr w s channel payload =
     attempt (channel_index channel) s (\<lambda>i.
     attempt (ok_or (dec_channel_ack w payload) SDecode) s (\<lambda>ack.
     attempt (ok_or (cs_host_nonce (ss_channels s ! i)) SNotEstablished) s (\<lambda>host_nonce.
     attempt (session_nonce_from_wire (ack_nonce ack)) s (\<lambda>guest_nonce.
     attempt (map_err SField (display_tag_from_wire (ack_tag ack))) s (\<lambda>offered.
     attempt (established_channel_key cr s i channel) s (\<lambda>key.
     if \<not> verify_tag (channel_tag cr key Guest channel host_nonce guest_nonce) offered
       then (Err SBadTag, s)
     else let mine = channel_tag cr key Host channel host_nonce guest_nonce;
              s1 = update_channel i (\<lambda>c. c\<lparr>cs_key := Some key\<rparr>) s;
              (record, s2) = channel_record cr s1 i channel CHANNEL_AUTH (enc_auth w mine) in
       (Ok \<lparr>out_reply = Some record, out_event = ChannelBound channel\<rparr>, s2)))))))"

definition on_channel_auth ::
  "crypto \<Rightarrow> wire \<Rightarrow> session \<Rightarrow> Channel \<Rightarrow> bytes \<Rightarrow> (SessionError, reply_outcome) outcome \<times> session" where
  "on_channel_auth cr w s channel payload =
     attempt (channel_index channel) s (\<lambda>i.
     attempt (ok_or (dec_auth w payload) SDecode) s (\<lambda>tag.
     attempt (map_err SField (display_tag_from_wire tag)) s (\<lambda>offered.
     attempt (ok_or (cs_host_nonce (ss_channels s ! i)) SNotEstablished) s (\<lambda>host_nonce.
     attempt (ok_or (cs_guest_nonce (ss_channels s ! i)) SNotEstablished) s (\<lambda>guest_nonce.
     attempt (established_channel_key cr s i channel) s (\<lambda>key.
     if \<not> verify_tag (channel_tag cr key Host channel host_nonce guest_nonce) offered
       then (Err SBadTag, update_channel i (\<lambda>c. c\<lparr>cs_key := None\<rparr>) s)
     else (Ok \<lparr>out_reply = None, out_event = ChannelBound channel\<rparr>, s)))))))"

section \<open>One record in, whatever it produced out\<close>

definition handle ::
  "crypto \<Rightarrow> wire \<Rightarrow> bytes \<Rightarrow> session \<Rightarrow> header \<Rightarrow> bytes
   \<Rightarrow> (SessionError, reply_outcome) outcome \<times> session" where
  "handle cr w random s h payload =
     (let channel = hd_channel h; message_type = hd_message_type h in
      if ss_state s = AwaitingClientHello \<and> channel = ChControl \<and> message_type = CLIENT_HELLO
        then on_client_hello cr w s payload
      else if ss_state s = AwaitingServerHello \<and> channel = ChControl \<and> message_type = SERVER_HELLO
        then on_server_hello cr w s payload
      else if ss_state s = AwaitingServerAuth \<and> channel = ChControl \<and> message_type = SERVER_AUTH
        then on_server_auth cr w s payload
      else if ss_state s = AwaitingClientAuth \<and> channel = ChControl \<and> message_type = CLIENT_AUTH
        then on_client_auth cr w s payload
      else if ss_state s = Established \<and> channel \<noteq> ChControl \<and> message_type = CHANNEL_HELLO
        then on_channel_hello cr w random s channel payload
      else if ss_state s = Established \<and> channel \<noteq> ChControl \<and> message_type = CHANNEL_ACK
        then on_channel_ack cr w s channel payload
      else if ss_state s = Established \<and> channel \<noteq> ChControl \<and> message_type = CHANNEL_AUTH
        then on_channel_auth cr w s channel payload
      else (Err (SUnexpected channel message_type), s))"

end
