(* ===== verification/Session_Rules.thy ===== *)
theory Session_Rules
  imports Display_Session
begin

text \<open>
  What the handlers of a display session do, record by record: when each of them answers, with
  what and what the session is afterwards, the states a session can reach, and the small
  decisions both ends make alone.
\<close>

section \<open>Sequencing\<close>

lemma attempt_Ok_iff:
  "attempt m s f = (Ok y, s') \<longleftrightarrow> (\<exists>x. m = Ok x \<and> f x = (Ok y, s'))"
  by (cases m) auto

lemma attempt_pred:
  assumes "\<And>x. m = Ok x \<Longrightarrow> P (f x)" "\<And>err. m = Err err \<Longrightarrow> P (Err err, s)" "m \<noteq> Panic"
  shows "P (attempt m s f)"
  using assms by (cases m) auto

lemma expect_not_Panic [simp]: "expect m \<noteq> Panic \<longleftrightarrow> m \<noteq> None"
  by (cases m) auto

lemma expect_eq_Ok_iff [simp]: "expect m = Ok x \<longleftrightarrow> m = Some x"
  by (cases m) auto

lemma expect_not_Err [simp]: "expect m \<noteq> Err err"
  by (cases m) auto

lemma map_err_eq_Ok_iff [simp]: "map_err f m = Ok x \<longleftrightarrow> m = Ok x"
  by (cases m) auto

lemma map_err_Panic_iff [simp]: "map_err f m = Panic \<longleftrightarrow> m = Panic"
  by (cases m) auto

section \<open>No decision panics\<close>

named_theorems no_panic

lemma resolve_mode_not_Panic [no_panic]: "resolve_mode wanted supported \<noteq> Panic"
  by (auto simp: resolve_mode_def split: list.splits)

lemma resolve_tile_size_not_Panic [no_panic]: "resolve_tile_size wanted supported \<noteq> Panic"
  by (auto simp: resolve_tile_size_def Let_def split: list.splits)

lemma display_tag_from_wire_not_Panic [no_panic]: "display_tag_from_wire bs \<noteq> Panic"
  by (simp add: display_tag_from_wire_def)

lemma session_id_from_wire_not_Panic [no_panic]: "session_id_from_wire bs \<noteq> Panic"
  by (simp add: session_id_from_wire_def)

lemma session_nonce_from_wire_not_Panic [no_panic]: "session_nonce_from_wire bs \<noteq> Panic"
  by (simp add: session_nonce_from_wire_def)

lemma channel_index_not_Panic [no_panic]: "channel_index c \<noteq> Panic"
  by (cases c) auto

lemma display_negotiate_version_not_Panic [no_panic]: "display_negotiate_version l r \<noteq> Panic"
  by (simp add: display_negotiate_version_def)

lemma display_confirm_version_not_Panic [no_panic]: "display_confirm_version l r \<noteq> Panic"
  by (simp add: display_confirm_version_def)

lemma display_confirm_capabilities_not_Panic [no_panic]: "display_confirm_capabilities l ws \<noteq> Panic"
  by (induction ws) (auto simp: obind_eq_Panic_iff)

lemma channel_index_bound: "channel_index c = Ok i \<Longrightarrow> i < 4"
  by (cases c) auto

lemma channel_index_inject: "channel_index c = Ok i \<Longrightarrow> channel_index d = Ok i \<Longrightarrow> c = d"
  by (cases c; cases d) auto

lemma channel_index_Ok_iff: "(\<exists>i. channel_index c = Ok i) \<longleftrightarrow> c \<noteq> ChControl"
  by (cases c) auto

section \<open>The states a session can reach\<close>

definition keyed :: "session \<Rightarrow> bool" where
  "keyed s \<longleftrightarrow> ss_session_key s \<noteq> None \<and> ss_transcript_hash s \<noteq> None"

definition handed :: "session \<Rightarrow> bool" where
  "handed s \<longleftrightarrow> (\<forall>i < 4. ss_handover_keys s ! i \<noteq> None)"

fun state_ready :: "SessionState \<Rightarrow> session \<Rightarrow> bool" where
  "state_ready AwaitingClientHello s \<longleftrightarrow>
     ss_role s = Guest \<and> ss_support s \<noteq> None \<and> ss_guest_nonce s \<noteq> None \<and> ss_secret s \<noteq> None"
| "state_ready AwaitingServerHello s \<longleftrightarrow>
     ss_role s = Host \<and> ss_offer s \<noteq> None \<and> ss_host_nonce s \<noteq> None \<and> ss_secret s \<noteq> None"
| "state_ready AwaitingServerAuth s \<longleftrightarrow> ss_role s = Host \<and> keyed s \<and> ss_pending s \<noteq> None"
| "state_ready AwaitingClientAuth s \<longleftrightarrow> ss_role s = Guest \<and> keyed s \<and> ss_pending s \<noteq> None"
| "state_ready Established s \<longleftrightarrow> keyed s \<or> handed s"

definition wf_session :: "session \<Rightarrow> bool" where
  "wf_session s \<longleftrightarrow> length (ss_channels s) = 4 \<and> length (ss_handover_keys s) = 4 \<and>
     state_ready (ss_state s) s \<and> (ss_negotiated s \<noteq> None \<longleftrightarrow> ss_state s = Established)"

definition kept :: "('e, 'a) outcome \<times> session \<Rightarrow> bool" where
  "kept p \<longleftrightarrow> fst p \<noteq> Panic \<and> wf_session (snd p)"

lemma kept_Err [simp]: "kept (Err err, s) \<longleftrightarrow> wf_session s"
  by (simp add: kept_def)

lemma kept_Ok [simp]: "kept (Ok x, s) \<longleftrightarrow> wf_session s"
  by (simp add: kept_def)

lemmas kept_attempt = attempt_pred [of _ kept]

lemma wf_session_sequence [simp]:
  "wf_session (s\<lparr>ss_control_sequence := n\<rparr>) = wf_session s"
  by (cases "ss_state s") (simp_all add: wf_session_def keyed_def handed_def)

lemma wf_session_pending_auth [simp]:
  "wf_session (s\<lparr>ss_pending_auth := n\<rparr>) = wf_session s"
  by (cases "ss_state s") (simp_all add: wf_session_def keyed_def handed_def)

lemma wf_update_channel [simp]: "wf_session (update_channel i f s) = wf_session s"
  by (cases "ss_state s") (simp_all add: wf_session_def update_channel_def keyed_def handed_def)

lemma wf_control_record [simp]: "wf_session (snd (control_record cr s t p)) = wf_session s"
  by (simp add: control_record_def)

lemma wf_channel_record [simp]: "wf_session (snd (channel_record cr s i c t p)) = wf_session s"
  by (simp add: channel_record_def Let_def)

lemma wf_session_host: "wf_session (fst (session_host cr w secret offer session_id nonce))"
  by (simp add: session_host_def control_record_def wf_session_def Let_def)

lemma wf_session_guest: "wf_session (session_guest secret support nonce)"
  by (simp add: session_guest_def wf_session_def)

lemma wf_established_host: "wf_session (established_host h)"
  by (auto simp: established_host_def wf_session_def handed_def numeral_eq_Suc less_Suc_eq)

text \<open>Every handler keeps a session well formed, refusals included, and none of them panics.\<close>

lemma derive_session_key_Ok:
  "derive_session_key cr s = Ok s' \<longleftrightarrow>
     (\<exists>secret h g. ss_secret s = Some secret \<and> ss_host_nonce s = Some h \<and> ss_guest_nonce s = Some g \<and>
        s' = s\<lparr>ss_transcript_hash := Some (transcript_finish cr (ss_transcript s)),
              ss_session_key := Some (session_key cr secret (ss_session_id s) h g)\<rparr>)"
  by (auto simp: derive_session_key_def)

lemma derive_session_key_not_Err [simp]: "derive_session_key cr s \<noteq> Err err"
  by (auto simp: derive_session_key_def obind_eq_Err_iff)

lemma derive_session_key_Panic_iff [simp]:
  "derive_session_key cr s = Panic \<longleftrightarrow>
     ss_secret s = None \<or> ss_host_nonce s = None \<or> ss_guest_nonce s = None"
  by (cases "ss_secret s"; cases "ss_host_nonce s"; cases "ss_guest_nonce s")
     (simp_all add: derive_session_key_def)

lemma kept_on_client_hello:
  assumes "wf_session s" "ss_state s = AwaitingClientHello"
  shows "kept (on_client_hello cr w s payload)"
  using assms unfolding on_client_hello_def
  by (intro kept_attempt)
     (auto simp: no_panic Let_def wf_session_def control_record_def derive_session_key_Ok keyed_def
       intro!: kept_attempt)

lemma kept_on_server_hello:
  assumes "wf_session s" "ss_state s = AwaitingServerHello"
  shows "kept (on_server_hello cr w s payload)"
  using assms unfolding on_server_hello_def
  by (intro kept_attempt)
     (auto simp: no_panic Let_def wf_session_def derive_session_key_Ok keyed_def intro!: kept_attempt)

lemma kept_on_server_auth:
  assumes "wf_session s" "ss_state s = AwaitingServerAuth"
  shows "kept (on_server_auth cr w s payload)"
  using assms unfolding on_server_auth_def
  by (intro kept_attempt)
     (auto simp: no_panic Let_def wf_session_def control_record_def keyed_def intro!: kept_attempt)

lemma kept_on_client_auth:
  assumes "wf_session s" "ss_state s = AwaitingClientAuth"
  shows "kept (on_client_auth cr w s payload)"
  using assms unfolding on_client_auth_def
  by (intro kept_attempt)
     (auto simp: no_panic Let_def wf_session_def control_record_def keyed_def intro!: kept_attempt)

lemma established_channel_key_not_Panic:
  assumes "wf_session s" "ss_state s = Established" "i < 4"
  shows "established_channel_key cr s i channel \<noteq> Panic"
  using assms
  by (auto simp: wf_session_def keyed_def handed_def established_channel_key_def split: option.splits)

lemma kept_on_channel_hello:
  assumes "wf_session s" "ss_state s = Established"
  shows "kept (on_channel_hello cr w nonce s channel payload)"
  using assms unfolding on_channel_hello_def
  by (intro kept_attempt)
     (auto simp: no_panic channel_record_def Let_def intro!: kept_attempt
       dest!: channel_index_bound simp: established_channel_key_not_Panic)

lemma kept_on_channel_ack:
  assumes "wf_session s" "ss_state s = Established"
  shows "kept (on_channel_ack cr w s channel payload)"
  using assms unfolding on_channel_ack_def
  by (intro kept_attempt)
     (auto simp: no_panic channel_record_def Let_def intro!: kept_attempt
       dest!: channel_index_bound simp: established_channel_key_not_Panic)

lemma kept_on_channel_auth:
  assumes "wf_session s" "ss_state s = Established"
  shows "kept (on_channel_auth cr w s channel payload)"
  using assms unfolding on_channel_auth_def
  by (intro kept_attempt)
     (auto simp: no_panic intro!: kept_attempt
       dest!: channel_index_bound simp: established_channel_key_not_Panic)

lemma kept_handle:
  assumes "wf_session s"
  shows "kept (handle cr w random s h payload)"
  using assms kept_on_client_hello kept_on_server_hello kept_on_server_auth kept_on_client_auth
    kept_on_channel_hello kept_on_channel_ack kept_on_channel_auth
  by (simp add: handle_def Let_def)

lemma kept_channel_hello_record:
  assumes "wf_session s"
  shows "kept (channel_hello_record cr w nonce s channel)"
  using assms unfolding channel_hello_record_def
  by (intro kept_attempt) (auto simp: no_panic channel_record_def Let_def)

lemma kept_reconnect_channel:
  assumes "wf_session s"
  shows "kept (reconnect_channel cr w nonce s channel)"
  using assms unfolding reconnect_channel_def
  by (intro kept_attempt) (auto simp: no_panic kept_channel_hello_record)

lemma kept_take_channel_sequence:
  assumes "wf_session s"
  shows "kept (take_channel_sequence s channel)"
  using assms unfolding take_channel_sequence_def
  by (intro kept_attempt) (auto simp: no_panic)

text \<open>A refused record moves neither the state nor the agreement.\<close>

definition unmoved :: "session \<Rightarrow> ('e, 'a) outcome \<times> session \<Rightarrow> bool" where
  "unmoved s p \<longleftrightarrow> (\<forall>err. fst p = Err err \<longrightarrow>
     ss_state (snd p) = ss_state s \<and> ss_negotiated (snd p) = ss_negotiated s)"

lemma unmoved_Ok [simp]: "unmoved s (Ok x, s')"
  by (simp add: unmoved_def)

lemma unmoved_attempt:
  assumes "\<And>x. m = Ok x \<Longrightarrow> unmoved s (f x)" "ss_state s' = ss_state s" "ss_negotiated s' = ss_negotiated s"
  shows "unmoved s (attempt m s' f)"
  using assms by (cases m) (auto simp: unmoved_def)

lemma unmoved_Err: "unmoved s (Err err, s') \<longleftrightarrow> ss_state s' = ss_state s \<and> ss_negotiated s' = ss_negotiated s"
  by (simp add: unmoved_def)

lemmas unmoved_simps = Let_def unmoved_Err derive_session_key_Ok control_record_def channel_record_def
  update_channel_def

lemma unmoved_on_client_hello: "unmoved s (on_client_hello cr w s payload)"
  unfolding on_client_hello_def
  by (intro unmoved_attempt) (auto simp: unmoved_simps intro!: unmoved_attempt)

lemma unmoved_on_server_hello: "unmoved s (on_server_hello cr w s payload)"
  unfolding on_server_hello_def
  by (intro unmoved_attempt) (auto simp: unmoved_simps intro!: unmoved_attempt)

lemma unmoved_on_server_auth: "unmoved s (on_server_auth cr w s payload)"
  unfolding on_server_auth_def
  by (intro unmoved_attempt) (auto simp: unmoved_simps intro!: unmoved_attempt)

lemma unmoved_on_client_auth: "unmoved s (on_client_auth cr w s payload)"
  unfolding on_client_auth_def
  by (intro unmoved_attempt) (auto simp: unmoved_simps intro!: unmoved_attempt)

lemma unmoved_on_channel_hello: "unmoved s (on_channel_hello cr w nonce s channel payload)"
  unfolding on_channel_hello_def
  by (intro unmoved_attempt) (auto simp: unmoved_simps intro!: unmoved_attempt)

lemma unmoved_on_channel_ack: "unmoved s (on_channel_ack cr w s channel payload)"
  unfolding on_channel_ack_def
  by (intro unmoved_attempt) (auto simp: unmoved_simps intro!: unmoved_attempt)

lemma unmoved_on_channel_auth: "unmoved s (on_channel_auth cr w s channel payload)"
  unfolding on_channel_auth_def
  by (intro unmoved_attempt) (auto simp: unmoved_simps intro!: unmoved_attempt)

lemma handle_unmoved: "unmoved s (handle cr w random s h payload)"
  using unmoved_on_client_hello unmoved_on_server_hello unmoved_on_server_auth unmoved_on_client_auth
    unmoved_on_channel_hello unmoved_on_channel_ack unmoved_on_channel_auth
  by (simp add: handle_def Let_def unmoved_Err)

lemma handle_refused:
  assumes "handle cr w random s h payload = (Err err, s')"
  shows "ss_state s' = ss_state s \<and> ss_negotiated s' = ss_negotiated s"
  using handle_unmoved [of s cr w random h payload] assms by (simp add: unmoved_Err)

text \<open>A session as its owner drives it: any record, from anyone, and any call, in any order.\<close>

inductive session_run :: "crypto \<Rightarrow> wire \<Rightarrow> session \<Rightarrow> bool" for cr w where
  run_host: "session_run cr w (fst (session_host cr w secret offer session_id nonce))"
| run_guest: "session_run cr w (session_guest secret support nonce)"
| run_handed_over: "session_run cr w (established_host h)"
| run_handle: "session_run cr w s \<Longrightarrow> session_run cr w (snd (handle cr w random s head payload))"
| run_open: "session_run cr w s \<Longrightarrow> session_run cr w (snd (open_channel cr w nonce s channel))"
| run_reconnect: "session_run cr w s \<Longrightarrow> session_run cr w (snd (reconnect_channel cr w nonce s channel))"
| run_control_sequence: "session_run cr w s \<Longrightarrow> session_run cr w (snd (take_control_sequence s))"
| run_channel_sequence: "session_run cr w s \<Longrightarrow> session_run cr w (snd (take_channel_sequence s channel))"
| run_pending_auth: "session_run cr w s \<Longrightarrow> session_run cr w (snd (pending_auth s))"

lemma session_run_wf: "session_run cr w s \<Longrightarrow> wf_session s"
proof (induction rule: session_run.induct)
  case (run_handle s random head payload)
  then show ?case using kept_handle by (auto simp: kept_def)
next
  case (run_open s nonce channel)
  then show ?case using kept_channel_hello_record by (auto simp: kept_def open_channel_def)
next
  case (run_reconnect s nonce channel)
  then show ?case using kept_reconnect_channel by (auto simp: kept_def)
next
  case (run_channel_sequence s channel)
  then show ?case using kept_take_channel_sequence by (auto simp: kept_def)
qed (simp_all add: wf_session_host wf_session_guest wf_established_host take_control_sequence_def
    pending_auth_def)

section \<open>The decisions made alone\<close>

lemma resolve_mode_Ok:
  "resolve_mode wanted supported = Ok m \<longleftrightarrow>
     supported \<noteq> [] \<and> (if wanted = Auto then m = hd supported else m = wanted \<and> wanted \<in> set supported)"
  by (auto simp: resolve_mode_def split: list.splits)

lemma foldr_max_member: "xs \<noteq> [] \<Longrightarrow> (foldr max xs 0 :: nat) \<in> set xs"
proof (induction xs)
  case (Cons x xs) then show ?case by (cases "xs = []") (auto simp: max_def)
qed simp

lemma foldr_max_upper: "x \<in> set xs \<Longrightarrow> x \<le> (foldr max xs 0 :: nat)"
  by (induction xs) auto

lemma foldr_min_member: "(foldr min xs x :: nat) \<in> insert x (set xs)"
  by (induction xs) (auto simp: min_def)

lemma foldr_min_lower: "y \<in> insert x (set xs) \<Longrightarrow> (foldr min xs x :: nat) \<le> y"
  by (induction xs) (auto simp: min_le_iff_disj)

text \<open>
  The tile size is one the guest named: the largest that is no larger than the wish, and when
  every size is larger, the smallest.
\<close>

definition best_tile_size :: "nat \<Rightarrow> nat list \<Rightarrow> nat \<Rightarrow> bool" where
  "best_tile_size wanted supported chosen \<longleftrightarrow> chosen \<in> set supported \<and>
     (if \<exists>x \<in> set supported. x \<le> wanted
      then chosen \<le> wanted \<and> (\<forall>x \<in> set supported. x \<le> wanted \<longrightarrow> x \<le> chosen)
      else \<forall>x \<in> set supported. chosen \<le> x)"

lemma resolve_tile_size_best:
  assumes "resolve_tile_size wanted supported = Ok chosen"
  shows "best_tile_size wanted supported chosen"
proof (cases "wanted \<in> set supported")
  case True
  then show ?thesis using assms by (auto simp: resolve_tile_size_def best_tile_size_def)
next
  case False
  let ?smaller = "filter (\<lambda>x. x < wanted) supported"
  show ?thesis
  proof (cases "?smaller = []")
    case True
    have none: "\<not> (\<exists>x \<in> set supported. x \<le> wanted)"
      using True False by (force simp: filter_empty_conv order_le_less)
    obtain first rest where sup: "supported = first # rest" and chosen: "chosen = foldr min rest first"
      using assms True False by (auto simp: resolve_tile_size_def Let_def split: list.splits)
    show ?thesis
      using none foldr_min_member [of rest first] foldr_min_lower [of _ first rest]
      unfolding best_tile_size_def sup chosen by auto
  next
    case ne: False
    have chosen: "chosen = foldr max ?smaller 0"
      using assms ne \<open>wanted \<notin> set supported\<close> by (simp add: resolve_tile_size_def Let_def)
    have "chosen \<in> set ?smaller" using foldr_max_member [OF ne] by (simp only: chosen)
    moreover have "x \<le> chosen" if "x \<in> set supported" "x \<le> wanted" for x
      using that \<open>wanted \<notin> set supported\<close> foldr_max_upper [of x ?smaller]
      by (cases "x = wanted") (auto simp: chosen)
    ultimately show ?thesis unfolding best_tile_size_def by auto
  qed
qed

lemma resolve_tile_size_Err: "resolve_tile_size wanted supported = Err err \<longleftrightarrow>
    supported = [] \<and> err = SNoCommonTileSize"
  by (cases supported) (auto simp: resolve_tile_size_def Let_def)

lemma best_tile_size_unique:
  "best_tile_size wanted supported x \<Longrightarrow> best_tile_size wanted supported y \<Longrightarrow> x = y"
  unfolding best_tile_size_def by (metis le_antisym)

end
