(* ===== verification/Session_Agreement.thy ===== *)
theory Session_Agreement
  imports Session_Rules
begin

text \<open>
  The two halves of a display session run against each other: the control handshake brings both
  to the same agreement, and a guest's proof that the host accepts ties both hellos together.
\<close>

section \<open>The handshake as its two callers drive it\<close>

definition decodes :: "('m \<Rightarrow> bytes) \<Rightarrow> (bytes \<Rightarrow> 'm option) \<Rightarrow> 'm \<Rightarrow> bool" where
  "decodes enc dec m \<longleftrightarrow> dec (enc m) = Some m"

definition deliver ::
  "crypto \<Rightarrow> wire \<Rightarrow> session \<Rightarrow> record_msg \<Rightarrow> (SessionError, reply_outcome) outcome \<times> session" where
  "deliver cr w s m = handle cr w [] s (rec_header m) (rec_payload m)"

text \<open>The host's hello, the guest's answer and proof, the host's proof.\<close>

definition control_handshake ::
  "crypto \<Rightarrow> wire \<Rightarrow> session \<Rightarrow> record_msg \<Rightarrow> session \<Rightarrow> (SessionError, session \<times> session) outcome" where
  "control_handshake cr w h hello g =
     (let (r1, g1) = deliver cr w g hello in
      obind r1 (\<lambda>out1.
      let (guest_proof, g2) = pending_auth g1 in
      obind (expect (out_reply out1)) (\<lambda>answer.
      obind (expect guest_proof) (\<lambda>proof_record.
      let (r2, h1) = deliver cr w h answer in
      obind r2 (\<lambda>_.
      let (r3, h2) = deliver cr w h1 proof_record in
      obind r3 (\<lambda>out3.
      obind (expect (out_reply out3)) (\<lambda>host_proof.
      let (r4, g3) = deliver cr w g2 host_proof in
      obind r4 (\<lambda>_. Ok (h2, g3)))))))))"

text \<open>What the two of them settle on.\<close>

definition settled_on :: "offer \<Rightarrow> support \<Rightarrow> Mode \<Rightarrow> nat \<Rightarrow> negotiated" where
  "settled_on offer support mode tile_size =
     \<lparr>ng_version = DISPLAY_CURRENT_VERSION,
      ng_capabilities = display_agreed_capabilities (su_capabilities support)
        (map capability_wire (of_capabilities offer)),
      ng_mode = mode, ng_width = su_width support, ng_height = su_height support,
      ng_tile_size = tile_size\<rparr>"

section \<open>Each handler's answer\<close>

lemma mode_try_from_wire [simp]: "mode_try_from (mode_wire m) = Some m"
  by (cases m) (simp_all add: mode_try_from_def)

lemma mode_or_default_wire [simp]: "mode_or_default (mode_wire m) = m"
  by (simp add: mode_or_default_def)

lemma map_filter_mode_wire [simp]: "List.map_filter mode_try_from (map mode_wire ms) = ms"
  by (induction ms) (simp_all add: List.map_filter_simps)

lemma capabilities_at_current [simp]: "capabilities_at DISPLAY_CURRENT_VERSION cs = cs"
  by (simp add: capabilities_at_def DISPLAY_CURRENT_VERSION_def)

lemma negotiate_current [simp]:
  "display_negotiate_version DISPLAY_CURRENT_VERSION DISPLAY_CURRENT_VERSION = Ok DISPLAY_CURRENT_VERSION"
  by (simp add: display_negotiate_version_def DISPLAY_CURRENT_VERSION_def)

lemma confirm_current [simp]:
  "display_confirm_version DISPLAY_CURRENT_VERSION DISPLAY_CURRENT_VERSION = Ok DISPLAY_CURRENT_VERSION"
  by (simp add: display_confirm_version_def)

lemma offer_hello_sel [simp]:
  "ch_version (offer_hello offer session_id nonce) = Some DISPLAY_CURRENT_VERSION"
  "ch_capabilities (offer_hello offer session_id nonce) = map capability_wire (of_capabilities offer)"
  "ch_session_id (offer_hello offer session_id nonce) = session_id"
  "ch_host_nonce (offer_hello offer session_id nonce) = nonce"
  "ch_mode (offer_hello offer session_id nonce) = mode_wire (of_mode offer)"
  "ch_tile_size (offer_hello offer session_id nonce) = of_tile_size offer"
  by (simp_all add: offer_hello_def)

lemma guest_answer_sel [simp]:
  "sh_version (guest_answer support version cs nonce) = Some version"
  "sh_capabilities (guest_answer support version cs nonce) = map capability_wire cs"
  "sh_guest_nonce (guest_answer support version cs nonce) = nonce"
  "sh_modes (guest_answer support version cs nonce) = map mode_wire (su_modes support)"
  "sh_tile_sizes (guest_answer support version cs nonce) = su_tile_sizes support"
  "sh_width (guest_answer support version cs nonce) = su_width support"
  "sh_height (guest_answer support version cs nonce) = su_height support"
  by (simp_all add: guest_answer_def)

lemma version_or_default_Some [simp]: "version_or_default (Some v) = v"
  by (simp add: version_or_default_def)

lemmas message_types = CLIENT_HELLO_def SERVER_HELLO_def SERVER_AUTH_def CLIENT_AUTH_def
  CHANNEL_HELLO_def CHANNEL_ACK_def CHANNEL_AUTH_def

lemmas from_wire = session_id_from_wire_def session_nonce_from_wire_def display_tag_from_wire_def

definition hello_transcript :: "wire \<Rightarrow> offer \<Rightarrow> support \<Rightarrow> bytes \<Rightarrow> bytes \<Rightarrow> bytes \<Rightarrow> bytes" where
  "hello_transcript w offer support session_id host_nonce guest_nonce =
     transcript_record (transcript_record transcript_new
       (enc_client_hello w (offer_hello offer session_id host_nonce)))
       (enc_server_hello w (guest_answer support DISPLAY_CURRENT_VERSION
          (display_agreed_capabilities (su_capabilities support)
             (map capability_wire (of_capabilities offer))) guest_nonce))"

text \<open>Both halves, whatever came before, once they hold the same agreement.\<close>

definition shares ::
  "crypto \<Rightarrow> bytes \<Rightarrow> bytes \<Rightarrow> bytes \<Rightarrow> bytes \<Rightarrow> negotiated \<Rightarrow> session \<Rightarrow> bool" where
  "shares cr t session_id key hash n s \<longleftrightarrow> ss_state s = Established \<and> ss_negotiated s = Some n \<and>
     ss_session_id s = session_id \<and> ss_session_key s = Some key \<and> ss_transcript_hash s = Some hash \<and>
     hash = transcript_finish cr t \<and> ss_handover_keys s = replicate 4 None \<and>
     ss_channels s = replicate 4 channel_state_default"

lemma handshake_completes:
  fixes offer support secret session_id host_nonce guest_nonce cr w
  defines "t \<equiv> hello_transcript w offer support session_id host_nonce guest_nonce"
  defines "hash \<equiv> transcript_finish cr t"
  defines "key \<equiv> session_key cr secret session_id host_nonce guest_nonce"
  defines "host \<equiv> session_host cr w secret offer session_id host_nonce"
  assumes hello: "decodes (enc_client_hello w) (dec_client_hello w) (offer_hello offer session_id host_nonce)"
    and answer: "decodes (enc_server_hello w) (dec_server_hello w)
      (guest_answer support DISPLAY_CURRENT_VERSION
        (display_agreed_capabilities (su_capabilities support)
          (map capability_wire (of_capabilities offer))) guest_nonce)"
    and auth: "\<And>role. decodes (enc_auth w) (dec_auth w) (control_tag cr key role hash)"
    and tags: "\<And>role. length (control_tag cr key role hash) = TAG_LEN"
    and widths: "length session_id = SESSION_ID_LEN" "length host_nonce = NONCE_LEN"
      "length guest_nonce = NONCE_LEN"
    and mode: "resolve_mode (of_mode offer) (su_modes support) = Ok mode"
    and tile: "resolve_tile_size (of_tile_size offer) (su_tile_sizes support) = Ok tile_size"
  shows "\<exists>h g. control_handshake cr w (fst host) (snd host) (session_guest secret support guest_nonce) = Ok (h, g) \<and>
    ss_role h = Host \<and> ss_role g = Guest \<and>
    shares cr t session_id key hash (settled_on offer support mode tile_size) h \<and>
    shares cr t session_id key hash (settled_on offer support mode tile_size) g"
proof -
  let ?caps = "display_agreed_capabilities (su_capabilities support)
    (map capability_wire (of_capabilities offer))"
  have caps: "display_confirm_capabilities (of_capabilities offer) (map capability_wire ?caps) = Ok ?caps"
    by (rule display_capabilities.agreement)
  have first: "dec_client_hello w (enc_client_hello w (offer_hello offer session_id host_nonce)) =
      Some (offer_hello offer session_id host_nonce)"
    and second: "dec_server_hello w (enc_server_hello w (guest_answer support DISPLAY_CURRENT_VERSION ?caps guest_nonce)) =
      Some (guest_answer support DISPLAY_CURRENT_VERSION ?caps guest_nonce)"
    and third: "\<And>role. dec_auth w (enc_auth w (control_tag cr key role hash)) = Some (control_tag cr key role hash)"
    using hello answer auth by (simp_all add: decodes_def)
  show ?thesis
    using first second third tags widths mode tile caps
    unfolding host_def t_def hash_def key_def hello_transcript_def
    by (simp add: control_handshake_def session_host_def deliver_def handle_def control_record_def
        record_new_def header_for_payload_def on_client_hello_def on_server_hello_def on_server_auth_def
        on_client_auth_def session_guest_def message_types from_wire derive_session_key_def
        verify_tag_def pending_auth_def shares_def settled_on_def Let_def)
qed

section \<open>What an accepted proof says about both hellos\<close>

text \<open>What an answered hello leaves in the guest, and an answer in the host.\<close>

lemma on_client_hello_OkE:
  assumes "on_client_hello cr w s payload = (Ok out, s')"
  obtains hello support version mode tile_size secret guest_nonce answer hash key where
    "dec_client_hello w payload = Some hello" "ss_support s = Some support"
    "display_negotiate_version DISPLAY_CURRENT_VERSION (version_or_default (ch_version hello)) = Ok version"
    "resolve_mode (mode_or_default (ch_mode hello)) (su_modes support) = Ok mode"
    "resolve_tile_size (ch_tile_size hello) (su_tile_sizes support) = Ok tile_size"
    "ss_secret s = Some secret" "ss_guest_nonce s = Some guest_nonce"
    "answer = enc_server_hello w (guest_answer support version (capabilities_at version
       (display_agreed_capabilities (su_capabilities support) (ch_capabilities hello))) guest_nonce)"
    "hash = transcript_finish cr (transcript_record (transcript_record (ss_transcript s) payload) answer)"
    "key = session_key cr secret (ch_session_id hello) (ch_host_nonce hello) guest_nonce"
    "\<exists>m. out_reply out = Some m \<and> rec_payload m = answer"
    "\<exists>m. ss_pending_auth s' = Some m \<and> rec_payload m = enc_auth w (control_tag cr key Guest hash)"
    "ss_session_key s' = Some key" "ss_transcript_hash s' = Some hash"
    "ss_pending s' = Some \<lparr>ng_version = version, ng_capabilities = capabilities_at version
         (display_agreed_capabilities (su_capabilities support) (ch_capabilities hello)),
       ng_mode = mode, ng_width = su_width support, ng_height = su_height support,
       ng_tile_size = tile_size\<rparr>"
    "ss_session_id s' = ch_session_id hello"
proof -
  from assms show ?thesis
    unfolding on_client_hello_def
    by (clarsimp simp: attempt_Ok_iff derive_session_key_Ok control_record_def record_new_def from_wire
        Let_def split: if_splits)
       (rule that; (assumption | rule refl | simp))
qed

lemma on_server_hello_OkE:
  assumes "on_server_hello cr w s payload = (Ok out, s')"
  obtains answer offer version capabilities mode tile_size secret host_nonce where
    "dec_server_hello w payload = Some answer" "ss_offer s = Some offer"
    "display_confirm_version DISPLAY_CURRENT_VERSION (version_or_default (sh_version answer)) = Ok version"
    "display_confirm_capabilities (of_capabilities offer) (sh_capabilities answer) = Ok capabilities"
    "resolve_mode (of_mode offer) (List.map_filter mode_try_from (sh_modes answer)) = Ok mode"
    "resolve_tile_size (of_tile_size offer) (sh_tile_sizes answer) = Ok tile_size"
    "ss_secret s = Some secret" "ss_host_nonce s = Some host_nonce"
    "ss_session_key s' = Some (session_key cr secret (ss_session_id s) host_nonce (sh_guest_nonce answer))"
    "ss_transcript_hash s' = Some (transcript_finish cr (transcript_record (ss_transcript s) payload))"
    "ss_pending s' = Some \<lparr>ng_version = version, ng_capabilities = capabilities_at version capabilities,
       ng_mode = mode, ng_width = sh_width answer, ng_height = sh_height answer,
       ng_tile_size = tile_size\<rparr>"
    "ss_session_id s' = ss_session_id s"
proof -
  from assms show ?thesis
    unfolding on_server_hello_def
    by (clarsimp simp: attempt_Ok_iff derive_session_key_Ok from_wire Let_def split: if_splits)
       (rule that; (assumption | rule refl | simp))
qed

lemma on_server_auth_Ok:
  assumes "on_server_auth cr w s payload = (Ok out, s')" "ss_transcript_hash s = Some hash"
    "ss_session_key s = Some key"
  shows "dec_auth w payload = Some (control_tag cr key Guest hash)"
    and "ss_negotiated s' = ss_pending s" "ss_state s' = Established" "ss_session_id s' = ss_session_id s"
    and "ss_session_key s' = Some key" "ss_transcript_hash s' = Some hash"
  using assms
  by (auto simp: on_server_auth_def attempt_Ok_iff verify_tag_def control_record_def from_wire
      split: if_splits)

lemma on_client_auth_Ok:
  assumes "on_client_auth cr w s payload = (Ok out, s')" "ss_transcript_hash s = Some hash"
    "ss_session_key s = Some key"
  shows "dec_auth w payload = Some (control_tag cr key Host hash)"
    and "ss_negotiated s' = ss_pending s" "ss_state s' = Established"
  using assms
  by (auto simp: on_client_auth_def attempt_Ok_iff verify_tag_def control_record_def from_wire
      split: if_splits)

text \<open>
  The two payloads each end hashed are the same two, so nobody between the ends altered either
  hello: a weaker mode, an older revision or a shorter list of capabilities would have changed
  the transcript, and the proof with it. The collisions excluded are those between the inputs of
  this very exchange.
\<close>

lemma accepted_proof_binds_hellos:
  fixes offer session_id host_nonce cr w secret
  defines "sent \<equiv> enc_client_hello w (offer_hello offer session_id host_nonce)"
  assumes guest: "on_client_hello cr w (session_guest secret support guest_nonce) received = (Ok out, g)"
    and answer: "out_reply out = Some answer" and proof_record: "ss_pending_auth g = Some proof_record"
    and host: "on_server_hello cr w (fst (session_host cr w secret offer session_id host_nonce)) heard = (Ok out', h)"
    and accepted: "on_server_auth cr w h (rec_payload proof_record) = (Ok out'', h')"
    and auth: "decodes (enc_auth w) (dec_auth w) (control_tag cr kg Guest tg)"
    and gk: "ss_session_key g = Some kg" "ss_transcript_hash g = Some tg"
    and hk: "ss_session_key h = Some kh" "ss_transcript_hash h = Some th"
    and hmac: "hmac cr kh (role_label Guest @ th) = hmac cr kg (role_label Guest @ tg) \<Longrightarrow>
      role_label Guest @ th = role_label Guest @ tg"
    and sha: "sha256 cr (transcript_record (transcript_record transcript_new sent) heard) =
        sha256 cr (transcript_record (transcript_record transcript_new received) (rec_payload answer)) \<Longrightarrow>
      transcript_record (transcript_record transcript_new sent) heard =
        transcript_record (transcript_record transcript_new received) (rec_payload answer)"
    and sizes: "length sent \<le> u32_max" "length heard \<le> u32_max" "length received \<le> u32_max"
      "length (rec_payload answer) \<le> u32_max"
  shows "received = sent \<and> heard = rec_payload answer"
proof -
  have tg: "tg = sha256 cr (transcript_record (transcript_record transcript_new received) (rec_payload answer))"
    and pp: "rec_payload proof_record = enc_auth w (control_tag cr kg Guest tg)"
    using guest answer proof_record gk
    by (auto elim!: on_client_hello_OkE simp: transcript_finish_def session_guest_def)
  have th: "th = sha256 cr (transcript_record (transcript_record transcript_new sent) heard)"
    using host hk by (auto elim!: on_server_hello_OkE simp: transcript_finish_def session_host_def
        control_record_def sent_def Let_def)
  have "control_tag cr kh Guest th = control_tag cr kg Guest tg"
    using on_server_auth_Ok(1) [OF accepted hk(2,1)] auth by (simp add: pp decodes_def)
  then have "th = tg" using hmac by (simp add: control_tag_def)
  then have "transcript_record (transcript_record transcript_new sent) heard =
      transcript_record (transcript_record transcript_new received) (rec_payload answer)"
    using sha by (simp add: tg th)
  from two_payload_transcript [OF sizes this] show ?thesis by simp
qed

text \<open>Two ends that read each other's hellos as sent hold the same agreement and keys.\<close>

lemma same_hellos_same_agreement:
  assumes guest: "on_client_hello cr w (session_guest secret support guest_nonce)
      (enc_client_hello w (offer_hello offer session_id host_nonce)) = (Ok out, g)"
    and host: "on_server_hello cr w (fst (session_host cr w secret offer session_id host_nonce))
      (rec_payload answer) = (Ok out', h)"
    and answer: "out_reply out = Some answer"
    and hello: "decodes (enc_client_hello w) (dec_client_hello w) (offer_hello offer session_id host_nonce)"
    and reply: "decodes (enc_server_hello w) (dec_server_hello w)
      (guest_answer support DISPLAY_CURRENT_VERSION
        (display_agreed_capabilities (su_capabilities support)
          (map capability_wire (of_capabilities offer))) guest_nonce)"
  shows "ss_pending h = ss_pending g \<and> ss_session_key h = ss_session_key g \<and>
    ss_transcript_hash h = ss_transcript_hash g \<and> ss_session_id h = ss_session_id g"
  using guest
proof (rule on_client_hello_OkE, goal_cases)
  case (1 chello su version mode tile_size sec gn ans hash key)
  have c: "chello = offer_hello offer session_id host_nonce" "su = support" "sec = secret"
    "gn = guest_nonce" "version = DISPLAY_CURRENT_VERSION"
    using 1(1,2,3,6,7) hello by (simp_all add: decodes_def session_guest_def)
  have payload: "rec_payload answer = enc_server_hello w (guest_answer support DISPLAY_CURRENT_VERSION
      (display_agreed_capabilities (su_capabilities support)
        (map capability_wire (of_capabilities offer))) guest_nonce)"
    using 1(8,11) answer by (simp add: c)
  from host show ?case
  proof (rule on_server_hello_OkE, goal_cases)
    case (1 sanswer offer' version' caps mode' tile_size' sec' hn)
    have "sanswer = guest_answer support DISPLAY_CURRENT_VERSION
      (display_agreed_capabilities (su_capabilities support)
        (map capability_wire (of_capabilities offer))) guest_nonce"
      using 1(1) reply by (simp add: payload decodes_def)
    then show ?case
      using 1 \<open>resolve_mode _ (su_modes su) = _\<close> \<open>resolve_tile_size _ (su_tile_sizes su) = _\<close>
        \<open>ss_pending g = _\<close> \<open>ss_session_key g = _\<close> \<open>ss_transcript_hash g = _\<close> \<open>ss_session_id g = _\<close>
        \<open>key = _\<close> \<open>hash = _\<close> payload \<open>ans = _\<close>
      by (simp add: c session_host_def session_guest_def control_record_def Let_def
          display_capabilities.agreement)
  qed
qed

lemma derive_channel_key_eq:
  assumes "ss_session_key s = Some key" "ss_transcript_hash s = Some hash"
  shows "derive_channel_key cr s channel =
    (if channel = ChControl then None else Some (channel_key cr key hash channel))"
  using assms by (cases channel) (simp_all add: derive_channel_key_def)

end
