(* ===== verification/Session_Channels.thy ===== *)
theory Session_Channels
  imports Session_Agreement
begin

text \<open>
  The channels of an established session: the three records that bind a socket, the generations
  that tell a new socket's records from an old one's, and the session handed to a viewer, which
  answers every call as the one that ran the handshake.
\<close>

section \<open>One channel's state\<close>

lemma update_channel_sel [simp]:
  "ss_role (update_channel i f s) = ss_role s" "ss_state (update_channel i f s) = ss_state s"
  "ss_session_id (update_channel i f s) = ss_session_id s"
  "ss_negotiated (update_channel i f s) = ss_negotiated s"
  "ss_control_sequence (update_channel i f s) = ss_control_sequence s"
  "ss_handover_keys (update_channel i f s) = ss_handover_keys s"
  "ss_session_key (update_channel i f s) = ss_session_key s"
  "ss_transcript_hash (update_channel i f s) = ss_transcript_hash s"
  "ss_channels (update_channel i f s) = (ss_channels s)[i := f (ss_channels s ! i)]"
  by (simp_all add: update_channel_def)

lemma established_channel_key_update [simp]:
  "established_channel_key cr (update_channel i f s) j channel = established_channel_key cr s j channel"
  by (simp add: established_channel_key_def split: option.split)

lemma established_channel_key_sequence [simp]:
  "established_channel_key cr (s\<lparr>ss_control_sequence := n\<rparr>) j channel = established_channel_key cr s j channel"
  by (simp add: established_channel_key_def split: option.split)

section \<open>Binding a channel\<close>

text \<open>
  The exchange from a host's opening record on: the guest's acknowledgement with its proof, the
  host's proof, and the guest's verdict.
\<close>

definition channel_exchange ::
  "crypto \<Rightarrow> wire \<Rightarrow> bytes \<Rightarrow> session \<Rightarrow> record_msg \<Rightarrow> session
   \<Rightarrow> (SessionError, Event \<times> session \<times> Event \<times> session) outcome" where
  "channel_exchange cr w guest_nonce h hello g =
     (let (r1, g1) = handle cr w guest_nonce g (rec_header hello) (rec_payload hello) in
      obind r1 (\<lambda>out1.
      obind (expect (out_reply out1)) (\<lambda>ack.
      let (r2, h1) = deliver cr w h ack in
      obind r2 (\<lambda>out2.
      obind (expect (out_reply out2)) (\<lambda>auth.
      let (r3, g2) = deliver cr w g1 auth in
      obind r3 (\<lambda>out3. Ok (out_event out2, h1, out_event out3, g2)))))))"

lemma channel_binds:
  fixes cr w channel key host_nonce guest_nonce
  assumes opened: "channel_hello_record cr w host_nonce h channel = (Ok hello, h1)"
    and host: "ss_state h = Established" "length (ss_channels h) = 4"
    and guest: "ss_state g = Established" "length (ss_channels g) = 4" "ss_session_id g = ss_session_id h"
    and i: "channel_index channel = Ok i"
    and keys: "established_channel_key cr h i channel = Ok key" "established_channel_key cr g i channel = Ok key"
    and widths: "length (ss_session_id h) = SESSION_ID_LEN" "length host_nonce = NONCE_LEN"
      "length guest_nonce = NONCE_LEN"
      "\<And>role. length (channel_tag cr key role channel host_nonce guest_nonce) = TAG_LEN"
    and wire: "decodes (enc_channel_hello w) (dec_channel_hello w)
        \<lparr>chh_session_id = ss_session_id h, chh_channel = unat (channel_as_wire channel),
         chh_generation = generation h channel, chh_nonce = host_nonce\<rparr>"
      "decodes (enc_channel_ack w) (dec_channel_ack w) \<lparr>ack_nonce = guest_nonce,
         ack_tag = channel_tag cr key Guest channel host_nonce guest_nonce\<rparr>"
      "decodes (enc_auth w) (dec_auth w) (channel_tag cr key Host channel host_nonce guest_nonce)"
  shows "\<exists>h2 g2. channel_exchange cr w guest_nonce h1 hello g =
      Ok (ChannelBound channel, h2, ChannelBound channel, g2) \<and>
    bound_channel_key h2 channel = Some key \<and> bound_channel_key g2 channel = Some key \<and>
    generation h2 channel = generation h channel \<and> generation g2 channel = generation h channel"
proof -
  have "i < 4" "channel \<noteq> ChControl" using channel_index_bound [OF i] i by auto
  then show ?thesis
    using assms
    by (auto simp: channel_exchange_def channel_hello_record_def channel_record_def deliver_def handle_def
        record_new_def header_for_payload_def on_channel_hello_def on_channel_ack_def on_channel_auth_def
        message_types from_wire verify_tag_def decodes_def Let_def
        bound_channel_key_def generation_def split: if_splits)
qed

section \<open>The sockets of one channel\<close>

lemma session_accept_Ok:
  "session_accept s h = Ok () \<longleftrightarrow> hd_channel h = ChControl \<or> hd_generation h = generation s (hd_channel h)"
  by (cases "hd_channel h") (auto simp: session_accept_def generation_def Let_def)

lemma session_accept_Err:
  "session_accept s h = Err err \<longleftrightarrow> hd_channel h \<noteq> ChControl \<and> hd_generation h \<noteq> generation s (hd_channel h) \<and>
     err = SStaleGeneration (hd_channel h) (generation s (hd_channel h)) (hd_generation h)"
  by (cases "hd_channel h") (auto simp: session_accept_def generation_def Let_def)

lemma reconnect_generation:
  assumes "length (ss_channels s) = 4" "channel \<noteq> ChControl" "ss_role s = Host" "ss_negotiated s \<noteq> None"
  shows "\<exists>m s'. reconnect_channel cr w nonce s channel = (Ok m, s') \<and>
    generation s' channel = generation s channel + 1 \<and> hd_generation (rec_header m) = generation s' channel \<and>
    hd_sequence (rec_header m) = 0 \<and> hd_channel (rec_header m) = channel \<and>
    (\<forall>other. other \<noteq> channel \<longrightarrow> generation s' other = generation s other) \<and>
    length (ss_channels s') = 4 \<and> ss_role s' = Host \<and> ss_negotiated s' = ss_negotiated s"
proof -
  obtain i where i: "channel_index channel = Ok i" using assms(2) channel_index_Ok_iff by blast
  have "i < 4" using channel_index_bound [OF i] .
  have other: "channel_index other = Ok j \<Longrightarrow> other \<noteq> channel \<Longrightarrow> j \<noteq> i" for other j
    using channel_index_inject [OF i] by blast
  show ?thesis
    using assms i \<open>i < 4\<close>
    by (auto simp: reconnect_channel_def channel_hello_record_def channel_record_def record_new_def
        header_for_payload_def generation_def Let_def dest: other split: outcome.split)
qed

text \<open>A channel reconnected \<open>n\<close> times, every socket with a fresh nonce.\<close>

fun reconnects :: "crypto \<Rightarrow> wire \<Rightarrow> bytes list \<Rightarrow> session \<Rightarrow> Channel \<Rightarrow> session" where
  "reconnects cr w [] s channel = s"
| "reconnects cr w (nonce # nonces) s channel =
     reconnects cr w nonces (snd (reconnect_channel cr w nonce s channel)) channel"

lemma reconnects_generation:
  assumes "length (ss_channels s) = 4" "channel \<noteq> ChControl" "ss_role s = Host" "ss_negotiated s \<noteq> None"
  shows "generation (reconnects cr w nonces s channel) channel = generation s channel + of_nat (length nonces)"
  using assms
proof (induction nonces arbitrary: s)
  case (Cons nonce nonces)
  obtain m s' where "reconnect_channel cr w nonce s channel = (Ok m, s')"
    "generation s' channel = generation s channel + 1" "length (ss_channels s') = 4" "ss_role s' = Host"
    "ss_negotiated s' = ss_negotiated s"
    using reconnect_generation [OF Cons.prems, of cr w nonce] by blast
  then show ?case using Cons.IH [of s'] Cons.prems by simp
qed simp

lemma u32_of_nat_eq_0_iff: "(of_nat n :: u32) = 0 \<longleftrightarrow> 2 ^ 32 dvd n"
  by (simp add: word_of_nat_eq_0_iff)

section \<open>A session handed over\<close>

text \<open>The calls the owner of an established session makes, and what each returns.\<close>

datatype session_call =
    CallHandle bytes header bytes
  | CallOpen bytes Channel
  | CallReconnect bytes Channel
  | CallAccept header
  | CallControlSequence
  | CallChannelSequence Channel
  | CallBoundKey Channel

datatype session_result =
    Handled "(SessionError, reply_outcome) outcome"
  | Opened "(SessionError, record_msg) outcome"
  | Accepted "(SessionError, unit) outcome"
  | ControlNumber u32
  | ChannelNumber "(SessionError, u32) outcome"
  | BoundKey "bytes option"

fun perform :: "crypto \<Rightarrow> wire \<Rightarrow> session \<Rightarrow> session_call \<Rightarrow> session_result \<times> session" where
  "perform cr w s (CallHandle random h payload) = map_prod Handled id (handle cr w random s h payload)"
| "perform cr w s (CallOpen nonce channel) = map_prod Opened id (open_channel cr w nonce s channel)"
| "perform cr w s (CallReconnect nonce channel) = map_prod Opened id (reconnect_channel cr w nonce s channel)"
| "perform cr w s (CallAccept h) = (Accepted (session_accept s h), s)"
| "perform cr w s CallControlSequence = map_prod ControlNumber id (take_control_sequence s)"
| "perform cr w s (CallChannelSequence channel) = map_prod ChannelNumber id (take_channel_sequence s channel)"
| "perform cr w s (CallBoundKey channel) = (BoundKey (bound_channel_key s channel), s)"

fun perform_all :: "crypto \<Rightarrow> wire \<Rightarrow> session \<Rightarrow> session_call list \<Rightarrow> session_result list" where
  "perform_all cr w s [] = []"
| "perform_all cr w s (call # calls) =
     (let (result, s') = perform cr w s call in result # perform_all cr w s' calls)"

text \<open>What the process that ran the handshake passes to the viewer.\<close>

definition hand_over :: "crypto \<Rightarrow> session \<Rightarrow> handed_over option" where
  "hand_over cr s =
     (case (ss_negotiated s, derive_channel_key cr s ChFrame, derive_channel_key cr s ChInput,
            derive_channel_key cr s ChClipboard, derive_channel_key cr s ChAudio) of
        (Some n, Some frame, Some input, Some clipboard, Some audio) \<Rightarrow>
          Some \<lparr>ho_session_id = ss_session_id s, ho_negotiated = n, ho_frame_key = frame,
            ho_input_key = input, ho_clipboard_key = clipboard, ho_audio_key = audio,
            ho_control_sequence = ss_control_sequence s\<rparr>
      | _ \<Rightarrow> None)"

definition alike :: "crypto \<Rightarrow> session \<Rightarrow> session \<Rightarrow> bool" where
  "alike cr s v \<longleftrightarrow> ss_state s = Established \<and> ss_state v = Established \<and> ss_role v = ss_role s \<and>
     ss_session_id v = ss_session_id s \<and> ss_negotiated v = ss_negotiated s \<and>
     ss_control_sequence v = ss_control_sequence s \<and> ss_channels v = ss_channels s \<and>
     (\<forall>channel i. channel_index channel = Ok i \<longrightarrow>
        established_channel_key cr v i channel = established_channel_key cr s i channel)"

definition same_result :: "crypto \<Rightarrow> 'r \<times> session \<Rightarrow> 'r \<times> session \<Rightarrow> bool" where
  "same_result cr p q \<longleftrightarrow> fst p = fst q \<and> alike cr (snd p) (snd q)"

lemma alike_update: "alike cr s v \<Longrightarrow> alike cr (update_channel i f s) (update_channel i f v)"
  by (simp add: alike_def)

lemma same_result_attempt:
  assumes "alike cr s v" "\<And>x. m = Ok x \<Longrightarrow> same_result cr (f x) (g x)"
  shows "same_result cr (attempt m s f) (attempt m v g)"
  using assms by (cases m) (auto simp: same_result_def)

lemma alike_key: "alike cr s v \<Longrightarrow> channel_index channel = Ok i \<Longrightarrow>
    established_channel_key cr v i channel = established_channel_key cr s i channel"
  by (simp add: alike_def)

lemma alike_sel:
  assumes "alike cr s v"
  shows "ss_session_id v = ss_session_id s" "ss_channels v = ss_channels s"
    "ss_negotiated v = ss_negotiated s" "ss_role v = ss_role s"
    "ss_control_sequence v = ss_control_sequence s"
    "ss_state v = Established" "ss_state s = Established"
  using assms by (simp_all add: alike_def)

lemma same_on_channel_hello:
  assumes "alike cr s v"
  shows "same_result cr (on_channel_hello cr w nonce s channel payload) (on_channel_hello cr w nonce v channel payload)"
  unfolding on_channel_hello_def
  by (intro same_result_attempt [OF assms])
     (auto simp: alike_sel [OF assms] alike_key [OF assms] same_result_def [of _ "(_, _)" "(_, _)"] assms
       Let_def channel_record_def intro!: same_result_attempt [OF assms] alike_update)

lemma same_on_channel_ack:
  assumes "alike cr s v"
  shows "same_result cr (on_channel_ack cr w s channel payload) (on_channel_ack cr w v channel payload)"
  unfolding on_channel_ack_def
  by (intro same_result_attempt [OF assms])
     (auto simp: alike_sel [OF assms] alike_key [OF assms] same_result_def [of _ "(_, _)" "(_, _)"] assms
       Let_def channel_record_def intro!: same_result_attempt [OF assms] alike_update)

lemma same_on_channel_auth:
  assumes "alike cr s v"
  shows "same_result cr (on_channel_auth cr w s channel payload) (on_channel_auth cr w v channel payload)"
  unfolding on_channel_auth_def
  by (intro same_result_attempt [OF assms])
     (auto simp: alike_sel [OF assms] alike_key [OF assms] same_result_def [of _ "(_, _)" "(_, _)"] assms
       intro!: same_result_attempt [OF assms] alike_update)

lemma same_handle:
  assumes "alike cr s v"
  shows "same_result cr (handle cr w random s h payload) (handle cr w random v h payload)"
  using same_on_channel_hello [OF assms] same_on_channel_ack [OF assms] same_on_channel_auth [OF assms] assms
  by (simp add: handle_def Let_def alike_sel [OF assms] same_result_def)

lemma same_channel_hello_record:
  assumes "alike cr s v"
  shows "same_result cr (channel_hello_record cr w nonce s channel) (channel_hello_record cr w nonce v channel)"
  unfolding channel_hello_record_def
  by (intro same_result_attempt [OF assms])
     (auto simp: alike_sel [OF assms] same_result_def assms Let_def channel_record_def intro!: alike_update)

lemma same_reconnect_channel:
  assumes "alike cr s v"
  shows "same_result cr (reconnect_channel cr w nonce s channel) (reconnect_channel cr w nonce v channel)"
  unfolding reconnect_channel_def
  by (intro same_result_attempt [OF assms] same_channel_hello_record alike_update assms)

lemma same_take_channel_sequence:
  assumes "alike cr s v"
  shows "same_result cr (take_channel_sequence s channel) (take_channel_sequence v channel)"
  unfolding take_channel_sequence_def
  by (intro same_result_attempt [OF assms])
     (simp add: same_result_def alike_sel [OF assms] alike_update [OF assms])

lemma same_take_control_sequence:
  assumes "alike cr s v"
  shows "same_result cr (take_control_sequence s) (take_control_sequence v)"
  using assms by (simp add: same_result_def take_control_sequence_def alike_def)

lemma same_result_map_prod: "same_result cr p q \<Longrightarrow> same_result cr (map_prod f id p) (map_prod f id q)"
  by (simp add: same_result_def)

lemma same_perform:
  assumes "alike cr s v"
  shows "same_result cr (perform cr w s call) (perform cr w v call)"
  using assms
  by (cases call)
     (auto simp: open_channel_def same_result_def [of _ "(_, _)" "(_, _)"] session_accept_def
       bound_channel_key_def alike_sel [OF assms] split: outcome.split
       intro!: same_result_map_prod same_handle same_channel_hello_record same_reconnect_channel
         same_take_channel_sequence same_take_control_sequence)

lemma perform_all_alike: "alike cr s v \<Longrightarrow> perform_all cr w v calls = perform_all cr w s calls"
proof (induction calls arbitrary: s v)
  case (Cons call calls)
  from same_perform [OF Cons.prems, of w call] show ?case
    using Cons.IH by (auto simp: same_result_def split: prod.splits)
qed simp

lemma hand_over_alike:
  assumes "hand_over cr s = Some h" "ss_state s = Established" "ss_role s = Host"
    "ss_channels s = replicate 4 channel_state_default" "ss_handover_keys s = replicate 4 None"
  shows "alike cr s (established_host h)"
proof -
  have "established_channel_key cr (established_host h) i channel = established_channel_key cr s i channel"
    if "channel_index channel = Ok i" for channel i
    using assms that
    by (cases channel)
       (auto simp: hand_over_def derive_channel_key_def established_channel_key_def established_host_def
         split: option.splits)
  then show ?thesis
    using assms by (auto simp: alike_def hand_over_def established_host_def split: option.splits)
qed

section \<open>An acknowledgement sent back to its sender\<close>

text \<open>
  \<open>handle\<close> does not ask which role a session plays, so an established guest takes a
  \<open>ChannelAck\<close> as well, and the one it has just sent carries the tag it expects.
\<close>

lemma reflected_acknowledgement:
  assumes guest: "ss_state g = Established" "length (ss_channels g) = 4"
    and i: "channel_index channel = Ok i" and key: "established_channel_key cr g i channel = Ok key"
    and header: "hd_channel h = channel" "hd_message_type h = CHANNEL_HELLO"
    and hello: "dec_channel_hello w payload = Some \<lparr>chh_session_id = ss_session_id g,
        chh_channel = unat (channel_as_wire channel), chh_generation = n, chh_nonce = host_nonce\<rparr>"
    and widths: "length (ss_session_id g) = SESSION_ID_LEN" "length host_nonce = NONCE_LEN"
      "length guest_nonce = NONCE_LEN"
      "length (channel_tag cr key Guest channel host_nonce guest_nonce) = TAG_LEN"
    and wire: "decodes (enc_channel_ack w) (dec_channel_ack w) \<lparr>ack_nonce = guest_nonce,
         ack_tag = channel_tag cr key Guest channel host_nonce guest_nonce\<rparr>"
  shows "\<exists>out g1 ack out' g2. handle cr w guest_nonce g h payload = (Ok out, g1) \<and> out_reply out = Some ack \<and>
    deliver cr w g1 ack = (Ok out', g2) \<and> out_event out' = ChannelBound channel"
proof -
  have "i < 4" "channel \<noteq> ChControl" using channel_index_bound [OF i] i by auto
  then show ?thesis
    using assms
    by (simp add: handle_def on_channel_hello_def channel_record_def record_new_def
        header_for_payload_def deliver_def on_channel_ack_def message_types from_wire decodes_def
        verify_tag_def Let_def)
qed

end
