(* ===== verification/Channel_Bind.thy ===== *)
theory Channel_Bind
  imports Session_Channels
begin

text \<open>
  The guest half of a channel's binding from the side that holds only the channel key
  (\<open>display-services/src/channel.rs\<close>): one function over a socket, with the records of
  \<open>Wire_Record\<close> under it and the host half of \<open>Display_Session\<close> at the other end.
\<close>

section \<open>Definitions\<close>

text \<open>A socket: what it will deliver, and what it took.\<close>

record duplex =
  dx_reader :: reader
  dx_sink :: sink

datatype BindError = WrongSession | BindStaleGeneration | BindBadTag | BindRecord RecordError | BindMalformed

definition handshake_limits :: limits where
  "handshake_limits = limits_new 0 0"

text \<open>A record operation on the socket, its error converted by \<open>?\<close>.\<close>

definition dx_read ::
  "(bytes \<Rightarrow> u32) \<Rightarrow> limits \<Rightarrow> duplex \<Rightarrow> (BindError, header \<times> bytes) outcome \<times> duplex" where
  "dx_read crc l d =
     (let (out, r) = record_read crc l (dx_reader d) in (map_err BindRecord out, d\<lparr>dx_reader := r\<rparr>))"

definition dx_write ::
  "record_msg \<Rightarrow> limits \<Rightarrow> duplex \<Rightarrow> (BindError, unit) outcome \<times> duplex" where
  "dx_write m l d =
     (let (out, s) = record_write m l (dx_sink d) in (map_err BindRecord out, d\<lparr>dx_sink := s\<rparr>))"

fun dx_then ::
  "('e, 'a) outcome \<times> duplex \<Rightarrow> ('a \<Rightarrow> duplex \<Rightarrow> ('e, 'b) outcome \<times> duplex)
   \<Rightarrow> ('e, 'b) outcome \<times> duplex" where
  "dx_then (Ok x, d) f = f x d"
| "dx_then (Err err, d) f = (Err err, d)"
| "dx_then (Panic, d) f = (Panic, d)"

definition bind_nonce :: "bytes \<Rightarrow> (BindError, bytes) outcome" where
  "bind_nonce bs = (if length bs = NONCE_LEN then Ok bs else Err BindMalformed)"

definition bind ::
  "crypto \<Rightarrow> wire \<Rightarrow> bytes \<Rightarrow> duplex \<Rightarrow> Channel \<Rightarrow> bytes \<Rightarrow> bytes \<Rightarrow> u32 option
   \<Rightarrow> (BindError, u32) outcome \<times> duplex" where
  "bind cr w guest_nonce stream channel key session_id last_generation =
     dx_then (dx_read (crc32c cr) handshake_limits stream) (\<lambda>(header, payload) d1.
     if hd_channel header \<noteq> channel \<or> hd_message_type header \<noteq> CHANNEL_HELLO
       then (Err BindMalformed, d1)
     else dx_then (ok_or (dec_channel_hello w payload) BindMalformed, d1) (\<lambda>hello _.
     if length (chh_session_id hello) \<noteq> SESSION_ID_LEN \<or> chh_session_id hello \<noteq> session_id
       then (Err WrongSession, d1)
     else if chh_channel hello \<noteq> unat (channel_as_wire channel) then (Err BindMalformed, d1)
     else if (case last_generation of None \<Rightarrow> False | Some latest \<Rightarrow> chh_generation hello \<le> latest)
       then (Err BindStaleGeneration, d1)
     else dx_then (bind_nonce (chh_nonce hello), d1) (\<lambda>host_nonce _.
     dx_then (dx_write (record_new (crc32c cr) channel CHANNEL_ACK 1 0 (chh_generation hello)
         (enc_channel_ack w \<lparr>ack_nonce = guest_nonce,
            ack_tag = channel_tag cr key Guest channel host_nonce guest_nonce\<rparr>))
         handshake_limits d1) (\<lambda>_ d2.
     dx_then (dx_read (crc32c cr) handshake_limits d2) (\<lambda>(header, payload) d3.
     if hd_channel header \<noteq> channel \<or> hd_message_type header \<noteq> CHANNEL_AUTH
       then (Err BindMalformed, d3)
     else dx_then (ok_or (dec_auth w payload) BindMalformed, d3) (\<lambda>tag _.
     dx_then (map_err (\<lambda>_. BindMalformed) (display_tag_from_wire tag), d3) (\<lambda>offered _.
     if \<not> verify_tag (channel_tag cr key Host channel host_nonce guest_nonce) offered
       then (Err BindBadTag, d3)
     else (Ok (chh_generation hello), d3))))))))"

section \<open>What a bound socket has shown\<close>

lemma dx_then_Ok:
  "dx_then m f = (Ok y, d') \<longleftrightarrow> (\<exists>x d. m = (Ok x, d) \<and> f x d = (Ok y, d'))"
  by (cases "(m, f)" rule: dx_then.cases) auto

lemma dx_then_Panic:
  "dx_then m f = (Panic, d') \<longleftrightarrow> m = (Panic, d') \<or> (\<exists>x d. m = (Ok x, d) \<and> f x d = (Panic, d'))"
  by (cases "(m, f)" rule: dx_then.cases) auto

lemma dx_read_Ok:
  "dx_read crc l d = (Ok x, d') \<longleftrightarrow>
     (\<exists>r. record_read crc l (dx_reader d) = (Ok x, r) \<and> d' = d\<lparr>dx_reader := r\<rparr>)"
  by (auto simp: dx_read_def split: prod.splits)

lemma dx_write_Ok:
  "dx_write m l d = (Ok x, d') \<longleftrightarrow>
     (\<exists>s. record_write m l (dx_sink d) = (Ok x, s) \<and> d' = d\<lparr>dx_sink := s\<rparr>)"
  by (auto simp: dx_write_def split: prod.splits)

lemma dx_read_not_Panic: "dx_read crc l d \<noteq> (Panic, d')"
  using record_read_not_Panic by (auto simp: dx_read_def split: prod.splits)

lemma dx_write_not_Panic: "dx_write m l d \<noteq> (Panic, d')"
  using write_payload_not_Panic by (auto simp: dx_write_def record_write_def split: prod.splits)

lemma bind_not_Panic: "bind cr w guest_nonce d channel key session_id latest \<noteq> (Panic, d')"
  by (auto simp: bind_def dx_then_Panic dx_read_not_Panic dx_write_not_Panic no_panic bind_nonce_def
      split: if_splits prod.splits)

text \<open>
  A bound socket has shown the host's proof over the nonce this guest has just drawn, named this
  session and this channel, and moved past the generation the channel was last on.
\<close>

lemma bind_Ok:
  assumes "bind cr w guest_nonce d channel key session_id last_generation = (Ok g, d')"
  shows "\<exists>h payload hello r h' payload' r'.
    record_read (crc32c cr) handshake_limits (dx_reader d) = (Ok (h, payload), r) \<and>
    hd_channel h = channel \<and> hd_message_type h = CHANNEL_HELLO \<and>
    dec_channel_hello w payload = Some hello \<and> chh_session_id hello = session_id \<and>
    chh_channel hello = unat (channel_as_wire channel) \<and> chh_generation hello = g \<and>
    (\<forall>previous. last_generation = Some previous \<longrightarrow> previous < g) \<and>
    length (chh_nonce hello) = NONCE_LEN \<and>
    record_read (crc32c cr) handshake_limits r = (Ok (h', payload'), r') \<and>
    hd_channel h' = channel \<and> hd_message_type h' = CHANNEL_AUTH \<and>
    dec_auth w payload' = Some (channel_tag cr key Host channel (chh_nonce hello) guest_nonce)"
  using assms
  by (auto simp: bind_def dx_then_Ok dx_read_Ok dx_write_Ok bind_nonce_def from_wire verify_tag_def
      not_le split: if_splits option.splits prod.splits)

section \<open>A host's session on the other end\<close>

definition record_bytes :: "record_msg \<Rightarrow> bytes" where
  "record_bytes m = header_encode (rec_header m) @ rec_payload m"

text \<open>Every channel's cap leaves room for the records of a binding.\<close>

lemma handshake_limits_room: "INPUT_MAX_PAYLOAD \<le> for_channel handshake_limits channel"
  by (cases channel) (simp_all add: handshake_limits_def limits_new_def set_geometry_def
      INPUT_MAX_PAYLOAD_def CONTROL_MAX_PAYLOAD_def CLIPBOARD_MAX_PAYLOAD_def AUDIO_MAX_PAYLOAD_def
      FRAME_PAYLOAD_CEILING_def FRAME_PAYLOAD_SLACK_def)

lemma record_read_back:
  assumes "prompt {Interrupted} r (record_bytes (record_new crc c t s b g payload) @ rest)"
    and "length payload \<le> INPUT_MAX_PAYLOAD"
  shows "\<exists>r'. record_read crc handshake_limits r = (Ok (header_for_payload crc c t s b g payload, payload), r') \<and>
    prompt {Interrupted} r' rest"
proof (rule record_read_prompt [of _ _ _ "[]"])
  let ?h = "header_for_payload crc c t s b g payload"
  show "prompt {Interrupted} r (extended_header ?h [] @ [] @ payload @ rest)"
    using assms(1) by (simp add: record_bytes_def record_new_def extended_header_nil)
  have "stream_bytes (rd_events r) \<noteq> []"
    using assms(1) length_header_encode [of ?h]
    by (auto simp: prompt_def record_bytes_def record_new_def simp del: length_header_encode)
  then show "begun (rd_events r)" using assms(1) by (intro begun_steady) (auto simp: prompt_def)
  have "length payload \<le> u32_max" using assms(2) by (simp add: INPUT_MAX_PAYLOAD_def)
  then show "unat (hd_length ?h) = length payload" by (rule header_length_exact)
  show "length payload \<le> for_channel handshake_limits (hd_channel ?h)"
    using assms(2) handshake_limits_room order_trans by blast
qed (simp_all add: header_for_payload_def)

lemma record_write_through:
  assumes "sink_script s = []" "length payload \<le> INPUT_MAX_PAYLOAD"
  shows "record_write (record_new crc c t n b g payload) handshake_limits s =
    (Ok (), s\<lparr>sink_taken := sink_taken s @ record_bytes (record_new crc c t n b g payload)\<rparr>)"
proof -
  let ?h = "header_for_payload crc c t n b g payload"
  have "length payload \<le> u32_max" using assms(2) by (simp add: INPUT_MAX_PAYLOAD_def)
  then have "unat (hd_length ?h) = length payload" by (rule header_length_exact)
  then have "unat (hd_length ?h) \<le> for_channel handshake_limits (hd_channel ?h)"
    using assms(2) handshake_limits_room order_trans by metis
  then show ?thesis
    using assms(1) by (simp add: record_write_def write_payload_def record_new_def record_bytes_def
        flush_def Let_def)
qed

text \<open>
  A host's session and this function, on a transport that cuts the bytes wherever it likes: the
  acknowledgement written is the one the host answers, and the answer binds the socket on the
  generation the host asked for.
\<close>

lemma bind_host_session:
  fixes cr w channel key host_nonce guest_nonce h
  defines "hello \<equiv> \<lparr>chh_session_id = ss_session_id h, chh_channel = unat (channel_as_wire channel),
       chh_generation = generation h channel, chh_nonce = host_nonce\<rparr>"
    and "ack \<equiv> \<lparr>ack_nonce = guest_nonce, ack_tag = channel_tag cr key Guest channel host_nonce guest_nonce\<rparr>"
    and "tag \<equiv> channel_tag cr key Host channel host_nonce guest_nonce"
  defines "ack_record \<equiv> record_new (crc32c cr) channel CHANNEL_ACK 1 0 (generation h channel) (enc_channel_ack w ack)"
  assumes opened: "channel_hello_record cr w host_nonce h channel = (Ok hello_record, h1)"
    and answered: "deliver cr w h1 ack_record = (Ok out, h2)" "out_reply out = Some auth_record"
    and host: "length (ss_channels h) = 4" "ss_state h = Established"
    and i: "channel_index channel = Ok i" and key: "established_channel_key cr h i channel = Ok key"
    and widths: "length (ss_session_id h) = SESSION_ID_LEN" "length host_nonce = NONCE_LEN"
      "length tag = TAG_LEN"
    and wire: "decodes (enc_channel_hello w) (dec_channel_hello w) hello"
      "decodes (enc_channel_ack w) (dec_channel_ack w) ack" "decodes (enc_auth w) (dec_auth w) tag"
    and caps: "length (enc_channel_hello w hello) \<le> INPUT_MAX_PAYLOAD"
      "length (enc_channel_ack w ack) \<le> INPUT_MAX_PAYLOAD" "length (enc_auth w tag) \<le> INPUT_MAX_PAYLOAD"
    and socket: "prompt {Interrupted} (dx_reader d) (record_bytes hello_record @ record_bytes auth_record)"
      "sink_script (dx_sink d) = []"
    and fresh: "\<And>previous. last_generation = Some previous \<Longrightarrow> previous < generation h channel"
  shows "\<exists>d'. bind cr w guest_nonce d channel key (ss_session_id h) last_generation =
      (Ok (generation h channel), d') \<and>
    sink_taken (dx_sink d') = sink_taken (dx_sink d) @ record_bytes ack_record \<and>
    out_event out = ChannelBound channel"
proof -
  have "i < 4" "channel \<noteq> ChControl" using channel_index_bound [OF i] i by auto
  then have hello_record: "hello_record = record_new (crc32c cr) channel CHANNEL_HELLO
      (cs_sequence (ss_channels h ! i)) 0 (generation h channel) (enc_channel_hello w hello)"
    and h1: "ss_state h1 = Established" "cs_host_nonce (ss_channels h1 ! i) = Some host_nonce"
      "established_channel_key cr h1 i channel = Ok key"
    using opened i key host
    by (auto simp: channel_hello_record_def channel_record_def hello_def generation_def Let_def
        split: if_splits)
  have event: "out_event out = ChannelBound channel"
    and auth: "\<exists>n g. auth_record = record_new (crc32c cr) channel CHANNEL_AUTH n 0 g (enc_auth w tag)"
    using answered h1 i wire(2) \<open>channel \<noteq> ChControl\<close>
    by (auto simp: deliver_def handle_def ack_record_def ack_def tag_def record_new_def
        header_for_payload_def message_types on_channel_ack_def attempt_Ok_iff decodes_def
        channel_record_def from_wire Let_def split: if_splits)
  obtain n g where auth_record: "auth_record = record_new (crc32c cr) channel CHANNEL_AUTH n 0 g (enc_auth w tag)"
    using auth by blast
  obtain r1 where r1: "record_read (crc32c cr) handshake_limits (dx_reader d) =
      (Ok (rec_header hello_record, enc_channel_hello w hello), r1)"
    "prompt {Interrupted} r1 (record_bytes auth_record)"
    using record_read_back [OF socket(1) [unfolded hello_record] caps(1)]
    by (auto simp: hello_record record_new_def)
  obtain r2 where r2: "record_read (crc32c cr) handshake_limits r1 =
      (Ok (rec_header auth_record, enc_auth w tag), r2)"
    using record_read_back [of r1 "crc32c cr" channel CHANNEL_AUTH n 0 g "enc_auth w tag" "[]"] r1(2) caps(3)
    by (auto simp: auth_record record_new_def)
  have written: "record_write ack_record handshake_limits (dx_sink d) =
      (Ok (), (dx_sink d)\<lparr>sink_taken := sink_taken (dx_sink d) @ record_bytes ack_record\<rparr>)"
    unfolding ack_record_def by (rule record_write_through [OF socket(2) caps(2)])
  show ?thesis
    using r1(1) r2 written widths wire fresh event
    by (auto simp: bind_def dx_read_def dx_write_def hello_record auth_record record_new_def
        header_for_payload_def decodes_def bind_nonce_def from_wire verify_tag_def ack_record_def
        ack_def tag_def hello_def not_le split: option.split)
qed

end
