(* ===== verification/Text_Fields.thy ===== *)
theory Text_Fields
  imports Unicode_Text
begin

text \<open>
  Numbers and lines in text: what \<open>Display\<close> and \<open>FromStr\<close> of Rust's integers, \<open>str::lines\<close> and \<open>str::split_once\<close> do.
  Several small formats of the sources are written with these: the viewer's remembered window, the module's mode files.
\<close>

section \<open>Numbers\<close>

fun show_nat :: "nat \<Rightarrow> utext" where
  "show_nat n = (if n < 10 then [48 + n] else show_nat (n div 10) @ [48 + n mod 10])"

declare show_nat.simps [simp del]

definition show_int :: "int \<Rightarrow> utext" where
  "show_int i = (if i < 0 then 45 # show_nat (nat (- i)) else show_nat (nat i))"

definition is_digit :: "nat \<Rightarrow> bool" where
  "is_digit c \<longleftrightarrow> 48 \<le> c \<and> c \<le> 57"

text \<open>The digits, as long as the value stays below the bound: \<open>checked_mul\<close> and \<open>checked_add\<close> after each digit.\<close>

fun digits_value :: "nat \<Rightarrow> nat \<Rightarrow> utext \<Rightarrow> nat option" where
  "digits_value bound v [] = Some v"
| "digits_value bound v (c # cs) =
     (if is_digit c \<and> v * 10 + (c - 48) < bound then digits_value bound (v * 10 + (c - 48)) cs else None)"

text \<open>\<open>u32::from_str\<close> for \<open>bound\<close> \<open>2 ^ 32\<close>: a single plus may stand in front.\<close>

definition parse_unsigned :: "nat \<Rightarrow> utext \<Rightarrow> nat option" where
  "parse_unsigned bound t =
     (let ds = (case t of c # d # cs \<Rightarrow> if c = 43 then d # cs else t | _ \<Rightarrow> t) in
      if ds = [] then None else digits_value bound 0 ds)"

text \<open>\<open>i32::from_str\<close> for \<open>bound\<close> \<open>2 ^ 31\<close>: negative values reach one further.\<close>

definition parse_signed :: "nat \<Rightarrow> utext \<Rightarrow> int option" where
  "parse_signed bound t =
     (case t of
        c # d # cs \<Rightarrow>
          if c = 45 then map_option (\<lambda>n. - int n) (digits_value (bound + 1) 0 (d # cs))
          else map_option int (parse_unsigned bound t)
      | _ \<Rightarrow> map_option int (parse_unsigned bound t))"

lemma show_nat_digits: "c \<in> set (show_nat n) \<Longrightarrow> is_digit c"
  by (induction n rule: show_nat.induct) (subst (asm) (2) show_nat.simps, auto simp: is_digit_def split: if_splits)

lemma show_nat_nonempty [simp]: "show_nat n \<noteq> []"
  by (subst show_nat.simps) simp

lemma digits_value_append:
  "digits_value bound v (s @ t) = Option.bind (digits_value bound v s) (\<lambda>w. digits_value bound w t)"
  by (induction s arbitrary: v) auto

lemma digits_value_show: "n < bound \<Longrightarrow> digits_value bound 0 (show_nat n) = Some n"
proof (induction n rule: show_nat.induct)
  case (1 n)
  show ?case
  proof (cases "n < 10")
    case True
    then show ?thesis using 1 by (subst show_nat.simps) (simp add: is_digit_def)
  next
    case False
    then have "digits_value bound 0 (show_nat (n div 10)) = Some (n div 10)" using 1 by simp
    moreover have "is_digit (48 + n mod 10)" by (simp add: is_digit_def)
    ultimately show ?thesis using False 1
      by (subst show_nat.simps) (simp add: digits_value_append)
  qed
qed

lemma show_nat_head: "\<exists>c cs. show_nat n = c # cs \<and> is_digit c"
  using show_nat_digits [of "hd (show_nat n)" n] by (cases "show_nat n") auto

lemma parse_show_nat [simp]: "n < bound \<Longrightarrow> parse_unsigned bound (show_nat n) = Some n"
proof -
  assume n: "n < bound"
  obtain c cs where s: "show_nat n = c # cs" "is_digit c" using show_nat_head by blast
  then have "c \<noteq> 43" by (auto simp: is_digit_def)
  then show ?thesis using digits_value_show [OF n] s(1) by (cases cs) (simp_all add: parse_unsigned_def Let_def)
qed

lemma parse_show_int [simp]: "- int bound \<le> i \<Longrightarrow> i < int bound \<Longrightarrow> parse_signed bound (show_int i) = Some i"
proof -
  assume i: "- int bound \<le> i" "i < int bound"
  show ?thesis
  proof (cases "i < 0")
    case True
    obtain c cs where s: "show_nat (nat (- i)) = c # cs" using show_nat_head by blast
    have "nat (- i) < bound + 1" using i(1) by linarith
    from digits_value_show [OF this] show ?thesis using True s by (simp add: show_int_def parse_signed_def)
  next
    case False
    obtain c cs where s: "show_nat (nat i) = c # cs" "is_digit c" using show_nat_head by blast
    then have "c \<noteq> 45" by (auto simp: is_digit_def)
    moreover have "parse_unsigned bound (c # cs) = Some (nat i)" using parse_show_nat [of "nat i" bound] i False s(1) by simp
    ultimately show ?thesis using False s(1) by (cases cs) (simp_all add: show_int_def parse_signed_def)
  qed
qed

section \<open>Fields and lines\<close>

fun split_once :: "nat \<Rightarrow> utext \<Rightarrow> (utext \<times> utext) option" where
  "split_once sep [] = None"
| "split_once sep (c # t) = (if c = sep then Some ([], t) else map_option (\<lambda>(a, b). (c # a, b)) (split_once sep t))"

lemma split_once_append [simp]: "sep \<notin> set a \<Longrightarrow> split_once sep (a @ sep # b) = Some (a, b)"
  by (induction a) auto

text \<open>\<open>str::lines\<close>: a newline ends a line, a carriage return before it is dropped, and nothing follows the last newline.\<close>

definition strip_cr :: "utext \<Rightarrow> utext" where
  "strip_cr line = (if line \<noteq> [] \<and> last line = 13 then butlast line else line)"

definition text_lines :: "utext \<Rightarrow> utext list" where
  "text_lines t = (let pieces = split_at 10 t in
     map strip_cr (butlast pieces) @ (if last pieces = [] then [] else [last pieces]))"

definition unlines :: "utext list \<Rightarrow> utext" where
  "unlines ls = concat (map (\<lambda>l. l @ [10]) ls)"

definition plain_line :: "utext \<Rightarrow> bool" where
  "plain_line l \<longleftrightarrow> 10 \<notin> set l \<and> 13 \<notin> set l"

lemma text_lines_Cons: "plain_line l \<Longrightarrow> text_lines ((l @ [10]) @ t) = l # text_lines t"
proof -
  assume l: "plain_line l"
  have "strip_cr l = l" using l last_in_set [of l] by (cases "l = []") (auto simp: strip_cr_def plain_line_def simp del: last_in_set)
  then show ?thesis using l by (simp add: text_lines_def Let_def split_at_append plain_line_def)
qed

lemma text_lines_unlines: "list_all plain_line ls \<Longrightarrow> text_lines (unlines ls) = ls"
proof (induction ls)
  case (Cons l ls)
  then show ?case using text_lines_Cons [of l "unlines ls"] by (simp add: unlines_def)
qed (simp add: unlines_def text_lines_def)

lemma trim_plain: "t \<noteq> [] \<Longrightarrow> \<not> is_whitespace (hd t) \<Longrightarrow> \<not> is_whitespace (last t) \<Longrightarrow> trim t = t"
proof -
  assume t: "t \<noteq> []" "\<not> is_whitespace (hd t)" "\<not> is_whitespace (last t)"
  then have "dropWhile is_whitespace t = t" by (cases t) simp_all
  moreover have "dropWhile is_whitespace (rev t) = rev t" using t by (cases t rule: rev_cases) simp_all
  ultimately show ?thesis by (simp add: trim_def)
qed

lemma trim_white:
  assumes c: "is_whitespace c"
  shows "trim (c # t) = trim t" "trim (t @ [c]) = trim t"
proof -
  show "trim (c # t) = trim t" using c by (simp add: trim_def)
  have "dropWhile is_whitespace (rev (dropWhile is_whitespace (t @ [c]))) = dropWhile is_whitespace (rev (dropWhile is_whitespace t))"
  proof (cases "dropWhile is_whitespace t = []")
    case True
    then have "dropWhile is_whitespace (t @ [c]) = []" using c by (simp add: dropWhile_eq_Nil_conv)
    then show ?thesis unfolding True by simp
  next
    case False
    then have "dropWhile is_whitespace (t @ [c]) = dropWhile is_whitespace t @ [c]"
      by (metis dropWhile_append1 dropWhile_eq_Nil_conv)
    then show ?thesis using c by simp
  qed
  then show "trim (t @ [c]) = trim t" by (simp add: trim_def)
qed

lemma white_chars [simp]: "is_whitespace 32" "is_whitespace 10"
  by (simp_all add: is_whitespace_def)

lemma digit_not_white: "is_digit c \<Longrightarrow> \<not> is_whitespace c"
  by (auto simp: is_digit_def is_whitespace_def)

lemma trim_show_nat [simp]: "trim (show_nat n) = show_nat n"
  using show_nat_digits [of "hd (show_nat n)" n] show_nat_digits [of "last (show_nat n)" n]
  by (intro trim_plain) (auto dest: digit_not_white)

lemma trim_show_int [simp]: "trim (show_int i) = show_int i"
proof (cases "i < 0")
  case True
  have "\<not> is_whitespace (last (show_nat (nat (- i))))"
    using show_nat_digits [OF last_in_set [OF show_nat_nonempty]] digit_not_white by blast
  then show ?thesis using True by (intro trim_plain) (auto simp: show_int_def is_whitespace_def)
qed (simp add: show_int_def)

lemma plain_show: "plain_line (show_nat n)" "plain_line (show_int i)"
  by (auto simp: plain_line_def show_int_def is_digit_def dest!: show_nat_digits)

end
