(* ===== verification/Display_Modes.thy ===== *)
theory Display_Modes
  imports Text_Fields "HOL-Library.Product_Lexorder"
begin

text \<open>
  The modes of the display, from the host's monitor to the guest's connector: \<open>display_modes.rs\<close> and
  \<open>windows/display_modes.rs\<close> of the viewer, \<open>output.rs\<close> of the guest's services and \<open>HostModes\<close> of its broker.
  A list that the viewer publishes is shown to be one that the output takes.
\<close>

section \<open>The viewer's side\<close>

definition MIN_WIDTH :: nat where "MIN_WIDTH = 640"
definition MIN_HEIGHT :: nat where "MIN_HEIGHT = 480"
definition MAX_WIDTH :: nat where "MAX_WIDTH = 2560"
definition MAX_HEIGHT :: nat where "MAX_HEIGHT = 1440"
definition MAX_REFRESH_HZ :: nat where "MAX_REFRESH_HZ = 144"

text \<open>\<open>DisplayMode\<close> of the viewer; \<open>DisplayTiming\<close> of the protocol has the same three fields.\<close>

record display_mode =
  dm_width :: nat
  dm_height :: nat
  dm_refresh_hz :: nat

definition SAFE_MODE :: display_mode where
  "SAFE_MODE = \<lparr>dm_width = 1920, dm_height = 1080, dm_refresh_hz = 60\<rparr>"

definition display_mode_new :: "nat \<Rightarrow> nat \<Rightarrow> nat \<Rightarrow> display_mode option" where
  "display_mode_new width height refresh_hz =
     (if width < MIN_WIDTH \<or> width > MAX_WIDTH \<or> height < MIN_HEIGHT \<or> height > MAX_HEIGHT \<or>
         \<not> 8 dvd width \<or> \<not> 2 dvd height \<or> refresh_hz = 0 \<or> refresh_hz > MAX_REFRESH_HZ
      then None
      else Some \<lparr>dm_width = width, dm_height = height, dm_refresh_hz = refresh_hz\<rparr>)"

definition mode_key :: "display_mode \<Rightarrow> nat \<times> nat \<times> nat \<times> nat" where
  "mode_key m = (dm_width m * dm_height m, dm_width m, dm_height m, dm_refresh_hz m)"

text \<open>The keys of different modes differ, so an unstable sort has one result; \<open>dedup\<close> drops equal neighbours.\<close>

definition normalize_modes :: "(nat \<times> nat \<times> nat) list \<Rightarrow> display_mode list" where
  "normalize_modes raw = remdups_adj (sort_key mode_key (List.map_filter (\<lambda>(w, h, r). display_mode_new w h r) raw))"

text \<open>\<open>max_by_key\<close> keeps the later of two equal elements.\<close>

fun max_by_mode_key :: "display_mode list \<Rightarrow> display_mode option" where
  "max_by_mode_key [] = None"
| "max_by_mode_key (m # ms) =
     Some (fold (\<lambda>n best. if mode_key best \<le> mode_key n then n else best) ms m)"

definition fallback_mode :: "display_mode list \<Rightarrow> display_mode" where
  "fallback_mode modes =
     (if SAFE_MODE \<in> set modes then SAFE_MODE
      else case max_by_mode_key modes of Some m \<Rightarrow> m | None \<Rightarrow> SAFE_MODE)"

definition select_mode :: "display_mode option \<Rightarrow> display_mode list \<Rightarrow> display_mode" where
  "select_mode selected modes =
     (case selected of
        Some s \<Rightarrow> if s \<in> set modes then s else fallback_mode modes
      | None \<Rightarrow> fallback_mode modes)"

definition SC_MODE_FIRST :: nat where "SC_MODE_FIRST = 37120"
definition SC_MODE_STEP :: nat where "SC_MODE_STEP = 16"
definition MAX_MENU_MODES :: nat where "MAX_MENU_MODES = 32"

definition menu_command :: "nat \<Rightarrow> nat option" where
  "menu_command index = (if index < MAX_MENU_MODES then Some (SC_MODE_FIRST + index * SC_MODE_STEP) else None)"

definition menu_index :: "nat \<Rightarrow> nat option" where
  "menu_index command =
     (if command < SC_MODE_FIRST then None
      else let offset = command - SC_MODE_FIRST in
        if offset mod SC_MODE_STEP \<noteq> 0 then None
        else let index = offset div SC_MODE_STEP in
          if index < MAX_MENU_MODES then Some index else None)"

definition offered :: "display_mode list \<Rightarrow> display_mode option \<Rightarrow> display_mode list" where
  "offered modes keep =
     (if length modes \<le> MAX_MENU_MODES then modes
      else let top = drop (length modes - MAX_MENU_MODES) modes in
        case keep of
          None \<Rightarrow> top
        | Some k \<Rightarrow> if k \<in> set modes \<and> k \<notin> set top then sort_key mode_key (top[0 := k]) else top)"

text \<open>What one monitor reported, under the crate's policy.\<close>

record monitor_snapshot =
  ms_identity :: utext
  ms_current :: "display_mode option"
  ms_preferred :: "display_mode option"
  ms_modes :: "display_mode list"

definition monitor_snapshot_new ::
  "utext \<Rightarrow> (nat \<times> nat \<times> nat) option \<Rightarrow> (nat \<times> nat \<times> nat) option \<Rightarrow> (nat \<times> nat \<times> nat) list \<Rightarrow> monitor_snapshot" where
  "monitor_snapshot_new identity current preferred raw =
     (let modes = normalize_modes (raw @ (case preferred of None \<Rightarrow> [] | Some p \<Rightarrow> [p]));
          admitted = (\<lambda>(w, h, r). case display_mode_new w h r of
            None \<Rightarrow> None
          | Some m \<Rightarrow> if m \<in> set modes then Some m else None) in
      \<lparr>ms_identity = identity, ms_current = Option.bind current admitted,
       ms_preferred = Option.bind preferred admitted, ms_modes = modes\<rparr>)"

text \<open>The watch on the monitor; times are milliseconds.\<close>

definition DEBOUNCE :: nat where "DEBOUNCE = 250"

record monitor_watch =
  mw_pending :: "nat option"
  mw_sent :: "monitor_snapshot option"

definition monitor_watch_new :: monitor_watch where
  "monitor_watch_new = \<lparr>mw_pending = None, mw_sent = None\<rparr>"

definition monitor_observe :: "nat \<Rightarrow> monitor_watch \<Rightarrow> monitor_watch" where
  "monitor_observe now w = w\<lparr>mw_pending := Some (now + DEBOUNCE)\<rparr>"

definition monitor_due :: "nat \<Rightarrow> monitor_watch \<Rightarrow> bool \<times> monitor_watch" where
  "monitor_due now w =
     (case mw_pending w of
        None \<Rightarrow> (False, w)
      | Some deadline \<Rightarrow> if now < deadline then (False, w) else (True, w\<lparr>mw_pending := None\<rparr>))"

definition monitor_accept :: "monitor_snapshot \<Rightarrow> monitor_watch \<Rightarrow> bool \<times> monitor_watch" where
  "monitor_accept snapshot w =
     (if mw_sent w = Some snapshot then (False, w) else (True, w\<lparr>mw_sent := Some snapshot\<rparr>))"

definition monitor_forget :: "monitor_watch \<Rightarrow> monitor_watch" where
  "monitor_forget w = w\<lparr>mw_pending := None, mw_sent := None\<rparr>"

text \<open>
  A settled monitor becomes one order to the session: the choice, and the list that is cut to what the guest holds
  (the body of the loop in the viewer's \<open>main.rs\<close>). \<open>snapshot\<close> is what the system answers, if it does.
\<close>

definition monitor_turn ::
  "nat \<Rightarrow> monitor_snapshot option \<Rightarrow> display_mode option \<Rightarrow> monitor_watch
   \<Rightarrow> (display_mode list \<times> display_mode) option \<times> monitor_watch" where
  "monitor_turn now snapshot remembered w =
     (case monitor_due now w of
        (False, w1) \<Rightarrow> (None, w1)
      | (True, w1) \<Rightarrow>
          (case snapshot of
             None \<Rightarrow> (None, w1)
           | Some s \<Rightarrow>
               (case monitor_accept s w1 of
                  (False, w2) \<Rightarrow> (None, w2)
                | (True, w2) \<Rightarrow>
                    (let chosen = select_mode remembered (ms_modes s) in
                     (Some (offered (ms_modes s) (Some chosen), chosen), w2)))))"

section \<open>The guest's output\<close>

definition MAX_MODES :: nat where "MAX_MODES = 32"
definition MAX_MODES_BYTES :: nat where "MAX_MODES_BYTES = 512"

definition FALLBACK :: display_mode where
  "FALLBACK = \<lparr>dm_width = 1920, dm_height = 1080, dm_refresh_hz = 60\<rparr>"

text \<open>The bounds of \<open>output.rs\<close> are restated there with the values above.\<close>

definition output_admissible :: "nat \<Rightarrow> nat \<Rightarrow> (nat \<times> nat) option" where
  "output_admissible width height =
     (if width < MIN_WIDTH \<or> height < MIN_HEIGHT then None
      else let w = (min width MAX_WIDTH div 8) * 8; h = (min height MAX_HEIGHT div 2) * 2 in
        if w < MIN_WIDTH \<or> h < MIN_HEIGHT then None else Some (w, h))"

definition drivable :: "display_mode \<Rightarrow> bool" where
  "drivable m \<longleftrightarrow> output_admissible (dm_width m) (dm_height m) = Some (dm_width m, dm_height m) \<and>
     1 \<le> dm_refresh_hz m \<and> dm_refresh_hz m \<le> MAX_REFRESH_HZ"

text \<open>The letters \<open>x\<close>, \<open>@\<close> and the comma are code points 120, 64 and 44.\<close>

definition written :: "display_mode \<Rightarrow> utext" where
  "written m = show_nat (dm_width m) @ 120 # show_nat (dm_height m) @ 64 # show_nat (dm_refresh_hz m)"

definition parse_mode :: "utext \<Rightarrow> display_mode option" where
  "parse_mode contents =
     Option.bind (split_once 120 (trim contents)) (\<lambda>(width, rest).
     Option.bind (split_once 64 rest) (\<lambda>(height, refresh_hz).
     Option.bind (parse_unsigned (2 ^ 32) width) (\<lambda>w.
     Option.bind (parse_unsigned (2 ^ 32) height) (\<lambda>h.
     Option.bind (parse_unsigned (2 ^ 32) refresh_hz) (\<lambda>r.
     Some \<lparr>dm_width = w, dm_height = h, dm_refresh_hz = r\<rparr>)))))"

datatype list_refusal = NoModes | TooManyModes | OutsideMode | RepeatedMode | ListTooLong

text \<open>The loop of \<open>list\<close>: \<open>earlier\<close> are the modes already written, \<open>text\<close> what they became.\<close>

fun list_from :: "display_mode list \<Rightarrow> utext \<Rightarrow> display_mode list \<Rightarrow> (list_refusal, utext) outcome" where
  "list_from earlier text [] = Ok text"
| "list_from earlier text (m # ms) =
     (if \<not> drivable m then Err OutsideMode
      else if m \<in> set earlier then Err RepeatedMode
      else list_from (earlier @ [m]) (text @ (if earlier = [] then [] else [44]) @ written m) ms)"

definition mode_list :: "display_mode list \<Rightarrow> (list_refusal, utext) outcome" where
  "mode_list modes =
     (if modes = [] then Err NoModes
      else if length modes > MAX_MODES then Err TooManyModes
      else obind (list_from [] [] modes) (\<lambda>text.
        if utf8_len (text @ [10]) > MAX_MODES_BYTES then Err ListTooLong else Ok (text @ [10])))"

text \<open>What the broker remembers of the host's modes, beyond the session that published them.\<close>

record host_modes =
  hm_modes :: "display_mode list"
  hm_selected :: "display_mode option"

datatype mode_write = ListModes "display_mode list" | PreferredMode display_mode

definition host_modes_default :: host_modes where
  "host_modes_default = \<lparr>hm_modes = [], hm_selected = None\<rparr>"

definition publish_modes :: "display_mode list \<Rightarrow> display_mode option \<Rightarrow> host_modes \<Rightarrow> host_modes" where
  "publish_modes modes preferred s =
     (let chosen = (case preferred of Some p \<Rightarrow> Some p | None \<Rightarrow> hm_selected s);
          kept = (case chosen of Some m \<Rightarrow> if m \<in> set modes then Some m else None | None \<Rightarrow> None) in
      s\<lparr>hm_selected := kept, hm_modes := modes\<rparr>)"

definition select_host_mode :: "display_mode \<Rightarrow> host_modes \<Rightarrow> host_modes" where
  "select_host_mode m s = s\<lparr>hm_selected := Some m\<rparr>"

definition mode_writes :: "host_modes \<Rightarrow> mode_write list" where
  "mode_writes s =
     (if hm_modes s = [] then []
      else ListModes (hm_modes s) # (case hm_selected s of None \<Rightarrow> [] | Some m \<Rightarrow> [PreferredMode m]))"

section \<open>Modes and lists\<close>

lemmas mode_bounds = MIN_WIDTH_def MIN_HEIGHT_def MAX_WIDTH_def MAX_HEIGHT_def MAX_REFRESH_HZ_def

lemma mode_key_inj: "inj mode_key"
  by (rule injI) (simp add: mode_key_def)

lemma round_down_fixed:
  assumes "k dvd m"
  shows "min n m div k * k = n \<longleftrightarrow> n \<le> m \<and> k dvd (n :: nat)"
proof (cases "n \<le> m")
  case True
  then show ?thesis by (simp add: min_def) (metis dvd_div_mult_self dvd_triv_right)
qed (use assms in \<open>auto simp: min_def\<close>)

lemma output_admissible_fixed:
  "output_admissible w h = Some (w, h) \<longleftrightarrow>
     MIN_WIDTH \<le> w \<and> w \<le> MAX_WIDTH \<and> MIN_HEIGHT \<le> h \<and> h \<le> MAX_HEIGHT \<and> 8 dvd w \<and> 2 dvd h"
proof -
  have "min w MAX_WIDTH div 8 * 8 = w \<longleftrightarrow> w \<le> MAX_WIDTH \<and> 8 dvd w"
    by (rule round_down_fixed) (simp add: MAX_WIDTH_def)
  moreover have "min h MAX_HEIGHT div 2 * 2 = h \<longleftrightarrow> h \<le> MAX_HEIGHT \<and> 2 dvd h"
    by (rule round_down_fixed) (simp add: MAX_HEIGHT_def)
  ultimately show ?thesis unfolding output_admissible_def Let_def
    by (auto simp: not_less split: if_splits)
qed

text \<open>The viewer constructs exactly the modes that the output drives.\<close>

lemma display_mode_new_iff:
  "display_mode_new w h r = Some m \<longleftrightarrow>
     drivable m \<and> m = \<lparr>dm_width = w, dm_height = h, dm_refresh_hz = r\<rparr>"
  by (auto simp: display_mode_new_def drivable_def output_admissible_fixed split: if_splits)

lemma sorted_remdups_adj_distinct: "sorted xs \<Longrightarrow> distinct (remdups_adj (xs :: 'a :: linorder list))"
proof (induction xs rule: remdups_adj.induct)
  case (3 x y xs)
  then show ?case by (cases "x = y") (auto simp: less_le)
qed auto

lemma normalize_modes_set:
  "m \<in> set (normalize_modes raw) \<longleftrightarrow> drivable m \<and> (dm_width m, dm_height m, dm_refresh_hz m) \<in> set raw"
proof -
  have "m \<in> set (normalize_modes raw) \<longleftrightarrow> (\<exists>w h r. (w, h, r) \<in> set raw \<and> display_mode_new w h r = Some m)"
    by (force simp: normalize_modes_def map_filter_def)
  moreover have "m = \<lparr>dm_width = dm_width m, dm_height = dm_height m, dm_refresh_hz = dm_refresh_hz m\<rparr>" by simp
  ultimately show ?thesis unfolding display_mode_new_iff by (metis display_mode.select_convs)
qed

lemma normalize_modes_sorted: "sorted (map mode_key (normalize_modes raw))" "distinct (normalize_modes raw)"
proof -
  let ?s = "sort_key mode_key (List.map_filter (\<lambda>(w, h, r). display_mode_new w h r) raw)"
  have s: "map mode_key (normalize_modes raw) = remdups_adj (map mode_key ?s)"
    by (simp add: normalize_modes_def remdups_adj_map_injective mode_key_inj)
  show "sorted (map mode_key (normalize_modes raw))" unfolding s by (rule sorted_remdups_adj) simp
  have "distinct (map mode_key (normalize_modes raw))" unfolding s by (rule sorted_remdups_adj_distinct) simp
  then show "distinct (normalize_modes raw)" by (simp add: distinct_map)
qed

lemma max_by_mode_key_in: "modes \<noteq> [] \<Longrightarrow> \<exists>m \<in> set modes. max_by_mode_key modes = Some m"
proof (cases modes)
  case (Cons m ms)
  have "fold (\<lambda>n best. if mode_key best \<le> mode_key n then n else best) ms m \<in> insert m (set ms)"
    by (induction ms arbitrary: m) auto
  then show ?thesis using Cons by auto
qed simp

lemma select_mode_in: "modes \<noteq> [] \<Longrightarrow> select_mode selected modes \<in> set modes"
  using max_by_mode_key_in [of modes] by (auto simp: select_mode_def fallback_mode_def split: option.splits)

lemma select_mode_empty [simp]: "select_mode selected [] = SAFE_MODE"
  by (simp add: select_mode_def fallback_mode_def split: option.splits)

lemma offered_laws:
  assumes "distinct modes"
  shows "length (offered modes keep) \<le> MAX_MENU_MODES" "set (offered modes keep) \<subseteq> set modes"
    "distinct (offered modes keep)" "keep = Some k \<Longrightarrow> k \<in> set modes \<Longrightarrow> k \<in> set (offered modes keep)"
    "modes \<noteq> [] \<Longrightarrow> offered modes keep \<noteq> []"
proof -
  define top where "top = drop (length modes - MAX_MENU_MODES) modes"
  have top: "length modes > MAX_MENU_MODES \<Longrightarrow> length top = MAX_MENU_MODES" "set top \<subseteq> set modes" "distinct top"
    using assms by (auto simp: top_def dest: in_set_dropD)
  have pos: "MAX_MENU_MODES > 0" by (simp add: MAX_MENU_MODES_def)
  then show "keep = Some k \<Longrightarrow> k \<in> set modes \<Longrightarrow> k \<in> set (offered modes keep)"
    by (auto simp: offered_def Let_def set_update_memI split: option.splits)
  have "length modes > MAX_MENU_MODES \<Longrightarrow> length (offered modes keep) = MAX_MENU_MODES"
    by (auto simp: offered_def Let_def split: option.splits)
  then show "modes \<noteq> [] \<Longrightarrow> offered modes keep \<noteq> []"
    using pos by (cases "length modes \<le> MAX_MENU_MODES") (auto simp: offered_def)
  show "length (offered modes keep) \<le> MAX_MENU_MODES" by (auto simp: offered_def Let_def split: option.splits)
  have "set (top[0 := k]) \<subseteq> set modes" if "k \<in> set modes" for k
    using top(2) set_update_subset_insert [of top 0 k] that by blast
  then show "set (offered modes keep) \<subseteq> set modes"
    using top(2) by (cases keep) (simp_all add: offered_def Let_def top_def [symmetric])
  show "distinct (offered modes keep)" using assms top(3)
    by (auto simp: offered_def Let_def top_def [symmetric] distinct_list_update split: option.splits)
qed

lemma show_nat_width: "n < 10 ^ Suc k \<Longrightarrow> length (show_nat n) \<le> Suc k"
proof (induction k arbitrary: n)
  case 0
  then show ?case by (subst show_nat.simps) simp
next
  case (Suc k)
  then show ?case by (subst show_nat.simps) (auto simp: less_mult_imp_div_less)
qed

lemma written_length: "drivable m \<Longrightarrow> length (written m) \<le> 13"
proof -
  assume "drivable m"
  then have "dm_width m < 10 ^ Suc 3" "dm_height m < 10 ^ Suc 3" "dm_refresh_hz m < 10 ^ Suc 2"
    by (auto simp: drivable_def output_admissible_fixed mode_bounds)
  from this [THEN show_nat_width] show ?thesis by (simp add: written_def)
qed

lemma written_ascii: "c \<in> set (written m) \<Longrightarrow> c < 128"
  by (auto simp: written_def is_digit_def dest!: show_nat_digits)

lemma utf8_len_ascii: "\<forall>c \<in> set t. c < 128 \<Longrightarrow> utf8_len t = length t"
  by (induction t) (simp_all add: utf8_len_def utf8_width_def)

text \<open>
  A written list is refused for what it names, never for its length: thirty-two modes of thirteen characters leave
  room in the 512 bytes that the module reads.
\<close>

lemma list_from_Ok:
  assumes "list_all drivable ms" "distinct (earlier @ ms)" "\<forall>c \<in> set t. c < 128"
  shows "\<exists>u. list_from earlier t ms = Ok u \<and> length u \<le> length t + 14 * length ms \<and> (\<forall>c \<in> set u. c < 128)"
  using assms
proof (induction ms arbitrary: earlier t)
  case (Cons m ms)
  let ?t = "t @ (if earlier = [] then [] else [44]) @ written m"
  have "\<forall>c \<in> set ?t. c < 128" using Cons.prems(3) written_ascii by auto
  then obtain u where u: "list_from (earlier @ [m]) ?t ms = Ok u" "length u \<le> length ?t + 14 * length ms"
    "\<forall>c \<in> set u. c < 128"
    using Cons.IH [of "earlier @ [m]" ?t] Cons.prems by auto
  then have "list_from earlier t (m # ms) = Ok u" using Cons.prems by simp
  moreover have "length u \<le> length t + 14 * length (m # ms)"
    using u(2) written_length [of m] Cons.prems(1) by (simp split: if_splits)
  ultimately show ?case using u(3) by blast
qed simp

lemma list_from_refused:
  "list_from earlier t ms = Ok u \<Longrightarrow> distinct earlier \<Longrightarrow> list_all drivable ms \<and> distinct (earlier @ ms)"
proof (induction ms arbitrary: earlier t)
  case (Cons m ms)
  then have "drivable m" "m \<notin> set earlier"
    "list_from (earlier @ [m]) (t @ (if earlier = [] then [] else [44]) @ written m) ms = Ok u"
    by (simp_all split: if_splits)
  with Cons.IH [OF this(3)] Cons.prems(2) show ?case by auto
qed simp

lemma mode_list_iff:
  "(\<exists>t. mode_list ms = Ok t) \<longleftrightarrow> ms \<noteq> [] \<and> length ms \<le> MAX_MODES \<and> list_all drivable ms \<and> distinct ms"
proof
  assume "\<exists>t. mode_list ms = Ok t"
  then show "ms \<noteq> [] \<and> length ms \<le> MAX_MODES \<and> list_all drivable ms \<and> distinct ms"
    using list_from_refused [of "[]" "[]" ms]
    by (cases "list_from [] [] ms") (auto simp: mode_list_def split: if_splits)
next
  assume ms: "ms \<noteq> [] \<and> length ms \<le> MAX_MODES \<and> list_all drivable ms \<and> distinct ms"
  then obtain u where u: "list_from [] [] ms = Ok u" "length u \<le> 14 * length ms" "\<forall>c \<in> set u. c < 128"
    using list_from_Ok [of ms "[]" "[]"] by auto
  then have "utf8_len (u @ [10]) \<le> MAX_MODES_BYTES"
    using ms by (subst utf8_len_ascii) (auto simp: MAX_MODES_def MAX_MODES_BYTES_def)
  then show "\<exists>t. mode_list ms = Ok t" using ms u(1) by (simp add: mode_list_def)
qed

lemma menu_index_command: "menu_index c = Some i \<longleftrightarrow> menu_command i = Some c"
  by (auto simp: menu_index_def menu_command_def Let_def SC_MODE_FIRST_def SC_MODE_STEP_def MAX_MENU_MODES_def
      split: if_splits)

text \<open>What \<open>request\<close> writes to the parameter is what \<open>current\<close> reads from it.\<close>

lemma parse_written:
  assumes "dm_width m < 2 ^ 32" "dm_height m < 2 ^ 32" "dm_refresh_hz m < 2 ^ 32"
  shows "parse_mode (written m @ [10]) = Some m"
proof -
  have n: "c \<notin> set (show_nat n)" if "c = 120 \<or> c = 64" for c n
    using that by (auto simp: is_digit_def dest!: show_nat_digits)
  have "hd (written m) = hd (show_nat (dm_width m))" "last (written m) = last (show_nat (dm_refresh_hz m))"
    by (simp_all add: written_def)
  then have "trim (written m) = written m"
    using show_nat_digits [OF hd_in_set [OF show_nat_nonempty]] show_nat_digits [OF last_in_set [OF show_nat_nonempty]]
    by (intro trim_plain) (auto dest: digit_not_white simp: written_def)
  then have "trim (written m @ [10]) = written m" by (simp add: trim_white(2))
  moreover have "split_once 120 (written m) = Some (show_nat (dm_width m), show_nat (dm_height m) @ 64 # show_nat (dm_refresh_hz m))"
    by (simp add: written_def n)
  ultimately show ?thesis using assms by (simp add: parse_mode_def n)
qed

section \<open>From the monitor to the connector\<close>

text \<open>What the broker makes of a published list: the fallback stands in for an empty one.\<close>

definition taken_modes :: "display_mode list \<Rightarrow> display_mode list" where
  "taken_modes modes = (if modes = [] then [FALLBACK] else modes)"

lemma fallback_drivable [simp]: "drivable FALLBACK"
  by (simp add: drivable_def FALLBACK_def output_admissible_fixed mode_bounds)

text \<open>
  Whatever a monitor reports, the list the viewer publishes is one the output takes whole, and the mode it chose is
  on that list.
\<close>

lemma offered_is_taken:
  fixes raw remembered
  defines "modes \<equiv> normalize_modes raw"
  defines "chosen \<equiv> select_mode remembered modes"
  defines "sent \<equiv> offered modes (Some chosen)"
  shows "length sent \<le> MAX_MODES" "list_all drivable sent" "chosen \<in> set (taken_modes sent)" "drivable chosen"
    "\<exists>t. mode_list (taken_modes sent) = Ok t"
proof -
  have d: "distinct modes" unfolding modes_def by (rule normalize_modes_sorted(2))
  note o = offered_laws [OF d, of "Some chosen", folded sent_def]
  show len: "length sent \<le> MAX_MODES" using o(1) by (simp add: MAX_MODES_def MAX_MENU_MODES_def)
  show all: "list_all drivable sent"
    using o(2) normalize_modes_set [of _ raw] by (auto simp: list_all_iff modes_def)
  show c: "chosen \<in> set (taken_modes sent)"
  proof (cases "modes = []")
    case True
    then show ?thesis using o(2)
      by (simp add: taken_modes_def chosen_def SAFE_MODE_def FALLBACK_def)
  next
    case False
    then have "chosen \<in> set modes" unfolding chosen_def by (rule select_mode_in)
    then show ?thesis using o(4) [of chosen] by (auto simp: taken_modes_def)
  qed
  show "drivable chosen" using c all by (auto simp: taken_modes_def list_all_iff split: if_splits)
  show "\<exists>t. mode_list (taken_modes sent) = Ok t"
    using len all o(3) by (subst mode_list_iff) (simp add: taken_modes_def MAX_MODES_def)
qed

text \<open>A choice that is on a list survives its publication, and the module is told the list first.\<close>

lemma publish_chosen:
  "m \<in> set modes \<Longrightarrow> mode_writes (publish_modes modes (Some m) s) = [ListModes modes, PreferredMode m]"
  by (cases modes) (simp_all add: mode_writes_def publish_modes_def Let_def)

lemma publish_selected:
  "hm_selected (publish_modes modes preferred s) = Some m \<Longrightarrow> m \<in> set modes"
  by (auto simp: publish_modes_def Let_def split: option.splits if_splits)

end
