(* ===== verification/Control_Channel.thy ===== *)
theory Control_Channel
  imports Channel_Bind Display_Modes
begin

text \<open>
  The guest's end of the control channel: \<open>control.rs\<close> of the display services, and the turns of the broker that
  owns it (\<open>run_session\<close>, \<open>apply_modes\<close> and \<open>request_mode\<close> of \<open>broker_main.rs\<close>). The handshake is
  \<open>Display_Session\<close>; here are the requests after it and what they do to the module's parameters.
\<close>

section \<open>Definitions\<close>

text \<open>The messages of an established session, which are generated code. A timing is a \<open>display_mode\<close>.\<close>

record control_wire =
  dec_ping :: "bytes \<Rightarrow> nat option"
  enc_pong :: "nat \<Rightarrow> bytes"
  dec_set_mode :: "bytes \<Rightarrow> int option"
  dec_set_resolution :: "bytes \<Rightarrow> (nat \<times> nat) option"
  dec_set_available_modes :: "bytes \<Rightarrow> (display_mode list \<times> display_mode option) option"
  dec_set_display_mode :: "bytes \<Rightarrow> display_mode option option"
  enc_display_state :: "nat \<Rightarrow> nat \<Rightarrow> nat \<Rightarrow> Mode \<Rightarrow> nat \<Rightarrow> bytes"
  enc_error :: "ErrorCode \<Rightarrow> string \<Rightarrow> bytes"
  enc_capture_failed :: "string \<Rightarrow> bytes"
  session_error_text :: "SessionError \<Rightarrow> string"

datatype ControlRecord =
    ControlUnspecified | ClientHello | ServerHello | ServerAuth | ClientAuth | SetMode | SetResolution
  | RequestKeyframe | CtlPing | CtlPong | EndSession | DisplayState | CtlError | SetAvailableModes | SetDisplayMode
  | GuestCommandRecord

definition control_records :: "ControlRecord list" where
  "control_records =
     [ControlUnspecified, ClientHello, ServerHello, ServerAuth, ClientAuth, SetMode, SetResolution, RequestKeyframe,
      CtlPing, CtlPong, EndSession, DisplayState, CtlError, SetAvailableModes, SetDisplayMode, GuestCommandRecord]"

definition control_record_try_from :: "u16 \<Rightarrow> ControlRecord option" where
  "control_record_try_from n = (if unat n < length control_records then Some (control_records ! unat n) else None)"

fun control_record_wire :: "ControlRecord \<Rightarrow> u16" where
  "control_record_wire ControlUnspecified = 0"
| "control_record_wire ClientHello = 1"
| "control_record_wire ServerHello = 2"
| "control_record_wire ServerAuth = 3"
| "control_record_wire ClientAuth = 4"
| "control_record_wire SetMode = 5"
| "control_record_wire SetResolution = 6"
| "control_record_wire RequestKeyframe = 7"
| "control_record_wire CtlPing = 8"
| "control_record_wire CtlPong = 9"
| "control_record_wire EndSession = 10"
| "control_record_wire DisplayState = 11"
| "control_record_wire CtlError = 12"
| "control_record_wire SetAvailableModes = 13"
| "control_record_wire SetDisplayMode = 14"
| "control_record_wire GuestCommandRecord = 15"

record daemon_keys =
  dk_clipboard :: bytes
  dk_audio :: bytes

record session_parameters =
  sp_session_id :: bytes
  sp_frame_key :: bytes
  sp_input_key :: bytes
  sp_width :: nat
  sp_height :: nat
  sp_tile_size :: nat
  sp_cursor_stream :: bool
  sp_cursor_hotspots :: bool

text \<open>The reasons a session ends for; the source has their texts.\<close>

datatype close_reason =
    HostClosed | ReadFailed RecordError | SendFailed RecordError | SessionRefused SessionError
  | NoKeys | HostEnded | CaptureFault string | ShuttingDown

datatype control_outcome =
    CtlOpened session_parameters daemon_keys
  | CtlRelayKeyframe
  | CtlResize nat nat
  | CtlAvailableModes "display_mode list" "display_mode option"
  | CtlDisplayMode display_mode
  | CtlClosed close_reason
  | CtlNothing

definition support_from :: "nat \<Rightarrow> nat \<Rightarrow> support" where
  "support_from width height =
     \<lparr>su_capabilities = [CursorStream, DynamicResolution, Clipboard, FileClipboard, Audio, HostDisplayModes, CursorHotspots],
      su_modes = [Desktop], su_tile_sizes = [16, 32, 64], su_width = width, su_height = height\<rparr>"

record control =
  ct_session :: session
  ct_width :: nat
  ct_height :: nat
  ct_refresh_hz :: nat
  ct_tile_size :: nat
  ct_host_modes :: bool
  ct_established :: bool
  ct_sequence :: u32
  ct_limits :: limits

definition control_new :: "bytes \<Rightarrow> support \<Rightarrow> bytes \<Rightarrow> control" where
  "control_new secret support nonce =
     \<lparr>ct_session = session_guest secret support nonce, ct_width = su_width support, ct_height = su_height support,
      ct_refresh_hz = 0, ct_tile_size = 32, ct_host_modes = False, ct_established = False, ct_sequence = 0,
      ct_limits = limits_new (su_width support) (su_height support)\<rparr>"

definition control_send ::
  "record_msg \<Rightarrow> control \<Rightarrow> duplex \<Rightarrow> (RecordError, unit) outcome \<times> control \<times> duplex" where
  "control_send m c d =
     (let (out, s) = record_write m (ct_limits c) (dx_sink d); d' = d\<lparr>dx_sink := s\<rparr> in
      case out of
        Ok _ \<Rightarrow> (out, c\<lparr>ct_sequence := max (ct_sequence c) (hd_sequence (rec_header m)) + 1\<rparr>, d')
      | _ \<Rightarrow> (out, c, d'))"

definition control_write ::
  "crypto \<Rightarrow> ControlRecord \<Rightarrow> bytes \<Rightarrow> control \<times> duplex \<Rightarrow> control \<times> duplex" where
  "control_write cr message_type payload cd =
     (case cd of (c, d) \<Rightarrow>
        snd (control_send (record_new (crc32c cr) ChControl (control_record_wire message_type) (ct_sequence c) 0 0 payload) c d))"

definition control_state :: "crypto \<Rightarrow> control_wire \<Rightarrow> control \<times> duplex \<Rightarrow> control \<times> duplex" where
  "control_state cr cw cd =
     (let c = fst cd in
      control_write cr DisplayState
        (enc_display_state cw (ct_width c) (ct_height c) (ct_tile_size c) Desktop (ct_refresh_hz c)) cd)"

definition control_report ::
  "crypto \<Rightarrow> control_wire \<Rightarrow> ErrorCode \<Rightarrow> string \<Rightarrow> control \<times> duplex \<Rightarrow> control \<times> duplex" where
  "control_report cr cw code detail = control_write cr CtlError (enc_error cw code detail)"

definition control_set_geometry :: "nat \<Rightarrow> nat \<Rightarrow> nat \<Rightarrow> control \<Rightarrow> control" where
  "control_set_geometry width height refresh_hz c =
     c\<lparr>ct_width := width, ct_height := height, ct_refresh_hz := refresh_hz,
       ct_limits := set_geometry (ct_limits c) width height\<rparr>"

definition control_geometry :: "control \<Rightarrow> nat \<times> nat \<times> nat" where
  "control_geometry c = (ct_width c, ct_height c, ct_refresh_hz c)"

definition control_opened :: "crypto \<Rightarrow> control \<Rightarrow> control_outcome \<times> control" where
  "control_opened cr c =
     (let s = ct_session c in
      case (derive_channel_key cr s ChFrame, derive_channel_key cr s ChInput, derive_channel_key cr s ChClipboard,
            derive_channel_key cr s ChAudio, ss_negotiated s) of
        (Some frame, Some input, Some clipboard, Some audio, Some n) \<Rightarrow>
          (let cursor_stream = CursorStream \<in> set (ng_capabilities n);
               c' = c\<lparr>ct_width := ng_width n, ct_height := ng_height n, ct_tile_size := ng_tile_size n,
                      ct_host_modes := HostDisplayModes \<in> set (ng_capabilities n),
                      ct_limits := set_geometry (ct_limits c) (ng_width n) (ng_height n)\<rparr> in
           (CtlOpened \<lparr>sp_session_id = ss_session_id s, sp_frame_key = frame, sp_input_key = input,
                    sp_width = ng_width n, sp_height = ng_height n, sp_tile_size = ng_tile_size n,
                    sp_cursor_stream = cursor_stream,
                    sp_cursor_hotspots = cursor_stream \<and> CursorHotspots \<in> set (ng_capabilities n)\<rparr>
              \<lparr>dk_clipboard = clipboard, dk_audio = audio\<rparr>, c'))
      | _ \<Rightarrow> (CtlClosed NoKeys, c))"

text \<open>One request on an established session; a refusal is reported and the session goes on.\<close>

definition control_request ::
  "crypto \<Rightarrow> control_wire \<Rightarrow> u16 \<Rightarrow> bytes \<Rightarrow> control \<times> duplex \<Rightarrow> control_outcome \<times> control \<times> duplex" where
  "control_request cr cw message_type payload cd =
     (let refuse = (\<lambda>code detail. (CtlNothing, control_report cr cw code detail cd));
          unknown = refuse MalformedRecord ''a control record this build does not answer'' in
      case control_record_try_from message_type of
        Some CtlPing \<Rightarrow>
          (CtlNothing, control_write cr CtlPong
             (enc_pong cw (case dec_ping cw payload of Some token \<Rightarrow> token | None \<Rightarrow> 0)) cd)
      | Some RequestKeyframe \<Rightarrow> (CtlRelayKeyframe, cd)
      | Some SetMode \<Rightarrow>
          (let wanted = (case Option.bind (dec_set_mode cw payload) mode_try_from of
                           Some m \<Rightarrow> m | None \<Rightarrow> ModeUnspecified) in
           if wanted = Desktop \<or> wanted = Auto then (CtlNothing, control_state cr cw cd)
           else refuse UnsupportedMode ''this build encodes desktop and nothing else'')
      | Some SetResolution \<Rightarrow>
          (case Option.bind (dec_set_resolution cw payload) (\<lambda>(w, h). output_admissible w h) of
             Some (width, height) \<Rightarrow> (CtlResize width height, cd)
           | None \<Rightarrow> refuse ResolutionRejected ''a size outside what this output drives'')
      | Some SetAvailableModes \<Rightarrow>
          (if \<not> ct_host_modes (fst cd) then unknown
           else case dec_set_available_modes cw payload of
             None \<Rightarrow> refuse MalformedRecord ''an unreadable mode list''
           | Some (modes, preferred) \<Rightarrow>
               if length modes > MAX_MODES then refuse ResolutionRejected ''more modes than this output offers''
               else if \<not> list_all drivable modes
                 then refuse ResolutionRejected ''a mode outside what this output drives''
               else (CtlAvailableModes (if modes = [] then [FALLBACK] else modes)
                       (Option.bind preferred (\<lambda>m. if drivable m then Some m else None)), cd))
      | Some SetDisplayMode \<Rightarrow>
          (if \<not> ct_host_modes (fst cd) then unknown
           else case Option.bind (Option.bind (dec_set_display_mode cw payload) id)
                       (\<lambda>m. if drivable m then Some m else None) of
             Some m \<Rightarrow> (CtlDisplayMode m, cd)
           | None \<Rightarrow> refuse ResolutionRejected ''a mode outside what this output drives'')
      | Some GuestCommandRecord \<Rightarrow> (CtlNothing, cd)
      | Some EndSession \<Rightarrow> (CtlClosed HostEnded, cd)
      | _ \<Rightarrow> unknown)"

text \<open>A record that may be there to send.\<close>

definition send_pending ::
  "record_msg option \<Rightarrow> control \<Rightarrow> duplex \<Rightarrow> (RecordError, unit) outcome \<times> control \<times> duplex" where
  "send_pending m c d = (case m of None \<Rightarrow> (Ok (), c, d) | Some r \<Rightarrow> control_send r c d)"

text \<open>
  What the handshake's state machine made of a record, once it has answered. \<open>pump\<close> has no error of its own:
  what fails is an outcome; \<open>Panic\<close> is kept apart to show that there is none.
\<close>

definition control_answered ::
  "crypto \<Rightarrow> reply_outcome \<Rightarrow> control \<Rightarrow> duplex \<Rightarrow> (unit, control_outcome) outcome \<times> control \<times> duplex" where
  "control_answered cr out c d =
     (case send_pending (out_reply out) c d of
        (Ok _, c1, d1) \<Rightarrow>
          (let (auth, s) = pending_auth (ct_session c1); c2 = c1\<lparr>ct_session := s\<rparr> in
           case send_pending auth c2 d1 of
             (Ok _, c3, d2) \<Rightarrow>
               if out_event out = ControlEstablished
               then (let (o2, c4) = control_opened cr (c3\<lparr>ct_established := True\<rparr>) in (Ok o2, c4, d2))
               else (Ok CtlNothing, c3, d2)
           | (Err err, c3, d2) \<Rightarrow> (Ok (CtlClosed (SendFailed err)), c3, d2)
           | (Panic, c3, d2) \<Rightarrow> (Panic, c3, d2))
      | (Err err, c1, d1) \<Rightarrow> (Ok (CtlClosed (SendFailed err)), c1, d1)
      | (Panic, c1, d1) \<Rightarrow> (Panic, c1, d1))"

definition control_pump ::
  "crypto \<Rightarrow> wire \<Rightarrow> control_wire \<Rightarrow> bytes \<Rightarrow> control \<times> duplex
   \<Rightarrow> (unit, control_outcome) outcome \<times> control \<times> duplex" where
  "control_pump cr w cw random cd =
     (case cd of (c, d) \<Rightarrow>
      case record_read (crc32c cr) (ct_limits c) (dx_reader d) of (out, r) \<Rightarrow>
      let d1 = d\<lparr>dx_reader := r\<rparr> in
      case out of
        Err RecordIdle \<Rightarrow> (Ok CtlNothing, c, d1)
      | Err RecordClosed \<Rightarrow> (Ok (CtlClosed HostClosed), c, d1)
      | Err err \<Rightarrow> (Ok (CtlClosed (ReadFailed err)), c, d1)
      | Panic \<Rightarrow> (Panic, c, d1)
      | Ok (h, payload) \<Rightarrow>
          if ct_established c \<and> hd_channel h = ChControl
          then (let (o2, cd2) = control_request cr cw (hd_message_type h) payload (c, d1) in (Ok o2, cd2))
          else (case handle cr w random (ct_session c) h payload of
             (Ok o2, s) \<Rightarrow> control_answered cr o2 (c\<lparr>ct_session := s\<rparr>) d1
           | (Err err, s) \<Rightarrow>
               (Ok (CtlClosed (SessionRefused err)),
                control_report cr cw (error_code err) (session_error_text cw err) (c\<lparr>ct_session := s\<rparr>, d1))
           | (Panic, s) \<Rightarrow> (Panic, c\<lparr>ct_session := s\<rparr>, d1)))"

text \<open>
  The module's two parameter files: what reading \<open>mode\<close> gives, which of the coming writes are taken, and what
  has been written. A write that is not answered in the script is taken.
\<close>

datatype mode_parameter = ModeFile | ModesFile

record module_files =
  mf_mode :: "utext option"
  mf_answers :: "bool list"
  mf_written :: "(mode_parameter \<times> utext) list"

definition module_write :: "mode_parameter \<Rightarrow> utext \<Rightarrow> module_files \<Rightarrow> bool \<times> module_files" where
  "module_write file text f =
     (let f' = f\<lparr>mf_answers := tl (mf_answers f)\<rparr> in
      if mf_answers f \<noteq> [] \<and> \<not> hd (mf_answers f) then (False, f')
      else (True, f'\<lparr>mf_written := mf_written f @ [(file, text)]\<rparr>))"

definition output_current :: "module_files \<Rightarrow> display_mode" where
  "output_current f = (case Option.bind (mf_mode f) parse_mode of Some m \<Rightarrow> m | None \<Rightarrow> FALLBACK)"

definition output_request :: "display_mode \<Rightarrow> module_files \<Rightarrow> bool \<times> module_files" where
  "output_request m f = module_write ModeFile (written m @ [10]) f"

definition replace_modes :: "display_mode list \<Rightarrow> module_files \<Rightarrow> bool \<times> module_files" where
  "replace_modes modes f =
     (case mode_list modes of Ok text \<Rightarrow> module_write ModesFile text f | _ \<Rightarrow> (False, f))"

text \<open>The writes in order, up to the first that is refused, which the host is told of.\<close>

fun apply_modes ::
  "crypto \<Rightarrow> control_wire \<Rightarrow> mode_write list \<Rightarrow> (control \<times> duplex) \<times> module_files \<Rightarrow> (control \<times> duplex) \<times> module_files" where
  "apply_modes cr cw [] (cd, f) = (cd, f)"
| "apply_modes cr cw (x # xs) (cd, f) =
     (case (case x of ListModes modes \<Rightarrow> replace_modes modes f | PreferredMode m \<Rightarrow> output_request m f) of
        (True, f') \<Rightarrow> apply_modes cr cw xs (cd, f')
      | (False, f') \<Rightarrow> (control_report cr cw ResolutionRejected ''the output refused the mode list'' cd, f'))"

definition request_mode ::
  "crypto \<Rightarrow> control_wire \<Rightarrow> host_modes \<Rightarrow> nat \<Rightarrow> nat \<Rightarrow> (control \<times> duplex) \<times> module_files \<Rightarrow> (control \<times> duplex) \<times> module_files" where
  "request_mode cr cw hm width height p =
     (case p of (cd, f) \<Rightarrow>
      let m = \<lparr>dm_width = width, dm_height = height,
               dm_refresh_hz = (case hm_selected hm of Some s \<Rightarrow> dm_refresh_hz s | None \<Rightarrow> dm_refresh_hz (output_current f))\<rparr> in
      case output_request m f of
        (True, f') \<Rightarrow> (cd, f')
      | (False, f') \<Rightarrow> (control_report cr cw ResolutionRejected ''the output refused the mode'' cd, f'))"

text \<open>
  One turn of \<open>run_session\<close>. What other threads left for it is an argument: whether the broker stops, the geometry
  capture saw, a fault, the commands of the guest's user (encoded). What it leaves for them is returned.
\<close>

record broker_inbox =
  bi_stopping :: bool
  bi_geometry :: "(nat \<times> nat \<times> nat) option"
  bi_fault :: "string option"
  bi_commands :: "bytes list"

datatype broker_note = NoteOpened session_parameters daemon_keys | NoteModes host_modes | NoteKeyframe

record broker =
  br_control :: control
  br_stream :: duplex
  br_files :: module_files
  br_modes :: host_modes

definition broker_with :: "(control \<times> duplex) \<times> module_files \<Rightarrow> host_modes \<Rightarrow> broker" where
  "broker_with p hm = \<lparr>br_control = fst (fst p), br_stream = snd (fst p), br_files = snd p, br_modes = hm\<rparr>"

definition broker_act ::
  "crypto \<Rightarrow> control_wire \<Rightarrow> control_outcome \<Rightarrow> control \<times> duplex \<Rightarrow> broker
   \<Rightarrow> close_reason option \<times> broker_note list \<times> broker" where
  "broker_act cr cw out cd b =
     (let f = br_files b; hm = br_modes b in
      case out of
        CtlOpened parameters keys \<Rightarrow>
          (None, [NoteOpened parameters keys],
           broker_with (if ct_host_modes (fst cd) then apply_modes cr cw (mode_writes hm) (cd, f) else (cd, f)) hm)
      | CtlAvailableModes modes preferred \<Rightarrow>
          (let hm' = publish_modes modes preferred hm in
           (None, [NoteModes hm'], broker_with (apply_modes cr cw (mode_writes hm') (cd, f)) hm'))
      | CtlDisplayMode m \<Rightarrow>
          (let hm' = select_host_mode m hm in
           (None, [NoteModes hm'], broker_with (apply_modes cr cw [PreferredMode m] (cd, f)) hm'))
      | CtlRelayKeyframe \<Rightarrow> (None, [NoteKeyframe], broker_with (cd, f) hm)
      | CtlResize width height \<Rightarrow> (None, [], broker_with (request_mode cr cw hm width height (cd, f)) hm)
      | CtlClosed reason \<Rightarrow> (Some reason, [], broker_with (cd, f) hm)
      | CtlNothing \<Rightarrow> (None, [], broker_with (cd, f) hm))"

definition broker_turn ::
  "crypto \<Rightarrow> wire \<Rightarrow> control_wire \<Rightarrow> bytes \<Rightarrow> broker_inbox \<Rightarrow> broker
   \<Rightarrow> (unit, close_reason option \<times> broker_note list) outcome \<times> broker" where
  "broker_turn cr w cw random inbox b =
     (if bi_stopping inbox then (Ok (Some ShuttingDown, []), b)
      else
        let cd = (br_control b, br_stream b);
            cd1 = (case bi_geometry inbox of
                     None \<Rightarrow> cd
                   | Some g \<Rightarrow>
                       if g = control_geometry (fst cd) then cd
                       else (case g of (width, height, refresh_hz) \<Rightarrow>
                         control_state cr cw (control_set_geometry width height refresh_hz (fst cd), snd cd))) in
        case bi_fault inbox of
          Some detail \<Rightarrow>
            (Ok (Some (CaptureFault detail), []),
             broker_with (control_write cr CtlError (enc_capture_failed cw detail) cd1, br_files b) (br_modes b))
        | None \<Rightarrow>
            (let cd2 = fold (control_write cr GuestCommandRecord) (bi_commands inbox) cd1 in
             case control_pump cr w cw random cd2 of
               (Ok out, cd3) \<Rightarrow> (let (ended, noted, b') = broker_act cr cw out cd3 b in (Ok (ended, noted), b'))
             | (_, cd3) \<Rightarrow> (Panic, broker_with (cd3, br_files b) (br_modes b))))"

section \<open>What the handshake leaves in a session\<close>

text \<open>The handlers hand no keys over, leave an established session established, and announce only that.\<close>

definition tracked :: "session \<Rightarrow> (SessionError, reply_outcome) outcome \<times> session \<Rightarrow> bool" where
  "tracked s p \<longleftrightarrow> ss_role (snd p) = ss_role s \<and> ss_handover_keys (snd p) = ss_handover_keys s \<and>
     (ss_state s = Established \<longrightarrow> ss_state (snd p) = Established) \<and>
     (\<forall>out. fst p = Ok out \<longrightarrow> out_event out = ControlEstablished \<longrightarrow> ss_state (snd p) = Established)"

lemma tracked_attempt:
  assumes "\<And>x. m = Ok x \<Longrightarrow> tracked s (f x)" "ss_role s' = ss_role s" "ss_state s' = ss_state s"
    "ss_handover_keys s' = ss_handover_keys s"
  shows "tracked s (attempt m s' f)"
  using assms by (cases m) (auto simp: tracked_def)

lemma tracked_pair:
  "tracked s (Err err, s') \<longleftrightarrow> ss_role s' = ss_role s \<and> ss_handover_keys s' = ss_handover_keys s \<and>
     (ss_state s = Established \<longrightarrow> ss_state s' = Established)"
  "tracked s (Ok out, s') \<longleftrightarrow> ss_role s' = ss_role s \<and> ss_handover_keys s' = ss_handover_keys s \<and>
     (ss_state s = Established \<longrightarrow> ss_state s' = Established) \<and>
     (out_event out = ControlEstablished \<longrightarrow> ss_state s' = Established)"
  by (simp_all add: tracked_def)

lemmas tracked_simps = Let_def tracked_pair derive_session_key_Ok control_record_def channel_record_def update_channel_def

lemma tracked_on_client_hello: "ss_state s = AwaitingClientHello \<Longrightarrow> tracked s (on_client_hello cr w s payload)"
  unfolding on_client_hello_def
  by (intro tracked_attempt) (auto simp: tracked_simps intro!: tracked_attempt)

lemma tracked_on_server_hello: "ss_state s = AwaitingServerHello \<Longrightarrow> tracked s (on_server_hello cr w s payload)"
  unfolding on_server_hello_def
  by (intro tracked_attempt) (auto simp: tracked_simps intro!: tracked_attempt)

lemma tracked_on_server_auth: "tracked s (on_server_auth cr w s payload)"
  unfolding on_server_auth_def
  by (intro tracked_attempt) (auto simp: tracked_simps)

lemma tracked_on_client_auth: "tracked s (on_client_auth cr w s payload)"
  unfolding on_client_auth_def
  by (intro tracked_attempt) (auto simp: tracked_simps)

lemma tracked_on_channel_hello: "tracked s (on_channel_hello cr w nonce s channel payload)"
  unfolding on_channel_hello_def
  by (intro tracked_attempt) (auto simp: tracked_simps intro!: tracked_attempt)

lemma tracked_on_channel_ack: "tracked s (on_channel_ack cr w s channel payload)"
  unfolding on_channel_ack_def
  by (intro tracked_attempt) (auto simp: tracked_simps intro!: tracked_attempt)

lemma tracked_on_channel_auth: "tracked s (on_channel_auth cr w s channel payload)"
  unfolding on_channel_auth_def
  by (intro tracked_attempt) (auto simp: tracked_simps intro!: tracked_attempt)

lemma handle_tracked: "tracked s (handle cr w random s h payload)"
  using tracked_on_client_hello tracked_on_server_hello tracked_on_server_auth tracked_on_client_auth
    tracked_on_channel_hello tracked_on_channel_ack tracked_on_channel_auth
  by (simp add: handle_def Let_def tracked_pair)

text \<open>Only a record that carries the host's proof over this handshake establishes a guest's session.\<close>

lemma established_by_proof:
  assumes "handle cr w random s h payload = (Ok out, s')" "out_event out = ControlEstablished"
    and "wf_session s" "ss_role s = Guest"
  shows "hd_channel h = ChControl \<and> hd_message_type h = CLIENT_AUTH \<and>
    (\<exists>key hash. ss_session_key s' = Some key \<and> ss_transcript_hash s' = Some hash \<and>
       ss_session_key s = Some key \<and> ss_transcript_hash s = Some hash \<and> ss_session_id s' = ss_session_id s \<and>
       dec_auth w payload = Some (control_tag cr key Host hash))"
proof -
  have "ss_state s \<noteq> AwaitingServerAuth" using assms(3,4) by (auto simp: wf_session_def)
  moreover have "out_event out \<noteq> ControlEstablished" if "on_client_hello cr w s payload = (Ok out, s')"
    using that by (auto simp: on_client_hello_def Let_def attempt_Ok_iff control_record_def)
  moreover have "out_event out \<noteq> ControlEstablished" if "on_server_hello cr w s payload = (Ok out, s')"
    using that by (auto simp: on_server_hello_def Let_def attempt_Ok_iff)
  moreover have "out_event out \<noteq> ControlEstablished" if "on_channel_hello cr w random s c payload = (Ok out, s')" for c
    using that by (auto simp: on_channel_hello_def Let_def attempt_Ok_iff channel_record_def split: if_splits)
  moreover have "out_event out \<noteq> ControlEstablished" if "on_channel_ack cr w s c payload = (Ok out, s')" for c
    using that by (auto simp: on_channel_ack_def Let_def attempt_Ok_iff channel_record_def split: if_splits)
  moreover have "out_event out \<noteq> ControlEstablished" if "on_channel_auth cr w s c payload = (Ok out, s')" for c
    using that by (auto simp: on_channel_auth_def Let_def attempt_Ok_iff split: if_splits)
  ultimately have "hd_channel h = ChControl" "hd_message_type h = CLIENT_AUTH" "on_client_auth cr w s payload = (Ok out, s')"
    using assms(1,2) by (auto simp: handle_def Let_def split: if_splits)
  then show ?thesis
    by (auto simp: on_client_auth_def attempt_Ok_iff from_wire verify_tag_def split: if_splits)
qed

section \<open>The control channel of a guest\<close>

text \<open>
  What holds of a control channel whatever the host sends: its session is well formed and was not handed over, it is
  past the handshake exactly when it says so, and it takes the host's modes only then.
\<close>

definition control_ok :: "control \<Rightarrow> bool" where
  "control_ok c \<longleftrightarrow> wf_session (ct_session c) \<and> ss_role (ct_session c) = Guest \<and> ss_handover_keys (ct_session c) = replicate 4 None \<and>
     (ct_established c \<longrightarrow> ss_state (ct_session c) = Established) \<and> (ct_host_modes c \<longrightarrow> ct_established c)"

lemma control_ok_new: "control_ok (control_new secret support nonce)"
  using wf_session_guest by (simp add: control_ok_def control_new_def session_guest_def)

lemma control_ok_simps [simp]:
  "control_ok (c\<lparr>ct_sequence := n\<rparr>) = control_ok c"
  "control_ok (control_set_geometry width height refresh_hz c) = control_ok c"
  by (simp_all add: control_ok_def control_set_geometry_def)

lemma control_send_shape:
  "control_send m c d = (out, c', d') \<Longrightarrow> out \<noteq> Panic \<and> (\<exists>n. c' = c\<lparr>ct_sequence := n\<rparr>)"
  using write_payload_not_Panic
  by (auto simp: control_send_def record_write_def Let_def split: prod.splits outcome.splits)
     (metis control.surjective control.update_convs(8))+

lemma send_pending_shape:
  "send_pending m c d = (out, c', d') \<Longrightarrow> out \<noteq> Panic \<and> (\<exists>n. c' = c\<lparr>ct_sequence := n\<rparr>)"
  using control_send_shape [of _ c d]
  by (auto simp: send_pending_def split: option.splits) (metis control.surjective control.update_convs(8))

lemma control_write_shape: "\<exists>n. fst (control_write cr t payload cd) = (fst cd)\<lparr>ct_sequence := n\<rparr>"
  using control_send_shape [of _ "fst cd" "snd cd"]
  by (auto simp: control_write_def split: prod.splits) (metis prod.collapse)

lemma control_ok_write [simp]:
  "control_ok (fst (control_write cr t payload cd)) = control_ok (fst cd)"
  "control_ok (fst (control_state cr cw cd)) = control_ok (fst cd)"
  "control_ok (fst (control_report cr cw code detail cd)) = control_ok (fst cd)"
  using control_write_shape [of cr _ _ cd] by (metis control_ok_simps(1) control_state_def control_report_def)+

lemma control_ok_keyed: "control_ok c \<Longrightarrow> ss_state (ct_session c) = Established \<Longrightarrow> keyed (ct_session c)"
  by (auto simp: control_ok_def wf_session_def handed_def dest!: spec [of _ 0])

text \<open>An opened session has keys for every channel, so \<open>NoKeys\<close> is never the reason it ends.\<close>

lemma control_opened_ok:
  assumes "control_ok c" "ss_state (ct_session c) = Established" "ct_established c"
  shows "\<exists>p k c'. control_opened cr c = (CtlOpened p k, c') \<and> control_ok c'"
proof -
  obtain n where "ss_negotiated (ct_session c) = Some n"
    using assms(1,2) by (auto simp: control_ok_def wf_session_def)
  then show ?thesis using control_ok_keyed [OF assms(1,2)] assms
    by (auto simp: control_opened_def derive_channel_key_def keyed_def control_ok_def Let_def)
qed

definition request_kept :: "control \<times> duplex \<Rightarrow> control_outcome \<times> control \<times> duplex \<Rightarrow> bool" where
  "request_kept cd p \<longleftrightarrow> control_ok (fst (snd p)) = control_ok (fst cd) \<and>
     (case fst p of CtlClosed reason \<Rightarrow> reason = HostEnded | CtlOpened _ _ \<Rightarrow> False | _ \<Rightarrow> True)"

lemma control_request_kept: "request_kept cd (control_request cr cw t payload cd)"
proof (cases "control_record_try_from t")
  case None
  then show ?thesis by (simp add: control_request_def request_kept_def)
next
  case (Some x)
  then show ?thesis
    by (cases x) (simp_all add: control_request_def request_kept_def Let_def split: option.split prod.split)
qed

definition sized :: "nat \<Rightarrow> nat \<Rightarrow> bool" where
  "sized w h \<longleftrightarrow> output_admissible w h = Some (w, h)"

text \<open>Rounding is idempotent: what the output makes of a size is a size it keeps.\<close>

lemma output_admissible_sized:
  assumes "output_admissible a b = Some (w, h)"
  shows "sized w h"
proof -
  have "min a MAX_WIDTH div 8 * 8 \<le> MAX_WIDTH" "min b MAX_HEIGHT div 2 * 2 \<le> MAX_HEIGHT"
    by (meson div_times_less_eq_dividend min.cobounded2 order_trans)+
  then show ?thesis using assms
    by (auto simp: sized_def output_admissible_fixed) (auto simp: output_admissible_def Let_def split: if_splits)
qed

fun outcome_ok :: "control_outcome \<Rightarrow> bool" where
  "outcome_ok (CtlResize w h) \<longleftrightarrow> sized w h"
| "outcome_ok (CtlAvailableModes ms p) \<longleftrightarrow> ms \<noteq> [] \<and> list_all drivable ms \<and> length ms \<le> MAX_MODES \<and> (\<forall>m. p = Some m \<longrightarrow> drivable m)"
| "outcome_ok (CtlDisplayMode m) \<longleftrightarrow> drivable m"
| "outcome_ok _ \<longleftrightarrow> True"

lemma control_request_outcome: "outcome_ok (fst (control_request cr cw t payload cd))"
proof (cases "control_record_try_from t")
  case None
  then show ?thesis by (simp add: control_request_def)
next
  case (Some x)
  then show ?thesis
    by (cases x) (auto simp: control_request_def Let_def MAX_MODES_def intro: output_admissible_sized
        split: option.splits prod.splits if_splits bind_splits)
qed

lemma control_request_ok:
  "control_ok (fst cd) \<Longrightarrow> control_request cr cw t payload cd = (out, cd') \<Longrightarrow>
     control_ok (fst cd') \<and> out \<noteq> CtlClosed NoKeys \<and> outcome_ok out"
  using control_request_kept [of cd cr cw t payload] control_request_outcome [of cr cw t payload cd]
  by (auto simp: request_kept_def)

lemma control_answered_ok:
  assumes "control_ok c" "out_event out = ControlEstablished \<longrightarrow> ss_state (ct_session c) = Established"
    "control_answered cr out c d = (res, c', d')"
  shows "control_ok c' \<and> (\<exists>o2. res = Ok o2 \<and> o2 \<noteq> CtlClosed NoKeys \<and> outcome_ok o2)"
proof -
  obtain r1 c1 d1 where 1: "send_pending (out_reply out) c d = (r1, c1, d1)" by (metis prod.exhaust)
  then obtain n where n: "r1 \<noteq> Panic" "c1 = c\<lparr>ct_sequence := n\<rparr>" using send_pending_shape by blast
  let ?c2 = "c1\<lparr>ct_session := (ct_session c)\<lparr>ss_pending_auth := None\<rparr>\<rparr>"
  have c2: "control_ok ?c2" using assms(1) n by (simp add: control_ok_def)
  obtain r2 c3 d2 where 2: "send_pending (ss_pending_auth (ct_session c)) ?c2 d1 = (r2, c3, d2)" by (metis prod.exhaust)
  then obtain k where k: "r2 \<noteq> Panic" "c3 = ?c2\<lparr>ct_sequence := k\<rparr>" using send_pending_shape by blast
  have c3: "control_ok c3" using c2 k by simp
  show ?thesis
  proof (cases "out_event out = ControlEstablished \<and> (\<exists>x. r1 = Ok x) \<and> (\<exists>x. r2 = Ok x)")
    case True
    then have "control_ok (c3\<lparr>ct_established := True\<rparr>)" "ss_state (ct_session c3) = Established"
      using c3 assms(2) k n by (simp_all add: control_ok_def)
    then obtain p q c4 where "control_opened cr (c3\<lparr>ct_established := True\<rparr>) = (CtlOpened p q, c4)" "control_ok c4"
      using control_opened_ok [of "c3\<lparr>ct_established := True\<rparr>" cr] by auto
    then show ?thesis using assms(3) 1 2 n(2) True by (auto simp: control_answered_def pending_auth_def)
  next
    case False
    then show ?thesis
      using assms(1,3) 1 2 n k(1) c3 by (cases r1; cases r2) (auto simp: control_answered_def pending_auth_def)
  qed
qed

lemma control_pump_ok:
  assumes "control_ok (fst cd)" "control_pump cr w cw random cd = (res, cd')"
  shows "control_ok (fst cd') \<and> (\<exists>out. res = Ok out \<and> out \<noteq> CtlClosed NoKeys \<and> outcome_ok out)"
proof -
  obtain c d where cd: "cd = (c, d)" by (cases cd)
  obtain out r where r: "record_read (crc32c cr) (ct_limits c) (dx_reader d) = (out, r)" by (metis prod.exhaust)
  then have "out \<noteq> Panic" using record_read_not_Panic by blast
  then consider (fail) err where "out = Err err" | (rec) h payload where "out = Ok (h, payload)"
    by (cases out) auto
  then show ?thesis
  proof cases
    case fail
    then show ?thesis using assms cd r by (auto simp: control_pump_def Let_def split: RecordError.splits)
  next
    case (rec h payload)
    show ?thesis
    proof (cases "ct_established c \<and> hd_channel h = ChControl")
      case True
      obtain o2 cd2 where "control_request cr cw (hd_message_type h) payload (c, d\<lparr>dx_reader := r\<rparr>) = (o2, cd2)"
        by (metis prod.exhaust)
      with control_request_ok [OF _ this] show ?thesis using True assms cd r rec by (auto simp: control_pump_def)
    next
      case False
      obtain o2 s where s: "handle cr w random (ct_session c) h payload = (o2, s)" by (metis prod.exhaust)
      have k: "kept (o2, s)" using kept_handle [of "ct_session c"] s assms(1) cd by (metis control_ok_def fst_conv)
      have t: "tracked (ct_session c) (o2, s)" using handle_tracked s by metis
      have c': "control_ok (c\<lparr>ct_session := s\<rparr>)"
        using k t assms(1) cd by (auto simp: control_ok_def kept_def tracked_def)
      show ?thesis
      proof (cases o2)
        case (Ok o3)
        then show ?thesis
          using assms cd r rec False s t control_answered_ok [OF c', of o3 cr "d\<lparr>dx_reader := r\<rparr>"]
          by (cases cd') (auto simp: control_pump_def tracked_def)
      next
        case (Err err)
        then show ?thesis using assms(2) cd r rec False s c' by (auto simp: control_pump_def)
      qed (use k in \<open>simp add: kept_def\<close>)
    qed
  qed
qed

section \<open>What reaches the module\<close>

definition modes_ok :: "host_modes \<Rightarrow> bool" where
  "modes_ok hm \<longleftrightarrow> list_all drivable (hm_modes hm) \<and> length (hm_modes hm) \<le> MAX_MODES \<and>
     (\<forall>m. hm_selected hm = Some m \<longrightarrow> drivable m)"

definition write_ok :: "mode_parameter \<times> utext \<Rightarrow> bool" where
  "write_ok p \<longleftrightarrow> (case p of
     (ModesFile, t) \<Rightarrow> \<exists>ms. list_all drivable ms \<and> distinct ms \<and> mode_list ms = Ok t
   | (ModeFile, t) \<Rightarrow> \<exists>m. sized (dm_width m) (dm_height m) \<and> t = written m @ [10])"

definition broker_ok :: "broker \<Rightarrow> bool" where
  "broker_ok b \<longleftrightarrow> control_ok (br_control b) \<and> modes_ok (br_modes b) \<and> list_all write_ok (mf_written (br_files b))"

definition acted_ok :: "(control \<times> duplex) \<times> module_files \<Rightarrow> bool" where
  "acted_ok p \<longleftrightarrow> control_ok (fst (fst p)) \<and> list_all write_ok (mf_written (snd p))"

lemma module_write_ok:
  "list_all write_ok (mf_written f) \<Longrightarrow> write_ok (file, text) \<Longrightarrow> module_write file text f = (taken, f') \<Longrightarrow>
     list_all write_ok (mf_written f')"
  by (auto simp: module_write_def Let_def split: if_splits)

lemma output_request_ok:
  "list_all write_ok (mf_written f) \<Longrightarrow> sized (dm_width m) (dm_height m) \<Longrightarrow> output_request m f = (taken, f') \<Longrightarrow>
     list_all write_ok (mf_written f')"
  unfolding output_request_def by (erule module_write_ok) (auto simp: write_ok_def)

lemma replace_modes_ok:
  assumes "list_all write_ok (mf_written f)" "replace_modes ms f = (taken, f')"
  shows "list_all write_ok (mf_written f')"
proof (cases "mode_list ms")
  case (Ok t)
  then have "write_ok (ModesFile, t)" using mode_list_iff [of ms] by (auto simp: write_ok_def)
  from module_write_ok [OF assms(1) this] show ?thesis using assms(2) Ok by (simp add: replace_modes_def)
qed (use assms in \<open>simp_all add: replace_modes_def\<close>)

lemma drivable_sized: "drivable m \<Longrightarrow> sized (dm_width m) (dm_height m)"
  by (simp add: drivable_def sized_def)

lemma apply_modes_ok:
  "acted_ok p \<Longrightarrow> (\<And>m. PreferredMode m \<in> set xs \<Longrightarrow> drivable m) \<Longrightarrow> acted_ok (apply_modes cr cw xs p)"
proof (induction cr cw xs p rule: apply_modes.induct)
  case (2 cr cw x xs cd f)
  obtain taken f' where x: "(case x of ListModes ms \<Rightarrow> replace_modes ms f | PreferredMode m \<Rightarrow> output_request m f) = (taken, f')"
    by (metis prod.exhaust)
  then have "list_all write_ok (mf_written f')"
    using 2(2,3) by (cases x) (auto simp: acted_ok_def intro: replace_modes_ok output_request_ok drivable_sized)
  then show ?case using 2 x by (cases taken) (auto simp: acted_ok_def)
qed simp

lemma request_mode_ok:
  assumes "acted_ok p" "sized w h"
  shows "acted_ok (request_mode cr cw hm w h p)"
proof -
  obtain cd f where p: "p = (cd, f)" by (cases p)
  define m where "m = \<lparr>dm_width = w, dm_height = h,
    dm_refresh_hz = (case hm_selected hm of Some s \<Rightarrow> dm_refresh_hz s | None \<Rightarrow> dm_refresh_hz (output_current f))\<rparr>"
  obtain taken f' where o: "output_request m f = (taken, f')" by (metis prod.exhaust)
  then have "list_all write_ok (mf_written f')"
    using assms p by (intro output_request_ok [OF _ _ o]) (auto simp: acted_ok_def m_def)
  then show ?thesis using assms(1) p o
    by (cases taken) (simp_all add: request_mode_def m_def [symmetric] acted_ok_def)
qed

lemma publish_modes_ok:
  "modes_ok hm \<Longrightarrow> list_all drivable ms \<Longrightarrow> length ms \<le> MAX_MODES \<Longrightarrow> (\<forall>m. p = Some m \<longrightarrow> drivable m) \<Longrightarrow>
     modes_ok (publish_modes ms p hm)"
  by (auto simp: modes_ok_def publish_modes_def Let_def split: option.splits if_splits)

lemma mode_writes_drivable: "modes_ok hm \<Longrightarrow> PreferredMode m \<in> set (mode_writes hm) \<Longrightarrow> drivable m"
  by (auto simp: modes_ok_def mode_writes_def split: if_splits option.splits)

lemma broker_with_ok: "acted_ok p \<Longrightarrow> modes_ok hm \<Longrightarrow> broker_ok (broker_with p hm)"
  by (simp add: broker_ok_def acted_ok_def broker_with_def)

lemma broker_act_ok:
  assumes "control_ok (fst cd)" "broker_ok b" "outcome_ok out" "broker_act cr cw out cd b = (ended, noted, b')"
  shows "broker_ok b'"
proof -
  have p: "acted_ok (cd, br_files b)" "modes_ok (br_modes b)" using assms(1,2) by (auto simp: acted_ok_def broker_ok_def)
  show ?thesis
  proof (cases out)
    case (CtlAvailableModes ms q)
    then have "modes_ok (publish_modes ms q (br_modes b))" using p assms(3) by (intro publish_modes_ok) auto
    then show ?thesis using CtlAvailableModes assms(4) p
      by (auto simp: broker_act_def Let_def intro!: broker_with_ok apply_modes_ok dest: mode_writes_drivable)
  next
    case (CtlDisplayMode m)
    then have "modes_ok (select_host_mode m (br_modes b))" "acted_ok (apply_modes cr cw [PreferredMode m] (cd, br_files b))"
      using p assms(3) by (auto simp: modes_ok_def select_host_mode_def intro!: apply_modes_ok simp del: apply_modes.simps)
    then show ?thesis using CtlDisplayMode assms(4)
      by (auto simp: broker_act_def Let_def intro!: broker_with_ok simp del: apply_modes.simps)
  next
    case (CtlOpened q k)
    then show ?thesis using assms(4) p
      by (auto simp: broker_act_def Let_def intro!: broker_with_ok apply_modes_ok dest: mode_writes_drivable)
  qed (use assms(3,4) p in \<open>auto simp: broker_act_def Let_def intro!: broker_with_ok request_mode_ok\<close>)
qed

section \<open>The broker, session after session\<close>

text \<open>What other threads and the module's own events change before the socket is read.\<close>

definition turn_opening :: "crypto \<Rightarrow> control_wire \<Rightarrow> broker_inbox \<Rightarrow> broker \<Rightarrow> control \<times> duplex" where
  "turn_opening cr cw inbox b =
     (let cd = (br_control b, br_stream b) in
      case bi_geometry inbox of
        None \<Rightarrow> cd
      | Some g \<Rightarrow>
          if g = control_geometry (fst cd) then cd
          else (case g of (width, height, refresh_hz) \<Rightarrow>
            control_state cr cw (control_set_geometry width height refresh_hz (fst cd), snd cd)))"

lemma broker_turn_cases:
  "broker_turn cr w cw random inbox b =
     (if bi_stopping inbox then (Ok (Some ShuttingDown, []), b)
      else case bi_fault inbox of
        Some detail \<Rightarrow>
          (Ok (Some (CaptureFault detail), []),
           broker_with (control_write cr CtlError (enc_capture_failed cw detail) (turn_opening cr cw inbox b), br_files b) (br_modes b))
      | None \<Rightarrow>
          (case control_pump cr w cw random (fold (control_write cr GuestCommandRecord) (bi_commands inbox) (turn_opening cr cw inbox b)) of
             (Ok out, cd3) \<Rightarrow> (let (ended, noted, b') = broker_act cr cw out cd3 b in (Ok (ended, noted), b'))
           | (_, cd3) \<Rightarrow> (Panic, broker_with (cd3, br_files b) (br_modes b))))"
  unfolding broker_turn_def turn_opening_def Let_def by simp

lemma turn_opening_ok: "control_ok (br_control b) \<Longrightarrow> control_ok (fst (turn_opening cr cw inbox b))"
  by (simp add: turn_opening_def Let_def split: option.split prod.split)

lemma commands_ok: "control_ok (fst (fold (control_write cr t) commands cd)) = control_ok (fst cd)"
  by (induction commands arbitrary: cd) simp_all

lemma broker_act_ended:
  "broker_act cr cw out cd b = (ended, noted, b') \<Longrightarrow> out \<noteq> CtlClosed NoKeys \<Longrightarrow> ended \<noteq> Some NoKeys"
  by (cases out) (auto simp: broker_act_def Let_def)

lemma broker_turn_ok:
  assumes "broker_ok b" "broker_turn cr w cw random inbox b = (res, b')"
  shows "broker_ok b' \<and> (\<exists>ended noted. res = Ok (ended, noted) \<and> ended \<noteq> Some NoKeys)"
proof -
  have c: "control_ok (br_control b)" "modes_ok (br_modes b)" "list_all write_ok (mf_written (br_files b))"
    using assms(1) by (simp_all add: broker_ok_def)
  let ?cd = "fold (control_write cr GuestCommandRecord) (bi_commands inbox) (turn_opening cr cw inbox b)"
  obtain r cd3 where p: "control_pump cr w cw random ?cd = (r, cd3)" by (metis prod.exhaust)
  have "control_ok (fst ?cd)" unfolding commands_ok using turn_opening_ok [OF c(1)] .
  then obtain out where out: "control_ok (fst cd3)" "r = Ok out" "out \<noteq> CtlClosed NoKeys" "outcome_ok out"
    using control_pump_ok [OF _ p] by blast
  obtain ended noted b2 where a: "broker_act cr cw out cd3 b = (ended, noted, b2)" by (metis prod.exhaust)
  note act = broker_act_ok [OF out(1) assms(1) out(4) a] broker_act_ended [OF a out(3)]
  have "broker_ok (broker_with (control_write cr CtlError (enc_capture_failed cw detail) (turn_opening cr cw inbox b), br_files b) (br_modes b))" for detail
    using c turn_opening_ok [OF c(1)] by (intro broker_with_ok) (simp_all add: acted_ok_def)
  then show ?thesis
    using assms act p out(2) a by (auto simp: broker_turn_cases split: if_splits option.splits)
qed

text \<open>
  \<open>serve_sessions\<close>: turn after turn, and a new control channel after each that ended, with the files and the host's
  modes kept. Between turns the module may answer what it likes.
\<close>

inductive broker_run :: "crypto \<Rightarrow> wire \<Rightarrow> control_wire \<Rightarrow> bytes \<Rightarrow> broker \<Rightarrow> bool" for cr w cw secret where
  broker_start: "broker_run cr w cw secret
    \<lparr>br_control = control_new secret (support_from width height) nonce, br_stream = d,
     br_files = \<lparr>mf_mode = m, mf_answers = as, mf_written = []\<rparr>, br_modes = host_modes_default\<rparr>"
| broker_continues: "broker_run cr w cw secret b \<Longrightarrow>
    broker_turn cr w cw random inbox b = (Ok (None, noted), b') \<Longrightarrow> broker_run cr w cw secret b'"
| broker_again: "broker_run cr w cw secret b \<Longrightarrow>
    broker_turn cr w cw random inbox b = (Ok (Some reason, noted), b') \<Longrightarrow>
    broker_run cr w cw secret (b'\<lparr>br_control := control_new secret (support_from width height) nonce, br_stream := d\<rparr>)"
| broker_module: "broker_run cr w cw secret b \<Longrightarrow>
    broker_run cr w cw secret (b\<lparr>br_files := (br_files b)\<lparr>mf_mode := m, mf_answers := as\<rparr>\<rparr>)"

lemma broker_run_ok: "broker_run cr w cw secret b \<Longrightarrow> broker_ok b"
proof (induction rule: broker_run.induct)
  case (broker_start width height nonce d m as)
  then show ?case using control_ok_new by (simp add: broker_ok_def modes_ok_def host_modes_default_def)
next
  case (broker_continues b random inbox noted b')
  then show ?case using broker_turn_ok by blast
next
  case (broker_again b random inbox reason noted b' width height nonce d)
  then have "broker_ok b'" using broker_turn_ok by blast
  then show ?case using control_ok_new by (simp add: broker_ok_def)
next
  case (broker_module b m as)
  then show ?case by (simp add: broker_ok_def)
qed

section \<open>Opening a session\<close>

text \<open>The keys leave the privileged process only on the host's proof, and they are the keys of that handshake.\<close>

lemma control_answered_opened:
  assumes "control_answered cr out c d = (Ok (CtlOpened params keys), cd')"
  shows "out_event out = ControlEstablished \<and>
    (\<exists>c2. control_opened cr c2 = (CtlOpened params keys, fst cd') \<and> ct_session c2 = (ct_session c)\<lparr>ss_pending_auth := None\<rparr>)"
proof -
  obtain r1 c1 d1 where 1: "send_pending (out_reply out) c d = (r1, c1, d1)" by (metis prod.exhaust)
  then have n: "ct_session c1 = ct_session c" using send_pending_shape by fastforce
  let ?c2 = "c1\<lparr>ct_session := (ct_session c)\<lparr>ss_pending_auth := None\<rparr>\<rparr>"
  obtain r2 c3 d2 where 2: "send_pending (ss_pending_auth (ct_session c)) ?c2 d1 = (r2, c3, d2)" by (metis prod.exhaust)
  then have k: "ct_session c3 = (ct_session c)\<lparr>ss_pending_auth := None\<rparr>" using send_pending_shape by fastforce
  have "out_event out = ControlEstablished \<and> control_opened cr (c3\<lparr>ct_established := True\<rparr>) = (CtlOpened params keys, fst cd')"
    using assms 1 2 n by (cases r1; cases r2) (auto simp: control_answered_def pending_auth_def split: if_splits prod.splits)
  then show ?thesis using k by (intro conjI exI [of _ "c3\<lparr>ct_established := True\<rparr>"]) simp_all
qed

lemma pump_opened:
  assumes ok: "control_ok (fst cd)" and p: "control_pump cr w cw random cd = (Ok (CtlOpened params keys), cd')"
  shows "\<exists>h payload r key hash. record_read (crc32c cr) (ct_limits (fst cd)) (dx_reader (snd cd)) = (Ok (h, payload), r) \<and>
    \<not> (ct_established (fst cd) \<and> hd_channel h = ChControl) \<and> hd_message_type h = CLIENT_AUTH \<and>
    ss_session_key (ct_session (fst cd)) = Some key \<and> ss_transcript_hash (ct_session (fst cd)) = Some hash \<and>
    dec_auth w payload = Some (control_tag cr key Host hash) \<and>
    sp_session_id params = ss_session_id (ct_session (fst cd)) \<and>
    sp_frame_key params = channel_key cr key hash ChFrame \<and> sp_input_key params = channel_key cr key hash ChInput \<and>
    dk_clipboard keys = channel_key cr key hash ChClipboard \<and> dk_audio keys = channel_key cr key hash ChAudio"
proof -
  obtain c d where cd: "cd = (c, d)" by (cases cd)
  obtain out r where r: "record_read (crc32c cr) (ct_limits c) (dx_reader d) = (out, r)" by (metis prod.exhaust)
  then obtain h payload where o: "out = Ok (h, payload)"
    using p cd by (cases out) (auto simp: control_pump_def Let_def split: RecordError.splits)
  have ne: "\<not> (ct_established c \<and> hd_channel h = ChControl)"
    using p cd r o control_request_kept [of "(c, d\<lparr>dx_reader := r\<rparr>)" cr cw "hd_message_type h" payload]
    by (auto simp: control_pump_def request_kept_def split: prod.splits)
  obtain o2 s where s: "handle cr w random (ct_session c) h payload = (o2, s)" by (metis prod.exhaust)
  then obtain o3 where o3: "o2 = Ok o3" "control_answered cr o3 (c\<lparr>ct_session := s\<rparr>) (d\<lparr>dx_reader := r\<rparr>) = (Ok (CtlOpened params keys), cd')"
    using p cd r o ne by (cases o2) (auto simp: control_pump_def Let_def)
  obtain c2 where c2: "out_event o3 = ControlEstablished" "control_opened cr c2 = (CtlOpened params keys, fst cd')"
    "ct_session c2 = s\<lparr>ss_pending_auth := None\<rparr>"
    using control_answered_opened [OF o3(2)] by auto
  have "handle cr w random (ct_session c) h payload = (Ok o3, s)" "wf_session (ct_session c)" "ss_role (ct_session c) = Guest"
    using s o3(1) ok cd by (simp_all add: control_ok_def)
  from established_by_proof [OF this(1) c2(1) this(2,3)] obtain key hash where k: "hd_channel h = ChControl" "hd_message_type h = CLIENT_AUTH"
    "ss_session_key s = Some key" "ss_transcript_hash s = Some hash" "ss_session_key (ct_session c) = Some key"
    "ss_transcript_hash (ct_session c) = Some hash" "ss_session_id s = ss_session_id (ct_session c)"
    "dec_auth w payload = Some (control_tag cr key Host hash)"
    by blast
  have "sp_session_id params = ss_session_id s \<and>
    sp_frame_key params = channel_key cr key hash ChFrame \<and> sp_input_key params = channel_key cr key hash ChInput \<and>
    dk_clipboard keys = channel_key cr key hash ChClipboard \<and> dk_audio keys = channel_key cr key hash ChAudio"
    using c2(2,3) k(3,4) by (auto simp: control_opened_def derive_channel_key_def Let_def split: option.splits)
  then show ?thesis using cd r o ne k by auto
qed

section \<open>The host's modes\<close>

text \<open>A record of the control channel is read back whatever the geometry: its cap does not depend on it.\<close>

lemma control_record_read:
  assumes "prompt {Interrupted} r (record_bytes (record_new crc ChControl t s b g payload) @ rest)"
    and "length payload \<le> CONTROL_MAX_PAYLOAD"
  shows "\<exists>r'. record_read crc l r = (Ok (header_for_payload crc ChControl t s b g payload, payload), r') \<and>
    prompt {Interrupted} r' rest"
proof (rule record_read_prompt [of _ _ _ "[]"])
  let ?h = "header_for_payload crc ChControl t s b g payload"
  show "prompt {Interrupted} r (extended_header ?h [] @ [] @ payload @ rest)"
    using assms(1) by (simp add: record_bytes_def record_new_def extended_header_nil)
  have "stream_bytes (rd_events r) \<noteq> []"
    using assms(1) length_header_encode [of ?h]
    by (auto simp: prompt_def record_bytes_def record_new_def simp del: length_header_encode)
  then show "begun (rd_events r)" using assms(1) by (intro begun_steady) (auto simp: prompt_def)
  show "unat (hd_length ?h) = length payload"
    using assms(2) by (intro header_length_exact) (simp add: CONTROL_MAX_PAYLOAD_def)
  show "length payload \<le> for_channel l (hd_channel ?h)" using assms(2) by (simp add: header_for_payload_def)
qed (simp_all add: header_for_payload_def)

text \<open>
  A list published on an established session that has the host's modes: the module is told the list and then the
  choice, and the broker keeps both for the sessions to come.
\<close>

lemma modes_applied:
  assumes "m \<in> set ms" "mode_list ms = Ok t" "mf_answers f = []"
  shows "apply_modes cr cw (mode_writes (publish_modes ms (Some m) hm)) (cd, f) =
    (cd, f\<lparr>mf_written := mf_written f @ [(ModesFile, t), (ModeFile, written m @ [10])]\<rparr>)"
  using assms by (simp add: publish_chosen replace_modes_def output_request_def module_write_def)

lemma control_record_round [simp]: "control_record_try_from (control_record_wire x) = Some x"
  by (cases x) (simp_all add: control_record_try_from_def control_records_def)

lemma request_available:
  assumes "ct_host_modes (fst cd)" "dec_set_available_modes cw payload = Some (ms, Some m)"
    "length ms \<le> MAX_MODES" "list_all drivable ms" "drivable m"
  shows "control_request cr cw (control_record_wire SetAvailableModes) payload cd = (CtlAvailableModes (taken_modes ms) (Some m), cd)"
  using assms by (simp add: control_request_def taken_modes_def del: control_record_wire.simps)

lemma pump_request:
  assumes "ct_established c" "hd_channel h = ChControl"
    "record_read (crc32c cr) (ct_limits c) (dx_reader d) = (Ok (h, payload), r)"
    "control_request cr cw (hd_message_type h) payload (c, d\<lparr>dx_reader := r\<rparr>) = (out, cd')"
  shows "control_pump cr w cw random (c, d) = (Ok out, cd')"
  using assms by (simp add: control_pump_def Let_def)

lemma turn_published:
  assumes b: "ct_established (br_control b)" "ct_host_modes (br_control b)" "mf_answers (br_files b) = []"
    and inbox: "\<not> bi_stopping inbox" "bi_geometry inbox = None" "bi_fault inbox = None" "bi_commands inbox = []"
    and rd: "record_read (crc32c cr) (ct_limits (br_control b)) (dx_reader (br_stream b)) = (Ok (h, payload), r)"
      "hd_channel h = ChControl" "hd_message_type h = control_record_wire SetAvailableModes"
    and list: "dec_set_available_modes cw payload = Some (ms, Some m)" "length ms \<le> MAX_MODES" "list_all drivable ms"
      "drivable m" "m \<in> set (taken_modes ms)" "mode_list (taken_modes ms) = Ok t"
  shows "\<exists>b'. broker_turn cr w cw random inbox b = (Ok (None, [NoteModes (br_modes b')]), b') \<and>
    br_modes b' = \<lparr>hm_modes = taken_modes ms, hm_selected = Some m\<rparr> \<and>
    mf_written (br_files b') = mf_written (br_files b) @ [(ModesFile, t), (ModeFile, written m @ [10])]"
proof -
  let ?cd = "(br_control b, (br_stream b)\<lparr>dx_reader := r\<rparr>)"
  have "control_request cr cw (hd_message_type h) payload ?cd = (CtlAvailableModes (taken_modes ms) (Some m), ?cd)"
    unfolding rd(3) using b(2) list by (intro request_available) simp_all
  from pump_request [OF b(1) rd(2,1) this]
  have p: "control_pump cr w cw random (br_control b, br_stream b) = (Ok (CtlAvailableModes (taken_modes ms) (Some m)), ?cd)" .
  have hm: "publish_modes (taken_modes ms) (Some m) (br_modes b) = \<lparr>hm_modes = taken_modes ms, hm_selected = Some m\<rparr>"
    using list(5) by (simp add: publish_modes_def)
  have "broker_turn cr w cw random inbox b =
    (Ok (None, [NoteModes (publish_modes (taken_modes ms) (Some m) (br_modes b))]),
     broker_with (apply_modes cr cw (mode_writes (publish_modes (taken_modes ms) (Some m) (br_modes b))) (?cd, br_files b))
       (publish_modes (taken_modes ms) (Some m) (br_modes b)))"
    using inbox p by (simp add: broker_turn_cases turn_opening_def broker_act_def Let_def)
  then show ?thesis unfolding modes_applied [OF list(5,6) b(3)] by (simp add: hm broker_with_def)
qed

end
