(* ===== verification/Viewer_Window.thy ===== *)
theory Viewer_Window
  imports Display_Modes
begin

text \<open>
  The rules of the viewer's window that need no system: where the picture lies and what a point means
  (\<open>placement.rs\<close>), when a drag becomes a request (\<open>resize.rs\<close>), where a window opens (\<open>monitors.rs\<close>) and what
  is remembered of it (\<open>state.rs\<close>).
\<close>

section \<open>Signed arithmetic at the ends of the range\<close>

abbreviation (input) i32_max :: int where "i32_max \<equiv> 2147483647"
abbreviation (input) i32_min :: int where "i32_min \<equiv> - 2147483648"

definition sat32 :: "int \<Rightarrow> int" where
  "sat32 i = max i32_min (min i32_max i)"

text \<open>\<open>saturating_add\<close> and \<open>saturating_sub\<close> of \<open>i32\<close>.\<close>

definition sat_add :: "int \<Rightarrow> int \<Rightarrow> int" where "sat_add a b = sat32 (a + b)"
definition sat_sub :: "int \<Rightarrow> int \<Rightarrow> int" where "sat_sub a b = sat32 (a - b)"

definition in_i32 :: "int \<Rightarrow> bool" where "in_i32 i \<longleftrightarrow> i32_min \<le> i \<and> i \<le> i32_max"

definition checked_sub32 :: "int \<Rightarrow> int \<Rightarrow> int option" where
  "checked_sub32 a b = (if in_i32 (a - b) then Some (a - b) else None)"

text \<open>\<open>u32::try_from\<close> of an \<open>i32\<close>.\<close>

definition to_u32 :: "int \<Rightarrow> nat option" where
  "to_u32 i = (if i < 0 then None else Some (nat i))"

section \<open>Placement\<close>

record picture =
  pic_x :: int
  pic_y :: int
  pic_width :: nat
  pic_height :: nat
  pic_guest_width :: nat
  pic_guest_height :: nat

definition fit_axis :: "nat \<Rightarrow> nat \<Rightarrow> nat \<Rightarrow> nat" where
  "fit_axis along numerator denominator = min (along * numerator div denominator) u32_max"

text \<open>The subtractions for the bars are unsigned: they panic when the picture is larger than the client area.\<close>

definition place_picture :: "nat \<Rightarrow> nat \<Rightarrow> int \<Rightarrow> int \<Rightarrow> (unit, picture option) outcome" where
  "place_picture guest_width guest_height client_width client_height =
     (case (to_u32 client_width, to_u32 client_height) of
        (Some cw, Some ch) \<Rightarrow>
          if cw = 0 \<or> ch = 0 \<or> guest_width = 0 \<or> guest_height = 0 then Ok None
          else
            (let by_width = cw * guest_height; by_height = ch * guest_width;
                 (width, height) =
                   (if by_width \<le> by_height then (cw, max (fit_axis cw guest_height guest_width) 1)
                    else (max (fit_axis ch guest_width guest_height) 1, ch)) in
             if cw < width \<or> ch < height then Panic
             else Ok (Some \<lparr>pic_x = int ((cw - width) div 2), pic_y = int ((ch - height) div 2),
                      pic_width = width, pic_height = height,
                      pic_guest_width = guest_width, pic_guest_height = guest_height\<rparr>))
      | _ \<Rightarrow> Ok None)"

definition scale_axis :: "nat \<Rightarrow> nat \<Rightarrow> nat \<Rightarrow> nat" where
  "scale_axis inside on_screen guest =
     (if on_screen = 0 \<or> guest = 0 then 0
      else min (min (inside * guest div on_screen) u32_max) (guest - 1))"

definition to_guest :: "picture \<Rightarrow> int \<Rightarrow> int \<Rightarrow> (nat \<times> nat) option" where
  "to_guest p x y =
     Option.bind (Option.bind (checked_sub32 x (pic_x p)) to_u32) (\<lambda>inside_x.
     Option.bind (Option.bind (checked_sub32 y (pic_y p)) to_u32) (\<lambda>inside_y.
       if inside_x \<ge> pic_width p \<or> inside_y \<ge> pic_height p then None
       else Some (scale_axis inside_x (pic_width p) (pic_guest_width p),
                  scale_axis inside_y (pic_height p) (pic_guest_height p))))"

definition clamp_inside :: "int \<Rightarrow> int \<Rightarrow> nat \<Rightarrow> nat" where
  "clamp_inside v origin extent = min (nat (max (sat_sub v origin) 0)) (extent - 1)"

definition to_guest_clamped :: "picture \<Rightarrow> int \<Rightarrow> int \<Rightarrow> nat \<times> nat" where
  "to_guest_clamped p x y =
     (scale_axis (clamp_inside x (pic_x p) (pic_width p)) (pic_width p) (pic_guest_width p),
      scale_axis (clamp_inside y (pic_y p) (pic_height p)) (pic_height p) (pic_guest_height p))"

section \<open>Resizing\<close>

record resize =
  rs_pending :: "((nat \<times> nat) \<times> nat) option"
  rs_requested :: "(nat \<times> nat) option"

definition resize_new :: resize where
  "resize_new = \<lparr>rs_pending = None, rs_requested = None\<rparr>"

definition resize_observe :: "nat \<Rightarrow> nat \<Rightarrow> nat \<Rightarrow> resize \<Rightarrow> resize" where
  "resize_observe width height now r =
     (if width = 0 \<or> height = 0 then r\<lparr>rs_pending := None\<rparr>
      else r\<lparr>rs_pending := Some ((width, height), now + DEBOUNCE)\<rparr>)"

definition resize_due :: "nat \<Rightarrow> resize \<Rightarrow> (nat \<times> nat) option \<times> resize" where
  "resize_due now r =
     (case rs_pending r of
        None \<Rightarrow> (None, r)
      | Some (extent, deadline) \<Rightarrow>
          if now < deadline then (None, r)
          else if rs_requested r = Some extent then (None, r\<lparr>rs_pending := None\<rparr>)
          else (Some extent, r\<lparr>rs_pending := None, rs_requested := Some extent\<rparr>))"

definition viewer_admissible :: "nat \<Rightarrow> nat \<Rightarrow> (nat \<times> nat) option" where
  "viewer_admissible width height =
     (if width < MIN_WIDTH \<or> height < MIN_HEIGHT then None
      else let w = (min width MAX_WIDTH div 8) * 8; h = (min height MAX_HEIGHT div 2) * 2 in
        if w < MIN_WIDTH \<or> h < MIN_HEIGHT then None else Some (w, h))"

definition is_guests_own :: "resize \<Rightarrow> nat \<Rightarrow> nat \<Rightarrow> bool" where
  "is_guests_own r width height =
     (case rs_requested r of
        None \<Rightarrow> False
      | Some (wanted_width, wanted_height) \<Rightarrow> viewer_admissible wanted_width wanted_height \<noteq> Some (width, height))"

definition resize_assume :: "nat \<Rightarrow> nat \<Rightarrow> resize \<Rightarrow> resize" where
  "resize_assume width height r = r\<lparr>rs_pending := None, rs_requested := Some (width, height)\<rparr>"

definition resize_forget :: "resize \<Rightarrow> resize" where
  "resize_forget r = r\<lparr>rs_pending := None, rs_requested := None\<rparr>"

text \<open>
  \<open>follow\<close> of \<open>main.rs\<close>, on a geometry that is the guest's own: \<open>set_client_size\<close> is the system's, and
  answers with the client area the window came to, or nothing for a window whose size is not the viewer's to set.
\<close>

definition follow_geometry :: "(nat \<Rightarrow> nat \<Rightarrow> (nat \<times> nat) option) \<Rightarrow> nat \<Rightarrow> nat \<Rightarrow> resize \<Rightarrow> resize" where
  "follow_geometry set_client_size width height r =
     (if is_guests_own r width height
      then (case set_client_size width height of None \<Rightarrow> r | Some (w, h) \<Rightarrow> resize_assume w h r)
      else r)"

section \<open>Monitors\<close>

record screen_rect =
  sr_left :: int
  sr_top :: int
  sr_right :: int
  sr_bottom :: int

definition MIN_VISIBLE :: "int \<times> int" where "MIN_VISIBLE = (120, 32)"

definition as_coordinate :: "nat \<Rightarrow> int" where
  "as_coordinate n = (if int n \<le> i32_max then int n else i32_max)"

definition window_rectangle :: "int \<times> int \<Rightarrow> nat \<times> nat \<Rightarrow> screen_rect" where
  "window_rectangle position extent =
     \<lparr>sr_left = fst position, sr_top = snd position, sr_right = sat_add (fst position) (as_coordinate (fst extent)),
      sr_bottom = sat_add (snd position) (as_coordinate (snd extent))\<rparr>"

definition shared_extent :: "screen_rect \<Rightarrow> screen_rect \<Rightarrow> int \<times> int" where
  "shared_extent window monitor =
     (max (sat_sub (min (sr_right window) (sr_right monitor)) (max (sr_left window) (sr_left monitor))) 0,
      max (sat_sub (min (sr_bottom window) (sr_bottom monitor)) (max (sr_top window) (sr_top monitor))) 0)"

definition window_reachable :: "screen_rect \<Rightarrow> screen_rect \<Rightarrow> bool" where
  "window_reachable window monitor =
     (let (across, down) = shared_extent window monitor;
          wanted_across = min (fst MIN_VISIBLE) (sat_sub (sr_right window) (sr_left window));
          wanted_down = min (snd MIN_VISIBLE) (sat_sub (sr_bottom window) (sr_top window)) in
      across \<ge> wanted_across \<and> down \<ge> wanted_down)"

definition window_overlap :: "screen_rect \<Rightarrow> screen_rect \<Rightarrow> int" where
  "window_overlap window monitor = (let (across, down) = shared_extent window monitor in across * down)"

text \<open>The subtraction of the extent and the addition are checked ones: they panic past the ends of the range.\<close>

definition spare :: "int \<Rightarrow> int \<Rightarrow> int \<Rightarrow> (unit, int) outcome" where
  "spare low high extent =
     (let room = sat_sub high low - extent; edge = low + max room 0 div 2 in
      if in_i32 room \<and> in_i32 edge then Ok edge else Panic)"

definition window_centred :: "screen_rect \<Rightarrow> nat \<times> nat \<Rightarrow> (unit, int \<times> int) outcome" where
  "window_centred monitor extent =
     obind (spare (sr_left monitor) (sr_right monitor) (as_coordinate (fst extent))) (\<lambda>x.
     obind (spare (sr_top monitor) (sr_bottom monitor) (as_coordinate (snd extent))) (\<lambda>y. Ok (x, y)))"

fun most_overlap :: "screen_rect \<Rightarrow> screen_rect \<Rightarrow> int \<Rightarrow> screen_rect list \<Rightarrow> screen_rect" where
  "most_overlap window target most [] = target"
| "most_overlap window target most (m # ms) =
     (let area = window_overlap window m in
      if area > most then most_overlap window m area ms else most_overlap window target most ms)"

definition opening_position :: "int \<times> int \<Rightarrow> nat \<times> nat \<Rightarrow> screen_rect list \<Rightarrow> (unit, (int \<times> int) option) outcome" where
  "opening_position position extent monitors =
     (case monitors of
        [] \<Rightarrow> Ok (Some position)
      | first # rest \<Rightarrow>
          (let window = window_rectangle position extent in
           if list_ex (window_reachable window) monitors then Ok (Some position)
           else obind (window_centred (most_overlap window first (window_overlap window first) rest) extent)
             (\<lambda>p. Ok (Some p))))"

record window_fit =
  wf_x :: int
  wf_y :: int
  wf_width :: int
  wf_height :: int

definition fit_span :: "int \<Rightarrow> int \<Rightarrow> int \<Rightarrow> int" where
  "fit_span wanted low high = max (min wanted (sat_sub high low)) 1"

definition place_edge :: "int \<Rightarrow> int \<Rightarrow> int \<Rightarrow> int \<Rightarrow> int" where
  "place_edge at extent low high = max (min at (sat_sub high extent)) low"

definition fitted :: "nat \<times> nat \<Rightarrow> int \<times> int \<Rightarrow> int \<times> int \<Rightarrow> screen_rect \<Rightarrow> window_fit" where
  "fitted client frame at work =
     (let across = fit_span (sat_add (as_coordinate (fst client)) (fst frame)) (sr_left work) (sr_right work);
          down = fit_span (sat_add (as_coordinate (snd client)) (snd frame)) (sr_top work) (sr_bottom work) in
      \<lparr>wf_x = place_edge (fst at) across (sr_left work) (sr_right work),
       wf_y = place_edge (snd at) down (sr_top work) (sr_bottom work), wf_width = across, wf_height = down\<rparr>)"

section \<open>What is remembered\<close>

definition DEFAULT_SIZE :: "nat \<times> nat" where "DEFAULT_SIZE = (1920, 1080)"

datatype Quality = AutoQuality | DesktopQuality

fun quality_as_str :: "Quality \<Rightarrow> utext" where
  "quality_as_str AutoQuality = utext_of ''auto''"
| "quality_as_str DesktopQuality = utext_of ''desktop''"

definition quality_parse :: "utext \<Rightarrow> Quality option" where
  "quality_parse t =
     (if t = utext_of ''auto'' then Some AutoQuality
      else if t = utext_of ''desktop'' then Some DesktopQuality else None)"

record window_state =
  ws_position :: "(int \<times> int) option"
  ws_size :: "nat \<times> nat"
  ws_fullscreen :: bool
  ws_quality :: Quality
  ws_display_mode :: "display_mode option"
  ws_muted :: bool

definition window_state_default :: window_state where
  "window_state_default = \<lparr>ws_position = None, ws_size = DEFAULT_SIZE, ws_fullscreen = False, ws_quality = AutoQuality,
     ws_display_mode = None, ws_muted = False\<rparr>"

text \<open>The loop's variables: the state so far and the halves of what is put together after it.\<close>

record parse_vars =
  pv_state :: window_state
  pv_x :: "int option"
  pv_y :: "int option"
  pv_width :: "nat option"
  pv_height :: "nat option"
  pv_refresh :: "nat option"

abbreviation (input) u32_parse :: "utext \<Rightarrow> nat option" where "u32_parse \<equiv> parse_unsigned (2 ^ 32)"
abbreviation (input) i32_parse :: "utext \<Rightarrow> int option" where "i32_parse \<equiv> parse_signed (2 ^ 31)"

definition parse_field :: "utext \<Rightarrow> utext \<Rightarrow> parse_vars \<Rightarrow> parse_vars" where
  "parse_field key v p =
     (let s = pv_state p in
      if key = utext_of ''x'' then p\<lparr>pv_x := i32_parse v\<rparr>
      else if key = utext_of ''y'' then p\<lparr>pv_y := i32_parse v\<rparr>
      else if key = utext_of ''width'' then
        (case u32_parse v of None \<Rightarrow> p | Some w \<Rightarrow> p\<lparr>pv_state := s\<lparr>ws_size := (w, snd (ws_size s))\<rparr>\<rparr>)
      else if key = utext_of ''height'' then
        (case u32_parse v of None \<Rightarrow> p | Some h \<Rightarrow> p\<lparr>pv_state := s\<lparr>ws_size := (fst (ws_size s), h)\<rparr>\<rparr>)
      else if key = utext_of ''fullscreen'' then p\<lparr>pv_state := s\<lparr>ws_fullscreen := (v = utext_of ''true'')\<rparr>\<rparr>
      else if key = utext_of ''muted'' then p\<lparr>pv_state := s\<lparr>ws_muted := (v = utext_of ''true'')\<rparr>\<rparr>
      else if key = utext_of ''display_width'' then p\<lparr>pv_width := u32_parse v\<rparr>
      else if key = utext_of ''display_height'' then p\<lparr>pv_height := u32_parse v\<rparr>
      else if key = utext_of ''display_refresh_hz'' then p\<lparr>pv_refresh := u32_parse v\<rparr>
      else if key = utext_of ''quality'' then
        (case quality_parse v of None \<Rightarrow> p | Some q \<Rightarrow> p\<lparr>pv_state := s\<lparr>ws_quality := q\<rparr>\<rparr>)
      else p)"

definition parse_line :: "utext \<Rightarrow> parse_vars \<Rightarrow> parse_vars" where
  "parse_line line p =
     (case split_once 61 line of None \<Rightarrow> p | Some (key, v) \<Rightarrow> parse_field (trim key) (trim v) p)"

definition parse_finish :: "parse_vars \<Rightarrow> window_state" where
  "parse_finish p =
     (let s = (pv_state p)\<lparr>
            ws_position := (case (pv_x p, pv_y p) of (Some x, Some y) \<Rightarrow> Some (x, y) | _ \<Rightarrow> None),
            ws_display_mode := (case (pv_width p, pv_height p, pv_refresh p) of
               (Some w, Some h, Some r) \<Rightarrow> display_mode_new w h r | _ \<Rightarrow> None)\<rparr> in
      if fst (ws_size s) = 0 \<or> snd (ws_size s) = 0 then s\<lparr>ws_size := DEFAULT_SIZE\<rparr> else s)"

definition window_state_parse :: "utext \<Rightarrow> window_state" where
  "window_state_parse contents =
     parse_finish (fold parse_line (text_lines contents)
       \<lparr>pv_state = window_state_default, pv_x = None, pv_y = None, pv_width = None, pv_height = None, pv_refresh = None\<rparr>)"

definition show_bool :: "bool \<Rightarrow> utext" where
  "show_bool b = (if b then utext_of ''true'' else utext_of ''false'')"

text \<open>One \<open>writeln!\<close>, without its newline.\<close>

definition field_line :: "string \<Rightarrow> utext \<Rightarrow> utext" where
  "field_line key v = utext_of key @ utext_of '' = '' @ v"

definition window_state_lines :: "window_state \<Rightarrow> utext list" where
  "window_state_lines s =
     (case ws_position s of None \<Rightarrow> [] | Some (x, y) \<Rightarrow> [field_line ''x'' (show_int x), field_line ''y'' (show_int y)]) @
     [field_line ''width'' (show_nat (fst (ws_size s))), field_line ''height'' (show_nat (snd (ws_size s))),
      field_line ''fullscreen'' (show_bool (ws_fullscreen s)), field_line ''quality'' (quality_as_str (ws_quality s)),
      field_line ''muted'' (show_bool (ws_muted s))] @
     (case ws_display_mode s of None \<Rightarrow> [] | Some m \<Rightarrow>
        [field_line ''display_width'' (show_nat (dm_width m)), field_line ''display_height'' (show_nat (dm_height m)),
         field_line ''display_refresh_hz'' (show_nat (dm_refresh_hz m))])"

definition window_state_render :: "window_state \<Rightarrow> utext" where
  "window_state_render s = unlines (window_state_lines s)"

text \<open>\<open>load\<close>, of what the file system gave for the file.\<close>

definition store_load :: "utext option \<Rightarrow> window_state" where
  "store_load contents = (case contents of None \<Rightarrow> window_state_default | Some t \<Rightarrow> window_state_parse t)"

definition file_char :: "nat \<Rightarrow> bool" where
  "file_char c \<longleftrightarrow> 48 \<le> c \<and> c \<le> 57 \<or> 65 \<le> c \<and> c \<le> 90 \<or> 97 \<le> c \<and> c \<le> 122 \<or> c = 45 \<or> c = 95 \<or> c = 46"

text \<open>\<open>truncate\<close> counts bytes and panics inside a character; every character here is one byte.\<close>

definition file_name :: "utext \<Rightarrow> utext" where
  "file_name vm_name =
     (let name = map (\<lambda>c. if file_char c then c else 95) vm_name;
          name' = (if list_all (\<lambda>c. c = 46) name then utext_of ''vm'' else name) in
      take 96 name')"

section \<open>The picture and the pointer\<close>

lemma fit_below: "0 < b \<Longrightarrow> along * a \<le> c * b \<Longrightarrow> 0 < c \<Longrightarrow> max (fit_axis along a b) 1 \<le> c"
  by (auto simp: fit_axis_def min_le_iff_disj div_le_mono less_eq_div_iff_mult_less_eq [symmetric]
      intro!: disjI1 dest: div_le_mono [of _ _ b])

text \<open>The picture is whole, inside the client area, and touches two opposite edges of it.\<close>

lemma place_picture_cases:
  assumes "place_picture gw gh cw ch = res"
  shows "res = Ok None \<and> (cw \<le> 0 \<or> ch \<le> 0 \<or> gw = 0 \<or> gh = 0) \<or>
    (\<exists>p. res = Ok (Some p) \<and> pic_guest_width p = gw \<and> pic_guest_height p = gh \<and> 0 < gw \<and> 0 < gh \<and>
      0 \<le> pic_x p \<and> pic_x p + int (pic_width p) \<le> cw \<and> 0 \<le> pic_y p \<and> pic_y p + int (pic_height p) \<le> ch \<and>
      0 < pic_width p \<and> 0 < pic_height p \<and> (int (pic_width p) = cw \<or> int (pic_height p) = ch) \<and>
      pic_x p = (cw - int (pic_width p)) div 2 \<and> pic_y p = (ch - int (pic_height p)) div 2)"
proof (cases "cw \<le> 0 \<or> ch \<le> 0 \<or> gw = 0 \<or> gh = 0")
  case True
  then show ?thesis using assms by (auto simp: place_picture_def to_u32_def)
next
  case False
  define w h where "w = nat cw" and "h = nat ch"
  have c: "cw = int w" "ch = int h" "0 < w" "0 < h" "0 < gw" "0 < gh" using False by (auto simp: w_def h_def)
  have m: "int ((a - b) div 2) + int b \<le> int a \<and> int ((a - b) div 2) = (int a - int b) div 2" if "b \<le> a" for a b :: nat
    using that by (auto simp: zdiv_int of_nat_diff)
  show ?thesis
  proof (cases "w * gh \<le> h * gw")
    case True
    then have "max (fit_axis w gh gw) 1 \<le> h" using c by (intro fit_below) auto
    then show ?thesis using True c assms m [of w w] m [of "max (fit_axis w gh gw) 1" h]
      by (intro disjI2) (auto simp: place_picture_def to_u32_def Let_def simp del: max.bounded_iff)
  next
    case False
    then have "max (fit_axis h gw gh) 1 \<le> w" using c by (intro fit_below) auto
    then show ?thesis using False c assms m [of h h] m [of "max (fit_axis h gw gh) 1" w]
      by (intro disjI2) (auto simp: place_picture_def to_u32_def Let_def simp del: max.bounded_iff)
  qed
qed

lemma scale_inside: "0 < guest \<Longrightarrow> scale_axis i on_screen guest < guest"
  by (auto simp: scale_axis_def min_def)

lemma to_guest_inside:
  "to_guest p x y = Some (gx, gy) \<Longrightarrow> 0 < pic_guest_width p \<Longrightarrow> 0 < pic_guest_height p \<Longrightarrow>
     gx < pic_guest_width p \<and> gy < pic_guest_height p"
  by (auto simp: to_guest_def scale_inside split: bind_splits if_splits)

lemma clamped_inside:
  "0 < pic_guest_width p \<Longrightarrow> 0 < pic_guest_height p \<Longrightarrow>
     fst (to_guest_clamped p x y) < pic_guest_width p \<and> snd (to_guest_clamped p x y) < pic_guest_height p"
  by (simp add: to_guest_clamped_def scale_inside)

text \<open>A point on the picture means the same to a click and to a drag.\<close>

lemma to_guest_clamped_agrees: "to_guest p x y = Some g \<Longrightarrow> to_guest_clamped p x y = g"
  by (auto simp: to_guest_def to_guest_clamped_def clamp_inside_def checked_sub32_def to_u32_def sat_sub_def sat32_def
      in_i32_def min_def max_def split: bind_splits if_splits)

text \<open>Where the picture is not shrunk, every column of the guest is under some column of it.\<close>

lemma scale_onto:
  assumes "g < guest" "guest \<le> on_screen" "guest \<le> u32_max"
  shows "\<exists>i < on_screen. scale_axis i on_screen guest = g"
proof -
  define i where "i = (g * on_screen + (guest - 1)) div guest"
  have "g * on_screen + (guest - 1) < (g + 1) * on_screen" using assms by simp
  moreover have "(g + 1) * on_screen \<le> guest * on_screen" using assms by (intro mult_le_mono1) simp
  ultimately have "i < on_screen" using assms by (simp add: i_def less_mult_imp_div_less mult.commute)
  moreover have "g * on_screen \<le> i * guest"
  proof -
    have "g * on_screen + (guest - 1) < (i + 1) * guest"
      using assms dividend_less_div_times [of guest "g * on_screen + (guest - 1)"] by (simp add: i_def algebra_simps)
    then show ?thesis using assms(1) by (simp add: algebra_simps)
  qed
  moreover have "i * guest \<le> g * on_screen + (guest - 1)" by (simp add: i_def)
  ultimately have "i * guest div on_screen = g"
    using \<open>g * on_screen + (guest - 1) < (g + 1) * on_screen\<close> by (intro div_nat_eqI) (simp_all add: algebra_simps)
  then show ?thesis using \<open>i < on_screen\<close> assms by (intro exI [of _ i]) (auto simp: scale_axis_def)
qed

section \<open>A drag and its answer\<close>

lemma admissible_mirrored: "viewer_admissible = output_admissible"
  by (intro ext) (simp add: viewer_admissible_def output_admissible_def)

text \<open>What the loop of the viewer does with a window: it sees sizes, and it asks now and then whether one is due.\<close>

datatype window_event = Seen nat nat nat | Polled nat

fun resize_events :: "window_event list \<Rightarrow> resize \<Rightarrow> (nat \<times> nat) list \<times> resize" where
  "resize_events [] r = ([], r)"
| "resize_events (Seen width height now # evs) r = resize_events evs (resize_observe width height now r)"
| "resize_events (Polled now # evs) r =
     (let (asked, r1) = resize_due now r; (more, r2) = resize_events evs r1 in
      ((case asked of None \<Rightarrow> [] | Some s \<Rightarrow> [s]) @ more, r2))"

text \<open>A drag: sizes with pixels in them, and no poll that finds the last of them at rest.\<close>

fun dragging :: "nat option \<Rightarrow> window_event list \<Rightarrow> bool" where
  "dragging seen [] = True"
| "dragging seen (Seen width height now # evs) = (0 < width \<and> 0 < height \<and> dragging (Some now) evs)"
| "dragging seen (Polled now # evs) = ((case seen of None \<Rightarrow> True | Some t \<Rightarrow> now < t + DEBOUNCE) \<and> dragging seen evs)"

lemma resize_events_append:
  "resize_events (a @ b) r = (let (x, r1) = resize_events a r; (y, r2) = resize_events b r1 in (x @ y, r2))"
  by (induction a r rule: resize_events.induct) (simp_all add: Let_def split: prod.split)

lemma dragging_asks_nothing:
  assumes "dragging seen evs" "case rs_pending r of None \<Rightarrow> True | Some (sz, deadline) \<Rightarrow> \<exists>t. seen = Some t \<and> deadline = t + DEBOUNCE"
  shows "\<exists>r'. resize_events evs r = ([], r') \<and> rs_requested r' = rs_requested r"
  using assms
proof (induction seen evs arbitrary: r rule: dragging.induct)
  case (2 seen width height now evs)
  then show ?case using "2.IH" [of "resize_observe width height now r"] by (auto simp: resize_observe_def)
next
  case (3 seen now evs)
  have "resize_due now r = (None, r)" using 3(2,3) by (auto simp: resize_due_def split: option.splits)
  then show ?case using "3.IH" [of r] 3(2,3) by auto
qed simp

text \<open>The drag becomes one request, for where it ended, and none when that is what was last asked for.\<close>

lemma drag_asked_once:
  assumes "dragging None evs" "rs_pending r = None" "0 < width" "0 < height" "t + DEBOUNCE \<le> t'"
  shows "\<exists>r'. resize_events (evs @ [Seen width height t, Polled t']) r =
      ((if rs_requested r = Some (width, height) then [] else [(width, height)]), r') \<and>
    rs_requested r' = Some (width, height) \<and> rs_pending r' = None"
proof -
  obtain r1 where "resize_events evs r = ([], r1)" "rs_requested r1 = rs_requested r"
    using dragging_asks_nothing [of None evs r] assms by auto
  then show ?thesis using assms(3-5) by (auto simp: resize_events_append resize_observe_def resize_due_def)
qed

lemma answer_moves_nothing:
  "rs_requested r = Some (width, height) \<Longrightarrow> output_admissible width height = Some (w, h) \<Longrightarrow>
     follow_geometry set_client_size w h r = r"
  by (simp add: follow_geometry_def is_guests_own_def admissible_mirrored)

section \<open>Where a window opens\<close>

definition sane_screen :: "screen_rect \<Rightarrow> bool" where
  "sane_screen m \<longleftrightarrow> - 1000000000 \<le> sr_left m \<and> sr_left m + fst MIN_VISIBLE \<le> sr_right m \<and> sr_right m \<le> 1000000000 \<and>
     - 1000000000 \<le> sr_top m \<and> sr_top m + snd MIN_VISIBLE \<le> sr_bottom m \<and> sr_bottom m \<le> 1000000000"

lemma sat32_id: "in_i32 i \<Longrightarrow> sat32 i = i"
  by (simp add: sat32_def in_i32_def)

lemma as_coordinate_range: "0 \<le> as_coordinate n \<and> as_coordinate n \<le> i32_max"
  by (simp add: as_coordinate_def)

text \<open>One axis: an edge that \<open>spare\<close> gives leaves the strip on the screen, or all of a narrower window.\<close>

lemma spare_visible:
  assumes "- 1000000000 \<le> low" "low + strip \<le> high" "high \<le> 1000000000" "0 \<le> extent" "extent \<le> i32_max" "0 < strip" "strip \<le> 120"
  shows "\<exists>e. spare low high extent = Ok e \<and> low \<le> e \<and>
    min strip (sat_sub (sat_add e extent) e) \<le> max (sat_sub (min (sat_add e extent) high) (max e low)) 0"
proof -
  have room: "sat_sub high low = high - low" using assms by (simp add: sat_sub_def sat32_id in_i32_def)
  define e where "e = low + max (high - low - extent) 0 div 2"
  have e: "low \<le> e" "e \<le> high - strip \<or> e = low \<or> e + extent \<le> high" "e \<le> high" "extent \<le> high - low \<longrightarrow> e + extent \<le> high"
    using assms by (auto simp: e_def max_def)
  have "spare low high extent = Ok e" using assms room e by (auto simp: spare_def Let_def in_i32_def e_def [symmetric])
  moreover have "min strip (sat_sub (sat_add e extent) e) \<le> max (sat_sub (min (sat_add e extent) high) (max e low)) 0"
  proof (cases "extent \<le> high - low")
    case True
    then have "e + extent \<le> high" "sat_add e extent = e + extent" using e assms by (auto simp: sat_add_def sat32_id in_i32_def)
    then show ?thesis using e by (simp add: min_def max_def)
  next
    case False
    then have "e = low" by (simp add: e_def max_def)
    moreover have "high \<le> sat_add e extent" using False assms \<open>e = low\<close> by (auto simp: sat_add_def sat32_def)
    ultimately show ?thesis using room assms by (simp add: min_def max_def)
  qed
  ultimately show ?thesis using e(1) by blast
qed

lemma centred_reachable:
  assumes "sane_screen m"
  shows "\<exists>p. window_centred m extent = Ok p \<and> window_reachable (window_rectangle p extent) m"
proof -
  obtain x where x: "spare (sr_left m) (sr_right m) (as_coordinate (fst extent)) = Ok x" "sr_left m \<le> x"
    "min (fst MIN_VISIBLE) (sat_sub (sat_add x (as_coordinate (fst extent))) x) \<le>
       max (sat_sub (min (sat_add x (as_coordinate (fst extent))) (sr_right m)) (max x (sr_left m))) 0"
    using spare_visible [of "sr_left m" "fst MIN_VISIBLE" "sr_right m" "as_coordinate (fst extent)"] assms as_coordinate_range [of "fst extent"]
    by (auto simp: sane_screen_def MIN_VISIBLE_def)
  obtain y where y: "spare (sr_top m) (sr_bottom m) (as_coordinate (snd extent)) = Ok y" "sr_top m \<le> y"
    "min (snd MIN_VISIBLE) (sat_sub (sat_add y (as_coordinate (snd extent))) y) \<le>
       max (sat_sub (min (sat_add y (as_coordinate (snd extent))) (sr_bottom m)) (max y (sr_top m))) 0"
    using spare_visible [of "sr_top m" "snd MIN_VISIBLE" "sr_bottom m" "as_coordinate (snd extent)"] assms as_coordinate_range [of "snd extent"]
    by (auto simp: sane_screen_def MIN_VISIBLE_def)
  show ?thesis using x y by (auto simp: window_centred_def window_reachable_def window_rectangle_def shared_extent_def Let_def)
qed

lemma most_overlap_in: "most_overlap window target most ms \<in> insert target (set ms)"
  by (induction ms arbitrary: target most) (auto simp: Let_def)

lemma opening_reachable:
  assumes "list_all sane_screen monitors" "monitors \<noteq> []"
  shows "\<exists>p. opening_position position extent monitors = Ok (Some p) \<and>
    list_ex (window_reachable (window_rectangle p extent)) monitors \<and>
    (list_ex (window_reachable (window_rectangle position extent)) monitors \<longrightarrow> p = position)"
proof (cases monitors)
  case (Cons first rest)
  let ?w = "window_rectangle position extent"
  let ?m = "most_overlap ?w first (window_overlap ?w first) rest"
  have m: "?m \<in> set monitors" using most_overlap_in [of ?w first _ rest] Cons by auto
  then have "sane_screen ?m" using assms(1) unfolding list_all_iff by blast
  from centred_reachable [OF this] obtain p where
    "window_centred ?m extent = Ok p" "window_reachable (window_rectangle p extent) ?m" by blast
  then show ?thesis using Cons m
    by (cases "list_ex (window_reachable ?w) monitors") (auto simp: opening_position_def Let_def list_ex_iff)
qed (use assms in simp)

text \<open>
  A position at the end of the range makes a rectangle with no width, of which nothing needs to be visible: it
  counts as reachable from every screen, and the window opens where nobody sees it.
\<close>

lemma edge_position_kept:
  "opening_position (i32_max, i32_max) extent [\<lparr>sr_left = 0, sr_top = 0, sr_right = 1920, sr_bottom = 1080\<rparr>] =
     Ok (Some (i32_max, i32_max))"
  using as_coordinate_range [of "fst extent"] as_coordinate_range [of "snd extent"]
  by (simp add: opening_position_def window_reachable_def shared_extent_def window_rectangle_def sat_add_def sat_sub_def sat32_def
      MIN_VISIBLE_def Let_def)

section \<open>The remembered window\<close>

text \<open>What a file can be read as: a size with pixels in it, and a mode the output drives or none.\<close>

definition state_ok :: "window_state \<Rightarrow> bool" where
  "state_ok s \<longleftrightarrow> 0 < fst (ws_size s) \<and> 0 < snd (ws_size s) \<and> (\<forall>m. ws_display_mode s = Some m \<longrightarrow> drivable m)"

lemma parse_finish_ok: "state_ok (parse_finish p)"
  by (auto simp: state_ok_def parse_finish_def Let_def DEFAULT_SIZE_def display_mode_new_iff split: option.splits)

definition state_widths :: "window_state \<Rightarrow> bool" where
  "state_widths s \<longleftrightarrow> fst (ws_size s) < 2 ^ 32 \<and> snd (ws_size s) < 2 ^ 32 \<and>
     (\<forall>x y. ws_position s = Some (x, y) \<longrightarrow> in_i32 x \<and> in_i32 y)"

lemma trim_eq_sign: "trim (utext_of key @ [32]) = trim (utext_of key)" "trim (32 # v) = trim v"
  by (simp_all add: trim_white)

text \<open>A written line is read as the field it names.\<close>

lemma parse_field_line:
  assumes "61 \<notin> set (utext_of key)" "trim (utext_of key) = utext_of key" "trim v = v"
  shows "parse_line (field_line key v) p = parse_field (utext_of key) v p"
proof -
  have "field_line key v = (utext_of key @ [32]) @ 61 # (32 # v)" by (simp add: field_line_def utext_of_def)
  then have "split_once 61 (field_line key v) = Some (utext_of key @ [32], 32 # v)"
    using split_once_append [of 61 "utext_of key @ [32]" "32 # v"] assms(1) by simp
  then show ?thesis using assms by (simp add: parse_line_def trim_white)
qed

lemma key_trim: "\<forall>c \<in> set t. \<not> is_whitespace c \<Longrightarrow> trim t = t"
  using trim_plain [of t] hd_in_set [of t] last_in_set [of t] by (cases "t = []") (auto simp: trim_def)

lemmas word_simps = utext_of_def is_whitespace_def

lemma parse_lines:
  "trim v = v \<Longrightarrow> parse_line (field_line ''x'' v) p = parse_field (utext_of ''x'') v p"
  "trim v = v \<Longrightarrow> parse_line (field_line ''y'' v) p = parse_field (utext_of ''y'') v p"
  "trim v = v \<Longrightarrow> parse_line (field_line ''width'' v) p = parse_field (utext_of ''width'') v p"
  "trim v = v \<Longrightarrow> parse_line (field_line ''height'' v) p = parse_field (utext_of ''height'') v p"
  "trim v = v \<Longrightarrow> parse_line (field_line ''fullscreen'' v) p = parse_field (utext_of ''fullscreen'') v p"
  "trim v = v \<Longrightarrow> parse_line (field_line ''quality'' v) p = parse_field (utext_of ''quality'') v p"
  "trim v = v \<Longrightarrow> parse_line (field_line ''muted'' v) p = parse_field (utext_of ''muted'') v p"
  "trim v = v \<Longrightarrow> parse_line (field_line ''display_width'' v) p = parse_field (utext_of ''display_width'') v p"
  "trim v = v \<Longrightarrow> parse_line (field_line ''display_height'' v) p = parse_field (utext_of ''display_height'') v p"
  "trim v = v \<Longrightarrow> parse_line (field_line ''display_refresh_hz'' v) p = parse_field (utext_of ''display_refresh_hz'') v p"
  by (rule parse_field_line, simp add: word_simps, rule key_trim, simp add: word_simps, assumption)+

lemma parse_fields:
  "parse_field (utext_of ''x'') v p = p\<lparr>pv_x := i32_parse v\<rparr>"
  "parse_field (utext_of ''y'') v p = p\<lparr>pv_y := i32_parse v\<rparr>"
  "parse_field (utext_of ''width'') v p =
     (case u32_parse v of None \<Rightarrow> p | Some w \<Rightarrow> p\<lparr>pv_state := (pv_state p)\<lparr>ws_size := (w, snd (ws_size (pv_state p)))\<rparr>\<rparr>)"
  "parse_field (utext_of ''height'') v p =
     (case u32_parse v of None \<Rightarrow> p | Some h \<Rightarrow> p\<lparr>pv_state := (pv_state p)\<lparr>ws_size := (fst (ws_size (pv_state p)), h)\<rparr>\<rparr>)"
  "parse_field (utext_of ''fullscreen'') v p = p\<lparr>pv_state := (pv_state p)\<lparr>ws_fullscreen := (v = utext_of ''true'')\<rparr>\<rparr>"
  "parse_field (utext_of ''muted'') v p = p\<lparr>pv_state := (pv_state p)\<lparr>ws_muted := (v = utext_of ''true'')\<rparr>\<rparr>"
  "parse_field (utext_of ''quality'') v p =
     (case quality_parse v of None \<Rightarrow> p | Some q \<Rightarrow> p\<lparr>pv_state := (pv_state p)\<lparr>ws_quality := q\<rparr>\<rparr>)"
  "parse_field (utext_of ''display_width'') v p = p\<lparr>pv_width := u32_parse v\<rparr>"
  "parse_field (utext_of ''display_height'') v p = p\<lparr>pv_height := u32_parse v\<rparr>"
  "parse_field (utext_of ''display_refresh_hz'') v p = p\<lparr>pv_refresh := u32_parse v\<rparr>"
  by (simp_all add: parse_field_def utext_of_def Let_def)

lemma trim_words [simp]: "trim (show_bool b) = show_bool b" "trim (quality_as_str q) = quality_as_str q"
  by (rule key_trim, simp add: show_bool_def word_simps) (rule key_trim, cases q, simp_all add: word_simps)

lemma show_bool_true [simp]: "show_bool b = utext_of ''true'' \<longleftrightarrow> b"
  by (simp add: show_bool_def word_simps)

lemma quality_parse_str [simp]: "quality_parse (quality_as_str q) = Some q"
  by (cases q) (simp_all add: quality_parse_def word_simps)

lemma plain_key: "plain_line (utext_of key) \<longleftrightarrow> list_all (\<lambda>c. of_char c \<noteq> (10 :: nat) \<and> of_char c \<noteq> (13 :: nat)) key"
  by (auto simp: plain_line_def utext_of_def list_all_iff image_iff)

lemma plain_field: "plain_line (field_line key v) \<longleftrightarrow> plain_line (utext_of key) \<and> plain_line v"
  by (auto simp: field_line_def plain_line_def utext_of_def)

lemma plain_words: "plain_line (show_bool b)" "plain_line (quality_as_str q)"
  by (simp add: show_bool_def plain_key) (cases q, simp_all add: plain_key)

lemma state_lines_plain: "list_all plain_line (window_state_lines s)"
  by (simp add: window_state_lines_def plain_field plain_key plain_words plain_show split: option.split)

text \<open>A state that is written and read is the state that was written.\<close>

lemma state_round_trip:
  assumes "state_ok s" "state_widths s"
  shows "window_state_parse (window_state_render s) = s"
proof -
  have m: "dm_width m < 2 ^ 32" "dm_height m < 2 ^ 32" "dm_refresh_hz m < 2 ^ 32" if "ws_display_mode s = Some m" for m
    using assms(1) that by (auto simp: state_ok_def drivable_def output_admissible_fixed mode_bounds)
  have mode: "display_mode_new (dm_width m) (dm_height m) (dm_refresh_hz m) = Some m" if "ws_display_mode s = Some m" for m
    using assms(1) that by (simp add: state_ok_def display_mode_new_iff)
  have lines: "text_lines (window_state_render s) = window_state_lines s"
    unfolding window_state_render_def by (rule text_lines_unlines [OF state_lines_plain])
  have size: "fst (ws_size s) < 2 ^ 32" "snd (ws_size s) < 2 ^ 32" "0 < fst (ws_size s)" "0 < snd (ws_size s)"
    using assms by (simp_all add: state_ok_def state_widths_def)
  have at: "- int (2 ^ 31) \<le> x \<and> x < int (2 ^ 31) \<and> - int (2 ^ 31) \<le> y \<and> y < int (2 ^ 31)" if "ws_position s = Some (x, y)" for x y
    using assms(2) that by (simp add: state_widths_def in_i32_def)
  note simps = window_state_parse_def lines window_state_lines_def parse_lines parse_fields parse_finish_def window_state_default_def
  show ?thesis
  proof (cases "ws_position s")
    case None
    then show ?thesis using size m mode by (cases "ws_display_mode s") (simp_all add: simps)
  next
    case (Some p)
    then obtain x y where "ws_position s = Some (x, y)" by (cases p) simp
    then show ?thesis using size m mode at [of x y] by (cases "ws_display_mode s") (simp_all add: simps)
  qed
qed

section \<open>The file a name stands for\<close>

lemma file_name_safe:
  "list_all file_char (file_name vm_name) \<and> 1 \<le> length (file_name vm_name) \<and> length (file_name vm_name) \<le> 96"
proof -
  let ?n = "map (\<lambda>c. if file_char c then c else 95) vm_name"
  have "file_char 95" by (simp add: file_char_def)
  then have "list_all file_char ?n" by (auto simp: list_all_iff)
  then have "list_all file_char (take 96 ?n)" unfolding list_all_iff by (meson in_set_takeD)
  moreover have "list_all file_char (utext_of ''vm'')" "length (utext_of ''vm'') = 2" "take 96 (utext_of ''vm'') = utext_of ''vm''"
    by (simp_all add: utext_of_def file_char_def)
  moreover have "1 \<le> length (take 96 ?n)" if "\<not> list_all (\<lambda>c. c = 46) ?n"
    using that by (cases vm_name) (simp_all del: take_Cons_numeral)
  ultimately show ?thesis unfolding file_name_def Let_def
    by (cases "list_all (\<lambda>c. c = 46) ?n") (simp_all del: list.pred_map)
qed

end
