(* ===== verification/Input_Policy.thy ===== *)
theory Input_Policy
  imports Viewer_Window
begin

text \<open>
  What the viewer tells the guest of what its user does: the key map (\<open>input/keymap.rs\<close>) and the policy
  (\<open>input/mod.rs\<close>) that decides which reports of the window become events of the input channel. A \<open>BTreeSet\<close> of
  codes is a set; codes are \<open>u16\<close> words, client points \<open>i32\<close> as integers and guest pixels \<open>u32\<close> as naturals.
\<close>

section \<open>The key map\<close>

definition VK_PAUSE :: u16 where "VK_PAUSE = 0x13"
definition VK_NUMLOCK :: u16 where "VK_NUMLOCK = 0x90"
definition VK_SNAPSHOT :: u16 where "VK_SNAPSHOT = 0x2c"

definition KEY_LEFTCTRL :: u16 where "KEY_LEFTCTRL = 29"
definition KEY_LEFTSHIFT :: u16 where "KEY_LEFTSHIFT = 42"
definition KEY_LEFTALT :: u16 where "KEY_LEFTALT = 56"
definition KEY_DELETE :: u16 where "KEY_DELETE = 111"
definition KEY_PAUSE :: u16 where "KEY_PAUSE = 119"
definition KEY_NUMLOCK :: u16 where "KEY_NUMLOCK = 69"
definition KEY_SYSRQ :: u16 where "KEY_SYSRQ = 99"

lemmas key_codes = KEY_LEFTCTRL_def KEY_LEFTSHIFT_def KEY_LEFTALT_def KEY_DELETE_def KEY_PAUSE_def
  KEY_NUMLOCK_def KEY_SYSRQ_def

definition base_keycode :: "u16 \<Rightarrow> u16 option" where
  "base_keycode scan =
     (if 0x01 \<le> scan \<and> scan \<le> 0x53 then Some scan
      else if scan = 0x56 then Some 86
      else if scan = 0x57 then Some 87
      else if scan = 0x58 then Some 88
      else None)"

definition extended_keycode :: "u16 \<Rightarrow> u16 option" where
  "extended_keycode scan = map_of
     [(0x1c, 96), (0x1d, 97), (0x20, 113), (0x2e, 114), (0x30, 115), (0x35, 98), (0x38, 100), (0x46, KEY_PAUSE),
      (0x47, 102), (0x48, 103), (0x49, 104), (0x4b, 105), (0x4d, 106), (0x4f, 107), (0x50, 108), (0x51, 109),
      (0x52, 110), (0x53, 111), (0x5b, 125), (0x5c, 126), (0x5d, 127)] scan"

definition keycode :: "u16 \<Rightarrow> bool \<Rightarrow> u16 \<Rightarrow> u16 option" where
  "keycode scan extended virtual_key =
     (if virtual_key = VK_PAUSE then Some KEY_PAUSE
      else if virtual_key = VK_NUMLOCK then Some KEY_NUMLOCK
      else if virtual_key = VK_SNAPSHOT then Some KEY_SYSRQ
      else if extended then extended_keycode scan
      else base_keycode scan)"

section \<open>Events and reports\<close>

datatype input_event =
    KeyEv u16 bool
  | MotionEv nat nat
  | ButtonEv u16 bool
  | ScrollEv int int
  | ReleaseAllEv

datatype input_report =
    FocusGained
  | FocusLost
  | PointerAt int int
  | PointerLeft
  | ButtonChanged u16 bool
  | WheelTurned int int
  | KeyChanged u16 bool u16 bool
  | InputChannelLost
  | ReleaseKeyboard
  | SecureAttention

section \<open>The policy\<close>

record policy =
  py_placement :: "picture option"
  py_focused :: bool
  py_keys :: "u16 set"
  py_buttons :: "u16 set"
  py_pointer :: "(int \<times> int) option"
  py_queue :: "input_event list"
  py_release_requested :: bool

definition policy_new :: policy where
  "policy_new = \<lparr>py_placement = None, py_focused = False, py_keys = {}, py_buttons = {}, py_pointer = None,
     py_queue = [], py_release_requested = False\<rparr>"

definition set_placement :: "picture option \<Rightarrow> policy \<Rightarrow> policy" where
  "set_placement placement p = p\<lparr>py_placement := placement\<rparr>"

definition policy_drain :: "policy \<Rightarrow> input_event list \<times> policy" where
  "policy_drain p = (py_queue p, p\<lparr>py_queue := []\<rparr>)"

definition keyboard_release_requested :: "policy \<Rightarrow> bool \<times> policy" where
  "keyboard_release_requested p = (py_release_requested p, p\<lparr>py_release_requested := False\<rparr>)"

definition push_event :: "input_event \<Rightarrow> policy \<Rightarrow> policy" where
  "push_event e p = p\<lparr>py_queue := py_queue p @ [e]\<rparr>"

definition over_picture :: "policy \<Rightarrow> bool" where
  "over_picture p =
     (case (py_placement p, py_pointer p) of
        (Some placement, Some (x, y)) \<Rightarrow> to_guest placement x y \<noteq> None
      | _ \<Rightarrow> False)"

definition policy_release_all :: "policy \<Rightarrow> policy" where
  "policy_release_all p =
     (if py_keys p = {} \<and> py_buttons p = {} then p
      else push_event ReleaseAllEv (p\<lparr>py_keys := {}, py_buttons := {}\<rparr>))"

definition release_keyboard :: "policy \<Rightarrow> policy" where
  "release_keyboard p = (policy_release_all (p\<lparr>py_focused := False\<rparr>))\<lparr>py_release_requested := True\<rparr>"

definition policy_key :: "u16 \<Rightarrow> bool \<Rightarrow> u16 \<Rightarrow> bool \<Rightarrow> policy \<Rightarrow> policy" where
  "policy_key scan extended virtual_key pressed p =
     (if \<not> py_focused p then p
      else case keycode scan extended virtual_key of
          None \<Rightarrow> p
        | Some code \<Rightarrow>
            if pressed \<and> code = KEY_LEFTSHIFT \<and> KEY_LEFTCTRL \<in> py_keys p \<and> KEY_LEFTALT \<in> py_keys p
            then release_keyboard p
            else push_event (KeyEv code pressed)
              (p\<lparr>py_keys := (if pressed then insert code (py_keys p) else py_keys p - {code})\<rparr>))"

definition is_motion :: "input_event \<Rightarrow> bool" where
  "is_motion e = (case e of MotionEv x y \<Rightarrow> True | _ \<Rightarrow> False)"

definition push_motion :: "nat \<times> nat \<Rightarrow> input_event list \<Rightarrow> input_event list" where
  "push_motion position queue =
     (if queue \<noteq> [] \<and> is_motion (last queue) then butlast queue else queue) @ [MotionEv (fst position) (snd position)]"

definition policy_pointer :: "int \<Rightarrow> int \<Rightarrow> policy \<Rightarrow> policy" where
  "policy_pointer x y p =
     (let p = p\<lparr>py_pointer := Some (x, y)\<rparr> in
      case py_placement p of
        None \<Rightarrow> p
      | Some placement \<Rightarrow>
          (case to_guest placement x y of
             Some position \<Rightarrow> p\<lparr>py_queue := push_motion position (py_queue p)\<rparr>
           | None \<Rightarrow>
               if py_buttons p \<noteq> {} then p\<lparr>py_queue := push_motion (to_guest_clamped placement x y) (py_queue p)\<rparr>
               else p))"

definition policy_button :: "u16 \<Rightarrow> bool \<Rightarrow> policy \<Rightarrow> policy" where
  "policy_button button pressed p =
     (if pressed then
        (if \<not> over_picture p then p
         else push_event (ButtonEv button True) (p\<lparr>py_buttons := insert button (py_buttons p)\<rparr>))
      else if button \<notin> py_buttons p then p
      else push_event (ButtonEv button False) (p\<lparr>py_buttons := py_buttons p - {button}\<rparr>))"

definition policy_wheel :: "int \<Rightarrow> int \<Rightarrow> policy \<Rightarrow> policy" where
  "policy_wheel horizontal vertical p =
     (if \<not> over_picture p \<or> (horizontal = 0 \<and> vertical = 0) then p
      else push_event (ScrollEv horizontal vertical) p)"

definition SECURE_ATTENTION :: "input_event list" where
  "SECURE_ATTENTION =
     map (\<lambda>k. KeyEv k True) [KEY_LEFTCTRL, KEY_LEFTALT, KEY_DELETE] @
     map (\<lambda>k. KeyEv k False) [KEY_DELETE, KEY_LEFTALT, KEY_LEFTCTRL]"

definition secure_attention :: "policy \<Rightarrow> policy" where
  "secure_attention p = p\<lparr>py_queue := py_queue p @ SECURE_ATTENTION\<rparr>"

fun policy_report :: "input_report \<Rightarrow> policy \<Rightarrow> policy" where
  "policy_report FocusGained p = p\<lparr>py_focused := True\<rparr>"
| "policy_report FocusLost p = policy_release_all (p\<lparr>py_focused := False\<rparr>)"
| "policy_report ReleaseKeyboard p = release_keyboard p"
| "policy_report InputChannelLost p = p\<lparr>py_keys := {}, py_buttons := {}\<rparr>"
| "policy_report SecureAttention p = secure_attention p"
| "policy_report (KeyChanged scan extended virtual_key pressed) p = policy_key scan extended virtual_key pressed p"
| "policy_report (PointerAt x y) p = policy_pointer x y p"
| "policy_report PointerLeft p = p\<lparr>py_pointer := None\<rparr>"
| "policy_report (ButtonChanged button pressed) p = policy_button button pressed p"
| "policy_report (WheelTurned horizontal vertical) p = policy_wheel horizontal vertical p"

lemmas policy_simps = policy_release_all_def release_keyboard_def push_event_def policy_key_def policy_pointer_def
  policy_button_def policy_wheel_def secure_attention_def set_placement_def Let_def

section \<open>What the policy may say\<close>

text \<open>The codes of the keyboard and of the pointer, and the events that carry no others.\<close>

definition key_range :: "u16 \<Rightarrow> bool" where "key_range code \<longleftrightarrow> 1 \<le> code \<and> code \<le> 127"
definition button_range :: "u16 \<Rightarrow> bool" where "button_range code \<longleftrightarrow> 0x110 \<le> code \<and> code \<le> 0x114"

lemma base_keycode_range: "base_keycode scan = Some code \<Longrightarrow> key_range code"
  by (auto simp: base_keycode_def key_range_def split: if_splits elim: order.trans)

lemma extended_keycode_range: "extended_keycode scan = Some code \<Longrightarrow> key_range code"
  by (auto simp: extended_keycode_def key_range_def KEY_PAUSE_def split: if_splits)

lemma keycode_range: "keycode scan extended virtual_key = Some code \<Longrightarrow> key_range code"
  by (auto simp: keycode_def key_range_def key_codes split: if_splits
      dest: base_keycode_range [unfolded key_range_def] extended_keycode_range [unfolded key_range_def])

text \<open>The two pages never collide: a code of the extended page is at no position of the base page but the ones named.\<close>

lemma base_keycode_inject: "base_keycode a = Some code \<Longrightarrow> base_keycode b = Some code \<Longrightarrow> a = b"
  by (auto simp: base_keycode_def split: if_splits)

fun report_ok :: "input_report \<Rightarrow> bool" where
  "report_ok (ButtonChanged button pressed) = button_range button"
| "report_ok r = True"

fun event_ok :: "(nat \<Rightarrow> nat \<Rightarrow> bool) \<Rightarrow> input_event \<Rightarrow> bool" where
  "event_ok inside (KeyEv code pressed) = key_range code"
| "event_ok inside (MotionEv x y) = inside x y"
| "event_ok inside (ButtonEv code pressed) = button_range code"
| "event_ok inside (ScrollEv h v) = (h \<noteq> 0 \<or> v \<noteq> 0)"
| "event_ok inside ReleaseAllEv = True"

end
