(* ===== verification/Input_Devices.thy ===== *)
theory Input_Devices
  imports Input_Policy Byte_Stream
begin

text \<open>
  The guest's keyboard and pointer as \<open>/dev/uinput\<close> devices (\<open>uinput.rs\<close>), below the creation of the nodes. A
  device is a \<open>Write\<close>: the bytes it has taken and how its next writes go. An \<open>i32\<close> of an event is an integer,
  written out as its two's complement.
\<close>

section \<open>Events\<close>

definition EV_SYN :: u16 where "EV_SYN = 0x00"
definition EV_KEY :: u16 where "EV_KEY = 0x01"
definition EV_REL :: u16 where "EV_REL = 0x02"
definition EV_ABS :: u16 where "EV_ABS = 0x03"
definition ABS_X :: u16 where "ABS_X = 0x00"
definition ABS_Y :: u16 where "ABS_Y = 0x01"
definition REL_HWHEEL :: u16 where "REL_HWHEEL = 0x06"
definition REL_WHEEL :: u16 where "REL_WHEEL = 0x08"
definition REL_WHEEL_HI_RES :: u16 where "REL_WHEEL_HI_RES = 0x0b"
definition REL_HWHEEL_HI_RES :: u16 where "REL_HWHEEL_HI_RES = 0x0c"
definition SYN_REPORT :: u16 where "SYN_REPORT = 0x00"
definition BTN_LEFT :: u16 where "BTN_LEFT = 0x110"
definition BTN_EXTRA :: u16 where "BTN_EXTRA = 0x114"
definition ABS_RANGE :: int where "ABS_RANGE = 32767"
definition ABS_STEPS :: nat where "ABS_STEPS = 32768"
definition DETENT :: int where "DETENT = 120"
definition KEY_MAX_SENT :: u16 where "KEY_MAX_SENT = 127"

lemmas event_codes = EV_SYN_def EV_KEY_def EV_REL_def EV_ABS_def ABS_X_def ABS_Y_def REL_HWHEEL_def REL_WHEEL_def
  REL_WHEEL_HI_RES_def REL_HWHEEL_HI_RES_def SYN_REPORT_def

text \<open>The native byte order of the guests is the little-endian one.\<close>

definition encode_event :: "u16 \<Rightarrow> u16 \<Rightarrow> int \<Rightarrow> bytes" where
  "encode_event kind code value =
     replicate 16 0 @ u16_to_le kind @ u16_to_le code @ u32_to_le (word_of_int value)"

definition emit :: "bytes list \<Rightarrow> sink \<Rightarrow> (io_kind, unit) outcome \<times> sink" where
  "emit evs device =
     (if evs = [] then (Ok (), device)
      else write_all (concat evs @ encode_event EV_SYN SYN_REPORT 0) device)"

section \<open>The keyboard\<close>

record keyboard =
  kb_device :: sink
  kb_held :: "u16 set"

definition keyboard_new :: "sink \<Rightarrow> keyboard" where
  "keyboard_new device = \<lparr>kb_device = device, kb_held = {}\<rparr>"

definition keyboard_emit :: "bytes list \<Rightarrow> keyboard \<Rightarrow> (io_kind, unit) outcome \<times> keyboard" where
  "keyboard_emit evs kb = (let (result, device) = emit evs (kb_device kb) in (result, kb\<lparr>kb_device := device\<rparr>))"

definition keyboard_key :: "u16 \<Rightarrow> bool \<Rightarrow> keyboard \<Rightarrow> (io_kind, unit) outcome \<times> keyboard" where
  "keyboard_key code pressed kb =
     (if code = 0 \<or> code > KEY_MAX_SENT then (Ok (), kb)
      else keyboard_emit [encode_event EV_KEY code (if pressed then 1 else 0)]
        (kb\<lparr>kb_held := (if pressed then insert code (kb_held kb) else kb_held kb - {code})\<rparr>))"

definition keyboard_release_all :: "keyboard \<Rightarrow> (io_kind, unit) outcome \<times> keyboard" where
  "keyboard_release_all kb =
     (if kb_held kb = {} then (Ok (), kb)
      else keyboard_emit (map (\<lambda>code. encode_event EV_KEY code 0) (sorted_list_of_set (kb_held kb)))
        (kb\<lparr>kb_held := {}\<rparr>))"

section \<open>The pointer\<close>

record pointer =
  pt_device :: sink
  pt_held :: "u16 set"
  pt_horizontal :: int
  pt_vertical :: int

definition pointer_new :: "sink \<Rightarrow> pointer" where
  "pointer_new device = \<lparr>pt_device = device, pt_held = {}, pt_horizontal = 0, pt_vertical = 0\<rparr>"

definition pointer_emit :: "bytes list \<Rightarrow> pointer \<Rightarrow> (io_kind, unit) outcome \<times> pointer" where
  "pointer_emit evs pt = (let (result, device) = emit evs (pt_device pt) in (result, pt\<lparr>pt_device := device\<rparr>))"

definition POINTER_OFFSET :: "nat \<times> nat" where "POINTER_OFFSET = (3, 8)"

definition pointer_scale :: "nat \<Rightarrow> nat \<Rightarrow> int" where
  "pointer_scale v extent =
     (let extent = max extent 1;
          v = min v (extent - 1);
          numerator = (v * snd POINTER_OFFSET + fst POINTER_OFFSET) * ABS_STEPS;
          denominator = extent * snd POINTER_OFFSET;
          scaled = (numerator + denominator div 2) div denominator in
      min (if int scaled \<le> i32_max then int scaled else ABS_RANGE) ABS_RANGE)"

definition pointer_motion :: "nat \<Rightarrow> nat \<Rightarrow> nat \<Rightarrow> nat \<Rightarrow> pointer \<Rightarrow> (io_kind, unit) outcome \<times> pointer" where
  "pointer_motion x y width height =
     pointer_emit [encode_event EV_ABS ABS_X (pointer_scale x width), encode_event EV_ABS ABS_Y (pointer_scale y height)]"

definition pointer_button :: "u16 \<Rightarrow> bool \<Rightarrow> pointer \<Rightarrow> (io_kind, unit) outcome \<times> pointer" where
  "pointer_button button pressed pt =
     (if \<not> (BTN_LEFT \<le> button \<and> button \<le> BTN_EXTRA) then (Ok (), pt)
      else pointer_emit [encode_event EV_KEY button (if pressed then 1 else 0)]
        (pt\<lparr>pt_held := (if pressed then insert button (pt_held pt) else pt_held pt - {button})\<rparr>))"

text \<open>Integer division of \<open>i32\<close> truncates towards zero.\<close>

definition trunc_div :: "int \<Rightarrow> int \<Rightarrow> int" where
  "trunc_div a b = (if a < 0 then - ((- a) div b) else a div b)"

text \<open>One axis of the wheel: the events it adds to the group, and the part of a detent it keeps.\<close>

definition scroll_axis :: "u16 \<Rightarrow> u16 \<Rightarrow> int \<Rightarrow> int \<Rightarrow> bytes list \<times> int" where
  "scroll_axis hi_res whole turn carried =
     (if turn = 0 then ([], carried)
      else let carried = sat_add carried turn; detents = trunc_div carried DETENT in
        if detents \<noteq> 0
        then ([encode_event EV_REL hi_res turn, encode_event EV_REL whole detents], carried - detents * DETENT)
        else ([encode_event EV_REL hi_res turn], carried))"

definition pointer_scroll :: "int \<Rightarrow> int \<Rightarrow> pointer \<Rightarrow> (io_kind, unit) outcome \<times> pointer" where
  "pointer_scroll horizontal vertical pt =
     (let (across, h) = scroll_axis REL_HWHEEL_HI_RES REL_HWHEEL horizontal (pt_horizontal pt);
          (along, v) = scroll_axis REL_WHEEL_HI_RES REL_WHEEL vertical (pt_vertical pt) in
      pointer_emit (across @ along) (pt\<lparr>pt_horizontal := h, pt_vertical := v\<rparr>))"

definition pointer_release_all :: "pointer \<Rightarrow> (io_kind, unit) outcome \<times> pointer" where
  "pointer_release_all pt =
     (if pt_held pt = {} then (Ok (), pt)
      else pointer_emit (map (\<lambda>button. encode_event EV_KEY button 0) (sorted_list_of_set (pt_held pt)))
        (pt\<lparr>pt_held := {}\<rparr>))"

section \<open>What the kernel reads\<close>

text \<open>The other side of the device: events of 24 bytes, their kind, code and value, and what they add up to.\<close>

type_synonym kernel_event = "u16 \<times> u16 \<times> int"

fun kernel_events :: "bytes \<Rightarrow> kernel_event list" where
  "kernel_events bs =
     (if length bs < 24 then []
      else (u16_from_le (bs ! 16) (bs ! 17), u16_from_le (bs ! 18) (bs ! 19),
            sint (u32_from_le (bs ! 20) (bs ! 21) (bs ! 22) (bs ! 23))) # kernel_events (drop 24 bs))"

declare kernel_events.simps [simp del]

definition kernel_key :: "kernel_event \<Rightarrow> u16 set \<Rightarrow> u16 set" where
  "kernel_key e down =
     (case e of (kind, code, v) \<Rightarrow> if kind = EV_KEY then (if v = 0 then down - {code} else insert code down) else down)"

definition kernel_down :: "bytes \<Rightarrow> u16 set" where
  "kernel_down bs = fold kernel_key (kernel_events bs) {}"

definition kernel_total :: "u16 \<Rightarrow> kernel_event list \<Rightarrow> int" where
  "kernel_total axis es = (\<Sum>(kind, code, v) \<leftarrow> es. if kind = EV_REL \<and> code = axis then v else 0)"

definition kernel_axis :: "u16 \<Rightarrow> kernel_event list \<Rightarrow> int option" where
  "kernel_axis axis es =
     map_option (\<lambda>(kind, code, v). v) (find (\<lambda>(kind, code, v). kind = EV_ABS \<and> code = axis) (rev es))"

lemma sint_word_of_int32: "in_i32 v \<Longrightarrow> sint (word_of_int v :: u32) = v"
  unfolding in_i32_def by transfer (simp add: signed_take_bit_int_eq_self)

lemma kernel_events_nil [simp]: "kernel_events [] = []"
  by (simp add: kernel_events.simps)

lemma length_encode_event [simp]: "length (encode_event kind code v) = 24"
  by (simp add: encode_event_def)

lemma kernel_events_encode [simp]:
  "kernel_events (encode_event kind code v @ rest) = (kind, code, sint (word_of_int v :: u32)) # kernel_events rest"
proof -
  have fields: "(encode_event kind code v @ rest) ! (16 + i) =
      (u16_to_le kind @ u16_to_le code @ u32_to_le (word_of_int v)) ! i" if "i < 8" for i
    using that by (simp add: encode_event_def nth_append)
  show ?thesis
    using fields [of 0] fields [of 1] fields [of 2] fields [of 3] fields [of 4] fields [of 5] fields [of 6]
      fields [of 7]
    by (subst kernel_events.simps) (simp add: u16_to_le_def u32_to_le_def)
qed

lemma kernel_events_single [simp]: "kernel_events (encode_event kind code v) = [(kind, code, sint (word_of_int v :: u32))]"
  using kernel_events_encode [of kind code v "[]"] by simp

text \<open>Whole events only: what follows does not change how they are read.\<close>

definition whole_events :: "bytes \<Rightarrow> bool" where "whole_events bs \<longleftrightarrow> 24 dvd length bs"

lemma kernel_events_append: "whole_events a \<Longrightarrow> kernel_events (a @ b) = kernel_events a @ kernel_events b"
proof (induction a rule: kernel_events.induct)
  case (1 a)
  show ?case
  proof (cases "a = []")
    case False
    with "1.prems" have long: "24 \<le> length a" by (auto simp: whole_events_def dvd_imp_le)
    with "1.prems" have "whole_events (drop 24 a)" by (auto simp: whole_events_def)
    with "1.IH" long show ?thesis
      by (subst (1 2) kernel_events.simps) (auto simp: nth_append)
  qed simp
qed

lemma whole_encode_event [simp]: "whole_events (encode_event kind code v)"
  by (simp add: whole_events_def)

definition event_bytes :: "kernel_event \<Rightarrow> bytes" where
  "event_bytes e = (case e of (kind, code, v) \<Rightarrow> encode_event kind code v)"

definition events_ok :: "kernel_event list \<Rightarrow> bool" where
  "events_ok es \<longleftrightarrow> (\<forall>e \<in> set es. in_i32 (snd (snd e)))"

text \<open>A value reaches the kernel at the width of \<open>i32\<close>, and one that fits reaches it as it is.\<close>

definition wrapped :: "kernel_event \<Rightarrow> kernel_event" where
  "wrapped e = (case e of (kind, code, v) \<Rightarrow> (kind, code, sint (word_of_int v :: u32)))"

lemma wrapped_fits: "events_ok es \<Longrightarrow> map wrapped es = es"
  by (induction es) (auto simp: events_ok_def wrapped_def sint_word_of_int32)

lemma kernel_events_group:
  "kernel_events (concat (map event_bytes es) @ rest) = map wrapped es @ kernel_events rest"
  by (induction es) (auto simp: event_bytes_def wrapped_def)

lemma whole_group: "whole_events (concat (map event_bytes es))"
  by (induction es) (auto simp: whole_events_def event_bytes_def)

lemma whole_append: "whole_events a \<Longrightarrow> whole_events b \<Longrightarrow> whole_events (a @ b)"
  by (simp add: whole_events_def)

text \<open>A device that takes every write has read whole events, and a group adds to them exactly its own.\<close>

definition sound_device :: "sink \<Rightarrow> bool" where
  "sound_device s \<longleftrightarrow> set (sink_script s) \<subseteq> {Accept} \<and> whole_events (sink_taken s)"

definition reported :: "kernel_event list \<Rightarrow> kernel_event list" where
  "reported es = (if es = [] then [] else es @ [(EV_SYN, SYN_REPORT, 0)])"

lemma emit_events:
  assumes "sound_device s"
  shows "\<exists>s'. emit (map event_bytes es) s = (Ok (), s') \<and> sound_device s' \<and>
    kernel_events (sink_taken s') = kernel_events (sink_taken s) @ reported (map wrapped es)"
proof (cases "es = []")
  case False
  let ?bs = "concat (map event_bytes es) @ encode_event EV_SYN SYN_REPORT 0"
  have bs: "whole_events ?bs" "kernel_events ?bs = reported (map wrapped es)"
    using kernel_events_group [of es "encode_event EV_SYN SYN_REPORT 0"]
      kernel_events_encode [of EV_SYN SYN_REPORT 0 "[]"] False
    by (auto intro!: whole_append whole_group simp: reported_def)
  have "\<exists>s'. write_all ?bs s = (Ok (), s') \<and> sink_taken s' = sink_taken s @ ?bs \<and> set (sink_script s') \<subseteq> {Accept}"
    using assms by (auto simp: sound_device_def split: list.splits write_event.splits)
  then show ?thesis
    using assms False bs by (auto simp: emit_def sound_device_def kernel_events_append whole_append)
qed (use assms in \<open>simp add: emit_def reported_def\<close>)

lemma kernel_key_syn [simp]: "kernel_key (EV_SYN, c, v) = id"
  by (auto simp: kernel_key_def event_codes)

lemma kernel_down_more:
  "kernel_events b = kernel_events a @ reported es \<Longrightarrow> kernel_down b = fold kernel_key es (kernel_down a)"
  by (simp add: kernel_down_def reported_def)

lemma kernel_key_other: "\<forall>e \<in> set es. fst e \<noteq> EV_KEY \<Longrightarrow> fold kernel_key es down = down"
  by (induction es arbitrary: down) (auto simp: kernel_key_def)

lemma kernel_key_releases: "fold kernel_key (map (\<lambda>c. (EV_KEY, c, 0)) cs) down = down - set cs"
  by (induction cs arbitrary: down) (auto simp: kernel_key_def)

section \<open>The devices believe what the kernel believes\<close>

definition keyboard_ok :: "keyboard \<Rightarrow> bool" where
  "keyboard_ok kb \<longleftrightarrow> sound_device (kb_device kb) \<and> kernel_down (sink_taken (kb_device kb)) = kb_held kb"

definition pointer_ok :: "pointer \<Rightarrow> bool" where
  "pointer_ok pt \<longleftrightarrow> sound_device (pt_device pt) \<and> kernel_down (sink_taken (pt_device pt)) = pt_held pt \<and>
     \<bar>pt_horizontal pt\<bar> < DETENT \<and> \<bar>pt_vertical pt\<bar> < DETENT"

abbreviation kb_events :: "keyboard \<Rightarrow> kernel_event list" where
  "kb_events kb \<equiv> kernel_events (sink_taken (kb_device kb))"

abbreviation pt_events :: "pointer \<Rightarrow> kernel_event list" where
  "pt_events pt \<equiv> kernel_events (sink_taken (pt_device pt))"

definition key_to :: "u16 \<Rightarrow> bool \<Rightarrow> u16 set \<Rightarrow> u16 set" where
  "key_to code pressed held = (if pressed then insert code held else held - {code})"

lemma keyboard_emit_ok:
  assumes "sound_device (kb_device kb)" "events_ok es"
  shows "\<exists>kb'. keyboard_emit (map event_bytes es) kb = (Ok (), kb') \<and> kb_held kb' = kb_held kb \<and>
    sound_device (kb_device kb') \<and> kb_events kb' = kb_events kb @ reported es"
  using emit_events [OF assms(1), of es] wrapped_fits [OF assms(2)] by (auto simp: keyboard_emit_def)

lemma pointer_emit_any:
  assumes "sound_device (pt_device pt)"
  shows "\<exists>pt'. pointer_emit (map event_bytes es) pt = (Ok (), pt') \<and> pt_held pt' = pt_held pt \<and>
    pt_horizontal pt' = pt_horizontal pt \<and> pt_vertical pt' = pt_vertical pt \<and>
    sound_device (pt_device pt') \<and> pt_events pt' = pt_events pt @ reported (map wrapped es)"
  using emit_events [OF assms, of es] by (auto simp: pointer_emit_def)

lemma pointer_emit_ok:
  assumes "sound_device (pt_device pt)" "events_ok es"
  shows "\<exists>pt'. pointer_emit (map event_bytes es) pt = (Ok (), pt') \<and> pt_held pt' = pt_held pt \<and>
    pt_horizontal pt' = pt_horizontal pt \<and> pt_vertical pt' = pt_vertical pt \<and>
    sound_device (pt_device pt') \<and> pt_events pt' = pt_events pt @ reported es"
  using pointer_emit_any [OF assms(1), of es] wrapped_fits [OF assms(2)] by simp

lemma key_range_device: "key_range code \<longleftrightarrow> code \<noteq> 0 \<and> \<not> code > KEY_MAX_SENT"
  by (simp add: key_range_def KEY_MAX_SENT_def not_less word_le_nat_alt [of 1] unat_gt_0 Suc_le_eq)

lemma keyboard_key_ok:
  assumes "keyboard_ok kb"
  shows "\<exists>kb'. keyboard_key code pressed kb = (Ok (), kb') \<and> keyboard_ok kb' \<and>
    kb_held kb' = (if key_range code then key_to code pressed (kb_held kb) else kb_held kb)"
proof (cases "key_range code")
  case True
  let ?es = "[(EV_KEY, code, if pressed then 1 else 0)] :: kernel_event list"
  let ?kb = "kb\<lparr>kb_held := key_to code pressed (kb_held kb)\<rparr>"
  have "events_ok ?es" "sound_device (kb_device ?kb)"
    using assms by (auto simp: events_ok_def in_i32_def keyboard_ok_def)
  from keyboard_emit_ok [OF this(2,1)] True assms show ?thesis
    by (auto simp: keyboard_key_def key_range_device key_to_def event_bytes_def keyboard_ok_def kernel_key_def
        dest!: kernel_down_more)
qed (use assms in \<open>auto simp: keyboard_key_def key_range_device\<close>)

lemma keyboard_release_all_ok:
  assumes "keyboard_ok kb" "finite (kb_held kb)"
  shows "\<exists>kb'. keyboard_release_all kb = (Ok (), kb') \<and> keyboard_ok kb' \<and> kb_held kb' = {}"
proof (cases "kb_held kb = {}")
  case False
  let ?es = "map (\<lambda>c. (EV_KEY, c, 0)) (sorted_list_of_set (kb_held kb)) :: kernel_event list"
  have "events_ok ?es" "sound_device (kb_device (kb\<lparr>kb_held := {}\<rparr>))"
    using assms by (auto simp: events_ok_def in_i32_def keyboard_ok_def)
  from keyboard_emit_ok [OF this(2,1)] False assms show ?thesis
    by (auto simp: keyboard_release_all_def event_bytes_def keyboard_ok_def comp_def kernel_key_releases
        dest!: kernel_down_more)
qed (use assms in \<open>simp add: keyboard_release_all_def\<close>)

lemma pointer_button_ok:
  assumes "pointer_ok pt"
  shows "\<exists>pt'. pointer_button button pressed pt = (Ok (), pt') \<and> pointer_ok pt' \<and>
    pt_held pt' = (if button_range button then key_to button pressed (pt_held pt) else pt_held pt)"
proof (cases "button_range button")
  case True
  let ?es = "[(EV_KEY, button, if pressed then 1 else 0)] :: kernel_event list"
  let ?pt = "pt\<lparr>pt_held := key_to button pressed (pt_held pt)\<rparr>"
  have "events_ok ?es" "sound_device (pt_device ?pt)"
    using assms by (auto simp: events_ok_def in_i32_def pointer_ok_def)
  from pointer_emit_ok [OF this(2,1)] True assms show ?thesis
    by (auto simp: pointer_button_def button_range_def BTN_LEFT_def BTN_EXTRA_def key_to_def event_bytes_def pointer_ok_def
        kernel_key_def dest!: kernel_down_more)
qed (use assms in \<open>auto simp: pointer_button_def button_range_def BTN_LEFT_def BTN_EXTRA_def\<close>)

lemma pointer_release_all_ok:
  assumes "pointer_ok pt" "finite (pt_held pt)"
  shows "\<exists>pt'. pointer_release_all pt = (Ok (), pt') \<and> pointer_ok pt' \<and> pt_held pt' = {}"
proof (cases "pt_held pt = {}")
  case False
  let ?es = "map (\<lambda>c. (EV_KEY, c, 0)) (sorted_list_of_set (pt_held pt)) :: kernel_event list"
  have "events_ok ?es" "sound_device (pt_device (pt\<lparr>pt_held := {}\<rparr>))"
    using assms by (auto simp: events_ok_def in_i32_def pointer_ok_def)
  from pointer_emit_ok [OF this(2,1)] False assms show ?thesis
    by (auto simp: pointer_release_all_def event_bytes_def pointer_ok_def comp_def kernel_key_releases
        dest!: kernel_down_more)
qed (use assms in \<open>simp add: pointer_release_all_def\<close>)

section \<open>Pixels\<close>

text \<open>How the reader of an absolute axis turns its value into a pixel of a screen.\<close>

definition axis_pixel :: "int \<Rightarrow> nat \<Rightarrow> nat" where
  "axis_pixel v extent = nat v * extent div ABS_STEPS"

text \<open>Half a step of rounding either way stays inside a pixel on every screen up to this wide.\<close>

definition WIDEST_SCREEN :: nat where "WIDEST_SCREEN = 24576"

lemma scaled_inside:
  fixes p extent :: nat
  assumes "p < extent" "extent \<le> WIDEST_SCREEN"
  defines "s \<equiv> ((p * 8 + 3) * ABS_STEPS + extent * 8 div 2) div (extent * 8)"
  shows "p * ABS_STEPS \<le> s * extent" "s * extent < (p + 1) * ABS_STEPS" "s < ABS_STEPS"
proof -
  let ?n = "(p * 8 + 3) * ABS_STEPS + extent * 8 div 2"
  have pos: "0 < extent * 8" using assms(1) by simp
  have up: "s * (extent * 8) \<le> ?n" unfolding s_def by (rule div_times_less_eq_dividend)
  have low: "?n < s * (extent * 8) + extent * 8"
    unfolding s_def using pos by (metis add.commute dividend_less_div_times)
  show "p * ABS_STEPS \<le> s * extent" using low assms(2) by (simp add: ABS_STEPS_def WIDEST_SCREEN_def)
  show below: "s * extent < (p + 1) * ABS_STEPS" using up assms(2) by (simp add: ABS_STEPS_def WIDEST_SCREEN_def)
  have "(p + 1) * ABS_STEPS \<le> extent * ABS_STEPS" using assms(1) by (intro mult_right_mono) auto
  with below have "s * extent < ABS_STEPS * extent" by (metis mult.commute order_less_le_trans)
  then show "s < ABS_STEPS" by simp
qed

lemma pointer_scale_inside:
  assumes "p < extent" "extent \<le> WIDEST_SCREEN"
  shows "axis_pixel (pointer_scale p extent) extent = p" "0 \<le> pointer_scale p extent" "pointer_scale p extent \<le> ABS_RANGE"
proof -
  let ?s = "((p * 8 + 3) * ABS_STEPS + extent * 8 div 2) div (extent * 8)"
  note s = scaled_inside [OF assms]
  have m: "max extent (Suc 0) = extent" "min p (extent - Suc 0) = p" using assms(1) by auto
  have scale: "pointer_scale p extent = int ?s"
    using s(3) by (simp add: pointer_scale_def POINTER_OFFSET_def Let_def m ABS_RANGE_def ABS_STEPS_def)
  have "?s * extent div ABS_STEPS = p" using s(1,2) by (intro div_nat_eqI) (auto simp: mult.commute)
  with scale show "axis_pixel (pointer_scale p extent) extent = p" by (simp add: axis_pixel_def)
  show "0 \<le> pointer_scale p extent" "pointer_scale p extent \<le> ABS_RANGE"
    using scale s(3) by (auto simp: ABS_RANGE_def ABS_STEPS_def)
qed

lemma pointer_scale_range: "0 \<le> pointer_scale p extent \<and> pointer_scale p extent \<le> ABS_RANGE"
  by (simp add: pointer_scale_def Let_def ABS_RANGE_def)

lemma pointer_motion_ok:
  assumes "pointer_ok pt"
  shows "\<exists>pt'. pointer_motion x y width height pt = (Ok (), pt') \<and> pointer_ok pt' \<and> pt_held pt' = pt_held pt \<and>
    kernel_axis ABS_X (pt_events pt') = Some (pointer_scale x width) \<and>
    kernel_axis ABS_Y (pt_events pt') = Some (pointer_scale y height)"
proof -
  let ?es = "[(EV_ABS, ABS_X, pointer_scale x width), (EV_ABS, ABS_Y, pointer_scale y height)] :: kernel_event list"
  have "events_ok ?es" "sound_device (pt_device pt)"
    using assms pointer_scale_range [of x width] pointer_scale_range [of y height]
    by (auto simp: events_ok_def in_i32_def pointer_ok_def ABS_RANGE_def)
  from pointer_emit_ok [OF this(2,1)] assms show ?thesis
    by (auto simp: pointer_motion_def event_bytes_def pointer_ok_def reported_def kernel_axis_def kernel_down_def
        kernel_key_def event_codes)
qed

section \<open>The wheel\<close>

lemma detents_rest: "\<bar>a - trunc_div a DETENT * DETENT\<bar> < DETENT"
  by (simp add: trunc_div_def DETENT_def) arith

lemma detents_bound: "\<bar>trunc_div a DETENT\<bar> \<le> \<bar>a\<bar>"
  by (simp add: trunc_div_def DETENT_def) arith

text \<open>A turn is sane when the part of a detent kept from before cannot push it past the ends of \<open>i32\<close>.\<close>

definition sane_turn :: "int \<Rightarrow> bool" where "sane_turn t \<longleftrightarrow> \<bar>t\<bar> \<le> i32_max - DETENT"

lemma kernel_total_simps [simp]:
  "kernel_total axis [] = 0"
  "kernel_total axis ((kind, code, v) # es) = (if kind = EV_REL \<and> code = axis then v else 0) + kernel_total axis es"
  "kernel_total axis (es @ fs) = kernel_total axis es + kernel_total axis fs"
  by (simp_all add: kernel_total_def)

lemma scroll_axis_ok:
  assumes "\<bar>carried\<bar> < DETENT" "sane_turn turn" "hi \<noteq> whole"
  shows "\<exists>es kept. scroll_axis hi whole turn carried = (map event_bytes es, kept) \<and> events_ok es \<and> \<bar>kept\<bar> < DETENT \<and>
    (\<forall>e \<in> set es. fst e = EV_REL \<and> fst (snd e) \<in> {hi, whole}) \<and>
    kernel_total hi es = turn \<and> kernel_total whole es * DETENT + kept = carried + turn"
proof (cases "turn = 0")
  case False
  define c where "c = carried + turn"
  have c: "sat_add carried turn = c" "in_i32 turn" "\<bar>c\<bar> \<le> i32_max"
    using assms by (auto simp: c_def sat_add_def sat32_def sane_turn_def in_i32_def DETENT_def)
  have d: "in_i32 (trunc_div c DETENT)" using detents_bound [of c] c(3) by (auto simp: in_i32_def)
  let ?d = "trunc_div c DETENT"
  let ?es = "(EV_REL, hi, turn) # (if ?d = 0 then [] else [(EV_REL, whole, ?d)])"
  have "scroll_axis hi whole turn carried = (map event_bytes ?es, c - ?d * DETENT)"
    using False c by (simp add: scroll_axis_def event_bytes_def Let_def)
  moreover have "events_ok ?es" using c d by (auto simp: events_ok_def)
  ultimately show ?thesis
    using assms(3) detents_rest [of c] by (intro exI [of _ ?es] exI [of _ "c - ?d * DETENT"]) (auto simp: c_def)
qed (use assms in \<open>auto intro!: exI [of _ "[] :: kernel_event list"] simp: scroll_axis_def events_ok_def\<close>)

lemma kernel_total_elsewhere: "\<forall>e \<in> set es. fst (snd e) \<noteq> axis \<Longrightarrow> kernel_total axis es = 0"
  by (induction es) auto

lemma kernel_total_reported [simp]: "kernel_total axis (reported es) = kernel_total axis es"
  by (simp add: reported_def event_codes)

text \<open>Whatever the turn, the wheel presses and releases nothing.\<close>

lemma scroll_axis_shape:
  "\<bar>carried\<bar> < DETENT \<Longrightarrow>
   \<exists>es kept. scroll_axis hi whole turn carried = (map event_bytes es, kept) \<and> \<bar>kept\<bar> < DETENT \<and>
     (\<forall>e \<in> set (map wrapped es). fst e = EV_REL)"
  using detents_rest [of "sat_add carried turn"]
  by (auto simp: scroll_axis_def Let_def event_bytes_def wrapped_def trunc_div_def DETENT_def
      intro: exI [of _ "[] :: kernel_event list"] exI [of _ "[(EV_REL, hi, turn)]"]
        exI [of _ "[(EV_REL, hi, turn), (EV_REL, whole, trunc_div (sat_add carried turn) DETENT)]"])

lemma pointer_scroll_held:
  assumes "pointer_ok pt"
  shows "\<exists>pt'. pointer_scroll h v pt = (Ok (), pt') \<and> pointer_ok pt' \<and> pt_held pt' = pt_held pt"
proof -
  note ok = assms [unfolded pointer_ok_def]
  obtain es h' where es: "scroll_axis REL_HWHEEL_HI_RES REL_HWHEEL h (pt_horizontal pt) = (map event_bytes es, h')"
    "\<bar>h'\<bar> < DETENT" "\<forall>e \<in> set (map wrapped es). fst e = EV_REL"
    using scroll_axis_shape [of "pt_horizontal pt"] ok by metis
  obtain fs v' where fs: "scroll_axis REL_WHEEL_HI_RES REL_WHEEL v (pt_vertical pt) = (map event_bytes fs, v')"
    "\<bar>v'\<bar> < DETENT" "\<forall>e \<in> set (map wrapped fs). fst e = EV_REL"
    using scroll_axis_shape [of "pt_vertical pt"] ok by metis
  let ?pt = "pt\<lparr>pt_horizontal := h', pt_vertical := v'\<rparr>"
  obtain pt' where pt': "pointer_emit (map event_bytes (es @ fs)) ?pt = (Ok (), pt')" "pt_held pt' = pt_held pt"
    "pt_horizontal pt' = h'" "pt_vertical pt' = v'" "sound_device (pt_device pt')"
    "pt_events pt' = pt_events pt @ reported (map wrapped (es @ fs))"
    using pointer_emit_any [of ?pt "es @ fs"] ok by auto
  have "\<forall>e \<in> set (map wrapped (es @ fs)). fst e \<noteq> EV_KEY"
    using es(3) fs(3) by (simp only: map_append set_append ball_Un) (auto simp: event_codes)
  then have "kernel_down (sink_taken (pt_device pt')) = pt_held pt"
    using kernel_down_more [OF pt'(6)] ok kernel_key_other by metis
  then show ?thesis using pt' es(1,2) fs(1,2) by (auto simp: pointer_scroll_def pointer_ok_def)
qed

text \<open>Nothing of a turn is lost: the fine axis carries it as it came, and the whole detents and what is kept add up to it.\<close>

lemma pointer_scroll_ok:
  assumes "pointer_ok pt" "sane_turn h" "sane_turn v"
  shows "\<exists>pt'. pointer_scroll h v pt = (Ok (), pt') \<and> pointer_ok pt' \<and> pt_held pt' = pt_held pt \<and>
    kernel_total REL_HWHEEL_HI_RES (pt_events pt') = kernel_total REL_HWHEEL_HI_RES (pt_events pt) + h \<and>
    kernel_total REL_WHEEL_HI_RES (pt_events pt') = kernel_total REL_WHEEL_HI_RES (pt_events pt) + v \<and>
    kernel_total REL_HWHEEL (pt_events pt') * DETENT + pt_horizontal pt' =
      kernel_total REL_HWHEEL (pt_events pt) * DETENT + pt_horizontal pt + h \<and>
    kernel_total REL_WHEEL (pt_events pt') * DETENT + pt_vertical pt' =
      kernel_total REL_WHEEL (pt_events pt) * DETENT + pt_vertical pt + v"
proof -
  note carried = assms(1) [unfolded pointer_ok_def]
  obtain es h' where es: "scroll_axis REL_HWHEEL_HI_RES REL_HWHEEL h (pt_horizontal pt) = (map event_bytes es, h')"
    "events_ok es" "\<bar>h'\<bar> < DETENT" "\<forall>e \<in> set es. fst e = EV_REL \<and> fst (snd e) \<in> {REL_HWHEEL_HI_RES, REL_HWHEEL}"
    "kernel_total REL_HWHEEL_HI_RES es = h" "kernel_total REL_HWHEEL es * DETENT + h' = pt_horizontal pt + h"
    using scroll_axis_ok [of "pt_horizontal pt" h REL_HWHEEL_HI_RES REL_HWHEEL] carried assms(2)
    by (auto simp: event_codes)
  obtain fs v' where fs: "scroll_axis REL_WHEEL_HI_RES REL_WHEEL v (pt_vertical pt) = (map event_bytes fs, v')"
    "events_ok fs" "\<bar>v'\<bar> < DETENT" "\<forall>e \<in> set fs. fst e = EV_REL \<and> fst (snd e) \<in> {REL_WHEEL_HI_RES, REL_WHEEL}"
    "kernel_total REL_WHEEL_HI_RES fs = v" "kernel_total REL_WHEEL fs * DETENT + v' = pt_vertical pt + v"
    using scroll_axis_ok [of "pt_vertical pt" v REL_WHEEL_HI_RES REL_WHEEL] carried assms(3)
    by (auto simp: event_codes)
  let ?pt = "pt\<lparr>pt_horizontal := h', pt_vertical := v'\<rparr>"
  have ok: "events_ok (es @ fs)" "sound_device (pt_device ?pt)"
    using es(2) fs(2) carried by (auto simp: events_ok_def)
  obtain pt' where pt': "pointer_emit (map event_bytes (es @ fs)) ?pt = (Ok (), pt')" "pt_held pt' = pt_held pt"
    "pt_horizontal pt' = h'" "pt_vertical pt' = v'" "sound_device (pt_device pt')"
    "pt_events pt' = pt_events pt @ reported (es @ fs)"
    using pointer_emit_ok [OF ok(2,1)] by auto
  have quiet: "kernel_total REL_WHEEL_HI_RES es = 0" "kernel_total REL_WHEEL es = 0"
    "kernel_total REL_HWHEEL_HI_RES fs = 0" "kernel_total REL_HWHEEL fs = 0"
    using es(4) fs(4) by (auto intro!: kernel_total_elsewhere simp: event_codes)
  have "\<forall>e \<in> set (es @ fs). fst e \<noteq> EV_KEY" using es(4) fs(4) by (auto simp: event_codes)
  then have "kernel_down (sink_taken (pt_device pt')) = pt_held pt"
    using kernel_down_more [OF pt'(6)] carried kernel_key_other by metis
  then show ?thesis
    using pt' quiet es(3,5,6) fs(3,5,6) es(1) fs(1) by (auto simp: pointer_scroll_def pointer_ok_def algebra_simps)
qed

end
