(* ===== verification/Input_Path.thy ===== *)
theory Input_Path
  imports Input_Devices Channel_Bind
begin

text \<open>
  Input from the window to the guest's devices: the viewer's session writing events as records (\<open>live.rs\<close>), the
  guest's session process reading them (\<open>session_main.rs\<close>), and the threads and sockets in between as a step relation.
\<close>

section \<open>Records of the input channel\<close>

text \<open>The Protobuf codec of the four messages is generated code, and a parameter.\<close>

record input_wire =
  iw_enc_key :: "nat \<times> bool \<Rightarrow> bytes"
  iw_dec_key :: "bytes \<Rightarrow> (nat \<times> bool) option"
  iw_enc_motion :: "nat \<times> nat \<Rightarrow> bytes"
  iw_dec_motion :: "bytes \<Rightarrow> (nat \<times> nat) option"
  iw_enc_button :: "nat \<times> bool \<Rightarrow> bytes"
  iw_dec_button :: "bytes \<Rightarrow> (nat \<times> bool) option"
  iw_enc_scroll :: "int \<times> int \<Rightarrow> bytes"
  iw_dec_scroll :: "bytes \<Rightarrow> (int \<times> int) option"

text \<open>What the codec documents: a message that was encoded decodes to itself.\<close>

definition input_wire_ok :: "input_wire \<Rightarrow> bool" where
  "input_wire_ok iw \<longleftrightarrow>
     (\<forall>m. iw_dec_key iw (iw_enc_key iw m) = Some m) \<and> (\<forall>m. iw_dec_motion iw (iw_enc_motion iw m) = Some m) \<and>
     (\<forall>m. iw_dec_button iw (iw_enc_button iw m) = Some m) \<and> (\<forall>m. iw_dec_scroll iw (iw_enc_scroll iw m) = Some m)"

definition INPUT_KEY_EVENT :: u16 where "INPUT_KEY_EVENT = 4"
definition INPUT_POINTER_MOTION :: u16 where "INPUT_POINTER_MOTION = 5"
definition INPUT_POINTER_BUTTON :: u16 where "INPUT_POINTER_BUTTON = 6"
definition INPUT_POINTER_SCROLL :: u16 where "INPUT_POINTER_SCROLL = 7"
definition INPUT_RELEASE_ALL :: u16 where "INPUT_RELEASE_ALL = 8"

lemmas input_types = INPUT_KEY_EVENT_def INPUT_POINTER_MOTION_def INPUT_POINTER_BUTTON_def INPUT_POINTER_SCROLL_def
  INPUT_RELEASE_ALL_def

fun encode_input :: "input_wire \<Rightarrow> input_event \<Rightarrow> u16 \<times> bytes" where
  "encode_input iw (KeyEv code pressed) = (INPUT_KEY_EVENT, iw_enc_key iw (unat code, pressed))"
| "encode_input iw (MotionEv x y) = (INPUT_POINTER_MOTION, iw_enc_motion iw (x, y))"
| "encode_input iw (ButtonEv code pressed) = (INPUT_POINTER_BUTTON, iw_enc_button iw (unat code, pressed))"
| "encode_input iw (ScrollEv h v) = (INPUT_POINTER_SCROLL, iw_enc_scroll iw (h, v))"
| "encode_input iw ReleaseAllEv = (INPUT_RELEASE_ALL, [])"

section \<open>The viewer's end\<close>

record live_input =
  li_session :: session
  li_input :: "sink option"
  li_limits :: limits

definition send_input :: "crypto \<Rightarrow> input_wire \<Rightarrow> input_event \<Rightarrow> live_input \<Rightarrow> live_input" where
  "send_input cr iw e l =
     (case li_input l of
        None \<Rightarrow> l
      | Some socket \<Rightarrow>
          (case encode_input iw e of (message_type, payload) \<Rightarrow>
           case take_channel_sequence (li_session l) ChInput of (out, s) \<Rightarrow>
             let l = l\<lparr>li_session := s\<rparr> in
             (case out of
               Ok n \<Rightarrow>
                 (case record_write (record_new (crc32c cr) ChInput message_type n 0 (generation s ChInput) payload)
                     (li_limits l) socket of
                    (Ok _, socket) \<Rightarrow> l\<lparr>li_input := Some socket\<rparr>
                  | _ \<Rightarrow> l\<lparr>li_input := None\<rparr>)
             | _ \<Rightarrow> l\<lparr>li_input := None\<rparr>)))"

section \<open>The guest's end\<close>

record input_devices =
  id_parameters :: "(nat \<times> nat) option"
  id_keyboard :: "keyboard option"
  id_pointer :: "pointer option"

text \<open>\<open>u16::try_from(code).unwrap_or(0)\<close>.\<close>

definition narrow_code :: "nat \<Rightarrow> u16" where
  "narrow_code n = (if n < 65536 then of_nat n else 0)"

definition release_input :: "input_devices \<Rightarrow> input_devices" where
  "release_input g =
     g\<lparr>id_keyboard := map_option (\<lambda>kb. snd (keyboard_release_all kb)) (id_keyboard g),
       id_pointer := map_option (\<lambda>pt. snd (pointer_release_all pt)) (id_pointer g)\<rparr>"

text \<open>A device's refusal and a record that would not decode are logged and change nothing else.\<close>

definition apply_input :: "input_wire \<Rightarrow> u16 \<Rightarrow> bytes \<Rightarrow> input_devices \<Rightarrow> input_devices" where
  "apply_input iw message_type payload g =
     (if message_type > 9 then g
      else case id_parameters g of
          None \<Rightarrow> g
        | Some (width, height) \<Rightarrow>
            if message_type = INPUT_KEY_EVENT then
              (case iw_dec_key iw payload of
                 None \<Rightarrow> g
               | Some (code, pressed) \<Rightarrow>
                   g\<lparr>id_keyboard := map_option (\<lambda>kb. snd (keyboard_key (narrow_code code) pressed kb)) (id_keyboard g)\<rparr>)
            else if message_type = INPUT_POINTER_MOTION then
              (case iw_dec_motion iw payload of
                 None \<Rightarrow> g
               | Some (x, y) \<Rightarrow>
                   g\<lparr>id_pointer := map_option (\<lambda>pt. snd (pointer_motion x y width height pt)) (id_pointer g)\<rparr>)
            else if message_type = INPUT_POINTER_BUTTON then
              (case iw_dec_button iw payload of
                 None \<Rightarrow> g
               | Some (button, pressed) \<Rightarrow>
                   g\<lparr>id_pointer := map_option (\<lambda>pt. snd (pointer_button (narrow_code button) pressed pt)) (id_pointer g)\<rparr>)
            else if message_type = INPUT_POINTER_SCROLL then
              (case iw_dec_scroll iw payload of
                 None \<Rightarrow> g
               | Some (h, v) \<Rightarrow>
                   g\<lparr>id_pointer := map_option (\<lambda>pt. snd (pointer_scroll h v pt)) (id_pointer g)\<rparr>)
            else if message_type = INPUT_RELEASE_ALL then release_input g
            else g)"

record guest_input =
  gi_devices :: input_devices
  gi_socket :: "duplex option"
  gi_generation :: "u32 option"
  gi_records :: nat
  gi_limits :: limits

definition close_input :: "guest_input \<Rightarrow> guest_input" where
  "close_input g = g\<lparr>gi_devices := release_input (gi_devices g), gi_socket := None\<rparr>"

text \<open>The answer is whether the channel had anything to say.\<close>

definition read_input :: "crypto \<Rightarrow> input_wire \<Rightarrow> guest_input \<Rightarrow> (unit, bool) outcome \<times> guest_input" where
  "read_input cr iw g =
     (case gi_socket g of
        None \<Rightarrow> (Ok False, g)
      | Some d \<Rightarrow>
          (case record_read (crc32c cr) (gi_limits g) (dx_reader d) of (out, r) \<Rightarrow>
             let g = g\<lparr>gi_socket := Some (d\<lparr>dx_reader := r\<rparr>)\<rparr> in
             (case out of
               Ok (h, payload) \<Rightarrow>
                 if (case gi_generation g of None \<Rightarrow> False | Some n \<Rightarrow> hd_generation h \<noteq> n)
                 then (Ok True, close_input g)
                 else (Ok True, g\<lparr>gi_records := gi_records g + 1,
                   gi_devices := apply_input iw (hd_message_type h) payload (gi_devices g)\<rparr>)
             | Err RecordIdle \<Rightarrow> (Ok False, g)
             | Err _ \<Rightarrow> (Ok True, close_input g)
             | Panic \<Rightarrow> (Panic, g))))"

text \<open>The devices the broker hands over, if both descriptors came with the message.\<close>

definition take_input_devices :: "sink list \<Rightarrow> input_devices \<Rightarrow> input_devices" where
  "take_input_devices descriptors g =
     (case descriptors of
        keys # moves # _ \<Rightarrow> g\<lparr>id_keyboard := Some (keyboard_new keys), id_pointer := Some (pointer_new moves)\<rparr>
      | _ \<Rightarrow> g)"

section \<open>One turn of the viewer's message pump\<close>

text \<open>
  The input side of a turn: the session's signals first, then the window's events, then the drain. A session's end
  and a reposition reach the policy from the signals, and so do the two commands of the guest that are input.
\<close>

datatype turn_signal = SessionEnded | GuestReleasesKeyboard | GuestSecureAttention | StreamPlaced "picture option"

fun signal_policy :: "turn_signal \<Rightarrow> policy \<Rightarrow> policy" where
  "signal_policy SessionEnded = policy_report InputChannelLost"
| "signal_policy GuestReleasesKeyboard = policy_report ReleaseKeyboard"
| "signal_policy GuestSecureAttention = policy_report SecureAttention"
| "signal_policy (StreamPlaced placement) = set_placement placement"

datatype turn_event = WindowReport input_report | WindowResized "picture option"

fun window_policy :: "turn_event \<Rightarrow> policy \<Rightarrow> policy" where
  "window_policy (WindowReport r) = policy_report r"
| "window_policy (WindowResized placement) = set_placement placement"

definition pump_turn :: "turn_signal list \<Rightarrow> turn_event list \<Rightarrow> policy \<Rightarrow> input_event list \<times> bool \<times> policy" where
  "pump_turn signals events p =
     (let (drained, p) = policy_drain (fold window_policy events (fold signal_policy signals p));
          (release_hook, p) = keyboard_release_requested p in
      (drained, release_hook, p))"

section \<open>The threads and the sockets between them\<close>

text \<open>
  The orders of the message pump wait for the session's thread, which drops them while it has no input socket; what
  it writes waits in the socket for the guest's process. The two ends of the socket close on their own: the viewer's
  when a write fails or its session ends, the guest's when a read fails. The guest takes a new socket only once it
  has closed the old one, and every bind of the viewer's opens with a release. A session that has ended is seen by
  the message pump before its successor has bound its channels, and the first pass of the successor over the orders,
  before it binds anything, drops what was left.
\<close>

record input_system =
  sy_policy :: policy
  sy_orders :: "input_event list"
  sy_up :: bool
  sy_bound :: bool
  sy_ended :: bool
  sy_wire :: "input_event list"
  sy_open :: bool
  sy_guest :: input_devices

definition guest_event :: "input_wire \<Rightarrow> input_event \<Rightarrow> input_devices \<Rightarrow> input_devices" where
  "guest_event iw e g = (case encode_input iw e of (message_type, payload) \<Rightarrow> apply_input iw message_type payload g)"

definition no_channel_loss :: "turn_event list \<Rightarrow> bool" where
  "no_channel_loss events \<longleftrightarrow> WindowReport InputChannelLost \<notin> set events"

inductive input_step :: "input_wire \<Rightarrow> input_system \<Rightarrow> input_system \<Rightarrow> bool" for iw where
  turn: "SessionEnded \<notin> set signals \<or> sy_ended s \<Longrightarrow> no_channel_loss events \<Longrightarrow>
    pump_turn signals events (sy_policy s) = (drained, release_hook, p) \<Longrightarrow>
    input_step iw s (s\<lparr>sy_policy := p, sy_orders := sy_orders s @ drained,
      sy_ended := (sy_ended s \<and> SessionEnded \<notin> set signals)\<rparr>)"
| sends: "sy_up s \<Longrightarrow> sy_orders s = e # es \<Longrightarrow>
    input_step iw s (s\<lparr>sy_orders := es, sy_wire := (if sy_bound s \<and> sy_open s then sy_wire s @ [e] else sy_wire s)\<rparr>)"
| write_fails: "sy_up s \<Longrightarrow> sy_bound s \<Longrightarrow> sy_orders s = e # es \<Longrightarrow>
    input_step iw s (s\<lparr>sy_orders := es, sy_bound := False\<rparr>)"
| session_ends: "sy_up s \<Longrightarrow> input_step iw s (s\<lparr>sy_up := False, sy_bound := False, sy_ended := True\<rparr>)"
| session_restarts: "sy_up s \<Longrightarrow> input_step iw s (s\<lparr>sy_up := False, sy_bound := False\<rparr>)"
| order_dropped: "\<not> sy_up s \<Longrightarrow> sy_orders s = e # es \<Longrightarrow> input_step iw s (s\<lparr>sy_orders := es\<rparr>)"
| session_starts: "\<not> sy_up s \<Longrightarrow> \<not> sy_ended s \<Longrightarrow> input_step iw s (s\<lparr>sy_up := True, sy_orders := []\<rparr>)"
| binds: "sy_up s \<Longrightarrow> \<not> sy_bound s \<Longrightarrow> \<not> sy_open s \<Longrightarrow> id_parameters (sy_guest s) \<noteq> None \<Longrightarrow>
    input_step iw s (s\<lparr>sy_bound := True, sy_open := True, sy_wire := [ReleaseAllEv]\<rparr>)"
| guest_reads: "sy_open s \<Longrightarrow> sy_wire s = e # es \<Longrightarrow>
    input_step iw s (s\<lparr>sy_wire := es, sy_guest := guest_event iw e (sy_guest s)\<rparr>)"
| guest_loses: "sy_open s \<Longrightarrow>
    input_step iw s (s\<lparr>sy_open := False, sy_wire := [], sy_guest := release_input (sy_guest s)\<rparr>)"
| guest_resized: "input_step iw s (s\<lparr>sy_guest := (sy_guest s)\<lparr>id_parameters := Some (w, h)\<rparr>\<rparr>)"
| guest_session_closed: "input_step iw s
    (s\<lparr>sy_open := False, sy_wire := [], sy_guest := (release_input (sy_guest s))\<lparr>id_parameters := None\<rparr>\<rparr>)"
| devices_arrive: "sound_device keys \<Longrightarrow> sink_taken keys = [] \<Longrightarrow> sound_device moves \<Longrightarrow> sink_taken moves = [] \<Longrightarrow>
    input_step iw s (s\<lparr>sy_guest := take_input_devices [keys, moves] (sy_guest s)\<rparr>)"

definition input_start :: input_system where
  "input_start = \<lparr>sy_policy = policy_new, sy_orders = [], sy_up = False, sy_bound = False, sy_ended = False,
     sy_wire = [], sy_open = False,
     sy_guest = \<lparr>id_parameters = None, id_keyboard = None, id_pointer = None\<rparr>\<rparr>"

inductive input_reachable :: "input_wire \<Rightarrow> input_system \<Rightarrow> bool" for iw where
  start: "input_reachable iw input_start"
| step: "input_reachable iw s \<Longrightarrow> input_step iw s t \<Longrightarrow> input_reachable iw t"

text \<open>What the guest's kernel believes is down.\<close>

definition keys_down :: "input_devices \<Rightarrow> u16 set" where
  "keys_down g = (case id_keyboard g of None \<Rightarrow> {} | Some kb \<Rightarrow> kernel_down (sink_taken (kb_device kb)))"

definition buttons_down :: "input_devices \<Rightarrow> u16 set" where
  "buttons_down g = (case id_pointer g of None \<Rightarrow> {} | Some pt \<Rightarrow> kernel_down (sink_taken (pt_device pt)))"

section \<open>What an event leaves down\<close>

fun key_after :: "input_event \<Rightarrow> u16 set \<Rightarrow> u16 set" where
  "key_after (KeyEv code pressed) held = (if key_range code then key_to code pressed held else held)"
| "key_after ReleaseAllEv held = {}"
| "key_after e held = held"

fun button_after :: "input_event \<Rightarrow> u16 set \<Rightarrow> u16 set" where
  "button_after (ButtonEv code pressed) held = (if button_range code then key_to code pressed held else held)"
| "button_after ReleaseAllEv held = {}"
| "button_after e held = held"

definition keys_after :: "input_event list \<Rightarrow> u16 set \<Rightarrow> u16 set" where "keys_after es = fold key_after es"
definition buttons_after :: "input_event list \<Rightarrow> u16 set \<Rightarrow> u16 set" where "buttons_after es = fold button_after es"

text \<open>Both are monotone in what was held, and from nothing held an event dropped leaves no more than one kept.\<close>

lemma key_after_mono: "a \<subseteq> b \<Longrightarrow> key_after e a \<subseteq> key_after e b"
  by (cases e) (auto simp: key_to_def)

lemma button_after_mono: "a \<subseteq> b \<Longrightarrow> button_after e a \<subseteq> button_after e b"
  by (cases e) (auto simp: key_to_def)

lemma keys_after_mono: "a \<subseteq> b \<Longrightarrow> keys_after es a \<subseteq> keys_after es b"
  unfolding keys_after_def by (induction es arbitrary: a b) (auto dest: key_after_mono)

lemma buttons_after_mono: "a \<subseteq> b \<Longrightarrow> buttons_after es a \<subseteq> buttons_after es b"
  unfolding buttons_after_def by (induction es arbitrary: a b) (auto dest: button_after_mono)

lemma after_simps [simp]:
  "keys_after [] = id" "buttons_after [] = id"
  "keys_after (e # es) held = keys_after es (key_after e held)"
  "buttons_after (e # es) held = buttons_after es (button_after e held)"
  "keys_after (es @ fs) held = keys_after fs (keys_after es held)"
  "buttons_after (es @ fs) held = buttons_after fs (buttons_after es held)"
  by (simp_all add: keys_after_def buttons_after_def)

lemma keys_after_push_motion [simp]: "keys_after (push_motion xy q) held = keys_after q held"
  by (cases q rule: rev_cases) (auto simp: push_motion_def is_motion_def split: input_event.splits)

lemma buttons_after_push_motion [simp]: "buttons_after (push_motion xy q) held = buttons_after q held"
  by (cases q rule: rev_cases) (auto simp: push_motion_def is_motion_def split: input_event.splits)

lemma secure_attention_after [simp]:
  "keys_after SECURE_ATTENTION held = held - {KEY_LEFTCTRL, KEY_LEFTALT, KEY_DELETE}"
  "buttons_after SECURE_ATTENTION held = held"
  by (auto simp: SECURE_ATTENTION_def key_range_def key_to_def key_codes)

lemma buttons_after_range: "held \<subseteq> Collect button_range \<Longrightarrow> buttons_after es held \<subseteq> Collect button_range"
proof (induction es arbitrary: held)
  case (Cons e es)
  then have "button_after e held \<subseteq> Collect button_range" by (cases e) (auto simp: key_to_def)
  with Cons.IH show ?case by simp
qed simp

section \<open>The policy never believes less than it said\<close>

definition policy_covers :: "u16 set \<Rightarrow> u16 set \<Rightarrow> policy \<Rightarrow> bool" where
  "policy_covers keys buttons p \<longleftrightarrow> buttons \<subseteq> Collect button_range \<and>
     keys_after (py_queue p) keys \<subseteq> py_keys p \<and> buttons_after (py_queue p) buttons \<subseteq> py_buttons p"

lemma policy_release_all_covers: "policy_covers k b p \<Longrightarrow> policy_covers k b (policy_release_all p)"
  by (auto simp: policy_covers_def policy_release_all_def push_event_def)

lemma policy_covers_flags [simp]:
  "policy_covers k b (p\<lparr>py_focused := f\<rparr>) = policy_covers k b p"
  "policy_covers k b (p\<lparr>py_release_requested := f\<rparr>) = policy_covers k b p"
  "policy_covers k b (p\<lparr>py_pointer := c\<rparr>) = policy_covers k b p"
  "policy_covers k b (p\<lparr>py_placement := c2\<rparr>) = policy_covers k b p"
  by (simp_all add: policy_covers_def)

lemma release_keyboard_covers: "policy_covers k b p \<Longrightarrow> policy_covers k b (release_keyboard p)"
  by (simp add: release_keyboard_def policy_release_all_covers)

lemma policy_key_covers:
  assumes "policy_covers k b p"
  shows "policy_covers k b (policy_key scan extended vk pressed p)"
proof (cases "keycode scan extended vk")
  case (Some code)
  then have "key_range code" by (rule keycode_range)
  then have "policy_covers k b (push_event (KeyEv code pressed)
      (p\<lparr>py_keys := (if pressed then insert code (py_keys p) else py_keys p - {code})\<rparr>))"
    using assms by (auto simp: policy_covers_def push_event_def key_to_def)
  with Some assms show ?thesis by (auto simp: policy_key_def release_keyboard_covers)
qed (use assms in \<open>simp add: policy_key_def\<close>)

lemma policy_pointer_covers: "policy_covers k b p \<Longrightarrow> policy_covers k b (policy_pointer x y p)"
  by (auto simp: policy_pointer_def policy_covers_def Let_def split: option.splits)

lemma policy_button_covers:
  assumes "policy_covers k b p"
  shows "policy_covers k b (policy_button c pressed p)"
proof -
  have "buttons_after (py_queue p) b \<subseteq> Collect button_range"
    using assms by (auto simp: policy_covers_def intro: buttons_after_range [THEN subsetD, simplified])
  then show ?thesis
    using assms by (auto simp: policy_button_def policy_covers_def push_event_def key_to_def split: if_splits)
qed

lemma policy_wheel_covers: "policy_covers k b p \<Longrightarrow> policy_covers k b (policy_wheel h v p)"
  by (auto simp: policy_wheel_def policy_covers_def push_event_def)

lemma secure_attention_covers: "policy_covers k b p \<Longrightarrow> policy_covers k b (secure_attention p)"
  by (auto simp: secure_attention_def policy_covers_def)

lemma policy_report_covers:
  assumes "policy_covers k b p" "r \<noteq> InputChannelLost"
  shows "policy_covers k b (policy_report r p)"
  using assms by (cases r) (auto simp: policy_release_all_covers release_keyboard_covers policy_key_covers
      policy_pointer_covers policy_button_covers policy_wheel_covers secure_attention_covers)

text \<open>A window without the focus holds no key.\<close>

definition focus_rule :: "policy \<Rightarrow> bool" where "focus_rule p \<longleftrightarrow> py_focused p \<or> py_keys p = {}"

lemma policy_report_focus: "focus_rule p \<Longrightarrow> focus_rule (policy_report r p)"
  by (cases r) (auto simp: focus_rule_def policy_simps split: option.splits)

lemma signal_covers: "policy_covers k b p \<Longrightarrow> sg \<noteq> SessionEnded \<Longrightarrow> policy_covers k b (signal_policy sg p)"
  by (cases sg) (auto simp: release_keyboard_covers secure_attention_covers set_placement_def)

lemma signals_cover:
  "policy_covers k b p \<Longrightarrow> SessionEnded \<notin> set sgs \<Longrightarrow> policy_covers k b (fold signal_policy sgs p)"
  by (induction sgs arbitrary: p) (auto simp: signal_covers)

lemma events_cover:
  "policy_covers k b p \<Longrightarrow> no_channel_loss evs \<Longrightarrow> policy_covers k b (fold window_policy evs p)"
proof (induction evs arbitrary: p)
  case (Cons ev evs)
  then have "policy_covers k b (window_policy ev p)"
    by (cases ev) (auto simp: no_channel_loss_def policy_report_covers set_placement_def)
  with Cons show ?case by (simp add: no_channel_loss_def)
qed simp

lemma turn_focus: "focus_rule p \<Longrightarrow> focus_rule (fold window_policy evs (fold signal_policy sgs p))"
proof -
  have "focus_rule (signal_policy sg p)" if "focus_rule p" for sg p
    using that policy_report_focus by (cases sg) (auto simp: set_placement_def focus_rule_def policy_simps)
  then have 1: "focus_rule p \<Longrightarrow> focus_rule (fold signal_policy sgs p)" for p by (induction sgs arbitrary: p) auto
  have "focus_rule (window_policy ev p)" if "focus_rule p" for ev p
    using that policy_report_focus by (cases ev) (auto simp: set_placement_def focus_rule_def)
  then have "focus_rule p \<Longrightarrow> focus_rule (fold window_policy evs p)" for p by (induction evs arbitrary: p) auto
  with 1 show "focus_rule p \<Longrightarrow> focus_rule (fold window_policy evs (fold signal_policy sgs p))" by blast
qed

section \<open>The devices do what they are told\<close>

definition devices_ok :: "input_devices \<Rightarrow> bool" where
  "devices_ok g \<longleftrightarrow> pred_option keyboard_ok (id_keyboard g) \<and> pred_option pointer_ok (id_pointer g)"

lemma held_keys: "devices_ok g \<Longrightarrow> id_keyboard g = Some kb \<Longrightarrow> keys_down g = kb_held kb"
  by (simp add: devices_ok_def keyboard_ok_def keys_down_def)

lemma held_buttons: "devices_ok g \<Longrightarrow> id_pointer g = Some pt \<Longrightarrow> buttons_down g = pt_held pt"
  by (simp add: devices_ok_def pointer_ok_def buttons_down_def)

lemma release_input_ok:
  assumes "devices_ok g"
  shows "devices_ok (release_input g)" "keys_down (release_input g) = {}" "buttons_down (release_input g) = {}"
    "id_parameters (release_input g) = id_parameters g"
proof -
  have kb: "\<exists>kb'. keyboard_release_all kb = (Ok (), kb') \<and> keyboard_ok kb' \<and> kb_held kb' = {}"
    if "id_keyboard g = Some kb" for kb
    using that assms keyboard_release_all_ok [of kb] by (auto simp: devices_ok_def)
  have pt: "\<exists>pt'. pointer_release_all pt = (Ok (), pt') \<and> pointer_ok pt' \<and> pt_held pt' = {}"
    if "id_pointer g = Some pt" for pt
    using that assms pointer_release_all_ok [of pt] by (auto simp: devices_ok_def)
  show "devices_ok (release_input g)" "keys_down (release_input g) = {}" "buttons_down (release_input g) = {}"
    "id_parameters (release_input g) = id_parameters g"
    using kb pt by (cases "id_keyboard g"; cases "id_pointer g";
      force simp: release_input_def devices_ok_def keys_down_def buttons_down_def keyboard_ok_def pointer_ok_def)+
qed

lemma narrow_unat [simp]: "narrow_code (unat (c :: u16)) = c"
  using unsigned_less [where 'a = nat, of c] by (simp add: narrow_code_def)

lemma apply_keyboard:
  assumes "devices_ok g" "\<And>kb. keyboard_ok kb \<Longrightarrow> keyboard_ok (f kb) \<and> kb_held (f kb) = change (kb_held kb)"
  shows "devices_ok (g\<lparr>id_keyboard := map_option f (id_keyboard g)\<rparr>) \<and>
    keys_down (g\<lparr>id_keyboard := map_option f (id_keyboard g)\<rparr>) \<subseteq> change (keys_down g)"
proof (cases "id_keyboard g")
  case None
  then show ?thesis using assms(1) by (simp add: devices_ok_def keys_down_def)
next
  case (Some kb)
  then have "keyboard_ok kb" using assms(1) by (simp add: devices_ok_def)
  from this assms(2) [OF this] show ?thesis
    using Some assms(1) by (simp add: devices_ok_def keys_down_def keyboard_ok_def)
qed

lemma apply_pointer:
  assumes "devices_ok g" "\<And>pt. pointer_ok pt \<Longrightarrow> pointer_ok (f pt) \<and> pt_held (f pt) = change (pt_held pt)"
  shows "devices_ok (g\<lparr>id_pointer := map_option f (id_pointer g)\<rparr>) \<and>
    buttons_down (g\<lparr>id_pointer := map_option f (id_pointer g)\<rparr>) \<subseteq> change (buttons_down g)"
proof (cases "id_pointer g")
  case None
  then show ?thesis using assms(1) by (simp add: devices_ok_def buttons_down_def)
next
  case (Some pt)
  then have "pointer_ok pt" using assms(1) by (simp add: devices_ok_def)
  from this assms(2) [OF this] show ?thesis
    using Some assms(1) by (simp add: devices_ok_def buttons_down_def pointer_ok_def)
qed

lemma down_other_device [simp]:
  "keys_down (g\<lparr>id_pointer := x\<rparr>) = keys_down g" "buttons_down (g\<lparr>id_keyboard := y\<rparr>) = buttons_down g"
  by (simp_all add: keys_down_def buttons_down_def)

lemma guest_event_cases:
  assumes "input_wire_ok iw" "id_parameters g = Some (w, h)"
  shows "guest_event iw (KeyEv c b) g = g\<lparr>id_keyboard := map_option (\<lambda>kb. snd (keyboard_key c b kb)) (id_keyboard g)\<rparr>"
    "guest_event iw (MotionEv x y) g = g\<lparr>id_pointer := map_option (\<lambda>pt. snd (pointer_motion x y w h pt)) (id_pointer g)\<rparr>"
    "guest_event iw (ButtonEv c b) g = g\<lparr>id_pointer := map_option (\<lambda>pt. snd (pointer_button c b pt)) (id_pointer g)\<rparr>"
    "guest_event iw (ScrollEv dx dy) g = g\<lparr>id_pointer := map_option (\<lambda>pt. snd (pointer_scroll dx dy pt)) (id_pointer g)\<rparr>"
    "guest_event iw ReleaseAllEv g = release_input g"
  using assms by (simp_all add: guest_event_def apply_input_def input_wire_ok_def input_types)

lemma guest_event_ok:
  assumes "input_wire_ok iw" "devices_ok g" "id_parameters g \<noteq> None"
  shows "devices_ok (guest_event iw e g) \<and> id_parameters (guest_event iw e g) = id_parameters g \<and>
    keys_down (guest_event iw e g) \<subseteq> key_after e (keys_down g) \<and>
    buttons_down (guest_event iw e g) \<subseteq> button_after e (buttons_down g)"
proof -
  obtain w h where p: "id_parameters g = Some (w, h)" using assms(3) by auto
  note cases = guest_event_cases [OF assms(1) p]
  show ?thesis
  proof (cases e)
    case (KeyEv c b)
    have "keyboard_ok (snd (keyboard_key c b kb)) \<and> kb_held (snd (keyboard_key c b kb)) = key_after e (kb_held kb)"
      if "keyboard_ok kb" for kb using keyboard_key_ok [OF that, of c b] KeyEv by auto
    from apply_keyboard [where f = "\<lambda>kb. snd (keyboard_key c b kb)" and change = "key_after e", OF assms(2) this] KeyEv show ?thesis by (simp add: cases)
  next
    case (MotionEv x y)
    have "pointer_ok (snd (pointer_motion x y w h pt)) \<and> pt_held (snd (pointer_motion x y w h pt)) = id (pt_held pt)"
      if "pointer_ok pt" for pt using pointer_motion_ok [OF that, of x y w h] by (elim exE conjE) simp
    from apply_pointer [where f = "\<lambda>pt. snd (pointer_motion x y w h pt)" and change = id, OF assms(2) this] MotionEv show ?thesis by (simp add: cases)
  next
    case (ButtonEv c b)
    have "pointer_ok (snd (pointer_button c b pt)) \<and> pt_held (snd (pointer_button c b pt)) = button_after e (pt_held pt)"
      if "pointer_ok pt" for pt using pointer_button_ok [OF that, of c b] ButtonEv by auto
    from apply_pointer [where f = "\<lambda>pt. snd (pointer_button c b pt)" and change = "button_after e", OF assms(2) this] ButtonEv show ?thesis by (simp add: cases)
  next
    case (ScrollEv dx dy)
    have "pointer_ok (snd (pointer_scroll dx dy pt)) \<and> pt_held (snd (pointer_scroll dx dy pt)) = id (pt_held pt)"
      if "pointer_ok pt" for pt using pointer_scroll_held [OF that, of dx dy] by (elim exE conjE) simp
    from apply_pointer [where f = "\<lambda>pt. snd (pointer_scroll dx dy pt)" and change = id, OF assms(2) this] ScrollEv show ?thesis by (simp add: cases)
  next
    case ReleaseAllEv
    with release_input_ok [OF assms(2)] show ?thesis by (simp add: cases)
  qed
qed

section \<open>Nothing stays down that the window let go\<close>

text \<open>
  With a session up, what the guest will have down once everything under way has arrived is among what the policy
  believes; the other fields say which ends of the socket can be open when.
\<close>

abbreviation pending_covered :: "input_system \<Rightarrow> input_event list \<Rightarrow> u16 set \<Rightarrow> u16 set \<Rightarrow> bool" where
  "pending_covered s es k b \<equiv> keys_after es k \<subseteq> py_keys (sy_policy s) \<and> buttons_after es b \<subseteq> py_buttons (sy_policy s)"

definition input_inv :: "input_system \<Rightarrow> bool" where
  "input_inv s \<longleftrightarrow> py_queue (sy_policy s) = [] \<and> focus_rule (sy_policy s) \<and> devices_ok (sy_guest s) \<and>
     buttons_down (sy_guest s) \<subseteq> Collect button_range \<and>
     (sy_open s \<longrightarrow> id_parameters (sy_guest s) \<noteq> None) \<and>
     (\<not> sy_open s \<longrightarrow> keys_down (sy_guest s) = {} \<and> buttons_down (sy_guest s) = {} \<and> sy_wire s = []) \<and>
     (sy_up s \<longrightarrow> \<not> sy_ended s) \<and> (sy_bound s \<longrightarrow> sy_up s) \<and>
     (sy_up s \<longrightarrow> pending_covered s (sy_orders s) {} {}) \<and>
     (sy_bound s \<and> sy_open s \<longrightarrow>
       pending_covered s (sy_wire s @ sy_orders s) (keys_down (sy_guest s)) (buttons_down (sy_guest s)))"

lemma keys_after_least: "keys_after es {} \<subseteq> keys_after es k"
  by (rule keys_after_mono) simp

lemma buttons_after_least: "buttons_after es {} \<subseteq> buttons_after es b"
  by (rule buttons_after_mono) simp

lemma pump_turn_covers:
  assumes "pump_turn sgs evs p = (drained, hook, p')" "SessionEnded \<notin> set sgs" "no_channel_loss evs"
    "py_queue p = []" "k \<subseteq> py_keys p" "b \<subseteq> py_buttons p" "b \<subseteq> Collect button_range"
  shows "keys_after drained k \<subseteq> py_keys p' \<and> buttons_after drained b \<subseteq> py_buttons p'"
proof -
  have "policy_covers k b p" using assms(4-7) by (simp add: policy_covers_def)
  from events_cover [OF signals_cover [OF this assms(2)] assms(3)] assms(1) show ?thesis
    by (auto simp: pump_turn_def policy_drain_def keyboard_release_requested_def policy_covers_def)
qed

lemma pump_turn_shape:
  "pump_turn sgs evs p = (drained, hook, p') \<Longrightarrow> py_queue p' = [] \<and> (focus_rule p \<longrightarrow> focus_rule p')"
  using turn_focus [of p evs sgs]
  by (auto simp: pump_turn_def policy_drain_def keyboard_release_requested_def focus_rule_def)

lemma input_start_inv: "input_inv input_start"
  by (simp add: input_inv_def input_start_def policy_new_def focus_rule_def devices_ok_def keys_down_def buttons_down_def)

lemma fresh_devices:
  assumes "sound_device keys" "sink_taken keys = []" "sound_device moves" "sink_taken moves = []"
  shows "devices_ok (take_input_devices [keys, moves] g)" "keys_down (take_input_devices [keys, moves] g) = {}"
    "buttons_down (take_input_devices [keys, moves] g) = {}"
    "id_parameters (take_input_devices [keys, moves] g) = id_parameters g"
  using assms by (simp_all add: take_input_devices_def devices_ok_def keys_down_def buttons_down_def keyboard_ok_def
      pointer_ok_def keyboard_new_def pointer_new_def kernel_down_def DETENT_def)

lemma button_after_range: "held \<subseteq> Collect button_range \<Longrightarrow> button_after e held \<subseteq> Collect button_range"
  using buttons_after_range [of held "[e]"] by simp

lemma input_step_inv:
  assumes "input_wire_ok iw" "input_step iw s t" "input_inv s"
  shows "input_inv t"
  using assms(2,3)
proof cases
  case (turn sgs evs drained hook p)
  have "input_inv t" if "SessionEnded \<in> set sgs"
    using that turn assms(3) pump_turn_shape [OF turn(4)] by (auto simp: input_inv_def)
  moreover have "input_inv t" if quiet: "SessionEnded \<notin> set sgs"
  proof -
    have covered: "pending_covered t (sy_orders s @ drained) k b"
      if "pending_covered s (sy_orders s) k b" "b \<subseteq> Collect button_range" for k b
      using pump_turn_covers [OF turn(4) quiet turn(3), of "keys_after (sy_orders s) k" "buttons_after (sy_orders s) b"]
        that buttons_after_range [OF that(2)] assms(3) turn(1) by (simp add: input_inv_def)
    have empty: "sy_up s \<longrightarrow> pending_covered t (sy_orders s @ drained) {} {}"
      using covered [of "{}" "{}"] assms(3) by (simp add: input_inv_def)
    have "sy_bound s \<and> sy_open s \<longrightarrow> pending_covered t (sy_orders s @ drained)
        (keys_after (sy_wire s) (keys_down (sy_guest s))) (buttons_after (sy_wire s) (buttons_down (sy_guest s)))"
      using covered [of "keys_after (sy_wire s) (keys_down (sy_guest s))" "buttons_after (sy_wire s) (buttons_down (sy_guest s))"]
        assms(3) buttons_after_range [of "buttons_down (sy_guest s)" "sy_wire s"] by (simp add: input_inv_def)
    with empty show ?thesis
      using turn assms(3) pump_turn_shape [OF turn(4)] by (simp add: input_inv_def)
  qed
  ultimately show ?thesis by blast
next
  case (guest_reads e es)
  then have g: "devices_ok (sy_guest s)" "id_parameters (sy_guest s) \<noteq> None" using assms(3) by (auto simp: input_inv_def)
  note ge = guest_event_ok [OF assms(1) g, of e]
  have "keys_after (es @ sy_orders s) (keys_down (guest_event iw e (sy_guest s))) \<subseteq>
      keys_after (es @ sy_orders s) (key_after e (keys_down (sy_guest s)))"
    "buttons_after (es @ sy_orders s) (buttons_down (guest_event iw e (sy_guest s))) \<subseteq>
      buttons_after (es @ sy_orders s) (button_after e (buttons_down (sy_guest s)))"
    using ge by (auto intro!: keys_after_mono buttons_after_mono simp del: after_simps)
  with ge guest_reads assms(3) button_after_range [of "buttons_down (sy_guest s)" e] show ?thesis
    by (auto simp: input_inv_def)
next
  case (sends e es)
  have "keys_after es {} \<subseteq> keys_after es (key_after e {})" "buttons_after es {} \<subseteq> buttons_after es (button_after e {})"
    by (rule keys_after_least, rule buttons_after_least)
  with sends assms(3) show ?thesis by (auto simp: input_inv_def)
next
  case (write_fails e es)
  have "keys_after es {} \<subseteq> keys_after es (key_after e {})" "buttons_after es {} \<subseteq> buttons_after es (button_after e {})"
    by (rule keys_after_least, rule buttons_after_least)
  with write_fails assms(3) show ?thesis by (auto simp: input_inv_def)
next
  case guest_loses
  with assms(3) release_input_ok [of "sy_guest s"] show ?thesis by (auto simp: input_inv_def)
next
  case guest_session_closed
  have "devices_ok (g\<lparr>id_parameters := None\<rparr>) = devices_ok g" "keys_down (g\<lparr>id_parameters := None\<rparr>) = keys_down g"
    "buttons_down (g\<lparr>id_parameters := None\<rparr>) = buttons_down g" for g
    by (simp_all add: devices_ok_def keys_down_def buttons_down_def)
  with guest_session_closed assms(3) release_input_ok [of "sy_guest s"] show ?thesis by (auto simp: input_inv_def)
next
  case (guest_resized w h)
  have "devices_ok (g\<lparr>id_parameters := Some (w, h)\<rparr>) = devices_ok g" "keys_down (g\<lparr>id_parameters := Some (w, h)\<rparr>) = keys_down g"
    "buttons_down (g\<lparr>id_parameters := Some (w, h)\<rparr>) = buttons_down g" for g
    by (simp_all add: devices_ok_def keys_down_def buttons_down_def)
  with guest_resized assms(3) show ?thesis by (auto simp: input_inv_def)
next
  case (devices_arrive keys moves)
  note f = fresh_devices [OF devices_arrive(2-5), of "sy_guest s"]
  have "keys_after (sy_wire s @ sy_orders s) {} \<subseteq> keys_after (sy_wire s @ sy_orders s) (keys_down (sy_guest s))"
    "buttons_after (sy_wire s @ sy_orders s) {} \<subseteq> buttons_after (sy_wire s @ sy_orders s) (buttons_down (sy_guest s))"
    by (rule keys_after_least, rule buttons_after_least)
  with f devices_arrive assms(3) show ?thesis by (auto simp: input_inv_def simp del: after_simps)
next
  case binds
  with assms(3) show ?thesis by (auto simp: input_inv_def)
qed (use assms(3) in \<open>auto simp: input_inv_def\<close>)

lemma input_reachable_inv: "input_reachable iw s \<Longrightarrow> input_wire_ok iw \<Longrightarrow> input_inv s"
  by (induction rule: input_reachable.induct) (auto intro: input_start_inv input_step_inv)

section \<open>The channel carries the events in order\<close>

definition input_record :: "crypto \<Rightarrow> input_wire \<Rightarrow> u32 \<Rightarrow> u32 \<Rightarrow> input_event \<Rightarrow> record_msg" where
  "input_record cr iw n g e = record_new (crc32c cr) ChInput (fst (encode_input iw e)) n 0 g (snd (encode_input iw e))"

text \<open>Two fields of 32 bits are a small message.\<close>

definition small_event :: "input_wire \<Rightarrow> input_event \<Rightarrow> bool" where
  "small_event iw e \<longleftrightarrow> length (snd (encode_input iw e)) \<le> INPUT_MAX_PAYLOAD"

lemma input_record_length:
  assumes "small_event iw e"
  shows "unat (hd_length (rec_header (input_record cr iw n g e))) = length (record_msg.rec_payload (input_record cr iw n g e))"
    "length (record_msg.rec_payload (input_record cr iw n g e)) \<le> INPUT_MAX_PAYLOAD"
proof -
  have "length (snd (encode_input iw e)) \<le> u32_max" using assms by (simp add: small_event_def INPUT_MAX_PAYLOAD_def)
  then show "unat (hd_length (rec_header (input_record cr iw n g e))) = length (record_msg.rec_payload (input_record cr iw n g e))"
    "length (record_msg.rec_payload (input_record cr iw n g e)) \<le> INPUT_MAX_PAYLOAD"
    using assms by (simp_all add: input_record_def record_new_def header_length_exact small_event_def)
qed

lemma input_record_read:
  assumes "small_event iw e" "prompt {Interrupted} r (record_bytes (input_record cr iw n g e) @ rest)"
  shows "\<exists>r'. record_read (crc32c cr) l r =
      (Ok (rec_header (input_record cr iw n g e), record_msg.rec_payload (input_record cr iw n g e)), r') \<and>
    prompt {Interrupted} r' rest"
proof (rule record_read_prompt [of _ _ _ "[]"])
  let ?m = "input_record cr iw n g e"
  show "prompt {Interrupted} r (extended_header (rec_header ?m) [] @ [] @ record_msg.rec_payload ?m @ rest)"
    using assms(2) by (simp add: record_bytes_def extended_header_nil)
  have "stream_bytes (rd_events r) \<noteq> []"
    using assms(2) length_header_encode [of "rec_header ?m"]
    by (auto simp: prompt_def record_bytes_def simp del: length_header_encode)
  then show "begun (rd_events r)" using assms(2) by (intro begun_steady) (auto simp: prompt_def)
  show "unat (hd_length (rec_header ?m)) = length (record_msg.rec_payload ?m)" by (rule input_record_length [OF assms(1)])
  show "length (record_msg.rec_payload ?m) \<le> for_channel l (hd_channel (rec_header ?m))"
    using input_record_length(2) [OF assms(1), of cr n g]
    by (simp add: input_record_def record_new_def header_for_payload_def)
qed (simp_all add: input_record_def record_new_def header_for_payload_def)

definition input_bound :: "live_input \<Rightarrow> bool" where
  "input_bound l \<longleftrightarrow> (\<exists>socket. li_input l = Some socket \<and> sink_script socket = []) \<and> 1 < length (ss_channels (li_session l))"

abbreviation li_taken :: "live_input \<Rightarrow> bytes" where "li_taken l \<equiv> sink_taken (the (li_input l))"

abbreviation li_generation :: "live_input \<Rightarrow> u32" where "li_generation l \<equiv> generation (li_session l) ChInput"

lemma send_input_writes:
  assumes "small_event iw e" "input_bound l"
  shows "\<exists>n. input_bound (send_input cr iw e l) \<and> li_generation (send_input cr iw e l) = li_generation l \<and>
    li_taken (send_input cr iw e l) = li_taken l @ record_bytes (input_record cr iw n (li_generation l) e)"
proof -
  obtain socket where socket: "li_input l = Some socket" "sink_script socket = []"
    using assms(2) by (auto simp: input_bound_def)
  let ?n = "cs_sequence (ss_channels (li_session l) ! 1)"
  let ?s = "update_channel 1 (\<lambda>c. c\<lparr>cs_sequence := cs_sequence c + 1\<rparr>) (li_session l)"
  let ?m = "input_record cr iw ?n (li_generation l) e"
  have seq: "take_channel_sequence (li_session l) ChInput = (Ok ?n, ?s)" by (simp add: take_channel_sequence_def)
  have gen: "generation ?s ChInput = li_generation l" "1 < length (ss_channels ?s)"
    using assms(2) by (auto simp: generation_def update_channel_def input_bound_def)
  have "for_channel (li_limits l) (hd_channel (rec_header ?m)) = INPUT_MAX_PAYLOAD"
    by (simp add: input_record_def record_new_def header_for_payload_def)
  then have "record_write ?m (li_limits l) socket = (Ok (), socket\<lparr>sink_taken := sink_taken socket @ record_bytes ?m\<rparr>)"
    using input_record_length [OF assms(1), of cr ?n "li_generation l"] socket(2)
    by (simp add: record_write_def write_payload_def record_bytes_def flush_def Let_def)
  then have "send_input cr iw e l = l\<lparr>li_session := ?s,
      li_input := Some (socket\<lparr>sink_taken := sink_taken socket @ record_bytes ?m\<rparr>)\<rparr>"
    using socket(1) seq gen(1) by (cases "encode_input iw e") (simp add: send_input_def input_record_def Let_def)
  with socket gen show ?thesis by (intro exI [of _ ?n]) (simp add: input_bound_def)
qed

lemma read_input_applies:
  assumes "small_event iw e" "gi_socket g = Some d" "gi_generation g = Some gen"
    "prompt {Interrupted} (dx_reader d) (record_bytes (input_record cr iw n gen e) @ rest)"
  shows "\<exists>r'. read_input cr iw g = (Ok True, g\<lparr>gi_devices := guest_event iw e (gi_devices g),
      gi_socket := Some (d\<lparr>dx_reader := r'\<rparr>), gi_records := gi_records g + 1\<rparr>) \<and> prompt {Interrupted} r' rest"
proof -
  obtain r' where "record_read (crc32c cr) (gi_limits g) (dx_reader d) =
      (Ok (rec_header (input_record cr iw n gen e), record_msg.rec_payload (input_record cr iw n gen e)), r')"
    "prompt {Interrupted} r' rest"
    using input_record_read [OF assms(1,4)] by blast
  then show ?thesis
    using assms(2,3)
    by (intro exI [of _ r']) (auto simp: read_input_def Let_def input_record_def record_new_def header_for_payload_def
        guest_event_def split: prod.splits)
qed

fun read_inputs :: "crypto \<Rightarrow> input_wire \<Rightarrow> nat \<Rightarrow> guest_input \<Rightarrow> guest_input" where
  "read_inputs cr iw 0 g = g"
| "read_inputs cr iw (Suc n) g = read_inputs cr iw n (snd (read_input cr iw g))"

lemma input_channel_in_order:
  assumes "list_all (small_event iw) es" "input_bound l"
  shows "\<exists>bs. input_bound (fold (send_input cr iw) es l) \<and> li_generation (fold (send_input cr iw) es l) = li_generation l \<and>
    li_taken (fold (send_input cr iw) es l) = li_taken l @ bs \<and>
    (\<forall>g d. gi_socket g = Some d \<and> gi_generation g = Some (li_generation l) \<and> prompt {Interrupted} (dx_reader d) bs \<longrightarrow>
      gi_devices (read_inputs cr iw (length es) g) = fold (guest_event iw) es (gi_devices g) \<and>
      gi_records (read_inputs cr iw (length es) g) = gi_records g + length es)"
  using assms
proof (induction es arbitrary: l)
  case (Cons e es)
  then have small: "small_event iw e" "list_all (small_event iw) es" by simp_all
  obtain n where n: "input_bound (send_input cr iw e l)" "li_generation (send_input cr iw e l) = li_generation l"
    "li_taken (send_input cr iw e l) = li_taken l @ record_bytes (input_record cr iw n (li_generation l) e)"
    using send_input_writes [OF small(1) Cons.prems(2)] by blast
  let ?l = "send_input cr iw e l" and ?b = "record_bytes (input_record cr iw n (li_generation l) e)"
  obtain bs where bs: "input_bound (fold (send_input cr iw) es ?l)" "li_generation (fold (send_input cr iw) es ?l) = li_generation l"
    "li_taken (fold (send_input cr iw) es ?l) = li_taken ?l @ bs"
    "\<And>g d. gi_socket g = Some d \<Longrightarrow> gi_generation g = Some (li_generation l) \<Longrightarrow> prompt {Interrupted} (dx_reader d) bs \<Longrightarrow>
      gi_devices (read_inputs cr iw (length es) g) = fold (guest_event iw) es (gi_devices g) \<and>
      gi_records (read_inputs cr iw (length es) g) = gi_records g + length es"
    using Cons.IH [OF small(2) n(1)] n(2) by metis
  have "gi_devices (read_inputs cr iw (length (e # es)) g) = fold (guest_event iw) (e # es) (gi_devices g) \<and>
      gi_records (read_inputs cr iw (length (e # es)) g) = gi_records g + length (e # es)"
    if at: "gi_socket g = Some d" "gi_generation g = Some (li_generation l)" "prompt {Interrupted} (dx_reader d) (?b @ bs)" for g d
  proof -
    obtain r' where "read_input cr iw g = (Ok True, g\<lparr>gi_devices := guest_event iw e (gi_devices g),
        gi_socket := Some (d\<lparr>dx_reader := r'\<rparr>), gi_records := gi_records g + 1\<rparr>)" "prompt {Interrupted} r' bs"
      using read_input_applies [OF small(1) at] by blast
    with bs(4) [of "g\<lparr>gi_devices := guest_event iw e (gi_devices g), gi_socket := Some (d\<lparr>dx_reader := r'\<rparr>),
        gi_records := gi_records g + 1\<rparr>" "d\<lparr>dx_reader := r'\<rparr>"] at(2) show ?thesis by simp
  qed
  with n bs(1-3) show ?case by (intro exI [of _ "?b @ bs"]) auto
qed auto

end
