(* ===== verification/Iso_Image.thy ===== *)
theory Iso_Image
  imports Prelude
begin

text \<open>
  The ISO9660 volume of a seed (\<open>seed/src/iso.rs\<close>): the writer, as the source has it, and a reader that walks an
  image the way a driver does. Names and the volume's label are the bytes of their strings. A block address is a
  natural, and one that leaves \<open>u32\<close> is a panic. So is a failed \<open>debug_assert\<close>: the model is of the checked build.
\<close>

section \<open>The writer\<close>

definition SECTOR :: nat where "SECTOR = 2048"
definition ROOT_LBA :: nat where "ROOT_LBA = 20"
definition SYSTEM_AREA_SECTORS :: nat where "SYSTEM_AREA_SECTORS = 16"
definition LITTLE_PATH_TABLE_LBA :: nat where "LITTLE_PATH_TABLE_LBA = 18"
definition BIG_PATH_TABLE_LBA :: nat where "BIG_PATH_TABLE_LBA = 19"
definition PATH_TABLE_SIZE :: nat where "PATH_TABLE_SIZE = 10"
definition MAX_IDENTIFIER :: nat where "MAX_IDENTIFIER = 30"

definition PUBLISHER :: bytes where "PUBLISHER = [86, 77, 76, 79, 82, 68]"
definition CD001 :: bytes where "CD001 = [67, 68, 48, 48, 49]"

definition u32_to_be :: "u32 \<Rightarrow> bytes" where "u32_to_be w = rev (u32_to_le w)"
definition u16_to_be :: "u16 \<Rightarrow> bytes" where "u16_to_be w = rev (u16_to_le w)"

definition both_endian_u32 :: "u32 \<Rightarrow> bytes" where "both_endian_u32 w = u32_to_le w @ u32_to_be w"
definition both_endian_u16 :: "u16 \<Rightarrow> bytes" where "both_endian_u16 w = u16_to_le w @ u16_to_be w"

definition record_length :: "nat \<Rightarrow> nat" where
  "record_length identifier_len = (let l = 33 + identifier_len in l + l mod 2)"

definition directory_record :: "bytes \<Rightarrow> u32 \<Rightarrow> u32 \<Rightarrow> bool \<Rightarrow> (unit, bytes) outcome" where
  "directory_record identifier lba len directory =
     (let n = record_length (length identifier); r = replicate n 0 in
      if n > 255 then Panic
      else let r = r[0 := of_nat n];
               r = splice r 2 (both_endian_u32 lba);
               r = splice r 10 (both_endian_u32 len);
               r = r[25 := (if directory then 2 else 0)];
               r = splice r 28 (both_endian_u16 1) in
      if length identifier > 255 then Panic
      else let r = r[32 := of_nat (length identifier)] in
        copy_slice r 33 (33 + length identifier) identifier)"

definition path_table :: "u32 \<Rightarrow> bool \<Rightarrow> bytes" where
  "path_table root_lba big_endian =
     (let r = (replicate PATH_TABLE_SIZE 0)[0 := 1] in
      if big_endian then splice (splice r 2 (u32_to_be root_lba)) 6 (u16_to_be 1)
      else splice (splice r 2 (u32_to_le root_lba)) 6 (u16_to_le 1))"

definition text_field :: "nat \<Rightarrow> nat \<Rightarrow> bytes \<Rightarrow> bytes \<Rightarrow> (unit, bytes) outcome" where
  "text_field a b v d =
     (if length v > b - a then Panic else Ok (splice (splice d a (replicate (b - a) 32)) a v))"

definition undated :: "nat \<Rightarrow> bytes \<Rightarrow> bytes" where
  "undated a d = (splice d a (replicate 16 48))[a + 16 := 0]"

definition primary_volume_descriptor :: "bytes \<Rightarrow> u32 \<Rightarrow> bytes \<Rightarrow> (unit, bytes) outcome" where
  "primary_volume_descriptor volume_id total_sectors root =
     (let d = (replicate SECTOR 0)[0 := 1];
          d = (splice d 1 CD001)[6 := 1] in
      obind (text_field 8 40 [] d) (\<lambda>d.
      obind (text_field 40 72 volume_id d) (\<lambda>d.
      let d = splice d 80 (both_endian_u32 total_sectors);
          d = splice d 120 (both_endian_u16 1);
          d = splice d 124 (both_endian_u16 1);
          d = splice d 128 (both_endian_u16 (of_nat SECTOR));
          d = splice d 132 (both_endian_u32 (of_nat PATH_TABLE_SIZE));
          d = splice d 140 (u32_to_le (of_nat LITTLE_PATH_TABLE_LBA));
          d = splice d 148 (u32_to_be (of_nat BIG_PATH_TABLE_LBA)) in
      obind (copy_slice d 156 (156 + length root) root) (\<lambda>d.
      obind (text_field 190 318 [] d) (\<lambda>d.
      obind (text_field 318 446 PUBLISHER d) (\<lambda>d.
      obind (text_field 446 574 PUBLISHER d) (\<lambda>d.
      obind (text_field 574 702 [] d) (\<lambda>d.
      obind (text_field 702 739 [] d) (\<lambda>d.
      obind (text_field 739 776 [] d) (\<lambda>d.
      obind (text_field 776 813 [] d) (\<lambda>d.
      Ok ((undated 864 (undated 847 (undated 830 (undated 813 d))))[881 := 1]))))))))))))"

definition terminator :: bytes where
  "terminator = (splice ((replicate SECTOR 0)[0 := 255]) 1 CD001)[6 := 1]"

definition sector :: "bytes \<Rightarrow> (unit, bytes) outcome" where
  "sector content = copy_slice (replicate SECTOR 0) 0 (length content) content"

definition sectors_for :: "nat \<Rightarrow> (unit, nat) outcome" where
  "sectors_for len = (let n = div_ceil len SECTOR in if n > u32_max then Panic else Ok n)"

fun record_sectors :: "nat list \<Rightarrow> nat \<Rightarrow> nat \<Rightarrow> nat" where
  "record_sectors [] sectors used = sectors"
| "record_sectors (n # ns) sectors used =
     (if used + record_length n > SECTOR then record_sectors ns (sectors + 1) (record_length n)
      else record_sectors ns sectors (used + record_length n))"

definition sectors_for_records :: "bytes list \<Rightarrow> nat" where
  "sectors_for_records identifiers = record_sectors (map length identifiers) 1 0"

fun pack_from :: "bytes list \<Rightarrow> nat \<Rightarrow> bytes \<Rightarrow> (unit, bytes) outcome" where
  "pack_from [] cursor extent = Ok extent"
| "pack_from (r # rs) cursor extent =
     (let cursor = (if cursor mod SECTOR + length r > SECTOR then (cursor div SECTOR + 1) * SECTOR else cursor) in
      obind (copy_slice extent cursor (cursor + length r) r) (\<lambda>extent. pack_from rs (cursor + length r) extent))"

definition pack_records :: "bytes list \<Rightarrow> nat \<Rightarrow> (unit, bytes) outcome" where
  "pack_records records len = pack_from records 0 (replicate len 0)"

text \<open>The addresses of the files, and the address behind the last one.\<close>

fun file_addresses :: "bytes list \<Rightarrow> nat \<Rightarrow> (unit, nat list \<times> nat) outcome" where
  "file_addresses [] lba = Ok ([], lba)"
| "file_addresses (c # cs) lba =
     obind (sectors_for (length c)) (\<lambda>n.
       if lba + n > u32_max then Panic
       else obind (file_addresses cs (lba + n)) (\<lambda>(addresses, stop). Ok (lba # addresses, stop)))"

fun file_records :: "(bytes \<times> bytes) list \<Rightarrow> nat list \<Rightarrow> (unit, bytes list) outcome" where
  "file_records ((name, content) # es) (a # as) =
     (if length content > u32_max then Panic
      else obind (directory_record name (of_nat a) (of_nat (length content)) False) (\<lambda>r.
        obind (file_records es as) (\<lambda>rs. Ok (r # rs))))"
| "file_records _ _ = Ok []"

fun append_files :: "bytes list \<Rightarrow> bytes \<Rightarrow> bytes" where
  "append_files [] img = img"
| "append_files (c # cs) img =
     (let img = img @ c in
      append_files cs (img @ replicate (div_ceil (length img) SECTOR * SECTOR - length img) 0))"

definition identifier_fits :: "bytes \<Rightarrow> bool" where
  "identifier_fits name \<longleftrightarrow> name \<noteq> [] \<and> length name \<le> MAX_IDENTIFIER"

definition build_iso :: "bytes \<Rightarrow> (bytes \<times> bytes) list \<Rightarrow> (unit, bytes) outcome" where
  "build_iso volume_id entries =
     (if length volume_id > 32 \<or> \<not> list_all (\<lambda>(name, content). identifier_fits name) entries then Panic else
      let root_sectors = sectors_for_records ([0] # [1] # map fst entries);
          root_length = root_sectors * SECTOR in
      if root_length > u32_max then Panic
      else obind (file_addresses (map snd entries) (ROOT_LBA + root_sectors)) (\<lambda>(addresses, total_sectors).
        obind (directory_record [0] (of_nat ROOT_LBA) (of_nat root_length) True) (\<lambda>root_record.
        obind (directory_record [1] (of_nat ROOT_LBA) (of_nat root_length) True) (\<lambda>parent_record.
        obind (file_records entries addresses) (\<lambda>records.
        obind (primary_volume_descriptor volume_id (of_nat total_sectors) root_record) (\<lambda>descriptor.
        obind (sector (path_table (of_nat ROOT_LBA) False)) (\<lambda>little.
        obind (sector (path_table (of_nat ROOT_LBA) True)) (\<lambda>big.
        obind (pack_records (root_record # parent_record # records) root_length) (\<lambda>root.
          let img = append_files (map snd entries)
            (replicate (SYSTEM_AREA_SECTORS * SECTOR) 0 @ descriptor @ terminator @ little @ big @ root) in
          if length img \<noteq> total_sectors * SECTOR then Panic else Ok img)))))))))"

section \<open>A reader\<close>

text \<open>
  What a driver does: the descriptor at block 16, the root's address and length from the record in it, and the records
  of the root one after another, a zero length meaning that the rest of a sector is padding.
\<close>

record iso_entry =
  ie_name :: bytes
  ie_lba :: nat
  ie_length :: nat
  ie_directory :: bool

definition le_at :: "bytes \<Rightarrow> nat \<Rightarrow> nat" where
  "le_at bs i = unat (u32_from_le (bs ! i) (bs ! (i + 1)) (bs ! (i + 2)) (bs ! (i + 3)))"

definition entry_at :: "bytes \<Rightarrow> iso_entry" where
  "entry_at r = \<lparr>ie_name = take (unat (r ! 32)) (drop 33 r), ie_lba = le_at r 2, ie_length = le_at r 10,
     ie_directory = (bit (r ! 25) 1)\<rparr>"

function iso_walk :: "bytes \<Rightarrow> nat \<Rightarrow> iso_entry list" where
  "iso_walk root cursor =
     (if cursor \<ge> length root then []
      else if root ! cursor = 0 then iso_walk root ((cursor div SECTOR + 1) * SECTOR)
      else entry_at (drop cursor root) # iso_walk root (cursor + unat (root ! cursor)))"
  by pat_completeness auto
termination
proof (relation "measure (\<lambda>(root, cursor). length root - cursor)", simp)
  fix root :: bytes and cursor
  assume c: "\<not> length root \<le> cursor"
  have "cursor < (cursor div SECTOR + 1) * SECTOR"
    using dividend_less_times_div [of SECTOR cursor] by (simp add: SECTOR_def mult.commute)
  with c show "((root, (cursor div SECTOR + 1) * SECTOR), root, cursor) \<in> measure (\<lambda>(root, cursor). length root - cursor)"
    by simp
  assume "root ! cursor \<noteq> 0"
  then have "0 < unat (root ! cursor)" by (simp add: unat_gt_0)
  with c show "((root, cursor + unat (root ! cursor)), root, cursor) \<in> measure (\<lambda>(root, cursor). length root - cursor)"
    by simp
qed

declare iso_walk.simps [simp del]

definition iso_extent :: "bytes \<Rightarrow> nat \<Rightarrow> nat \<Rightarrow> bytes" where
  "iso_extent img lba len = take len (drop (lba * SECTOR) img)"

definition iso_descriptor :: "bytes \<Rightarrow> bytes" where
  "iso_descriptor img = iso_extent img 16 SECTOR"

definition iso_entries :: "bytes \<Rightarrow> iso_entry list" where
  "iso_entries img =
     (let d = iso_descriptor img in iso_walk (iso_extent img (le_at d 158) (le_at d 166)) 0)"

definition iso_label :: "bytes \<Rightarrow> bytes" where
  "iso_label img = take 32 (drop 40 (iso_descriptor img))"

definition iso_file :: "bytes \<Rightarrow> bytes \<Rightarrow> bytes option" where
  "iso_file img name =
     map_option (\<lambda>e. iso_extent img (ie_lba e) (ie_length e)) (find (\<lambda>e. ie_name e = name) (iso_entries img))"

section \<open>Directory records\<close>

lemma length_endian [simp]:
  "length (u32_to_be w) = 4" "length (u16_to_be v) = 2" "length (both_endian_u32 w) = 8" "length (both_endian_u16 v) = 4"
  by (simp_all add: u32_to_be_def u16_to_be_def both_endian_u32_def both_endian_u16_def)

definition record_pad :: "nat \<Rightarrow> bytes" where "record_pad n = replicate ((33 + n) mod 2) 0"

definition record_bytes_of :: "bytes \<Rightarrow> u32 \<Rightarrow> u32 \<Rightarrow> bool \<Rightarrow> bytes" where
  "record_bytes_of identifier lba len directory =
     [of_nat (record_length (length identifier)), 0] @ both_endian_u32 lba @ both_endian_u32 len @ [0, 0, 0, 0, 0, 0, 0]
     @ [if directory then 2 else 0, 0, 0] @ both_endian_u16 1 @ [of_nat (length identifier)] @ identifier
     @ record_pad (length identifier)"

lemma record_length_pad: "record_length n = 33 + n + length (record_pad n)"
  by (simp add: record_length_def record_pad_def Let_def)

lemma length_record_bytes_of [simp]: "length (record_bytes_of i a l d) = record_length (length i)"
  by (simp add: record_bytes_of_def record_length_pad)

lemma directory_record_layout:
  assumes "length identifier \<le> 200"
  shows "directory_record identifier lba len directory = Ok (record_bytes_of identifier lba len directory)"
proof -
  define q where "q = (33 + length identifier) mod 2"
  let ?k = "length identifier"
  have n: "record_length ?k = 33 + (?k + q)" "record_length ?k \<le> 255" "?k \<le> 255"
    using assms by (auto simp: record_length_def Let_def q_def)
  have zeros: "replicate (33 + (?k + q)) (0 :: u8) =
      [0,0,0,0,0,0,0,0,0,0,0,0,0,0,0,0,0,0,0,0,0,0,0,0,0,0,0,0,0,0,0,0,0] @ replicate ?k 0 @ replicate q 0"
    by (simp add: replicate_add [of 33] replicate_add [of ?k] eval_nat_numeral)
  have guards: "(33 + (?k + q) > 255) = False" "(?k > 255) = False" using n by auto
  show ?thesis
    unfolding directory_record_def record_bytes_of_def record_pad_def Let_def n(1) zeros guards q_def [symmetric] if_False
    by (simp add: splice_def both_endian_u32_def both_endian_u16_def u32_to_be_def u16_to_be_def u32_to_le_def u16_to_le_def
        copy_slice_def eval_nat_numeral)
qed

lemma le_at_here: "length xs = i \<Longrightarrow> le_at (xs @ u32_to_le w @ ys) i = unat w"
  by (auto simp: le_at_def u32_to_le_def nth_append)

lemma entry_at_record:
  assumes "length identifier \<le> 200"
  shows "entry_at (record_bytes_of identifier lba len directory @ rest) =
    \<lparr>ie_name = identifier, ie_lba = unat lba, ie_length = unat len, ie_directory = directory\<rparr>"
proof -
  let ?n = "of_nat (record_length (length identifier)) :: u8"
  let ?tail = "[0, 0, 0, 0, 0, 0, 0] @ [if directory then 2 else 0, 0, 0] @ both_endian_u16 1 @ [of_nat (length identifier)]
    @ identifier @ record_pad (length identifier) @ rest"
  let ?r = "record_bytes_of identifier lba len directory @ rest"
  have r: "?r = [?n, 0] @ u32_to_le lba @ u32_to_be lba @ both_endian_u32 len @ ?tail"
    "?r = ([?n, 0] @ both_endian_u32 lba) @ u32_to_le len @ u32_to_be len @ ?tail"
    "?r = ([?n, 0] @ both_endian_u32 lba @ both_endian_u32 len) @ ?tail"
    by (simp_all add: record_bytes_of_def both_endian_u32_def)
  have "le_at ?r 2 = unat lba" "le_at ?r 10 = unat len"
    by (subst r(1), rule le_at_here, simp, subst r(2), rule le_at_here, simp)
  moreover have "unat (of_nat (length identifier) :: u8) = length identifier"
    using assms by (subst unat_of_nat) (simp add: take_bit_nat_eq_self)
  moreover have "?r ! 32 = of_nat (length identifier)" "?r ! 25 = (if directory then 2 else 0)"
    "drop 33 ?r = identifier @ record_pad (length identifier) @ rest"
    unfolding r(3) by (simp_all add: nth_append both_endian_u16_def u16_to_le_def u16_to_be_def)
  moreover have "bit (2 :: u8) 1" by simp
  ultimately show ?thesis by (simp add: entry_at_def)
qed

lemma record_first_byte:
  assumes "length identifier \<le> 200"
  shows "unat (record_bytes_of identifier lba len directory ! 0) = record_length (length identifier)"
    "record_bytes_of identifier lba len directory ! 0 \<noteq> 0"
proof -
  have "0 < record_length (length identifier)" "record_length (length identifier) < 256"
    using assms by (auto simp: record_length_def Let_def)
  then show "unat (record_bytes_of identifier lba len directory ! 0) = record_length (length identifier)"
    by (simp add: record_bytes_of_def unat_of_nat take_bit_nat_eq_self)
  with \<open>0 < _\<close> show "record_bytes_of identifier lba len directory ! 0 \<noteq> 0" by (metis unat_0 less_irrefl)
qed

section \<open>The root directory\<close>

text \<open>Where the next record of a length goes, and the extent that a list of records fills from a position on.\<close>

definition next_slot :: "nat \<Rightarrow> nat \<Rightarrow> nat" where
  "next_slot c n = (if c mod SECTOR + n > SECTOR then (c div SECTOR + 1) * SECTOR else c)"

fun laid :: "nat \<Rightarrow> bytes list \<Rightarrow> bytes" where
  "laid c [] = []"
| "laid c (r # rs) = replicate (next_slot c (length r) - c) 0 @ r @ laid (next_slot c (length r) + length r) rs"

lemma next_slot_le: "c \<le> next_slot c n"
  using dividend_less_times_div [of SECTOR c] by (simp add: next_slot_def SECTOR_def mult.commute)

lemma pack_from_laid:
  assumes "length pre = c" "c + length (laid c rs) \<le> n"
  shows "pack_from rs c (pre @ replicate (n - c) 0) = Ok (pre @ laid c rs @ replicate (n - c - length (laid c rs)) 0)"
  using assms
proof (induction rs arbitrary: c pre)
  case (Cons r rs)
  let ?p = "next_slot c (length r)"
  have p: "c \<le> ?p" by (rule next_slot_le)
  let ?pre = "pre @ replicate (?p - c) 0 @ r"
  have room: "?p + length r + length (laid (?p + length r) rs) \<le> n" using Cons.prems p by simp
  have "pre @ replicate (n - c) 0 = pre @ replicate (?p - c) (0 :: u8) @ replicate (n - ?p) 0"
    using room p by (simp add: replicate_add [symmetric])
  then have "copy_slice (pre @ replicate (n - c) 0) ?p (?p + length r) r = Ok (?pre @ replicate (n - (?p + length r)) 0)"
    using room p Cons.prems(1) by (simp add: copy_slice_def splice_def)
  moreover have "pack_from rs (?p + length r) (?pre @ replicate (n - (?p + length r)) 0) =
      Ok (?pre @ laid (?p + length r) rs @ replicate (n - (?p + length r) - length (laid (?p + length r) rs)) 0)"
    using Cons.IH [of ?pre "?p + length r"] Cons.prems(1) p room by simp
  ultimately show ?case using p Cons.prems(1) by (auto simp: next_slot_def [symmetric] Let_def add.assoc)
qed simp

lemma iso_walk_zeros: "\<forall>i. cursor \<le> i \<and> i < length root \<longrightarrow> root ! i = 0 \<Longrightarrow> iso_walk root cursor = []"
proof (induction root cursor rule: iso_walk.induct)
  case (1 root cursor)
  show ?case
  proof (cases "cursor \<ge> length root")
    case False
    have "cursor < (cursor div SECTOR + 1) * SECTOR"
      using dividend_less_times_div [of SECTOR cursor] by (simp add: SECTOR_def mult.commute)
    with 1 False show ?thesis by (subst iso_walk.simps) auto
  qed (simp add: iso_walk.simps)
qed

text \<open>The records a writer makes, each as the entry a reader finds there.\<close>

definition record_of :: "iso_entry \<Rightarrow> bytes" where
  "record_of e = record_bytes_of (ie_name e) (of_nat (ie_lba e)) (of_nat (ie_length e)) (ie_directory e)"

definition entry_fits :: "iso_entry \<Rightarrow> bool" where
  "entry_fits e \<longleftrightarrow> length (ie_name e) \<le> 200 \<and> ie_lba e \<le> u32_max \<and> ie_length e \<le> u32_max"

lemma entry_at_record_of: "entry_fits e \<Longrightarrow> entry_at (record_of e @ rest) = e"
  by (simp add: record_of_def entry_fits_def entry_at_record unat_u32_of_nat)

lemma iso_walk_laid:
  assumes "list_all entry_fits es" "length pre = c"
  shows "iso_walk (pre @ laid c (map record_of es) @ replicate z 0) c = es"
  using assms
proof (induction es arbitrary: pre c)
  case Nil
  then show ?case by (auto intro!: iso_walk_zeros simp: nth_append)
next
  case (Cons e es)
  let ?n = "length (record_of e)"
  let ?p = "next_slot c ?n"
  let ?rest = "laid (?p + ?n) (map record_of es) @ replicate z 0"
  let ?root = "pre @ replicate (?p - c) 0 @ record_of e @ ?rest"
  have e: "entry_fits e" using Cons.prems by simp
  have first: "unat (record_of e ! 0) = ?n" "record_of e ! 0 \<noteq> 0" "0 < ?n" "?n \<le> 255"
    using e record_first_byte [of "ie_name e"] by (auto simp: record_of_def entry_fits_def record_length_def Let_def)
  have p: "c \<le> ?p" by (rule next_slot_le)
  have here: "?root ! ?p = record_of e ! 0" "?p < length ?root" "drop ?p ?root = record_of e @ ?rest"
    using p first(3) Cons.prems(2) by (simp_all add: nth_append)
  have "iso_walk ?root ?p = e # iso_walk ?root (?p + ?n)"
    using here first entry_at_record_of [OF e] by (subst iso_walk.simps) (simp add: not_le)
  moreover have "iso_walk ?root (?p + ?n) = es"
    using Cons.IH [of "pre @ replicate (?p - c) 0 @ record_of e" "?p + ?n"] Cons.prems p by simp
  moreover have "iso_walk ?root c = iso_walk ?root ?p"
  proof (cases "?p = c")
    case False
    then have q: "?p = (c div SECTOR + 1) * SECTOR" by (auto simp: next_slot_def split: if_splits)
    have "?root ! c = 0" "c < length ?root" using False p Cons.prems(2) by (auto simp: nth_append)
    then show ?thesis by (subst iso_walk.simps) (simp add: q not_le)
  qed simp
  ultimately show ?case by simp
qed

text \<open>The root is measured exactly as it is laid out.\<close>

lemma sector_position: "u < SECTOR \<Longrightarrow> (k * SECTOR + u) mod SECTOR = u \<and> (k * SECTOR + u) div SECTOR = k"
  by simp

lemma measured_laid:
  assumes "map length rs = map record_length ns" "\<forall>n \<in> set ns. record_length n \<le> SECTOR" "u \<le> SECTOR"
  shows "k * SECTOR + u + length (laid (k * SECTOR + u) rs) \<le> record_sectors ns (Suc k) u * SECTOR"
  using assms
proof (induction ns arbitrary: rs k u)
  case (Cons n ns)
  let ?l = "record_length n" and ?c = "k * SECTOR + u"
  from Cons.prems obtain r rs' where rs: "rs = r # rs'" "length r = ?l" "map length rs' = map record_length ns" by auto
  have l: "0 < ?l" "?l \<le> SECTOR" using Cons.prems(2) by (auto simp: record_length_def Let_def)
  show ?case
  proof (cases "u + ?l > SECTOR")
    case True
    have "next_slot ?c ?l = Suc k * SECTOR"
    proof (cases "u = SECTOR")
      case at_end: True
      then have "?c = Suc k * SECTOR" by simp
      then have "?c mod SECTOR = 0" by (simp only: mod_mult_self2_is_0)
      with \<open>?c = Suc k * SECTOR\<close> l show ?thesis by (simp add: next_slot_def)
    qed (use True Cons.prems(3) sector_position [of u k] in \<open>simp add: next_slot_def\<close>)
    then have "?c + length (laid ?c rs) = Suc k * SECTOR + ?l + length (laid (Suc k * SECTOR + ?l) rs')"
      using rs Cons.prems(3) by simp
    also have "\<dots> \<le> record_sectors ns (Suc (Suc k)) ?l * SECTOR"
      using Cons.IH [of rs' ?l "Suc k"] rs(3) Cons.prems(2) l by simp
    finally show ?thesis using True by simp
  next
    case False
    with l have u: "u < SECTOR" by simp
    then have "next_slot ?c ?l = ?c" using False sector_position [OF u, of k] by (simp add: next_slot_def)
    then have "?c + length (laid ?c rs) = k * SECTOR + (u + ?l) + length (laid (k * SECTOR + (u + ?l)) rs')"
      using rs by (simp add: add.assoc)
    also have "\<dots> \<le> record_sectors ns (Suc k) (u + ?l) * SECTOR"
      using Cons.IH [of rs' "u + ?l" k] rs(3) Cons.prems(2) False by simp
    finally show ?thesis using False by simp
  qed
qed simp

lemma pack_records_laid:
  assumes "map length rs = map (\<lambda>i. record_length (length i)) ids" "\<forall>i \<in> set ids. length i \<le> 200"
  shows "\<exists>z. pack_records rs (sectors_for_records ids * SECTOR) = Ok (laid 0 rs @ replicate z 0) \<and>
    length (laid 0 rs @ replicate z (0 :: u8)) = sectors_for_records ids * SECTOR"
proof -
  have "\<forall>n \<in> set (map length ids). record_length n \<le> SECTOR"
    using assms(2) by (auto simp: record_length_def SECTOR_def Let_def)
  then have "length (laid 0 rs) \<le> sectors_for_records ids * SECTOR"
    using measured_laid [of rs "map length ids" 0 0] assms(1) by (simp add: sectors_for_records_def comp_def)
  then show ?thesis
    using pack_from_laid [of "[]" 0 rs "sectors_for_records ids * SECTOR"] by (auto simp: pack_records_def)
qed

section \<open>The files\<close>

lemma iso_extent_append: "lba * SECTOR + n \<le> length img \<Longrightarrow> iso_extent (img @ xs) lba n = iso_extent img lba n"
  by (simp add: iso_extent_def)

lemma append_files_prefix: "\<exists>xs. append_files cs img = img @ xs"
proof (induction cs arbitrary: img)
  case (Cons c cs)
  then show ?case by (metis append_files.simps(2) append.assoc)
qed simp

lemma padded_length: "div_ceil (k * SECTOR + n) SECTOR * SECTOR = (k + div_ceil n SECTOR) * SECTOR \<and> n \<le> div_ceil n SECTOR * SECTOR"
proof -
  have "k * SECTOR + n + SECTOR - 1 = k * SECTOR + (n + SECTOR - 1)" by (simp add: SECTOR_def)
  then have "div_ceil (k * SECTOR + n) SECTOR = k + div_ceil n SECTOR"
    unfolding div_ceil_def by (simp only: div_mult_self3 SECTOR_def zero_neq_numeral not_False_eq_True)
  then show ?thesis using div_ceil_mult_ge [of SECTOR n] by (simp add: SECTOR_def)
qed

lemma append_files_read:
  assumes "file_addresses cs lba = Ok (as, stop)" "length img = lba * SECTOR"
  shows "length as = length cs \<and> length (append_files cs img) = stop * SECTOR \<and> lba \<le> stop \<and>
    (\<forall>i < length cs. lba \<le> as ! i \<and> as ! i \<le> stop \<and> iso_extent (append_files cs img) (as ! i) (length (cs ! i)) = cs ! i)"
  using assms
proof (induction cs arbitrary: lba as img)
  case (Cons c cs)
  from Cons.prems(1) obtain n as' where n: "sectors_for (length c) = Ok n" "lba + n \<le> u32_max"
    "file_addresses cs (lba + n) = Ok (as', stop)" "as = lba # as'"
    by (auto split: if_splits prod.splits)
  have ceil: "n = div_ceil (length c) SECTOR" using n(1) by (auto simp: sectors_for_def Let_def split: if_splits)
  let ?img = "img @ c @ replicate (div_ceil (length (img @ c)) SECTOR * SECTOR - length (img @ c)) 0"
  have len: "length ?img = (lba + n) * SECTOR" "n * SECTOR \<ge> length c"
    using padded_length [of lba "length c"] Cons.prems(2) ceil by (simp_all add: add_mult_distrib)
  have step: "append_files (c # cs) img = append_files cs ?img" by simp
  note ih = Cons.IH [OF n(3) len(1)]
  obtain xs where xs: "append_files cs ?img = ?img @ xs" using append_files_prefix by blast
  have "iso_extent (append_files (c # cs) img) lba (length c) = iso_extent ?img lba (length c)"
    unfolding step xs using len by (intro iso_extent_append) (simp add: add_mult_distrib)
  also have "\<dots> = c" using Cons.prems(2) by (simp add: iso_extent_def)
  finally have head: "iso_extent (append_files (c # cs) img) lba (length c) = c" .
  have "lba \<le> as ! i \<and> as ! i \<le> stop \<and> iso_extent (append_files (c # cs) img) (as ! i) (length ((c # cs) ! i)) = (c # cs) ! i"
    if "i < length (c # cs)" for i
    using that head ih n(4) step by (cases i) (auto simp del: append_files.simps)
  with ih n(4) step show ?case by (auto simp del: append_files.simps)
qed simp

section \<open>The descriptor\<close>

lemma splice_outside:
  "a + length ys \<le> length xs \<Longrightarrow> i < length xs \<Longrightarrow> i < a \<or> a + length ys \<le> i \<Longrightarrow> splice xs a ys ! i = xs ! i"
  by (auto simp: nth_splice)

lemma splice_inside: "a + length ys \<le> length xs \<Longrightarrow> i < length ys \<Longrightarrow> splice xs a ys ! (a + i) = ys ! i"
  by (simp add: nth_splice)

lemma text_field_ok:
  assumes "length v \<le> b - a" "a \<le> b" "b \<le> length d"
  shows "text_field a b v d = Ok (splice d a (v @ replicate (b - a - length v) 32))"
  using assms by (auto simp: text_field_def splice_def)

lemma undated_splice: "a + 17 \<le> length d \<Longrightarrow> undated a d = splice d a (replicate 16 48 @ [0])"
  by (auto intro!: nth_equalityI simp: undated_def nth_splice nth_append nth_list_update)

lemma set_splice: "a < length d \<Longrightarrow> d[a := x] = splice d a [x]"
  by (simp add: splice_def upd_conv_take_nth_drop)

text \<open>A field of a buffer, and the writes elsewhere that leave it alone.\<close>

definition field_is :: "bytes \<Rightarrow> nat \<Rightarrow> bytes \<Rightarrow> bool" where
  "field_is d a v \<longleftrightarrow> a + length v \<le> length d \<and> take (length v) (drop a d) = v"

lemma field_is_here: "a + length v \<le> length d \<Longrightarrow> field_is (splice d a v) a v"
  by (simp add: field_is_def splice_def)

lemma field_is_splice:
  assumes "field_is d a v" "b + length w \<le> length d" "a + length v \<le> b \<or> b + length w \<le> a"
  shows "field_is (splice d b w) a v"
proof -
  have "a + length v \<le> length d" using assms(1) by (simp add: field_is_def)
  then have "take (length v) (drop a (splice d b w)) = take (length v) (drop a d)"
    using assms(2,3) by (intro nth_equalityI) (auto simp: nth_splice)
  with assms show ?thesis by (simp add: field_is_def)
qed

lemma field_nth: "field_is d a v \<Longrightarrow> i < length v \<Longrightarrow> d ! (a + i) = v ! i"
  by (auto simp: field_is_def) (metis add_leD1 nth_drop nth_take)

text \<open>A sector and the fields written to it so far, none over another.\<close>

definition holds_fields :: "bytes \<Rightarrow> (nat \<times> bytes) list \<Rightarrow> bool" where
  "holds_fields d fs \<longleftrightarrow> length d = SECTOR \<and> (\<forall>(a, v) \<in> set fs. field_is d a v)"

definition clear_of :: "nat \<Rightarrow> nat \<Rightarrow> (nat \<times> bytes) list \<Rightarrow> bool" where
  "clear_of a b fs \<longleftrightarrow> b \<le> SECTOR \<and> list_all (\<lambda>(c, v). c + length v \<le> a \<or> b \<le> c) fs"

definition yields :: "('e, 'a) outcome \<Rightarrow> ('a \<Rightarrow> bool) \<Rightarrow> bool" where
  "yields m P \<longleftrightarrow> (\<exists>x. m = Ok x \<and> P x)"

lemma yields_obind: "yields m Q \<Longrightarrow> (\<And>x. Q x \<Longrightarrow> yields (f x) P) \<Longrightarrow> yields (obind m f) P"
  by (auto simp: yields_def)

lemma yields_Ok: "P x \<Longrightarrow> yields (Ok x) P"
  by (simp add: yields_def)

lemma holds_splice:
  assumes "holds_fields d fs" "clear_of a (a + length v) fs"
  shows "holds_fields (splice d a v) ((a, v) # fs)"
proof -
  have room: "a + length v \<le> length d" using assms by (simp add: holds_fields_def clear_of_def)
  have "field_is (splice d a v) c w" if "(c, w) \<in> set fs" for c w
    using that assms room by (intro field_is_splice) (auto simp: holds_fields_def clear_of_def list_all_iff)
  with room assms field_is_here [OF room] show ?thesis by (auto simp: holds_fields_def)
qed

lemma holds_set:
  assumes "holds_fields d fs" "clear_of a (a + 1) fs"
  shows "holds_fields (d[a := x]) ((a, [x]) # fs)"
proof -
  have "d[a := x] = splice d a [x]" using assms by (intro set_splice) (simp add: holds_fields_def clear_of_def)
  then show ?thesis using holds_splice [of d fs a "[x]"] assms by simp
qed

lemma holds_undated:
  assumes "holds_fields d fs" "clear_of a (a + 17) fs"
  shows "holds_fields (undated a d) ((a, replicate 16 48 @ [0]) # fs)"
proof -
  have "undated a d = splice d a (replicate 16 48 @ [0])"
    using assms by (intro undated_splice) (simp add: holds_fields_def clear_of_def)
  then show ?thesis using holds_splice [of d fs a "replicate 16 48 @ [0]"] assms by simp
qed

lemma yields_text:
  assumes "holds_fields d fs" "clear_of a b fs" "a + length v \<le> b"
  shows "yields (text_field a b v d) (\<lambda>d. holds_fields d ((a, v @ replicate (b - a - length v) 32) # fs))"
proof -
  have "text_field a b v d = Ok (splice d a (v @ replicate (b - a - length v) 32))"
    using assms by (intro text_field_ok) (auto simp: holds_fields_def clear_of_def)
  then show ?thesis
    using holds_splice [of d fs a "v @ replicate (b - a - length v) 32"] assms by (simp add: yields_def)
qed

lemma yields_copy:
  assumes "holds_fields d fs" "clear_of a (a + length v) fs"
  shows "yields (copy_slice d a (a + length v) v) (\<lambda>d. holds_fields d ((a, v) # fs))"
  using holds_splice [OF assms] assms by (auto simp: yields_def copy_slice_def holds_fields_def clear_of_def)

lemma descriptor_ok:
  assumes "length volume_id \<le> 32" "length root = 34"
  shows "yields (primary_volume_descriptor volume_id blocks root) (\<lambda>d. length d = SECTOR \<and>
    field_is d 156 root \<and> field_is d 40 (volume_id @ replicate (32 - length volume_id) 32) \<and> field_is d 1 CD001 \<and>
    field_is d 80 (both_endian_u32 blocks) \<and> field_is d 0 [1])"
proof -
  have start: "holds_fields (replicate SECTOR 0) []" by (simp add: holds_fields_def)
  have cd: "length CD001 = 5" "length PUBLISHER = 6" by (simp_all add: CD001_def PUBLISHER_def)
  have fin: "length d = SECTOR \<and> field_is d 156 root \<and> field_is d 40 (volume_id @ replicate (32 - length volume_id) 32) \<and>
      field_is d 1 CD001 \<and> field_is d 80 (both_endian_u32 blocks) \<and> field_is d 0 [1]"
    if "holds_fields d fs" "{(156, root), (40, volume_id @ replicate (72 - 40 - length volume_id) 32), (1, CD001),
      (80, both_endian_u32 blocks), (0, [1])} \<subseteq> set fs" for d fs
    using that by (auto simp: holds_fields_def)
  show ?thesis
    unfolding primary_volume_descriptor_def Let_def
    by (assumption | rule start yields_obind yields_text yields_copy yields_Ok fin holds_splice holds_set holds_undated
      | (simp add: clear_of_def cd assms SECTOR_def; fail))+
qed

section \<open>A whole image\<close>

definition iso_sectors :: "(bytes \<times> bytes) list \<Rightarrow> nat" where
  "iso_sectors entries = ROOT_LBA + sectors_for_records ([0] # [1] # map fst entries)
     + sum_list (map (\<lambda>(name, content). div_ceil (length content) SECTOR) entries)"

lemma file_addresses_ok:
  "lba + sum_list (map (\<lambda>c. div_ceil (length c) SECTOR) cs) \<le> u32_max \<Longrightarrow>
   \<exists>as. file_addresses cs lba = Ok (as, lba + sum_list (map (\<lambda>c. div_ceil (length c) SECTOR) cs)) \<and> length as = length cs"
proof (induction cs arbitrary: lba)
  case (Cons c cs)
  have "lba + div_ceil (length c) SECTOR + sum_list (map (\<lambda>c. div_ceil (length c) SECTOR) cs) \<le> u32_max"
    using Cons.prems by simp
  from Cons.IH [OF this] Cons.prems show ?case by (auto simp: sectors_for_def Let_def add.assoc)
qed simp

definition file_entry :: "bytes \<times> bytes \<Rightarrow> nat \<Rightarrow> iso_entry" where
  "file_entry e a = \<lparr>ie_name = fst e, ie_lba = a, ie_length = length (snd e), ie_directory = False\<rparr>"

definition directory_entry :: "u8 \<Rightarrow> nat \<Rightarrow> iso_entry" where
  "directory_entry n len = \<lparr>ie_name = [n], ie_lba = ROOT_LBA, ie_length = len, ie_directory = True\<rparr>"

lemma file_records_ok:
  "length as = length es \<Longrightarrow> \<forall>(n, c) \<in> set es. length n \<le> 200 \<and> length c \<le> u32_max \<Longrightarrow>
   file_records es as = Ok (map record_of (map2 file_entry es as))"
proof (induction es arbitrary: as)
  case (Cons e es)
  then obtain a as' where "as = a # as'" by (cases as) auto
  with Cons show ?case by (cases e) (auto simp: directory_record_layout record_of_def file_entry_def)
qed simp

lemma file_entries_fit:
  "\<forall>a \<in> set as. a \<le> u32_max \<Longrightarrow> \<forall>(n, c) \<in> set es. length n \<le> 200 \<and> length c \<le> u32_max \<Longrightarrow>
   list_all entry_fits (map2 file_entry es as)"
  by (induction es as rule: list_induct2') (auto simp: entry_fits_def file_entry_def)

lemma path_sector: "\<exists>bs. sector (path_table lba big) = Ok bs \<and> length bs = SECTOR"
proof -
  have "length (path_table lba big) = 10" by (simp add: path_table_def PATH_TABLE_SIZE_def Let_def)
  then show ?thesis by (simp add: sector_def copy_slice_def SECTOR_def)
qed

lemma length_terminator [simp]: "length terminator = SECTOR"
  by (simp add: terminator_def CD001_def SECTOR_def)

lemma field_le_at: "field_is d a v \<Longrightarrow> i + 3 < length v \<Longrightarrow> le_at d (a + i) = le_at v i"
  using field_nth [of d a v i] field_nth [of d a v "i + 1"] field_nth [of d a v "i + 2"] field_nth [of d a v "i + 3"]
  by (simp add: le_at_def add.assoc)

lemma record_of_fields: "entry_fits e \<Longrightarrow> le_at (record_of e) 2 = ie_lba e \<and> le_at (record_of e) 10 = ie_length e"
  using entry_at_record_of [of e "[]"] by (auto simp: entry_at_def dest: arg_cong [of _ _ ie_lba] arg_cong [of _ _ ie_length])

lemma content_under_limit:
  assumes "iso_sectors es * SECTOR \<le> u32_max" "(n, c) \<in> set es"
  shows "length c \<le> u32_max"
proof -
  have "div_ceil (length c) SECTOR \<le> sum_list (map (\<lambda>(name, content). div_ceil (length content) SECTOR) es)"
    using assms(2) by (intro member_le_sum_list) (force, simp)
  then have "div_ceil (length c) SECTOR * SECTOR \<le> iso_sectors es * SECTOR" by (simp add: iso_sectors_def)
  with assms(1) div_ceil_mult_ge [of SECTOR "length c"] show ?thesis by (simp add: SECTOR_def)
qed

lemma build_iso_ok:
  assumes "length volume_id \<le> 32" "\<forall>(n, c) \<in> set es. identifier_fits n" "iso_sectors es * SECTOR \<le> u32_max"
  shows "\<exists>img as len. build_iso volume_id es = Ok img \<and> length img = iso_sectors es * SECTOR \<and> length as = length es \<and>
    iso_label img = volume_id @ replicate (32 - length volume_id) 32 \<and> take 6 (iso_descriptor img) = 1 # CD001 \<and>
    iso_entries img = directory_entry 0 len # directory_entry 1 len # map2 file_entry es as \<and>
    (\<forall>i < length es. iso_extent img (as ! i) (length (snd (es ! i))) = snd (es ! i))"
proof -
  let ?rs = "sectors_for_records ([0] # [1] # map fst es)" and ?cs = "map snd es"
  let ?len = "?rs * SECTOR" and ?stop = "iso_sectors es"
  have names: "\<forall>(n, c) \<in> set es. length n \<le> 200"
    using assms(2) by (auto simp: identifier_fits_def MAX_IDENTIFIER_def)
  have small: "?len \<le> u32_max" "?stop \<le> u32_max" using assms(3) by (auto simp: iso_sectors_def SECTOR_def)
  have sum: "?stop = ROOT_LBA + ?rs + sum_list (map (\<lambda>c. div_ceil (length c) SECTOR) ?cs)"
    by (simp add: iso_sectors_def comp_def case_prod_unfold)
  obtain as where as: "file_addresses ?cs (ROOT_LBA + ?rs) = Ok (as, ?stop)" "length as = length es"
    using file_addresses_ok [of "ROOT_LBA + ?rs" ?cs] small(2) unfolding sum by auto
  let ?all = "directory_entry 0 ?len # directory_entry 1 ?len # map2 file_entry es as"
  have dirs: "directory_record [n] (of_nat ROOT_LBA) (of_nat ?len) True = Ok (record_of (directory_entry n ?len))" for n
    by (simp add: directory_record_layout record_of_def directory_entry_def)
  have files: "file_records es as = Ok (map record_of (map2 file_entry es as))"
    using names content_under_limit [OF assms(3)] as(2) by (intro file_records_ok) auto
  have r34: "length (record_of (directory_entry 0 ?len)) = 34"
    by (simp add: record_of_def directory_entry_def record_length_def)
  obtain d where d: "primary_volume_descriptor volume_id (of_nat ?stop) (record_of (directory_entry 0 ?len)) = Ok d"
    "length d = SECTOR" "field_is d 156 (record_of (directory_entry 0 ?len))"
    "field_is d 40 (volume_id @ replicate (32 - length volume_id) 32)" "field_is d 1 CD001" "field_is d 0 [1]"
    using descriptor_ok [OF assms(1) r34, of "of_nat ?stop"] by (auto simp: yields_def)
  obtain little big where tables: "sector (path_table (of_nat ROOT_LBA) False) = Ok little" "length little = SECTOR"
    "sector (path_table (of_nat ROOT_LBA) True) = Ok big" "length big = SECTOR"
    using path_sector by metis
  obtain z where root: "pack_records (map record_of ?all) ?len = Ok (laid 0 (map record_of ?all) @ replicate z 0)"
    "length (laid 0 (map record_of ?all) @ replicate z (0 :: u8)) = ?len"
    using pack_records_laid [of "map record_of ?all" "[0] # [1] # map fst es"] names as(2)
    by (auto simp: record_of_def directory_entry_def file_entry_def comp_def case_prod_unfold map_eq_conv
        list_eq_iff_nth_eq [of "map _ _" "map _ _"])
  define root_bytes where "root_bytes = laid 0 (map record_of ?all) @ replicate z (0 :: u8)"
  define pre where "pre = replicate (SYSTEM_AREA_SECTORS * SECTOR) (0 :: u8) @ d @ terminator @ little @ big"
  have pre: "length pre = ROOT_LBA * SECTOR" "length (pre @ root_bytes) = (ROOT_LBA + ?rs) * SECTOR"
    using d(2) tables root(2)
    by (simp_all add: pre_def root_bytes_def SYSTEM_AREA_SECTORS_def ROOT_LBA_def add_mult_distrib)
  let ?img = "append_files ?cs (pre @ root_bytes)"
  note read = append_files_read [OF as(1) pre(2)]
  have "list_all (\<lambda>(name, content). identifier_fits name) es" "length ?img = ?stop * SECTOR"
    using assms(2) read by (auto simp: list_all_iff)
  then have img: "build_iso volume_id es = Ok ?img"
    using assms(1) small(1) as(1) dirs files d(1) tables root(1) by (simp add: build_iso_def pre_def root_bytes_def Let_def)
  obtain xs where xs: "?img = pre @ root_bytes @ xs" using append_files_prefix [of ?cs "pre @ root_bytes"] by auto
  have desc: "iso_descriptor ?img = d"
    unfolding iso_descriptor_def iso_extent_def xs using d(2) by (simp add: pre_def SYSTEM_AREA_SECTORS_def)
  have "\<forall>a \<in> set as. a \<le> u32_max" using read as(2) small(2) by (fastforce simp: in_set_conv_nth)
  then have "list_all entry_fits (map2 file_entry es as)"
    using names content_under_limit [OF assms(3)] by (intro file_entries_fit) blast+
  then have fits: "list_all entry_fits ?all"
    using small(1) by (simp add: entry_fits_def directory_entry_def ROOT_LBA_def)
  then have "entry_fits (directory_entry 0 ?len)" by simp
  from record_of_fields [OF this] have rootat: "le_at d 158 = ROOT_LBA" "le_at d 166 = ?len"
    using field_le_at [OF d(3), of 2] field_le_at [OF d(3), of 10] r34 by (simp_all add: directory_entry_def)
  have "iso_extent ?img ROOT_LBA ?len = root_bytes"
    unfolding iso_extent_def xs using pre(1) root(2) by (simp add: root_bytes_def)
  moreover have "iso_walk root_bytes 0 = ?all"
    unfolding root_bytes_def using iso_walk_laid [OF fits, of "[]" 0 z] by (simp only: append.simps list.size simp_thms)
  ultimately have "iso_entries ?img = ?all" by (simp only: iso_entries_def Let_def desc rootat)
  moreover have "iso_label ?img = volume_id @ replicate (32 - length volume_id) 32"
    using d(4) assms(1) by (simp add: iso_label_def desc field_is_def)
  moreover have "take 6 d = 1 # CD001"
  proof -
    have "take 6 d = take 1 (drop 0 d) @ take 5 (drop 1 d)" using take_add [of 1 5 d] by simp
    moreover have "length CD001 = 5" by (simp add: CD001_def)
    ultimately show ?thesis using d(5,6) by (simp add: field_is_def)
  qed
  ultimately show ?thesis
    using img read as(2) desc by (intro exI [of _ ?img] exI [of _ as] exI [of _ ?len]) simp
qed

lemma find_file:
  assumes "distinct (map fst es)" "length as = length es" "i < length es"
  shows "find (\<lambda>e. ie_name e = fst (es ! i)) (map2 file_entry es as) = Some (file_entry (es ! i) (as ! i))"
  unfolding find_Some_iff
proof (intro exI [of _ i] conjI allI impI)
  show "i < length (map2 file_entry es as)" using assms by simp
  show "ie_name (map2 file_entry es as ! i) = fst (es ! i)" using assms by (simp add: file_entry_def)
  show "file_entry (es ! i) (as ! i) = map2 file_entry es as ! i" using assms by simp
  fix j
  assume "j < i"
  then have "map fst es ! j \<noteq> map fst es ! i" using assms(1,3) by (simp add: nth_eq_iff_index_eq del: nth_map)
  then show "ie_name (map2 file_entry es as ! j) \<noteq> fst (es ! i)" using assms \<open>j < i\<close> by (simp add: file_entry_def)
qed

lemma built_files_read:
  assumes "length volume_id \<le> 32" "\<forall>(n, c) \<in> set es. identifier_fits n" "iso_sectors es * SECTOR \<le> u32_max"
    "distinct (map fst es)" "\<forall>(n, c) \<in> set es. n \<noteq> [0] \<and> n \<noteq> [1]"
  shows "\<exists>img. build_iso volume_id es = Ok img \<and> length img = iso_sectors es * SECTOR \<and>
    iso_label img = volume_id @ replicate (32 - length volume_id) 32 \<and> take 6 (iso_descriptor img) = 1 # CD001 \<and>
    map ie_name (iso_entries img) = [0] # [1] # map fst es \<and> (\<forall>(n, c) \<in> set es. iso_file img n = Some c)"
proof -
  obtain img as len where img: "build_iso volume_id es = Ok img" "length img = iso_sectors es * SECTOR" "length as = length es"
    "iso_label img = volume_id @ replicate (32 - length volume_id) 32" "take 6 (iso_descriptor img) = 1 # CD001"
    "iso_entries img = directory_entry 0 len # directory_entry 1 len # map2 file_entry es as"
    "\<And>i. i < length es \<Longrightarrow> iso_extent img (as ! i) (length (snd (es ! i))) = snd (es ! i)"
    using build_iso_ok [OF assms(1-3)] by blast
  have found: "iso_file img (fst (es ! i)) = Some (snd (es ! i))" if "i < length es" for i
  proof -
    have "[0] \<noteq> fst (es ! i) \<and> [1] \<noteq> fst (es ! i)" using assms(5) nth_mem [OF that] by (cases "es ! i") auto
    then show ?thesis
      using find_file [OF assms(4) img(3) that] img(7) [OF that]
      by (simp add: iso_file_def img(6) directory_entry_def file_entry_def)
  qed
  have "iso_file img n = Some c" if "(n, c) \<in> set es" for n c
    using that found by (metis fst_conv in_set_conv_nth snd_conv)
  then have "\<forall>(n, c) \<in> set es. iso_file img n = Some c" by blast
  moreover have "map ie_name (map2 file_entry es as) = map fst es"
    using img(3) by (simp add: list_eq_iff_nth_eq file_entry_def)
  ultimately show ?thesis using img by (intro exI [of _ img]) (simp add: directory_entry_def)
qed

end
