(* ===== verification/Seed_Documents.thy ===== *)
theory Seed_Documents
  imports Ssh_Port Iso_Image
begin

text \<open>
  The two documents of a cloud-init seed (\<open>seed/src/user_data.rs\<close>, \<open>meta_data.rs\<close>, \<open>scalar.rs\<close>, \<open>lib.rs\<close>) and the files
  that a distribution's profile describes (\<open>core/src/distro.rs\<close>). A text that the source prints is the list of its
  lines, each of which ends with a line feed, and a string is the bytes of its UTF-8 encoding. To say what a reader makes of the documents there is a reader of the
  part of YAML that they use.
\<close>

section \<open>Text\<close>

abbreviation quote :: char where "quote \<equiv> CHR 0x27"

definition spaces :: "nat \<Rightarrow> string" where "spaces n = replicate n CHR 0x20"

definition text_of_lines :: "string list \<Rightarrow> string" where
  "text_of_lines ls = concat (map (\<lambda>l. l @ newline) ls)"

text \<open>\<open>str::lines\<close>: a line feed ends a line, a carriage return before it is dropped, and so is an empty rest.\<close>

fun split_lines :: "string \<Rightarrow> string \<Rightarrow> string list" where
  "split_lines [] line = (if line = [] then [] else [line])"
| "split_lines (c # cs) line =
     (if c = CHR 0x0A then (if line \<noteq> [] \<and> last line = CHR 0x0D then butlast line else line) # split_lines cs []
      else split_lines cs (line @ [c]))"

definition lines_of :: "string \<Rightarrow> string list" where "lines_of text = split_lines text []"

text \<open>\<open>str::replace\<close>, for a pattern that is not empty.\<close>

function replace_all :: "string \<Rightarrow> string \<Rightarrow> string \<Rightarrow> string" where
  "replace_all pattern by_what [] = []"
| "replace_all pattern by_what (c # cs) =
     (if pattern \<noteq> [] \<and> take (length pattern) (c # cs) = pattern
      then by_what @ replace_all pattern by_what (drop (length pattern) (c # cs))
      else c # replace_all pattern by_what cs)"
  by pat_completeness auto
termination by (relation "measure (\<lambda>(p, b, s). length s)") auto

section \<open>Scalars\<close>

definition yaml :: "string \<Rightarrow> string" where
  "yaml v = [quote] @ replace_all [quote] [quote, quote] v @ [quote]"

section \<open>What a profile and a request name\<close>

datatype SshAccess = SshDisabled | SshEnabled bool nat

datatype PackageRefresh = Lists | FullUpgrade

datatype KeyboardForm = ShellAssignment | XorgString

record keyboard_file =
  kf_path :: string
  kf_form :: KeyboardForm
  kf_template :: string

record desktop_file =
  df_path :: string
  df_template :: string

definition LAYOUT_PLACEHOLDER :: string where "LAYOUT_PLACEHOLDER = ''{layout}''"
definition USER_PLACEHOLDER :: string where "USER_PLACEHOLDER = ''{user}''"

fun keyboard_escape :: "KeyboardForm \<Rightarrow> string \<Rightarrow> string" where
  "keyboard_escape ShellAssignment layout =
     concat (map (\<lambda>c. if c \<in> {CHR 0x5C, CHR 0x22, CHR 0x60, CHR 0x24} then [CHR 0x5C, c] else [c]) layout)"
| "keyboard_escape XorgString layout = replace_all [CHR 0x22] [] layout"

definition keyboard_content :: "keyboard_file \<Rightarrow> string \<Rightarrow> string" where
  "keyboard_content f layout = replace_all LAYOUT_PLACEHOLDER (keyboard_escape (kf_form f) layout) (kf_template f)"

definition desktop_render :: "desktop_file \<Rightarrow> string \<Rightarrow> string" where
  "desktop_render f user = replace_all USER_PLACEHOLDER user (df_template f)"

fun units_all :: "SshUnits \<Rightarrow> string list" where
  "units_all (Service unit) = [unit]"
| "units_all (SocketActivated socket drop_in service) = [socket, service]"

record seed_request =
  sr_vm_name :: string
  sr_instance_id :: string
  sr_username :: string
  sr_password_hash :: "string option"
  sr_authorized_key :: "string option"
  sr_ssh :: SshAccess
  sr_locale :: string
  sr_keyboard :: string
  sr_keyboard_files :: "keyboard_file list"
  sr_timezone :: string
  sr_admin_group :: string
  sr_ssh_daemon :: ssh_daemon
  sr_agent_secret :: "string option"
  sr_desktop_packages :: "string list"
  sr_desktop_files :: "desktop_file list"
  sr_desktop_service :: "string option"
  sr_package_refresh :: PackageRefresh

section \<open>The user's document\<close>

definition FILE_INDENT :: string where "FILE_INDENT = spaces 6"
definition GUEST_SECRET_PATH :: string where "GUEST_SECRET_PATH = ''/etc/vmlord/agent.secret''"
definition AGENT_SERVICE_PATH :: string where "AGENT_SERVICE_PATH = ''/etc/systemd/system/vmlord-agent.service''"
definition AGENT_FILE :: string where "AGENT_FILE = ''vmlord-agent''"

definition AGENT_SERVICE :: string where
  "AGENT_SERVICE = text_of_lines
     [''[Unit]'', ''Description=VMLord guest agent'', ''ConditionPathExists=/etc/vmlord/agent.secret'', [],
      ''[Service]'', ''ExecStart=/usr/local/lib/vmlord/vmlord-agent'', ''User=root'', ''Restart=always'', ''RestartSec=5'', [],
      ''[Install]'', ''WantedBy=multi-user.target'']"

definition password_login_allowed :: "seed_request \<Rightarrow> bool" where
  "password_login_allowed r = ((case sr_ssh r of SshEnabled _ _ \<Rightarrow> True | SshDisabled \<Rightarrow> False) \<and> sr_password_hash r \<noteq> None)"

definition packages :: "seed_request \<Rightarrow> string list" where
  "packages r =
     (if sr_desktop_packages r = [] then []
      else [''package_update: true''] @
        (if sr_package_refresh r = FullUpgrade then [''package_upgrade: true''] else []) @
        [''packages:''] @ map (\<lambda>p. spaces 2 @ ''- '' @ yaml p) (sr_desktop_packages r))"

definition file_lines :: "string \<Rightarrow> string \<Rightarrow> string \<Rightarrow> string option \<Rightarrow> string list" where
  "file_lines path content permissions owner =
     [spaces 2 @ ''- path: '' @ yaml path,
      spaces 4 @ ''permissions: '' @ [quote] @ permissions @ [quote]] @
     (case owner of None \<Rightarrow> [] | Some o' \<Rightarrow> [spaces 4 @ ''owner: '' @ yaml o']) @
     [spaces 4 @ ''content: |''] @ map (\<lambda>l. FILE_INDENT @ l) (lines_of content)"

definition plain_file :: "string \<Rightarrow> string \<Rightarrow> string list" where
  "plain_file path content = file_lines path content ''0644'' None"

definition restricted_file :: "string \<Rightarrow> string \<Rightarrow> string \<Rightarrow> string list" where
  "restricted_file path content owner = file_lines path content ''0600'' (Some owner)"

definition socket_settings :: "nat \<Rightarrow> string" where
  "socket_settings port = text_of_lines (socket_lines port)"

definition write_files :: "seed_request \<Rightarrow> string list" where
  "write_files r =
     [''write_files:''] @
     concat (map (\<lambda>f. plain_file (kf_path f) (keyboard_content f (sr_keyboard r))) (sr_keyboard_files r)) @
     concat (map (\<lambda>f. plain_file (df_path f) (desktop_render f (sr_username r))) (sr_desktop_files r)) @
     (case sr_ssh r of
        SshDisabled \<Rightarrow> []
      | SshEnabled _ port \<Rightarrow>
          plain_file (sd_config_drop_in (sr_ssh_daemon r)) (text_of_lines [''Port '' @ decimal port]) @
          (case sd_units (sr_ssh_daemon r) of
             SocketActivated _ drop_in _ \<Rightarrow> plain_file drop_in (socket_settings port)
           | Service _ \<Rightarrow> [])) @
     (case sr_agent_secret r of
        None \<Rightarrow> []
      | Some secret \<Rightarrow>
          restricted_file GUEST_SECRET_PATH (text_of_lines [secret]) ''root:root'' @
          plain_file AGENT_SERVICE_PATH AGENT_SERVICE)"

definition disable_ssh :: "seed_request \<Rightarrow> string list list" where
  "disable_ssh r = [[''systemctl'', ''disable'', ''--now''] @ units_all (sd_units (sr_ssh_daemon r))]"

definition apply_ssh_configuration :: "seed_request \<Rightarrow> string list list" where
  "apply_ssh_configuration r =
     [[''systemctl'', ''daemon-reload''],
      (case sd_units (sr_ssh_daemon r) of
         Service unit \<Rightarrow> [''systemctl'', ''try-restart'', unit]
       | SocketActivated socket _ service \<Rightarrow>
           [''sh'', ''-c'',
            ''if systemctl is-active --quiet '' @ socket @ ''; then systemctl stop '' @ service @
            ''; systemctl restart '' @ socket @ ''; else systemctl try-restart '' @ service @ ''; fi''])]"

definition agent_install_commands :: "string list list" where
  "agent_install_commands =
     [[''mkdir'', ''-p'', ''/run/vmlord-tools''],
      [''mkdir'', ''-p'', ''/usr/local/lib/vmlord''],
      [''mount'', ''-o'', ''ro'', ''-L'', ''VMLTOOLS'', ''/run/vmlord-tools''],
      [''install'', ''-m'', ''0755'', ''-o'', ''root'', ''-g'', ''root'', ''/run/vmlord-tools/'' @ AGENT_FILE,
       ''/usr/local/lib/vmlord/vmlord-agent''],
      [''umount'', ''/run/vmlord-tools''],
      [''systemctl'', ''daemon-reload''],
      [''systemctl'', ''enable'', ''--now'', ''vmlord-agent.service'']]"

definition enable_display_manager :: "string \<Rightarrow> string list" where
  "enable_display_manager unit = [''systemctl'', ''enable'', ''--now'', unit]"

definition seed_commands :: "seed_request \<Rightarrow> string list list" where
  "seed_commands r =
     (case sr_ssh r of SshDisabled \<Rightarrow> disable_ssh r | SshEnabled _ _ \<Rightarrow> apply_ssh_configuration r) @
     (if sr_agent_secret r \<noteq> None then agent_install_commands else []) @
     (case sr_desktop_service r of None \<Rightarrow> [] | Some unit \<Rightarrow> [enable_display_manager unit])"

fun join_comma :: "string list \<Rightarrow> string" where
  "join_comma [] = []"
| "join_comma [w] = w"
| "join_comma (w # ws) = w @ '', '' @ join_comma ws"

definition runcmd :: "seed_request \<Rightarrow> string list" where
  "runcmd r =
     (if seed_commands r = [] then []
      else [''runcmd:''] @ map (\<lambda>command. spaces 2 @ ''- ['' @ join_comma (map yaml command) @ '']'') (seed_commands r))"

definition user_data :: "seed_request \<Rightarrow> string list" where
  "user_data r =
     [''#cloud-config'', ''users:'',
      spaces 2 @ ''- name: '' @ yaml (sr_username r),
      spaces 4 @ ''shell: '' @ [quote] @ ''/bin/bash'' @ [quote],
      spaces 4 @ ''groups: ['' @ yaml (sr_admin_group r) @ '']'',
      spaces 4 @ ''sudo: '' @ [quote] @ ''ALL=(ALL) NOPASSWD:ALL'' @ [quote]] @
     (case sr_password_hash r of
        Some hash \<Rightarrow> [spaces 4 @ ''lock_passwd: false'', spaces 4 @ ''hashed_passwd: '' @ yaml hash]
      | None \<Rightarrow> [spaces 4 @ ''lock_passwd: true'']) @
     (case sr_authorized_key r of
        Some key \<Rightarrow> [spaces 4 @ ''ssh_authorized_keys:'', spaces 6 @ ''- '' @ yaml key]
      | None \<Rightarrow> []) @
     [''ssh_pwauth: '' @ (if password_login_allowed r then ''true'' else ''false''),
      ''locale: '' @ yaml (sr_locale r), ''timezone: '' @ yaml (sr_timezone r)] @
     packages r @ write_files r @
     [''growpart:'', spaces 2 @ ''mode: auto'', spaces 2 @ ''devices: ['' @ [quote] @ ''/'' @ [quote] @ '']'',
      ''resize_rootfs: true''] @
     runcmd r"

definition meta_data :: "seed_request \<Rightarrow> string list" where
  "meta_data r = [''instance-id: '' @ yaml (sr_instance_id r), ''local-hostname: '' @ yaml (sr_vm_name r)]"

section \<open>The volumes\<close>

definition ascii_bytes :: "string \<Rightarrow> bytes" where "ascii_bytes s = map (\<lambda>c. of_nat (of_char c)) s"

definition VOLUME_ID :: string where "VOLUME_ID = ''CIDATA''"
definition USER_DATA :: string where "USER_DATA = ''user-data''"
definition META_DATA :: string where "META_DATA = ''meta-data''"
definition TOOLS_VOLUME_ID :: string where "TOOLS_VOLUME_ID = ''VMLTOOLS''"

definition seed_image :: "seed_request \<Rightarrow> (unit, bytes) outcome" where
  "seed_image r = build_iso (ascii_bytes VOLUME_ID)
     [(ascii_bytes USER_DATA, ascii_bytes (text_of_lines (user_data r))),
      (ascii_bytes META_DATA, ascii_bytes (text_of_lines (meta_data r)))]"

definition tools_image :: "bytes \<Rightarrow> (unit, bytes) outcome" where
  "tools_image agent = build_iso (ascii_bytes TOOLS_VOLUME_ID) [(ascii_bytes AGENT_FILE, agent)]"

section \<open>A reader\<close>

text \<open>
  Of YAML: mappings and sequences by indentation, single-quoted scalars on one line, flow sequences of such scalars,
  plain scalars, comment lines, and literal block scalars whose indentation is that of their first line that is not
  blank. A line is read into its indentation, whether it opens an item, its key, and its value.
\<close>

datatype yaml_value = Empty | Quoted string | Flow "string list" | Plain string | Block "string list"

type_synonym yaml_item = "nat \<times> bool \<times> string option \<times> yaml_value"

definition line_break :: "char set" where "line_break = {CHR 0x0A, CHR 0x0D}"

fun scan_scalar :: "string \<Rightarrow> (string \<times> string) option" where
  "scan_scalar [] = None"
| "scan_scalar (c # cs) =
     (if c = quote then
        (case cs of
           d # ds \<Rightarrow> if d = quote then map_option (\<lambda>(v, rest). (quote # v, rest)) (scan_scalar ds) else Some ([], cs)
         | [] \<Rightarrow> Some ([], []))
      else if c \<in> line_break then None
      else map_option (\<lambda>(v, rest). (c # v, rest)) (scan_scalar cs))"

definition read_scalar :: "string \<Rightarrow> (string \<times> string) option" where
  "read_scalar s = (case s of c # cs \<Rightarrow> if c = quote then scan_scalar cs else None | [] \<Rightarrow> None)"

lemma scan_scalar_shorter: "scan_scalar s = Some (v, rest) \<Longrightarrow> length rest < length s"
  by (induction s arbitrary: v rest rule: scan_scalar.induct) (force split: if_splits list.splits)+

function scan_flow :: "string \<Rightarrow> (string list \<times> string) option" where
  "scan_flow s =
     (case read_scalar s of
        None \<Rightarrow> None
      | Some (v, rest) \<Rightarrow>
          if take 1 rest = '']'' then Some ([v], drop 1 rest)
          else if take 2 rest = '', '' then map_option (\<lambda>(vs, rest). (v # vs, rest)) (scan_flow (drop 2 rest))
          else None)"
  by pat_completeness auto
termination
  by (relation "measure length") (auto simp: read_scalar_def dest: scan_scalar_shorter split: list.splits if_splits)

declare scan_flow.simps [simp del]

definition read_value :: "string \<Rightarrow> yaml_value option" where
  "read_value s =
     (if s = [] then Some Empty
      else if hd s = quote then (case read_scalar s of Some (v, []) \<Rightarrow> Some (Quoted v) | _ \<Rightarrow> None)
      else if hd s = CHR 0x5B then
        (if s = ''[]'' then Some (Flow []) else case scan_flow (tl s) of Some (vs, []) \<Rightarrow> Some (Flow vs) | _ \<Rightarrow> None)
      else if s = ''|'' then Some (Block [])
      else Some (Plain s))"

definition indent_of :: "string \<Rightarrow> nat" where "indent_of l = length (takeWhile (\<lambda>c. c = CHR 0x20) l)"

definition blank_line :: "string \<Rightarrow> bool" where "blank_line l \<longleftrightarrow> (\<forall>c \<in> set l. c = CHR 0x20)"

definition read_keyed :: "string \<Rightarrow> (string option \<times> yaml_value) option" where
  "read_keyed s =
     (if s \<noteq> [] \<and> (hd s = quote \<or> hd s = CHR 0x5B) then map_option (\<lambda>v. (None, v)) (read_value s)
      else let key = takeWhile (\<lambda>c. c \<noteq> CHR 0x3A) s; rest = drop (length key) s in
        if rest = '':'' then Some (Some key, Empty)
        else if take 2 rest = '': '' then map_option (\<lambda>v. (Some key, v)) (read_value (drop 2 rest))
        else None)"

definition read_line :: "string \<Rightarrow> yaml_item option" where
  "read_line l =
     (let s = drop (indent_of l) l in
      if take 2 s = ''- '' then map_option (\<lambda>(k, v). (indent_of l, True, k, v)) (read_keyed (drop 2 s))
      else map_option (\<lambda>(k, v). (indent_of l, False, k, v)) (read_keyed s))"

definition chomp :: "string list \<Rightarrow> string list" where
  "chomp ls = rev (dropWhile blank_line (rev ls))"

definition read_block :: "nat \<Rightarrow> string list \<Rightarrow> string list \<times> string list" where
  "read_block parent ls =
     (case dropWhile blank_line ls of
        [] \<Rightarrow> ([], [])
      | l # _ \<Rightarrow>
          let k = indent_of l; inside = (\<lambda>l. blank_line l \<or> k \<le> indent_of l) in
          if k \<le> parent then ([], dropWhile blank_line ls)
          else (chomp (map (drop k) (takeWhile inside ls)), dropWhile inside ls))"

lemma read_block_shorter: "read_block n ls = (b, rest) \<Longrightarrow> length rest \<le> length ls"
  by (auto simp: read_block_def Let_def length_dropWhile_le split: list.splits if_splits)

function read_document :: "string list \<Rightarrow> yaml_item list option" where
  "read_document [] = Some []"
| "read_document (l # ls) =
     (if blank_line l \<or> take 1 (drop (indent_of l) l) = ''#'' then read_document ls
      else case read_line l of
          None \<Rightarrow> None
        | Some (n, dash, key, Block _) \<Rightarrow>
            (case read_block n ls of (b, rest) \<Rightarrow>
              map_option (\<lambda>items. (n, dash, key, Block b) # items) (read_document rest))
        | Some item \<Rightarrow> map_option (\<lambda>items. item # items) (read_document ls))"
  by pat_completeness auto
termination
  by (relation "measure length") (auto dest: read_block_shorter [OF sym])

section \<open>Scalars come back\<close>

definition one_line :: "string \<Rightarrow> bool" where "one_line v \<longleftrightarrow> set v \<inter> line_break = {}"

lemma scan_escaped:
  "one_line v \<Longrightarrow> take 1 rest \<noteq> [quote] \<Longrightarrow>
   scan_scalar (replace_all [quote] [quote, quote] v @ quote # rest) = Some (v, rest)"
proof (induction v)
  case Nil
  then show ?case by (cases rest) auto
next
  case (Cons c v)
  then show ?case by (auto simp: one_line_def)
qed

lemma read_scalar_yaml: "one_line v \<Longrightarrow> take 1 rest \<noteq> [quote] \<Longrightarrow> read_scalar (yaml v @ rest) = Some (v, rest)"
  using scan_escaped by (simp add: read_scalar_def yaml_def)

lemma yaml_hd: "yaml v \<noteq> []" "hd (yaml v) = quote"
  by (simp_all add: yaml_def)

lemma read_value_yaml: "one_line v \<Longrightarrow> read_value (yaml v) = Some (Quoted v)"
  using read_scalar_yaml [of v "[]"] yaml_hd [of v] by (simp add: read_value_def)

lemma scan_flow_join:
  "list_all one_line (v # vs) \<Longrightarrow> scan_flow (join_comma (map yaml (v # vs)) @ '']'') = Some (v # vs, [])"
proof (induction vs arbitrary: v)
  case Nil
  then show ?case using read_scalar_yaml [of v "'']''"] by (subst scan_flow.simps) simp
next
  case (Cons w vs)
  let ?rest = "'', '' @ join_comma (map yaml (w # vs)) @ '']''"
  have "read_scalar (yaml v @ ?rest) = Some (v, ?rest)" using Cons.prems by (intro read_scalar_yaml) auto
  then show ?case using Cons by (subst scan_flow.simps) simp
qed

lemma read_flow_join:
  assumes "list_all one_line (v # vs)"
  shows "read_value (CHR 0x5B # join_comma (map yaml (v # vs)) @ '']'') = Some (Flow (v # vs))"
proof -
  have "hd (join_comma (map yaml (v # vs)) @ '']'') = quote" by (cases vs) (simp_all add: yaml_def)
  then have "CHR 0x5B # join_comma (map yaml (v # vs)) @ '']'' \<noteq> ''[]''" by auto
  with scan_flow_join [OF assms] show ?thesis by (simp add: read_value_def)
qed

section \<open>Lines and blocks\<close>

lemma indent_spaces [simp]: "c \<noteq> CHR 0x20 \<Longrightarrow> indent_of (spaces n @ c # cs) = n"
  by (induction n) (auto simp: indent_of_def spaces_def)

lemma indent_none [simp]: "c \<noteq> CHR 0x20 \<Longrightarrow> indent_of (c # cs) = 0"
  by (simp add: indent_of_def)

lemma length_spaces [simp]: "length (spaces n) = n"
  by (simp add: spaces_def)

lemma drop_spaces [simp]: "drop n (spaces n @ s) = s"
  by (simp add: spaces_def)

lemma blank_spaces [simp]: "blank_line (spaces n @ s) = blank_line s"
  by (induction n) (auto simp: blank_line_def spaces_def)

lemma blank_char [simp]: "c \<noteq> CHR 0x20 \<Longrightarrow> \<not> blank_line (c # cs)"
  by (simp add: blank_line_def)

lemma indent_at_least: "n \<le> indent_of (spaces n @ s)"
  by (induction n) (auto simp: indent_of_def spaces_def)

text \<open>A line that can follow a block, and a part of a document that reads as some items whatever follows it.\<close>

definition low_line :: "string \<Rightarrow> bool" where "low_line l \<longleftrightarrow> \<not> blank_line l \<and> indent_of l \<le> 4"

definition low_start :: "string list \<Rightarrow> bool" where "low_start ls \<longleftrightarrow> ls = [] \<or> low_line (hd ls)"

definition reads :: "string list \<Rightarrow> yaml_item list \<Rightarrow> bool" where
  "reads ls items \<longleftrightarrow> low_start ls \<and>
     (\<forall>rest. low_start rest \<longrightarrow> read_document (ls @ rest) = map_option ((@) items) (read_document rest))"

lemma map_option_items [simp]: "map_option ((@) []) m = m" "map_option ((@) [x]) m = map_option ((#) x) m"
  "map_option ((@) [x, y]) m = map_option (\<lambda>zs. x # y # zs) m"
  by (cases m; simp)+

lemma low_start_append: "low_start bs \<Longrightarrow> low_start rest \<Longrightarrow> low_start (bs @ rest)"
  by (cases bs) (auto simp: low_start_def)

lemma reads_Nil: "reads [] []"
  by (simp add: reads_def low_start_def)

lemma reads_append: "reads as is \<Longrightarrow> reads bs js \<Longrightarrow> reads (as @ bs) (is @ js)"
proof -
  assume a: "reads as is" and b: "reads bs js"
  have "read_document (as @ bs @ rest) = map_option ((@) (is @ js)) (read_document rest)" if "low_start rest" for rest
    using a b that low_start_append [of bs rest] by (cases "read_document rest") (auto simp: reads_def)
  moreover have "low_start (as @ bs)" using a b by (auto simp: reads_def intro: low_start_append)
  ultimately show ?thesis by (simp add: reads_def)
qed

lemma reads_concat: "(\<And>x. x \<in> set xs \<Longrightarrow> reads (f x) (g x)) \<Longrightarrow> reads (concat (map f xs)) (concat (map g xs))"
  by (induction xs) (auto intro: reads_Nil reads_append)

lemma reads_map: "(\<And>x. x \<in> set xs \<Longrightarrow> reads [f x] [g x]) \<Longrightarrow> reads (map f xs) (map g xs)"
  using reads_concat [of xs "\<lambda>x. [f x]" "\<lambda>x. [g x]"] by (simp add: concat_map_singleton)

definition simple_value :: "yaml_value \<Rightarrow> bool" where
  "simple_value v = (case v of Block _ \<Rightarrow> False | _ \<Rightarrow> True)"

lemma read_document_line:
  "\<not> blank_line l \<Longrightarrow> take 1 (drop (indent_of l) l) \<noteq> ''#'' \<Longrightarrow> read_line l = Some (n, dash, key, v) \<Longrightarrow> simple_value v \<Longrightarrow>
   read_document (l # ls) = map_option ((#) (n, dash, key, v)) (read_document ls)"
  by (auto simp: simple_value_def split: yaml_value.splits)

lemma reads_line:
  assumes "low_line l" "take 1 (drop (indent_of l) l) \<noteq> ''#''" "read_line l = Some (n, dash, key, v)" "simple_value v"
  shows "reads [l] [(n, dash, key, v)]"
  using read_document_line [of l n dash key v] assms
  by (simp add: reads_def low_start_def low_line_def del: read_document.simps)

definition block_ok :: "string list \<Rightarrow> bool" where
  "block_ok ls \<longleftrightarrow> ls = [] \<or> (hd ls \<noteq> [] \<and> hd (hd ls) \<noteq> CHR 0x20 \<and> \<not> blank_line (last ls))"

lemma chomp_none: "ls = [] \<or> \<not> blank_line (last ls) \<Longrightarrow> chomp ls = ls"
  by (cases ls rule: rev_cases) (auto simp: chomp_def)

lemma read_block_back:
  assumes "block_ok ls" "low_start rest"
  shows "read_block 4 (map ((@) (spaces 6)) ls @ rest) = (ls, rest)"
proof (cases ls)
  case Nil
  then show ?thesis
    using assms(2) by (cases rest) (auto simp: read_block_def low_start_def low_line_def Let_def)
next
  case (Cons l ls')
  then obtain c cs where l: "l = c # cs" "c \<noteq> CHR 0x20" using assms(1) by (cases l) (auto simp: block_ok_def)
  let ?inside = "\<lambda>l. blank_line l \<or> 6 \<le> indent_of l"
  have inside: "takeWhile ?inside (map ((@) (spaces 6)) ls @ rest) = map ((@) (spaces 6)) ls"
    "dropWhile ?inside (map ((@) (spaces 6)) ls @ rest) = rest"
    using assms(2) indent_at_least [of 6] by (cases rest; auto simp: takeWhile_append dropWhile_append low_start_def low_line_def)+
  have "chomp (map (drop 6) (map ((@) (spaces 6)) ls)) = ls"
    using assms(1) chomp_none [of ls] by (auto simp: comp_def block_ok_def)
  with inside show ?thesis using Cons l by (simp add: read_block_def Let_def)
qed

lemma reads_block:
  assumes "block_ok ls"
  shows "reads ((spaces 4 @ ''content: |'') # map ((@) FILE_INDENT) ls) [(4, False, Some ''content'', Block ls)]"
proof -
  have "read_line (spaces 4 @ ''content: |'') = Some (4, False, Some ''content'', Block [])"
    by (simp add: read_line_def read_keyed_def read_value_def Let_def)
  then show ?thesis
    using read_block_back [OF assms] by (simp add: reads_def low_start_def low_line_def FILE_INDENT_def)
qed

section \<open>The documents say what was asked for\<close>

definition top_key :: "string \<Rightarrow> yaml_value \<Rightarrow> yaml_item" where "top_key key v = (0, False, Some key, v)"
definition field :: "nat \<Rightarrow> string \<Rightarrow> yaml_value \<Rightarrow> yaml_item" where "field n key v = (n, False, Some key, v)"

definition file_items :: "string \<Rightarrow> string list \<Rightarrow> string \<Rightarrow> string option \<Rightarrow> yaml_item list" where
  "file_items path content permissions owner =
     [(2, True, Some ''path'', Quoted path), field 4 ''permissions'' (Quoted permissions)] @
     (case owner of None \<Rightarrow> [] | Some o' \<Rightarrow> [field 4 ''owner'' (Quoted o')]) @ [field 4 ''content'' (Block content)]"

definition seed_files :: "seed_request \<Rightarrow> (string \<times> string list \<times> string \<times> string option) list" where
  "seed_files r =
     map (\<lambda>f. (kf_path f, lines_of (keyboard_content f (sr_keyboard r)), ''0644'', None)) (sr_keyboard_files r) @
     map (\<lambda>f. (df_path f, lines_of (desktop_render f (sr_username r)), ''0644'', None)) (sr_desktop_files r) @
     (case sr_ssh r of
        SshDisabled \<Rightarrow> []
      | SshEnabled _ port \<Rightarrow>
          (sd_config_drop_in (sr_ssh_daemon r), [''Port '' @ decimal port], ''0644'', None) #
          (case sd_units (sr_ssh_daemon r) of
             SocketActivated _ drop_in _ \<Rightarrow> [(drop_in, socket_lines port, ''0644'', None)]
           | Service _ \<Rightarrow> [])) @
     (case sr_agent_secret r of
        None \<Rightarrow> []
      | Some secret \<Rightarrow>
          [(GUEST_SECRET_PATH, [secret], ''0600'', Some ''root:root''), (AGENT_SERVICE_PATH, lines_of AGENT_SERVICE, ''0644'', None)])"

definition seed_items :: "seed_request \<Rightarrow> yaml_item list" where
  "seed_items r =
     [top_key ''users'' Empty, (2, True, Some ''name'', Quoted (sr_username r)), field 4 ''shell'' (Quoted ''/bin/bash''),
      field 4 ''groups'' (Flow [sr_admin_group r]), field 4 ''sudo'' (Quoted ''ALL=(ALL) NOPASSWD:ALL'')] @
     (case sr_password_hash r of
        Some hash \<Rightarrow> [field 4 ''lock_passwd'' (Plain ''false''), field 4 ''hashed_passwd'' (Quoted hash)]
      | None \<Rightarrow> [field 4 ''lock_passwd'' (Plain ''true'')]) @
     (case sr_authorized_key r of
        Some key \<Rightarrow> [field 4 ''ssh_authorized_keys'' Empty, (6, True, None, Quoted key)]
      | None \<Rightarrow> []) @
     [top_key ''ssh_pwauth'' (Plain (if password_login_allowed r then ''true'' else ''false'')),
      top_key ''locale'' (Quoted (sr_locale r)), top_key ''timezone'' (Quoted (sr_timezone r))] @
     (if sr_desktop_packages r = [] then []
      else [top_key ''package_update'' (Plain ''true'')] @
        (if sr_package_refresh r = FullUpgrade then [top_key ''package_upgrade'' (Plain ''true'')] else []) @
        [top_key ''packages'' Empty] @ map (\<lambda>p. (2, True, None, Quoted p)) (sr_desktop_packages r)) @
     [top_key ''write_files'' Empty] @
     concat (map (\<lambda>(path, content, permissions, owner). file_items path content permissions owner) (seed_files r)) @
     [top_key ''growpart'' Empty, field 2 ''mode'' (Plain ''auto''), field 2 ''devices'' (Flow [''/'']), top_key ''resize_rootfs'' (Plain ''true'')] @
     (if seed_commands r = [] then []
      else top_key ''runcmd'' Empty # map (\<lambda>command. (2, True, None, Flow command)) (seed_commands r))"

lemmas line_simps = read_line_def read_keyed_def Let_def low_line_def simple_value_def top_key_def field_def

lemma reads_quoted:
  assumes "one_line v"
  shows "reads [spaces 2 @ ''- name: '' @ yaml v] [(2, True, Some ''name'', Quoted v)]"
    "reads [spaces 2 @ ''- path: '' @ yaml v] [(2, True, Some ''path'', Quoted v)]"
    "reads [spaces 4 @ ''owner: '' @ yaml v] [field 4 ''owner'' (Quoted v)]"
    "reads [spaces 4 @ ''hashed_passwd: '' @ yaml v] [field 4 ''hashed_passwd'' (Quoted v)]"
    "reads [''locale: '' @ yaml v] [top_key ''locale'' (Quoted v)]" "reads [''timezone: '' @ yaml v] [top_key ''timezone'' (Quoted v)]"
    "reads [''instance-id: '' @ yaml v] [top_key ''instance-id'' (Quoted v)]"
    "reads [''local-hostname: '' @ yaml v] [top_key ''local-hostname'' (Quoted v)]"
    "reads [spaces 2 @ ''- '' @ yaml v] [(2, True, None, Quoted v)]"
  using read_value_yaml [OF assms] yaml_hd [of v]
  by (auto intro!: reads_line simp: line_simps)

lemma reads_constant:
  "reads [''#cloud-config''] []" "reads [''users:''] [top_key ''users'' Empty]"
  "reads [spaces 4 @ ''shell: '' @ [quote] @ ''/bin/bash'' @ [quote]] [field 4 ''shell'' (Quoted ''/bin/bash'')]"
  "reads [spaces 4 @ ''sudo: '' @ [quote] @ ''ALL=(ALL) NOPASSWD:ALL'' @ [quote]] [field 4 ''sudo'' (Quoted ''ALL=(ALL) NOPASSWD:ALL'')]"
  "reads [spaces 4 @ ''lock_passwd: false''] [field 4 ''lock_passwd'' (Plain ''false'')]"
  "reads [spaces 4 @ ''lock_passwd: true''] [field 4 ''lock_passwd'' (Plain ''true'')]"
  "reads [''ssh_pwauth: '' @ (if b then ''true'' else ''false'')] [top_key ''ssh_pwauth'' (Plain (if b then ''true'' else ''false''))]"
  "reads [''package_update: true''] [top_key ''package_update'' (Plain ''true'')]"
  "reads [''package_upgrade: true''] [top_key ''package_upgrade'' (Plain ''true'')]"
  "reads [''packages:''] [top_key ''packages'' Empty]" "reads [''write_files:''] [top_key ''write_files'' Empty]"
  "reads [''growpart:''] [top_key ''growpart'' Empty]" "reads [spaces 2 @ ''mode: auto''] [field 2 ''mode'' (Plain ''auto'')]"
  "reads [spaces 2 @ ''devices: ['' @ [quote] @ ''/'' @ [quote] @ '']''] [field 2 ''devices'' (Flow [''/''])]"
  "reads [''resize_rootfs: true''] [top_key ''resize_rootfs'' (Plain ''true'')]" "reads [''runcmd:''] [top_key ''runcmd'' Empty]"
  "reads [spaces 4 @ ''permissions: '' @ [quote] @ ''0644'' @ [quote]] [field 4 ''permissions'' (Quoted ''0644'')]"
  "reads [spaces 4 @ ''permissions: '' @ [quote] @ ''0600'' @ [quote]] [field 4 ''permissions'' (Quoted ''0600'')]"
  by (auto intro!: reads_line simp: line_simps read_value_def read_scalar_def scan_flow.simps line_break_def)
    (simp add: reads_def low_start_def low_line_def)

lemma reads_flow:
  assumes "list_all one_line (w # ws)"
  shows "reads [spaces 2 @ ''- ['' @ join_comma (map yaml (w # ws)) @ '']''] [(2, True, None, Flow (w # ws))]"
    "reads [spaces 4 @ ''groups: ['' @ join_comma (map yaml (w # ws)) @ '']''] [field 4 ''groups'' (Flow (w # ws))]"
  using read_flow_join [OF assms] by (auto intro!: reads_line simp: line_simps simp del: join_comma.simps list.map)

lemma reads_keys:
  assumes "one_line key"
  shows "reads [spaces 4 @ ''ssh_authorized_keys:'', spaces 6 @ ''- '' @ yaml key]
    [field 4 ''ssh_authorized_keys'' Empty, (6, True, None, Quoted key)]"
proof -
  have "read_document ((spaces 6 @ ''- '' @ yaml key) # rest) = map_option ((#) (6, True, None, Quoted key)) (read_document rest)" for rest
    using read_value_yaml [OF assms] yaml_hd [of key]
    by (intro read_document_line) (simp_all add: line_simps)
  moreover have "read_document ((spaces 4 @ ''ssh_authorized_keys:'') # rest) =
      map_option ((#) (field 4 ''ssh_authorized_keys'' Empty)) (read_document rest)" for rest
    unfolding field_def by (intro read_document_line) (simp_all add: line_simps)
  ultimately show ?thesis
    by (simp add: reads_def low_start_def low_line_def option.map_comp comp_def del: read_document.simps)
qed

definition content_ok :: "string \<Rightarrow> bool" where
  "content_ok content \<longleftrightarrow> block_ok (lines_of content) \<and> CHR 0x0D \<notin> set content"

lemma reads_file:
  assumes "one_line path" "permissions \<in> {''0644'', ''0600''}" "pred_option one_line owner" "block_ok (lines_of content)"
  shows "reads (file_lines path content permissions owner) (file_items path (lines_of content) permissions owner)"
proof -
  have "reads [spaces 4 @ ''permissions: '' @ [quote] @ permissions @ [quote]] [field 4 ''permissions'' (Quoted permissions)]"
    using assms(2) reads_constant by auto
  moreover have "reads (case owner of None \<Rightarrow> [] | Some o' \<Rightarrow> [spaces 4 @ ''owner: '' @ yaml o'])
      (case owner of None \<Rightarrow> [] | Some o' \<Rightarrow> [field 4 ''owner'' (Quoted o')])"
    using assms(3) reads_Nil reads_quoted(3) by (cases owner) (simp_all only: option.case option.pred_inject)
  moreover note reads_quoted(2) [OF assms(1)] reads_block [OF assms(4)]
  ultimately have "reads ([spaces 2 @ ''- path: '' @ yaml path] @ [spaces 4 @ ''permissions: '' @ [quote] @ permissions @ [quote]] @
      (case owner of None \<Rightarrow> [] | Some o' \<Rightarrow> [spaces 4 @ ''owner: '' @ yaml o']) @
      ((spaces 4 @ ''content: |'') # map ((@) FILE_INDENT) (lines_of content)))
    ([(2, True, Some ''path'', Quoted path)] @ [field 4 ''permissions'' (Quoted permissions)] @
      (case owner of None \<Rightarrow> [] | Some o' \<Rightarrow> [field 4 ''owner'' (Quoted o')]) @ [(4, False, Some ''content'', Block (lines_of content))])"
    by (intro reads_append)
  then show ?thesis by (simp add: file_lines_def file_items_def field_def)
qed

text \<open>The strings of a request are lines, and the contents of its files can be written as blocks.\<close>

definition request_ok :: "seed_request \<Rightarrow> bool" where
  "request_ok r \<longleftrightarrow>
     list_all one_line [sr_vm_name r, sr_instance_id r, sr_username r, sr_locale r, sr_timezone r, sr_admin_group r,
       sd_config_drop_in (sr_ssh_daemon r)] \<and>
     pred_option one_line (sr_password_hash r) \<and> pred_option one_line (sr_authorized_key r) \<and>
     (case sd_units (sr_ssh_daemon r) of
        Service unit \<Rightarrow> one_line unit
      | SocketActivated socket drop_in service \<Rightarrow> one_line socket \<and> one_line drop_in \<and> one_line service) \<and>
     (\<forall>f \<in> set (sr_keyboard_files r). one_line (kf_path f) \<and> content_ok (keyboard_content f (sr_keyboard r))) \<and>
     (\<forall>f \<in> set (sr_desktop_files r). one_line (df_path f) \<and> content_ok (desktop_render f (sr_username r))) \<and>
     pred_option (\<lambda>s. one_line s \<and> block_ok [s]) (sr_agent_secret r) \<and>
     list_all one_line (sr_desktop_packages r) \<and> pred_option one_line (sr_desktop_service r)"

lemma lines_of_text:
  assumes "list_all one_line ls"
  shows "lines_of (text_of_lines ls) = ls"
proof -
  have line: "split_lines (l @ newline @ rest) acc = (acc @ l) # split_lines rest []"
    if "one_line (acc @ l)" for l acc rest
    using that
  proof (induction l arbitrary: acc)
    case Nil
    then have "acc = [] \<or> last acc \<noteq> CHR 0x0D" by (auto simp: one_line_def line_break_def dest: last_in_set)
    then show ?case by (auto simp: newline_def)
  next
    case (Cons c l)
    then have "c \<noteq> CHR 0x0A" by (auto simp: one_line_def line_break_def)
    then show ?case using Cons.IH [of "acc @ [c]"] Cons.prems by simp
  qed
  show ?thesis
    using assms
  proof (induction ls)
    case (Cons l ls)
    then show ?case using line [of "[]" l "text_of_lines ls"] by (simp add: lines_of_def text_of_lines_def)
  qed (simp add: lines_of_def text_of_lines_def)
qed

lemma decimal_line: "one_line (decimal n)"
proof (induction n rule: decimal.induct)
  case (1 n)
  have "(char_of (48 + k) :: char) \<notin> line_break" if "k < 10" for k :: nat
  proof -
    have code: "of_char (char_of (48 + k) :: char) = 48 + k" using that by (simp add: of_char_of)
    have "(char_of (48 + k) :: char) \<noteq> c" if "of_char c < (48 :: nat)" for c using code that by (metis not_add_less1)
    then show ?thesis by (simp add: line_break_def)
  qed
  then show ?case using 1 by (subst decimal.simps) (auto simp: one_line_def)
qed

lemma one_line_simps [simp]:
  "one_line []" "one_line (c # s) = (c \<notin> line_break \<and> one_line s)" "one_line (s @ t) = (one_line s \<and> one_line t)"
  "one_line (spaces n)"
  by (auto simp: one_line_def spaces_def line_break_def)

lemma line_break_mem [simp]: "c \<in> line_break \<longleftrightarrow> c = CHR 0x0A \<or> c = CHR 0x0D"
  by (simp add: line_break_def)

lemma yaml_one_line: "one_line (yaml v) = one_line v"
proof -
  have "one_line (replace_all [quote] [quote, quote] v) = one_line v" by (induction v) auto
  then show ?thesis by (simp add: yaml_def)
qed

lemma lines_of_socket: "lines_of (socket_settings port) = socket_lines port" "block_ok (socket_lines port)"
  using decimal_line [of port]
  by (auto simp: socket_settings_def socket_lines_def block_ok_def blank_line_def intro!: lines_of_text)

lemma lines_of_port: "lines_of (text_of_lines [''Port '' @ decimal port]) = [''Port '' @ decimal port]" "block_ok [''Port '' @ decimal port]"
  using decimal_line [of port] by (auto simp: block_ok_def blank_line_def intro!: lines_of_text)

lemma lines_of_service:
  "lines_of AGENT_SERVICE = [''[Unit]'', ''Description=VMLord guest agent'', ''ConditionPathExists=/etc/vmlord/agent.secret'', [],
      ''[Service]'', ''ExecStart=/usr/local/lib/vmlord/vmlord-agent'', ''User=root'', ''Restart=always'', ''RestartSec=5'', [],
      ''[Install]'', ''WantedBy=multi-user.target'']"
  "block_ok (lines_of AGENT_SERVICE)"
proof -
  show "lines_of AGENT_SERVICE = [''[Unit]'', ''Description=VMLord guest agent'', ''ConditionPathExists=/etc/vmlord/agent.secret'', [],
      ''[Service]'', ''ExecStart=/usr/local/lib/vmlord/vmlord-agent'', ''User=root'', ''Restart=always'', ''RestartSec=5'', [],
      ''[Install]'', ''WantedBy=multi-user.target'']"
    unfolding AGENT_SERVICE_def by (rule lines_of_text) simp
  then show "block_ok (lines_of AGENT_SERVICE)" by (simp add: block_ok_def blank_line_def)
qed

lemma split_lines_breaks: "\<forall>l \<in> set (split_lines t acc). set l \<subseteq> set acc \<union> (set t - {CHR 0x0A})"
proof (induction t acc rule: split_lines.induct)
  case (2 c cs line)
  then show ?case by (auto dest: in_set_butlastD) (blast | fastforce)+
qed auto

lemma lines_of_one_line: "content_ok content \<Longrightarrow> list_all one_line (lines_of content)"
  using split_lines_breaks [of content "[]"] by (auto simp: content_ok_def lines_of_def one_line_def list_all_iff) blast+

lemma join_comma_line: "list_all one_line ws \<Longrightarrow> one_line (join_comma (map yaml ws))"
  by (induction ws rule: join_comma.induct) (auto simp: yaml_one_line)

lemma file_lines_one_line:
  "one_line path \<Longrightarrow> one_line permissions \<Longrightarrow> pred_option one_line owner \<Longrightarrow> list_all one_line (lines_of content) \<Longrightarrow>
   list_all one_line (file_lines path content permissions owner)"
  by (auto simp: file_lines_def yaml_one_line FILE_INDENT_def list_all_iff split: option.splits)

lemma seed_commands_ok:
  assumes "request_ok r"
  shows "\<forall>command \<in> set (seed_commands r). command \<noteq> [] \<and> list_all one_line command"
  using assms
  by (cases "sr_desktop_service r") (auto simp: seed_commands_def disable_ssh_def apply_ssh_configuration_def agent_install_commands_def AGENT_FILE_def
      enable_display_manager_def request_ok_def split: SshAccess.splits SshUnits.splits option.splits if_splits)

lemma reads_runcmd:
  assumes "request_ok r"
  shows "reads (runcmd r) (if seed_commands r = [] then []
    else top_key ''runcmd'' Empty # map (\<lambda>command. (2, True, None, Flow command)) (seed_commands r))"
proof -
  have "reads [spaces 2 @ ''- ['' @ join_comma (map yaml c) @ '']''] [(2, True, None, Flow c)]" if "c \<in> set (seed_commands r)" for c
    using seed_commands_ok [OF assms] that reads_flow(1) [of "hd c" "tl c"] by force
  from reads_append [OF reads_constant(16) reads_map [OF this]] show ?thesis
    by (auto simp: runcmd_def reads_Nil)
qed

lemma reads_packages:
  assumes "request_ok r"
  shows "reads (packages r) (if sr_desktop_packages r = [] then []
      else [top_key ''package_update'' (Plain ''true'')] @
        (if sr_package_refresh r = FullUpgrade then [top_key ''package_upgrade'' (Plain ''true'')] else []) @
        [top_key ''packages'' Empty] @ map (\<lambda>p. (2, True, None, Quoted p)) (sr_desktop_packages r))"
proof -
  have "reads [spaces 2 @ ''- '' @ yaml p] [(2, True, None, Quoted p)]" if "p \<in> set (sr_desktop_packages r)" for p
    using assms that by (intro reads_quoted(9)) (auto simp: request_ok_def list_all_iff)
  from reads_map [OF this] have "reads ([''package_update: true''] @
      (if sr_package_refresh r = FullUpgrade then [''package_upgrade: true''] else []) @ [''packages:''] @
      map (\<lambda>p. spaces 2 @ ''- '' @ yaml p) (sr_desktop_packages r))
    ([top_key ''package_update'' (Plain ''true'')] @
      (if sr_package_refresh r = FullUpgrade then [top_key ''package_upgrade'' (Plain ''true'')] else []) @
      [top_key ''packages'' Empty] @ map (\<lambda>p. (2, True, None, Quoted p)) (sr_desktop_packages r))"
    by (intro reads_append reads_constant(8,10)) (auto intro: reads_Nil reads_constant(9))
  then show ?thesis by (simp add: packages_def reads_Nil)
qed

definition file_ok :: "string \<times> string list \<times> string \<times> string option \<Rightarrow> bool" where
  "file_ok f \<longleftrightarrow> (case f of (path, content, permissions, owner) \<Rightarrow> one_line path \<and> permissions \<in> {''0644'', ''0600''} \<and>
     pred_option one_line owner \<and> block_ok content \<and> list_all one_line content)"

lemma plain_file_ok: "one_line path \<Longrightarrow> block_ok content \<Longrightarrow> list_all one_line content \<Longrightarrow> file_ok (path, content, ''0644'', None)"
  by (simp add: file_ok_def)

lemma seed_files_ok:
  assumes "request_ok r"
  shows "list_all file_ok (seed_files r)"
proof -
  note ok = assms [unfolded request_ok_def]
  have k: "file_ok (kf_path f, lines_of (keyboard_content f (sr_keyboard r)), ''0644'', None)"
    if "f \<in> set (sr_keyboard_files r)" for f
    using ok that by (intro plain_file_ok lines_of_one_line) (auto simp: content_ok_def)
  have d: "file_ok (df_path f, lines_of (desktop_render f (sr_username r)), ''0644'', None)"
    if "f \<in> set (sr_desktop_files r)" for f
    using ok that by (intro plain_file_ok lines_of_one_line) (auto simp: content_ok_def)
  have port: "file_ok (sd_config_drop_in (sr_ssh_daemon r), [''Port '' @ decimal port], ''0644'', None)" for port
    using ok lines_of_port(2) [of port] decimal_line [of port] by (intro plain_file_ok) auto
  have socket: "file_ok (drop_in, socket_lines port, ''0644'', None)" if "one_line drop_in" for drop_in port
    using that lines_of_socket(2) [of port] decimal_line [of port] by (intro plain_file_ok) (auto simp: socket_lines_def)
  have service: "file_ok (AGENT_SERVICE_PATH, lines_of AGENT_SERVICE, ''0644'', None)"
    using lines_of_service by (intro plain_file_ok) (auto simp: AGENT_SERVICE_PATH_def)
  have secret: "file_ok (GUEST_SECRET_PATH, [s], ''0600'', Some ''root:root'')" if "sr_agent_secret r = Some s" for s
    using ok that by (auto simp: file_ok_def GUEST_SECRET_PATH_def)
  have "list_all file_ok (map (\<lambda>f. (kf_path f, lines_of (keyboard_content f (sr_keyboard r)), ''0644'', None)) (sr_keyboard_files r))"
    "list_all file_ok (map (\<lambda>f. (df_path f, lines_of (desktop_render f (sr_username r)), ''0644'', None)) (sr_desktop_files r))"
    using k d by (simp_all add: list_all_iff)
  moreover have "list_all file_ok (case sr_ssh r of SshDisabled \<Rightarrow> []
      | SshEnabled _ port \<Rightarrow> (sd_config_drop_in (sr_ssh_daemon r), [''Port '' @ decimal port], ''0644'', None) #
          (case sd_units (sr_ssh_daemon r) of SocketActivated _ drop_in _ \<Rightarrow> [(drop_in, socket_lines port, ''0644'', None)] | Service _ \<Rightarrow> []))"
    using port socket ok by (cases "sr_ssh r"; cases "sd_units (sr_ssh_daemon r)") simp_all
  moreover have "list_all file_ok (case sr_agent_secret r of None \<Rightarrow> []
      | Some secret \<Rightarrow> [(GUEST_SECRET_PATH, [secret], ''0600'', Some ''root:root''), (AGENT_SERVICE_PATH, lines_of AGENT_SERVICE, ''0644'', None)])"
    using secret service by (cases "sr_agent_secret r") simp_all
  ultimately show ?thesis by (simp only: seed_files_def list_all_append simp_thms)
qed

text \<open>A file as its lines, from the lines of its content.\<close>

definition file_body :: "string \<times> string list \<times> string \<times> string option \<Rightarrow> string list" where
  "file_body f = (case f of (path, content, permissions, owner) \<Rightarrow>
     [spaces 2 @ ''- path: '' @ yaml path, spaces 4 @ ''permissions: '' @ [quote] @ permissions @ [quote]] @
     (case owner of None \<Rightarrow> [] | Some o' \<Rightarrow> [spaces 4 @ ''owner: '' @ yaml o']) @
     [spaces 4 @ ''content: |''] @ map ((@) FILE_INDENT) content)"

lemma file_lines_body: "file_lines path content permissions owner = file_body (path, lines_of content, permissions, owner)"
  by (simp add: file_lines_def file_body_def)

lemma reads_body:
  assumes "file_ok f"
  shows "reads (file_body f) (case f of (path, content, permissions, owner) \<Rightarrow> file_items path content permissions owner)"
proof -
  obtain path content permissions owner where f: "f = (path, content, permissions, owner)" by (cases f)
  then have "lines_of (text_of_lines content) = content" using assms lines_of_text by (simp add: file_ok_def)
  with f assms reads_file [of path permissions owner "text_of_lines content"] show ?thesis
    by (simp add: file_ok_def file_lines_body)
qed

lemma body_one_line: "file_ok f \<Longrightarrow> list_all one_line (file_body f)"
  by (auto simp: file_ok_def file_body_def yaml_one_line FILE_INDENT_def list_all_iff split: option.splits)

lemma write_files_body:
  assumes "request_ok r"
  shows "write_files r = [''write_files:''] @ concat (map file_body (seed_files r))"
proof -
  have "lines_of (text_of_lines [s]) = [s]" if "sr_agent_secret r = Some s" for s
    using assms that by (intro lines_of_text) (simp add: request_ok_def)
  then have "(case sr_agent_secret r of None \<Rightarrow> []
      | Some secret \<Rightarrow> restricted_file GUEST_SECRET_PATH (text_of_lines [secret]) ''root:root'' @ plain_file AGENT_SERVICE_PATH AGENT_SERVICE) =
    concat (map file_body (case sr_agent_secret r of None \<Rightarrow> []
      | Some secret \<Rightarrow> [(GUEST_SECRET_PATH, [secret], ''0600'', Some ''root:root''), (AGENT_SERVICE_PATH, lines_of AGENT_SERVICE, ''0644'', None)]))"
    by (cases "sr_agent_secret r") (simp_all add: restricted_file_def plain_file_def file_lines_body)
  moreover have "(case sr_ssh r of SshDisabled \<Rightarrow> []
      | SshEnabled _ port \<Rightarrow> plain_file (sd_config_drop_in (sr_ssh_daemon r)) (text_of_lines [''Port '' @ decimal port]) @
          (case sd_units (sr_ssh_daemon r) of SocketActivated _ drop_in _ \<Rightarrow> plain_file drop_in (socket_settings port) | Service _ \<Rightarrow> [])) =
    concat (map file_body (case sr_ssh r of SshDisabled \<Rightarrow> []
      | SshEnabled _ port \<Rightarrow> (sd_config_drop_in (sr_ssh_daemon r), [''Port '' @ decimal port], ''0644'', None) #
          (case sd_units (sr_ssh_daemon r) of SocketActivated _ drop_in _ \<Rightarrow> [(drop_in, socket_lines port, ''0644'', None)] | Service _ \<Rightarrow> [])))"
    by (cases "sr_ssh r"; cases "sd_units (sr_ssh_daemon r)")
      (simp_all only: SshAccess.case SshUnits.case plain_file_def file_lines_body lines_of_port lines_of_socket list.map concat.simps append_Nil2)
  ultimately show ?thesis
    by (simp add: write_files_def seed_files_def plain_file_def file_lines_body comp_def)
qed

lemma reads_files:
  assumes "request_ok r"
  shows "reads (write_files r) ([top_key ''write_files'' Empty] @
    concat (map (\<lambda>(path, content, permissions, owner). file_items path content permissions owner) (seed_files r)))"
  unfolding write_files_body [OF assms]
  using seed_files_ok [OF assms]
  by (intro reads_append reads_constant reads_concat reads_body) (auto simp: list_all_iff)

lemma reads_login:
  assumes "request_ok r"
  shows "reads (case sr_password_hash r of
        Some hash \<Rightarrow> [spaces 4 @ ''lock_passwd: false'', spaces 4 @ ''hashed_passwd: '' @ yaml hash]
      | None \<Rightarrow> [spaces 4 @ ''lock_passwd: true''])
    (case sr_password_hash r of
        Some hash \<Rightarrow> [field 4 ''lock_passwd'' (Plain ''false''), field 4 ''hashed_passwd'' (Quoted hash)]
      | None \<Rightarrow> [field 4 ''lock_passwd'' (Plain ''true'')])"
    "reads (case sr_authorized_key r of
        Some key \<Rightarrow> [spaces 4 @ ''ssh_authorized_keys:'', spaces 6 @ ''- '' @ yaml key]
      | None \<Rightarrow> [])
    (case sr_authorized_key r of
        Some key \<Rightarrow> [field 4 ''ssh_authorized_keys'' Empty, (6, True, None, Quoted key)]
      | None \<Rightarrow> [])"
proof -
  have "reads ([spaces 4 @ ''lock_passwd: false''] @ [spaces 4 @ ''hashed_passwd: '' @ yaml hash])
      ([field 4 ''lock_passwd'' (Plain ''false'')] @ [field 4 ''hashed_passwd'' (Quoted hash)])" if "one_line hash" for hash
    using that by (intro reads_append reads_constant reads_quoted)
  then show "reads (case sr_password_hash r of
        Some hash \<Rightarrow> [spaces 4 @ ''lock_passwd: false'', spaces 4 @ ''hashed_passwd: '' @ yaml hash]
      | None \<Rightarrow> [spaces 4 @ ''lock_passwd: true''])
    (case sr_password_hash r of
        Some hash \<Rightarrow> [field 4 ''lock_passwd'' (Plain ''false''), field 4 ''hashed_passwd'' (Quoted hash)]
      | None \<Rightarrow> [field 4 ''lock_passwd'' (Plain ''true'')])"
    using assms reads_constant(6) by (cases "sr_password_hash r") (simp_all add: request_ok_def)
  show "reads (case sr_authorized_key r of
        Some key \<Rightarrow> [spaces 4 @ ''ssh_authorized_keys:'', spaces 6 @ ''- '' @ yaml key]
      | None \<Rightarrow> [])
    (case sr_authorized_key r of
        Some key \<Rightarrow> [field 4 ''ssh_authorized_keys'' Empty, (6, True, None, Quoted key)]
      | None \<Rightarrow> [])"
    using assms reads_keys reads_Nil by (cases "sr_authorized_key r") (simp_all add: request_ok_def)
qed

lemma reads_user_data:
  assumes "request_ok r"
  shows "reads (user_data r) (seed_items r)"
proof -
  have v: "one_line (sr_username r)" "one_line (sr_admin_group r)" "one_line (sr_locale r)" "one_line (sr_timezone r)"
    using assms by (simp_all add: request_ok_def)
  have groups: "reads [spaces 4 @ ''groups: ['' @ yaml (sr_admin_group r) @ '']''] [field 4 ''groups'' (Flow [sr_admin_group r])]"
    using reads_flow(2) [of "sr_admin_group r" "[]"] v(2) by simp
  have parts1: "reads ([''#cloud-config''] @ [''users:''] @ [spaces 2 @ ''- name: '' @ yaml (sr_username r)] @
      [spaces 4 @ ''shell: '' @ [quote] @ ''/bin/bash'' @ [quote]] @
      [spaces 4 @ ''groups: ['' @ yaml (sr_admin_group r) @ '']''] @
      [spaces 4 @ ''sudo: '' @ [quote] @ ''ALL=(ALL) NOPASSWD:ALL'' @ [quote]])
    ([] @ [top_key ''users'' Empty] @ [(2, True, Some ''name'', Quoted (sr_username r))] @
      [field 4 ''shell'' (Quoted ''/bin/bash'')] @ [field 4 ''groups'' (Flow [sr_admin_group r])] @
      [field 4 ''sudo'' (Quoted ''ALL=(ALL) NOPASSWD:ALL'')])"
    using v by (intro reads_append reads_constant reads_quoted groups)
  have parts2: "reads ([''ssh_pwauth: '' @ (if password_login_allowed r then ''true'' else ''false'')] @
      [''locale: '' @ yaml (sr_locale r)] @ [''timezone: '' @ yaml (sr_timezone r)])
    ([top_key ''ssh_pwauth'' (Plain (if password_login_allowed r then ''true'' else ''false''))] @
      [top_key ''locale'' (Quoted (sr_locale r))] @ [top_key ''timezone'' (Quoted (sr_timezone r))])"
    using v by (intro reads_append reads_constant reads_quoted groups)
  have parts3: "reads ([''growpart:''] @ [spaces 2 @ ''mode: auto''] @ [spaces 2 @ ''devices: ['' @ [quote] @ ''/'' @ [quote] @ '']''] @
      [''resize_rootfs: true''])
    ([top_key ''growpart'' Empty] @ [field 2 ''mode'' (Plain ''auto'')] @ [field 2 ''devices'' (Flow [''/''])] @
      [top_key ''resize_rootfs'' (Plain ''true'')])"
    using v by (intro reads_append reads_constant reads_quoted groups)
  show ?thesis
    using reads_append [OF parts1 reads_append [OF reads_login(1) [OF assms] reads_append [OF reads_login(2) [OF assms]
      reads_append [OF parts2 reads_append [OF reads_packages [OF assms] reads_append [OF reads_files [OF assms]
      reads_append [OF parts3 reads_runcmd [OF assms]]]]]]]]
    unfolding user_data_def seed_items_def by (simp only: append.simps append.assoc)
qed

lemma user_data_lines:
  assumes "request_ok r"
  shows "list_all one_line (user_data r)"
proof -
  have "list_all one_line (packages r)" using assms by (auto simp: packages_def request_ok_def yaml_one_line list_all_iff)
  moreover have "list_all one_line (runcmd r)"
    using seed_commands_ok [OF assms] join_comma_line by (auto simp: runcmd_def list_all_iff)
  moreover have "list_all one_line (write_files r)"
    unfolding write_files_body [OF assms] using seed_files_ok [OF assms] body_one_line by (auto simp: list_all_iff)
  moreover have "list_all one_line (case sr_password_hash r of
        Some hash \<Rightarrow> [spaces 4 @ ''lock_passwd: false'', spaces 4 @ ''hashed_passwd: '' @ yaml hash]
      | None \<Rightarrow> [spaces 4 @ ''lock_passwd: true''])"
    using assms by (cases "sr_password_hash r") (simp_all add: request_ok_def yaml_one_line)
  moreover have "list_all one_line (case sr_authorized_key r of
        Some key \<Rightarrow> [spaces 4 @ ''ssh_authorized_keys:'', spaces 6 @ ''- '' @ yaml key] | None \<Rightarrow> [])"
    using assms by (cases "sr_authorized_key r") (simp_all add: request_ok_def yaml_one_line)
  ultimately show ?thesis using assms by (simp add: user_data_def yaml_one_line request_ok_def)
qed

lemma user_data_read_back:
  assumes "request_ok r"
  shows "read_document (lines_of (text_of_lines (user_data r))) = Some (seed_items r)"
  using reads_user_data [OF assms] lines_of_text [OF user_data_lines [OF assms]]
  by (auto simp: reads_def low_start_def dest: spec [of _ "[]"])

lemma meta_data_read_back:
  assumes "request_ok r"
  shows "read_document (lines_of (text_of_lines (meta_data r))) =
    Some [top_key ''instance-id'' (Quoted (sr_instance_id r)), top_key ''local-hostname'' (Quoted (sr_vm_name r))]"
proof -
  have v: "one_line (sr_instance_id r)" "one_line (sr_vm_name r)" using assms by (simp_all add: request_ok_def)
  have "reads ([''instance-id: '' @ yaml (sr_instance_id r)] @ [''local-hostname: '' @ yaml (sr_vm_name r)])
      ([top_key ''instance-id'' (Quoted (sr_instance_id r))] @ [top_key ''local-hostname'' (Quoted (sr_vm_name r))])"
    using v by (intro reads_append reads_quoted)
  moreover have "list_all one_line (meta_data r)" using v by (simp add: meta_data_def yaml_one_line)
  ultimately show ?thesis
    using lines_of_text [of "meta_data r"]
    by (auto simp: reads_def low_start_def meta_data_def dest: spec [of _ "[]"])
qed

text \<open>A block whose first line begins with a space is read with that line's indentation, and loses it.\<close>

lemma indented_block_is_misread:
  "read_block 4 (map ((@) FILE_INDENT) [''  Option'', ''End'']) = ([''Option''], [''      End''])"
  by (simp add: read_block_def FILE_INDENT_def indent_of_def spaces_def blank_line_def chomp_def Let_def eval_nat_numeral)

section \<open>A layout inside a shell file\<close>

text \<open>What a shell makes of the inside of double quotes; nothing when a character there is not taken literally.\<close>

fun shell_inside :: "string \<Rightarrow> string option" where
  "shell_inside [] = Some []"
| "shell_inside (c # cs) =
     (if c = CHR 0x5C then
        (case cs of
           d # ds \<Rightarrow> map_option (\<lambda>v. if d \<in> {CHR 0x5C, CHR 0x22, CHR 0x60, CHR 0x24} then d # v else c # d # v) (shell_inside ds)
         | [] \<Rightarrow> None)
      else if c \<in> {CHR 0x22, CHR 0x60, CHR 0x24} then None
      else map_option ((#) c) (shell_inside cs))"

lemma shell_escape_inside: "shell_inside (keyboard_escape ShellAssignment layout) = Some layout"
  by (induction layout) auto

lemma xorg_escape_inside: "CHR 0x22 \<notin> set (keyboard_escape XorgString layout)"
proof -
  have "CHR 0x22 \<notin> set (replace_all [CHR 0x22] [] layout)" by (induction layout) auto
  then show ?thesis by simp
qed

end
