(* ===== verification/Spec2Isabelle.thy ===== *)
theory Spec2Isabelle
  imports Codec_Stream Agent_Frame Agent_Handshake Agent_Auth Frame_Channel Clipboard_Exchange
    Clipboard_Files Audio_Stream Vm_Runs Worker_Registry Nat_Network Ssh_Port Disk_Import Control_Channel
    Viewer_Window Input_Path Seed_Documents Channel_Bind
begin

text \<open>
  A verification library for VMLord, a manager of Linux virtual machines on Windows.

  \<^bold>\<open>The program.\<close> A host application starts virtual machines and talks to an agent in each guest over
  a socket (crates \<open>platform\<close>, \<open>agent\<close>, \<open>agent-protocol\<close>). A machine with a display runs display
  services in the guest (\<open>display-services\<close>) that capture the screen, encode it in tiles
  (\<open>display-codec\<close>) and send it over the channels of an authenticated session
  (\<open>display-protocol\<close>) to a viewer (\<open>display-viewer\<close>) on the host. A machine's disk is made from a
  distribution's image (\<open>image\<close>). The library models the parts whose
  correctness is a matter of the program's own logic: the codec, both protocols, the
  binding of channels, what the two ends do with the control, frame, input, clipboard and audio channels, the rules of the
  viewer's window, the seed a machine first boots with, the registries and facts the host keeps of its machines, their network, and the way of an image
  onto a disk.

  \<^bold>\<open>How the code is modelled.\<close> A struct is a record, an enum a datatype, a function of the source a
  function here with the same guards in the same order. A fallible call returns an \<open>outcome\<close>
  (\<open>Prelude\<close>): \<open>Ok\<close>, \<open>Err\<close>, or \<open>Panic\<close> where the source would panic (a failed \<open>expect\<close>, an index out of
  range, checked \<open>usize\<close> arithmetic). Bytes, 16-bit and 32-bit fields that are read or written on
  a wire, and counters that wrap, are words; sizes and coordinates are naturals with their
  bounds written out. A loop is a recursive function that terminates; no fuel is used. A call
  that mutates \<open>self\<close> returns the new value, beside the result where it can also fail.

  \<^bold>\<open>What is a parameter.\<close> Protobuf codecs (generated code), HMAC, HKDF, SHA-256, CRC32C and base64
  (other packages), Unicode's table of letter cases, the file system that holds cursor themes, the sound
  devices and random bytes are arguments of the definitions that use them; so are the calls of the host's
  compute and network services, the DHCP and qcow2 packages, the disk device, the ssh client, the answers of the
  display module's parameter files, the kernel's input devices, and what a monitor or a window reports. A theorem
  that needs something of them says so: that one message decodes as it was encoded (\<open>decodes\<close>),
  that a code has 32 bytes, that two particular inputs do not collide, that a file keeps what was written to it.

  \<^bold>\<open>The codec\<close> (\<open>src/crates/display-codec/src\<close>). \<open>Codec_Error\<close> has the errors of \<open>error.rs\<close>; \<open>Varint\<close> the
  numbers of \<open>varint.rs\<close>, an instance of the contract \<open>prefix_code\<close> of \<open>Prefix_Code\<close> (a reader finds
  the end of what a writer wrote, so streams of values come back); \<open>Zrle\<close> the run-length coder of
  \<open>zrle.rs\<close>, with a locale for coders of pixels; \<open>Geometry\<close> and \<open>Frame_Tiles\<close> the frame, its tiles
  (\<open>geometry.rs\<close>) and the row loops \<open>gather\<close>, \<open>scatter\<close> and \<open>differs\<close> of \<open>encoder.rs\<close>; \<open>Container\<close> and \<open>Cursor\<close> the
  payload header and the cursor records; \<open>Staging\<close> the slots of \<open>queue.rs\<close> that keep the latest
  value, as a contract \<open>latest_wins\<close> and its instances; \<open>Encoder\<close> and \<open>Decoder\<close> the two ends. \<open>Codec_Stream\<close>
  runs the ends against each other as a step relation over captures, cursors, keyframe
  requests and pulls. The lemmas show that the viewer's frame is the encoder's reference in
  every reachable state, that honest damage hints make it the screen, that the sweep repairs
  dishonest ones in a bounded number of captures, and that no bytes make the decoder panic.

  \<^bold>\<open>The agent protocol\<close> (\<open>src/crates/agent-protocol/src\<close>). \<open>Byte_Stream\<close> models a transport: a script of
  chunks, interruptions and expired polls with times, and a sink that may refuse. \<open>Agent_Frame\<close>
  is \<open>frame.rs\<close> and \<open>envelope.rs\<close>; \<open>Agent_Handshake\<close> is \<open>handshake.rs\<close> and \<open>backoff.rs\<close>; \<open>Agent_Auth\<close> is
  \<open>auth.rs\<close>. \<open>Negotiation\<close> states the two contracts of an opening exchange, on revisions and on
  capabilities, which the agent protocol and the display protocol both fulfil.

  \<^bold>\<open>The display protocol\<close> (\<open>src/crates/display-protocol/src\<close>). \<open>Wire_Record\<close> is \<open>record.rs\<close>: headers, caps,
  writing, and reading with a completion time; \<open>Display_Handshake\<close> is \<open>handshake.rs\<close>; \<open>Display_Keys\<close> is
  \<open>keys.rs\<close>, with the lemmas that what is signed determines what was said; \<open>Display_Session\<close> is
  \<open>session.rs\<close>, the state machine of both roles. \<open>Session_Rules\<close> shows that every handler keeps a
  session well formed and none panics, for every sequence of records and calls; \<open>Session_Agreement\<close>
  that the handshake brings both ends to one agreement and that an accepted proof ties both
  hellos together; \<open>Session_Channels\<close> that channels bind, that records of an old socket are told
  apart, and that a session handed to a viewer behaves as the one that ran the handshake.
  \<open>Channel_Bind\<close> is \<open>bind\<close> of \<open>src/crates/display-services/src/channel.rs\<close>, the guest's half over a socket,
  with the host's session at the other end.

  \<^bold>\<open>The frame channel.\<close> \<open>Cursor_Plane\<close> is \<open>cursor.rs\<close> and \<open>Cursor_Theme\<close> \<open>cursor_theme.rs\<close> of
  \<open>src/crates/display-services/src\<close>: where a cursor plane lies on a frame and how it is blended, and the
  table of hotspots read from theme files. \<open>Frame_Pipeline\<close> is \<open>pipeline.rs\<close>, from captured frames
  to records on a socket; \<open>Frame_Video\<close> is \<open>src/crates/display-viewer/src/video.rs\<close>, from records to a decoder.
  \<open>Payload_Size\<close> bounds what the encoder hands out by the method of each tile. \<open>Frame_Channel\<close> composes pipeline, wire and viewer as a
  step relation; its invariant \<open>channel_in_step\<close> says that the viewer's frame is the encoder's reference and
  its last frame number the base of the next delta. The lemmas show that no record is refused, that
  records fit their cap, that the drawn pointer keeps damage hints honest, and that no records of
  a guest make the viewer panic.

  \<^bold>\<open>The clipboard\<close> (\<open>src/crates/display-protocol/src/clipboard.rs\<close> and \<open>clipboard/\<close>). \<open>Unicode_Text\<close> has the
  text functions the sources use and \<open>Wire_Path\<close> the check of a peer's paths. \<open>Clipboard_Exchange\<close> and
  \<open>Clipboard_Files\<close> are the two exchanges; each call is a definition that returns the operations its
  owner carries out, and a run is a list of calls. \<open>Clipboard_Files\<close> also keeps, beside the exchange,
  what an owner that carries out the operations has staged and published (\<open>files_staging\<close>, not in
  the code), to say that published trees are whole. The lemmas are the invariants under
  every call and the runs of two exchanges against each other.

  \<^bold>\<open>Sound.\<close> \<open>Audio_Stream\<close> is \<open>audio.rs\<close> of the protocol, the loop of \<open>audio_main.rs\<close> and what the viewer
  makes of a record (\<open>display-viewer/src/audio/mod.rs\<close>, \<open>windows/audio.rs\<close>): suppressed silence is made up for
  by stream positions; a torn write and a torn frame are shown to break the stream and the buffer.

  \<^bold>\<open>The window and the control channel.\<close> \<open>Text_Fields\<close> has numbers and lines in text. \<open>Display_Modes\<close> follows the host's modes
  from the monitor (\<open>display-viewer/src/display_modes.rs\<close>, \<open>windows/display_modes.rs\<close>) to the guest's connector
  (\<open>display-services/src/output.rs\<close>, \<open>HostModes\<close> of \<open>broker_main.rs\<close>): a list that the viewer publishes is one the
  output takes. \<open>Control_Channel\<close> is \<open>control.rs\<close> and the turns of \<open>run_session\<close>, over the sockets of
  \<open>Byte_Stream\<close> and the session of \<open>Display_Session\<close>; \<open>broker_run\<close> runs session after session against any
  host, and its invariant says what can reach the module. \<open>Viewer_Window\<close> is \<open>placement.rs\<close>, \<open>resize.rs\<close>,
  \<open>monitors.rs\<close> and \<open>state.rs\<close> of the viewer: the picture and the pointer, a drag and its answer, where a window
  opens, and the file that remembers it.

  \<^bold>\<open>Input.\<close> \<open>Input_Policy\<close> is \<open>input/keymap.rs\<close> and \<open>input/mod.rs\<close> of the viewer, from what a window reports to
  events for a guest; \<open>Input_Devices\<close> is the keyboard and the pointer of \<open>display-services/src/uinput.rs\<close>, with the
  state the kernel makes of what is written to them; \<open>Input_Path\<close> joins them over the channel: \<open>send_input\<close> of
  \<open>live.rs\<close>, the input side of \<open>session_main.rs\<close> and of the viewer's event loop, as a step relation \<open>input_step\<close>
  over turns of the window, writes that fail, sessions that end, rebinds and reads. It takes for granted that the
  viewer sees the end of a session before it binds the next one. The invariant ties what the viewer believes is
  pressed, what is under way and what the kernel holds down; the lemmas show that nothing stays pressed, that a
  pointer lands on its pixel and that the wheel loses nothing.

  \<^bold>\<open>Seeds\<close> (\<open>src/crates/seed/src\<close>). \<open>Iso_Image\<close> is the writer of \<open>iso.rs\<close>, with a reader that walks a volume from its
  descriptor as a driver does; \<open>Seed_Documents\<close> is \<open>user_data.rs\<close>, \<open>meta_data.rs\<close>, \<open>scalar.rs\<close> and the escaping of
  \<open>core/src/distro.rs\<close>, with a reader of the YAML the documents are written in (the readers are specifications and
  not part of the program). The lemmas show that a volume and its documents are read back as what was asked for, and where a
  file's content is not.

  \<^bold>\<open>The host platform\<close> (\<open>src/crates/platform/src\<close>). \<open>Worker_Registry\<close> models the registries of threads that start,
  stop and reboot machines as a locale with two interpretations; \<open>Vm_Watch\<close> the bounded queue of events, watches by
  generation, and reconnection (\<open>watch.rs\<close>, \<open>reconnect.rs\<close>); \<open>Vm_Facts\<close> what is known of the GPU and display of a run
  (\<open>core/src/gpu.rs\<close>, \<open>core/src/display.rs\<close>, \<open>gpu_runs.rs\<close>, \<open>display_runs.rs\<close>) and the status an
  application shows for it; \<open>Vm_Runs\<close> the \<open>refresh\<close> of \<open>repository.rs\<close> with everything it
  calls; \<open>Nat_Network\<close> subnets, resolvers and DHCP reservations; \<open>Ssh_Port\<close> the move of a guest's SSH port, with a
  small model of the shells that read its commands.

  \<^bold>\<open>Images\<close> (\<open>src/crates/image/src\<close>, \<open>platform/src/import\<close>). \<open>Import_Plan\<close> is \<open>plan.rs\<close>, with the contract of a
  reader that may answer short; \<open>Qcow_Image\<close> is the checked header and the cached reader of \<open>qcow2.rs\<close>, refined to
  the disk its tables describe; \<open>Disk_Import\<close> is \<open>copy.rs\<close>, \<open>drive.rs\<close> and \<open>import.rs\<close>, with the contract of a disk that
  keeps its blocks, interpreted on the unbuffered drive.

  \<^bold>\<open>This theory\<close> states the properties, each with an instance at concrete inputs where it has
  hypotheses. The sample definitions serve those instances only.

  \<^bold>\<open>Not modelled.\<close> Devices, windows, threads and sockets themselves, the start of a machine and its agent's recipes,
  payloads, downloads, the user interface and the build tools: they are effects on systems outside the program.
  The scratch buffers and diagnostic counters of the modelled structs are not kept. Payload archives and profiles
  are read by other packages. Constant-time comparison and the zeroing of secrets have no counterpart in the model.
\<close>

section \<open>Sample inputs\<close>

text \<open>A two-pixel screen, and a capture of it with a padded row, for the witnesses below.\<close>

definition sample_geometry :: geometry where
  "sample_geometry = \<lparr>geo_width = 2, geo_height = 1, geo_tile_size = Sixteen,
     geo_pixel_format = Bgra8888, geo_columns = 1, geo_rows = 1\<rparr>"

definition sample_config :: encoder_config where
  "sample_config = encoder_config_new sample_geometry"

definition sample_capture :: capture where
  "sample_capture = \<lparr>cap_pixels = [1, 2, 3, 4, 5, 6, 7, 8, 0], cap_stride = 9\<rparr>"

definition sample_cursor :: cursor_image where
  "sample_cursor = \<lparr>ci_pixels = [1, 2, 3, 4], ci_width = 1, ci_height = 1, ci_hotspot_x = 0,
     ci_hotspot_y = 0\<rparr>"

definition sample_encoder :: encoder where
  "sample_encoder = (encoder_new sample_config)\<lparr>enc_staging :=
     stage_frame None (set_frame (captured_pixels sample_geometry sample_capture)
       (enc_staging (encoder_new sample_config)))\<rparr>"

lemma sample_geometry_new: "geometry_new 2 1 Sixteen Bgra8888 = Ok sample_geometry"
  by (simp add: geometry_new_def sample_geometry_def MAX_DIMENSION_def div_ceil_def)

lemma sample_geometry_wf: "wf_geometry sample_geometry"
  using geometry_new_wf [OF sample_geometry_new] .

lemma sample_config_geometry: "cfg_geometry sample_config = sample_geometry"
  by (simp add: sample_config_def encoder_config_new_def)

lemma sample_capture_fits: "capture_fits sample_geometry sample_capture"
  by (simp add: capture_fits_def sample_geometry_def sample_capture_def)

lemma sample_encoder_wf: "wf_encoder (encoder_new sample_config)"
  by (rule wf_encoder_new) (simp add: sample_config_geometry sample_geometry_wf)

lemma sample_decoder_wf: "wf_decoder (decoder_new sample_geometry)"
  by (rule wf_decoder_new [OF sample_geometry_wf])

lemma sample_submit: "submit (encoder_new sample_config) sample_capture None = Ok sample_encoder"
  using submit_Ok [OF sample_encoder_wf, of sample_capture None] sample_capture_fits
  by (simp add: sample_encoder_def sample_config_geometry encoder_new_def Let_def sample_capture_def)

lemma sample_step:
  "codec_step (\<lambda>_ _ _. True) (encoder_new sample_config, decoder_new sample_geometry)
     (sample_encoder, decoder_new sample_geometry)"
  by (rule codec_step.capture [OF _ _ sample_submit]) (simp_all add: sample_capture_def)

lemma sample_honest_step:
  "codec_step honest_capture (encoder_new sample_config, decoder_new sample_geometry)
     (sample_encoder, decoder_new sample_geometry)"
  by (rule codec_step.capture [OF _ _ sample_submit])
    (simp_all add: sample_capture_def honest_capture_def hint_covers_def)

section \<open>The codec: what the viewer holds\<close>

text \<open>
  C1. Whatever captures, cursors and keyframe requests arrive, in whatever order, and
  whenever payloads are pulled: the viewer's frame is byte for byte the encoder's reference, the
  encoder answers the next pull without a panic, and the viewer accepts the payload and is
  again byte for byte at the encoder's new reference.
\<close>

theorem codec_in_sync:
  assumes "geometry_new w h t f = Ok g" "cfg_geometry c = g"
    and "(codec_step (\<lambda>_ _ _. True))\<^sup>*\<^sup>* (encoder_new c, decoder_new g) (e, d)"
  shows "dec_frame d = pixels_to_le (enc_reference e) \<and>
    (\<exists>p e'. next_payload e = Ok (p, e') \<and>
      (\<forall>q. p = Some q \<longrightarrow> (\<exists>damage d'. apply_payload q d = (Ok damage, d') \<and>
         dec_frame d' = pixels_to_le (enc_reference e'))))"
proof -
  have sync: "in_sync (e, d)"
    using reachable_in_sync [OF assms(3)] in_sync_new [of c] geometry_new_wf [OF assms(1)] assms(2)
    by simp
  then have "wf_encoder e" by (simp add: in_sync_def)
  then obtain p e' where "next_payload e = Ok (p, e')" by (rule next_payload_cases)
  then show ?thesis using payload_in_sync [OF sync] sync by (auto simp: in_sync_def)
qed

theorem codec_in_sync_witness:
  "(codec_step (\<lambda>_ _ _. True))\<^sup>*\<^sup>* (encoder_new sample_config, decoder_new sample_geometry)
     (sample_encoder, decoder_new sample_geometry) \<and>
   (\<exists>p e'. next_payload sample_encoder = Ok (p, e') \<and>
      (\<forall>q. p = Some q \<longrightarrow> (\<exists>damage d'. apply_payload q (decoder_new sample_geometry) = (Ok damage, d') \<and>
         dec_frame d' = pixels_to_le (enc_reference e'))))"
  using codec_in_sync [OF sample_geometry_new sample_config_geometry r_into_rtranclp [of "codec_step (\<lambda>_ _ _. True)", OF sample_step]]
    sample_step by blast

text \<open>
  C6. When every damage hint covers what really changed, and no capture
  is waiting, the viewer's frame is the last capture: nothing that was displaced before it could be
  sent is lost.
\<close>

theorem honest_hints_show_the_screen:
  assumes "geometry_new w h t f = Ok g" "cfg_geometry c = g"
    and "(codec_step honest_capture)\<^sup>*\<^sup>* (encoder_new c, decoder_new g) (e, d)"
    and "enc_has_reference e" "\<not> st_frame_pending (enc_staging e)"
  shows "dec_frame d = pixels_to_le (st_frame (enc_staging e))"
proof -
  have "in_sync (e, d)" "hint_tracks e"
    using reachable_hint_tracks [OF assms(3)] in_sync_new [of c] geometry_new_wf [OF assms(1)]
      assms(2) hint_tracks_new [of c] by simp_all
  then show ?thesis using hint_tracks_idle [of e] assms(4,5) by (simp add: in_sync_def)
qed

theorem honest_hints_show_the_screen_witness:
  "\<exists>e d. (codec_step honest_capture)\<^sup>*\<^sup>* (encoder_new sample_config, decoder_new sample_geometry) (e, d) \<and>
     enc_has_reference e \<and> \<not> st_frame_pending (enc_staging e) \<and>
     dec_frame d = [1, 2, 3, 4, 5, 6, 7, 8]"
proof -
  have px: "captured_pixels sample_geometry sample_capture = pixels_from_le [1, 2, 3, 4, 5, 6, 7, 8]"
    by (simp add: captured_pixels_def sample_geometry_def sample_capture_def)
  have kf: "keyframe_next sample_encoder" "wf_encoder sample_encoder"
    "st_frame (enc_staging sample_encoder) = captured_pixels sample_geometry sample_capture"
    using submit_wf [OF sample_encoder_wf _ _ sample_submit] sample_capture_fits
    by (auto simp: sample_encoder_def keyframe_next_def staging_defs encoder_new_def Let_def
        sample_config_geometry sample_capture_def)
  obtain bs e' where k: "next_payload sample_encoder =
      Ok (Some (Keyframe (write_header True (enc_geometry sample_encoder) @ bs)), e')"
    "enc_has_reference e'" "frame_step sample_encoder e'"
    using next_payload_keyframe [OF kf(2,1)] by metis
  obtain result d' where "apply_payload (Keyframe (write_header True (enc_geometry sample_encoder) @ bs))
      (decoder_new sample_geometry) = (result, d')" by force
  from codec_step.pull [OF k(1) this]
  have r: "(codec_step honest_capture)\<^sup>*\<^sup>* (encoder_new sample_config, decoder_new sample_geometry) (e', d')"
    using sample_honest_step by (meson converse_rtranclp_into_rtranclp r_into_rtranclp)
  have "\<not> st_frame_pending (enc_staging e')"
    "st_frame (enc_staging e') = pixels_from_le [1, 2, 3, 4, 5, 6, 7, 8]"
    using k(3) kf(3) px by (simp_all add: frame_step_def)
  moreover have "pixels_to_le (pixels_from_le [1, 2, 3, 4, 5, 6, 7, 8]) = [1, 2, 3, 4, 5, 6, 7, 8]"
    by (rule pixels_to_from_le [of _ 2]) simp
  ultimately show ?thesis
    using honest_hints_show_the_screen [OF sample_geometry_new sample_config_geometry r k(2)] r k(2)
    by auto
qed

text \<open>
  C7. However wrong the hints are, a screen that stays as it is has reached the
  reference, and with it the viewer, after \<open>refresh_interval\<close> captures: no tile can stay stale
  forever.
\<close>

theorem sweep_bounds_staleness:
  assumes "wf_encoder e" "0 < enc_refresh_interval e" "length fs = enc_refresh_interval e"
    and "\<forall>(frame, damage)\<in>set fs. capture_fits (enc_geometry e) frame \<and>
      length (cap_pixels frame) < usize_bound \<and> captured_pixels (enc_geometry e) frame = px"
  shows "\<exists>e'. show_frames e fs = Ok e' \<and> enc_reference e' = px"
  using sweep_repairs_static [OF assms] .

theorem sweep_bounds_staleness_witness:
  "\<exists>e'. show_frames (encoder_new (sample_config\<lparr>cfg_refresh_interval := 1\<rparr>))
       [(sample_capture, Some [])] = Ok e' \<and>
     enc_reference e' = captured_pixels sample_geometry sample_capture"
proof (rule sweep_bounds_staleness)
  have g: "cfg_geometry (sample_config\<lparr>cfg_refresh_interval := 1\<rparr>) = sample_geometry"
    by (simp add: sample_config_def encoder_config_new_def)
  then show "wf_encoder (encoder_new (sample_config\<lparr>cfg_refresh_interval := 1\<rparr>))"
    by (intro wf_encoder_new) (simp add: sample_geometry_wf)
  show "0 < enc_refresh_interval (encoder_new (sample_config\<lparr>cfg_refresh_interval := 1\<rparr>))"
    "length [(sample_capture, Some [])] =
       enc_refresh_interval (encoder_new (sample_config\<lparr>cfg_refresh_interval := 1\<rparr>))"
    by (simp_all add: encoder_new_def Let_def)
  show "\<forall>(frame, damage)\<in>set [(sample_capture, Some [])].
      capture_fits (enc_geometry (encoder_new (sample_config\<lparr>cfg_refresh_interval := 1\<rparr>))) frame \<and>
      length (cap_pixels frame) < usize_bound \<and>
      captured_pixels (enc_geometry (encoder_new (sample_config\<lparr>cfg_refresh_interval := 1\<rparr>))) frame =
        captured_pixels sample_geometry sample_capture"
    using sample_capture_fits g by (simp add: encoder_new_def Let_def sample_capture_def)
qed

text \<open>
  C24. A viewer that lost synchronisation, whatever its frame holds, is
  brought back by the keyframe it asks for: the next payload is that keyframe, the viewer
  accepts it, and the two ends are in step at the staged frame.
\<close>

theorem keyframe_request_recovers:
  assumes "wf_encoder e" "cursor_staged (enc_staging e)" "wf_decoder d"
    and "dec_geometry d = enc_geometry e"
    and "enc_has_reference e \<or> st_frame_pending (enc_staging e)"
  shows "\<exists>bs e' damage d'. next_payload (encoder_request_keyframe e) = Ok (Some (Keyframe bs), e') \<and>
    apply_keyframe d bs = (Ok damage, d') \<and> in_sync (e', d') \<and>
    dec_frame d' = pixels_to_le (st_frame (enc_staging e))"
  using keyframe_recovers [OF assms] .

theorem keyframe_request_recovers_witness:
  "\<exists>bs e' damage d'. next_payload (encoder_request_keyframe sample_encoder) = Ok (Some (Keyframe bs), e') \<and>
     apply_keyframe (decoder_new sample_geometry\<lparr>dec_frame := [9, 9, 9, 9, 9, 9, 9, 9]\<rparr>) bs =
       (Ok damage, d') \<and> in_sync (e', d') \<and>
     dec_frame d' = pixels_to_le (st_frame (enc_staging sample_encoder))"
proof (rule keyframe_request_recovers)
  show "wf_encoder sample_encoder"
    using submit_wf [OF sample_encoder_wf _ _ sample_submit] sample_capture_fits
    by (simp add: encoder_new_def Let_def sample_config_geometry sample_capture_def)
  show "cursor_staged (enc_staging sample_encoder)"
    by (simp add: cursor_staged_def sample_encoder_def staging_defs encoder_new_def Let_def)
  show "wf_decoder (decoder_new sample_geometry\<lparr>dec_frame := [9, 9, 9, 9, 9, 9, 9, 9]\<rparr>)"
    using sample_decoder_wf
    by (simp add: wf_decoder_def decoder_new_def frame_bytes_def pixel_count_def sample_geometry_def)
  show "dec_geometry (decoder_new sample_geometry\<lparr>dec_frame := [9, 9, 9, 9, 9, 9, 9, 9]\<rparr>) =
      enc_geometry sample_encoder"
    by (simp add: decoder_new_def sample_encoder_def encoder_new_def Let_def sample_config_geometry)
  show "enc_has_reference sample_encoder \<or> st_frame_pending (enc_staging sample_encoder)"
    by (simp add: sample_encoder_def stage_frame_def split: option.splits)
qed

section \<open>The codec: hostile input\<close>



text \<open>
  A delta, applied to the end or refused half-way, touches only pixels of the
  tiles it reports, and reports tiles of the grid in strictly increasing order, each once.
\<close>

theorem delta_damage_is_exact:
  assumes "wf_decoder d" "dec_has_frame d" "read_header payload (dec_geometry d) = Ok (False, body)"
    and "apply_delta d payload = (result, d')"
  shows "\<exists>is. dec_damage d' = map (tile_rect (dec_geometry d)) is \<and> sorted_wrt (<) is \<and>
    (\<forall>i\<in>set is. i < tile_count (dec_geometry d)) \<and>
    (\<forall>k<pixel_count (dec_geometry d).
       pixels_from_le (dec_frame d') ! k \<noteq> pixels_from_le (dec_frame d) ! k \<longrightarrow>
       tile_of (dec_geometry d) (k mod geo_width (dec_geometry d)) (k div geo_width (dec_geometry d))
         \<in> set is)"
proof -
  let ?g = "dec_geometry d"
  obtain frame where f: "dec_frame d = pixels_to_le frame" "length frame = pixel_count ?g"
    by (rule wf_decoder_frame [OF assms(1)])
  have g: "wf_geometry ?g" using assms(1) by (simp add: wf_decoder_def)
  obtain res frame' damage' where loop:
    "delta_loop ?g body 0 None (pixels_to_le frame) [] = (res, pixels_to_le frame', damage')"
    by (rule delta_loop_safe [OF g f(2) le0, of body None "[]"])
  have d': "dec_frame d' = pixels_to_le frame'" "dec_damage d' = damage'"
    using assms(2-4) loop f(1) by (auto simp: apply_delta_def Let_def split: outcome.splits)
  obtain js :: "u32 list" where js: "damage' = map (\<lambda>i. the (tile ?g (unat i))) js" "sorted_wrt (<) js"
    "\<forall>i\<in>set js. unat i < tile_count ?g"
    "\<forall>k<length frame. frame' ! k \<noteq> frame ! k \<longrightarrow>
       tile_of ?g (k mod geo_width ?g) (k div geo_width ?g) \<in> unat ` set js"
    using delta_loop_damage [OF g f(2) le0 loop, simplified] by blast
  moreover have "sorted_wrt (<) (map unat js)"
    unfolding sorted_wrt_map using js(2) by (rule sorted_wrt_mono_rel [rotated]) (simp add: word_less_nat_alt)
  ultimately show ?thesis
    using d' f by (intro exI [of _ "map unat js"]) (auto simp: tile_rect_def)
qed

theorem delta_damage_is_exact_witness:
  "\<exists>is. dec_damage (snd (apply_delta (decoder_new sample_geometry\<lparr>dec_has_frame := True\<rparr>)
      (write_header False sample_geometry @ [0, 0, 9, 9, 9, 9, 9, 9, 9, 9]))) =
    map (tile_rect sample_geometry) is \<and> sorted_wrt (<) is"
proof -
  let ?d = "decoder_new sample_geometry\<lparr>dec_has_frame := True\<rparr>"
  let ?p = "write_header False sample_geometry @ [0, 0, 9, 9, 9, 9, 9, 9, 9, 9]"
  have g: "dec_geometry ?d = sample_geometry" by (simp add: decoder_new_def)
  have "wf_decoder ?d" using sample_decoder_wf by (simp add: wf_decoder_def)
  moreover have "read_header ?p (dec_geometry ?d) = Ok (False, [0, 0, 9, 9, 9, 9, 9, 9, 9, 9])"
    unfolding g by (rule read_write_header [OF sample_geometry_wf])
  ultimately show ?thesis
    using delta_damage_is_exact [of ?d ?p _ "fst (apply_delta ?d ?p)" "snd (apply_delta ?d ?p)"]
    unfolding g by fastforce
qed



section \<open>The codec: its parts\<close>

text \<open>
  A damage rectangle selects exactly the tiles that hold one of its
  pixels, also where it hangs over the edge of the frame.
\<close>

theorem hint_reaches_exactly_its_tiles:
  assumes "wf_geometry g"
  shows "i \<in> set (rect_tiles g r) \<longleftrightarrow>
    (\<exists>x y. x < geo_width g \<and> y < geo_height g \<and> in_rect r x y \<and> tile_of g x y = i)"
  using set_rect_tiles [OF assms] .

theorem hint_reaches_exactly_its_tiles_witness:
  "0 \<in> set (rect_tiles sample_geometry \<lparr>rect_x = 1, rect_y = 0, rect_width = 4294967295, rect_height = 7\<rparr>)"
  unfolding hint_reaches_exactly_its_tiles [OF sample_geometry_wf]
  by (rule exI [of _ 1], rule exI [of _ 0]) (simp add: sample_geometry_def in_rect_def tile_of_def)

text \<open>
  The tiles of a geometry partition its frame: every pixel lies in
  exactly one tile, the one \<open>tile_of\<close> names, and every tile lies inside the frame.
\<close>

theorem tiles_partition_the_frame:
  assumes "geometry_new w h t f = Ok g"
  shows "(\<forall>x<w. \<forall>y<h. \<exists>!i. \<exists>r. tile g i = Some r \<and> in_rect r x y) \<and>
    (\<forall>i r. tile g i = Some r \<longrightarrow> 0 < rect_width r \<and> 0 < rect_height r \<and>
       rect_x r + rect_width r \<le> w \<and> rect_y r + rect_height r \<le> h)"
proof -
  have g: "wf_geometry g" and wh: "geo_width g = w" "geo_height g = h"
    using geometry_new_wf [OF assms] assms
    by (simp_all add: geometry_new_def Let_def split: if_splits) auto
  have "\<exists>!i. \<exists>r. tile g i = Some r \<and> in_rect r x y" if "x < w" "y < h" for x y
  proof -
    have "tile_of g x y < tile_count g" using tile_of_in_grid [OF g] that wh by simp
    then obtain r where r: "tile g (tile_of g x y) = Some r" using tile_eq_Some_iff [of g] by blast
    then have "in_rect r x y" using tile_rectD [OF g r, of x y] that wh by simp
    moreover have "i = tile_of g x y" if "tile g i = Some q" "in_rect q x y" for i q
      using tile_rectD [OF g that(1), of x y] that(2) by simp
    ultimately show ?thesis using r by blast
  qed
  moreover have "0 < rect_width r \<and> 0 < rect_height r \<and> rect_x r + rect_width r \<le> w \<and>
      rect_y r + rect_height r \<le> h" if "tile g i = Some r" for i r
    using tile_rect_shape [OF g that] wh by simp
  ultimately show ?thesis by blast
qed

theorem tiles_partition_the_frame_witness:
  "\<exists>!i. \<exists>r. tile sample_geometry i = Some r \<and> in_rect r 1 0"
  using tiles_partition_the_frame [OF sample_geometry_new] by simp

text \<open>
  The record the encoder writes for a tile, in whichever of the three methods
  is shortest, puts exactly the tile's pixels into a frame that holds what the difference was
  taken against, and is consumed to its last byte.
\<close>

theorem tile_record_round_trip:
  assumes "wf_geometry g" "tile g i = Some r" "length frame = pixel_count g"
    and "length px = rect_height r * rect_width r"
  shows "read_tile g (pixels_to_le frame)
      (write_tile px (Some (tile_pixels frame (geo_width g) r)) @ rest) r True =
    Ok (length (write_tile px (Some (tile_pixels frame (geo_width g) r))),
        pixels_to_le (paste frame (geo_width g) r px))"
  using tile_area [OF assms(1,2)] assms(4)
  by (intro read_write_tile [OF tile_fits [OF assms(1,2)] assms(3)]) simp_all

theorem tile_record_round_trip_witness:
  "read_tile sample_geometry (pixels_to_le [1, 2])
      (write_tile [3, 3] (Some [1, 2])) \<lparr>rect_x = 0, rect_y = 0, rect_width = 2, rect_height = 1\<rparr> True =
    Ok (length (write_tile [3, 3] (Some [1, 2])), pixels_to_le [3, 3])"
proof -
  let ?r = "\<lparr>rect_x = 0, rect_y = 0, rect_width = 2, rect_height = 1\<rparr>"
  have t: "tile sample_geometry 0 = Some ?r"
    by (simp add: tile_def tile_count_def sample_geometry_def Let_def)
  have "tile_pixels [1, 2] (geo_width sample_geometry) ?r = [1, 2]"
    "paste [1, 2] (geo_width sample_geometry) ?r [3, 3] = [3, 3]"
    by (simp_all add: tile_pixels_def paste_def in_rect_def sample_geometry_def upt_rec)
  then show ?thesis
    using tile_record_round_trip [OF sample_geometry_wf t, of "[1, 2]" "[3, 3]" "[]"]
    by (simp add: pixel_count_def sample_geometry_def)
qed

text \<open>
  Run-length coding: every pixel list is read back from its encoding, and decoding
  any byte string returns exactly the number of pixels asked for or an error, never a panic.
\<close>

theorem zrle_round_trip:
  "zrle_decode (zrle_encode px) (length px) = Ok px \<and> zrle_decode bs n \<noteq> Panic \<and>
   (\<forall>qx. zrle_decode bs n = Ok qx \<longrightarrow> length qx = n)"
  by (simp add: length_zrle_decode)

theorem zrle_round_trip_witness:
  "zrle_decode (zrle_encode [7, 7, 7, 1]) 4 = Ok [7, 7, 7, 1]"
  using zrle_round_trip [of "[7, 7, 7, 1]" "[]" 0] by (simp add: numeral_eq_Suc)

text \<open>
  A sequence of varints written back to back is read back in order, each at
  its minimal length of one to five bytes, and leaves the bytes after it.
\<close>

theorem varint_stream_round_trip:
  "read_seq varint_read (length vs) (concat (map varint_write vs) @ rest) = Ok (vs, rest) \<and>
   length (varint_write v) = varint_len v \<and> varint_read bs \<noteq> Panic"
  using varint.read_seq_concat [of vs rest] by (simp add: list_all_iff length_varint_write_eq)

text \<open>
  The cursor bitmaps that can be written are the ones within the limits, each
  is read back as it was, and every bitmap that is ever read is within the limits.
\<close>

theorem cursor_image_round_trip:
  "((\<exists>bs. write_image img = Ok bs) \<longleftrightarrow> valid_cursor_image img) \<and>
   (\<forall>bs. write_image img = Ok bs \<longrightarrow> read_image bs = Ok img) \<and>
   (\<forall>bs img'. read_image bs = Ok img' \<longrightarrow> valid_cursor_image img') \<and> read_image payload \<noteq> Panic"
  using write_image_Ok_iff read_write_image read_image_valid by auto

theorem cursor_image_round_trip_witness:
  "\<exists>bs. write_image sample_cursor = Ok bs \<and>
     read_image bs = Ok sample_cursor"
  using cursor_image_round_trip [of "sample_cursor"]
  by (auto simp: valid_cursor_image_def MAX_CURSOR_DIMENSION_def sample_cursor_def)

text \<open>
  Of any number of cursor bitmaps staged between two payloads the last is
  the one handed out, once; and the damage of every displaced frame stays in the hint.
\<close>

theorem staging_keeps_the_latest:
  "take_cursor_image (fold (\<lambda>b s. stage_cursor_image (set_cursor_image b s)) (bss @ [bs]) s) =
     (True, (stage_cursor_image (set_cursor_image bs s))\<lparr>st_cursor_image_pending := False\<rparr>) \<and>
   (hint_covers (st_hint (fold stage_frame ds s)) x y \<longleftrightarrow>
     list_ex (\<lambda>d. hint_covers d x y) ds \<or> hint_covers (st_hint s) x y)"
proof
  show "take_cursor_image (fold (\<lambda>b s. stage_cursor_image (set_cursor_image b s)) (bss @ [bs]) s) =
     (True, (stage_cursor_image (set_cursor_image bs s))\<lparr>st_cursor_image_pending := False\<rparr>)"
    unfolding cursor_image_slot.puts_collapse by (simp add: take_cursor_image_def stage_cursor_image_def)
qed (rule staged_hints_accumulate)


section \<open>The frame channel\<close>






text \<open>
  A channel never refuses its own records: at every geometry of at most 16382 tiles and
  between 49 thousand and 16.7 million pixels, whatever the encoder hands out next is within the
  cap that \<open>Limits\<close> has for that geometry, and a socket that takes it gets it.
\<close>

theorem frame_records_fit:
  assumes "channel_in_step (p, v)" "g = enc_geometry (pl_encoder p)"
    and "tile_count g \<le> 16382" "49155 \<le> pixel_count g" "pixel_count g \<le> 16760832"
  shows "\<exists>wrote p' s. write_next crc (limits_new (geo_width g) (geo_height g)) p empty_sink = (Ok wrote, p', s)"
proof -
  have "roomy g" using assms(3-5) by (simp add: roomy_def FRAME_PAYLOAD_CEILING_def FRAME_PAYLOAD_SLACK_def)
  then show ?thesis using write_next_total [OF assms(1)] assms(2) by simp
qed

theorem frame_records_fit_witness:
  "\<exists>g wrote p' s. geometry_new 1920 1080 SixtyFour Xrgb8888 = Ok g \<and>
    write_next (\<lambda>_. 0) (limits_new 1920 1080) (pipeline_new g 3 False) empty_sink = (Ok wrote, p', s)"
proof -
  let ?g = "\<lparr>geo_width = 1920, geo_height = 1080, geo_tile_size = SixtyFour, geo_pixel_format = Xrgb8888,
    geo_columns = 30, geo_rows = 17\<rparr>"
  have g: "geometry_new 1920 1080 SixtyFour Xrgb8888 = Ok ?g" by (simp add: geometry_new_def MAX_DIMENSION_def div_ceil_def)
  have "in_sync (encoder_new (encoder_config_new ?g), decoder_new ?g)"
    using in_sync_new [of "encoder_config_new ?g"] geometry_new_wf [OF g] by (simp add: encoder_config_new_def)
  then have "channel_in_step (pipeline_new ?g 3 False, \<lparr>vd_decoder = Some (decoder_new ?g), vd_last_frame = None, vd_hotspot_parts = []\<rparr>)"
    by (simp add: channel_in_step_def pipeline_new_def encoder_new_def Let_def)
  moreover have "?g = enc_geometry (pl_encoder (pipeline_new ?g 3 False))"
    by (simp add: pipeline_new_def encoder_new_def encoder_config_new_def Let_def)
  ultimately show ?thesis
    using frame_records_fit [of "pipeline_new ?g 3 False" _ ?g "\<lambda>_. 0"] g by (auto simp: tile_count_def pixel_count_def)
qed

text \<open>
  C21. Drawing the pointer into the frame does not spoil the damage hints. When the
  damage of a capture covers what changed on the primary plane, the hint that reaches the encoder
  covers what changed in the frame with the pointer drawn in, where it is now and where it was before; and outside
  the pointer the staged frame is the plane.
\<close>

theorem pointer_keeps_hints_honest:
  assumes "wf_encoder (pl_encoder p)" "hint_tracks (pl_encoder p)" "plane_tracks p plane"
    and "honest_plane (enc_geometry (pl_encoder p)) plane frame"
    and "\<And>c. pl_drawn_cursor p = Some c \<Longrightarrow> placement_fits (enc_geometry (pl_encoder p)) (dr_placement c)"
    and "submit_frame frame p = (Ok (), p')" "length (cf_pixels frame) < usize_bound - 1"
  shows "hint_tracks (pl_encoder p') \<and>
    plane_tracks p' (captured_pixels (enc_geometry (pl_encoder p)) (frame_capture frame))"
proof -
  obtain bs where bs: "submit (pl_encoder p) \<lparr>cap_pixels = bs, cap_stride = cf_stride frame\<rparr> (damage_hint p frame) = Ok (pl_encoder p')"
    "length bs < usize_bound - 1"
    "honest_capture (pl_encoder p) \<lparr>cap_pixels = bs, cap_stride = cf_stride frame\<rparr> (damage_hint p frame)"
    "plane_tracks p' (captured_pixels (enc_geometry (pl_encoder p)) (frame_capture frame))"
    using submit_frame_honest [OF assms(1,3,4,5,6,7)] by blast
  then show ?thesis using submit_hint_tracks [OF assms(1,2) bs(3,1)] by simp
qed

definition sample_pointer :: pipeline where
  "sample_pointer = (pipeline_new sample_geometry 1 False)\<lparr>pl_drawn_cursor := Some \<lparr>dr_pixels = [9, 9, 9, 255], dr_width = 1,
     dr_placement = \<lparr>pc_x = 1, pc_y = 0, pc_crop = \<lparr>rect_x = 0, rect_y = 0, rect_width = 1, rect_height = 1\<rparr>, pc_visible = True\<rparr>\<rparr>\<rparr>"

definition sample_plane :: captured_frame where
  "sample_plane = \<lparr>cf_height = 1, cf_stride = 8, cf_damage = Some [], cf_pixels = [0, 0, 0, 0, 0, 0, 0, 0]\<rparr>"

theorem pointer_keeps_hints_honest_witness:
  "\<exists>p'. submit_frame sample_plane sample_pointer = (Ok (), p') \<and> hint_tracks (pl_encoder p') \<and>
    plane_tracks p' (captured_pixels sample_geometry (frame_capture sample_plane)) \<and>
    st_frame (enc_staging (pl_encoder p')) \<noteq> captured_pixels sample_geometry (frame_capture sample_plane)"
proof -
  let ?p = sample_pointer
  have enc: "pl_encoder ?p = encoder_new sample_config" "enc_geometry (pl_encoder ?p) = sample_geometry"
    by (simp_all add: sample_pointer_def pipeline_new_def sample_config_def encoder_new_def encoder_config_new_def Let_def)
  have zero: "captured_pixels sample_geometry (frame_capture sample_plane) = [0, 0]"
    by (simp add: captured_pixels_def sample_geometry_def frame_capture_def sample_plane_def u32_from_le_def)
  let ?bs = "[0, 0, 0, 0, 9, 9, 9, 255] :: bytes"
  let ?c = "\<lparr>cap_pixels = ?bs, cap_stride = 8\<rparr>"
  have bs: "submitted_bytes ?p sample_plane = Ok ?bs"
    by (simp add: submitted_bytes_def sample_pointer_def pipeline_new_def pointer_now_def sample_plane_def composite_def
        get_range_def splice_def blend_def Let_def)
  have fits: "capture_fits sample_geometry ?c" by (simp add: capture_fits_def sample_geometry_def)
  obtain e where e: "submit (pl_encoder ?p) ?c (damage_hint ?p sample_plane) = Ok e"
    "st_frame (enc_staging e) = captured_pixels sample_geometry ?c"
    using submit_Ok [of "pl_encoder ?p" ?c "damage_hint ?p sample_plane"] sample_encoder_wf fits enc
    by (auto simp: stage_frame_def set_frame_def split: option.splits)
  let ?p' = "?p\<lparr>pl_pointer := pointer_now ?p, pl_encoder := e\<rparr>"
  have sub: "submit_frame sample_plane ?p = (Ok (), ?p')"
    using bs e(1) by (simp add: submit_frame_def sample_plane_def Let_def)
  have "plane_tracks ?p [0, 0]" "honest_plane (enc_geometry (pl_encoder ?p)) [0, 0] sample_plane"
    using zero enc by (auto simp: plane_tracks_def honest_plane_def sample_config_geometry encoder_new_def staging_new_def
        sample_geometry_def pixel_count_def less_2_cases_iff Let_def)
  moreover have "wf_encoder (pl_encoder ?p)" "hint_tracks (pl_encoder ?p)"
    using enc(1) sample_encoder_wf hint_tracks_new by simp_all
  moreover have "placement_fits (enc_geometry (pl_encoder ?p)) (dr_placement c)" if "pl_drawn_cursor ?p = Some c" for c
    using that enc(2) by (auto simp: sample_pointer_def placement_fits_def sample_geometry_def)
  ultimately have "hint_tracks (pl_encoder ?p') \<and> plane_tracks ?p' (captured_pixels sample_geometry (frame_capture sample_plane))"
    using pointer_keeps_hints_honest [of ?p "[0, 0]" sample_plane ?p'] sub enc(2) by (simp add: sample_plane_def)
  moreover have "captured_pixels sample_geometry ?c \<noteq> [0, 0]"
    by (simp add: captured_pixels_def sample_geometry_def u32_from_le_def)
  ultimately show ?thesis using sub e(2) zero by auto
qed

text \<open>
  A cursor plane is drawn where it lies: exactly the pixels of the plane that are on
  the frame are blended, each with the frame's pixel under it, and drawing does not panic. A plane
  at the most negative position is the exception: placing it negates a number that has no negation.
\<close>

theorem pointer_drawn_exactly:
  assumes "place px py width height fw fh = (Ok p :: (unit, _) outcome)" "fw * 4 \<le> stride" "stride * fh \<le> length frame"
    and "width * height * 4 \<le> length cursor" "width * height \<le> u32_max" "fh \<le> u32_max"
    and "row < height" "column < width"
  shows "(0 \<le> px + int column \<and> px + int column < int fw \<longleftrightarrow>
      rect_x (pc_crop p) \<le> column \<and> column < rect_x (pc_crop p) + rect_width (pc_crop p)) \<and>
    (0 \<le> py + int row \<and> py + int row < int fh \<longleftrightarrow>
      rect_y (pc_crop p) \<le> row \<and> row < rect_y (pc_crop p) + rect_height (pc_crop p)) \<and>
    (\<exists>out. composite frame stride cursor width p = (Ok out :: (unit, _) outcome) \<and> length out = length frame \<and>
      (\<forall>x y. int x = px + int column \<and> x < fw \<and> int y = py + int row \<and> y < fh \<longrightarrow>
        window out (y * stride + x * 4) = blend (window cursor ((row * width + column) * 4)) (window frame (y * stride + x * 4))))"
proof -
  obtain x0 cx vw y0 cy vh where ax: "axis px width fw = (Ok (x0, cx, vw) :: (unit, _) outcome)"
    "axis py height fh = (Ok (y0, cy, vh) :: (unit, _) outcome)"
    "p = \<lparr>pc_x = x0, pc_y = y0, pc_crop = \<lparr>rect_x = cx, rect_y = cy, rect_width = vw, rect_height = vh\<rparr>, pc_visible = (vw > 0 \<and> vh > 0)\<rparr>"
    using assms(1) by (auto simp: place_def)
  note covers = axis_covers [OF ax(1) assms(8)] axis_covers [OF ax(2) assms(7)]
  obtain out where out: "composite frame stride cursor width p = (Ok out :: (unit, _) outcome)" "length out = length frame"
    "\<forall>row < vh. \<forall>column < vw. window out (target_of stride p (row, column)) =
       blend (window cursor (source_of width p (row, column))) (window frame (target_of stride p (row, column)))"
    using composite_draws [OF assms(1-6)] ax(3) by auto
  have "window out (y * stride + x * 4) = blend (window cursor ((row * width + column) * 4)) (window frame (y * stride + x * 4))"
    if "int x = px + int column" "x < fw" "int y = py + int row" "y < fh" for x y
  proof -
    have c: "cx \<le> column" "column < cx + vw" "x0 + (column - cx) = x" using covers(1) that(1,2) by auto
    have r: "cy \<le> row" "row < cy + vh" "y0 + (row - cy) = y" using covers(2) that(3,4) by auto
    have "target_of stride p (row - cy, column - cx) = y * stride + x * 4"
      using c(3) r(3) ax(3) by (simp add: target_of_def flip: add_mult_distrib)
    moreover have "source_of width p (row - cy, column - cx) = (row * width + column) * 4"
      using c(1) r(1) ax(3) by (simp add: source_of_def)
    ultimately show ?thesis using out(3) c r by (metis add.commute less_diff_conv2)
  qed
  then show ?thesis using covers out(1,2) ax(3) by auto
qed

theorem pointer_drawn_exactly_witness:
  "\<exists>p out. place (- 1) 0 2 1 2 1 = (Ok p :: (unit, _) outcome) \<and>
    composite [1, 1, 1, 1, 2, 2, 2, 2] 8 [0, 0, 0, 0, 7, 7, 7, 255] 2 p = (Ok out :: (unit, _) outcome) \<and>
    window out 0 = [7, 7, 7, 255]"
proof -
  let ?p = "\<lparr>pc_x = 0, pc_y = 0, pc_crop = \<lparr>rect_x = 1, rect_y = 0, rect_width = 1, rect_height = 1\<rparr>, pc_visible = True\<rparr>"
  have p: "place (- 1) 0 2 1 2 1 = (Ok ?p :: (unit, _) outcome)" by (simp add: place_def axis_def Let_def)
  obtain out where out: "composite [1, 1, 1, 1, 2, 2, 2, 2] 8 [0, 0, 0, 0, 7, 7, 7, 255] 2 ?p = (Ok out :: (unit, _) outcome)"
    "\<forall>x y. int x = - 1 + int 1 \<and> x < 2 \<and> int y = 0 + int 0 \<and> y < 1 \<longrightarrow>
      window out (y * 8 + x * 4) = blend (window [0, 0, 0, 0, 7, 7, 7, 255] ((0 * 2 + 1) * 4)) (window [1, 1, 1, 1, 2, 2, 2, 2] (y * 8 + x * 4))"
    using pointer_drawn_exactly [OF p, of 8 "[1, 1, 1, 1, 2, 2, 2, 2]" "[0, 0, 0, 0, 7, 7, 7, 255]" 0 1] by auto
  then have "window out 0 = [7, 7, 7, 255]" by (force simp: window_def blend_def)
  then show ?thesis using p out(1) by blast
qed

text \<open>
  C32. Whatever records a guest sends on the frame channel, in whatever order and however
  malformed, the viewer does not panic, and what it holds stays well formed: a frame of exactly the bytes
  of its geometry, and hotspots that lie inside their bitmaps.
\<close>

theorem viewer_survives_any_record:
  "let v = fold (\<lambda>(h, payload) v. snd (video_apply w v h payload)) records video_new in
   wf_video v \<and> fst (video_apply w v h payload) \<noteq> Panic"
proof -
  have "wf_video v \<Longrightarrow> wf_video (fold (\<lambda>(h, payload) v. snd (video_apply w v h payload)) records v)" for v
  proof (induction records arbitrary: v)
    case (Cons r records)
    obtain h payload where r: "r = (h, payload)" by force
    have "wf_video (snd (video_apply w v h payload))"
      using video_apply_safe [OF Cons.prems, of w h payload] by (cases "video_apply w v h payload") simp
    then show ?case using Cons.IH r by simp
  qed simp
  then show ?thesis
    using wf_video_new video_apply_safe by (metis (no_types, lifting) prod.collapse)
qed

text \<open>
  C38. Whatever files a theme and the themes it inherits hold, the table that is sent has
  only entries that the viewer anchors, none twice, and at most 4 MiB of them; and it is cut into
  parts that together are the table, each within the budget or a single entry.
\<close>

theorem cursor_table_is_bounded:
  "let entries = cl_entries (collect_table fs dirs theme); parts = chunk_entries_within entries budget in
   list_all (\<lambda>e. is_sendable e \<and> hotspot_image e \<noteq> None) entries \<and> distinct entries \<and>
   table_size entries \<le> 4 * 1024 * 1024 \<and> concat parts = entries \<and>
   list_all (\<lambda>part. part \<noteq> [] \<and> (table_size part \<le> budget \<or> length part = 1)) parts"
  using collect_table_entries [of fs dirs theme, OF refl] sendable_is_anchored
    chunk_loop_concat [of budget "[]" 0] chunk_loop_bound [of 0 "[]" budget]
  by (auto simp: TABLE_BUDGET_def chunk_entries_within_def list_all_iff Let_def)

section \<open>The agent protocol\<close>

text \<open>
  Envelopes written one after the other are read back, all of
  them, in order and nothing else, however the transport cuts the bytes and however often it is
  interrupted, and the reader then sees a clean end of the connection. The codec of one envelope
  is generated code; what is relied on is that it decodes what it encoded.
\<close>

theorem agent_frames_survive_the_stream:
  fixes decode_env :: "bytes \<Rightarrow> ('d, 'env) outcome"
  assumes "\<forall>env\<in>set envs. decode_env (encode_env env) = Ok env"
    and "frame_write_many encode_env envs s = (Ok () :: ('d FrameError, unit) outcome, s')"
    and "sink_taken s = []" "live {Interrupted} (rd_events r)"
    and "stream_bytes (rd_events r) = sink_taken s'"
  shows "frame_read_many (Suc (length envs)) decode_env r = (envs, Err Closed)"
  using assms frame_write_many_Ok [OF assms(2)] by (intro frame_read_many_live) auto

theorem agent_frames_survive_the_stream_witness:
  "frame_read_many 3 (\<lambda>b. Ok b :: (unit, bytes) outcome)
     \<lparr>rd_clock = 0, rd_events = [(0, Data [2, 0]), (0, Fault Interrupted), (0, Data [0, 0, 7]), (1, Data [8, 1, 0, 0, 0, 9])]\<rparr> =
   ([[7, 8], [9]], Err Closed)"
proof -
  let ?r = "\<lparr>rd_clock = 0, rd_events = [(0, Data [2, 0]), (0, Fault Interrupted), (0, Data [0, 0, 7]),
    (1, Data [8, 1, 0, 0, 0, 9])]\<rparr>"
  let ?s = "\<lambda>bs. \<lparr>sink_taken = bs, sink_script = []\<rparr>"
  have w: "frame_write_many (\<lambda>b. b) [[7, 8], [9]] (?s []) =
      (Ok () :: (unit FrameError, unit) outcome, ?s [2, 0, 0, 0, 7, 8, 1, 0, 0, 0, 9])"
    by (simp add: frame_write_def frame_encode_eq frame_body_def flush_def MAX_BODY_LEN_def u32_to_le_def)
  have "frame_read_many (Suc (length [[7, 8], [9 :: u8]])) (\<lambda>b. Ok b :: (unit, bytes) outcome) ?r =
      ([[7, 8], [9]], Err Closed)"
    by (rule agent_frames_survive_the_stream [where encode_env = "\<lambda>b. b", OF _ w]) simp_all
  then show ?thesis by (simp add: numeral_3_eq_3)
qed

text \<open>
  A body over the cap is refused on both ends before it costs anything:
  the sender puts no byte on the wire, and a reader that is told of one returns the announced
  length with every byte behind the prefix still unread.
\<close>

theorem agent_oversized_refused:
  fixes decode_env :: "bytes \<Rightarrow> ('d, 'env) outcome"
  assumes "MAX_BODY_LEN < length (encode_env env)" "MAX_BODY_LEN < unat n"
    and "live {Interrupted} (rd_events r)" "stream_bytes (rd_events r) = u32_to_le n @ rest"
  shows "frame_write encode_env env s = (Err (FrameError.TooLarge (length (encode_env env))) :: ('d FrameError, unit) outcome, s) \<and>
    (\<exists>r'. frame_read decode_env r = (Err (FrameError.TooLarge (unat n)), r') \<and> stream_bytes (rd_events r') = rest)"
  using frame_write_TooLarge [of encode_env env s] assms(1) frame_read_TooLarge [OF assms(3,4,2), where decode_env = decode_env]
  by simp

theorem agent_oversized_refused_witness:
  "\<exists>r'. frame_read (\<lambda>b. Ok b :: (unit, bytes) outcome)
     \<lparr>rd_clock = 0, rd_events = [(0, Data [1, 0, 16, 0, 5])]\<rparr> = (Err (FrameError.TooLarge 1048577), r') \<and>
     stream_bytes (rd_events r') = [5]"
proof -
  have "u32_to_le 1048577 = [1, 0, 16, 0]" by (simp add: u32_to_le_def)
  then show ?thesis
    using agent_oversized_refused [where decode_env = "\<lambda>b. Ok b :: (unit, bytes) outcome" and n = 1048577 and
        encode_env = "\<lambda>_. replicate (Suc MAX_BODY_LEN) 0" and env = "()" and rest = "[5]" and
        r = "\<lparr>rd_clock = 0, rd_events = [(0, Data [1, 0, 16, 0, 5])]\<rparr>"]
    by (simp add: MAX_BODY_LEN_def)
qed

text \<open>
  Two builds that share a revision open a session on one: what the
  responder settles on is the newest both speak, the initiator accepts that and the list of
  capabilities, and the list has only capabilities both named. Two builds that share none do not.
\<close>

theorem agent_opening_agrees:
  "(\<forall>v. agent_negotiate_version mine theirs = Ok v \<longrightarrow>
      agent_confirm_version theirs v = Ok v \<and> speaks mine v \<and>
      (\<forall>u. speaks mine u \<and> speaks theirs u \<longrightarrow> speaks v u)) \<and>
   ((\<exists>v. speaks mine v \<and> speaks theirs v) \<longleftrightarrow> (\<exists>v. agent_negotiate_version mine theirs = Ok v)) \<and>
   (let agreed = agent_agreed_capabilities local (map agent_capability_wire offer) in
    agent_confirm_capabilities offer (map agent_capability_wire agreed) = Ok agreed \<and>
    set agreed = set local \<inter> set offer - {AgentUnspecified})"
proof -
  have "set (agent_agreed_capabilities local (map agent_capability_wire offer)) =
      set local \<inter> set offer - {AgentUnspecified}"
    using agent_capabilities.wire_inject by (auto simp: agent_agreed_capabilities_def)
  moreover have "agent_confirm_version theirs v = Ok v \<and> speaks mine v"
    if "agent_negotiate_version mine theirs = Ok v" for v
    using agent_revision.initiator_accepts agent_revision.negotiate_speaks that by blast
  ultimately show ?thesis
    using agent_revision.settles_newest [of mine theirs] agent_revision.opens_iff [of mine theirs]
      agent_capabilities.agreement
    by (simp add: Let_def)
qed

theorem agent_opening_agrees_witness:
  "agent_negotiate_version \<lparr>ver_major = 1, ver_minor = 9\<rparr> \<lparr>ver_major = 1, ver_minor = 4\<rparr> =
     Ok \<lparr>ver_major = 1, ver_minor = 4\<rparr> \<and>
   agent_confirm_version \<lparr>ver_major = 1, ver_minor = 4\<rparr> \<lparr>ver_major = 1, ver_minor = 4\<rparr> =
     Ok \<lparr>ver_major = 1, ver_minor = 4\<rparr> \<and>
   agent_confirm_capabilities [AgentGpu, AgentDisplay] (map agent_capability_wire
     (agent_agreed_capabilities [AgentDisplay] (map agent_capability_wire [AgentGpu, AgentDisplay]))) =
     Ok [AgentDisplay]"
  using agent_opening_agrees [of "\<lparr>ver_major = 1, ver_minor = 9\<rparr>" "\<lparr>ver_major = 1, ver_minor = 4\<rparr>"
      "[AgentDisplay]" "[AgentGpu, AgentDisplay]"]
  by (simp add: agent_negotiate_version_def agent_agreed_capabilities_def)

text \<open>
  The pauses between connection attempts double from one second to thirty
  and stay there; one authenticated connection starts the rhythm over; and no sequence of
  outcomes gives a pause outside those bounds.
\<close>

theorem agent_backoff_rhythm:
  "backoff_run backoff_new (as @ True # replicate n False) =
     backoff_run backoff_new as @ FIRST_DELAY # map (\<lambda>i. min (2 ^ i) 30) [0 ..< n] \<and>
   set (backoff_run backoff_new as) \<subseteq> {1 .. 30}"
proof -
  have run: "backoff_run b (as @ True # replicate n False) =
      backoff_run b as @ FIRST_DELAY # map (\<lambda>i. min (2 ^ i) 30) [0 ..< n]" for b
  proof (induction as arbitrary: b)
    case Nil
    have "bo_next (snd (backoff_after b True)) = min (2 ^ 0) MAX_DELAY"
      by (simp add: backoff_after_def FIRST_DELAY_def MAX_DELAY_def)
    from backoff_failures [OF this, of n] show ?case
      by (simp add: backoff_after_def MAX_DELAY_def)
  qed (auto split: prod.splits)
  show ?thesis
    using run [of backoff_new] backoff_bounds [of backoff_new]
    by (auto simp: backoff_new_def FIRST_DELAY_def MAX_DELAY_def)
qed

text \<open>
  The host's verdict on a guest is whether the two secrets give the same
  code over the nonce the host has drawn: the guest that holds the VM's secret passes, a secret
  whose code differs does not, and an answer recorded under another nonce does not pass unless
  the codes of the two nonces coincide.
\<close>

theorem agent_auth_verdict:
  assumes "length random = AUTH_LEN" "\<And>key msg. length (mac key msg) = AUTH_LEN"
  shows "auth_exchange mac host_secret guest_secret random =
      Ok (mac (secret_bytes host_secret) (AUTH_DOMAIN @ random) =
          mac (secret_bytes guest_secret) (AUTH_DOMAIN @ random)) \<and>
    auth_exchange mac host_secret host_secret random = Ok True \<and>
    (auth_verify mac host_secret (Nonce random) (auth_tag mac host_secret (Nonce earlier)) \<longleftrightarrow>
       mac (secret_bytes host_secret) (AUTH_DOMAIN @ random) =
       mac (secret_bytes host_secret) (AUTH_DOMAIN @ earlier))"
  using auth_exchange_verdict [of random mac] assms verify_replayed [of mac host_secret "Nonce random" "Nonce earlier"]
  by simp

theorem agent_auth_verdict_witness:
  "auth_exchange (\<lambda>k m. take 32 (k @ replicate 32 0)) (Secret [1]) (Secret [2]) (replicate 32 9) = Ok False \<and>
   auth_exchange (\<lambda>k m. take 32 (k @ replicate 32 0)) (Secret [1]) (Secret [1]) (replicate 32 9) = Ok True"
  using agent_auth_verdict [of "replicate 32 9" "\<lambda>k m. take 32 (k @ replicate 32 0)" "Secret [1]" "Secret [2]"]
  by (simp add: AUTH_LEN_def eval_nat_numeral)

text \<open>
  A secret written to a file as base64 is read back as it was,
  whatever white space an editor put around it; what is read is never of another length. Base64
  is library code: it decodes what it encoded, and its text has no white space.
\<close>

theorem agent_secret_survives_its_file:
  assumes "b64_decode (b64_encode (secret_bytes s)) = Some (secret_bytes s)"
    and "b64_encode (secret_bytes s) \<noteq> []" "list_all (\<lambda>c. \<not> is_whitespace c) (b64_encode (secret_bytes s))"
    and "length (secret_bytes s) = AUTH_LEN" "list_all is_whitespace pre" "list_all is_whitespace post"
  shows "secret_from_base64 b64_decode (pre @ secret_to_base64 b64_encode s @ post) = Ok s \<and>
    (\<forall>text t. secret_from_base64 b64_decode text = Ok t \<longrightarrow> length (secret_bytes t) = AUTH_LEN)"
  using secret_base64_padded [of b64_decode b64_encode s pre post, OF assms] secret_from_base64_length by blast

theorem agent_secret_survives_its_file_witness:
  "secret_from_base64 (\<lambda>t. Some (map (\<lambda>c. of_nat (c - 65)) t))
     ([32] @ secret_to_base64 (map (\<lambda>b. unat b + 65)) (Secret (replicate 32 7)) @ [13, 10]) =
   Ok (Secret (replicate 32 7))"
  using agent_secret_survives_its_file [of "\<lambda>t. Some (map (\<lambda>c. of_nat (c - 65)) t)" "map (\<lambda>b. unat b + 65)"
      "Secret (replicate 32 7)" "[32]" "[13, 10]"]
  by (simp add: AUTH_LEN_def is_whitespace_def list_all_iff)

section \<open>Display records\<close>

text \<open>
  A record that \<open>write\<close> put on the wire under a geometry's limits is
  read back by \<open>read\<close> under the same limits, header and payload, from any chunking, with
  interruptions and expired polls in between, as long as the bytes come before the record's
  completion time runs out; and the stream is left at the next record.
\<close>

theorem record_survives_the_stream:
  assumes "record_write (record_new crc c t n b g payload) (limits_new wd ht) s = (Ok (), s')"
    and "sink_taken s = []" "prompt transient r (sink_taken s' @ rest)" "begun (rd_events r)"
  shows "\<exists>r'. record_read crc (limits_new wd ht) r =
      (Ok (rec_header (record_new crc c t n b g payload), payload), r') \<and> prompt transient r' rest"
  using written_read_back [OF assms(1) [unfolded record_write_def record_new_def record_msg.simps] limits_new_bound, of "sink_taken s'"]
    assms(2-4) by (simp add: record_new_def)

definition sample_record :: record_msg where
  "sample_record = record_new (\<lambda>bs. of_nat (length bs)) ChInput 7 1 0 2 [10, 20, 30]"

theorem record_survives_the_stream_witness:
  "\<exists>r'. record_read (\<lambda>bs. of_nat (length bs)) (limits_new 800 600)
     \<lparr>rd_clock = 0, rd_events = [(5, Data (take 9 (header_encode (rec_header sample_record)))), (9, Fault TimedOut),
        (1, Data (drop 9 (header_encode (rec_header sample_record)) @ [10])), (0, Fault Interrupted), (0, Data [20, 30])]\<rparr> =
     (Ok (rec_header sample_record, [10, 20, 30]), r')"
proof -
  let ?r = "\<lparr>rd_clock = 0, rd_events = [(5, Data (take 9 (header_encode (rec_header sample_record)))), (9, Fault TimedOut),
        (1, Data (drop 9 (header_encode (rec_header sample_record)) @ [10])), (0, Fault Interrupted), (0, Data [20, 30])]\<rparr>"
  let ?b = "header_encode (rec_header sample_record)"
  have w: "record_write (record_new (\<lambda>bs. of_nat (length bs)) ChInput 7 1 0 2 [10, 20, 30]) (limits_new 800 600)
      \<lparr>sink_taken = [], sink_script = []\<rparr> = (Ok (), \<lparr>sink_taken = ?b @ [10, 20, 30], sink_script = []\<rparr>)"
    by (simp add: sample_record_def record_write_def record_new_def header_for_payload_def write_payload_def
        flush_def INPUT_MAX_PAYLOAD_def Let_def)
  have "take 9 ?b @ drop 9 ?b @ [10] @ [20, 30] = ?b @ [10, 20, 30]" by (simp flip: append_assoc)
  then have "prompt {Interrupted, TimedOut, WouldBlock} ?r ((?b @ [10, 20, 30]) @ [])"
    using length_header_encode [of "rec_header sample_record"]
    by (auto simp: prompt_def elapsed_def RECORD_COMPLETION_def simp del: length_header_encode)
  from record_survives_the_stream [OF w, of "{Interrupted, TimedOut, WouldBlock}" ?r "[]"] this
  show ?thesis by (auto simp: sample_record_def)
qed

text \<open>
  A header longer than this build's, as a later minor of the protocol
  would send it, is read as the fields this build knows, and the rest is skipped: the payload
  behind it and the stream behind the record are where they belong.
\<close>

theorem newer_minor_header_skipped:
  assumes "prompt transient r (extended_header h extra @ extra @ payload @ rest)" "begun (rd_events r)"
    and "length extra \<le> 231" "unat (hd_length h) = length payload" "hd_checksum h = crc payload"
    and "length payload \<le> for_channel l (hd_channel h)"
  shows "\<exists>r'. record_read crc l r = (Ok (h, payload), r') \<and> prompt transient r' rest"
  using assms by (rule record_read_prompt)

theorem newer_minor_header_skipped_witness:
  "\<exists>r'. record_read (\<lambda>bs. of_nat (length bs)) (limits_new 800 600) \<lparr>rd_clock = 0,
     rd_events = [(0, Data (extended_header (rec_header sample_record) [9, 9] @ [9, 9] @ [10, 20, 30]))]\<rparr> =
     (Ok (rec_header sample_record, [10, 20, 30]), r')"
proof -
  let ?r = "\<lparr>rd_clock = 0, rd_events = [(0, Data (extended_header (rec_header sample_record) [9, 9] @ [9, 9] @ [10, 20, 30]))]\<rparr>"
  have "prompt {} ?r (extended_header (rec_header sample_record) [9, 9] @ [9, 9] @ [10, 20, 30] @ [])"
    by (simp add: prompt_def elapsed_def RECORD_COMPLETION_def)
  from newer_minor_header_skipped [OF this, of "\<lambda>bs. of_nat (length bs)" "limits_new 800 600"] show ?thesis
    by (auto simp: sample_record_def record_new_def header_for_payload_def INPUT_MAX_PAYLOAD_def)
qed

text \<open>
  Whatever a peer sends, and however, \<open>read\<close> does not panic, and a record
  it returns has the length its header announced, a length within the channel's cap and the
  checksum its header carries. Every cap is at most 64 MiB, for every geometry.
\<close>

theorem record_read_is_guarded:
  "fst (record_read crc l r) \<noteq> Panic \<and>
   (\<forall>h payload r'. record_read crc l r = (Ok (h, payload), r') \<longrightarrow>
      length payload = unat (hd_length h) \<and> crc payload = hd_checksum h \<and>
      length payload \<le> for_channel l (hd_channel h)) \<and>
   for_channel (limits_new wd ht) c \<le> 64 * 1024 * 1024"
proof -
  have "fst (record_read crc l r) \<noteq> Panic"
    using record_read_not_Panic [of crc l r] by (cases "record_read crc l r") auto
  then show ?thesis
    using record_read_sound [of crc l r] for_channel_bound [OF limits_new_bound, of wd ht c]
    by (auto simp: FRAME_PAYLOAD_CEILING_def)
qed

theorem record_read_is_guarded_witness:
  "fst (record_read (\<lambda>_. 0) (limits_new 0 0) \<lparr>rd_clock = 0, rd_events = [(0, Data [23])]\<rparr>) \<noteq> Panic \<and>
   for_channel (limits_new 4294967295 4294967295) ChFrame \<le> 64 * 1024 * 1024"
  using record_read_is_guarded [of "\<lambda>_. 0" "limits_new 0 0" "\<lparr>rd_clock = 0, rd_events = [(0, Data [23])]\<rparr>"
      4294967295 4294967295 ChFrame] by simp

text \<open>
  A payload over its channel's cap is refused on both ends before it
  costs anything: nothing of it is written, and a reader that is told of one has not read, nor
  made room for, a byte behind the header. A payload too long for the 32-bit length field is
  among them: the field saturates and is over every cap.
\<close>

theorem record_oversized_refused:
  assumes "for_channel (limits_new wd ht) c < length payload"
    and "for_channel (limits_new wd ht) (hd_channel h) < unat (hd_length h)"
    and "prompt transient r (extended_header h extra @ rest)" "begun (rd_events r)" "length extra \<le> 231"
  shows "record_write (record_new crc c t n b g payload) (limits_new wd ht) s =
      (Err (RecordTooLarge c (min (length payload) 4294967295) (for_channel (limits_new wd ht) c)), s) \<and>
    (\<exists>r'. record_read crc (limits_new wd ht) r = (Err (RecordTooLarge (hd_channel h) (unat (hd_length h))
        (for_channel (limits_new wd ht) (hd_channel h))), r') \<and> prompt transient r' rest)"
proof -
  let ?h = "header_for_payload crc c t n b g payload"
  have len: "unat (hd_length ?h) = min (length payload) 4294967295" "hd_channel ?h = c"
    using header_length_saturates [of crc c t n b g payload] by (simp_all add: header_for_payload_def)
  have "for_channel (limits_new wd ht) c < unat (hd_length ?h)"
    using assms(1) for_channel_bound [OF limits_new_bound, of wd ht c] len(1)
    by (simp add: FRAME_PAYLOAD_CEILING_def)
  then show ?thesis
    using record_read_oversized [OF assms(3,4,5,2), of crc] len
      write_payload_oversized [of "limits_new wd ht" ?h payload s]
    by (simp add: record_write_def record_new_def)
qed

theorem record_oversized_refused_witness:
  "\<exists>r'. record_read (\<lambda>_. 0) (limits_new 0 0) \<lparr>rd_clock = 0, rd_events = [(0, Data (header_encode
      \<lparr>hd_channel = ChInput, hd_message_type = 1, hd_length = 4097, hd_sequence = 0, hd_base = 0,
       hd_checksum = 0, hd_generation = 0\<rparr> @ [5]))]\<rparr> = (Err (RecordTooLarge ChInput 4097 4096), r')"
proof -
  let ?h = "\<lparr>hd_channel = ChInput, hd_message_type = 1, hd_length = 4097, hd_sequence = 0, hd_base = 0,
       hd_checksum = 0, hd_generation = 0\<rparr>"
  let ?r = "\<lparr>rd_clock = 0, rd_events = [(0, Data (header_encode ?h @ [5]))]\<rparr>"
  have p: "prompt {} ?r (extended_header ?h [] @ [5])"
    by (simp add: prompt_def elapsed_def RECORD_COMPLETION_def extended_header_nil)
  show ?thesis
    using record_oversized_refused [OF _ _ p, of 0 0 ChInput "replicate 5000 0" "\<lambda>_. 0" 0 0 0 0
      "\<lparr>sink_taken = [], sink_script = []\<rparr>"]
    by (auto simp: INPUT_MAX_PAYLOAD_def)
qed

text \<open>
  A peer that stops in the middle of a record does not hold the reader:
  once five seconds have passed the read ends with a timeout, at the latest at the poll after
  the deadline.
\<close>

theorem stalled_record_given_up:
  assumes "0 < n" "\<forall>(t, ev)\<in>set (rd_events r). ev = Fault TimedOut \<and> t \<le> poll"
    and "5000 \<le> elapsed (rd_events r)"
  shows "\<exists>r'. fill n r = (Err (RecordIo TimedOut), r') \<and> rd_clock r' < rd_clock r + 5000 + poll"
  unfolding fill_def RECORD_COMPLETION_def
  by (rule fill_until_stalled [OF assms(1) _ refl]) (use assms(2,3) in auto)

theorem stalled_record_given_up_witness:
  "\<exists>r'. fill 10 \<lparr>rd_clock = 3, rd_events = replicate 6 (1000, Fault TimedOut)\<rparr> = (Err (RecordIo TimedOut), r') \<and>
     rd_clock r' < 6003"
  using stalled_record_given_up [of 10 "\<lparr>rd_clock = 3, rd_events = replicate 6 (1000, Fault TimedOut)\<rparr>" 1000]
  by (simp add: elapsed_def eval_nat_numeral)

section \<open>The display session\<close>

text \<open>
  Two builds of the display protocol that share a revision open a session
  on the newest one both speak. The guest's list of capabilities, cut to that revision, is
  accepted by the host that made the offer, who cuts it again and changes nothing; no capability
  is in it that the revision does not have, or that one of the ends did not name, and a file
  clipboard never comes without a clipboard.
\<close>

theorem display_opening_agrees:
  fixes local offer :: "Capability list" and v :: ProtocolVersion
  assumes "display_negotiate_version mine theirs = Ok v" "ver_major v = 1"
  defines "cs \<equiv> capabilities_at v (display_agreed_capabilities local (map capability_wire offer))"
  shows "display_confirm_version theirs v = Ok v \<and> speaks mine v \<and>
    (\<forall>u. speaks mine u \<and> speaks theirs u \<longrightarrow> speaks v u) \<and>
    display_confirm_capabilities offer (map capability_wire cs) = Ok cs \<and> capabilities_at v cs = cs \<and>
    (\<forall>c\<in>set cs. c \<in> set local \<and> c \<in> set offer \<and> introduced_in c \<le> ver_minor v) \<and>
    (FileClipboard \<in> set cs \<longrightarrow> Clipboard \<in> set cs)"
proof -
  have sub: "set cs \<subseteq> set (display_agreed_capabilities local (map capability_wire offer))"
    unfolding cs_def by (rule set_capabilities_at_subset)
  have "c \<in> set local \<and> c \<in> set offer \<and> introduced_in c \<le> ver_minor v" if "c \<in> set cs" for c
    using display_capabilities.agreed_sound [of c local "map capability_wire offer"] that sub
      set_capabilities_at [OF assms(2)] display_capabilities.wire_inject unfolding cs_def by fastforce
  moreover have "capabilities_at v cs = cs"
    unfolding cs_def by (auto simp: capabilities_at_def Let_def intro: filter_cong)
  ultimately show ?thesis
    using display_revision.initiator_accepts [OF assms(1)] display_revision.negotiate_speaks [OF assms(1)]
      display_revision.settles_newest [OF assms(1)] display_capabilities.sublist_confirmed [OF sub]
      file_clipboard_needs_clipboard [of v local "map capability_wire offer"]
    unfolding cs_def by blast
qed

theorem display_opening_agrees_witness:
  "display_confirm_capabilities [Clipboard, FileClipboard, CursorHotspots] (map capability_wire
     (capabilities_at \<lparr>ver_major = 1, ver_minor = 4\<rparr> (display_agreed_capabilities [Clipboard, FileClipboard, CursorHotspots]
       (map capability_wire [Clipboard, FileClipboard, CursorHotspots])))) = Ok [Clipboard, FileClipboard]"
  using display_opening_agrees [of "\<lparr>ver_major = 1, ver_minor = 5\<rparr>" "\<lparr>ver_major = 1, ver_minor = 4\<rparr>"
      "\<lparr>ver_major = 1, ver_minor = 4\<rparr>" "[Clipboard, FileClipboard, CursorHotspots]" "[Clipboard, FileClipboard, CursorHotspots]"]
  by (simp add: display_negotiate_version_def capabilities_at_def display_agreed_capabilities_def)

text \<open>
  A codec, a set of primitives and two settings for the witnesses below: fields laid end to end,
  and codes that keep the head of what they are taken over.
\<close>

definition sample_offer :: offer where
  "sample_offer = \<lparr>of_capabilities = [CursorStream, Clipboard, FileClipboard], of_mode = Auto,
     of_width = 1920, of_height = 1080, of_tile_size = 64\<rparr>"

definition sample_support :: support where
  "sample_support = \<lparr>su_capabilities = [Clipboard, Audio], su_modes = [Desktop], su_tile_sizes = [16, 32],
     su_width = 1280, su_height = 720\<rparr>"

definition sample_session_id :: bytes where "sample_session_id = replicate 16 1"
definition sample_host_nonce :: bytes where "sample_host_nonce = replicate 32 2"
definition sample_guest_nonce :: bytes where "sample_guest_nonce = replicate 32 3"

definition sample_crypto :: crypto where
  "sample_crypto = \<lparr>hkdf = \<lambda>salt secret info. secret, hkdf_expand = \<lambda>key info. info,
     hmac = \<lambda>key message. take 32 (message @ replicate 32 0), sha256 = \<lambda>bs. bs, crc32c = \<lambda>bs. 0\<rparr>"

definition sample_wire :: wire where
  "sample_wire = \<lparr>enc_client_hello = \<lambda>_. [1],
     dec_client_hello = \<lambda>_. Some (offer_hello sample_offer sample_session_id sample_host_nonce),
     enc_server_hello = \<lambda>_. [2],
     dec_server_hello = \<lambda>_. Some (guest_answer sample_support DISPLAY_CURRENT_VERSION [Clipboard] sample_guest_nonce),
     enc_auth = \<lambda>tag. tag, dec_auth = Some,
     enc_channel_hello = \<lambda>m. u32_to_le (chh_generation m),
     dec_channel_hello = \<lambda>bs. Some \<lparr>chh_session_id = sample_session_id, chh_channel = 2,
       chh_generation = u32_from_le (bs ! 0) (bs ! 1) (bs ! 2) (bs ! 3), chh_nonce = sample_host_nonce\<rparr>,
     enc_channel_ack = \<lambda>m. ack_nonce m @ ack_tag m,
     dec_channel_ack = \<lambda>bs. Some \<lparr>ack_nonce = take 32 bs, ack_tag = drop 32 bs\<rparr>\<rparr>"

lemma sample_auth_decodes: "decodes (enc_auth sample_wire) (dec_auth sample_wire) tag"
  by (simp add: decodes_def sample_wire_def)

lemma sample_control_tag_length: "length (control_tag sample_crypto key role hash) = TAG_LEN"
  by (simp add: control_tag_def sample_crypto_def TAG_LEN_def)

lemma sample_channel_tag_length: "length (channel_tag sample_crypto key role channel h g) = TAG_LEN"
  by (simp add: channel_tag_def sample_crypto_def TAG_LEN_def)

lemma sample_widths: "length sample_session_id = SESSION_ID_LEN" "length sample_host_nonce = NONCE_LEN"
    "length sample_guest_nonce = NONCE_LEN"
  by (simp_all add: sample_session_id_def sample_host_nonce_def sample_guest_nonce_def SESSION_ID_LEN_def
      NONCE_LEN_def)

lemma sample_agreed:
  "display_agreed_capabilities (su_capabilities sample_support) (map capability_wire (of_capabilities sample_offer)) =
     [Clipboard]"
  by (simp add: display_agreed_capabilities_def sample_offer_def sample_support_def)

lemma sample_hello_decodes:
  "decodes (enc_client_hello sample_wire) (dec_client_hello sample_wire)
     (offer_hello sample_offer sample_session_id sample_host_nonce)"
  "decodes (enc_server_hello sample_wire) (dec_server_hello sample_wire)
     (guest_answer sample_support DISPLAY_CURRENT_VERSION [Clipboard] sample_guest_nonce)"
  by (simp_all add: decodes_def sample_wire_def)

lemma sample_resolved:
  "resolve_mode (of_mode sample_offer) (su_modes sample_support) = Ok Desktop"
  "resolve_tile_size (of_tile_size sample_offer) (su_tile_sizes sample_support) = Ok 32"
  by (simp_all add: sample_offer_def sample_support_def resolve_mode_def resolve_tile_size_def)

definition sample_established :: "Role \<Rightarrow> session" where
  "sample_established role = (established_host \<lparr>ho_session_id = sample_session_id,
     ho_negotiated = settled_on sample_offer sample_support Desktop 32, ho_frame_key = [1], ho_input_key = [2],
     ho_clipboard_key = [3], ho_audio_key = [4], ho_control_sequence = 2\<rparr>)\<lparr>ss_role := role\<rparr>"

lemma sample_established_sel [simp]:
  "ss_state (sample_established role) = Established" "ss_role (sample_established role) = role"
  "ss_session_id (sample_established role) = sample_session_id" "length (ss_channels (sample_established role)) = 4"
  "ss_negotiated (sample_established role) \<noteq> None"
  "established_channel_key cr (sample_established role) 0 ChFrame = Ok [1]"
  "established_channel_key cr (sample_established role) 1 ChInput = Ok [2]"
  by (simp_all add: sample_established_def established_host_def established_channel_key_def)

text \<open>
  C3. The four records of the control handshake, run between a host and a guest
  with the VM's secret, bring both to Established with the same revision, capabilities, mode,
  geometry and tile size, the same session id, session key and transcript hash, and so with the
  same key for every channel. This needs a guest that supports some mode and tile size the host
  can settle for, messages that decode as encoded and codes of 32 bytes, and nothing else.
\<close>

theorem handshake_agrees:
  fixes offer support secret session_id host_nonce guest_nonce cr w
  defines "t \<equiv> hello_transcript w offer support session_id host_nonce guest_nonce"
  defines "hash \<equiv> transcript_finish cr t"
  defines "key \<equiv> session_key cr secret session_id host_nonce guest_nonce"
  defines "host \<equiv> session_host cr w secret offer session_id host_nonce"
  assumes "decodes (enc_client_hello w) (dec_client_hello w) (offer_hello offer session_id host_nonce)"
    and "decodes (enc_server_hello w) (dec_server_hello w)
      (guest_answer support DISPLAY_CURRENT_VERSION
        (display_agreed_capabilities (su_capabilities support)
          (map capability_wire (of_capabilities offer))) guest_nonce)"
    and "\<And>role. decodes (enc_auth w) (dec_auth w) (control_tag cr key role hash)"
    and "\<And>role. length (control_tag cr key role hash) = TAG_LEN"
    and "length session_id = SESSION_ID_LEN" "length host_nonce = NONCE_LEN" "length guest_nonce = NONCE_LEN"
    and "resolve_mode (of_mode offer) (su_modes support) = Ok mode"
    and "resolve_tile_size (of_tile_size offer) (su_tile_sizes support) = Ok tile_size"
  shows "\<exists>h g. control_handshake cr w (fst host) (snd host) (session_guest secret support guest_nonce) = Ok (h, g) \<and>
    ss_state h = Established \<and> ss_state g = Established \<and>
    ss_negotiated h = Some (settled_on offer support mode tile_size) \<and> ss_negotiated g = ss_negotiated h \<and>
    ss_session_id g = ss_session_id h \<and> ss_session_key h = Some key \<and> ss_session_key g = Some key \<and>
    ss_transcript_hash g = ss_transcript_hash h \<and>
    (\<forall>channel. derive_channel_key cr g channel = derive_channel_key cr h channel) \<and>
    (\<forall>channel. channel \<noteq> ChControl \<longrightarrow> derive_channel_key cr h channel \<noteq> None)"
proof -
  obtain h g where "control_handshake cr w (fst host) (snd host) (session_guest secret support guest_nonce) = Ok (h, g)"
    "shares cr t session_id key hash (settled_on offer support mode tile_size) h"
    "shares cr t session_id key hash (settled_on offer support mode tile_size) g"
    using handshake_completes [where cr = cr and w = w and secret = secret] assms by blast
  then show ?thesis by (auto simp: shares_def derive_channel_key_eq)
qed

theorem handshake_agrees_witness:
  "\<exists>h g. control_handshake sample_crypto sample_wire
      (fst (session_host sample_crypto sample_wire [7] sample_offer sample_session_id sample_host_nonce))
      (snd (session_host sample_crypto sample_wire [7] sample_offer sample_session_id sample_host_nonce))
      (session_guest [7] sample_support sample_guest_nonce) = Ok (h, g) \<and>
    ss_negotiated h = Some (settled_on sample_offer sample_support Desktop 32) \<and> ss_negotiated g = ss_negotiated h"
proof -
  have reply: "decodes (enc_server_hello sample_wire) (dec_server_hello sample_wire)
      (guest_answer sample_support DISPLAY_CURRENT_VERSION
        (display_agreed_capabilities (su_capabilities sample_support)
          (map capability_wire (of_capabilities sample_offer))) sample_guest_nonce)"
    unfolding sample_agreed by (rule sample_hello_decodes(2))
  from handshake_agrees [OF sample_hello_decodes(1) reply sample_auth_decodes sample_control_tag_length
      sample_widths sample_resolved, of "[7]"]
  show ?thesis by blast
qed

text \<open>
  C4. A host that accepts the guest's proof received what the guest sent and was
  heard as it spoke, although both hellos crossed a wire anyone could write to: the hello the
  guest answered is the host's, the answer the host read is the guest's, and the agreement and
  the keys it establishes are the ones the guest holds. The hypotheses exclude collisions of the
  two codes and of the two transcripts of this exchange, and nothing more.
\<close>

theorem downgrade_detected:
  fixes offer session_id host_nonce cr w secret support guest_nonce
  defines "sent \<equiv> enc_client_hello w (offer_hello offer session_id host_nonce)"
  assumes "on_client_hello cr w (session_guest secret support guest_nonce) received = (Ok out, g)"
    and "out_reply out = Some answer" "ss_pending_auth g = Some proof_record"
    and "on_server_hello cr w (fst (session_host cr w secret offer session_id host_nonce)) heard = (Ok out', h)"
    and "on_server_auth cr w h (record_msg.rec_payload proof_record) = (Ok out'', h')"
    and "ss_session_key g = Some kg" "ss_transcript_hash g = Some tg"
    and "ss_session_key h = Some kh" "ss_transcript_hash h = Some th"
    and "hmac cr kh (role_label Guest @ th) = hmac cr kg (role_label Guest @ tg) \<Longrightarrow>
      role_label Guest @ th = role_label Guest @ tg"
    and "sha256 cr (transcript_record (transcript_record transcript_new sent) heard) =
        sha256 cr (transcript_record (transcript_record transcript_new received) (record_msg.rec_payload answer)) \<Longrightarrow>
      transcript_record (transcript_record transcript_new sent) heard =
        transcript_record (transcript_record transcript_new received) (record_msg.rec_payload answer)"
    and "length sent \<le> 4294967295" "length heard \<le> 4294967295" "length received \<le> 4294967295"
      "length (record_msg.rec_payload answer) \<le> 4294967295"
    and "decodes (enc_client_hello w) (dec_client_hello w) (offer_hello offer session_id host_nonce)"
    and "decodes (enc_server_hello w) (dec_server_hello w)
      (guest_answer support DISPLAY_CURRENT_VERSION
        (display_agreed_capabilities (su_capabilities support)
          (map capability_wire (of_capabilities offer))) guest_nonce)"
    and "decodes (enc_auth w) (dec_auth w) (control_tag cr kg Guest tg)"
  shows "received = sent \<and> heard = record_msg.rec_payload answer \<and> ss_state h' = Established \<and>
    ss_negotiated h' = ss_pending g \<and> ss_session_id h' = ss_session_id g \<and>
    ss_session_key h' = ss_session_key g \<and> ss_transcript_hash h' = ss_transcript_hash g"
proof -
  have same: "received = sent" "heard = record_msg.rec_payload answer"
    using accepted_proof_binds_hellos [OF assms(2,3,4,5,6,19,7-10)] assms(1,11-16) by blast+
  have "ss_pending h = ss_pending g \<and> ss_session_key h = ss_session_key g \<and>
      ss_transcript_hash h = ss_transcript_hash g \<and> ss_session_id h = ss_session_id g"
    using same_hellos_same_agreement [OF _ _ assms(3,17,18)] assms(2,5) same sent_def by blast
  then show ?thesis using same on_server_auth_Ok [OF assms(6,10,9)] assms(9,10) by simp
qed

theorem downgrade_detected_witness:
  "\<exists>out g answer proof_record out' h out'' h'.
     on_client_hello sample_crypto sample_wire (session_guest [7] sample_support sample_guest_nonce) [1] = (Ok out, g) \<and>
     out_reply out = Some answer \<and> ss_pending_auth g = Some proof_record \<and>
     on_server_hello sample_crypto sample_wire
       (fst (session_host sample_crypto sample_wire [7] sample_offer sample_session_id sample_host_nonce)) [2] = (Ok out', h) \<and>
     on_server_auth sample_crypto sample_wire h (record_msg.rec_payload proof_record) = (Ok out'', h') \<and>
     [2] = record_msg.rec_payload answer \<and> ss_negotiated h' = ss_pending g"
proof -
  have reply: "decodes (enc_server_hello sample_wire) (dec_server_hello sample_wire)
      (guest_answer sample_support DISPLAY_CURRENT_VERSION
        (display_agreed_capabilities (su_capabilities sample_support)
          (map capability_wire (of_capabilities sample_offer))) sample_guest_nonce)"
    unfolding sample_agreed by (rule sample_hello_decodes(2))
  let ?th = "transcript_record (transcript_record transcript_new [1]) [2]"
  obtain out g where g: "on_client_hello sample_crypto sample_wire
      (session_guest [7] sample_support sample_guest_nonce) [1] = (Ok out, g)"
    and g': "\<exists>m. out_reply out = Some m \<and> record_msg.rec_payload m = [2]"
      "\<exists>m. ss_pending_auth g = Some m \<and> record_msg.rec_payload m = control_tag sample_crypto [7] Guest ?th"
      "ss_session_key g = Some [7]" "ss_transcript_hash g = Some ?th"
    using sample_widths sample_resolved
    by (simp add: on_client_hello_def session_guest_def sample_wire_def sample_crypto_def from_wire
        derive_session_key_def control_record_def record_new_def transcript_finish_def session_key_def Let_def)
  obtain out' h where h: "on_server_hello sample_crypto sample_wire
      (fst (session_host sample_crypto sample_wire [7] sample_offer sample_session_id sample_host_nonce)) [2] = (Ok out', h)"
    "ss_session_key h = Some [7]" "ss_transcript_hash h = Some ?th"
    using sample_widths sample_resolved display_capabilities.agreement
      [of "of_capabilities sample_offer" "su_capabilities sample_support"]
    by (simp add: on_server_hello_def session_host_def sample_wire_def sample_crypto_def from_wire
        derive_session_key_def control_record_def transcript_finish_def session_key_def sample_agreed Let_def)
  obtain answer proof_record where m: "out_reply out = Some answer" "record_msg.rec_payload answer = [2]"
    "ss_pending_auth g = Some proof_record" "record_msg.rec_payload proof_record = control_tag sample_crypto [7] Guest ?th"
    using g' by blast
  obtain out'' h' where a: "on_server_auth sample_crypto sample_wire h (record_msg.rec_payload proof_record) = (Ok out'', h')"
    using h m(4) sample_control_tag_length [of "[7]" Guest ?th]
    by (simp add: on_server_auth_def sample_wire_def from_wire verify_tag_def control_record_def)
  have sent: "enc_client_hello sample_wire (offer_hello sample_offer sample_session_id sample_host_nonce) = [1]"
    by (simp add: sample_wire_def)
  have "ss_negotiated h' = ss_pending g"
    using downgrade_detected [OF g m(1,3) h(1) a g'(3,4) h(2,3) _ _ _ _ _ _ sample_hello_decodes(1) reply
        sample_auth_decodes] m(2) sent by simp
  then show ?thesis using g h(1) a m by (intro exI conjI) auto
qed

text \<open>
  C14. However a session's owner drives it and whatever records anyone sends it,
  none of its \<open>expect\<close>s fails: each handler finds the nonces, keys and settings it needs. A
  session has an agreement exactly when it is established, and a refused record changes neither.
\<close>

theorem session_never_panics:
  assumes "session_run cr w s"
  shows "fst (handle cr w random s h payload) \<noteq> Panic \<and>
    fst (open_channel cr w nonce s channel) \<noteq> Panic \<and> fst (reconnect_channel cr w nonce s channel) \<noteq> Panic \<and>
    (ss_negotiated s \<noteq> None \<longleftrightarrow> ss_state s = Established) \<and>
    (\<forall>err s'. handle cr w random s h payload = (Err err, s') \<longrightarrow>
       ss_state s' = ss_state s \<and> ss_negotiated s' = ss_negotiated s)"
proof -
  have wf: "wf_session s" using session_run_wf [OF assms] .
  then show ?thesis
    using kept_handle [OF wf] kept_channel_hello_record [OF wf] kept_reconnect_channel [OF wf]
      handle_refused [of cr w random s h payload]
    by (simp add: kept_def open_channel_def wf_session_def)
qed

theorem session_never_panics_witness:
  "fst (handle sample_crypto sample_wire [] (session_guest [7] sample_support sample_guest_nonce)
     \<lparr>hd_channel = ChControl, hd_message_type = 1, hd_length = 0, hd_sequence = 0, hd_base = 0,
      hd_checksum = 0, hd_generation = 0\<rparr> []) \<noteq> Panic"
  using session_never_panics [OF run_guest [of sample_crypto sample_wire "[7]" sample_support sample_guest_nonce]]
  by blast

text \<open>
  The tile size of a session is one the guest offers: the largest
  not above the host's wish, or the smallest there is when all are above it; and there is none
  exactly when the guest offers none. Both ends decide alone, and this makes it the same size.
\<close>

theorem tile_size_is_the_best_common:
  "(\<forall>chosen. resolve_tile_size wish supported = Ok chosen \<longleftrightarrow> best_tile_size wish supported chosen) \<and>
   (resolve_tile_size wish supported = Err SNoCommonTileSize \<longleftrightarrow> supported = [])"
proof -
  have "resolve_tile_size wish supported = Ok chosen" if best: "best_tile_size wish supported chosen" for chosen
  proof (cases "resolve_tile_size wish supported")
    case (Ok other)
    then show ?thesis using best_tile_size_unique [OF best resolve_tile_size_best [OF Ok]] by simp
  next
    case (Err err)
    then show ?thesis using best by (simp add: resolve_tile_size_Err best_tile_size_def)
  qed (use resolve_tile_size_not_Panic in simp)
  then show ?thesis using resolve_tile_size_best resolve_tile_size_Err by blast
qed

theorem tile_size_is_the_best_common_witness:
  "best_tile_size 48 [64, 16, 32] 32 \<and> best_tile_size 8 [64, 16, 32] 16"
proof
  show "best_tile_size 48 [64, 16, 32] 32"
    using tile_size_is_the_best_common [of 48 "[64, 16, 32]"] by (auto simp: resolve_tile_size_def)
  show "best_tile_size 8 [64, 16, 32] 16"
    using tile_size_is_the_best_common [of 8 "[64, 16, 32]"] by (auto simp: resolve_tile_size_def)
qed

section \<open>The channels of a session\<close>

text \<open>
  Two established ends that hold the same key bind a channel with three
  records, opened or reopened by the host: both report it bound, with the same key, and the
  guest is on the generation the host asked for.
\<close>

theorem channel_exchange_binds:
  fixes cr w channel key host_nonce guest_nonce
  assumes "channel_hello_record cr w host_nonce h channel = (Ok hello, h1)"
    and "ss_state h = Established" "length (ss_channels h) = 4"
    and "ss_state g = Established" "length (ss_channels g) = 4" "ss_session_id g = ss_session_id h"
    and "channel_index channel = Ok i"
    and "established_channel_key cr h i channel = Ok key" "established_channel_key cr g i channel = Ok key"
    and "length (ss_session_id h) = SESSION_ID_LEN" "length host_nonce = NONCE_LEN" "length guest_nonce = NONCE_LEN"
      "\<And>role. length (channel_tag cr key role channel host_nonce guest_nonce) = TAG_LEN"
    and "decodes (enc_channel_hello w) (dec_channel_hello w)
        \<lparr>chh_session_id = ss_session_id h, chh_channel = unat (channel_as_wire channel),
         chh_generation = generation h channel, chh_nonce = host_nonce\<rparr>"
      "decodes (enc_channel_ack w) (dec_channel_ack w) \<lparr>ack_nonce = guest_nonce,
         ack_tag = channel_tag cr key Guest channel host_nonce guest_nonce\<rparr>"
      "decodes (enc_auth w) (dec_auth w) (channel_tag cr key Host channel host_nonce guest_nonce)"
  shows "\<exists>h2 g2. channel_exchange cr w guest_nonce h1 hello g =
      Ok (ChannelBound channel, h2, ChannelBound channel, g2) \<and>
    bound_channel_key h2 channel = Some key \<and> bound_channel_key g2 channel = Some key \<and>
    generation h2 channel = generation h channel \<and> generation g2 channel = generation h channel"
  using assms by (rule channel_binds)

lemma sample_channel_wire:
  "decodes (enc_channel_hello sample_wire) (dec_channel_hello sample_wire)
     \<lparr>chh_session_id = sample_session_id, chh_channel = 2, chh_generation = n, chh_nonce = sample_host_nonce\<rparr>"
  "decodes (enc_channel_ack sample_wire) (dec_channel_ack sample_wire) \<lparr>ack_nonce = sample_guest_nonce, ack_tag = tag\<rparr>"
  by (simp_all add: decodes_def sample_wire_def u32_to_le_def sample_guest_nonce_def)

lemma sample_opened:
  obtains hello h1 where "channel_hello_record sample_crypto sample_wire sample_host_nonce (sample_established Host) ChFrame = (Ok hello, h1)"
  using sample_established_sel(5) [of Host] by (auto simp: channel_hello_record_def channel_record_def Let_def)

theorem channel_exchange_binds_witness:
  "\<exists>hello h1 h2 g2.
     channel_hello_record sample_crypto sample_wire sample_host_nonce (sample_established Host) ChFrame = (Ok hello, h1) \<and>
     channel_exchange sample_crypto sample_wire sample_guest_nonce h1 hello (sample_established Guest) =
       Ok (ChannelBound ChFrame, h2, ChannelBound ChFrame, g2) \<and> bound_channel_key g2 ChFrame = Some [1]"
proof -
  obtain hello h1 where o: "channel_hello_record sample_crypto sample_wire sample_host_nonce (sample_established Host) ChFrame = (Ok hello, h1)"
    by (rule sample_opened)
  from channel_exchange_binds [OF o, where g = "sample_established Guest" and i = 0 and key = "[1]" and
      guest_nonce = sample_guest_nonce]
  show ?thesis
    using o sample_widths sample_channel_tag_length sample_channel_wire sample_auth_decodes by auto
qed

text \<open>
  After \<open>n\<close> reconnections a channel's generation has advanced by \<open>n\<close>,
  modulo \<open>2\<^sup>3\<^sup>2\<close>, and \<open>accept\<close> lets a record of the first socket's generation through only when
  that is no advance at all: with fewer than \<open>2\<^sup>3\<^sup>2\<close> reconnections never. Records of the other
  channels are not affected by one, and control records never.
\<close>

theorem stale_generations_refused:
  assumes "length (ss_channels s) = 4" "ss_role s = Host" "ss_negotiated s \<noteq> None"
    and "hd_channel h \<noteq> ChControl" "session_accept s h = Ok ()"
  shows "(session_accept (reconnects cr w nonces s (hd_channel h)) h = Ok () \<longleftrightarrow> 2 ^ 32 dvd length nonces) \<and>
    (\<forall>channel. channel \<noteq> hd_channel h \<and> channel \<noteq> ChControl \<longrightarrow>
       session_accept (snd (reconnect_channel cr w nonce s channel)) h = Ok ())"
proof -
  have "generation (reconnects cr w nonces s (hd_channel h)) (hd_channel h) =
      generation s (hd_channel h) + of_nat (length nonces)"
    by (rule reconnects_generation [OF assms(1,4,2,3)])
  moreover have "session_accept (snd (reconnect_channel cr w nonce s channel)) h = Ok ()"
    if "channel \<noteq> hd_channel h" "channel \<noteq> ChControl" for channel
    using reconnect_generation [OF assms(1) that(2) assms(2,3), of cr w nonce] assms(4,5) that
    by (auto simp: session_accept_Ok)
  ultimately show ?thesis
    using assms(4,5) by (simp add: session_accept_Ok u32_of_nat_eq_0_iff)
qed

theorem stale_generations_refused_witness:
  "session_accept (reconnects sample_crypto sample_wire [sample_host_nonce] (sample_established Host) ChFrame)
     \<lparr>hd_channel = ChFrame, hd_message_type = 9, hd_length = 0, hd_sequence = 0, hd_base = 0,
      hd_checksum = 0, hd_generation = 0\<rparr> \<noteq> Ok ()"
proof -
  let ?h = "\<lparr>hd_channel = ChFrame, hd_message_type = 9, hd_length = 0, hd_sequence = 0, hd_base = 0,
      hd_checksum = 0, hd_generation = 0\<rparr>"
  have "session_accept (sample_established Host) ?h = Ok ()"
    by (simp add: session_accept_def sample_established_def established_host_def channel_state_default_def
        numeral_eq_Suc)
  then show ?thesis
    using stale_generations_refused [of "sample_established Host" ?h sample_crypto sample_wire "[sample_host_nonce]"]
    by simp
qed




text \<open>
  C27. A socket the guest's display service binds has shown, over the nonce
  the guest has just drawn, the code that needs the channel's key under the host's role; its
  hello named this session and this channel and a generation past the last one; and nothing a
  peer sends makes \<open>bind\<close> panic. In particular a guest's own proof does not bind a socket, under
  any nonces, unless the codes of two different messages collide.
\<close>

theorem bind_needs_the_host_proof:
  "fst (bind cr w guest_nonce d channel key session_id last_generation) \<noteq> Panic \<and>
   (\<forall>g d'. bind cr w guest_nonce d channel key session_id last_generation = (Ok g, d') \<longrightarrow>
      (\<exists>h payload hello r h' payload' r'.
        record_read (crc32c cr) handshake_limits (dx_reader d) = (Ok (h, payload), r) \<and>
        dec_channel_hello w payload = Some hello \<and> chh_session_id hello = session_id \<and>
        chh_channel hello = unat (channel_as_wire channel) \<and> chh_generation hello = g \<and>
        (\<forall>previous. last_generation = Some previous \<longrightarrow> previous < g) \<and>
        record_read (crc32c cr) handshake_limits r = (Ok (h', payload'), r') \<and>
        dec_auth w payload' = Some (channel_tag cr key Host channel (chh_nonce hello) guest_nonce) \<and>
        (\<forall>hn gn. dec_auth w payload' = Some (channel_tag cr key Guest channel hn gn) \<longrightarrow>
           hmac cr key (role_label Guest @ [channel_as_wire channel] @ hn @ gn) =
           hmac cr key (role_label Host @ [channel_as_wire channel] @ chh_nonce hello @ guest_nonce))))"
proof -
  have "fst (bind cr w guest_nonce d channel key session_id last_generation) \<noteq> Panic"
    using bind_not_Panic by (metis prod.collapse)
  moreover have "dec_auth w p = Some (channel_tag cr key Guest channel hn gn) \<longrightarrow>
      hmac cr key (role_label Guest @ [channel_as_wire channel] @ hn @ gn) =
      hmac cr key (role_label Host @ [channel_as_wire channel] @ n @ guest_nonce)"
    if "dec_auth w p = Some (channel_tag cr key Host channel n guest_nonce)" for p n hn gn
    using that by (simp add: channel_tag_def)
  ultimately show ?thesis
    using bind_Ok [of cr w guest_nonce d channel key session_id last_generation] by meson
qed

text \<open>A host's half of one binding, as a socket carries it.\<close>

definition sample_ack :: record_msg where
  "sample_ack = record_new (crc32c sample_crypto) ChFrame CHANNEL_ACK 1 0 (generation (sample_established Host) ChFrame)
     (enc_channel_ack sample_wire \<lparr>ack_nonce = sample_guest_nonce,
        ack_tag = channel_tag sample_crypto [1] Guest ChFrame sample_host_nonce sample_guest_nonce\<rparr>)"

definition sample_conversation :: "record_msg \<Rightarrow> session \<Rightarrow> reply_outcome \<Rightarrow> session \<Rightarrow> record_msg \<Rightarrow> bool" where
  "sample_conversation hello h1 out h2 auth \<longleftrightarrow>
     channel_hello_record sample_crypto sample_wire sample_host_nonce (sample_established Host) ChFrame = (Ok hello, h1) \<and>
     deliver sample_crypto sample_wire h1 sample_ack = (Ok out, h2) \<and> out_reply out = Some auth"

lemma sample_conversation_exists:
  obtains hello h1 out h2 auth where "sample_conversation hello h1 out h2 auth"
proof -
  obtain hello h1 where o: "channel_hello_record sample_crypto sample_wire sample_host_nonce (sample_established Host) ChFrame = (Ok hello, h1)"
    by (rule sample_opened)
  then have h1: "ss_state h1 = Established" "cs_host_nonce (ss_channels h1 ! 0) = Some sample_host_nonce"
    "established_channel_key sample_crypto h1 0 ChFrame = Ok [1]"
    using sample_established_sel(5) [of Host] by (auto simp: channel_hello_record_def channel_record_def Let_def)
  have "decodes (enc_channel_ack sample_wire) (dec_channel_ack sample_wire) \<lparr>ack_nonce = sample_guest_nonce,
      ack_tag = channel_tag sample_crypto [1] Guest ChFrame sample_host_nonce sample_guest_nonce\<rparr>"
    by (rule sample_channel_wire)
  then show ?thesis
    using that o h1 sample_widths sample_channel_tag_length
    by (auto simp: sample_conversation_def deliver_def handle_def sample_ack_def record_new_def header_for_payload_def
        message_types on_channel_ack_def decodes_def from_wire verify_tag_def channel_record_def Let_def)
qed

lemma sample_socket:
  "prompt {Interrupted} \<lparr>rd_clock = 0, rd_events = [(0, Data (record_bytes m @ bs))]\<rparr> (record_bytes m @ bs)"
  using length_header_encode [of "rec_header m"]
  by (auto simp: prompt_def elapsed_def RECORD_COMPLETION_def record_bytes_def simp del: length_header_encode)

lemma sample_caps:
  "length (enc_channel_hello sample_wire m) \<le> INPUT_MAX_PAYLOAD"
  "length tag = 32 \<Longrightarrow> length (enc_auth sample_wire tag) \<le> INPUT_MAX_PAYLOAD"
  "length tag = 32 \<Longrightarrow> length (enc_channel_ack sample_wire \<lparr>ack_nonce = sample_guest_nonce, ack_tag = tag\<rparr>) \<le> INPUT_MAX_PAYLOAD"
  by (simp_all add: sample_wire_def sample_guest_nonce_def INPUT_MAX_PAYLOAD_def u32_to_le_def)

lemma sample_bound:
  obtains d d' where "bind sample_crypto sample_wire sample_guest_nonce d ChFrame [1] sample_session_id None =
     (Ok (generation (sample_established Host) ChFrame), d')"
proof -
  obtain hello h1 out h2 auth where o: "sample_conversation hello h1 out h2 auth" by (rule sample_conversation_exists)
  let ?d = "\<lparr>dx_reader = \<lparr>rd_clock = 0, rd_events = [(0, Data (record_bytes hello @ record_bytes auth))]\<rparr>,
    dx_sink = \<lparr>sink_taken = [], sink_script = []\<rparr>\<rparr>"
  have "prompt {Interrupted} (dx_reader ?d) (record_bytes hello @ record_bytes auth)" using sample_socket by simp
  then have "\<exists>d'. bind sample_crypto sample_wire sample_guest_nonce ?d ChFrame [1] (ss_session_id (sample_established Host)) None =
      (Ok (generation (sample_established Host) ChFrame), d')"
    using bind_host_session [of sample_crypto sample_wire sample_host_nonce "sample_established Host" ChFrame hello h1
        sample_guest_nonce "[1]" out h2 auth 0 ?d None] o
      sample_widths sample_channel_tag_length sample_channel_wire sample_auth_decodes sample_caps
    by (auto simp: sample_conversation_def sample_ack_def TAG_LEN_def)
  then show ?thesis using that by auto
qed

theorem bind_needs_the_host_proof_witness:
  "\<exists>d r h payload. record_read (crc32c sample_crypto) handshake_limits r = (Ok (h, payload), d) \<and>
     dec_auth sample_wire payload = Some (channel_tag sample_crypto [1] Host ChFrame sample_host_nonce sample_guest_nonce)"
proof -
  obtain d d' where "bind sample_crypto sample_wire sample_guest_nonce d ChFrame [1] sample_session_id None =
     (Ok (generation (sample_established Host) ChFrame), d')" by (rule sample_bound)
  moreover have "dec_channel_hello sample_wire payload = Some hello \<Longrightarrow> chh_nonce hello = sample_host_nonce" for payload hello
    by (auto simp: sample_wire_def)
  ultimately show ?thesis
    using bind_needs_the_host_proof [of sample_crypto sample_wire sample_guest_nonce d ChFrame "[1]" sample_session_id None]
    by metis
qed



text \<open>
  C40. \<open>Session::handle\<close> does not look at its own role: an established
  guest that has acknowledged a channel's hello takes its own acknowledgement back, finds its own
  tag right, and reports the channel bound, with no proof from the host. The guest's display
  service does not use this path: \<open>bind\<close> asks for the host's proof.
\<close>

theorem reflected_ack_binds_a_guest:
  assumes "ss_state g = Established" "length (ss_channels g) = 4" "ss_role g = Guest"
    and "channel_index channel = Ok i" "established_channel_key cr g i channel = Ok key"
    and "hd_channel h = channel" "hd_message_type h = CHANNEL_HELLO"
    and "dec_channel_hello w payload = Some \<lparr>chh_session_id = ss_session_id g,
        chh_channel = unat (channel_as_wire channel), chh_generation = n, chh_nonce = host_nonce\<rparr>"
    and "length (ss_session_id g) = SESSION_ID_LEN" "length host_nonce = NONCE_LEN"
      "length guest_nonce = NONCE_LEN"
      "length (channel_tag cr key Guest channel host_nonce guest_nonce) = TAG_LEN"
    and "decodes (enc_channel_ack w) (dec_channel_ack w) \<lparr>ack_nonce = guest_nonce,
         ack_tag = channel_tag cr key Guest channel host_nonce guest_nonce\<rparr>"
  shows "\<exists>out g1 ack out' g2. handle cr w guest_nonce g h payload = (Ok out, g1) \<and> out_reply out = Some ack \<and>
    deliver cr w g1 ack = (Ok out', g2) \<and> out_event out' = ChannelBound channel"
  using assms(1,2,4-) by (rule reflected_acknowledgement)

theorem reflected_ack_binds_a_guest_witness:
  "\<exists>out g1 ack out' g2.
     handle sample_crypto sample_wire sample_guest_nonce (sample_established Guest)
       \<lparr>hd_channel = ChFrame, hd_message_type = CHANNEL_HELLO, hd_length = 0, hd_sequence = 0, hd_base = 0,
        hd_checksum = 0, hd_generation = 0\<rparr> [5, 0, 0, 0] = (Ok out, g1) \<and> out_reply out = Some ack \<and>
     deliver sample_crypto sample_wire g1 ack = (Ok out', g2) \<and> out_event out' = ChannelBound ChFrame"
proof -
  have "u32_from_le 5 0 0 0 = 5" by (simp add: u32_from_le_def)
  then have hello: "dec_channel_hello sample_wire [5, 0, 0, 0] = Some \<lparr>chh_session_id = sample_session_id, chh_channel = 2,
      chh_generation = 5, chh_nonce = sample_host_nonce\<rparr>"
    by (simp add: sample_wire_def)
  show ?thesis
    by (rule reflected_ack_binds_a_guest [where i = 0 and key = "[1]" and n = 5 and host_nonce = sample_host_nonce])
       (use hello sample_widths sample_channel_tag_length sample_channel_wire in simp_all)
qed

text \<open>
  The channel keys can be derived from the moment both hellos are
  known: a guest that has only answered a hello, and is still waiting for the host's proof,
  already returns a key for every channel, although it has established nothing.
\<close>

theorem channel_keys_precede_the_proofs:
  assumes "on_client_hello cr w s payload = (Ok out, s')" "channel \<noteq> ChControl"
  shows "ss_state s' = AwaitingClientAuth \<and> derive_channel_key cr s' channel \<noteq> None"
proof -
  have "ss_state s' = AwaitingClientAuth"
    using assms(1) unfolding on_client_hello_def
    by (auto simp: attempt_Ok_iff control_record_def Let_def)
  moreover have "\<exists>key hash. ss_session_key s' = Some key \<and> ss_transcript_hash s' = Some hash"
    using assms(1) by (auto elim: on_client_hello_OkE)
  ultimately show ?thesis using assms(2) by (auto simp: derive_channel_key_eq)
qed

theorem channel_keys_precede_the_proofs_witness:
  "\<exists>out s'. on_client_hello sample_crypto sample_wire (session_guest [7] sample_support sample_guest_nonce) [1] = (Ok out, s') \<and>
     ss_negotiated s' = None \<and> derive_channel_key sample_crypto s' ChFrame \<noteq> None"
proof -
  obtain out s' where s': "on_client_hello sample_crypto sample_wire
      (session_guest [7] sample_support sample_guest_nonce) [1] = (Ok out, s')" "ss_negotiated s' = None"
    using sample_widths sample_resolved
    by (simp add: on_client_hello_def session_guest_def sample_wire_def from_wire derive_session_key_def
        control_record_def Let_def)
  then show ?thesis using channel_keys_precede_the_proofs [OF s'(1), of ChFrame] by blast
qed


section \<open>The clipboard\<close>


text \<open>
  C30. Whatever calls reach a clipboard exchange in whatever order,
  with whatever a peer sent: at most 48 MiB of a peer's selection are held, nothing over the cap of
  its kind is ever handed over to be applied, one picture at most is pulled, no chunk over
  60 KiB is sent, and only the four mime types are ever offered.
\<close>

theorem clipboard_holds_a_bounded_selection:
  "held_bytes (snd (clip_run calls clip_new)) \<le> 48 * 1024 * 1024 \<and> list_all op_ok (fst (clip_run calls clip_new))"
  using kept_run [OF wf_clip_new, of calls] held_bytes_bound by (simp add: clip_kept_def)

text \<open>
  A selection that one side offers arrives at the other as it was: when
  the contents are within the caps, the offer, the requests it leads to and the chunks that answer
  them end with the receiver applying exactly the kinds it wants, in order, each with its
  bytes, whatever either exchange was doing before.
\<close>

theorem clipboard_selection_crosses:
  assumes "\<And>k. length (contents k) \<le> kind_cap k" "kinds \<noteq> []"
    and "clip_local_offer kinds now a = (ops, a1)"
  shows "\<exists>serial mimes. last ops = ClipSend (ClipOffer serial mimes) \<and>
    (let (out, b1) = clip_peer_offer serial mimes now b in
     clip_pull contents now 4 a1 b1 [last out] =
       Some (map (\<lambda>k. \<lparr>pc_kind = k, pc_bytes = contents k\<rparr>) (wanted kinds)))"
  using assms by (rule clip_selection_crosses)

theorem clipboard_selection_crosses_witness:
  "\<exists>ops a1 serial mimes. clip_local_offer [Html, Text] 0 clip_new = (ops, a1) \<and>
    last ops = ClipSend (ClipOffer serial mimes) \<and>
    (let (out, b1) = clip_peer_offer serial mimes 0 clip_new in
     clip_pull (\<lambda>k. if k = Text then [65] else [60, 98, 62]) 0 4 a1 b1 [last out] =
       Some [\<lparr>pc_kind = Text, pc_bytes = [65]\<rparr>, \<lparr>pc_kind = Html, pc_bytes = [60, 98, 62]\<rparr>])"
proof -
  obtain ops a1 where a1: "clip_local_offer [Html, Text] 0 clip_new = (ops, a1)" by force
  have "length (if k = Text then [65 :: u8] else [60, 98, 62]) \<le> kind_cap k" for k
    by (cases k) (simp_all add: MAX_TEXT_TRANSFER_def MAX_IMAGE_TRANSFER_def)
  moreover have "wanted [Html, Text] = [Text, Html]" by (simp add: wanted_def ordered_def ORDER_def)
  ultimately show ?thesis
    using clipboard_selection_crosses [of "\<lambda>k. if k = Text then [65] else [60, 98, 62]" "[Html, Text]" 0 clip_new ops a1 clip_new] a1
    by auto
qed

text \<open>
  C20. Whatever calls reach a file exchange in whatever order, and whatever a
  peer sent: a tree that is published has all the bytes of every file, at most 4096 entries, no
  file and no total over the limits the exchange was made with, only checked paths and no two that
  differ in case alone; and of a transfer that did not finish nothing stays staged, but for the
  one that is under way.
\<close>

theorem files_publish_only_whole_trees:
  "case files_run lower calls (files_new policy now) of (ops, x) \<Rightarrow>
     list_all (publishable lower policy) (sg_published (stage_ops ops nothing_staged)) \<and>
     dom (sg_trees (stage_ops ops nothing_staged)) \<subseteq> set_option (fi_transfer (fx_incoming x))"
proof -
  obtain ops x where run: "files_run lower calls (files_new policy now) = (ops, x)" by force
  then have "files_inv lower policy x (stage_ops ops nothing_staged)"
    using files_kept_run [OF files_inv_new, of lower policy calls now] by (simp add: files_kept_def)
  then show ?thesis using run by (cases "fi_transfer (fx_incoming x)") (simp_all add: files_inv_def)
qed

text \<open>
  C29. A tree within the limits of both sides crosses whole: from the offer over the
  request to the last chunk neither side cancels anything, and the receiver publishes exactly the entries that
  the sender's walk found, in its order, with their bytes.
\<close>

theorem files_tree_crosses:
  assumes "fx_announced a" "fx_heard b"
    and "walk_fits lower (fx_policy a) files_tree_empty es" "walk_fits lower (fx_policy b) files_tree_empty es"
    and "files_local_offer now a = (offer, a1)" "last offer = FilesSend (FileOffer serial)"
    and "files_peer_offer serial now b = (request, b1)" "last request = FilesSend (FileRequest serial t)"
    and "files_peer_request serial t now a1 = (asked, a2)"
    and "files_run lower (walk_calls t now es) a2 = (sent, a3)"
  shows "\<exists>messages. sent = map FilesSend messages \<and> asked = [Enumerate t] \<and>
    (\<exists>b2. files_run lower (map (delivered now) messages) b1 =
       (concat (map (entry_ops lower t) es) @ [Commit t], b2)) \<and>
    sg_published (stage_ops (concat (map (entry_ops lower t) es) @ [Commit t]) nothing_staged) =
      [map (staged_of lower) es]"
proof -
  have a1: "fu_transfer (fx_outgoing a1) = None" "fu_serial (fx_outgoing a1) = serial" "fx_policy a1 = fx_policy a"
    using assms(1,5,6) by (auto simp: files_local_offer_def files_cancel_outgoing_def files_forget_outgoing_def
        Let_def split: option.splits)
  have b1: "fi_transfer (fx_incoming b1) = Some t" "fi_tree (fx_incoming b1) = files_tree_empty" "fx_policy b1 = fx_policy b"
    using assms(2,7,8) by (auto simp: files_peer_offer_def files_cancel_incoming_def files_forget_incoming_def
        Let_def split: option.splits)
  have a2: "asked = [Enumerate t]" "fu_transfer (fx_outgoing a2) = Some t" "fu_tree (fx_outgoing a2) = files_tree_empty"
    "fx_policy a2 = fx_policy a"
    using assms(9) a1 by (auto simp: files_peer_request_def files_cancel_outgoing_def)
  let ?messages = "concat (map (entry_messages t) es) @ [FileComplete t]"
  have "sent = map FilesSend ?messages" using sender_walk [of a2 t lower es now] a2 assms(3,10) by auto
  moreover have "\<exists>b2. files_run lower (map (delivered now) ?messages) b1 =
      (concat (map (entry_ops lower t) es) @ [Commit t], b2)"
    using receiver_walk [of b1 t lower es now] b1 assms(4) by auto
  moreover have "sg_published (stage_ops (concat (map (entry_ops lower t) es) @ [Commit t]) nothing_staged) =
      [map (staged_of lower) es]"
    unfolding stage_walk by (simp add: nothing_staged_def tree_at_def)
  ultimately show ?thesis using a2(1) by blast
qed

definition sample_walk :: "walked list" where
  "sample_walk = [\<lparr>wk_path = utext_of ''d'', wk_kind = Directory, wk_chunks = []\<rparr>,
     \<lparr>wk_path = utext_of ''d/f'', wk_kind = File, wk_chunks = [[1, 2], [3]]\<rparr>]"

lemma sample_paths:
  "path_parse id [100] = Ok \<lparr>vp_path = [100], vp_key = [100]\<rparr>"
  "path_parse id [100, 47, 102] = Ok \<lparr>vp_path = [100, 47, 102], vp_key = [100, 47, 102]\<rparr>"
  by (simp_all add: path_parse_def check_component_def is_reserved_def RESERVED_def RESERVED_NUMBERED_def
      check_character_def is_control_def FORBIDDEN_def ends_with_def utf8_width_def MAX_PATH_BYTES_def MAX_DEPTH_def
      ascii_upper_def utext_of_def)

theorem files_tree_crosses_witness:
  "\<exists>messages b2 ops. fst (files_run id (walk_calls 1 0 sample_walk)
      (snd (files_peer_request 1 1 0 (snd (files_local_offer 0 ((files_new files_policy_default 0)\<lparr>fx_announced := True\<rparr>)))))) =
      map FilesSend messages \<and>
    files_run id (map (delivered 0) messages)
      (snd (files_peer_offer 1 0 ((files_new files_policy_default 0)\<lparr>fx_heard := True\<rparr>))) = (ops, b2) \<and>
    sg_published (stage_ops ops nothing_staged) = [map (staged_of id) sample_walk]"
proof -
  let ?a = "(files_new files_policy_default 0)\<lparr>fx_announced := True\<rparr>"
  let ?b = "(files_new files_policy_default 0)\<lparr>fx_heard := True\<rparr>"
  have fits: "walk_fits id files_policy_default files_tree_empty sample_walk"
    by (simp add: walk_fits_def walked_ok_def sample_walk_def files_tree_empty_def wk_parsed_def wk_size_def
        files_policy_default_def DEFAULT_MAX_FILE_BYTES_def DEFAULT_MAX_TRANSFER_BYTES_def MAX_ENTRIES_def CHUNK_def
        sample_paths utext_of_def)
  have policies: "fx_policy ?a = files_policy_default" "fx_policy ?b = files_policy_default"
    by (simp_all add: files_new_def)
  obtain offer a1 where a1: "files_local_offer 0 ?a = (offer, a1)" by force
  obtain request b1 where b1: "files_peer_offer 1 0 ?b = (request, b1)" by force
  obtain asked a2 where a2: "files_peer_request 1 1 0 a1 = (asked, a2)" by force
  obtain sent a3 where a3: "files_run id (walk_calls 1 0 sample_walk) a2 = (sent, a3)" by force
  have "last offer = FilesSend (FileOffer 1)" "last request = FilesSend (FileRequest 1 1)"
    using a1 b1 by (auto simp: files_local_offer_def files_peer_offer_def files_new_def files_cancel_outgoing_def
        files_cancel_incoming_def Let_def)
  then show ?thesis
    using files_tree_crosses [of ?a ?b id sample_walk 0 offer a1 1 request b1 1 asked a2 sent a3]
      fits policies a1 b1 a2 a3 by (auto simp: files_new_def)
qed




section \<open>Sound\<close>

text \<open>
  What the daemon does not send can be made up for: with a host that takes
  everything, the loop puts one record on the wire for each period it sends, numbered in order, and
  the records, put where their positions say with silence in between, are exactly the sound that was
  captured. Positions may come round; the stretch is shorter than a whole turn of 2^32 frames.
\<close>

theorem sound_survives_suppression:
  assumes "0 < bytes_per_frame (au_format (pm_stream p))" "au_waiting (pm_stream p) = []"
    and "sink_script (pm_sink p) = []" "CaptureFailed \<notin> set evs"
    and "list_all (whole_frames (au_format (pm_stream p))) (periods_of evs)"
    and "\<forall>period \<in> set (periods_of evs). length period \<le> AUDIO_MAX_PAYLOAD"
    and "length (concat (periods_of evs)) div bytes_per_frame (au_format (pm_stream p)) < 2 ^ 32"
  shows "\<exists>sents p'. audio_loop crc g evs p = (Ok (PumpWaiting, p') :: (unit, _) outcome) \<and>
    sink_taken (pm_sink p') = sink_taken (pm_sink p) @ wire_of crc g (pm_sequence p) sents \<and>
    rebuild (bytes_per_frame (au_format (pm_stream p))) (au_position (pm_stream p)) sents
      (au_position (pm_stream p')) = concat (periods_of evs)"
proof -
  have "unat (frames_between (au_position (pm_stream p)) (au_position (pm_stream p))) +
      length (concat (periods_of evs)) div bytes_per_frame (au_format (pm_stream p)) < 2 ^ 32"
    using assms(7) by (simp add: frames_between_def)
  then obtain sents s' where s': "captured_all (periods_of evs) (pm_stream p) = (Ok (sents, s') :: (unit, _) outcome)"
    "rebuild (bytes_per_frame (au_format (pm_stream p))) (au_position (pm_stream p)) sents (au_position s') =
       concat (periods_of evs)"
    using captured_rebuild [OF assms(1,5), of "au_position (pm_stream p)"] by (auto simp: frames_between_def)
  with audio_loop_healthy [OF s'(1) assms(3,2,4) _ assms(6), of crc g] assms(1) show ?thesis by auto
qed

definition sample_format :: audio_format where
  "sample_format = \<lparr>af_sample_rate = 48000, af_channels = 1, af_sample_format = S16Le, af_frames_per_period = 1\<rparr>"

definition sample_pump :: "sink \<Rightarrow> pump_state" where
  "sample_pump w = \<lparr>pm_stream = (stream_new sample_format)\<lparr>au_position := -1\<rparr>, pm_sequence = 1, pm_dropped = 0, pm_sink = w\<rparr>"

theorem sound_survives_suppression_witness:
  "\<exists>sents p'. audio_loop (\<lambda>_. 0) 1 (Captured [1, 2] # replicate 12 (Captured [0, 0]) @ [Captured [3, 4]])
       (sample_pump \<lparr>sink_taken = [], sink_script = []\<rparr>) = (Ok (PumpWaiting, p') :: (unit, _) outcome) \<and>
    sink_taken (pm_sink p') = wire_of (\<lambda>_. 0) 1 1 sents \<and>
    rebuild 2 (-1) sents (au_position (pm_stream p')) = [1, 2] @ replicate 24 0 @ [3, 4]"
proof -
  let ?p = "sample_pump \<lparr>sink_taken = [], sink_script = []\<rparr>"
  have "periods_of (replicate n (Captured [0, 0]) @ [Captured [3, 4]]) = replicate n [0, 0] @ [[3, 4]]" for n
    by (induction n) simp_all
  moreover have "concat (replicate n [0, 0 :: u8]) = replicate (2 * n) 0" for n by (induction n) simp_all
  ultimately show ?thesis
    using sound_survives_suppression [of ?p "Captured [1, 2] # replicate 12 (Captured [0, 0]) @ [Captured [3, 4]]" "\<lambda>_. 0" 1]
    by (auto simp: sample_pump_def stream_new_def sample_format_def bytes_per_frame_def whole_frames_def AUDIO_MAX_PAYLOAD_def
        list_all_iff sum_list_replicate)
qed

text \<open>
  A period that the host does not take in time is not always dropped whole:
  \<open>write_all\<close> may have written a piece of its record when the timeout strikes, and the loop goes on
  with the next record behind the piece. When one byte went out, the host reads it and the
  next header as one, finds a channel that does not exist, and ends the channel.
\<close>

theorem torn_record_ends_the_sound:
  assumes "bytes_per_frame (au_format (pm_stream p)) \<noteq> 0" "au_waiting (pm_stream p) = []"
    and "pm_sink p = \<lparr>sink_taken = [], sink_script = [Refuse 1 WouldBlock]\<rparr>"
    and "length a \<le> AUDIO_MAX_PAYLOAD" "length b \<le> AUDIO_MAX_PAYLOAD"
    and "\<not> list_all (\<lambda>x. x = 0) a" "\<not> list_all (\<lambda>x. x = 0) b"
  shows "\<exists>p'. audio_loop crc g [Captured a, Captured b] p = (Ok (PumpWaiting, p') :: (unit, _) outcome) \<and>
    (\<exists>r'. record_read crc (limits_new 0 0) \<lparr>rd_clock = 0, rd_events = [(0, Data (sink_taken (pm_sink p')))]\<rparr> =
       (Err (UnknownChannel 24), r'))"
proof -
  obtain p' h where p': "audio_loop crc g [Captured a, Captured b] p = (Ok (PumpWaiting, p') :: (unit, _) outcome)"
    "sink_taken (pm_sink p') = 24 # header_encode h @ b"
    using torn_record [OF assms] by blast
  then have "prompt {} \<lparr>rd_clock = 0, rd_events = [(0, Data (sink_taken (pm_sink p')))]\<rparr> (24 # header_encode h @ b)"
    by (simp add: prompt_def elapsed_def RECORD_COMPLETION_def)
  from torn_header [OF this] p'(1) show ?thesis by auto
qed

theorem torn_record_ends_the_sound_witness:
  "\<exists>p'. audio_loop (\<lambda>_. 0) 1 [Captured [1, 2], Captured [3, 4]]
       (sample_pump \<lparr>sink_taken = [], sink_script = [Refuse 1 WouldBlock]\<rparr>) = (Ok (PumpWaiting, p') :: (unit, _) outcome) \<and>
    (\<exists>r'. record_read (\<lambda>_. 0) (limits_new 0 0) \<lparr>rd_clock = 0, rd_events = [(0, Data (sink_taken (pm_sink p')))]\<rparr> =
       (Err (UnknownChannel 24), r'))"
  by (rule torn_record_ends_the_sound)
     (simp_all add: sample_pump_def stream_new_def sample_format_def bytes_per_frame_def AUDIO_MAX_PAYLOAD_def)

text \<open>
  The renderer asks the endpoint for a buffer of whole frames and copies
  the whole payload into it. The copy stays inside exactly when the payload is whole frames, which a
  guest decides: any other payload that is played is written past the end of the buffer.
\<close>

theorem playing_overruns_on_a_torn_frame:
  assumes "audio_handle dec built endpoint h payload muted renderer = (Ok (played, Some r) :: (unit, _) outcome)"
    and "\<And>r. renderer = Some r \<Longrightarrow> renderer_fits r"
    and "af_channels (rn_format r) \<le> u16_max" "length pcm \<le> AUDIO_MAX_PAYLOAD"
    and "renderer_play endpoint' position pcm r = (Ok (PlayedInto copied capacity, r') :: (unit, _) outcome)"
  shows "copied \<le> capacity \<longleftrightarrow> whole_frames (rn_format r) pcm"
proof -
  have fits: "renderer_fits r" using audio_handle_fits [OF assms(1,2)] .
  then have "0 < bytes_per_frame (rn_format r)" by (simp add: renderer_fits_def)
  then have "length pcm - length pcm mod bytes_per_frame (rn_format r) = length pcm \<longleftrightarrow> whole_frames (rn_format r) pcm"
    by (metis diff_le_self diff_zero dvd_eq_mod_eq_0 le_eq_less_or_eq less_irrefl_nat diff_less mod_less_eq_dividend
        not_gr_zero order_less_le_trans whole_frames_def)
  then show ?thesis using renderer_play_overrun [OF fits assms(3,4,5)] by auto
qed

theorem playing_overruns_on_a_torn_frame_witness:
  "\<exists>r r'. audio_handle (\<lambda>_. Some (format_message sample_format)) True None
       \<lparr>hd_channel = ChAudio, hd_message_type = AUDIO_FORMAT, hd_length = 0, hd_sequence = 0, hd_base = 0, hd_checksum = 0,
        hd_generation = 0\<rparr> [] False None = (Ok (PlayedNothing, Some r) :: (unit, _) outcome) \<and>
    renderer_play (Some (480, 0)) 0 [1, 2, 3] r = (Ok (PlayedInto 3 2, r') :: (unit, _) outcome) \<and>
    \<not> whole_frames (rn_format r) [1, 2, 3]"
proof -
  let ?r = "\<lparr>rn_format = sample_format, rn_wave = \<lparr>wv_channels = 1, wv_samples_per_sec = 48000,
    wv_avg_bytes_per_sec = 96000, wv_block_align = 2, wv_bits = 16\<rparr>, rn_muted = False, rn_last_position = None\<rparr>"
  let ?h = "\<lparr>hd_channel = ChAudio, hd_message_type = AUDIO_FORMAT, hd_length = 0, hd_sequence = 0, hd_base = 0,
    hd_checksum = 0, hd_generation = 0\<rparr>"
  have handled: "audio_handle (\<lambda>_. Some (format_message sample_format)) True None ?h [] False None =
      (Ok (PlayedNothing, Some ?r) :: (unit, _) outcome)"
    by (simp add: audio_handle_def format_round_trip sample_format_def renderer_new_def wave_format_of_def Let_def)
  have played: "\<exists>r'. renderer_play (Some (480, 0)) 0 [1, 2, 3] ?r = (Ok (PlayedInto 3 2, r') :: (unit, _) outcome)"
    by (simp add: renderer_play_def frames_in_def bytes_per_frame_def sample_format_def Let_def)
  then obtain r' where "renderer_play (Some (480, 0)) 0 [1, 2, 3] ?r = (Ok (PlayedInto 3 2, r') :: (unit, _) outcome)" ..
  then show ?thesis
    using playing_overruns_on_a_torn_frame [OF handled, of "[1, 2, 3]" "Some (480, 0)" 0 3 2 r'] handled
    by (auto simp: AUDIO_MAX_PAYLOAD_def sample_format_def)
qed

text \<open>
  An xrun leaves no trace in the stream: whatever it lost, the loop behaves as if
  the periods before and after it had been captured back to back, and their positions are adjacent.
\<close>

theorem xrun_leaves_no_gap:
  "audio_loop crc g evs p = audio_loop crc g (filter (\<lambda>ev. ev \<noteq> Xrun) evs) p"
  by (rule audio_loop_xrun)

section \<open>The host: threads, events and runs\<close>

text \<open>
  C15. The threads that start virtual machines hand each started machine over exactly
  once. For every sequence of start requests, steps of the threads and questions asked of the registry, from an empty
  registry: what was launched and ends in a started machine is what \<open>take_started\<close> returned together with
  what is still to come, as multisets; a name has one start at most; and once no start is at work a
  collection over all names returns the rest.
\<close>

theorem started_vms_handed_over_once:
  "case handover_run registry_launch registry_progress registry_collect turns (registry_new :: (unit, 'v) registry) of
     (launched, taken, r) \<Rightarrow>
       (\<Sum>(name, result) \<leftarrow> launched. result_promise name result) = mset taken + registry_pending r \<and>
       (\<forall>order. set order = dom (rg_jobs r) \<and> (\<forall>j \<in> ran (rg_jobs r). jb_finished j) \<longrightarrow>
          (\<Sum>(name, result) \<leftarrow> launched. result_promise name result) = mset (taken @ fst (take_started order r)))"
proof -
  obtain launched taken r where run: "handover_run registry_launch registry_progress registry_collect turns
      (registry_new :: (unit, 'v) registry) = (launched, taken, r)" by (rule prod_cases3)
  from starts.run_law [OF wf_registry_new run]
  have wf: "wf_registry r" and sum: "(\<Sum>(name, result) \<leftarrow> launched. result_promise name result) = mset taken + registry_pending r"
    by auto
  have rest: "registry_pending r = mset (fst (take_started order r))"
    if order: "set order = dom (rg_jobs r)" and over: "\<forall>j \<in> ran (rg_jobs r). jb_finished j" for order
  proof -
    have "rg_jobs (reap order r) n = None" for n
    proof (cases "rg_jobs r n")
      case (Some j)
      then have "jb_finished j" using over by (meson ranI)
      then show ?thesis using reap_complete [of r order n] order Some by simp
    qed (use reap_complete [of r order n] order in simp)
    then have "rg_jobs (reap order r) = Map.empty" by (rule ext)
    then show ?thesis using reap_kept(2) [OF wf, of order] by (simp add: registry_pending_def take_started_def Let_def)
  qed
  show ?thesis
    unfolding run prod.case sum mset_append by (intro conjI allI impI refl) (simp add: rest)
qed

definition sample_turns :: "(string, nat, query) turn list" where
  "sample_turns = [Launch ''a'' (Some 1), Launch ''a'' (Some 2), Progress ''a'', Progress ''a'']"

theorem started_vms_handed_over_once_witness:
  "\<exists>r. handover_run registry_launch registry_progress registry_collect sample_turns registry_new = ([(''a'', Some 1)], [], r) \<and>
     mset (fst (take_started [''a''] r)) = {#1#}"
proof -
  let ?j = "\<lparr>jb_about = (), jb_finished = True, jb_outcome = Some (1 :: nat), jb_thread = Left\<rparr>"
  obtain r where run: "handover_run registry_launch registry_progress registry_collect sample_turns registry_new = ([(''a'', Some 1)], [], r)"
    and jobs: "rg_jobs r = [''a'' \<mapsto> ?j]"
    by (simp add: sample_turns_def registry_launch_def registry_start_def registry_new_def registry_progress_def job_new_def
        job_step_def fun_eq_iff)
  have "set [''a''] = dom (rg_jobs r) \<and> (\<forall>j \<in> ran (rg_jobs r). jb_finished j)" by (simp add: jobs)
  then have "(\<Sum>(name, result) \<leftarrow> [(''a'', Some 1)]. result_promise name result) = mset ([] @ fst (take_started [''a''] r))"
    using started_vms_handed_over_once [of sample_turns] unfolding run prod.case by blast
  then have "mset (fst (take_started [''a''] r)) = {#1#}" by (simp add: result_promise_def)
  with run show ?thesis by blast
qed

text \<open>
  Every stop or reboot request that was accepted is answered exactly once, under
  the name and id of its machine, with its thread's answer or, when the thread ended without one, with an
  error; and no machine has two requests under way.
\<close>

theorem every_request_is_answered_once:
  "case handover_run workers_launch workers_progress workers_collect turns [] of (launched, taken, ws) \<Rightarrow>
     mset (taken @ fst (workers_join_all ws)) =
       mset (map (\<lambda>((vm_id, vm_name), result). \<lparr>fr_vm_id = vm_id, fr_vm_name = vm_name,
          fr_result = (case result of Some answer \<Rightarrow> answer | None \<Rightarrow> Err EndedWithoutAnswer)\<rparr>) launched) \<and>
     distinct (map wk_vm_id ws)"
proof -
  obtain launched taken ws where run: "handover_run workers_launch workers_progress workers_collect turns [] = (launched, taken, ws)"
    by (rule prod_cases3)
  have wf: "wf_workers []" by (simp add: wf_workers_def)
  have "(\<Sum>(k, r) \<leftarrow> launched. answer_promise k r) =
    mset (map (\<lambda>((vm_id, vm_name), result). \<lparr>fr_vm_id = vm_id, fr_vm_name = vm_name,
        fr_result = (case result of Some answer \<Rightarrow> answer | None \<Rightarrow> Err EndedWithoutAnswer)\<rparr>) launched)"
    by (induction launched) (auto simp: answer_promise_def split: prod.split)
  with requests.run_law [OF wf run] run show ?thesis
    by (simp add: workers_pending_def wf_workers_def workers_join_all_def)
qed

text \<open>
  However many events HCS reports between two drains, a drain returns the last 256
  of them in the order they came, and says exactly how many older ones were dropped.
\<close>

theorem event_queue_keeps_the_newest:
  "fst (sink_drain (fold sink_push events sink_new)) = (drop (length events - 256) events, length events - 256) \<and>
   snd (sink_drain (fold sink_push events sink_new)) = sink_new"
proof -
  have "sink_holds [] sink_new" by (simp add: sink_holds_def sink_new_def)
  from sink_holds_pushes [OF this, of events]
  have "sink_holds events (fold sink_push events sink_new)" by simp
  moreover have "sk_next_generation (fold sink_push events s) = sk_next_generation s" for s
    by (induction events arbitrary: s) simp_all
  ultimately show ?thesis
    by (simp add: sink_holds_def sink_drain_def sink_new_def EVENT_CAPACITY_def event_sink.defs)
qed


definition sample_exit :: hcs_vm_event where
  "sample_exit = \<lparr>ev_vm_id = 7, ev_vm_name = ''vm'', ev_generation = 0, ev_kind = Exited, ev_details = None\<rparr>"


definition sample_sink :: event_sink where
  "sample_sink = \<lparr>sk_events = [sample_exit], sk_dropped = 0, sk_next_generation = 2\<rparr>"



text \<open>
  The user interface offers to connect to the display of a running machine exactly when
  opening it passes the repository's checks or the facts carry the failure of an update that was rolled back;
  for that failure the offer stands and every attempt is refused with it.
\<close>

theorem connect_is_offered_when_it_works:
  "(is_connectable (display_derive_status profile provisioning (Running agent) facts now) \<longleftrightarrow>
      open_display_preflight profile provisioning (Some SystemRunning) facts = Ok () \<or>
      (\<exists>failure. open_display_preflight profile provisioning (Some SystemRunning) facts = Err (NotWorking failure) \<and>
         df_code failure = PayloadUpdateRolledBack)) \<and>
   open_display_preflight profile provisioning state facts \<noteq> Panic"
proof -
  have "(\<exists>failure. open_display_preflight profile provisioning (Some SystemRunning) facts = Err (NotWorking failure) \<and>
         df_code failure = PayloadUpdateRolledBack) \<longleftrightarrow>
      wants_desktop profile \<and> provisioning = ProvisionReady \<and>
      (\<exists>failure. vf_failure facts = Some failure \<and> df_code failure = PayloadUpdateRolledBack)"
    by (auto simp: open_display_preflight_def split: DisplayProvisioning.splits option.splits GuestDisplayReport.splits)
  then show ?thesis
    by (auto simp: connectable_iff preflight_iff is_up_def open_display_preflight_def
        split: DisplayProvisioning.splits option.splits GuestDisplayReport.splits)
qed


text \<open>
  A machine that was started again while the request that stopped its last run
  was still unanswered loses its new run: the refresh that takes the new run over and collects the answer drops the
  new run's handle and agent, and no later refresh is handed that run again.
\<close>

theorem late_answer_gives_up_the_next_run:
  assumes "take_started (en_start_order env) (hr_starts r) = (started, starts)" "sv \<in> set started"
    and "mp_vm_id (sv_mapping sv) \<in> given_up r"
  shows "\<not> is_connected (mp_vm_id (sv_mapping sv)) (hr_connections (refresh env r)) \<and>
    hr_agents (refresh env r) (mp_vm_id (sv_mapping sv)) = None \<and> rg_started (hr_starts (refresh env r)) = []"
proof -
  have "rg_started (hr_starts (refresh env r)) = rg_started starts"
    using assms(1) by (simp add: refresh_starts)
  moreover have "rg_started starts = []" using assms(1) by (auto simp: take_started_def Let_def)
  ultimately show ?thesis using assms(3) by (simp add: is_connected_def refresh_fields before_drain_fields)
qed

definition sample_mapping :: run_mapping where
  "sample_mapping = \<lparr>mp_vm_id = 7, mp_vm_name = ''vm'', mp_system_id = ''vmlord-7'', mp_gpu_mode = GpuNone, mp_profile = Gnome,
     mp_provisioning = ProvisionReady\<rparr>"

definition sample_run :: started_vm where
  "sample_run = \<lparr>sv_mapping = sample_mapping, sv_session = 1\<rparr>"

definition sample_env :: run_env where
  "sample_env = \<lparr>en_now = 0, en_open = (\<lambda>_. open_result.Opened), en_registers = (\<lambda>_. True), en_partition = (\<lambda>_. True), en_directory = (\<lambda>_. True),
     en_agent = (\<lambda>_. Some 1), en_store_reads = True, en_store_writes = (\<lambda>_. True), en_reader_exited = (\<lambda>_. False),
     en_build_order = [], en_start_order = []\<rparr>"

definition sample_facts :: vm_display_facts where
  "sample_facts = display_facts_default\<lparr>vf_guest := Some (DisplayReady \<lparr>gdd_compositor = None, gdd_output = None\<rparr>)\<rparr>"

definition sample_host :: host_runs where
  "sample_host = \<lparr>hr_connections = Map.empty, hr_events = sample_sink, hr_consoles = Map.empty, hr_agents = Map.empty, hr_gpu = Map.empty,
     hr_display = [7 \<mapsto> \<lparr>dr_facts = sample_facts, dr_share = None\<rparr>],
     hr_windows_closed = [], hr_store = [sample_mapping], hr_builds = registry_new, hr_starts = registry_new,
     hr_shutdowns = [], hr_force_stops = [], hr_reboots = [], hr_disconnect_reported = False\<rparr>"

definition sample_overtaken :: host_runs where
  "sample_overtaken = sample_host\<lparr>hr_starts := \<lparr>rg_jobs = Map.empty, rg_started = [sample_run]\<rparr>,
     hr_shutdowns := [\<lparr>wk_vm_id = 7, wk_vm_name = ''vm'',
       wk_job = \<lparr>jb_about = (), jb_finished = True, jb_outcome = Some (Ok ()), jb_thread = Left\<rparr>\<rparr>]\<rparr>"

theorem late_answer_gives_up_the_next_run_witness: "\<not> is_connected 7 (hr_connections (refresh sample_env sample_overtaken))"
proof -
  have "take_started (en_start_order sample_env) (hr_starts sample_overtaken) = ([sample_run], registry_new)"
    by (simp add: sample_env_def sample_overtaken_def take_started_def reap_def registry_new_def)
  moreover have "mp_vm_id (sv_mapping sample_run) \<in> given_up sample_overtaken"
    by (simp add: given_up_def answered_iff sample_overtaken_def sample_run_def sample_mapping_def worker_collect_def job_join_def
        job_step_def)
  ultimately show ?thesis
    using late_answer_gives_up_the_next_run [of sample_env sample_overtaken "[sample_run]" registry_new sample_run]
    by (simp add: sample_run_def sample_mapping_def)
qed

text \<open>
  A guest that powers itself off leaves what it reported about its display
  behind, and only that: the refresh that reads its exit forgets its GPU facts and releases it. When
  the machine is started again and nothing has been heard of the new run, its display is already offered.
\<close>

theorem powered_off_guest_keeps_its_display_facts:
  assumes "v \<in> released_in (before_drain env r)" "v \<notin> given_up r" "wants_desktop profile"
    and "vf_failure (display_snapshot v (hr_display r)) = None" "vf_guest (display_snapshot v (hr_display r)) = Some (DisplayReady detail)"
  shows "\<not> is_connected v (hr_connections (refresh env r)) \<and> hr_gpu (refresh env r) v = None \<and>
    is_connectable (display_derive_status profile ProvisionReady Starting (display_snapshot v (hr_display (refresh env r))) now)"
proof -
  have "display_snapshot v (hr_display (refresh env r)) = display_snapshot v (hr_display r)"
    using assms(2) by (simp add: display_snapshot_def run_entry_def refresh_fields before_drain_fields)
  with assms show ?thesis by (simp add: is_connected_def refresh_fields connectable_iff is_up_def)
qed

lemma sample_host_before: "before_drain sample_env sample_host = sample_host"
  by (simp add: before_drain_def sample_host_def sample_env_def adopt_builds_def adopt_starts_def adopt_started_def take_started_def
      reap_def registry_new_def record_installed_desktops_def sample_mapping_def finish_shutdowns_def finish_force_stops_def)

theorem powered_off_guest_keeps_its_display_facts_witness:
  "is_connectable (display_derive_status Gnome ProvisionReady Starting (display_snapshot 7 (hr_display (refresh sample_env sample_host))) 0)"
proof -
  have "7 \<in> released_in (before_drain sample_env sample_host)"
    by (simp add: sample_host_before released_in_def drain_events_released)
      (auto simp: sample_host_def sample_sink_def sample_exit_def is_superseded_def supersedes_def releases_handle_def intro!: image_eqI [of _ _ sample_exit])
  moreover have "7 \<notin> given_up sample_host" by (simp add: given_up_def answered_iff sample_host_def)
  moreover have "display_snapshot 7 (hr_display sample_host) = sample_facts"
    by (simp add: display_snapshot_def run_entry_def sample_host_def)
  ultimately show ?thesis
    using powered_off_guest_keeps_its_display_facts [of 7 sample_env sample_host Gnome]
    by (simp add: wants_desktop_def sample_facts_def display_facts_default_def)
qed

section \<open>The host: addresses and the SSH port\<close>

text \<open>
  C36. The comparison of prefixes that \<open>overlaps\<close> makes is the question whether two subnets
  have an address in common; the subnet chosen for the guests is a candidate, has its gateway as one of its
  addresses, and shares an address with an occupied subnet only if every candidate does.
\<close>

theorem chosen_subnet_shares_no_address:
  "(overlaps a b \<longleftrightarrow> (\<exists>x. member x a \<and> member x b)) \<and>
   (\<exists>g. gateway (choose_subnet occupied) = (Ok g :: (unit, ipv4) outcome) \<and> member g (choose_subnet occupied)) \<and>
   ((\<exists>x s. s \<in> set occupied \<and> member x (choose_subnet occupied) \<and> member x s) \<longleftrightarrow>
    list_all (\<lambda>candidate. list_ex (\<lambda>s. \<exists>x. member x candidate \<and> member x s) occupied) CANDIDATE_SUBNETS)"
proof -
  have "choose_subnet occupied = subnet_new (ip 172 22 42 0) 24 \<or> choose_subnet occupied = subnet_new (ip 172 22 142 0) 24"
    using choose_subnet_candidate [of occupied] by (auto simp: CANDIDATE_SUBNETS_def)
  moreover have "network_address (subnet_new (ip 172 22 42 0) 24) \<noteq> - 1" "network_address (subnet_new (ip 172 22 142 0) 24) \<noteq> - 1"
    "sn_prefix_length (subnet_new a 24) < 32" for a by code_simp+
  ultimately have "\<exists>g. gateway (choose_subnet occupied) = (Ok g :: (unit, ipv4) outcome) \<and> member g (choose_subnet occupied)"
    using gateway_member [of "choose_subnet occupied"] by (auto simp: gateway_def)
  moreover have "(\<exists>x s. s \<in> set occupied \<and> member x (choose_subnet occupied) \<and> member x s) \<longleftrightarrow>
      (\<exists>s \<in> set occupied. overlaps (choose_subnet occupied) s)" by (auto simp: overlaps_iff_shared)
  moreover have "\<dots> \<longleftrightarrow> (\<forall>c \<in> set CANDIDATE_SUBNETS. \<exists>s \<in> set occupied. overlaps c s)"
    using choose_subnet_free [of occupied] choose_subnet_candidate [of occupied] by blast
  ultimately show ?thesis by (simp add: overlaps_iff_shared list_all_iff list_ex_iff)
qed






text \<open>
  C34. Whatever the paths of a guest's SSH daemon contain, the outer shell reads the command
  that writes a port as one call of a shell with one script, and that shell reads the script as the
  intended commands on the intended paths; run to its end it leaves the port in every file it names.
\<close>

theorem port_commands_mean_what_they_say:
  "\<exists>script. sh_read (write_command d port) = Some [Word ''sudo'', Word ''-n'', Word ''/bin/sh'', Word ''-c'', Word script] \<and>
     sh_read script = Some (concat (map command_tokens (script_commands d port))) \<and>
     guest_run (\<lambda>_. False) (script_commands d port) files =
       (0, case sd_units d of
          SocketActivated _ drop_in _ \<Rightarrow> files(sd_config_drop_in d \<mapsto> [''Port '' @ decimal port], drop_in \<mapsto> socket_lines port)
        | Service _ \<Rightarrow> files(sd_config_drop_in d \<mapsto> [''Port '' @ decimal port]))"
  unfolding write_command_def
  by (intro exI conjI, rule privileged_read, rule write_script_read, subst guest_run_done) (simp_all only: script_files not_False_eq_True)

text \<open>
  A move of the port says it was applied exactly when the command that writes the
  port ended with status 0 and one of ten probes answered, and that a restart is needed exactly when it ended with
  status 0 and none did; probing stops at the first answer, and nothing is probed and nothing restarted in any other case.
\<close>

theorem port_move_reports_what_happened:
  "case move_port env m port of
     (Ok result, events) \<Rightarrow>
       (\<exists>daemon run. pm_ssh_daemon m = Some daemon \<and> mv_run env (write_command daemon port) = Ok run \<and> rr_code run = Some 0 \<and>
          commands events = [write_command daemon port, restart_command daemon]) \<and>
       (result = Applied \<longleftrightarrow> (\<exists>k < 10. probe_answers env k)) \<and>
       probes events = (case find (probe_answers env) [0 ..< 10] of Some k \<Rightarrow> [0 ..< Suc k] | None \<Rightarrow> [0 ..< 10])
   | (Err failure, events) \<Rightarrow>
       probes events = [] \<and> (events = [] \<or> (\<exists>daemon. pm_ssh_daemon m = Some daemon \<and> commands events = [write_command daemon port] \<and>
          (case mv_run env (write_command daemon port) of Ok run \<Rightarrow> rr_code run \<noteq> Some 0 | _ \<Rightarrow> True)))
   | (Panic, events) \<Rightarrow> probes events = []"
proof (cases "move_port env m port")
  case (Pair result events)
  show ?thesis
  proof (cases result)
    case (Ok r)
    obtain daemon run where "pm_ssh_daemon m = Some daemon" "mv_run env (write_command daemon port) = outcome.Ok run" "rr_code run = Some 0"
      "commands events = [write_command daemon port, restart_command daemon]"
      and r: "r = fst (verify_port env)" "probes events = probes (snd (verify_port env))"
      by (rule move_port_ok [OF Pair [unfolded Ok]])
    moreover have "(r = Applied \<longleftrightarrow> (\<exists>k < 10. probe_answers env k)) \<and>
       probes events = (case find (probe_answers env) [0 ..< 10] of Some k \<Rightarrow> [0 ..< Suc k] | None \<Rightarrow> [0 ..< 10])"
      using verify_loop_report [where env = env and n = 10 and attempt = 0 and e = "[]", unfolded add_0] r
      by (auto simp: verify_port_def PROBE_ATTEMPTS_def split: prod.splits simp del: upt_Suc upt_rec_numeral)
    ultimately show ?thesis using Pair Ok by auto
  next
    case (Err failure)
    then show ?thesis using move_port_failed [OF Pair [unfolded Err]] Pair by (cases "events = []") (auto split: outcome.split)
  next
    case Panic
    then show ?thesis using Pair
      by (auto simp: move_port_defs split: if_splits option.splits outcome.splits prod.splits)
  qed
qed

section \<open>Images\<close>

text \<open>
  C10. The reader of a qcow2 image, with its two caches, answers every sequence of reads
  and seeks as the disk that the image's tables describe would, errors included; on offsets of that disk it
  never panics and never misses an entry of the first table, whatever the file says.
\<close>

theorem image_reader_is_the_disk:
  assumes "image_open f capacity = Ok im" "file_documented f"
  shows "answers_of (image_perform f) calls im = answers_of (disk_perform f im) calls 0 \<and>
    (\<forall>index < clusters im. disk_cluster f im index \<noteq> Panic \<and> disk_cluster f im index \<noteq> Err (Malformed (L1EntryMissing index))) \<and>
    im_virtual_size im \<le> capacity"
  using image_refines [OF assms(2) image_open_coherent(1) [OF assms(1)], of calls] image_open_coherent [OF assms(1)]
    disk_cluster_in_range [OF assms(2) image_open_coherent(1) [OF assms(1)]]
  by simp

definition sample_qcow_header :: bytes where
  "sample_qcow_header =
     [0x51, 0x46, 0x49, 0xFB, 0, 0, 0, 2, 0, 0, 0, 0, 0, 0, 0, 0, 0, 0, 0, 0, 0, 0, 0, 9,
      0, 0, 0, 0, 0, 0, 4, 0, 0, 0, 0, 0, 0, 0, 0, 1, 0, 0, 0, 0, 0, 0, 2, 0,
      0, 0, 0, 0, 0, 0, 0, 0, 0, 0, 0, 0, 0, 0, 0, 0, 0, 0, 0, 0, 0, 0, 0, 0]"

definition sample_image_file :: image_file where
  "sample_image_file = \<lparr>fl_opens = True, fl_length = Some 4096,
     fl_read = (\<lambda>offset n. if offset = 0 \<and> n = 72 then Ok sample_qcow_header else if offset + n \<le> 4096 then Ok (replicate n 0) else Err UnexpectedEof),
     fl_rewinds = True,
     fl_load = Some (Qcow2 \<lparr>pq_version = 2, pq_size = 1024, pq_cluster_size = 512, pq_l1_size = 1, pq_l1_table_offset = 512,
       pq_has_backing_file = False, pq_snapshots = 0, pq_l1_table = [1024]\<rparr>),
     fl_read_l2 = (\<lambda>offset bits. Some (map (\<lambda>i. Standard (i \<noteq> 0) 1536) [0 ..< 2 ^ bits div 8])),
     fl_read_contents = (\<lambda>entry c buffer. (True, replicate (length buffer) 7))\<rparr>"

definition sample_image :: qcow_image where
  "sample_image = \<lparr>im_file_length = 4096, im_l1_table = [1024], im_virtual_size = 1024, im_cluster_size = 512, im_entries_per_l2 = 64,
     im_compression = Zlib, im_position = 0, im_cluster = replicate 512 0, im_cluster_index = None, im_l2_table = [], im_l1_index = None\<rparr>"

lemma be_value_zeros: "be_value (replicate n 0) = 0"
  by (induction n) (simp_all add: be_value_def)

lemma sample_extensions: "check_extensions (fl_read sample_image_file) 72 4096 = Ok ()"
proof -
  have unroll: "MAX_HEADER_EXTENSIONS = Suc 31" by (simp add: MAX_HEADER_EXTENSIONS_def)
  show ?thesis unfolding check_extensions_def unroll extensions_loop.simps
    by (simp add: read_at_def sample_image_file_def be_u32_def be_value_zeros Let_def)
qed

lemma sample_inspected: "inspect (fl_read sample_image_file) 4096 4096 =
    Ok \<lparr>hf_version = 2, hf_virtual_size = 1024, hf_cluster_size = 512, hf_l1_size = 1, hf_l1_table_offset = 512, hf_compression = Zlib\<rparr>"
proof -
  have read: "fl_read sample_image_file 0 72 = Ok sample_qcow_header" by (simp add: sample_image_file_def)
  have fields: "take 4 sample_qcow_header = QCOW_MAGIC" "be_u32 sample_qcow_header 4 = 2" "be_u64 sample_qcow_header 8 = 0"
    "be_u32 sample_qcow_header 16 = 0" "be_u32 sample_qcow_header 20 = 9" "be_u64 sample_qcow_header 24 = 1024"
    "be_u32 sample_qcow_header 32 = 0" "be_u32 sample_qcow_header 36 = 1" "be_u64 sample_qcow_header 40 = 512" "be_u32 sample_qcow_header 60 = 0"
    by (simp_all add: sample_qcow_header_def be_u32_def be_u64_def be_value_def QCOW_MAGIC_def)
  have "check_l1_table 1 512 1024 512 4096 = Ok ()"
    by (simp add: check_l1_table_def div_ceil_def MAX_L1_ENTRIES_def saturating_add_def)
  then show ?thesis
    by (simp add: inspect_def read fields sample_extensions V2_HEADER_LENGTH_def MIN_CLUSTER_BITS_def MAX_CLUSTER_BITS_def)
qed

lemma sample_image_open: "image_open sample_image_file 4096 = Ok sample_image"
proof -
  have opened: "fl_opens sample_image_file" "fl_length sample_image_file = Some 4096" by (simp_all add: sample_image_file_def)
  have "load_qcow sample_image_file = Ok \<lparr>pq_version = 2, pq_size = 1024, pq_cluster_size = 512, pq_l1_size = 1, pq_l1_table_offset = 512,
       pq_has_backing_file = False, pq_snapshots = 0, pq_l1_table = [1024]\<rparr>"
    by (simp add: load_qcow_def sample_image_file_def)
  then show ?thesis by (simp add: image_open_def opened sample_inspected Let_def check_agreement_def sample_image_def)
qed

lemma sample_image_documented: "file_documented sample_image_file"
  by (simp add: file_documented_def sample_image_file_def Let_def)

lemma sample_bits: "trailing_zeros 512 = 9"
  by (simp add: trailing_zeros.simps)

lemma sample_cluster: "index < 2 \<Longrightarrow> disk_cluster sample_image_file sample_image index = Ok (replicate 512 (if index = 0 then 7 else 0))"
  by (simp add: disk_cluster_def l2_of_def check_span_def saturating_add_def index_at_def contents_of_def contents_span_def sample_image_def
      sample_image_file_def sample_bits Let_def nth_map_upt del: upt_rec_numeral)

theorem image_reader_is_the_disk_witness:
  "answers_of (image_perform sample_image_file) [SeekCall (SeekStart 1020), ReadCall 8] sample_image =
     [SeekAnswer (Ok 1020), ReadAnswer (Ok [0, 0, 0, 0])]"
proof -
  have "disk_read sample_image_file sample_image 8 1020 = (Ok [0, 0, 0, 0], 1024)"
  proof -
    have "im_virtual_size sample_image = 1024" "im_cluster_size sample_image = 512" by (simp_all add: sample_image_def)
    moreover have "replicate 4 (0 :: u8) = [0, 0, 0, 0]" by (simp add: numeral_eq_Suc)
    ultimately show ?thesis using sample_cluster [of 1] by (simp add: disk_read_def)
  qed
  then show ?thesis
    using image_reader_is_the_disk [OF sample_image_open sample_image_documented, of "[SeekCall (SeekStart 1020), ReadCall 8]"]
    by simp
qed

text \<open>
  C9. Importing an image whose clusters can be read onto a blank disk that is large enough, on
  a system that keeps what it is given, succeeds, and leaves the guest's disk there byte for byte with zeros behind it;
  what was written and what was skipped as holes add up to the image, and everything written was read back.
\<close>

theorem imported_disk_is_the_guest_disk:
  assumes "image_open f capacity = Ok im" "file_documented f" "readable f im"
    and "os_documented os" "SECTOR_ALIGNMENT dvd extent" "capacity \<le> extent" "extent < 9223372036854775808" "\<forall>n. \<not> cancel n"
  shows "\<exists>summary s d. copy_image stream_read drive_ops capacity CHUNK_BYTES cancel (f, im) (drive_open os (replicate extent 0) CHUNK_BYTES) =
      (Ok summary, s, d) \<and>
    pd_device d = guest_disk f im @ replicate (extent - im_virtual_size im) 0 \<and> length (guest_disk f im) = im_virtual_size im \<and>
    su_image_bytes summary = im_virtual_size im \<and> su_verified_bytes summary = su_written_bytes summary \<and>
    su_written_bytes summary + su_skipped_bytes summary = im_virtual_size im"
proof -
  note co = image_open_coherent [OF assms(1)]
  have len: "length (guest_disk f im) = im_virtual_size im" by (rule length_guest_disk [OF assms(2) co(1) assms(3)])
  have "stream_inv (f, im)" "stream_remaining (f, im) = guest_disk f im"
    using assms(2,3) co(1,2) by (simp_all add: stream_inv_def stream_remaining_def)
  moreover have "padded_length CHUNK_BYTES SECTOR_ALIGNMENT = CHUNK_BYTES"
    by (rule padded_length_multiple [OF sector_divides_chunk(2,1)])
  then have "drive_inv (drive_open os (replicate extent 0) CHUNK_BYTES)"
    using assms(4,5,7) by (simp add: drive_inv_def drive_open_def)
  moreover have "capacity < 18446744073709551616" using assms(6,7) by simp
  ultimately show ?thesis
    using import.copy_image_law [of "(f, im)" "drive_open os (replicate extent 0) CHUNK_BYTES" extent cancel capacity] co(3) assms(6,8) len
    by (auto simp: drive_open_def)
qed

definition sample_os :: device_os where
  "sample_os = \<lparr>os_seek = (\<lambda>_. True), os_write = (\<lambda>offset bs device. (Some (length bs), splice device offset bs)),
     os_read = (\<lambda>offset n device. Some (take n (drop offset device))), os_flush = (\<lambda>device. (True, device))\<rparr>"

theorem imported_disk_is_the_guest_disk_witness:
  "\<exists>summary s d. copy_image stream_read drive_ops 4096 CHUNK_BYTES (\<lambda>_. False) (sample_image_file, sample_image)
     (drive_open sample_os (replicate 4096 0) CHUNK_BYTES) = (Ok summary, s, d) \<and>
   pd_device d = guest_disk sample_image_file sample_image @ replicate 3072 0 \<and> take 3 (guest_disk sample_image_file sample_image) = [7, 7, 7]"
proof -
  have clusters: "clusters sample_image = 2" by (simp add: clusters_def div_ceil_def sample_image_def)
  then have "readable sample_image_file sample_image" using sample_cluster by (auto simp: readable_def)
  moreover have "os_documented sample_os" by (simp add: os_documented_def sample_os_def)
  moreover have "SECTOR_ALIGNMENT dvd 4096" by (simp add: SECTOR_ALIGNMENT_def)
  ultimately have "\<exists>summary s d. copy_image stream_read drive_ops 4096 CHUNK_BYTES (\<lambda>_. False) (sample_image_file, sample_image)
     (drive_open sample_os (replicate 4096 0) CHUNK_BYTES) = (Ok summary, s, d) \<and>
      pd_device d = guest_disk sample_image_file sample_image @ replicate (4096 - im_virtual_size sample_image) 0"
    using imported_disk_is_the_guest_disk [OF sample_image_open sample_image_documented, of sample_os 4096 "\<lambda>_. False"] by force
  moreover have "guest_disk sample_image_file sample_image = replicate 512 7 @ replicate 512 0"
  proof -
    have "[0 ..< 2] = [0, 1 :: nat]" "im_virtual_size sample_image = 1024" by (simp_all add: upt_rec sample_image_def)
    then show ?thesis using sample_cluster [of 0] sample_cluster [of 1] by (simp add: guest_disk_def clusters cluster_bytes_def)
  qed
  moreover have "take 3 (replicate 512 (7 :: u8)) = [7, 7, 7]" by (simp add: numeral_3_eq_3)
  ultimately show ?thesis by (simp add: sample_image_def)
qed


section \<open>The window and the control channel\<close>

text \<open>
  C13. The guest's broker, session after session, whatever bytes a host sends, whatever the
  other threads leave and whatever the module answers: no turn panics, a session never ends for want of keys, and
  everything written to the module is a list of distinct modes the output drives or one mode of a size it drives.
\<close>

theorem broker_survives_any_host:
  assumes "broker_run cr w cw secret b" "broker_turn cr w cw random inbox b = (res, b')"
  shows "(\<exists>ended noted. res = Ok (ended, noted) \<and> ended \<noteq> Some NoKeys) \<and>
    (\<forall>file t. (file, t) \<in> set (mf_written (br_files b')) \<longrightarrow>
       (case file of
          ModesFile \<Rightarrow> \<exists>ms. list_all drivable ms \<and> distinct ms \<and> mode_list ms = Ok t
        | ModeFile \<Rightarrow> \<exists>m. output_admissible (dm_width m) (dm_height m) = Some (dm_width m, dm_height m) \<and> t = written m @ [10]))"
proof -
  have "broker_ok b'" "\<exists>ended noted. res = Ok (ended, noted) \<and> ended \<noteq> Some NoKeys"
    using broker_turn_ok [OF broker_run_ok [OF assms(1)] assms(2)] by auto
  then show ?thesis by (fastforce simp: broker_ok_def list_all_iff write_ok_def sized_def split: mode_parameter.splits)
qed

definition terse_crypto :: crypto where
  "terse_crypto = \<lparr>hkdf = \<lambda>salt secret info. [7], hkdf_expand = \<lambda>key info. [8],
     hmac = \<lambda>key message. replicate 32 5, sha256 = \<lambda>bs. [9], crc32c = \<lambda>bs. 0\<rparr>"

definition terse_control_wire :: control_wire where
  "terse_control_wire = \<lparr>dec_ping = \<lambda>_. None, enc_pong = \<lambda>_. [4], dec_set_mode = \<lambda>_. None, dec_set_resolution = \<lambda>_. None,
     dec_set_available_modes = \<lambda>_. Some (offered (normalize_modes [(1280, 720, 60)]) (Some (select_mode None (normalize_modes [(1280, 720, 60)]))),
       Some (select_mode None (normalize_modes [(1280, 720, 60)]))),
     dec_set_display_mode = \<lambda>_. None, enc_display_state = \<lambda>_ _ _ _ _. [5], enc_error = \<lambda>_ _. [6],
     enc_capture_failed = \<lambda>_. [7], session_error_text = \<lambda>_. []\<rparr>"

definition terse_control :: "SessionState \<Rightarrow> control" where
  "terse_control state = (control_new [1] (support_from 1280 720) (replicate 32 3))
     \<lparr>ct_session := (session_guest [1] (support_from 1280 720) (replicate 32 3))\<lparr>ss_state := state, ss_session_key := Some [7],
        ss_transcript_hash := Some [9],
        ss_pending := Some \<lparr>ng_version = DISPLAY_CURRENT_VERSION, ng_capabilities = [HostDisplayModes], ng_mode = Desktop,
          ng_width = 1280, ng_height = 720, ng_tile_size = 32\<rparr>\<rparr>,
      ct_established := (state = Established), ct_host_modes := (state = Established)\<rparr>"

definition terse_stream :: "u16 \<Rightarrow> duplex" where
  "terse_stream t = \<lparr>dx_reader = \<lparr>rd_clock = 0, rd_events =
       [(0, Data (record_bytes (record_new (crc32c terse_crypto) ChControl t 0 0 0 (replicate 32 5)) @ []))]\<rparr>,
     dx_sink = \<lparr>sink_taken = [], sink_script = []\<rparr>\<rparr>"

definition quiet_inbox :: broker_inbox where
  "quiet_inbox = \<lparr>bi_stopping = False, bi_geometry = None, bi_fault = None, bi_commands = []\<rparr>"

lemma terse_read:
  "\<exists>r. record_read (crc32c terse_crypto) l (dx_reader (terse_stream t)) =
     (Ok (header_for_payload (crc32c terse_crypto) ChControl t 0 0 0 (replicate 32 5), replicate 32 5), r)"
  using control_record_read [OF sample_socket [of "record_new (crc32c terse_crypto) ChControl t 0 0 0 (replicate 32 5)" "[]"]]
  by (auto simp: terse_stream_def CONTROL_MAX_PAYLOAD_def)

theorem broker_survives_any_host_witness:
  "\<exists>b ended noted b'. broker_turn terse_crypto sample_wire terse_control_wire [] quiet_inbox b = (Ok (ended, noted), b') \<and> ended \<noteq> Some NoKeys"
proof -
  let ?b = "\<lparr>br_control = control_new [1] (support_from 1280 720) (replicate 32 3), br_stream = terse_stream 1,
     br_files = \<lparr>mf_mode = None, mf_answers = [], mf_written = []\<rparr>, br_modes = host_modes_default\<rparr>"
  obtain res b' where "broker_turn terse_crypto sample_wire terse_control_wire [] quiet_inbox ?b = (res, b')" by (metis prod.exhaust)
  with broker_survives_any_host [OF broker_start this] show ?thesis by blast
qed

text \<open>
  C5. The privileged process hands keys out only on a record that carries the host's proof
  over the handshake this guest has just made, and what it hands out are the four channel keys of that handshake.
\<close>

theorem keys_need_the_host_proof:
  assumes "control_ok (fst cd)" "control_pump cr w cw random cd = (Ok (CtlOpened params keys), cd')"
  shows "\<exists>h payload r key hash. record_read (crc32c cr) (ct_limits (fst cd)) (dx_reader (snd cd)) = (Ok (h, payload), r) \<and>
    hd_message_type h = CLIENT_AUTH \<and> dec_auth w payload = Some (control_tag cr key Host hash) \<and>
    ss_session_key (ct_session (fst cd)) = Some key \<and> ss_transcript_hash (ct_session (fst cd)) = Some hash \<and>
    sp_session_id params = ss_session_id (ct_session (fst cd)) \<and>
    sp_frame_key params = channel_key cr key hash ChFrame \<and> sp_input_key params = channel_key cr key hash ChInput \<and>
    dk_clipboard keys = channel_key cr key hash ChClipboard \<and> dk_audio keys = channel_key cr key hash ChAudio"
  using pump_opened [OF assms] by blast

theorem keys_need_the_host_proof_witness:
  "\<exists>params keys cd'. control_pump terse_crypto sample_wire terse_control_wire [] (terse_control AwaitingClientAuth, terse_stream 4) =
     (Ok (CtlOpened params keys), cd') \<and> dk_audio keys = channel_key terse_crypto [7] [9] ChAudio"
proof -
  obtain r where r: "record_read (crc32c terse_crypto) (ct_limits (terse_control AwaitingClientAuth)) (dx_reader (terse_stream 4)) =
     (Ok (header_for_payload (crc32c terse_crypto) ChControl 4 0 0 0 (replicate 32 5), replicate 32 5), r)"
    using terse_read by blast
  have ok: "control_ok (terse_control AwaitingClientAuth)"
    by (simp add: control_ok_def terse_control_def control_new_def session_guest_def wf_session_def keyed_def)
  have "\<exists>params keys cd'. control_pump terse_crypto sample_wire terse_control_wire [] (terse_control AwaitingClientAuth, terse_stream 4) =
     (Ok (CtlOpened params keys), cd')"
    using r
    by (simp add: control_pump_def Let_def terse_control_def header_for_payload_def handle_def on_client_auth_def sample_wire_def
        from_wire verify_tag_def control_tag_def terse_crypto_def control_answered_def send_pending_def pending_auth_def
        control_opened_def derive_channel_key_def control_new_def session_guest_def CLIENT_HELLO_def CLIENT_AUTH_def SERVER_HELLO_def SERVER_AUTH_def
        CHANNEL_HELLO_def CHANNEL_ACK_def CHANNEL_AUTH_def TAG_LEN_def display_tag_from_wire_def)
  then obtain params keys cd' where p: "control_pump terse_crypto sample_wire terse_control_wire [] (terse_control AwaitingClientAuth, terse_stream 4) =
     (Ok (CtlOpened params keys), cd')" by blast
  have "dk_audio keys = channel_key terse_crypto [7] [9] ChAudio"
    using keys_need_the_host_proof [OF _ p] ok by (auto simp: terse_control_def)
  then show ?thesis using p by blast
qed

text \<open>
  C22. Whatever a monitor reports and whatever was remembered, the list the viewer
  publishes is never one the guest refuses: the broker writes the whole list to the module and then the mode the viewer
  chose, in this order, and keeps both. An empty list becomes the fallback, which is the mode the viewer falls back to.
\<close>

theorem host_modes_reach_the_connector:
  fixes raw remembered
  defines "modes \<equiv> normalize_modes raw"
  defines "chosen \<equiv> select_mode remembered modes"
  defines "sent \<equiv> offered modes (Some chosen)"
  assumes "ct_established (br_control b)" "ct_host_modes (br_control b)" "mf_answers (br_files b) = []"
    and "\<not> bi_stopping inbox" "bi_geometry inbox = None" "bi_fault inbox = None" "bi_commands inbox = []"
    and "record_read (crc32c cr) (ct_limits (br_control b)) (dx_reader (br_stream b)) = (Ok (h, payload), r)"
    and "hd_channel h = ChControl" "hd_message_type h = control_record_wire SetAvailableModes"
    and "dec_set_available_modes cw payload = Some (sent, Some chosen)"
  shows "\<exists>t b'. mode_list (if sent = [] then [FALLBACK] else sent) = Ok t \<and>
    broker_turn cr w cw random inbox b = (Ok (None, [NoteModes (br_modes b')]), b') \<and>
    br_modes b' = \<lparr>hm_modes = (if sent = [] then [FALLBACK] else sent), hm_selected = Some chosen\<rparr> \<and>
    mf_written (br_files b') = mf_written (br_files b) @ [(ModesFile, t), (ModeFile, written chosen @ [10])]"
proof -
  note o = offered_is_taken [where raw = raw and remembered = remembered, folded modes_def, folded chosen_def, folded sent_def]
  obtain t where "mode_list (taken_modes sent) = Ok t" using o(5) by blast
  with turn_published [OF assms(4-14) o(1,2,4,3)] show ?thesis by (auto simp: taken_modes_def)
qed

theorem host_modes_reach_the_connector_witness:
  "\<exists>b b'. broker_turn terse_crypto sample_wire terse_control_wire [] quiet_inbox b = (Ok (None, [NoteModes (br_modes b')]), b') \<and>
     hm_selected (br_modes b') = Some \<lparr>dm_width = 1280, dm_height = 720, dm_refresh_hz = 60\<rparr>"
proof -
  let ?b = "\<lparr>br_control = terse_control Established, br_stream = terse_stream (control_record_wire SetAvailableModes),
     br_files = \<lparr>mf_mode = None, mf_answers = [], mf_written = []\<rparr>, br_modes = host_modes_default\<rparr>"
  have n: "normalize_modes [(1280, 720, 60)] = [\<lparr>dm_width = 1280, dm_height = 720, dm_refresh_hz = 60\<rparr>]"
    by (simp add: normalize_modes_def List.map_filter_simps display_mode_new_def mode_bounds)
  then have c: "select_mode None (normalize_modes [(1280, 720, 60)]) = \<lparr>dm_width = 1280, dm_height = 720, dm_refresh_hz = 60\<rparr>"
    by (simp add: select_mode_def fallback_mode_def SAFE_MODE_def)
  obtain r where r: "record_read (crc32c terse_crypto) (ct_limits (br_control ?b)) (dx_reader (br_stream ?b)) =
     (Ok (header_for_payload (crc32c terse_crypto) ChControl (control_record_wire SetAvailableModes) 0 0 0 (replicate 32 5), replicate 32 5), r)"
    using terse_read by (metis broker.select_convs(2))
  have "\<exists>t b'. mode_list (if offered (normalize_modes [(1280, 720, 60)]) (Some (select_mode None (normalize_modes [(1280, 720, 60)]))) = []
      then [FALLBACK] else offered (normalize_modes [(1280, 720, 60)]) (Some (select_mode None (normalize_modes [(1280, 720, 60)])))) = Ok t \<and>
    broker_turn terse_crypto sample_wire terse_control_wire [] quiet_inbox ?b = (Ok (None, [NoteModes (br_modes b')]), b') \<and>
    br_modes b' = \<lparr>hm_modes = (if offered (normalize_modes [(1280, 720, 60)]) (Some (select_mode None (normalize_modes [(1280, 720, 60)]))) = []
      then [FALLBACK] else offered (normalize_modes [(1280, 720, 60)]) (Some (select_mode None (normalize_modes [(1280, 720, 60)])))),
      hm_selected = Some (select_mode None (normalize_modes [(1280, 720, 60)]))\<rparr> \<and>
    mf_written (br_files b') = mf_written (br_files ?b) @ [(ModesFile, t), (ModeFile, written (select_mode None (normalize_modes [(1280, 720, 60)])) @ [10])]"
    by (rule host_modes_reach_the_connector [OF _ _ _ _ _ _ _ r])
       (simp_all add: terse_control_def quiet_inbox_def terse_control_wire_def header_for_payload_def)
  then obtain b' where "broker_turn terse_crypto sample_wire terse_control_wire [] quiet_inbox ?b = (Ok (None, [NoteModes (br_modes b')]), b')"
    "hm_selected (br_modes b') = Some (select_mode None (normalize_modes [(1280, 720, 60)]))"
    by auto
  then show ?thesis unfolding c by blast
qed


text \<open>
  C23. However long a drag is, it becomes one request, for the size it ended at, and none if
  that is what was last asked for; and when the guest comes up on what its own rule makes of that size, the window does
  not move and the viewer is where it was: the two ends do not chase each other.
\<close>

theorem dragged_window_asks_once:
  assumes "dragging None evs" "rs_pending r = None" "0 < width" "0 < height" "t + DEBOUNCE \<le> t'"
  shows "\<exists>r'. resize_events (evs @ [Seen width height t, Polled t']) r =
      ((if rs_requested r = Some (width, height) then [] else [(width, height)]), r') \<and>
    (\<forall>t''. resize_due t'' r' = (None, r')) \<and>
    (\<forall>w h f. output_admissible width height = Some (w, h) \<longrightarrow> follow_geometry f w h r' = r')"
proof -
  obtain r' where r': "resize_events (evs @ [Seen width height t, Polled t']) r =
      ((if rs_requested r = Some (width, height) then [] else [(width, height)]), r')"
    "rs_requested r' = Some (width, height)" "rs_pending r' = None"
    using drag_asked_once [OF assms] by blast
  then show ?thesis using answer_moves_nothing [OF r'(2)] by (auto simp: resize_due_def)
qed

theorem dragged_window_asks_once_witness:
  "fst (resize_events [Seen 800 600 0, Polled 100, Seen 1727 971 200, Polled 300, Seen 1727 973 310, Polled 560] resize_new) = [(1727, 973)]"
  using dragged_window_asks_once [of "[Seen 800 600 0, Polled 100, Seen 1727 971 200, Polled 300]" resize_new 1727 973 310 560]
  by (auto simp: resize_new_def DEBOUNCE_def)

text \<open>
  The placement of a frame never panics; the picture lies whole in the client area
  and touches two opposite edges of it; every point that is on it, and every point pulled onto it, names a pixel the
  guest has, the same one both ways; and a picture that is not shrunk has a column for every column of the guest.
\<close>

theorem picture_keeps_the_pointer_inside:
  "(\<exists>p. place_picture gw gh cw ch = Ok p) \<and>
   (\<forall>p. place_picture gw gh cw ch = Ok (Some p) \<longrightarrow>
      0 \<le> pic_x p \<and> pic_x p + int (pic_width p) \<le> cw \<and> 0 \<le> pic_y p \<and> pic_y p + int (pic_height p) \<le> ch \<and>
      (int (pic_width p) = cw \<or> int (pic_height p) = ch) \<and>
      (\<forall>x y. fst (to_guest_clamped p x y) < gw \<and> snd (to_guest_clamped p x y) < gh \<and>
         (\<forall>g. to_guest p x y = Some g \<longrightarrow> to_guest_clamped p x y = g)) \<and>
      (gw \<le> pic_width p \<longrightarrow> gw \<le> u32_max \<longrightarrow> (\<forall>g < gw. \<exists>i < pic_width p. scale_axis i (pic_width p) gw = g)))"
  using place_picture_cases [of gw gh cw ch "place_picture gw gh cw ch"] clamped_inside to_guest_clamped_agrees scale_onto
  by auto

theorem picture_keeps_the_pointer_inside_witness:
  "\<exists>p. place_picture 1920 1080 1280 1024 = Ok (Some p) \<and> fst (to_guest_clamped p 5000 (- 3)) < 1920"
proof -
  have p: "place_picture 1920 1080 1280 1024 = Ok (Some \<lparr>pic_x = 0, pic_y = 152, pic_width = 1280, pic_height = 720,
      pic_guest_width = 1920, pic_guest_height = 1080\<rparr>)"
    by (simp add: place_picture_def to_u32_def fit_axis_def)
  then show ?thesis using picture_keeps_the_pointer_inside [of 1920 1080 1280 1024] by blast
qed

text \<open>
  On a desktop of ordinary screens a remembered window opens where enough of it can be
  grabbed on one of them, and where it was left if that is still so.
\<close>

theorem opened_window_is_reachable:
  assumes "list_all sane_screen monitors" "monitors \<noteq> []"
  shows "\<exists>p. opening_position position extent monitors = Ok (Some p) \<and>
    list_ex (window_reachable (window_rectangle p extent)) monitors \<and>
    (list_ex (window_reachable (window_rectangle position extent)) monitors \<longrightarrow> p = position)"
  using opening_reachable [OF assms] .

theorem opened_window_is_reachable_witness:
  "\<exists>p. opening_position (4000, 200) (1280, 720) [\<lparr>sr_left = 0, sr_top = 0, sr_right = 1920, sr_bottom = 1040\<rparr>] = Ok (Some p) \<and>
     list_ex (window_reachable (window_rectangle p (1280, 720))) [\<lparr>sr_left = 0, sr_top = 0, sr_right = 1920, sr_bottom = 1040\<rparr>]"
proof -
  have "list_all sane_screen [\<lparr>sr_left = 0, sr_top = 0, sr_right = 1920, sr_bottom = 1040\<rparr>]"
    by (simp add: sane_screen_def MIN_VISIBLE_def)
  from opened_window_is_reachable [OF this, of "(4000, 200)" "(1280, 720)"] show ?thesis by blast
qed

text \<open>
  What is written of a window is read back as it was, and any file at all, whatever was
  done to it, is read as a window with pixels in it and a mode the output drives or none.
\<close>

theorem window_state_survives:
  "state_ok (window_state_parse contents) \<and>
   (\<forall>s. state_ok s \<and> state_widths s \<longrightarrow> window_state_parse (window_state_render s) = s)"
  using state_round_trip parse_finish_ok by (simp add: window_state_parse_def)

theorem window_state_survives_witness:
  "window_state_parse (window_state_render (window_state_default\<lparr>ws_position := Some (- 7, 3), ws_muted := True\<rparr>)) =
     window_state_default\<lparr>ws_position := Some (- 7, 3), ws_muted := True\<rparr>"
proof -
  let ?s = "window_state_default\<lparr>ws_position := Some (- 7, 3), ws_muted := True\<rparr>"
  have "state_ok ?s \<and> state_widths ?s"
    by (simp add: state_ok_def state_widths_def window_state_default_def DEFAULT_SIZE_def in_i32_def)
  then show ?thesis using window_state_survives [of "[]"] by blast
qed

section \<open>Input\<close>


definition unary_wire :: input_wire where
  "unary_wire =
     \<lparr>iw_enc_key = \<lambda>(n, b). (if b then 1 else 0) # replicate n 0,
      iw_dec_key = \<lambda>bs. Some (length bs - 1, bs \<noteq> [] \<and> hd bs = 1),
      iw_enc_motion = \<lambda>(x, y). replicate x 0 @ [1] @ replicate y 0,
      iw_dec_motion = \<lambda>bs. Some (length (takeWhile (\<lambda>b. b = 0) bs), length bs - length (takeWhile (\<lambda>b. b = 0) bs) - 1),
      iw_enc_button = \<lambda>(n, b). (if b then 1 else 0) # replicate n 0,
      iw_dec_button = \<lambda>bs. Some (length bs - 1, bs \<noteq> [] \<and> hd bs = 1),
      iw_enc_scroll = \<lambda>(h, v). (if h < 0 then 1 else 0) # (if v < 0 then 1 else 0) # replicate (nat \<bar>h\<bar>) 0 @ [1] @ replicate (nat \<bar>v\<bar>) 0,
      iw_dec_scroll = \<lambda>bs. let ds = drop 2 bs; h = length (takeWhile (\<lambda>b. b = 0) ds) in
        Some ((if bs ! 0 = 1 then -1 else 1) * int h, (if bs ! 1 = 1 then -1 else 1) * int (length ds - h - 1))\<rparr>"

lemma unary_prefix [simp]: "takeWhile (\<lambda>b. b = 0) (replicate n 0 @ 1 # bs) = replicate n (0 :: u8)"
  by (induction n) auto

lemma unary_wire_ok: "input_wire_ok unary_wire"
  by (auto simp: input_wire_ok_def unary_wire_def Let_def)

definition typing :: "nat \<Rightarrow> input_system" where
  "typing i = (let s = input_start\<lparr>sy_guest := take_input_devices [empty_sink, empty_sink]
       \<lparr>id_parameters = Some (1280, 720), id_keyboard = None, id_pointer = None\<rparr>, sy_up := True\<rparr> in
     if i = 0 then s\<lparr>sy_bound := True, sy_open := True, sy_wire := [ReleaseAllEv]\<rparr>
     else s\<lparr>sy_bound := True, sy_open := True, sy_policy := policy_new\<lparr>py_focused := True, py_keys := {30}\<rparr>,
       sy_orders := (if i = 1 then [KeyEv 30 True] else []),
       sy_guest := (if i = 1 then sy_guest s else guest_event unary_wire (KeyEv 30 True) (sy_guest s))\<rparr>)"

lemma empty_device: "sound_device empty_sink" "sink_taken empty_sink = []"
  by (simp_all add: sound_device_def whole_events_def)




text \<open>
  C18. A pointer over the picture of a guest whose screen is no wider than the range allows
  puts, through the policy, the record and the device, the kernel's axes exactly on the pixel it is over: reading the
  axes back over the screen gives the pixel that \<open>to_guest\<close> names.
\<close>

theorem pointer_lands_on_its_pixel:
  assumes "input_wire_ok iw" "devices_ok g" "id_pointer g \<noteq> None" "id_parameters g = Some (w, h)"
    "py_placement p = Some pic" "pic_guest_width pic = w" "pic_guest_height pic = h" "0 < w" "0 < h"
    "w \<le> WIDEST_SCREEN" "h \<le> WIDEST_SCREEN" "to_guest pic x y = Some (gx, gy)"
  shows "\<exists>pt vx vy. id_pointer (fold (guest_event iw) (py_queue (policy_report (PointerAt x y) (p\<lparr>py_queue := []\<rparr>))) g) = Some pt \<and>
    kernel_axis ABS_X (pt_events pt) = Some vx \<and> kernel_axis ABS_Y (pt_events pt) = Some vy \<and>
    axis_pixel vx w = gx \<and> axis_pixel vy h = gy \<and> gx < w \<and> gy < h"
proof -
  obtain pt where pt: "id_pointer g = Some pt" "pointer_ok pt" using assms(2,3) by (auto simp: devices_ok_def)
  have inside: "gx < w" "gy < h" using to_guest_inside [OF assms(12)] assms(6-9) by auto
  have "py_queue (policy_report (PointerAt x y) (p\<lparr>py_queue := []\<rparr>)) = [MotionEv gx gy]"
    using assms(5,12) by (simp add: policy_pointer_def push_motion_def)
  moreover have "axis_pixel (pointer_scale gx w) w = gx" "axis_pixel (pointer_scale gy h) h = gy"
    using pointer_scale_inside(1) inside assms(10,11) by auto
  ultimately show ?thesis
    using pointer_motion_ok [OF pt(2), of gx gy w h] guest_event_cases(2) [OF assms(1,4), of gx gy] pt(1) inside by auto
qed

theorem pointer_lands_on_its_pixel_witness:
  "\<exists>pt vx vy. id_pointer (fold (guest_event unary_wire) (py_queue (policy_report (PointerAt 400 300)
      (policy_new\<lparr>py_placement := Some \<lparr>pic_x = 0, pic_y = 0, pic_width = 800, pic_height = 600,
         pic_guest_width = 800, pic_guest_height = 600\<rparr>, py_queue := []\<rparr>)))
      (take_input_devices [empty_sink, empty_sink] \<lparr>id_parameters = Some (800, 600), id_keyboard = None, id_pointer = None\<rparr>)) = Some pt \<and>
    kernel_axis ABS_X (pt_events pt) = Some vx \<and> kernel_axis ABS_Y (pt_events pt) = Some vy \<and>
    axis_pixel vx 800 = 400 \<and> axis_pixel vy 600 = 300 \<and> 400 < (800 :: nat) \<and> 300 < (600 :: nat)"
  by (rule pointer_lands_on_its_pixel [where pic = "\<lparr>pic_x = 0, pic_y = 0, pic_width = 800, pic_height = 600,
      pic_guest_width = 800, pic_guest_height = 600\<rparr>", OF unary_wire_ok fresh_devices(1) [OF empty_device empty_device]])
    (simp_all add: take_input_devices_def WIDEST_SCREEN_def to_guest_def checked_sub32_def in_i32_def to_u32_def
      scale_axis_def)

text \<open>
  C19. What the viewer's session writes for a list of events is, cut up by the transport in
  any way, read back by the guest's process as exactly those events in that order: its devices end as if the events had
  been applied to them one after another, and every record is counted once.
\<close>

theorem input_events_arrive_in_order:
  assumes "list_all (small_event iw) es" "input_bound l"
  shows "\<exists>bs. li_taken (fold (send_input cr iw) es l) = li_taken l @ bs \<and>
    (\<forall>g d. gi_socket g = Some d \<and> gi_generation g = Some (li_generation l) \<and> prompt {Interrupted} (dx_reader d) bs \<longrightarrow>
      gi_devices (read_inputs cr iw (length es) g) = fold (guest_event iw) es (gi_devices g) \<and>
      gi_records (read_inputs cr iw (length es) g) = gi_records g + length es)"
  using input_channel_in_order [OF assms] by blast

definition sample_live :: live_input where
  "sample_live = \<lparr>li_session = session_guest [1] \<lparr>su_capabilities = [], su_modes = [], su_tile_sizes = [], su_width = 0, su_height = 0\<rparr> [],
     li_input = Some empty_sink, li_limits = handshake_limits\<rparr>"

definition listening :: "bytes \<Rightarrow> guest_input" where
  "listening bs = \<lparr>gi_devices = sy_guest (typing 0),
     gi_socket = Some \<lparr>dx_reader = \<lparr>rd_clock = 0, rd_events = (if bs = [] then [] else [(0, Data bs)])\<rparr>, dx_sink = empty_sink\<rparr>,
     gi_generation = Some 0, gi_records = 0, gi_limits = handshake_limits\<rparr>"

lemma listening_socket:
  "\<exists>d. gi_socket (listening bs) = Some d \<and> prompt {Interrupted} (dx_reader d) bs" "gi_generation (listening bs) = Some 0"
  "gi_records (listening bs) = 0"
  by (simp_all add: listening_def prompt_def elapsed_def RECORD_COMPLETION_def)

theorem input_events_arrive_in_order_witness:
  "gi_records (read_inputs terse_crypto unary_wire 2 (listening (li_taken (fold (send_input terse_crypto unary_wire) [KeyEv 30 True, ReleaseAllEv] sample_live)))) = 2"
proof -
  let ?es = "[KeyEv 30 True, ReleaseAllEv]" and ?l = sample_live
  let ?bs = "li_taken (fold (send_input terse_crypto unary_wire) ?es ?l)"
  have small: "list_all (small_event unary_wire) ?es"
    by (simp add: small_event_def unary_wire_def INPUT_MAX_PAYLOAD_def)
  have bound: "input_bound ?l" "li_taken ?l = []" "li_generation ?l = 0"
    by (simp_all add: input_bound_def sample_live_def session_guest_def generation_def channel_state_default_def)
  obtain bs where bs: "?bs = li_taken ?l @ bs"
    "\<And>g d. gi_socket g = Some d \<and> gi_generation g = Some (li_generation ?l) \<and> prompt {Interrupted} (dx_reader d) bs \<Longrightarrow>
      gi_records (read_inputs terse_crypto unary_wire (length ?es) g) = gi_records g + length ?es"
    using input_events_arrive_in_order [OF small bound(1), of terse_crypto] by blast
  then have "bs = ?bs" using bound(2) by simp
  moreover obtain d where "gi_socket (listening ?bs) = Some d" "prompt {Interrupted} (dx_reader d) ?bs"
    using listening_socket(1) by blast
  ultimately have "gi_records (read_inputs terse_crypto unary_wire (length ?es) (listening ?bs)) = gi_records (listening ?bs) + length ?es"
    using bs(2) [of "listening ?bs" d] bound(3) listening_socket(2) by (simp only: simp_thms)
  then show ?thesis by (simp only: listening_socket(3) list.size add_0 add_0_right numeral_2_eq_2 One_nat_def add_Suc_right)
qed

text \<open>
  However a turn of the wheel is cut into reports, the fine axes carry each report as it came,
  and the whole detents together with the kept fraction, which stays below one detent, add up to the same total.
\<close>

theorem wheel_loses_nothing:
  assumes "pointer_ok pt" "list_all (\<lambda>(h, v). sane_turn h \<and> sane_turn v) turns"
  defines "pt' \<equiv> fold (\<lambda>(h, v) pt. snd (pointer_scroll h v pt)) turns pt"
  shows "kernel_total REL_WHEEL_HI_RES (pt_events pt') = kernel_total REL_WHEEL_HI_RES (pt_events pt) + sum_list (map snd turns) \<and>
    kernel_total REL_HWHEEL_HI_RES (pt_events pt') = kernel_total REL_HWHEEL_HI_RES (pt_events pt) + sum_list (map fst turns) \<and>
    kernel_total REL_WHEEL (pt_events pt') * DETENT + pt_vertical pt' =
      kernel_total REL_WHEEL (pt_events pt) * DETENT + pt_vertical pt + sum_list (map snd turns) \<and>
    kernel_total REL_HWHEEL (pt_events pt') * DETENT + pt_horizontal pt' =
      kernel_total REL_HWHEEL (pt_events pt) * DETENT + pt_horizontal pt + sum_list (map fst turns) \<and>
    \<bar>pt_vertical pt'\<bar> < DETENT \<and> \<bar>pt_horizontal pt'\<bar> < DETENT \<and> pt_held pt' = pt_held pt"
  using assms(1,2) unfolding pt'_def
proof (induction turns arbitrary: pt)
  case Nil
  then show ?case by (simp add: pointer_ok_def)
next
  case (Cons turn turns)
  obtain h v where turn: "turn = (h, v)" by (cases turn)
  with Cons.prems have "sane_turn h" "sane_turn v" "list_all (\<lambda>(h, v). sane_turn h \<and> sane_turn v) turns" by auto
  with pointer_scroll_ok [OF Cons.prems(1)] Cons.IH turn show ?case by (fastforce simp: algebra_simps)
qed

theorem wheel_loses_nothing_witness:
  "kernel_total REL_WHEEL (pt_events (fold (\<lambda>(h, v) pt. snd (pointer_scroll h v pt)) [(0, 50), (0, 50), (0, 50)] (pointer_new empty_sink))) * DETENT +
     pt_vertical (fold (\<lambda>(h, v) pt. snd (pointer_scroll h v pt)) [(0, 50), (0, 50), (0, 50)] (pointer_new empty_sink)) = 150"
  using wheel_loses_nothing [of "pointer_new empty_sink" "[(0, 50), (0, 50), (0, 50)]"] empty_device
  by (simp add: pointer_ok_def pointer_new_def kernel_down_def DETENT_def sane_turn_def)

section \<open>Seeds\<close>

text \<open>
  C17. Any files with different names of 1 to 30 bytes that together stay under 4 GiB: the volume is built
  without a panic, is as long as its descriptor says, carries its label where a reader looks for it, lists exactly the
  files in order, and every file is read back byte for byte by a reader that walks the volume from its descriptor.
\<close>

theorem iso_image_reads_back:
  assumes "length volume_id \<le> 32" "\<forall>(n, c) \<in> set es. identifier_fits n" "iso_sectors es * SECTOR \<le> u32_max"
    "distinct (map fst es)" "\<forall>(n, c) \<in> set es. n \<noteq> [0] \<and> n \<noteq> [1]"
  shows "\<exists>img. build_iso volume_id es = Ok img \<and> length img = iso_sectors es * SECTOR \<and>
    iso_label img = volume_id @ replicate (32 - length volume_id) 32 \<and> take 6 (iso_descriptor img) = 1 # CD001 \<and>
    map ie_name (iso_entries img) = [0] # [1] # map fst es \<and> (\<forall>(n, c) \<in> set es. iso_file img n = Some c)"
  by (rule built_files_read [OF assms])

theorem iso_image_reads_back_witness:
  "\<exists>img. build_iso [67, 73] [([97], [1, 2, 3]), ([98, 99], [])] = Ok img \<and> iso_file img [97] = Some [1, 2, 3] \<and> iso_file img [98, 99] = Some []"
  using iso_image_reads_back [of "[67, 73]" "[([97], [1, 2, 3]), ([98, 99], [])]"]
  by (auto simp: identifier_fits_def MAX_IDENTIFIER_def iso_sectors_def sectors_for_records_def record_length_def SECTOR_def ROOT_LBA_def div_ceil_def)






end
